(* ===== verification/Prelude.thy ===== *)
theory Prelude
  imports Main
begin

text \<open>
  Shared vocabulary of the development.

  The repository is a Go SDK. A Go \<^verbatim>\<open>string\<close> is a sequence of bytes and HOL's
  \<^typ>\<open>string\<close> is a list of 8-bit characters, so the two coincide and \<^const>\<open>length\<close>
  is Go's \<^verbatim>\<open>len\<close>. A point in time (\<^verbatim>\<open>time.Time\<close>) and a
  \<^verbatim>\<open>time.Duration\<close> are integers counting nanoseconds; the zero
  \<^verbatim>\<open>time.Time\<close> is \<open>zero_time\<close>. A pair \<^verbatim>\<open>(T, error)\<close> of which
  exactly one half is meaningful is a sum with the error on the left.
\<close>

type_synonym gotime = int
type_synonym duration = int

abbreviation (input) zero_time :: gotime where
  "zero_time \<equiv> 0"

text \<open>\<^verbatim>\<open>t.After(u)\<close>\<close>

abbreviation (input) After :: "gotime \<Rightarrow> gotime \<Rightarrow> bool" where
  "After t u \<equiv> u < t"

text \<open>Collections that the component theories fill and their proofs use.\<close>

named_theorems codec_simps \<open>byte-level encoders and decoders\<close>
named_theorems store_simps \<open>lookups and updates of the thread stores\<close>
named_theorems plan_simps \<open>session planning\<close>
named_theorems broker_simps \<open>the event broker\<close>
named_theorems hub_simps \<open>the message hub\<close>

subsection \<open>Sequencing of fallible steps\<close>

text \<open>
  \<^verbatim>\<open>x, err := f(); if err != nil { return err }; ...\<close>
\<close>

fun bindE :: "'e + 'a \<Rightarrow> ('a \<Rightarrow> 'e + 'b) \<Rightarrow> 'e + 'b" where
  "bindE (Inl e) f = Inl e"
| "bindE (Inr x) f = f x"

lemma bindE_eq_Inr_iff [simp]:
  "bindE m f = Inr y \<longleftrightarrow> (\<exists>x. m = Inr x \<and> f x = Inr y)"
  by (cases m) auto

lemma bindE_assoc: "bindE (bindE m f) g = bindE m (\<lambda>x. bindE (f x) g)"
  by (cases m) auto

end
