(* ===== verification/KeyCodec.thy ===== *)
theory KeyCodec
  imports Prelude
begin

text \<open>
  \<^verbatim>\<open>internal/keycodec/keycodec.go\<close>: the encoding of composite keys used for
  lease targets and other private indexes. The theory holds the two standard-library
  encoders the package calls (\<^verbatim>\<open>binary.AppendUvarint\<close> and
  \<^verbatim>\<open>base64.RawURLEncoding\<close>), the package's \<open>Encode\<close>, a decoder used only in
  proofs, and the proof that \<open>Encode\<close> is injective and URL-safe.
\<close>

subsection \<open>binary.AppendUvarint\<close>

text \<open>
  The Go loop appends \<^verbatim>\<open>byte(x)|0x80\<close> and shifts by seven bits while
  \<^verbatim>\<open>x >= 0x80\<close>. The argument is always a length, so it never reaches
  \<^verbatim>\<open>2^63\<close> and a natural number stands for the \<^verbatim>\<open>uint64\<close>.
\<close>

fun AppendUvarint :: "string \<Rightarrow> nat \<Rightarrow> string" where
  "AppendUvarint buf x =
     (if x < 128 then buf @ [char_of x]
      else AppendUvarint (buf @ [char_of (x mod 128 + 128)]) (x div 128))"

declare AppendUvarint.simps [simp del]

subsection \<open>base64.RawURLEncoding\<close>

definition b64url :: string where
  "b64url = ''ABCDEFGHIJKLMNOPQRSTUVWXYZabcdefghijklmnopqrstuvwxyz0123456789-_''"

definition sextet :: "nat \<Rightarrow> char" where
  "sextet n = b64url ! n"

fun RawURLEncoding :: "string \<Rightarrow> string" where
  "RawURLEncoding [] = []"
| "RawURLEncoding [a] =
     [sextet (of_char a div 4), sextet (of_char a mod 4 * 16)]"
| "RawURLEncoding [a, b] =
     [sextet (of_char a div 4),
      sextet (of_char a mod 4 * 16 + of_char b div 16),
      sextet (of_char b mod 16 * 4)]"
| "RawURLEncoding (a # b # c # rest) =
     sextet (of_char a div 4)
     # sextet (of_char a mod 4 * 16 + of_char b div 16)
     # sextet (of_char b mod 16 * 4 + of_char c div 64)
     # sextet (of_char c mod 64)
     # RawURLEncoding rest"

subsection \<open>keycodec.Encode\<close>

definition keycodec_prefix :: string where
  "keycodec_prefix = ''kc1_''"

fun append_parts :: "string \<Rightarrow> string list \<Rightarrow> string" where
  "append_parts raw [] = raw"
| "append_parts raw (part # parts) =
     append_parts (AppendUvarint raw (length part) @ part) parts"

definition Encode :: "string list \<Rightarrow> string" where
  "Encode parts =
     (let raw = AppendUvarint [] (length parts);
          raw = append_parts raw parts
      in keycodec_prefix @ RawURLEncoding raw)"

subsection \<open>The varint prefix code\<close>

text \<open>A reader for the varint code, used as the inverse in the proofs.\<close>

fun ReadUvarint :: "string \<Rightarrow> (nat \<times> string) option" where
  "ReadUvarint [] = None"
| "ReadUvarint (c # cs) =
     (if of_char c < (128::nat) then Some (of_char c, cs)
      else case ReadUvarint cs of
             None \<Rightarrow> None
           | Some (n, rest) \<Rightarrow> Some (of_char c - 128 + 128 * n, rest))"

lemma AppendUvarint_acc: "AppendUvarint buf x = buf @ AppendUvarint [] x"
proof (induction x arbitrary: buf rule: less_induct)
  case (less x)
  show ?case
  proof (cases "x < 128")
    case True
    then show ?thesis by (simp add: AppendUvarint.simps [of _ x])
  next
    case False
    then have lt: "x div 128 < x" by simp
    have "AppendUvarint b x = b @ char_of (x mod 128 + 128) # AppendUvarint [] (x div 128)" for b
      using False less.IH [OF lt, of "b @ [char_of (x mod 128 + 128)]"]
      by (simp add: AppendUvarint.simps [of b x])
    then show ?thesis by simp
  qed
qed

lemma AppendUvarint_small: "x < 128 \<Longrightarrow> AppendUvarint [] x = [char_of x]"
  by (simp add: AppendUvarint.simps)

lemma AppendUvarint_large:
  "\<not> x < 128 \<Longrightarrow>
   AppendUvarint [] x = char_of (x mod 128 + 128) # AppendUvarint [] (x div 128)"
  by (subst AppendUvarint.simps, subst AppendUvarint_acc) simp

lemma ReadUvarint_AppendUvarint [codec_simps]:
  "ReadUvarint (AppendUvarint [] x @ rest) = Some (x, rest)"
proof (induction x rule: less_induct)
  case (less x)
  show ?case
  proof (cases "x < 128")
    case True
    then show ?thesis by (simp add: AppendUvarint_small)
  next
    case False
    then have "ReadUvarint (AppendUvarint [] (x div 128) @ rest) = Some (x div 128, rest)"
      by (intro less.IH) simp
    with False show ?thesis by (simp add: AppendUvarint_large)
  qed
qed

lemma AppendUvarint_inject:
  assumes "AppendUvarint [] m @ xs = AppendUvarint [] n @ ys"
  shows "m = n \<and> xs = ys"
  using arg_cong [OF assms, of ReadUvarint] by (simp add: codec_simps)

subsection \<open>The base64 alphabet and blocks\<close>

lemma length_b64url: "length b64url = 64"
  by (simp add: b64url_def)

lemma distinct_b64url: "distinct b64url"
  unfolding b64url_def by code_simp

lemma sextet_eq_iff: "m < 64 \<Longrightarrow> n < 64 \<Longrightarrow> sextet m = sextet n \<longleftrightarrow> m = n"
  by (simp add: sextet_def nth_eq_iff_index_eq distinct_b64url length_b64url)

lemma sextet_in_alphabet: "n < 64 \<Longrightarrow> sextet n \<in> set b64url"
  by (simp add: sextet_def length_b64url)

lemma byte_lt: "of_char (c::char) < (256::nat)"
  by simp

text \<open>Bytes packed into sextets are recovered from them.\<close>

lemma pack_inject:
  fixes k :: nat
  assumes "x * k + y = x' * k + y'" and "y < k" and "y' < k"
  shows "x = x' \<and> y = y'"
proof -
  have "x = (x * k + y) div k" "x' = (x' * k + y') div k"
    using assms(2,3) by simp_all
  then have "x = x'" using assms(1) by simp
  with assms(1) show ?thesis by simp
qed

lemma divmod_inject:
  fixes a a' k :: nat
  assumes "a div k = a' div k" and "a mod k = a' mod k"
  shows "a = a'"
  using assms by (metis div_mult_mod_eq)

lemma block1_inject:
  fixes a a' :: nat
  assumes "a < 256" "a' < 256"
    and "sextet (a div 4) = sextet (a' div 4)" "sextet (a mod 4 * 16) = sextet (a' mod 4 * 16)"
  shows "a = a'"
proof -
  have "a div 4 < 64" "a' div 4 < 64" using assms(1,2) by simp_all
  with assms(3) have "a div 4 = a' div 4" by (simp add: sextet_eq_iff)
  moreover have "a mod 4 < 4" "a' mod 4 < 4" by simp_all
  then have "a mod 4 * 16 < 64" "a' mod 4 * 16 < 64" by linarith+
  with assms(4) have "a mod 4 = a' mod 4" by (simp add: sextet_eq_iff)
  ultimately show ?thesis by (rule divmod_inject)
qed

lemma block2_inject:
  fixes a a' b b' :: nat
  assumes bytes: "a < 256" "a' < 256" "b < 256" "b' < 256"
    and s1: "sextet (a div 4) = sextet (a' div 4)"
    and s2: "sextet (a mod 4 * 16 + b div 16) = sextet (a' mod 4 * 16 + b' div 16)"
    and s3: "sextet (b mod 16 * 4) = sextet (b' mod 16 * 4)"
  shows "a = a' \<and> b = b'"
proof -
  have "a div 4 < 64" "a' div 4 < 64" using bytes by simp_all
  with s1 have ad: "a div 4 = a' div 4" by (simp add: sextet_eq_iff)
  have m: "a mod 4 < 4" "a' mod 4 < 4" by simp_all
  have d: "b div 16 < 16" "b' div 16 < 16" using bytes by simp_all
  have "a mod 4 * 16 + b div 16 < 64" "a' mod 4 * 16 + b' div 16 < 64"
    using m d by linarith+
  with s2 have "a mod 4 * 16 + b div 16 = a' mod 4 * 16 + b' div 16"
    by (simp add: sextet_eq_iff)
  from pack_inject [OF this d] have am: "a mod 4 = a' mod 4" and bd: "b div 16 = b' div 16"
    by simp_all
  have "b mod 16 < 16" "b' mod 16 < 16" by simp_all
  then have "b mod 16 * 4 < 64" "b' mod 16 * 4 < 64" by linarith+
  with s3 have "b mod 16 = b' mod 16" by (simp add: sextet_eq_iff)
  with ad am bd show ?thesis by (blast intro: divmod_inject)
qed

lemma block3_inject:
  fixes a a' b b' c c' :: nat
  assumes bytes: "a < 256" "a' < 256" "b < 256" "b' < 256" "c < 256" "c' < 256"
    and s1: "sextet (a div 4) = sextet (a' div 4)"
    and s2: "sextet (a mod 4 * 16 + b div 16) = sextet (a' mod 4 * 16 + b' div 16)"
    and s3: "sextet (b mod 16 * 4 + c div 64) = sextet (b' mod 16 * 4 + c' div 64)"
    and s4: "sextet (c mod 64) = sextet (c' mod 64)"
  shows "a = a' \<and> b = b' \<and> c = c'"
proof -
  have m: "b mod 16 < 16" "b' mod 16 < 16" by simp_all
  have d: "c div 64 < 4" "c' div 64 < 4" using bytes by simp_all
  have "b mod 16 * 4 + c div 64 < 64" "b' mod 16 * 4 + c' div 64 < 64"
    using m d by linarith+
  with s3 have "b mod 16 * 4 + c div 64 = b' mod 16 * 4 + c' div 64"
    by (simp add: sextet_eq_iff)
  from pack_inject [OF this d] have bm: "b mod 16 = b' mod 16" and cd: "c div 64 = c' div 64"
    by simp_all
  from bm have "sextet (b mod 16 * 4) = sextet (b' mod 16 * 4)" by simp
  with bytes s1 s2 have "a = a' \<and> b = b'" by (intro block2_inject)
  moreover from s4 have "c mod 64 = c' mod 64" by (simp add: sextet_eq_iff)
  with cd have "c = c'" by (rule divmod_inject)
  ultimately show ?thesis by simp
qed

lemma RawURLEncoding_inject: "RawURLEncoding xs = RawURLEncoding ys \<Longrightarrow> xs = ys"
proof (induction xs arbitrary: ys rule: RawURLEncoding.induct)
  case 1
  then show ?case by (cases ys rule: RawURLEncoding.cases) auto
next
  case (2 a)
  then show ?case
    by (cases ys rule: RawURLEncoding.cases)
      (auto dest: block1_inject [rotated 2])
next
  case (3 a b)
  then show ?case
    by (cases ys rule: RawURLEncoding.cases)
      (auto dest: block2_inject [rotated 4])
next
  case (4 a b c rest)
  then show ?case
    by (cases ys rule: RawURLEncoding.cases)
      (auto dest: block3_inject [rotated 6])
qed

lemma RawURLEncoding_alphabet: "set (RawURLEncoding xs) \<subseteq> set b64url"
proof (induction xs rule: RawURLEncoding.induct)
  case (4 a b c rest)
  have "of_char a mod 4 * 16 + of_char b div 16 < (64::nat)"
    "of_char b mod 16 * 4 + of_char c div 64 < (64::nat)" "of_char c mod 64 < (64::nat)"
    "of_char a div 4 < (64::nat)"
    using byte_lt [of a] byte_lt [of b] byte_lt [of c] by linarith+
  with 4 show ?case by (simp add: sextet_in_alphabet)
next
  case (3 a b)
  have "of_char a mod 4 * 16 + of_char b div 16 < (64::nat)"
    "of_char b mod 16 * 4 < (64::nat)" "of_char a div 4 < (64::nat)"
    using byte_lt [of a] byte_lt [of b] by linarith+
  then show ?case by (simp add: sextet_in_alphabet)
next
  case (2 a)
  have "of_char a mod 4 * 16 < (64::nat)" "of_char a div 4 < (64::nat)"
    using byte_lt [of a] by linarith+
  then show ?case by (simp add: sextet_in_alphabet)
qed simp

subsection \<open>Injectivity of Encode\<close>

fun raw_parts :: "string list \<Rightarrow> string" where
  "raw_parts [] = []"
| "raw_parts (part # parts) = AppendUvarint [] (length part) @ part @ raw_parts parts"

lemma append_parts_eq: "append_parts raw parts = raw @ raw_parts parts"
proof (induction parts arbitrary: raw)
  case (Cons part parts)
  show ?case
    using Cons.IH [of "AppendUvarint raw (length part) @ part"]
    by (subst (asm) AppendUvarint_acc [of raw]) (simp add: AppendUvarint_acc [of raw])
qed simp

lemma raw_parts_inject:
  "length ps = length qs \<Longrightarrow> raw_parts ps = raw_parts qs \<Longrightarrow> ps = qs"
proof (induction ps qs rule: list_induct2)
  case (Cons p ps q qs)
  from Cons.prems have "length p = length q \<and> p @ raw_parts ps = q @ raw_parts qs"
    by (intro AppendUvarint_inject) simp
  with Cons.IH show ?case by auto
qed simp

lemma Encode_eq: "Encode parts =
    keycodec_prefix @ RawURLEncoding (AppendUvarint [] (length parts) @ raw_parts parts)"
  by (simp add: Encode_def append_parts_eq)

lemma Encode_eq_iff [simp]: "Encode ps = Encode qs \<longleftrightarrow> ps = qs"
proof
  assume "Encode ps = Encode qs"
  then have "RawURLEncoding (AppendUvarint [] (length ps) @ raw_parts ps)
      = RawURLEncoding (AppendUvarint [] (length qs) @ raw_parts qs)"
    by (simp add: Encode_eq)
  then have "AppendUvarint [] (length ps) @ raw_parts ps
      = AppendUvarint [] (length qs) @ raw_parts qs"
    by (rule RawURLEncoding_inject)
  then have "length ps = length qs \<and> raw_parts ps = raw_parts qs"
    by (rule AppendUvarint_inject)
  then show "ps = qs" by (blast intro: raw_parts_inject)
qed simp

text \<open>
  C39. \<open>Encode\<close> is injective on lists of arbitrary byte strings (empty fields, embedded NUL
  bytes and different field boundaries never collide) and every character it produces is
  in the URL-safe base64 alphabet.
\<close>

theorem Encode_injective_url_safe:
  "inj Encode \<and> (\<forall>ps. set (Encode ps) \<subseteq> set b64url)"
proof
  show "inj Encode" by (rule injI) simp
  have "set keycodec_prefix \<subseteq> set b64url"
    unfolding keycodec_prefix_def b64url_def by code_simp
  then show "\<forall>ps. set (Encode ps) \<subseteq> set b64url"
    using RawURLEncoding_alphabet by (auto simp: Encode_eq)
qed

end
