(* ===== verification/GoStd.thy ===== *)
theory GoStd
  imports Prelude
begin

text \<open>
  The parts of Go and of its standard library that the modelled packages use: panics, the
  entropy source (\<^verbatim>\<open>crypto/rand\<close>), \<^verbatim>\<open>encoding/hex\<close>,
  \<^verbatim>\<open>strings.TrimSpace\<close> and \<^verbatim>\<open>strings.Join\<close>, and decimal rendering
  (\<^verbatim>\<open>%d\<close>, \<^verbatim>\<open>strconv.Itoa\<close>). Strings are byte strings throughout.
\<close>

subsection \<open>Panics\<close>

text \<open>What a call does: panic or return.\<close>

datatype 'a outcome = Panic | Return 'a

fun map_outcome :: "('a \<Rightarrow> 'b) \<Rightarrow> 'a outcome \<Rightarrow> 'b outcome" where
  "map_outcome f Panic = Panic"
| "map_outcome f (Return x) = Return (f x)"

fun bind_outcome :: "'a outcome \<Rightarrow> ('a \<Rightarrow> 'b outcome) \<Rightarrow> 'b outcome" where
  "bind_outcome Panic f = Panic"
| "bind_outcome (Return x) f = f x"

lemma bind_outcome_eq_Return_iff [simp]:
  "bind_outcome m f = Return y \<longleftrightarrow> (\<exists>x. m = Return x \<and> f x = Return y)"
  by (cases m) auto

lemma map_outcome_eq_Return_iff [simp]:
  "map_outcome f m = Return y \<longleftrightarrow> (\<exists>x. m = Return x \<and> y = f x)"
  by (cases m) auto

subsection \<open>Stateful fallible steps\<close>

text \<open>
  A step that may fail and that changes a state either way; the sequencing stops at the first
  failure and keeps the state reached, as Go code does that mutates through a pointer and
  returns an error.
\<close>

type_synonym ('s, 'e, 'a) step = "'s \<Rightarrow> ('e + 'a) \<times> 's"

definition seqE :: "('s, 'e, 'a) step \<Rightarrow> ('a \<Rightarrow> ('s, 'e, 'b) step) \<Rightarrow> ('s, 'e, 'b) step" where
  "seqE m f s = (case m s of (Inl e, s') \<Rightarrow> (Inl e, s') | (Inr x, s') \<Rightarrow> f x s')"

definition doneE :: "'a \<Rightarrow> ('s, 'e, 'a) step" where
  "doneE x s = (Inr x, s)"

definition failE :: "'e \<Rightarrow> ('s, 'e, 'a) step" where
  "failE e s = (Inl e, s)"

lemma seqE_doneE [simp]: "seqE (doneE x) f = f x"
  by (simp add: seqE_def doneE_def fun_eq_iff)

lemma seqE_failE [simp]: "seqE (failE e) f = failE e"
  by (simp add: seqE_def failE_def fun_eq_iff)

lemma seqE_assoc: "seqE (seqE m f) g = seqE m (\<lambda>x. seqE (f x) g)"
  by (auto simp: seqE_def fun_eq_iff split: prod.splits sum.splits)

lemma seqE_Inr_iff:
  "seqE m f s = (Inr y, s') \<longleftrightarrow> (\<exists>x s1. m s = (Inr x, s1) \<and> f x s1 = (Inr y, s'))"
  by (auto simp: seqE_def split: prod.splits sum.splits)

lemma seqE_Inl_iff:
  "seqE m f s = (Inl e, s') \<longleftrightarrow>
     m s = (Inl e, s') \<or> (\<exists>x s1. m s = (Inr x, s1) \<and> f x s1 = (Inl e, s'))"
  by (auto simp: seqE_def split: prod.splits sum.splits)

text \<open>A step keeps a state predicate, whether it fails or not.\<close>

definition keeps :: "('s \<Rightarrow> bool) \<Rightarrow> ('s, 'e, 'a) step \<Rightarrow> bool" where
  "keeps P m \<longleftrightarrow> (\<forall>s. P s \<longrightarrow> P (snd (m s)))"

named_theorems keeps_intros \<open>preservation of state predicates by steps\<close>

lemma keepsD: "keeps P m \<Longrightarrow> P s \<Longrightarrow> m s = (r, s') \<Longrightarrow> P s'"
  unfolding keeps_def by (metis snd_conv)

lemma keeps_seqE [keeps_intros]: "keeps P m \<Longrightarrow> (\<And>x. keeps P (f x)) \<Longrightarrow> keeps P (seqE m f)"
  by (auto simp: keeps_def seqE_def split: prod.splits sum.splits)

lemma keeps_doneE [keeps_intros]: "keeps P (doneE x)"
  by (simp add: keeps_def doneE_def)

lemma keeps_failE [keeps_intros]: "keeps P (failE x)"
  by (simp add: keeps_def failE_def)

lemma keeps_if [keeps_intros]:
  "(b \<Longrightarrow> keeps P m) \<Longrightarrow> (\<not> b \<Longrightarrow> keeps P m') \<Longrightarrow> keeps P (if b then m else m')"
  by simp

lemma keeps_option [keeps_intros]:
  "(x = None \<Longrightarrow> keeps P m) \<Longrightarrow> (\<And>y. x = Some y \<Longrightarrow> keeps P (f y))
   \<Longrightarrow> keeps P (case x of None \<Rightarrow> m | Some y \<Rightarrow> f y)"
  by (cases x) auto

text \<open>A step succeeds and keeps a state predicate.\<close>

definition succeeds :: "('s \<Rightarrow> bool) \<Rightarrow> ('s, 'e, 'a) step \<Rightarrow> bool" where
  "succeeds P m \<longleftrightarrow> (\<forall>s. P s \<longrightarrow> (\<exists>x s'. m s = (Inr x, s') \<and> P s'))"

named_theorems succeeds_intros \<open>steps that cannot fail\<close>

lemma succeedsD: "succeeds P m \<Longrightarrow> P s \<Longrightarrow> \<exists>x s'. m s = (Inr x, s') \<and> P s'"
  by (simp add: succeeds_def)

lemma succeeds_seqE [succeeds_intros]:
  "succeeds P m \<Longrightarrow> (\<And>x. succeeds P (f x)) \<Longrightarrow> succeeds P (seqE m f)"
  unfolding succeeds_def seqE_Inr_iff by meson

lemma succeeds_doneE [succeeds_intros]: "succeeds P (doneE x)"
  by (simp add: succeeds_def doneE_def)

lemma succeeds_if [succeeds_intros]:
  "(b \<Longrightarrow> succeeds P m) \<Longrightarrow> (\<not> b \<Longrightarrow> succeeds P m') \<Longrightarrow> succeeds P (if b then m else m')"
  by simp

lemma succeeds_option [succeeds_intros]:
  "(x = None \<Longrightarrow> succeeds P m) \<Longrightarrow> (\<And>y. x = Some y \<Longrightarrow> succeeds P (f y))
   \<Longrightarrow> succeeds P (case x of None \<Rightarrow> m | Some y \<Rightarrow> f y)"
  by (cases x) auto

subsection \<open>Entropy and hexadecimal text\<close>

text \<open>
  \<^verbatim>\<open>rand.Read(buf[:])\<close> fails or reports the bytes it filled; the callers treat a
  short read as a failure.
\<close>

datatype entropy = EntropyError string | EntropyRead string

definition hexdigit :: "nat \<Rightarrow> char" where
  "hexdigit n = ''0123456789abcdef'' ! n"

fun hexEncode :: "string \<Rightarrow> string" where
  "hexEncode [] = []"
| "hexEncode (c # cs) = hexdigit (of_char c div 16) # hexdigit (of_char c mod 16) # hexEncode cs"

subsection \<open>Text\<close>

text \<open>The UTF-8 encodings of the runes \<^verbatim>\<open>unicode.IsSpace\<close> accepts.\<close>

definition space_runes :: "string list" where
  "space_runes =
     [[CHR 0x09], [CHR 0x0A], [CHR 0x0B], [CHR 0x0C], [CHR 0x0D], [CHR 0x20],
      [CHR 0xC2, CHR 0x85], [CHR 0xC2, CHR 0xA0], [CHR 0xE1, CHR 0x9A, CHR 0x80],
      [CHR 0xE2, CHR 0x80, CHR 0x80], [CHR 0xE2, CHR 0x80, CHR 0x81],
      [CHR 0xE2, CHR 0x80, CHR 0x82], [CHR 0xE2, CHR 0x80, CHR 0x83],
      [CHR 0xE2, CHR 0x80, CHR 0x84], [CHR 0xE2, CHR 0x80, CHR 0x85],
      [CHR 0xE2, CHR 0x80, CHR 0x86], [CHR 0xE2, CHR 0x80, CHR 0x87],
      [CHR 0xE2, CHR 0x80, CHR 0x88], [CHR 0xE2, CHR 0x80, CHR 0x89],
      [CHR 0xE2, CHR 0x80, CHR 0x8A], [CHR 0xE2, CHR 0x80, CHR 0xA8],
      [CHR 0xE2, CHR 0x80, CHR 0xA9], [CHR 0xE2, CHR 0x80, CHR 0xAF],
      [CHR 0xE2, CHR 0x81, CHR 0x9F], [CHR 0xE3, CHR 0x80, CHR 0x80]]"

fun is_prefix :: "string \<Rightarrow> string \<Rightarrow> bool" where
  "is_prefix [] s = True"
| "is_prefix (c # p) [] = False"
| "is_prefix (c # p) (d # s) = (c = d \<and> is_prefix p s)"

text \<open>Drop leading occurrences of any of the (non-empty) patterns.\<close>

function drop_prefixes :: "string list \<Rightarrow> string \<Rightarrow> string" where
  "drop_prefixes ps s =
     (case List.find (\<lambda>p. p \<noteq> [] \<and> is_prefix p s) ps of
        None \<Rightarrow> s
      | Some p \<Rightarrow> if s = [] then s else drop_prefixes ps (drop (length p) s))"
  by pat_completeness auto
termination by (relation "measure (\<lambda>(ps, s). length s)") (auto simp: find_Some_iff)

declare drop_prefixes.simps [simp del]

definition TrimSpace :: "string \<Rightarrow> string" where
  "TrimSpace s = rev (drop_prefixes (map rev space_runes) (rev (drop_prefixes space_runes s)))"

lemma drop_prefixes_Nil [simp]: "drop_prefixes ps [] = []"
  by (subst drop_prefixes.simps) (auto split: option.splits)

lemma drop_prefixes_suffix: "\<exists>pre. s = pre @ drop_prefixes ps s"
proof (induction ps s rule: drop_prefixes.induct)
  case (1 ps s)
  show ?case
  proof (cases "List.find (\<lambda>p. p \<noteq> [] \<and> is_prefix p s) ps")
    case None
    then have "drop_prefixes ps s = s" by (subst drop_prefixes.simps) simp
    then show ?thesis by simp
  next
    case (Some p)
    show ?thesis
    proof (cases "s = []")
      case False
      with Some have eq: "drop_prefixes ps s = drop_prefixes ps (drop (length p) s)"
        by (subst drop_prefixes.simps) simp
      from 1 [OF Some False] obtain pre where "drop (length p) s = pre @ drop_prefixes ps (drop (length p) s)"
        by blast
      then have "s = (take (length p) s @ pre) @ drop_prefixes ps s"
        unfolding eq by (metis append.assoc append_take_drop_id)
      then show ?thesis by blast
    qed simp
  qed
qed

lemma TrimSpace_Nil [simp]: "TrimSpace [] = []"
  by (simp add: TrimSpace_def)

text \<open>\<^verbatim>\<open>strings.Join\<close>\<close>

fun join_with :: "string \<Rightarrow> string list \<Rightarrow> string" where
  "join_with sep [] = []"
| "join_with sep [s] = s"
| "join_with sep (s # t # ts) = s @ sep @ join_with sep (t # ts)"

fun itoa_nat :: "nat \<Rightarrow> string" where
  "itoa_nat n = (if n < 10 then [char_of (48 + n)] else itoa_nat (n div 10) @ [char_of (48 + n mod 10)])"

declare itoa_nat.simps [simp del]

definition itoa :: "int \<Rightarrow> string" where
  "itoa i = (if i < 0 then CHR ''-'' # itoa_nat (nat (- i)) else itoa_nat (nat i))"

text \<open>Go's integer quotient truncates toward zero.\<close>

definition go_div :: "int \<Rightarrow> int \<Rightarrow> int" where
  "go_div a b = sgn a * sgn b * (\<bar>a\<bar> div \<bar>b\<bar>)"

lemma go_div_nonneg [simp]: "0 \<le> a \<Longrightarrow> 0 < b \<Longrightarrow> go_div a b = a div b"
  by (simp add: go_div_def sgn_if)

lemma go_div_nonpos: "a \<le> 0 \<Longrightarrow> 0 < b \<Longrightarrow> go_div a b \<le> 0"
  by (simp add: go_div_def sgn_if pos_imp_zdiv_nonneg_iff)

end
