(* ===== verification/DriverTypes.thy ===== *)
theory DriverTypes
  imports GoStd
begin

text \<open>
  The types of the driver service-provider interface that thread coordination uses
  (\<^verbatim>\<open>driver/run.go\<close>, \<^verbatim>\<open>driver/session_codec.go\<close>). Field names carry the
  Go type's name as a prefix. A Go pointer that may be nil is an \<^typ>\<open>'a option\<close>; a
  \<^verbatim>\<open>map[string]string\<close> is a finite-domain partial function and a nil map is
  \<^const>\<open>Map.empty\<close> (Go code cannot tell a nil map from an empty one by reading it).
\<close>

record AgentIdentity =
  Agent_ID :: string
  Agent_TenantID :: string
  Agent_ProfileID :: string
  Agent_Name :: string

record SessionState =
  State_ResumeID :: string
  State_DisplayID :: string
  State_Data :: "string \<rightharpoonup> string"

record SessionParams =
  Params_ResumeID :: string
  Params_DisplayID :: string
  Params_Values :: "string \<rightharpoonup> string"

record Checkpoint =
  Checkpoint_State :: "SessionState option"
  Checkpoint_Valid :: bool

text \<open>
  Go's enumerations are string types with declared constants, and a variable of such a type
  may hold any string. They stay strings here, with an abbreviation per constant.
\<close>

type_synonym SessionMode = string

abbreviation (input) SessionContinueOrStart :: SessionMode where
  "SessionContinueOrStart \<equiv> ''continue_or_start''"
abbreviation (input) SessionContinueOnly :: SessionMode where
  "SessionContinueOnly \<equiv> ''continue_only''"
abbreviation (input) SessionFork :: SessionMode where
  "SessionFork \<equiv> ''fork''"
abbreviation (input) SessionStateless :: SessionMode where
  "SessionStateless \<equiv> ''stateless''"

record SessionContext =
  Context_EngineSessionID :: string
  Context_Mode :: SessionMode
  Context_State :: "SessionState option"
  Context_PreviousID :: string

text \<open>
  The errors of the standard \<^verbatim>\<open>context\<close> package.
\<close>

datatype CtxErr = Canceled | DeadlineExceeded

text \<open>
  A value of Go's \<^verbatim>\<open>any\<close> as it occurs in JSON-shaped payloads. \<open>AnyInt\<close> covers the
  integer types; \<open>AnyFloat n k\<close> is the finite float \<open>n / 2 ^ k\<close>; \<open>AnyIntMap\<close> is a
  \<^verbatim>\<open>map[string]int\<close>.
\<close>

datatype any_value =
    AnyNil
  | AnyBool bool
  | AnyInt int
  | AnyFloat int nat
  | AnyIntMap "(string \<times> int) list"
  | AnyString string
  | AnyList "any_value list"
  | AnyMap "(string \<times> any_value) list"

end
