(* ===== verification/MessageTypes.thy ===== *)
theory MessageTypes
  imports DriverTypes
begin

text \<open>
  The types of in-run messages: \<^verbatim>\<open>driver/messages.go\<close> (the port between core and a
  driver) and the declarations of \<^verbatim>\<open>messages.go\<close>. Small unsigned enumerations
  (\<^verbatim>\<open>uint8\<close>) are natural numbers with an abbreviation per constant, string
  enumerations are strings.
\<close>

subsection \<open>driver/messages.go\<close>

type_synonym Boundary = string

abbreviation (input) BoundaryImmediate :: Boundary where "BoundaryImmediate \<equiv> ''immediate''"
abbreviation (input) BoundaryTool :: Boundary where "BoundaryTool \<equiv> ''tool''"
abbreviation (input) BoundaryStop :: Boundary where "BoundaryStop \<equiv> ''stop''"
abbreviation (input) BoundaryTurnEnd :: Boundary where "BoundaryTurnEnd \<equiv> ''turn_end''"

text \<open>\<^verbatim>\<open>driver.Timing\<close> and \<^verbatim>\<open>adaptor.Timing\<close> share their values.\<close>

type_synonym Timing = nat

abbreviation (input) Soon :: Timing where "Soon \<equiv> 0"
abbreviation (input) Interrupt :: Timing where "Interrupt \<equiv> 1"
abbreviation (input) AfterTurn :: Timing where "AfterTurn \<equiv> 2"
abbreviation (input) TimingAfterTurn :: Timing where "TimingAfterTurn \<equiv> 2"

datatype ContinueMode = ContinueResume | ContinueInRun

type_synonym MessageUnit = string

abbreviation (input) MessageUnitBytes :: MessageUnit where "MessageUnitBytes \<equiv> ''bytes''"
abbreviation (input) MessageUnitUTF16 :: MessageUnit where "MessageUnitUTF16 \<equiv> ''utf16''"

record MessageCapability =
  Cap_Boundaries :: "Boundary list"
  Cap_Interrupt :: bool
  Cap_Continue :: ContinueMode
  Cap_MaxUnits :: int
  Cap_Unit :: MessageUnit
  Cap_ConfirmedDelivery :: bool
  Cap_PersistsDelivered :: bool
  Cap_MinVersion :: string

record MessageItem =
  Item_ID :: string
  Item_Text :: string
  Item_Timing :: Timing
  Item_MaybeDuplicate :: bool

text \<open>
  Of the error of an acknowledgement core only asks whether it is a deadline.
\<close>

record MessageAck =
  Ack_Delivered :: bool
  Ack_Mechanism :: string
  Ack_DeadlineExceeded :: bool
  Ack_Requeue :: bool
  Ack_MaybeDelivered :: bool

subsection \<open>messages.go: authors, contexts, policy\<close>

type_synonym AuthorKind = nat

abbreviation (input) AuthorHuman :: AuthorKind where "AuthorHuman \<equiv> 1"
abbreviation (input) AuthorAgent :: AuthorKind where "AuthorAgent \<equiv> 2"
abbreviation (input) AuthorSystem :: AuthorKind where "AuthorSystem \<equiv> 3"

record Author =
  Author_Kind :: AuthorKind
  Author_ID :: string
  Author_Name :: string

record MessageContext =
  MC_ID :: string
  MC_Text :: string
  MC_From :: Author
  MC_Timing :: Timing

record MessagePolicy =
  MP_Disabled :: bool
  MP_Format :: "(MessageContext \<Rightarrow> string) option"
  MP_MaxPending :: int
  MP_MaxTurns :: int

definition zero_MessagePolicy :: MessagePolicy where
  "zero_MessagePolicy =
     \<lparr>MP_Disabled = False, MP_Format = None, MP_MaxPending = 0, MP_MaxTurns = 0\<rparr>"

end
