(* ===== verification/Policy.thy ===== *)
theory Policy
  imports MessageTypes
begin

text \<open>
  Execution guardrails: \<^verbatim>\<open>driver/decision.go\<close> and \<^verbatim>\<open>driver/policy.go\<close> (the types
  and the defaults), \<^verbatim>\<open>internal/engine/policy.go\<close> (layering a call's policy over the
  agent's) and \<^verbatim>\<open>policy.go\<close> (the check of a policy against a driver's capabilities
  before anything is launched). The properties: layering is associative with the empty policy
  as its unit, defaults are idempotent and complete, and the pre-launch check accepts exactly
  the well-formed policies whose explicit choices the driver advertises.
\<close>

subsection \<open>Enumerations\<close>

type_synonym HumanDecisionKind = string

abbreviation (input) HumanDecisionPermission :: HumanDecisionKind where
  "HumanDecisionPermission \<equiv> ''permission''"
abbreviation (input) HumanDecisionPlanReview :: HumanDecisionKind where
  "HumanDecisionPlanReview \<equiv> ''plan_review''"
abbreviation (input) HumanDecisionQuestion :: HumanDecisionKind where
  "HumanDecisionQuestion \<equiv> ''question''"

type_synonym HumanDecisionMode = string

abbreviation (input) HumanDecisionUnset :: HumanDecisionMode where
  "HumanDecisionUnset \<equiv> ''''"
abbreviation (input) HumanDecisionAsk :: HumanDecisionMode where
  "HumanDecisionAsk \<equiv> ''ask''"
abbreviation (input) HumanDecisionAutoApprove :: HumanDecisionMode where
  "HumanDecisionAutoApprove \<equiv> ''auto_approve''"
abbreviation (input) HumanDecisionAutoReject :: HumanDecisionMode where
  "HumanDecisionAutoReject \<equiv> ''auto_reject''"

type_synonym QuestionMode = string

abbreviation (input) QuestionUnset :: QuestionMode where
  "QuestionUnset \<equiv> ''''"
abbreviation (input) QuestionAsk :: QuestionMode where
  "QuestionAsk \<equiv> ''ask''"
abbreviation (input) QuestionAutoReject :: QuestionMode where
  "QuestionAutoReject \<equiv> ''auto_reject''"

type_synonym FailureAction = string

abbreviation (input) FailureActionUnset :: FailureAction where
  "FailureActionUnset \<equiv> ''''"
abbreviation (input) FailureAbort :: FailureAction where
  "FailureAbort \<equiv> ''abort''"
abbreviation (input) FailureContinue :: FailureAction where
  "FailureContinue \<equiv> ''continue''"
abbreviation (input) FailureRetry :: FailureAction where
  "FailureRetry \<equiv> ''retry''"

type_synonym IsolationLevel = string

abbreviation (input) IsolationInherit :: IsolationLevel where
  "IsolationInherit \<equiv> ''''"
abbreviation (input) IsolationReadOnly :: IsolationLevel where
  "IsolationReadOnly \<equiv> ''read_only''"
abbreviation (input) IsolationWorkspaceWrite :: IsolationLevel where
  "IsolationWorkspaceWrite \<equiv> ''workspace_write''"
abbreviation (input) IsolationUnrestricted :: IsolationLevel where
  "IsolationUnrestricted \<equiv> ''unrestricted''"

type_synonym FeatureLevel = string

abbreviation (input) FeatureInherit :: FeatureLevel where
  "FeatureInherit \<equiv> ''''"
abbreviation (input) FeatureAllow :: FeatureLevel where
  "FeatureAllow \<equiv> ''allow''"
abbreviation (input) FeatureDeny :: FeatureLevel where
  "FeatureDeny \<equiv> ''deny''"

subsection \<open>Policies and their defaults\<close>

record HumanDecisionPolicy =
  HDP_Permission :: HumanDecisionMode
  HDP_PlanReview :: HumanDecisionMode
  HDP_Question :: QuestionMode
  HDP_Timeout :: duration
  HDP_OnTimeout :: FailureAction
  HDP_OnReject :: FailureAction
  HDP_MaxRetries :: int

record RunPolicy =
  RP_Isolation :: IsolationLevel
  RP_WebSearch :: FeatureLevel
  RP_Browser :: FeatureLevel
  RP_HumanDecision :: HumanDecisionPolicy

definition zero_HDP :: HumanDecisionPolicy where
  "zero_HDP = \<lparr>HDP_Permission = '''', HDP_PlanReview = '''', HDP_Question = '''', HDP_Timeout = 0,
     HDP_OnTimeout = '''', HDP_OnReject = '''', HDP_MaxRetries = 0\<rparr>"

definition zero_RunPolicy :: RunPolicy where
  "zero_RunPolicy = \<lparr>RP_Isolation = '''', RP_WebSearch = '''', RP_Browser = '''',
     RP_HumanDecision = zero_HDP\<rparr>"

text \<open>30 seconds, in nanoseconds.\<close>

definition DefaultHumanDecisionTimeout :: duration where
  "DefaultHumanDecisionTimeout = 30 * 1000000000"

definition DefaultHumanDecisionMaxRetries :: int where
  "DefaultHumanDecisionMaxRetries = 3"

definition EffectiveHumanDecisionPolicy :: "HumanDecisionPolicy \<Rightarrow> HumanDecisionPolicy" where
  "EffectiveHumanDecisionPolicy p =
     p\<lparr>HDP_Permission :=
         (if HDP_Permission p = HumanDecisionUnset then HumanDecisionAsk else HDP_Permission p),
       HDP_PlanReview :=
         (if HDP_PlanReview p = HumanDecisionUnset then HumanDecisionAsk else HDP_PlanReview p),
       HDP_Question :=
         (if HDP_Question p = QuestionUnset then QuestionAutoReject else HDP_Question p),
       HDP_Timeout :=
         (if HDP_Timeout p = 0 then DefaultHumanDecisionTimeout else HDP_Timeout p),
       HDP_OnTimeout :=
         (if HDP_OnTimeout p = FailureActionUnset then FailureAbort else HDP_OnTimeout p),
       HDP_OnReject :=
         (if HDP_OnReject p = FailureActionUnset then FailureAbort else HDP_OnReject p),
       HDP_MaxRetries :=
         (if HDP_MaxRetries p = 0 then DefaultHumanDecisionMaxRetries else HDP_MaxRetries p)\<rparr>"

subsection \<open>Layering (internal/engine/policy.go)\<close>

definition mergeHumanDecisionPolicy ::
  "HumanDecisionPolicy \<Rightarrow> HumanDecisionPolicy \<Rightarrow> HumanDecisionPolicy" where
  "mergeHumanDecisionPolicy base override =
     base\<lparr>HDP_Permission :=
            (if HDP_Permission override \<noteq> HumanDecisionUnset
             then HDP_Permission override else HDP_Permission base),
          HDP_PlanReview :=
            (if HDP_PlanReview override \<noteq> HumanDecisionUnset
             then HDP_PlanReview override else HDP_PlanReview base),
          HDP_Question :=
            (if HDP_Question override \<noteq> QuestionUnset
             then HDP_Question override else HDP_Question base),
          HDP_Timeout :=
            (if HDP_Timeout override \<noteq> 0 then HDP_Timeout override else HDP_Timeout base),
          HDP_OnTimeout :=
            (if HDP_OnTimeout override \<noteq> FailureActionUnset
             then HDP_OnTimeout override else HDP_OnTimeout base),
          HDP_OnReject :=
            (if HDP_OnReject override \<noteq> FailureActionUnset
             then HDP_OnReject override else HDP_OnReject base),
          HDP_MaxRetries :=
            (if HDP_MaxRetries override \<noteq> 0
             then HDP_MaxRetries override else HDP_MaxRetries base)\<rparr>"

definition binary_mode_ok :: "HumanDecisionMode \<Rightarrow> bool" where
  "binary_mode_ok m \<longleftrightarrow>
     m \<in> set [HumanDecisionUnset, HumanDecisionAsk, HumanDecisionAutoApprove, HumanDecisionAutoReject]"

definition question_mode_ok :: "QuestionMode \<Rightarrow> bool" where
  "question_mode_ok m \<longleftrightarrow> m \<in> set [QuestionUnset, QuestionAsk, QuestionAutoReject]"

definition action_ok :: "FailureAction \<Rightarrow> bool" where
  "action_ok a \<longleftrightarrow> a \<in> set [FailureActionUnset, FailureAbort, FailureContinue, FailureRetry]"

text \<open>The field a policy error names.\<close>

datatype PolicyFieldError =
  InvalidPermission string | InvalidPlanReview string | InvalidQuestion string
  | InvalidOnTimeout string | InvalidOnReject string | InvalidMaxRetries int

definition validateHumanDecisionPolicy :: "HumanDecisionPolicy option \<Rightarrow> PolicyFieldError option" where
  "validateHumanDecisionPolicy po =
     (case po of None \<Rightarrow> None | Some p \<Rightarrow>
        if \<not> binary_mode_ok (HDP_Permission p) then Some (InvalidPermission (HDP_Permission p))
        else if \<not> binary_mode_ok (HDP_PlanReview p) then Some (InvalidPlanReview (HDP_PlanReview p))
        else if \<not> question_mode_ok (HDP_Question p) then Some (InvalidQuestion (HDP_Question p))
        else if \<not> action_ok (HDP_OnTimeout p) then Some (InvalidOnTimeout (HDP_OnTimeout p))
        else if \<not> action_ok (HDP_OnReject p) then Some (InvalidOnReject (HDP_OnReject p))
        else if HDP_MaxRetries p < 0 then Some (InvalidMaxRetries (HDP_MaxRetries p))
        else None)"

definition mergeRunPolicy ::
  "RunPolicy option \<Rightarrow> RunPolicy option \<Rightarrow> PolicyFieldError + RunPolicy" where
  "mergeRunPolicy base override =
     (let out = (case base of None \<Rightarrow> zero_RunPolicy | Some b \<Rightarrow> b);
          out = (case override of None \<Rightarrow> out | Some ov \<Rightarrow>
                   out\<lparr>RP_Isolation :=
                         (if RP_Isolation ov \<noteq> IsolationInherit then RP_Isolation ov else RP_Isolation out),
                       RP_WebSearch :=
                         (if RP_WebSearch ov \<noteq> FeatureInherit then RP_WebSearch ov else RP_WebSearch out),
                       RP_Browser :=
                         (if RP_Browser ov \<noteq> FeatureInherit then RP_Browser ov else RP_Browser out),
                       RP_HumanDecision :=
                         mergeHumanDecisionPolicy (RP_HumanDecision out) (RP_HumanDecision ov)\<rparr>)
      in case validateHumanDecisionPolicy (Some (RP_HumanDecision out)) of
           Some err \<Rightarrow> Inl err
         | None \<Rightarrow> Inr out)"

subsection \<open>The public policy and its pre-launch check (policy.go)\<close>

text \<open>\<^verbatim>\<open>adaptor.Policy\<close>; the type is named \<open>HostPolicy\<close> because the theory is \<open>Policy\<close>.\<close>

record HostPolicy =
  HP_Messages :: MessagePolicy
  HP_Sandbox :: IsolationLevel
  HP_WebSearch :: FeatureLevel
  HP_Browser :: FeatureLevel
  HP_Approvals :: HumanDecisionPolicy

definition zero_HostPolicy :: HostPolicy where
  "zero_HostPolicy = \<lparr>HP_Messages = zero_MessagePolicy, HP_Sandbox = '''', HP_WebSearch = '''',
     HP_Browser = '''', HP_Approvals = zero_HDP\<rparr>"

definition driverPolicy :: "HostPolicy \<Rightarrow> RunPolicy" where
  "driverPolicy p = \<lparr>RP_Isolation = HP_Sandbox p, RP_WebSearch = HP_WebSearch p,
     RP_Browser = HP_Browser p, RP_HumanDecision = HP_Approvals p\<rparr>"

record HumanDecisionSupport =
  HDS_Ask :: bool
  HDS_AutoApprove :: bool
  HDS_AutoReject :: bool
  HDS_Retry :: bool

record QuestionSupport =
  QS_Ask :: bool
  QS_AutoReject :: bool
  QS_Retry :: bool

record RunPolicyCapabilities =
  RPC_Isolation :: bool
  RPC_WebSearch :: bool
  RPC_Browser :: bool
  RPC_Permission :: HumanDecisionSupport
  RPC_PlanReview :: HumanDecisionSupport
  RPC_Question :: QuestionSupport

text \<open>
  The errors of the check. Each carries the driver type, as the Go values do:
  \<^verbatim>\<open>InvalidPolicyError\<close>, \<^verbatim>\<open>PolicyCapabilityUnsupportedError\<close> and
  \<^verbatim>\<open>HumanDecisionModeUnsupportedError\<close>. A retry count is reported as the number
  whose decimal form Go reports.
\<close>

datatype PolicyError =
    InvalidPolicyError string string string
  | InvalidRetriesError string string int
  | PolicyCapabilityUnsupportedError string string string
  | HumanDecisionModeUnsupportedError string HumanDecisionKind string

definition isolation_ok :: "IsolationLevel \<Rightarrow> bool" where
  "isolation_ok l \<longleftrightarrow>
     l \<in> set [IsolationInherit, IsolationReadOnly, IsolationWorkspaceWrite, IsolationUnrestricted]"

definition feature_ok :: "FeatureLevel \<Rightarrow> bool" where
  "feature_ok l \<longleftrightarrow> l \<in> set [FeatureInherit, FeatureAllow, FeatureDeny]"

definition binary_supported :: "HumanDecisionMode \<Rightarrow> HumanDecisionSupport \<Rightarrow> bool" where
  "binary_supported mode support =
     (if mode = HumanDecisionUnset then True
      else if mode = HumanDecisionAsk then HDS_Ask support
      else if mode = HumanDecisionAutoApprove then HDS_AutoApprove support
      else if mode = HumanDecisionAutoReject then HDS_AutoReject support
      else False)"

definition question_supported :: "QuestionMode \<Rightarrow> QuestionSupport \<Rightarrow> bool" where
  "question_supported mode support =
     (if mode = QuestionUnset then True
      else if mode = QuestionAsk then QS_Ask support
      else if mode = QuestionAutoReject then QS_AutoReject support
      else False)"

definition validatePolicy ::
  "string \<Rightarrow> RunPolicyCapabilities \<Rightarrow> HostPolicy option \<Rightarrow> PolicyError option" where
  "validatePolicy dtype caps po =
     (case po of None \<Rightarrow> None | Some p \<Rightarrow>
        let invalid = InvalidPolicyError dtype;
            approvals = HP_Approvals p;
            unsupportedDimension = PolicyCapabilityUnsupportedError dtype;
            unsupported = HumanDecisionModeUnsupportedError dtype
        in
        if \<not> isolation_ok (HP_Sandbox p) then Some (invalid ''Policy.Sandbox'' (HP_Sandbox p))
        else if \<not> feature_ok (HP_WebSearch p) then Some (invalid ''Policy.WebSearch'' (HP_WebSearch p))
        else if \<not> feature_ok (HP_Browser p) then Some (invalid ''Policy.Browser'' (HP_Browser p))
        else if MP_MaxPending (HP_Messages p) < 0 \<or> MP_MaxTurns (HP_Messages p) < 0
          then Some (invalid ''Policy.Messages'' ''negative limit'')
        else if \<not> binary_mode_ok (HDP_Permission approvals)
          then Some (invalid ''Policy.Approvals.Permission'' (HDP_Permission approvals))
        else if \<not> binary_mode_ok (HDP_PlanReview approvals)
          then Some (invalid ''Policy.Approvals.PlanReview'' (HDP_PlanReview approvals))
        else if \<not> question_mode_ok (HDP_Question approvals)
          then Some (invalid ''Policy.Approvals.Question'' (HDP_Question approvals))
        else if \<not> action_ok (HDP_OnTimeout approvals)
          then Some (invalid ''Policy.Approvals.OnTimeout'' (HDP_OnTimeout approvals))
        else if \<not> action_ok (HDP_OnReject approvals)
          then Some (invalid ''Policy.Approvals.OnReject'' (HDP_OnReject approvals))
        else if HDP_MaxRetries approvals < 0
          then Some (InvalidRetriesError dtype ''Policy.Approvals.MaxRetries'' (HDP_MaxRetries approvals))
        else if HP_Sandbox p \<noteq> IsolationInherit \<and> \<not> RPC_Isolation caps
          then Some (unsupportedDimension ''sandbox'' (HP_Sandbox p))
        else if HP_WebSearch p \<noteq> FeatureInherit \<and> \<not> RPC_WebSearch caps
          then Some (unsupportedDimension ''web_search'' (HP_WebSearch p))
        else if HP_Browser p \<noteq> FeatureInherit \<and> \<not> RPC_Browser caps
          then Some (unsupportedDimension ''browser'' (HP_Browser p))
        else if \<not> binary_supported (HDP_Permission approvals) (RPC_Permission caps)
          then Some (unsupported HumanDecisionPermission (HDP_Permission approvals))
        else if \<not> binary_supported (HDP_PlanReview approvals) (RPC_PlanReview caps)
          then Some (unsupported HumanDecisionPlanReview (HDP_PlanReview approvals))
        else if \<not> question_supported (HDP_Question approvals) (RPC_Question caps)
          then Some (unsupported HumanDecisionQuestion (HDP_Question approvals))
        else None)"

subsection \<open>Layering is a monoid action and defaults are a closure\<close>

lemmas policy_ok_defs = binary_mode_ok_def question_mode_ok_def action_ok_def
  isolation_ok_def feature_ok_def

lemma mergeHDP_assoc:
  "mergeHumanDecisionPolicy (mergeHumanDecisionPolicy a b) c
     = mergeHumanDecisionPolicy a (mergeHumanDecisionPolicy b c)"
  by (simp add: mergeHumanDecisionPolicy_def)

lemma mergeHDP_zero [simp]:
  "mergeHumanDecisionPolicy p zero_HDP = p" "mergeHumanDecisionPolicy zero_HDP p = p"
  by (simp_all add: mergeHumanDecisionPolicy_def zero_HDP_def)

text \<open>Well-formedness of a human-decision policy, as the two validators see it.\<close>

definition HDP_wf :: "HumanDecisionPolicy \<Rightarrow> bool" where
  "HDP_wf p \<longleftrightarrow> binary_mode_ok (HDP_Permission p) \<and> binary_mode_ok (HDP_PlanReview p)
     \<and> question_mode_ok (HDP_Question p) \<and> action_ok (HDP_OnTimeout p)
     \<and> action_ok (HDP_OnReject p) \<and> 0 \<le> HDP_MaxRetries p"

lemma validateHDP_iff: "validateHumanDecisionPolicy (Some p) = None \<longleftrightarrow> HDP_wf p"
  by (auto simp: validateHumanDecisionPolicy_def HDP_wf_def)

lemma HDP_wf_merge: "HDP_wf a \<Longrightarrow> HDP_wf b \<Longrightarrow> HDP_wf (mergeHumanDecisionPolicy a b)"
  by (simp add: HDP_wf_def mergeHumanDecisionPolicy_def)

lemma HDP_wf_effective: "HDP_wf p \<Longrightarrow> HDP_wf (EffectiveHumanDecisionPolicy p)"
  by (auto simp: HDP_wf_def EffectiveHumanDecisionPolicy_def policy_ok_defs
      DefaultHumanDecisionMaxRetries_def)



text \<open>
  The effective human-decision policy has no inherited field left, taking it twice changes
  nothing, it agrees with the given policy on every field that was set, and it is well formed
  whenever the given policy is.
\<close>

theorem EffectiveHumanDecisionPolicy_complete:
  assumes "validateHumanDecisionPolicy (Some p) = None"
  defines "e \<equiv> EffectiveHumanDecisionPolicy p"
  shows "validateHumanDecisionPolicy (Some e) = None
       \<and> EffectiveHumanDecisionPolicy e = e
       \<and> HDP_Permission e \<noteq> '''' \<and> HDP_PlanReview e \<noteq> '''' \<and> HDP_Question e \<noteq> ''''
       \<and> HDP_OnTimeout e \<noteq> '''' \<and> HDP_OnReject e \<noteq> '''' \<and> HDP_Timeout e \<noteq> 0
       \<and> 0 < HDP_MaxRetries e
       \<and> mergeHumanDecisionPolicy e p = e"
proof -
  have wf: "HDP_wf p" using assms(1) by (simp add: validateHDP_iff)
  then have "validateHumanDecisionPolicy (Some e) = None"
    by (simp add: validateHDP_iff e_def HDP_wf_effective)
  moreover have "EffectiveHumanDecisionPolicy e = e"
    by (simp add: e_def EffectiveHumanDecisionPolicy_def DefaultHumanDecisionTimeout_def
        DefaultHumanDecisionMaxRetries_def)
  moreover have "mergeHumanDecisionPolicy e p = e"
    by (simp add: e_def EffectiveHumanDecisionPolicy_def mergeHumanDecisionPolicy_def)
  ultimately show ?thesis using wf
    by (simp add: e_def EffectiveHumanDecisionPolicy_def DefaultHumanDecisionTimeout_def
        DefaultHumanDecisionMaxRetries_def HDP_wf_def)
qed

theorem EffectiveHumanDecisionPolicy_complete_witness:
  "validateHumanDecisionPolicy (Some zero_HDP) = None
   \<and> HDP_Timeout (EffectiveHumanDecisionPolicy zero_HDP) = 30000000000
   \<and> 0 < HDP_MaxRetries (EffectiveHumanDecisionPolicy zero_HDP)"
proof -
  have a: "validateHumanDecisionPolicy (Some zero_HDP) = None"
    by (simp add: validateHDP_iff HDP_wf_def zero_HDP_def policy_ok_defs)
  show ?thesis using a EffectiveHumanDecisionPolicy_complete [OF a]
    by (simp add: EffectiveHumanDecisionPolicy_def zero_HDP_def DefaultHumanDecisionTimeout_def)
qed

text \<open>What the driver must advertise for a policy: every explicit choice, and only those.\<close>

definition explicit_choices_supported :: "RunPolicyCapabilities \<Rightarrow> HostPolicy \<Rightarrow> bool" where
  "explicit_choices_supported caps p \<longleftrightarrow>
     (HP_Sandbox p \<noteq> '''' \<longrightarrow> RPC_Isolation caps)
     \<and> (HP_WebSearch p \<noteq> '''' \<longrightarrow> RPC_WebSearch caps)
     \<and> (HP_Browser p \<noteq> '''' \<longrightarrow> RPC_Browser caps)
     \<and> (HDP_Permission (HP_Approvals p) = ''ask'' \<longrightarrow> HDS_Ask (RPC_Permission caps))
     \<and> (HDP_Permission (HP_Approvals p) = ''auto_approve'' \<longrightarrow> HDS_AutoApprove (RPC_Permission caps))
     \<and> (HDP_Permission (HP_Approvals p) = ''auto_reject'' \<longrightarrow> HDS_AutoReject (RPC_Permission caps))
     \<and> (HDP_PlanReview (HP_Approvals p) = ''ask'' \<longrightarrow> HDS_Ask (RPC_PlanReview caps))
     \<and> (HDP_PlanReview (HP_Approvals p) = ''auto_approve'' \<longrightarrow> HDS_AutoApprove (RPC_PlanReview caps))
     \<and> (HDP_PlanReview (HP_Approvals p) = ''auto_reject'' \<longrightarrow> HDS_AutoReject (RPC_PlanReview caps))
     \<and> (HDP_Question (HP_Approvals p) = ''ask'' \<longrightarrow> QS_Ask (RPC_Question caps))
     \<and> (HDP_Question (HP_Approvals p) = ''auto_reject'' \<longrightarrow> QS_AutoReject (RPC_Question caps))"

definition HostPolicy_wf :: "HostPolicy \<Rightarrow> bool" where
  "HostPolicy_wf p \<longleftrightarrow> isolation_ok (HP_Sandbox p) \<and> feature_ok (HP_WebSearch p)
     \<and> feature_ok (HP_Browser p) \<and> 0 \<le> MP_MaxPending (HP_Messages p)
     \<and> 0 \<le> MP_MaxTurns (HP_Messages p) \<and> HDP_wf (HP_Approvals p)"

lemma binary_supported_iff:
  "binary_mode_ok m \<Longrightarrow> binary_supported m s \<longleftrightarrow>
     (m = ''ask'' \<longrightarrow> HDS_Ask s) \<and> (m = ''auto_approve'' \<longrightarrow> HDS_AutoApprove s)
     \<and> (m = ''auto_reject'' \<longrightarrow> HDS_AutoReject s)"
  by (auto simp: binary_mode_ok_def binary_supported_def)

lemma question_supported_iff:
  "question_mode_ok m \<Longrightarrow> question_supported m s \<longleftrightarrow>
     (m = ''ask'' \<longrightarrow> QS_Ask s) \<and> (m = ''auto_reject'' \<longrightarrow> QS_AutoReject s)"
  by (auto simp: question_mode_ok_def question_supported_def)

lemma if_Some_None: "(if b then Some x else y) = None \<longleftrightarrow> \<not> b \<and> y = None"
  by simp

lemma validatePolicy_None_iff:
  "validatePolicy dtype caps (Some q) = None \<longleftrightarrow>
     isolation_ok (HP_Sandbox q) \<and> feature_ok (HP_WebSearch q) \<and> feature_ok (HP_Browser q)
     \<and> 0 \<le> MP_MaxPending (HP_Messages q) \<and> 0 \<le> MP_MaxTurns (HP_Messages q)
     \<and> binary_mode_ok (HDP_Permission (HP_Approvals q))
     \<and> binary_mode_ok (HDP_PlanReview (HP_Approvals q))
     \<and> question_mode_ok (HDP_Question (HP_Approvals q))
     \<and> action_ok (HDP_OnTimeout (HP_Approvals q)) \<and> action_ok (HDP_OnReject (HP_Approvals q))
     \<and> 0 \<le> HDP_MaxRetries (HP_Approvals q)
     \<and> (HP_Sandbox q \<noteq> '''' \<longrightarrow> RPC_Isolation caps)
     \<and> (HP_WebSearch q \<noteq> '''' \<longrightarrow> RPC_WebSearch caps)
     \<and> (HP_Browser q \<noteq> '''' \<longrightarrow> RPC_Browser caps)
     \<and> binary_supported (HDP_Permission (HP_Approvals q)) (RPC_Permission caps)
     \<and> binary_supported (HDP_PlanReview (HP_Approvals q)) (RPC_PlanReview caps)
     \<and> question_supported (HDP_Question (HP_Approvals q)) (RPC_Question caps)"
  unfolding validatePolicy_def Let_def option.case if_Some_None not_not de_Morgan_disj de_Morgan_conj
    not_less simp_thms conj_assoc imp_conv_disj
  by (rule TrueI)

text \<open>
  The pre-launch check accepts a policy exactly when every enumeration value is one of the
  declared constants, no limit is negative and every explicitly selected mode is advertised by
  the driver; an absent policy and the all-inherit policy are always accepted, and an accepted
  policy's human-decision part passes the engine's own validation.
\<close>

theorem validatePolicy_exact:
  "(validatePolicy dtype caps (Some p) = None
      \<longleftrightarrow> HostPolicy_wf p \<and> explicit_choices_supported caps p)
   \<and> validatePolicy dtype caps None = None
   \<and> validatePolicy dtype caps (Some zero_HostPolicy) = None"
proof -
  have exact: "validatePolicy dtype caps (Some q) = None
      \<longleftrightarrow> HostPolicy_wf q \<and> explicit_choices_supported caps q" for q
    unfolding validatePolicy_None_iff HostPolicy_wf_def HDP_wf_def explicit_choices_supported_def
    using binary_supported_iff [of "HDP_Permission (HP_Approvals q)" "RPC_Permission caps"]
      binary_supported_iff [of "HDP_PlanReview (HP_Approvals q)" "RPC_PlanReview caps"]
      question_supported_iff [of "HDP_Question (HP_Approvals q)" "RPC_Question caps"]
    by argo
  have "HostPolicy_wf zero_HostPolicy" "explicit_choices_supported caps zero_HostPolicy"
    by (simp_all add: HostPolicy_wf_def HDP_wf_def zero_HostPolicy_def zero_MessagePolicy_def
        zero_HDP_def policy_ok_defs explicit_choices_supported_def)
  with exact show ?thesis by (simp add: validatePolicy_def)
qed

subsection \<open>Accepted policies resolve\<close>

text \<open>The value of the nearest scope that sets a field; scopes are listed from the farthest.\<close>

definition nearest :: "'a \<Rightarrow> 'a list \<Rightarrow> 'a" where
  "nearest unset scopes = last (unset # filter (\<lambda>x. x \<noteq> unset) scopes)"

lemma nearest_two: "nearest u [a, b] = (if b \<noteq> u then b else a)"
  by (simp add: nearest_def)

text \<open>Every field of one human-decision policy comes from the nearest of a list of scopes.\<close>

definition nearest_HDP :: "HumanDecisionPolicy list \<Rightarrow> HumanDecisionPolicy" where
  "nearest_HDP ps = \<lparr>HDP_Permission = nearest '''' (map HDP_Permission ps),
     HDP_PlanReview = nearest '''' (map HDP_PlanReview ps),
     HDP_Question = nearest '''' (map HDP_Question ps),
     HDP_Timeout = nearest 0 (map HDP_Timeout ps),
     HDP_OnTimeout = nearest '''' (map HDP_OnTimeout ps),
     HDP_OnReject = nearest '''' (map HDP_OnReject ps),
     HDP_MaxRetries = nearest 0 (map HDP_MaxRetries ps)\<rparr>"

lemma nearest_snoc: "nearest u (xs @ [x]) = (if x = u then nearest u xs else x)"
  by (simp add: nearest_def)

lemma nearest_HDP_snoc:
  "nearest_HDP (ps @ [p]) = mergeHumanDecisionPolicy (nearest_HDP ps) p"
  by (simp add: nearest_HDP_def nearest_snoc mergeHumanDecisionPolicy_def)

lemma nearest_HDP_foldl: "nearest_HDP ps = foldl mergeHumanDecisionPolicy zero_HDP ps"
proof (induction ps rule: rev_induct)
  case Nil
  show ?case by (simp add: nearest_HDP_def nearest_def zero_HDP_def)
next
  case (snoc p ps)
  then show ?case by (simp add: nearest_HDP_snoc)
qed

lemma nearest_HDP_two: "nearest_HDP [a, b] = mergeHumanDecisionPolicy a b"
  by (simp add: nearest_HDP_foldl)

text \<open>The public policy that asks for a resolved run policy.\<close>

definition host_of :: "MessagePolicy \<Rightarrow> RunPolicy \<Rightarrow> HostPolicy" where
  "host_of m out = \<lparr>HP_Messages = m, HP_Sandbox = RP_Isolation out, HP_WebSearch = RP_WebSearch out,
     HP_Browser = RP_Browser out, HP_Approvals = RP_HumanDecision out\<rparr>"

definition resolved_policy :: "HostPolicy \<Rightarrow> HostPolicy \<Rightarrow> RunPolicy" where
  "resolved_policy a c = \<lparr>RP_Isolation = nearest '''' [HP_Sandbox a, HP_Sandbox c],
     RP_WebSearch = nearest '''' [HP_WebSearch a, HP_WebSearch c],
     RP_Browser = nearest '''' [HP_Browser a, HP_Browser c],
     RP_HumanDecision = nearest_HDP [HP_Approvals a, HP_Approvals c]\<rparr>"

lemma mergeRunPolicy_resolved:
  "mergeRunPolicy (Some (driverPolicy a)) (Some (driverPolicy c))
     = (case validateHumanDecisionPolicy (Some (RP_HumanDecision (resolved_policy a c))) of
          Some e \<Rightarrow> Inl e | None \<Rightarrow> Inr (resolved_policy a c))"
  by (simp add: mergeRunPolicy_def driverPolicy_def resolved_policy_def nearest_two nearest_HDP_two
      Let_def split: option.split)

lemma validatePolicy_merged:
  assumes "validatePolicy dtype caps (Some a) = None" "validatePolicy dtype caps (Some c) = None"
  shows "validatePolicy dtype caps (Some (host_of (HP_Messages c) (resolved_policy a c))) = None"
  using assms unfolding validatePolicy_None_iff host_of_def resolved_policy_def
  by (simp add: nearest_two nearest_HDP_def)


text \<open>A driver that can only ask, an agent that asks for permissions and a call that forbids browsing.\<close>

definition asking_caps :: RunPolicyCapabilities where
  "asking_caps = \<lparr>RPC_Isolation = False, RPC_WebSearch = False, RPC_Browser = True,
     RPC_Permission = \<lparr>HDS_Ask = True, HDS_AutoApprove = False, HDS_AutoReject = False, HDS_Retry = False\<rparr>,
     RPC_PlanReview = \<lparr>HDS_Ask = False, HDS_AutoApprove = False, HDS_AutoReject = False, HDS_Retry = False\<rparr>,
     RPC_Question = \<lparr>QS_Ask = False, QS_AutoReject = False, QS_Retry = False\<rparr>\<rparr>"

definition asking_agent :: HostPolicy where
  "asking_agent = zero_HostPolicy\<lparr>HP_Browser := ''allow'',
     HP_Approvals := zero_HDP\<lparr>HDP_Permission := ''ask''\<rparr>\<rparr>"

definition no_browser_call :: HostPolicy where
  "no_browser_call = zero_HostPolicy\<lparr>HP_Browser := ''deny''\<rparr>"


end
