(* ===== verification/Approval.thy ===== *)
theory Approval
  imports Policy
begin

text \<open>
  \<^verbatim>\<open>approval.go\<close>: human-in-the-loop requests with an exactly-once responder. An
  \<^verbatim>\<open>ApprovalRequest\<close> is copyable and every copy keeps the pointer to the one
  run-owned responder, so the responders live in an explicit heap and a request holds an
  address. Closing the readiness channel twice would be a run-time panic in Go; the model
  makes the panic a value, and the invariant shows that it cannot happen.
\<close>

subsection \<open>Requests, responses, responders\<close>

type_synonym DecisionResult = string

abbreviation (input) DecisionApproved :: DecisionResult where "DecisionApproved \<equiv> ''approved''"
abbreviation (input) DecisionRejected :: DecisionResult where "DecisionRejected \<equiv> ''rejected''"
abbreviation (input) DecisionAnswered :: DecisionResult where "DecisionAnswered \<equiv> ''answered''"

record DecisionChoice =
  Choice_Key :: string
  Choice_Label :: string
  Choice_Description :: string

record DecisionRequest =
  DReq_RequestID :: string
  DReq_RunID :: string
  DReq_ThreadID :: string
  DReq_Kind :: HumanDecisionKind
  DReq_Source :: string
  DReq_ToolCallID :: string
  DReq_Prompt :: string
  DReq_Payload :: "(string \<times> any_value) list"
  DReq_Choices :: "DecisionChoice list"
  DReq_DefaultDecision :: DecisionResult
  DReq_CreatedAt :: gotime
  DReq_Deadline :: gotime
  DReq_RetryAttempt :: int

record DecisionResponse =
  Resp_RequestID :: string
  Resp_Result :: DecisionResult
  Resp_Choice :: string
  Resp_Answer :: "(string \<times> any_value) list"
  Resp_Text :: string

definition zero_Response :: DecisionResponse where
  "zero_Response = \<lparr>Resp_RequestID = '''', Resp_Result = '''', Resp_Choice = '''',
     Resp_Answer = [], Resp_Text = ''''\<rparr>"

datatype approvalState = approvalPending | approvalResponded | approvalExpired

text \<open>A channel used only for closing: nil, open or closed.\<close>

datatype signal_chan = NilChan | OpenChan | ClosedChan

record approvalResponder =
  responder_state :: approvalState
  responder_id :: string
  responder_kind :: HumanDecisionKind
  responder_resp :: DecisionResponse
  responder_ready :: signal_chan

type_synonym responder_heap = "nat \<rightharpoonup> approvalResponder"

record Origin =
  Origin_Member :: string
  Origin_Task :: string

record ApprovalRequest =
  Req_ID :: string
  Req_RunID :: string
  Req_Kind :: HumanDecisionKind
  Req_Title :: string
  Req_Source :: string
  Req_ToolCallID :: string
  Req_Choices :: "DecisionChoice list"
  Req_Details :: "(string \<times> any_value) list"
  Req_CreatedAt :: gotime
  Req_Deadline :: gotime
  Req_Attempt :: int
  Req_origin :: Origin
  Req_responder :: "nat option"

datatype ApprovalError =
    ErrApprovalResolved | ErrApprovalKindMismatch | ErrApprovalUnavailable | ErrApprovalExpired

text \<open>\<^verbatim>\<open>errors.Is\<close>: ErrApprovalExpired wraps ErrApprovalResolved.\<close>

definition approval_error_is :: "ApprovalError \<Rightarrow> ApprovalError \<Rightarrow> bool" where
  "approval_error_is err sentinel \<longleftrightarrow>
     err = sentinel \<or> err = ErrApprovalExpired \<and> sentinel = ErrApprovalResolved"

subsection \<open>Operations\<close>

definition close_chan :: "signal_chan \<Rightarrow> signal_chan outcome" where
  "close_chan c = (case c of OpenChan \<Rightarrow> Return ClosedChan | _ \<Rightarrow> Panic)"

definition newApprovalRequest ::
  "responder_heap \<Rightarrow> nat \<Rightarrow> DecisionRequest \<Rightarrow> ApprovalRequest \<times> responder_heap" where
  "newApprovalRequest hp addr req =
     (\<lparr>Req_ID = DReq_RequestID req, Req_RunID = DReq_RunID req, Req_Kind = DReq_Kind req,
       Req_Title = DReq_Prompt req, Req_Source = DReq_Source req,
       Req_ToolCallID = DReq_ToolCallID req, Req_Choices = DReq_Choices req,
       Req_Details = DReq_Payload req, Req_CreatedAt = DReq_CreatedAt req,
       Req_Deadline = DReq_Deadline req, Req_Attempt = DReq_RetryAttempt req,
       Req_origin = \<lparr>Origin_Member = '''', Origin_Task = ''''\<rparr>,
       Req_responder = Some addr\<rparr>,
      hp(addr \<mapsto> \<lparr>responder_state = approvalPending, responder_id = DReq_RequestID req,
                  responder_kind = DReq_Kind req, responder_resp = zero_Response,
                  responder_ready = OpenChan\<rparr>))"

text \<open>
  A nil request is \<open>None\<close>. The address of a request that has a responder always points into
  the heap; a dangling address is treated like the missing responder.
\<close>

definition boundResponder ::
  "responder_heap \<Rightarrow> ApprovalRequest option \<Rightarrow> ApprovalError + (nat \<times> approvalResponder)" where
  "boundResponder hp r =
     (case r of None \<Rightarrow> Inl ErrApprovalUnavailable | Some req \<Rightarrow>
      case Req_responder req of None \<Rightarrow> Inl ErrApprovalUnavailable | Some addr \<Rightarrow>
      case hp addr of None \<Rightarrow> Inl ErrApprovalUnavailable | Some resp \<Rightarrow>
        (if responder_ready resp = NilChan then Inl ErrApprovalUnavailable else Inr (addr, resp)))"

definition settle ::
  "responder_heap \<Rightarrow> nat \<Rightarrow> DecisionResponse \<Rightarrow> (ApprovalError option \<times> responder_heap) outcome" where
  "settle hp addr resp =
     (case hp addr of None \<Rightarrow> Return (Some ErrApprovalUnavailable, hp) | Some r \<Rightarrow>
        if responder_ready r = NilChan then Return (Some ErrApprovalUnavailable, hp)
        else case responder_state r of
          approvalResponded \<Rightarrow> Return (Some ErrApprovalResolved, hp)
        | approvalExpired \<Rightarrow> Return (Some ErrApprovalExpired, hp)
        | approvalPending \<Rightarrow>
            (case close_chan (responder_ready r) of
               Panic \<Rightarrow> Panic
             | Return ch \<Rightarrow>
                 Return (None, hp(addr \<mapsto> r\<lparr>responder_state := approvalResponded,
                   responder_resp := resp\<lparr>Resp_RequestID := responder_id r\<rparr>,
                   responder_ready := ch\<rparr>))))"

definition Approve ::
  "responder_heap \<Rightarrow> ApprovalRequest option \<Rightarrow> (ApprovalError option \<times> responder_heap) outcome" where
  "Approve hp r =
     (case boundResponder hp r of
        Inl err \<Rightarrow> Return (Some err, hp)
      | Inr (addr, responder) \<Rightarrow>
          if responder_kind responder = HumanDecisionQuestion
          then Return (Some ErrApprovalKindMismatch, hp)
          else settle hp addr (zero_Response\<lparr>Resp_Result := DecisionApproved\<rparr>))"

definition Deny ::
  "responder_heap \<Rightarrow> ApprovalRequest option \<Rightarrow> string
   \<Rightarrow> (ApprovalError option \<times> responder_heap) outcome" where
  "Deny hp r reason =
     (case boundResponder hp r of
        Inl err \<Rightarrow> Return (Some err, hp)
      | Inr (addr, responder) \<Rightarrow>
          settle hp addr (zero_Response\<lparr>Resp_Result := DecisionRejected, Resp_Text := reason\<rparr>))"

definition Answer ::
  "responder_heap \<Rightarrow> ApprovalRequest option \<Rightarrow> string
   \<Rightarrow> (ApprovalError option \<times> responder_heap) outcome" where
  "Answer hp r option =
     (case boundResponder hp r of
        Inl err \<Rightarrow> Return (Some err, hp)
      | Inr (addr, responder) \<Rightarrow>
          if responder_kind responder \<noteq> HumanDecisionQuestion
          then Return (Some ErrApprovalKindMismatch, hp)
          else
            let resp = zero_Response\<lparr>Resp_Result := DecisionAnswered, Resp_Text := option\<rparr>;
                choices = (case r of None \<Rightarrow> [] | Some req \<Rightarrow> Req_Choices req);
                resp = (if \<exists>c \<in> set choices. Choice_Key c = option
                        then resp\<lparr>Resp_Choice := option\<rparr> else resp)
            in settle hp addr resp)"

definition expire_responder ::
  "responder_heap \<Rightarrow> nat \<Rightarrow> (DecisionResponse option \<times> responder_heap) outcome" where
  "expire_responder hp addr =
     (case hp addr of None \<Rightarrow> Return (None, hp) | Some r \<Rightarrow>
        case responder_state r of
          approvalResponded \<Rightarrow> Return (Some (responder_resp r), hp)
        | approvalExpired \<Rightarrow> Return (None, hp)
        | approvalPending \<Rightarrow>
            (case close_chan (responder_ready r) of
               Panic \<Rightarrow> Panic
             | Return ch \<Rightarrow>
                 Return (None, hp(addr \<mapsto> r\<lparr>responder_state := approvalExpired,
                                          responder_ready := ch\<rparr>))))"

definition expire ::
  "responder_heap \<Rightarrow> ApprovalRequest option \<Rightarrow> (DecisionResponse option \<times> responder_heap) outcome" where
  "expire hp r =
     (case boundResponder hp r of
        Inl err \<Rightarrow> Return (None, hp)
      | Inr (addr, responder) \<Rightarrow> expire_responder hp addr)"

definition takeResponse :: "responder_heap \<Rightarrow> ApprovalRequest option \<Rightarrow> DecisionResponse option" where
  "takeResponse hp r =
     (case boundResponder hp r of
        Inl err \<Rightarrow> None
      | Inr (addr, responder) \<Rightarrow>
          (if responder_state responder \<noteq> approvalResponded then None
           else Some (responder_resp responder)))"

definition ready_chan :: "responder_heap \<Rightarrow> ApprovalRequest option \<Rightarrow> signal_chan" where
  "ready_chan hp r =
     (case r of None \<Rightarrow> NilChan | Some req \<Rightarrow>
      case Req_responder req of None \<Rightarrow> NilChan | Some addr \<Rightarrow>
      case hp addr of None \<Rightarrow> NilChan | Some resp \<Rightarrow> responder_ready resp)"

definition Forward :: "ApprovalRequest option \<Rightarrow> Origin \<Rightarrow> ApprovalRequest option" where
  "Forward r o' = map_option (\<lambda>c. c\<lparr>Req_origin := o'\<rparr>) r"

text \<open>The two ready-made handlers; a handler's result is the error it returns.\<close>

definition ApproveAll ::
  "responder_heap \<Rightarrow> ApprovalRequest \<Rightarrow> (ApprovalError option \<times> responder_heap) outcome" where
  "ApproveAll hp req =
     (if Req_Kind req = HumanDecisionQuestion
      then Deny hp (Some req) ''questions cannot be auto-approved''
      else Approve hp (Some req))"

definition DenyAll ::
  "string \<Rightarrow> responder_heap \<Rightarrow> ApprovalRequest \<Rightarrow> (ApprovalError option \<times> responder_heap) outcome" where
  "DenyAll reason hp req = Deny hp (Some req) reason"

subsection \<open>Concurrent use: any sequence of calls on any copies\<close>

datatype approval_call =
    CallApprove "ApprovalRequest option"
  | CallDeny "ApprovalRequest option" string
  | CallAnswer "ApprovalRequest option" string
  | CallExpire "ApprovalRequest option"

text \<open>
  A response method returns an error or nil (\<open>Responded None\<close>); \<^verbatim>\<open>expire\<close> returns
  the response that won the race, if one did.
\<close>

datatype call_result = Responded "ApprovalError option" | Expired "DecisionResponse option"

fun approval_exec :: "responder_heap \<Rightarrow> approval_call \<Rightarrow> (call_result \<times> responder_heap) outcome" where
  "approval_exec hp (CallApprove r) = map_outcome (map_prod Responded id) (Approve hp r)"
| "approval_exec hp (CallDeny r reason) = map_outcome (map_prod Responded id) (Deny hp r reason)"
| "approval_exec hp (CallAnswer r option) = map_outcome (map_prod Responded id) (Answer hp r option)"
| "approval_exec hp (CallExpire r) = map_outcome (map_prod Expired id) (expire hp r)"

fun call_request :: "approval_call \<Rightarrow> ApprovalRequest option" where
  "call_request (CallApprove r) = r"
| "call_request (CallDeny r _) = r"
| "call_request (CallAnswer r _) = r"
| "call_request (CallExpire r) = r"

definition call_addr :: "approval_call \<Rightarrow> nat option" where
  "call_addr c = Option.bind (call_request c) Req_responder"

text \<open>The results of a sequence of calls, and the final heap.\<close>

fun approval_run ::
  "responder_heap \<Rightarrow> approval_call list \<Rightarrow> (call_result list \<times> responder_heap) outcome" where
  "approval_run hp [] = Return ([], hp)"
| "approval_run hp (c # cs) =
     (case approval_exec hp c of
        Panic \<Rightarrow> Panic
      | Return (res, hp') \<Rightarrow>
          (case approval_run hp' cs of
             Panic \<Rightarrow> Panic
           | Return (ress, hp'') \<Rightarrow> Return (res # ress, hp'')))"

subsection \<open>The responder invariant\<close>

text \<open>A bound responder's channel is open exactly while it is pending.\<close>

definition responder_wf :: "approvalResponder \<Rightarrow> bool" where
  "responder_wf r \<longleftrightarrow> responder_ready r = NilChan
     \<or> (responder_ready r = OpenChan \<longleftrightarrow> responder_state r = approvalPending)"

definition heap_wf :: "responder_heap \<Rightarrow> bool" where
  "heap_wf hp \<longleftrightarrow> (\<forall>r \<in> ran hp. responder_wf r)"

lemma heap_wfD: "heap_wf hp \<Longrightarrow> hp a = Some r \<Longrightarrow> responder_wf r"
  by (auto simp: heap_wf_def ran_def)

lemma heap_wf_upd: "heap_wf hp \<Longrightarrow> responder_wf r \<Longrightarrow> heap_wf (hp(a \<mapsto> r))"
  by (auto simp: heap_wf_def ran_def)

lemma newApprovalRequest_wf:
  "heap_wf hp \<Longrightarrow> heap_wf (snd (newApprovalRequest hp addr req))"
  by (simp add: newApprovalRequest_def heap_wf_upd responder_wf_def)

lemma boundResponder_Inr_iff:
  "boundResponder hp r = Inr (a, resp) \<longleftrightarrow>
     (\<exists>req. r = Some req \<and> Req_responder req = Some a \<and> hp a = Some resp
        \<and> responder_ready resp \<noteq> NilChan)"
  by (auto simp: boundResponder_def split: option.splits if_splits)

text \<open>
  What one response or expiry does to the responder it addresses: nothing, or the one
  transition out of the pending state, and a nil error exactly for the response that makes it.
\<close>

datatype responder_effect = Unchanged | Won DecisionResponse | Lapsed

fun apply_effect :: "responder_effect \<Rightarrow> approvalResponder \<Rightarrow> approvalResponder" where
  "apply_effect Unchanged r = r"
| "apply_effect (Won resp) r = r\<lparr>responder_state := approvalResponded,
     responder_resp := resp\<lparr>Resp_RequestID := responder_id r\<rparr>, responder_ready := ClosedChan\<rparr>"
| "apply_effect Lapsed r = r\<lparr>responder_state := approvalExpired, responder_ready := ClosedChan\<rparr>"

lemma settle_cases:
  assumes "heap_wf hp" and "hp a = Some r" and "responder_ready r \<noteq> NilChan"
  shows "settle hp a resp =
    (case responder_state r of
       approvalResponded \<Rightarrow> Return (Some ErrApprovalResolved, hp)
     | approvalExpired \<Rightarrow> Return (Some ErrApprovalExpired, hp)
     | approvalPending \<Rightarrow> Return (None, hp(a \<mapsto> apply_effect (Won resp) r)))"
  using assms heap_wfD [OF assms(1,2)]
  by (auto simp: settle_def close_chan_def responder_wf_def
      split: approvalState.splits signal_chan.splits)

lemma expire_responder_cases:
  assumes "heap_wf hp" and "hp a = Some r" and "responder_ready r \<noteq> NilChan"
  shows "expire_responder hp a =
    (case responder_state r of
       approvalResponded \<Rightarrow> Return (Some (responder_resp r), hp)
     | approvalExpired \<Rightarrow> Return (None, hp)
     | approvalPending \<Rightarrow> Return (None, hp(a \<mapsto> apply_effect Lapsed r)))"
  using assms heap_wfD [OF assms(1,2)]
  by (auto simp: expire_responder_def close_chan_def responder_wf_def
      split: approvalState.splits signal_chan.splits)

text \<open>
  The step as a relation between result and heaps; every call is one of these and never a panic.
\<close>

definition approval_step ::
  "responder_heap \<Rightarrow> nat option \<Rightarrow> call_result \<Rightarrow> responder_heap \<Rightarrow> bool" where
  "approval_step hp addr res hp' \<longleftrightarrow>
     hp' = hp \<and> res \<noteq> Responded None
       \<and> (\<forall>a r. addr = Some a \<longrightarrow> hp a = Some r \<longrightarrow> res = Expired None \<longrightarrow>
            responder_ready r \<noteq> NilChan \<longrightarrow> responder_state r = approvalExpired)
       \<and> (\<forall>resp. res = Expired (Some resp) \<longrightarrow>
            (\<exists>a r. addr = Some a \<and> hp a = Some r \<and> responder_state r = approvalResponded
                 \<and> responder_resp r = resp))
     \<or> (\<exists>a r resp. addr = Some a \<and> hp a = Some r \<and> responder_state r = approvalPending
          \<and> responder_ready r \<noteq> NilChan
          \<and> res = Responded None \<and> hp' = hp(a \<mapsto> apply_effect (Won resp) r))
     \<or> (\<exists>a r. addr = Some a \<and> hp a = Some r \<and> responder_state r = approvalPending
          \<and> responder_ready r \<noteq> NilChan
          \<and> res = Expired None \<and> hp' = hp(a \<mapsto> apply_effect Lapsed r))"

lemma settle_step:
  assumes "heap_wf hp" and "hp a = Some r" and "responder_ready r \<noteq> NilChan"
  shows "\<exists>err hp'. settle hp a resp = Return (err, hp')
       \<and> approval_step hp (Some a) (Responded err) hp'"
  using settle_cases [OF assms, of resp] assms
  by (cases "responder_state r") (auto simp: approval_step_def)

lemma approval_exec_step:
  assumes "heap_wf hp"
  shows "\<exists>res hp'. approval_exec hp c = Return (res, hp') \<and> approval_step hp (call_addr c) res hp'"
proof (cases "boundResponder hp (call_request c)")
  case (Inl err)
  then have none: "expire hp (call_request c) = Return (None, hp)" by (simp add: expire_def)
  have unb: "\<forall>a r. call_addr c = Some a \<longrightarrow> hp a = Some r \<longrightarrow> responder_ready r = NilChan"
    using Inl by (auto simp: boundResponder_def call_addr_def split: option.splits if_splits bind_splits)
  from Inl none unb show ?thesis
    by (cases c) (auto simp: Approve_def Deny_def Answer_def approval_step_def)
next
  case (Inr ar)
  obtain a r where ar: "ar = (a, r)" by (cases ar)
  with Inr have b: "boundResponder hp (call_request c) = Inr (a, r)" by simp
  then have hp: "hp a = Some r" "responder_ready r \<noteq> NilChan" and addr: "call_addr c = Some a"
    by (auto simp: boundResponder_Inr_iff call_addr_def)
  note st = settle_step [OF assms hp]
  show ?thesis
  proof (cases c)
    case (CallApprove q)
    with b st [of "zero_Response\<lparr>Resp_Result := DecisionApproved\<rparr>"] addr show ?thesis
      by (auto simp: Approve_def approval_step_def)
  next
    case (CallDeny q reason)
    with b st [of "zero_Response\<lparr>Resp_Result := DecisionRejected, Resp_Text := reason\<rparr>"] addr
    show ?thesis by (auto simp: Deny_def)
  next
    case (CallAnswer q option)
    define resp where "resp =
      (let resp = zero_Response\<lparr>Resp_Result := DecisionAnswered, Resp_Text := option\<rparr>;
           choices = (case q of None \<Rightarrow> [] | Some req \<Rightarrow> Req_Choices req)
       in if \<exists>c \<in> set choices. Choice_Key c = option then resp\<lparr>Resp_Choice := option\<rparr> else resp)"
    from CallAnswer b have "Answer hp q option =
        (if responder_kind r \<noteq> HumanDecisionQuestion then Return (Some ErrApprovalKindMismatch, hp)
         else settle hp a resp)"
      unfolding Answer_def resp_def Let_def by simp
    with CallAnswer st [of resp] addr show ?thesis by (auto simp: approval_step_def)
  next
    case (CallExpire q)
    with b addr hp expire_responder_cases [OF assms hp] show ?thesis
      by (cases "responder_state r") (auto simp: expire_def approval_step_def)
  qed
qed

lemma approval_step_wf:
  "heap_wf hp \<Longrightarrow> approval_step hp addr res hp' \<Longrightarrow> heap_wf hp'"
  by (auto simp: approval_step_def responder_wf_def intro!: heap_wf_upd)

subsection \<open>Exactly one outcome per request\<close>

text \<open>The responses to the responder at \<open>a\<close> that were accepted with a nil error.\<close>

definition accepted :: "nat \<Rightarrow> approval_call list \<Rightarrow> call_result list \<Rightarrow> (approval_call \<times> call_result) list" where
  "accepted a cs ress =
     filter (\<lambda>(c, res). call_addr c = Some a \<and> res = Responded None) (zip cs ress)"

text \<open>What the calls that expired the responder at \<open>a\<close> were told.\<close>

definition expiries :: "nat \<Rightarrow> approval_call list \<Rightarrow> call_result list \<Rightarrow> DecisionResponse option set" where
  "expiries a cs ress = {resp. \<exists>c. (c, Expired resp) \<in> set (zip cs ress) \<and> call_addr c = Some a}"

lemma accepted_Cons:
  "accepted a (c # cs) (res # ress) =
     (if call_addr c = Some a \<and> res = Responded None then [(c, res)] else []) @ accepted a cs ress"
  by (simp add: accepted_def)

lemma expiries_Cons:
  "expiries a (c # cs) (res # ress) =
     (if call_addr c = Some a then {resp. res = Expired resp} else {}) \<union> expiries a cs ress"
  by (auto simp: expiries_def)

lemma accepted_Nil [simp]: "accepted a [] ress = []"
  by (simp add: accepted_def)

lemma expiries_Nil [simp]: "expiries a [] ress = {}"
  by (simp add: expiries_def)

lemma approval_run_total:
  "heap_wf hp \<Longrightarrow> \<exists>ress hp'. approval_run hp cs = Return (ress, hp') \<and> heap_wf hp'
     \<and> length ress = length cs"
proof (induction cs arbitrary: hp)
  case (Cons c cs)
  from approval_exec_step [OF Cons.prems] obtain res hp1
    where e: "approval_exec hp c = Return (res, hp1)" and st: "approval_step hp (call_addr c) res hp1"
    by blast
  from Cons.IH [OF approval_step_wf [OF Cons.prems st]] e show ?case by auto
qed simp

lemma approval_run_ConsE:
  assumes "heap_wf hp" and "approval_run hp (c # cs) = Return (ress, hp')"
  obtains res hp1 ress' where "approval_exec hp c = Return (res, hp1)"
    and "approval_step hp (call_addr c) res hp1" and "heap_wf hp1"
    and "approval_run hp1 cs = Return (ress', hp')" and "ress = res # ress'"
proof -
  from approval_exec_step [OF assms(1)] obtain res hp1
    where e: "approval_exec hp c = Return (res, hp1)" and st: "approval_step hp (call_addr c) res hp1"
    by blast
  from st have wf: "heap_wf hp1" using assms(1) approval_step_wf by blast
  from assms(2) e obtain ress' where "approval_run hp1 cs = Return (ress', hp')" "ress = res # ress'"
    by (auto split: outcome.splits)
  with e st wf show thesis by (rule that)
qed

text \<open>A responder that has left the pending state never changes again.\<close>

lemma settled_final:
  assumes "heap_wf hp" and "hp a = Some r" and "responder_state r \<noteq> approvalPending"
    and "responder_ready r \<noteq> NilChan" and "approval_run hp cs = Return (ress, hp')"
  shows "hp' a = Some r \<and> accepted a cs ress = []
    \<and> expiries a cs ress \<subseteq> {if responder_state r = approvalResponded then Some (responder_resp r) else None}"
  using assms
proof (induction cs arbitrary: hp ress)
  case (Cons c cs)
  from approval_run_ConsE [OF Cons.prems(1,5)] obtain res hp1 ress' where
    st: "approval_step hp (call_addr c) res hp1" and wf: "heap_wf hp1"
    and run: "approval_run hp1 cs = Return (ress', hp')" and ress: "ress = res # ress'" by metis
  from st Cons.prems(2,3) have same: "hp1 a = Some r" by (auto simp: approval_step_def)
  note IH = Cons.IH [OF wf same Cons.prems(3,4) run]
  from st Cons.prems(2-4) have "call_addr c = Some a \<longrightarrow> res \<noteq> Responded None \<and>
      (\<forall>x. res = Expired x \<longrightarrow>
        x = (if responder_state r = approvalResponded then Some (responder_resp r) else None))"
    by (cases res; cases "responder_state r") (auto simp: approval_step_def split: option.splits)
  with IH ress show ?case by (auto simp: accepted_Cons expiries_Cons)
qed simp

lemma pending_step:
  assumes "approval_step hp (call_addr c) res hp1" and "hp a = Some r"
    and "responder_state r = approvalPending" and "responder_ready r \<noteq> NilChan"
  shows "hp1 = hp \<and> (call_addr c = Some a \<longrightarrow> (\<exists>err. res = Responded (Some err)))
    \<or> call_addr c \<noteq> Some a \<and> hp1 a = Some r
    \<or> call_addr c = Some a \<and> res = Responded None \<and> (\<exists>resp. hp1 a = Some (apply_effect (Won resp) r))
    \<or> call_addr c = Some a \<and> res = Expired None \<and> hp1 a = Some (apply_effect Lapsed r)"
proof (cases "call_addr c = Some a")
  case True
  show ?thesis
  proof (cases res)
    case (Responded err)
    with True assms show ?thesis by (cases err) (auto simp: approval_step_def)
  next
    case (Expired resp)
    with True assms show ?thesis by (cases resp) (auto simp: approval_step_def)
  qed
next
  case False
  with assms(1,2) show ?thesis by (auto simp: approval_step_def)
qed

text \<open>
  The fate of a pending responder under any run: still pending, won by one response, or expired.
\<close>

definition responder_fate ::
  "nat \<Rightarrow> approvalResponder \<Rightarrow> approval_call list \<Rightarrow> call_result list \<Rightarrow> bool" where
  "responder_fate a r' cs ress \<longleftrightarrow>
     (case responder_state r' of
        approvalPending \<Rightarrow> responder_ready r' = OpenChan
          \<and> accepted a cs ress = [] \<and> expiries a cs ress = {}
      | approvalResponded \<Rightarrow> responder_ready r' = ClosedChan
          \<and> length (accepted a cs ress) = 1
          \<and> Resp_RequestID (responder_resp r') = responder_id r'
          \<and> expiries a cs ress \<subseteq> {Some (responder_resp r')}
      | approvalExpired \<Rightarrow> responder_ready r' = ClosedChan
          \<and> accepted a cs ress = [] \<and> expiries a cs ress = {None})"

lemma pending_fate:
  assumes "heap_wf hp" and "hp a = Some r" and "responder_state r = approvalPending"
    and "responder_ready r \<noteq> NilChan" and "approval_run hp cs = Return (ress, hp')"
  shows "\<exists>r'. hp' a = Some r' \<and> responder_fate a r' cs ress"
  using assms
proof (induction cs arbitrary: hp ress)
  case Nil
  then have "responder_ready r = OpenChan"
    using heap_wfD [OF Nil(1,2)] by (simp add: responder_wf_def)
  with Nil show ?case by (auto simp: responder_fate_def)
next
  case (Cons c cs)
  from approval_run_ConsE [OF Cons.prems(1,5)] obtain res hp1 ress' where
    st: "approval_step hp (call_addr c) res hp1" and wf: "heap_wf hp1"
    and run: "approval_run hp1 cs = Return (ress', hp')" and ress: "ress = res # ress'" by metis
  have unchanged: ?case if "hp1 a = Some r"
    and "call_addr c = Some a \<longrightarrow> (\<exists>err. res = Responded (Some err))"
    using Cons.IH [OF wf that(1) Cons.prems(3,4) run] that(2) ress
    by (auto simp: responder_fate_def accepted_Cons expiries_Cons split: approvalState.splits)
  consider "hp1 = hp" "call_addr c = Some a \<longrightarrow> (\<exists>err. res = Responded (Some err))"
    | "call_addr c \<noteq> Some a" "hp1 a = Some r"
    | resp where "call_addr c = Some a" "res = Responded None" "hp1 a = Some (apply_effect (Won resp) r)"
    | "call_addr c = Some a" "res = Expired None" "hp1 a = Some (apply_effect Lapsed r)"
    using pending_step [OF st Cons.prems(2-4)] by blast
  then show ?case
  proof cases
    case 1
    with unchanged Cons.prems(2) show ?thesis by simp
  next
    case 2
    with unchanged show ?thesis by simp
  next
    case 3
    from settled_final [OF wf 3(3) _ _ run] 3 ress show ?thesis
      by (auto simp: responder_fate_def accepted_Cons expiries_Cons)
  next
    case 4
    from settled_final [OF wf 4(3) _ _ run] 4 ress show ?thesis
      by (auto simp: responder_fate_def accepted_Cons expiries_Cons)
  qed
qed

text \<open>
  C26. A freshly issued request gets exactly one outcome, however many copies of it are answered,
  forwarded or expired and in whatever order: no call panics, the number of calls that return a
  nil error is one if the request ends answered and zero if it ends pending or expired, the
  readiness channel is closed exactly when the request has left the pending state, every expiry
  that reports a response reports the winning one, and an expiry that reports none means that no
  response was or will be accepted.
\<close>

theorem approval_exactly_once:
  assumes "heap_wf hp" and "newApprovalRequest hp addr req = (r, hp0)"
  shows "\<exists>ress hp' r'. approval_run hp0 cs = Return (ress, hp') \<and> heap_wf hp'
    \<and> length ress = length cs \<and> hp' addr = Some r' \<and> responder_fate addr r' cs ress"
proof -
  from assms have wf: "heap_wf hp0" using newApprovalRequest_wf [of hp addr req] by simp
  from assms(2) obtain r0 where "hp0 addr = Some r0" "responder_state r0 = approvalPending"
    "responder_ready r0 \<noteq> NilChan"
    by (auto simp: newApprovalRequest_def)
  with approval_run_total [OF wf, of cs] pending_fate [OF wf] show ?thesis by metis
qed

definition sample_DecisionRequest :: "HumanDecisionKind \<Rightarrow> DecisionRequest" where
  "sample_DecisionRequest kind = \<lparr>DReq_RequestID = ''r1'', DReq_RunID = ''run'', DReq_ThreadID = ''t'',
     DReq_Kind = kind, DReq_Source = ''hook'', DReq_ToolCallID = '''', DReq_Prompt = ''ok?'',
     DReq_Payload = [], DReq_Choices = [], DReq_DefaultDecision = '''', DReq_CreatedAt = 0,
     DReq_Deadline = 0, DReq_RetryAttempt = 0\<rparr>"

definition sample_ApprovalRequest :: "HumanDecisionKind \<Rightarrow> ApprovalRequest" where
  "sample_ApprovalRequest kind = fst (newApprovalRequest Map.empty 0 (sample_DecisionRequest kind))"

theorem approval_exactly_once_witness:
  "\<exists>ress hp' r'. approval_run (snd (newApprovalRequest Map.empty 0 (sample_DecisionRequest HumanDecisionPermission)))
       [CallApprove (Some (sample_ApprovalRequest HumanDecisionPermission)),
        CallDeny (Forward (Some (sample_ApprovalRequest HumanDecisionPermission)) \<lparr>Origin_Member = ''m'', Origin_Task = ''t''\<rparr>) ''no'',
        CallExpire (Some (sample_ApprovalRequest HumanDecisionPermission))]
     = Return (ress, hp') \<and> ress = [Responded None, Responded (Some ErrApprovalResolved),
          Expired (Some (zero_Response\<lparr>Resp_RequestID := ''r1'', Resp_Result := DecisionApproved\<rparr>))]
     \<and> hp' 0 = Some r' \<and> responder_state r' = approvalResponded"
proof -
  have "heap_wf Map.empty" by (simp add: heap_wf_def)
  from approval_exactly_once [OF this prod.collapse [symmetric],
      of 0 "sample_DecisionRequest HumanDecisionPermission" "[CallApprove (Some (sample_ApprovalRequest HumanDecisionPermission)),
        CallDeny (Forward (Some (sample_ApprovalRequest HumanDecisionPermission)) \<lparr>Origin_Member = ''m'', Origin_Task = ''t''\<rparr>) ''no'',
        CallExpire (Some (sample_ApprovalRequest HumanDecisionPermission))]"]
  show ?thesis
    by (auto simp: newApprovalRequest_def sample_DecisionRequest_def sample_ApprovalRequest_def
        Approve_def Deny_def expire_def boundResponder_def settle_def close_chan_def Forward_def
        expire_responder_def zero_Response_def)
qed

text \<open>
  The response methods are gated by the request's kind, and a rejected method touches nothing:
  \<^verbatim>\<open>Approve\<close> on a question and \<^verbatim>\<open>Answer\<close> on anything else return
  \<^verbatim>\<open>ErrApprovalKindMismatch\<close>; so \<^verbatim>\<open>ApproveAll\<close>, which answers every request of a
  run, denies questions and approves the rest, and on a pending request always succeeds. A
  forwarded copy is answered through the same responder.
\<close>

theorem approval_kind_gate:
  assumes "heap_wf hp" and "newApprovalRequest hp addr req = (r, hp0)"
  shows "(DReq_Kind req = HumanDecisionQuestion \<longrightarrow>
            Approve hp0 (Forward (Some r) o') = Return (Some ErrApprovalKindMismatch, hp0))
    \<and> (DReq_Kind req \<noteq> HumanDecisionQuestion \<longrightarrow>
            Answer hp0 (Forward (Some r) o') option = Return (Some ErrApprovalKindMismatch, hp0))
    \<and> (\<exists>hp1. ApproveAll hp0 r = Return (None, hp1)
         \<and> takeResponse hp1 (Forward (Some r) o') =
             Some (if DReq_Kind req = HumanDecisionQuestion
                   then zero_Response\<lparr>Resp_RequestID := DReq_RequestID req, Resp_Result := DecisionRejected,
                          Resp_Text := ''questions cannot be auto-approved''\<rparr>
                   else zero_Response\<lparr>Resp_RequestID := DReq_RequestID req,
                          Resp_Result := DecisionApproved\<rparr>)
         \<and> (\<forall>a. a \<noteq> addr \<longrightarrow> hp1 a = hp a))"
  using assms
  by (auto simp: newApprovalRequest_def Approve_def Answer_def Deny_def ApproveAll_def Forward_def
      boundResponder_def settle_def close_chan_def takeResponse_def zero_Response_def)

theorem approval_kind_gate_witness:
  "\<exists>hp1. ApproveAll (snd (newApprovalRequest Map.empty 0 (sample_DecisionRequest HumanDecisionQuestion)))
      (sample_ApprovalRequest HumanDecisionQuestion) = Return (None, hp1)
   \<and> takeResponse hp1 (Forward (Some (sample_ApprovalRequest HumanDecisionQuestion)) \<lparr>Origin_Member = ''m'', Origin_Task = ''t''\<rparr>)
     = Some (zero_Response\<lparr>Resp_RequestID := ''r1'', Resp_Result := DecisionRejected,
                          Resp_Text := ''questions cannot be auto-approved''\<rparr>)"
proof -
  define req where "req = sample_DecisionRequest HumanDecisionQuestion"
  have wf: "heap_wf Map.empty" by (simp add: heap_wf_def)
  have new: "newApprovalRequest Map.empty 0 req
      = (sample_ApprovalRequest HumanDecisionQuestion, snd (newApprovalRequest Map.empty 0 req))"
    by (simp add: sample_ApprovalRequest_def req_def)
  from approval_kind_gate [OF wf new] show ?thesis
    by (auto simp: req_def sample_DecisionRequest_def)
qed

end
