(* ===== verification/Events.thy ===== *)
theory Events
  imports Approval
begin

text \<open>
  \<^verbatim>\<open>events.go\<close> and \<^verbatim>\<open>driver/events.go\<close>: the typed events of a run, their
  SDK-owned envelope, their classification (kind, critical, droppable) and the translation of
  driver run events and stream payloads. The sealed interface \<^verbatim>\<open>Event\<close> is a
  datatype over one record per struct; a JSON-shaped map is an association list, and a
  \<^verbatim>\<open>*Result\<close> is the handle of a heap object.
\<close>

subsection \<open>The envelope\<close>

record EventSourceMeta =
  Source_RunID :: string
  Source_ThreadID :: string
  Source_TurnID :: string
  Source_Sequence :: nat
  Source_Timestamp :: gotime

record EventMeta =
  Meta_RunID :: string
  Meta_ThreadKey :: string
  Meta_Sequence :: nat
  Meta_Time :: gotime
  Meta_TurnID :: string
  Meta_Source :: "EventSourceMeta option"

definition zero_EventMeta :: EventMeta where
  "zero_EventMeta = \<lparr>Meta_RunID = '''', Meta_ThreadKey = '''', Meta_Sequence = 0, Meta_Time = zero_time,
     Meta_TurnID = '''', Meta_Source = None\<rparr>"

subsection \<open>Payloads\<close>

type_synonym data_map = "(string \<times> any_value) list"
type_synonym tag_map = "(string \<times> string) list"

type_synonym Role = string
abbreviation (input) RoleAssistant :: Role where "RoleAssistant \<equiv> ''''"
abbreviation (input) RoleUser :: Role where "RoleUser \<equiv> ''user''"

type_synonym Phase = string
abbreviation (input) PhaseContent :: Phase where "PhaseContent \<equiv> ''''"
abbreviation (input) PhaseStart :: Phase where "PhaseStart \<equiv> ''start''"
abbreviation (input) PhaseEnd :: Phase where "PhaseEnd \<equiv> ''end''"

record Usage =
  Usage_InputTokens :: int
  Usage_OutputTokens :: int
  Usage_CachedInputTokens :: int
  Usage_EstimatedCostMilli :: int

record TextDelta =
  Text_MessageID :: string
  Text_Text :: string
  Text_Role :: Role
  Text_Phase :: Phase

record Thinking =
  Thinking_MessageID :: string
  Thinking_Text :: string
  Thinking_Phase :: Phase

record ToolCall =
  Tool_ID :: string
  Tool_Name :: string
  Tool_Args :: data_map
  Tool_ArgsDelta :: string
  Tool_Result :: data_map
  Tool_Phase :: Phase

record ToolResult =
  ToolResult_ID :: string
  ToolResult_Result :: data_map

record RunStarted =
  Started_RunID :: string
  Started_ThreadID :: string

type_synonym FailureReason = string

record RunFinished =
  Finished_RunID :: string
  Finished_ThreadID :: string
  Finished_Usage :: "Usage option"
  Finished_Failed :: bool
  Finished_Reason :: FailureReason
  Finished_Message :: string

abbreviation (input) ProcessSpawn :: string where "ProcessSpawn \<equiv> ''spawn''"
abbreviation (input) ProcessStdout :: string where "ProcessStdout \<equiv> ''stdout''"
abbreviation (input) ProcessStderr :: string where "ProcessStderr \<equiv> ''stderr''"

record ProcessInfo =
  Process_Kind :: string
  Process_Text :: string
  Process_Bytes :: string
  Process_Metadata :: tag_map
  Process_Data :: data_map

abbreviation (input) NoticeInvocation :: string where "NoticeInvocation \<equiv> ''invocation''"
abbreviation (input) NoticeLifecycle :: string where "NoticeLifecycle \<equiv> ''lifecycle''"
abbreviation (input) NoticeRuntime :: string where "NoticeRuntime \<equiv> ''runtime''"
abbreviation (input) NoticeStep :: string where "NoticeStep \<equiv> ''step''"
abbreviation (input) NoticeTranscriptItem :: string where "NoticeTranscriptItem \<equiv> ''transcript.item''"
abbreviation (input) NoticeApprovalRequested :: string where "NoticeApprovalRequested \<equiv> ''approval.requested''"
abbreviation (input) NoticeApprovalResolved :: string where "NoticeApprovalResolved \<equiv> ''approval.resolved''"

record TranscriptItem =
  TItem_Kind :: string
  TItem_Text :: string
  TItem_Delta :: bool
  TItem_ToolUseID :: string
  TItem_ToolName :: string
  TItem_Input :: any_value
  TItem_IsError :: bool
  TItem_Model :: string
  TItem_SessionID :: string
  TItem_Usage :: "Usage option"
  TItem_CostUSD :: "any_value option"
  TItem_Subtype :: string
  TItem_Errors :: "string list"
  TItem_Metadata :: tag_map
  TItem_Data :: data_map

record Notice =
  Notice_Kind :: string
  Notice_Text :: string
  Notice_Item :: "TranscriptItem option"
  Notice_Metadata :: tag_map
  Notice_Data :: data_map

record Dropped =
  Dropped_Count :: int
  Dropped_ByKind :: "string \<rightharpoonup> int"
  Dropped_FirstSequence :: nat
  Dropped_LastSequence :: nat
  Dropped_Reason :: string
  Dropped_Source :: string
  Dropped_Details :: data_map

type_synonym SubagentEventKind = string
abbreviation (input) SubagentDelta :: SubagentEventKind where "SubagentDelta \<equiv> ''delta''"

record SubagentUpdate =
  Subagent_Task :: string
  Subagent_Member :: string
  Subagent_State :: string
  Subagent_Summary :: string
  Subagent_Kind :: SubagentEventKind
  Subagent_Delta :: string
  Subagent_Data :: data_map

datatype MessageState = MessageAccepted | MessageDelivered | MessageFailed

type_synonym MessageFailure = string

record MessageUpdate =
  Update_ID :: string
  Update_State :: MessageState
  Update_Turn :: int
  Update_Boundary :: string
  Update_Mechanism :: string
  Update_Reason :: MessageFailure
  Update_Text :: string

record TurnEnd =
  TurnEnd_Turn :: int
  TurnEnd_Result :: "nat option"
  TurnEnd_Err :: "string option"
  TurnEnd_MessageIDs :: "string list"

record DoneEvent =
  Done_Result :: "nat option"
  Done_Err :: "string option"

datatype event_body =
    EvTextDelta TextDelta
  | EvThinking Thinking
  | EvToolCall ToolCall
  | EvToolResult ToolResult
  | EvRunStarted RunStarted
  | EvRunFinished RunFinished
  | EvProcessInfo ProcessInfo
  | EvNotice Notice
  | EvDropped Dropped
  | EvSubagentUpdate SubagentUpdate
  | EvMessageUpdate MessageUpdate
  | EvTurnEnd TurnEnd
  | EvDone DoneEvent
  | EvApprovalRequest ApprovalRequest

record Event =
  Event_meta :: EventMeta
  Event_body :: event_body

definition new_event :: "event_body \<Rightarrow> Event" where
  "new_event body = \<lparr>Event_meta = zero_EventMeta, Event_body = body\<rparr>"

subsection \<open>Classification\<close>

definition phaseKind :: "Phase \<Rightarrow> string" where
  "phaseKind p = (if p = PhaseContent then ''content'' else p)"

fun eventKind :: "event_body \<Rightarrow> string" where
  "eventKind (EvDone e) = ''done''"
| "eventKind (EvTurnEnd e) = ''turn.end''"
| "eventKind (EvMessageUpdate e) = ''message.update''"
| "eventKind (EvTextDelta e) = ''text.'' @ phaseKind (Text_Phase e)"
| "eventKind (EvThinking e) = ''thinking.'' @ phaseKind (Thinking_Phase e)"
| "eventKind (EvToolCall e) = ''tool_call.'' @ phaseKind (Tool_Phase e)"
| "eventKind (EvToolResult e) = ''tool_result''"
| "eventKind (EvRunStarted e) = ''run.started''"
| "eventKind (EvRunFinished e) = ''run.finished''"
| "eventKind (EvProcessInfo e) = ''process.'' @ Process_Kind e"
| "eventKind (EvNotice e) = ''notice.'' @ Notice_Kind e"
| "eventKind (EvDropped e) = ''dropped''"
| "eventKind (EvSubagentUpdate e) = ''subagent.'' @ Subagent_Kind e"
| "eventKind (EvApprovalRequest e) = ''approval.requested''"

fun eventCritical :: "event_body \<Rightarrow> bool" where
  "eventCritical (EvRunStarted _) = True"
| "eventCritical (EvRunFinished _) = True"
| "eventCritical (EvMessageUpdate _) = True"
| "eventCritical (EvTurnEnd _) = True"
| "eventCritical (EvDone _) = True"
| "eventCritical (EvApprovalRequest _) = True"
| "eventCritical (EvNotice _) = True"
| "eventCritical (EvDropped _) = True"
| "eventCritical _ = False"

fun eventMayDrop :: "event_body \<Rightarrow> bool" where
  "eventMayDrop (EvTextDelta e) = (Text_Phase e = PhaseContent)"
| "eventMayDrop (EvThinking e) = (Thinking_Phase e = PhaseContent)"
| "eventMayDrop (EvToolCall e) = (Tool_Phase e = PhaseContent)"
| "eventMayDrop (EvProcessInfo e) = (Process_Kind e = ProcessStdout \<or> Process_Kind e = ProcessStderr)"
| "eventMayDrop (EvSubagentUpdate e) = (Subagent_Kind e = SubagentDelta)"
| "eventMayDrop _ = False"

text \<open>The copy carries the new envelope; the slices and maps of the payload are copied too.\<close>

definition stampEvent :: "Event \<Rightarrow> EventMeta \<Rightarrow> Event" where
  "stampEvent ev meta = ev\<lparr>Event_meta := meta\<rparr>"

lemma mayDrop_not_critical: "eventMayDrop body \<Longrightarrow> \<not> eventCritical body"
  by (cases body) auto

lemma stampEvent_body [simp]: "Event_body (stampEvent ev m) = Event_body ev"
  by (simp add: stampEvent_def)

lemma stampEvent_meta [simp]: "Event_meta (stampEvent ev m) = m"
  by (simp add: stampEvent_def)

subsection \<open>Driver events\<close>

type_synonym RunEventType = string
abbreviation (input) RunEventChunk :: RunEventType where "RunEventChunk \<equiv> ''chunk''"
abbreviation (input) RunEventItem :: RunEventType where "RunEventItem \<equiv> ''item''"
abbreviation (input) RunEventInvocation :: RunEventType where "RunEventInvocation \<equiv> ''invocation''"
abbreviation (input) RunEventSpawn :: RunEventType where "RunEventSpawn \<equiv> ''spawn''"
abbreviation (input) RunEventRuntime :: RunEventType where "RunEventRuntime \<equiv> ''runtime''"
abbreviation (input) RunEventLifecycle :: RunEventType where "RunEventLifecycle \<equiv> ''lifecycle''"
abbreviation (input) RunEventTurnCompleted :: RunEventType where "RunEventTurnCompleted \<equiv> ''turn.completed''"

record TurnCompleted =
  Turn_Index :: int
  Turn_Text :: string
  Turn_Usage :: "Usage option"
  Turn_Interrupted :: bool
  Turn_CompletedAt :: gotime

record RunEvent =
  RunEvent_Type :: RunEventType
  RunEvent_Seq :: nat
  RunEvent_Timestamp :: gotime
  RunEvent_Stream :: string
  RunEvent_Bytes :: string
  RunEvent_Item :: "TranscriptItem option"
  RunEvent_Turn :: "TurnCompleted option"
  RunEvent_Text :: string
  RunEvent_Metadata :: tag_map
  RunEvent_Data :: data_map

text \<open>The driver's transcript item is copied field by field into the public one.\<close>

definition publicTranscriptItem :: "TranscriptItem option \<Rightarrow> TranscriptItem option" where
  "publicTranscriptItem item = item"

definition notice_of :: "string \<Rightarrow> RunEvent \<Rightarrow> event_body" where
  "notice_of kind ev = EvNotice \<lparr>Notice_Kind = kind, Notice_Text = RunEvent_Text ev, Notice_Item = None,
     Notice_Metadata = RunEvent_Metadata ev, Notice_Data = RunEvent_Data ev\<rparr>"

definition eventFromRunEvent :: "RunEvent \<Rightarrow> event_body" where
  "eventFromRunEvent ev =
     (if RunEvent_Type ev = RunEventChunk then
        EvProcessInfo \<lparr>Process_Kind = (if RunEvent_Stream ev = ''stderr'' then ProcessStderr else ProcessStdout),
          Process_Text = '''', Process_Bytes = RunEvent_Bytes ev,
          Process_Metadata = RunEvent_Metadata ev, Process_Data = RunEvent_Data ev\<rparr>
      else if RunEvent_Type ev = RunEventSpawn then
        EvProcessInfo \<lparr>Process_Kind = ProcessSpawn, Process_Text = RunEvent_Text ev, Process_Bytes = '''',
          Process_Metadata = RunEvent_Metadata ev, Process_Data = RunEvent_Data ev\<rparr>
      else if RunEvent_Type ev = RunEventItem then
        EvNotice \<lparr>Notice_Kind = NoticeTranscriptItem,
          Notice_Text = (case RunEvent_Item ev of None \<Rightarrow> '''' | Some item \<Rightarrow> TItem_Text item),
          Notice_Item = publicTranscriptItem (RunEvent_Item ev),
          Notice_Metadata = RunEvent_Metadata ev, Notice_Data = RunEvent_Data ev\<rparr>
      else if RunEvent_Type ev = RunEventInvocation then notice_of NoticeInvocation ev
      else if RunEvent_Type ev = RunEventRuntime then notice_of NoticeRuntime ev
      else if RunEvent_Type ev = RunEventLifecycle then notice_of NoticeLifecycle ev
      else notice_of (RunEvent_Type ev) ev)"

subsection \<open>Stream payloads\<close>

type_synonym StreamKind = string

record HITLRequestedPayload =
  HReq_RequestID :: string
  HReq_Kind :: HumanDecisionKind
  HReq_Source :: string
  HReq_ToolCallID :: string
  HReq_Prompt :: string
  HReq_Payload :: data_map
  HReq_Choices :: "DecisionChoice list"
  HReq_CreatedAt :: gotime
  HReq_Deadline :: gotime
  HReq_RetryAttempt :: int

record HITLResolvedPayload =
  HRes_RequestID :: string
  HRes_Kind :: HumanDecisionKind
  HRes_Source :: string
  HRes_Result :: DecisionResult
  HRes_Choice :: string
  HRes_Answer :: data_map
  HRes_RetryAttempt :: int
  HRes_ResolvedAt :: gotime
  HRes_Latency :: duration

type_synonym FailureCode = string

record HumanDecisionFailure =
  HFail_Kind :: HumanDecisionKind
  HFail_Source :: string
  HFail_Decision :: DecisionResult
  HFail_Request :: "DecisionRequest option"
  HFail_Attempts :: int

record RunFailure =
  Failure_Message :: string
  Failure_Code :: FailureCode
  Failure_Metadata :: data_map
  Failure_HumanDecision :: "HumanDecisionFailure option"

record StreamPayload =
  Stream_Kind :: StreamKind
  Stream_Sequence :: nat
  Stream_Seq :: nat
  Stream_RunID :: string
  Stream_ThreadID :: string
  Stream_TurnID :: string
  Stream_MessageID :: string
  Stream_ToolCallID :: string
  Stream_Name :: string
  Stream_Delta :: string
  Stream_Args :: data_map
  Stream_Result :: data_map
  Stream_Usage :: "Usage option"
  Stream_Error :: "RunFailure option"
  Stream_Timestamp :: gotime
  Stream_HITLRequested :: "HITLRequestedPayload option"
  Stream_HITLResolved :: "HITLResolvedPayload option"
  Stream_Role :: Role
  Stream_Raw :: data_map

definition failureReason :: "FailureCode \<Rightarrow> FailureReason" where
  "failureReason code =
     (if code = ''decision_rejected'' then ''approval_denied''
      else if code = ''decision_timeout'' then ''approval_timeout''
      else if code = ''agent_error'' \<or> code = '''' then ''agent_error''
      else if code = ''cancelled'' then ''cancelled''
      else if code = ''policy_error'' then ''policy_violation''
      else code)"

text \<open>\<^verbatim>\<open>m[key] = value\<close> on an association list.\<close>

fun put :: "string \<Rightarrow> any_value \<Rightarrow> data_map \<Rightarrow> data_map" where
  "put key v [] = [(key, v)]"
| "put key v ((k, w) # m) = (if k = key then (k, v) # m else (k, w) # put key v m)"

definition at_key :: "data_map \<Rightarrow> string \<Rightarrow> any_value" where
  "at_key m key = (case map_of m key of None \<Rightarrow> AnyNil | Some v \<Rightarrow> v)"

fun stringValue :: "any_value \<Rightarrow> string" where
  "stringValue (AnyString s) = s"
| "stringValue _ = ''''"

fun numberValue :: "any_value \<Rightarrow> int" where
  "numberValue (AnyInt n) = n"
| "numberValue (AnyFloat n k) = go_div n (2 ^ k)"
| "numberValue _ = 0"

definition droppedCount :: "data_map \<Rightarrow> int" where
  "droppedCount raw = numberValue (at_key raw ''dropped_count'')"

text \<open>\<^verbatim>\<open>uint64(n)\<close> of an \<^verbatim>\<open>int\<close> wraps around.\<close>

definition uint64_of :: "int \<Rightarrow> nat" where
  "uint64_of n = nat (n mod 2 ^ 64)"

definition droppedFromProvider :: "data_map \<Rightarrow> Dropped" where
  "droppedFromProvider raw =
     \<lparr>Dropped_Count = droppedCount raw,
      Dropped_ByKind =
        (case at_key raw ''by_kind'' of
           AnyIntMap m \<Rightarrow> map_of m
         | AnyMap m \<Rightarrow> map_of (map (\<lambda>(k, v). (k, numberValue v)) m)
         | _ \<Rightarrow> Map.empty),
      Dropped_FirstSequence = uint64_of (numberValue (at_key raw ''first_sequence'')),
      Dropped_LastSequence = uint64_of (numberValue (at_key raw ''last_sequence'')),
      Dropped_Reason = stringValue (at_key raw ''reason''),
      Dropped_Source = (let s = stringValue (at_key raw ''source'') in if s = '''' then ''provider'' else s),
      Dropped_Details = raw\<rparr>"

definition any_choice :: "DecisionChoice \<Rightarrow> any_value" where
  "any_choice c = AnyMap [(''Key'', AnyString (Choice_Key c)), (''Label'', AnyString (Choice_Label c)),
     (''Description'', AnyString (Choice_Description c))]"

definition plain_notice :: "string \<Rightarrow> string \<Rightarrow> data_map \<Rightarrow> event_body" where
  "plain_notice kind txt data = EvNotice \<lparr>Notice_Kind = kind, Notice_Text = txt, Notice_Item = None,
     Notice_Metadata = [], Notice_Data = data\<rparr>"

definition requested_notice :: "HITLRequestedPayload option \<Rightarrow> event_body" where
  "requested_notice r =
     (case r of None \<Rightarrow> plain_notice NoticeApprovalRequested '''' [] | Some r \<Rightarrow>
        plain_notice NoticeApprovalRequested (HReq_Prompt r)
          [(''request_id'', AnyString (HReq_RequestID r)), (''kind'', AnyString (HReq_Kind r)),
           (''source'', AnyString (HReq_Source r)), (''tool_call_id'', AnyString (HReq_ToolCallID r)),
           (''payload'', AnyMap (HReq_Payload r)), (''choices'', AnyList (map any_choice (HReq_Choices r))),
           (''created_at'', AnyInt (HReq_CreatedAt r)), (''deadline'', AnyInt (HReq_Deadline r)),
           (''attempt'', AnyInt (HReq_RetryAttempt r))])"

definition resolved_notice :: "HITLResolvedPayload option \<Rightarrow> event_body" where
  "resolved_notice r =
     (case r of None \<Rightarrow> plain_notice NoticeApprovalResolved '''' [] | Some r \<Rightarrow>
        plain_notice NoticeApprovalResolved ''''
          [(''request_id'', AnyString (HRes_RequestID r)), (''kind'', AnyString (HRes_Kind r)),
           (''source'', AnyString (HRes_Source r)), (''result'', AnyString (HRes_Result r)),
           (''choice'', AnyString (HRes_Choice r)), (''answer'', AnyMap (HRes_Answer r)),
           (''attempt'', AnyInt (HRes_RetryAttempt r)), (''resolved_at'', AnyInt (HRes_ResolvedAt r)),
           (''latency'', AnyInt (HRes_Latency r))])"

definition text_event :: "StreamPayload \<Rightarrow> string \<Rightarrow> Phase \<Rightarrow> event_body" where
  "text_event p txt phase = EvTextDelta \<lparr>Text_MessageID = Stream_MessageID p, Text_Text = txt,
     Text_Role = Stream_Role p, Text_Phase = phase\<rparr>"

definition thinking_event :: "StreamPayload \<Rightarrow> string \<Rightarrow> Phase \<Rightarrow> event_body" where
  "thinking_event p txt phase = EvThinking \<lparr>Thinking_MessageID = Stream_MessageID p, Thinking_Text = txt,
     Thinking_Phase = phase\<rparr>"

definition tool_event ::
  "StreamPayload \<Rightarrow> string \<Rightarrow> data_map \<Rightarrow> string \<Rightarrow> data_map \<Rightarrow> Phase \<Rightarrow> event_body" where
  "tool_event p name args delta res phase = EvToolCall \<lparr>Tool_ID = Stream_ToolCallID p, Tool_Name = name,
     Tool_Args = args, Tool_ArgsDelta = delta, Tool_Result = res, Tool_Phase = phase\<rparr>"

definition run_error_event :: "StreamPayload \<Rightarrow> event_body" where
  "run_error_event p = EvRunFinished \<lparr>Finished_RunID = Stream_RunID p, Finished_ThreadID = Stream_ThreadID p,
     Finished_Usage = None, Finished_Failed = True,
     Finished_Reason = (case Stream_Error p of None \<Rightarrow> ''agent_error'' | Some e \<Rightarrow> failureReason (Failure_Code e)),
     Finished_Message = (case Stream_Error p of None \<Rightarrow> '''' | Some e \<Rightarrow> Failure_Message e)\<rparr>"

definition eventFromStreamPayload :: "StreamPayload \<Rightarrow> event_body" where
  "eventFromStreamPayload p =
     (if Stream_Kind p = ''run.started'' then
        EvRunStarted \<lparr>Started_RunID = Stream_RunID p, Started_ThreadID = Stream_ThreadID p\<rparr>
      else if Stream_Kind p = ''run.finished'' then
        EvRunFinished \<lparr>Finished_RunID = Stream_RunID p, Finished_ThreadID = Stream_ThreadID p,
          Finished_Usage = Stream_Usage p, Finished_Failed = False, Finished_Reason = '''', Finished_Message = ''''\<rparr>
      else if Stream_Kind p = ''run.error'' then run_error_event p
      else if Stream_Kind p = ''step.started'' then
        plain_notice NoticeStep (Stream_Name p) [(''phase'', AnyString ''started'')]
      else if Stream_Kind p = ''step.finished'' then
        plain_notice NoticeStep (Stream_Name p) [(''phase'', AnyString ''finished'')]
      else if Stream_Kind p = ''text.start'' then text_event p '''' PhaseStart
      else if Stream_Kind p = ''text.content'' then text_event p (Stream_Delta p) PhaseContent
      else if Stream_Kind p = ''text.end'' then text_event p '''' PhaseEnd
      else if Stream_Kind p = ''tool_call.start'' then
        tool_event p (Stream_Name p) (Stream_Args p) '''' [] PhaseStart
      else if Stream_Kind p = ''tool_call.args'' then tool_event p '''' [] (Stream_Delta p) [] PhaseContent
      else if Stream_Kind p = ''tool_call.end'' then tool_event p '''' [] '''' (Stream_Result p) PhaseEnd
      else if Stream_Kind p = ''tool_call.result'' then
        EvToolResult \<lparr>ToolResult_ID = Stream_ToolCallID p, ToolResult_Result = Stream_Result p\<rparr>
      else if Stream_Kind p = ''reasoning.start'' then thinking_event p '''' PhaseStart
      else if Stream_Kind p = ''reasoning.content'' then thinking_event p (Stream_Delta p) PhaseContent
      else if Stream_Kind p = ''reasoning.end'' then thinking_event p '''' PhaseEnd
      else if Stream_Kind p = ''hitl.requested'' then requested_notice (Stream_HITLRequested p)
      else if Stream_Kind p = ''hitl.resolved'' then resolved_notice (Stream_HITLResolved p)
      else if Stream_Kind p = ''stream.dropped'' then EvDropped (droppedFromProvider (Stream_Raw p))
      else plain_notice (Stream_Kind p) (Stream_Delta p)
             (if Stream_Name p \<noteq> '''' then put ''name'' (AnyString (Stream_Name p)) (Stream_Raw p)
              else Stream_Raw p))"

subsection \<open>Which driver output can be lost\<close>

text \<open>The driver outputs that carry replayable content, and only those.\<close>

definition delta_kinds :: "StreamKind set" where
  "delta_kinds = {''text.content'', ''tool_call.args'', ''reasoning.content''}"

definition boundary_kinds :: "StreamKind set" where
  "boundary_kinds = {''text.start'', ''text.end'', ''tool_call.start'', ''tool_call.end'',
     ''tool_call.result'', ''reasoning.start'', ''reasoning.end''}"

text \<open>
  Only content deltas can be dropped. A stream payload's event is droppable exactly for text,
  tool-argument and reasoning deltas, a run event's exactly for raw output chunks; every other
  kind, known or not, becomes an event that is never dropped, and the kinds that are neither deltas
  nor lifecycle boundaries become critical events, which do not even wait for capacity.
\<close>

theorem only_deltas_may_drop:
  "(eventMayDrop (eventFromStreamPayload p) \<longleftrightarrow> Stream_Kind p \<in> delta_kinds)
   \<and> (eventCritical (eventFromStreamPayload p) \<longleftrightarrow> Stream_Kind p \<notin> delta_kinds \<union> boundary_kinds)
   \<and> (eventMayDrop (eventFromRunEvent ev) \<longleftrightarrow> RunEvent_Type ev = RunEventChunk)
   \<and> (eventCritical (eventFromRunEvent ev) \<longleftrightarrow> RunEvent_Type ev \<notin> {RunEventChunk, RunEventSpawn})"
proof -
  have "eventMayDrop (eventFromStreamPayload p) \<longleftrightarrow> Stream_Kind p \<in> delta_kinds"
    unfolding eventFromStreamPayload_def delta_kinds_def
    by (simp add: plain_notice_def requested_notice_def resolved_notice_def text_event_def thinking_event_def
        tool_event_def run_error_event_def split: option.split)
  moreover have "eventCritical (eventFromStreamPayload p) \<longleftrightarrow> Stream_Kind p \<notin> delta_kinds \<union> boundary_kinds"
    unfolding eventFromStreamPayload_def delta_kinds_def boundary_kinds_def
    by (simp add: plain_notice_def requested_notice_def resolved_notice_def text_event_def thinking_event_def
        tool_event_def run_error_event_def split: option.split)
  moreover have "eventMayDrop (eventFromRunEvent ev) \<longleftrightarrow> RunEvent_Type ev = RunEventChunk"
    unfolding eventFromRunEvent_def by (simp add: notice_of_def)
  moreover have "eventCritical (eventFromRunEvent ev) \<longleftrightarrow> RunEvent_Type ev \<notin> {RunEventChunk, RunEventSpawn}"
    unfolding eventFromRunEvent_def by (simp add: notice_of_def)
  ultimately show ?thesis by blast
qed

end
