(* ===== verification/EventBroker.thy ===== *)
theory EventBroker
  imports Events "HOL-Library.Sublist"
begin

text \<open>
  \<^verbatim>\<open>event_broker.go\<close>: the one owner of event ordering and channel lifecycle of a run.
  The mutex makes every locked section one atomic function on the broker's state. The events
  channel is the list of its buffered values and a flag for closed. A producer that waits for
  capacity releases the mutex (\<^verbatim>\<open>waitCapacityLocked\<close>), so a publication is cut at
  the two places it can wait; the broker without a spool waits with the mutex held
  (\<^verbatim>\<open>sendLocked\<close>), so what the reader and an abort do meanwhile is an argument of that
  call. The pump goroutine is a program counter. Sequence numbers are natural numbers: a run
  would have to publish \<open>2 ^ 64\<close> events for the code's \<^verbatim>\<open>uint64\<close> to differ.
\<close>

subsection \<open>State\<close>

record dropAggregate =
  drop_count :: int
  drop_byKind :: "string \<rightharpoonup> int"
  drop_first :: nat
  drop_last :: nat
  drop_unobserved :: bool
  drop_runID :: string

definition no_drops :: dropAggregate where
  "no_drops = \<lparr>drop_count = 0, drop_byKind = Map.empty, drop_first = 0, drop_last = 0,
     drop_unobserved = False, drop_runID = ''''\<rparr>"

text \<open>
  The pump: not started, about to lock and look, waiting for the wake signal, holding the head it
  is sending, past the send and about to remove the head, returned.
\<close>

datatype pump_pc = PumpOff | PumpCheck | PumpWait | PumpSend Event | PumpPop | PumpExit

record eventBroker =
  b_events :: "Event list"
  b_eventsCap :: nat
  b_eventsClosed :: bool
  b_received :: "Event list"
  b_spool :: bool
  b_subscribed :: bool
  b_queue :: "Event list"
  b_wake :: bool
  b_pumping :: bool
  b_pump :: pump_pc
  b_discardOrdinary :: bool
  b_discardUnsubscribed :: bool
  b_multipleRuns :: bool
  b_runID :: string
  b_threadKey :: string
  b_blocking :: bool
  b_normalCapacity :: nat
  b_closed :: bool
  b_terminal :: bool
  b_sequence :: nat
  b_dropped :: dropAggregate
  b_aborted :: bool
  b_done :: bool
  b_consumer :: bool

definition defaultEventBuffer :: nat where
  "defaultEventBuffer = 1024"

text \<open>
  The buffer size is an \<^verbatim>\<open>int\<close>; the largest one leaves no room for the terminal slot
  and panics.
\<close>

definition newEventBroker :: "string \<Rightarrow> string \<Rightarrow> int \<Rightarrow> bool \<Rightarrow> eventBroker outcome" where
  "newEventBroker runID threadKey buffer0 blocking =
     (let buffer = (if buffer0 \<le> 0 then int defaultEventBuffer else buffer0)
      in if buffer = 2 ^ 63 - 1 then Panic
         else Return \<lparr>b_events = [], b_eventsCap = nat buffer + 1, b_eventsClosed = False, b_received = [],
           b_spool = False, b_subscribed = False, b_queue = [], b_wake = False, b_pumping = False,
           b_pump = PumpOff, b_discardOrdinary = False, b_discardUnsubscribed = False,
           b_multipleRuns = False, b_runID = runID, b_threadKey = threadKey, b_blocking = blocking,
           b_normalCapacity = nat buffer, b_closed = False, b_terminal = False, b_sequence = 0,
           b_dropped = no_drops, b_aborted = False, b_done = False, b_consumer = False\<rparr>)"

subsection \<open>Locked helpers\<close>

definition stampNextLocked ::
  "gotime \<Rightarrow> eventBroker \<Rightarrow> Event \<Rightarrow> EventSourceMeta option \<Rightarrow> Event \<times> eventBroker" where
  "stampNextLocked now b ev source =
     (let b' = b\<lparr>b_sequence := b_sequence b + 1\<rparr>;
          meta = \<lparr>Meta_RunID = b_runID b, Meta_ThreadKey = b_threadKey b, Meta_Sequence = b_sequence b',
                  Meta_Time = now, Meta_TurnID = (case source of None \<Rightarrow> '''' | Some s \<Rightarrow> Source_TurnID s),
                  Meta_Source = source\<rparr>;
          original = Event_meta ev;
          meta' = (if b_multipleRuns b then meta\<lparr>Meta_RunID := Meta_RunID original,
                     Meta_TurnID := Meta_TurnID original, Meta_Source := Meta_Source original\<rparr> else meta)
      in (stampEvent ev meta', b'))"

definition recordDropLocked :: "eventBroker \<Rightarrow> Event \<Rightarrow> eventBroker" where
  "recordDropLocked b ev =
     (let seq = Meta_Sequence (Event_meta ev);
          d0 = b_dropped b;
          d = (if drop_count d0 = 0 then d0\<lparr>drop_byKind := Map.empty, drop_first := seq,
                 drop_runID := Meta_RunID (Event_meta ev)\<rparr> else d0);
          kind = eventKind (Event_body ev)
      in b\<lparr>b_dropped := d\<lparr>drop_first := min seq (drop_first d), drop_last := max seq (drop_last d),
             drop_count := drop_count d + 1,
             drop_byKind := (drop_byKind d)(kind \<mapsto> (case drop_byKind d kind of None \<Rightarrow> 0 | Some n \<Rightarrow> n) + 1)\<rparr>\<rparr>)"

definition add_kinds :: "(string \<rightharpoonup> int) \<Rightarrow> (string \<rightharpoonup> int) \<Rightarrow> (string \<rightharpoonup> int)" where
  "add_kinds m byKind = (\<lambda>k. case byKind k of None \<Rightarrow> m k
     | Some n \<Rightarrow> Some ((case m k of None \<Rightarrow> 0 | Some x \<Rightarrow> x) + n))"

definition mergeDropsLocked ::
  "eventBroker \<Rightarrow> int \<Rightarrow> (string \<rightharpoonup> int) \<Rightarrow> nat \<Rightarrow> nat \<Rightarrow> bool \<Rightarrow> eventBroker" where
  "mergeDropsLocked b count byKind first lastSeq unobserved =
     (if count = 0 then b
      else let d0 = b_dropped b;
               d = (if drop_count d0 = 0 then d0\<lparr>drop_byKind := Map.empty, drop_first := first\<rparr> else d0)
           in b\<lparr>b_dropped := d\<lparr>drop_first := min first (drop_first d), drop_last := max lastSeq (drop_last d),
                  drop_count := drop_count d + count, drop_byKind := add_kinds (drop_byKind d) byKind,
                  drop_unobserved := (drop_unobserved d \<or> unobserved)\<rparr>\<rparr>)"

definition wakeLocked :: "eventBroker \<Rightarrow> eventBroker" where
  "wakeLocked b = b\<lparr>b_wake := True\<rparr>"

definition startPumpLocked :: "eventBroker \<Rightarrow> eventBroker" where
  "startPumpLocked b = (if b_pumping b then b else b\<lparr>b_pumping := True, b_pump := PumpCheck\<rparr>)"

definition enqueueLocked :: "eventBroker \<Rightarrow> Event \<Rightarrow> eventBroker" where
  "enqueueLocked b ev =
     (if b_queue b = [] \<and> length (b_events b) < b_normalCapacity b
      then b\<lparr>b_events := b_events b @ [ev]\<rparr>
      else let b1 = wakeLocked (b\<lparr>b_queue := b_queue b @ [ev]\<rparr>)
           in if b_subscribed b1 then startPumpLocked b1 else b1)"

definition sdk_source :: string where
  "sdk_source = ''sdk.event_broker''"

definition drop_marker :: "dropAggregate \<Rightarrow> string \<Rightarrow> string \<Rightarrow> nat \<Rightarrow> event_body" where
  "drop_marker d reason strategy cap = EvDropped \<lparr>Dropped_Count = drop_count d, Dropped_ByKind = drop_byKind d,
     Dropped_FirstSequence = drop_first d, Dropped_LastSequence = drop_last d, Dropped_Reason = reason,
     Dropped_Source = sdk_source,
     Dropped_Details = [(''buffer'', AnyInt (int cap)), (''strategy'', AnyString strategy)]\<rparr>"

definition spoolDroppedLocked :: "gotime \<Rightarrow> eventBroker \<Rightarrow> eventBroker" where
  "spoolDroppedLocked now b =
     (let d = b_dropped b;
          b1 = b\<lparr>b_dropped := no_drops\<rparr>;
          body = (if drop_unobserved d
                  then drop_marker d ''events_unobserved'' ''retain_critical'' (b_normalCapacity b)
                  else drop_marker d ''slow_consumer'' ''drop_deltas'' (b_normalCapacity b));
          marker = stampEvent (new_event body) (zero_EventMeta\<lparr>Meta_RunID := drop_runID d\<rparr>);
          (marker', b2) = stampNextLocked now b1 marker None
      in enqueueLocked b2 marker')"

definition is_sdk_marker :: "event_body \<Rightarrow> bool" where
  "is_sdk_marker body = (case body of EvDropped d \<Rightarrow> Dropped_Source d = sdk_source | _ \<Rightarrow> False)"

text \<open>One event of the pruning loop; the number is how many ordinary events have been kept.\<close>

definition prune_event :: "bool \<Rightarrow> nat \<times> eventBroker \<Rightarrow> Event \<Rightarrow> nat \<times> eventBroker" where
  "prune_event keepOrdinary st ev =
     (let (kept, b) = st in
      case Event_body ev of
        EvDropped d \<Rightarrow>
          (if Dropped_Source d = sdk_source
           then (kept, mergeDropsLocked b (Dropped_Count d) (Dropped_ByKind d) (Dropped_FirstSequence d)
                         (Dropped_LastSequence d) True)
           else (kept, b\<lparr>b_queue := b_queue b @ [ev]\<rparr>))
      | body \<Rightarrow>
          (if eventCritical body then (kept, b\<lparr>b_queue := b_queue b @ [ev]\<rparr>)
           else if keepOrdinary \<and> kept < b_normalCapacity b
           then (kept + 1, b\<lparr>b_queue := b_queue b @ [ev]\<rparr>)
           else (kept, let b1 = recordDropLocked b ev
                       in b1\<lparr>b_dropped := (b_dropped b1)\<lparr>drop_unobserved := True\<rparr>\<rparr>)))"

definition pruneUnobservedLocked :: "bool \<Rightarrow> eventBroker \<Rightarrow> eventBroker" where
  "pruneUnobservedLocked keepOrdinary b =
     snd (foldl (prune_event keepOrdinary) (0, b\<lparr>b_events := [], b_queue := []\<rparr>) (b_events b @ b_queue b))"

subsection \<open>Publishing with a spool\<close>

definition must_wait :: "CtxErr option \<Rightarrow> eventBroker \<Rightarrow> bool" where
  "must_wait ctx b \<longleftrightarrow> \<not> b_closed b \<and> \<not> b_terminal b \<and> \<not> b_discardOrdinary b \<and> \<not> b_aborted b \<and> ctx = None
     \<and> b_normalCapacity b \<le> length (b_events b) + length (b_queue b)"

definition drop_now :: "CtxErr option \<Rightarrow> eventBroker \<Rightarrow> Event \<Rightarrow> bool" where
  "drop_now ctx b ev \<longleftrightarrow> b_discardOrdinary b
     \<or> ((ctx \<noteq> None \<or> b_aborted b) \<and> eventMayDrop (Event_body ev))
     \<or> (\<not> b_blocking b \<and> eventMayDrop (Event_body ev)
         \<and> b_normalCapacity b \<le> length (b_events b) + length (b_queue b))"

definition drop_ordinary ::
  "gotime \<Rightarrow> eventBroker \<Rightarrow> Event \<Rightarrow> EventSourceMeta option \<Rightarrow> eventBroker" where
  "drop_ordinary now b ev source =
     (let (ev', b1) = stampNextLocked now b ev source;
          b2 = recordDropLocked b1 ev'
      in b2\<lparr>b_dropped := (b_dropped b2)\<lparr>drop_unobserved := (drop_unobserved (b_dropped b2) \<or> b_discardOrdinary b2)\<rparr>\<rparr>)"

text \<open>
  How a publication stands: it returned, or its producer waits for capacity, for the first or the
  second time, with the mutex released, or (without a spool) with the mutex held.
\<close>

datatype publish_step = Returned bool | WaitFirst | WaitSecond | Probing

definition publish_second ::
  "CtxErr option \<Rightarrow> gotime \<Rightarrow> eventBroker \<Rightarrow> Event \<Rightarrow> EventSourceMeta option \<Rightarrow> publish_step \<times> eventBroker" where
  "publish_second ctx now b ev source =
     (let critical = eventCritical (Event_body ev) in
      if \<not> critical \<and> b_blocking b \<and> must_wait ctx b then (WaitSecond, b)
      else if b_closed b \<or> b_terminal b then (Returned False, b)
      else if \<not> critical \<and> drop_now ctx b ev then (Returned False, drop_ordinary now b ev source)
      else let (ev', b1) = stampNextLocked now b ev source in (Returned True, enqueueLocked b1 ev'))"

definition publish_marker :: "gotime \<Rightarrow> eventBroker \<Rightarrow> eventBroker" where
  "publish_marker now b = (if 0 < drop_count (b_dropped b) then spoolDroppedLocked now b else b)"

definition publish_first ::
  "CtxErr option \<Rightarrow> gotime \<Rightarrow> eventBroker \<Rightarrow> Event \<Rightarrow> EventSourceMeta option \<Rightarrow> publish_step \<times> eventBroker" where
  "publish_first ctx now b ev source =
     (if eventCritical (Event_body ev) then publish_second ctx now (publish_marker now b) ev source
      else if b_blocking b \<and> must_wait ctx b then (WaitFirst, b)
      else if b_closed b \<or> b_terminal b then (Returned False, b)
      else if drop_now ctx b ev then (Returned False, drop_ordinary now b ev source)
      else publish_second ctx now (publish_marker now b) ev source)"

subsection \<open>Publishing without a spool\<close>

text \<open>
  While \<^verbatim>\<open>sendLocked\<close> probes a full channel only the reader, an abort and the context
  can move. The argument says what happened: the reader took \<open>n\<close> events, or the wait was aborted
  or its context ended.
\<close>

datatype send_env = Drained nat | AbortSeen | CtxSeen

definition take_events :: "nat \<Rightarrow> eventBroker \<Rightarrow> eventBroker" where
  "take_events n b = b\<lparr>b_received := b_received b @ take n (b_events b), b_events := drop n (b_events b)\<rparr>"

definition sendLocked :: "send_env \<Rightarrow> eventBroker \<Rightarrow> Event \<Rightarrow> publish_step \<times> eventBroker" where
  "sendLocked env b ev =
     (if length (b_events b) < b_normalCapacity b
      then (Returned True, b\<lparr>b_events := b_events b @ [ev]\<rparr>)
      else case env of
        Drained n \<Rightarrow>
          (let b1 = take_events n b in
           if length (b_events b1) < b_normalCapacity b1
           then (Returned True, b1\<lparr>b_events := b_events b1 @ [ev]\<rparr>)
           else (Probing, b1))
      | AbortSeen \<Rightarrow> (Returned False, b\<lparr>b_aborted := True\<rparr>)
      | CtxSeen \<Rightarrow> (Returned False, b))"

definition flushDroppedLocked ::
  "send_env \<Rightarrow> gotime \<Rightarrow> eventBroker \<Rightarrow> bool \<Rightarrow> publish_step \<times> eventBroker" where
  "flushDroppedLocked env now b reliable =
     (if drop_count (b_dropped b) = 0 then (Returned True, b)
      else let marker = stampEvent (new_event (drop_marker (b_dropped b) ''slow_consumer'' ''drop_deltas'' (b_normalCapacity b)))
                 (zero_EventMeta\<lparr>Meta_RunID := b_runID b, Meta_ThreadKey := b_threadKey b,
                    Meta_Sequence := b_sequence b + 1, Meta_Time := now\<rparr>);
               (sent, b1) = (if reliable then sendLocked env b marker
                 else if length (b_events b) < b_normalCapacity b
                 then (Returned True, b\<lparr>b_events := b_events b @ [marker]\<rparr>)
                 else (Returned False, b))
           in if sent = Returned True
              then (sent, b1\<lparr>b_sequence := b_sequence b + 1, b_dropped := no_drops\<rparr>)
              else (sent, b1))"

definition publish_direct ::
  "send_env \<Rightarrow> send_env \<Rightarrow> gotime \<Rightarrow> eventBroker \<Rightarrow> Event \<Rightarrow> EventSourceMeta option \<Rightarrow> publish_step \<times> eventBroker" where
  "publish_direct env1 env2 now b ev source =
     (if b_aborted b then
        (if eventMayDrop (Event_body ev) then (Returned False, b)
         else if b_normalCapacity b \<le> length (b_events b) then (Returned False, b)
         else let (ev', b1) = stampNextLocked now b ev source
              in (Returned True, b1\<lparr>b_events := b_events b1 @ [ev']\<rparr>))
      else
        let reliable = (b_blocking b \<or> \<not> eventMayDrop (Event_body ev));
            (flushed, b1) = flushDroppedLocked env1 now b reliable
        in if flushed = Probing then (Probing, b1)
           else if flushed = Returned False then
             (Returned False, if \<not> reliable
                then (let (ev', b2) = stampNextLocked now b1 ev source in recordDropLocked b2 ev') else b1)
           else let (ev', b2) = stampNextLocked now b1 ev source in
             if reliable then sendLocked env2 b2 ev'
             else if b_normalCapacity b2 \<le> length (b_events b2) then (Returned False, recordDropLocked b2 ev')
             else (Returned True, b2\<lparr>b_events := b_events b2 @ [ev']\<rparr>))"

subsection \<open>The public operations\<close>

definition publishLocked ::
  "CtxErr option \<Rightarrow> send_env \<Rightarrow> send_env \<Rightarrow> gotime \<Rightarrow> eventBroker \<Rightarrow> Event \<Rightarrow> EventSourceMeta option
   \<Rightarrow> publish_step \<times> eventBroker" where
  "publishLocked ctx env1 env2 now b ev source =
     (if b_discardUnsubscribed b \<and> \<not> b_subscribed b then (Returned True, b)
      else if b_spool b then publish_first ctx now b ev source
      else publish_direct env1 env2 now b ev source)"

definition publishContext ::
  "CtxErr option \<Rightarrow> send_env \<Rightarrow> send_env \<Rightarrow> gotime \<Rightarrow> eventBroker \<Rightarrow> Event option \<Rightarrow> EventSourceMeta option
   \<Rightarrow> publish_step \<times> eventBroker" where
  "publishContext ctx env1 env2 now b ev source =
     (case ev of None \<Rightarrow> (Returned True, b) | Some e \<Rightarrow>
        if b_closed b \<or> b_terminal b then (Returned False, b)
        else publishLocked ctx env1 env2 now b e source)"

definition publishTerminal ::
  "send_env \<Rightarrow> gotime \<Rightarrow> eventBroker \<Rightarrow> Event option \<Rightarrow> EventSourceMeta option \<Rightarrow> (publish_step \<times> eventBroker) outcome" where
  "publishTerminal env now b ev source =
     (case ev of None \<Rightarrow> Return (Returned False, b) | Some e \<Rightarrow>
      if b_closed b \<or> b_terminal b then Return (Returned False, b)
      else if b_spool b then
        (let b1 = (if \<not> b_subscribed b then pruneUnobservedLocked (\<not> b_discardOrdinary b) b else b);
             b2 = publish_marker now b1;
             b3 = b2\<lparr>b_terminal := True\<rparr>;
             (e', b4) = stampNextLocked now b3 e source
         in Return (Returned True, enqueueLocked b4 e'))
      else
        (let b1 = b\<lparr>b_terminal := True\<rparr>;
             (flushed, b2) = (if \<not> b_aborted b1 \<and> 0 < drop_count (b_dropped b1)
                              then flushDroppedLocked env now b1 True else (Returned True, b1))
         in if flushed = Probing then Return (Probing, b2)
            else let b3 = (if flushed = Returned False then b2\<lparr>b_dropped := no_drops\<rparr> else b2);
                     (e', b4) = stampNextLocked now b3 e source
                 in if length (b_events b4) < b_eventsCap b4
                    then Return (Returned True, b4\<lparr>b_events := b_events b4 @ [e']\<rparr>)
                    else Panic))"

definition broker_close :: "send_env \<Rightarrow> gotime \<Rightarrow> eventBroker \<Rightarrow> publish_step \<times> eventBroker" where
  "broker_close env now b =
     (if b_closed b then (Returned True, b)
      else if b_spool b then
        (let b1 = (if \<not> b_terminal b \<and> \<not> b_subscribed b then pruneUnobservedLocked (\<not> b_discardOrdinary b) b else b);
             b2 = (if \<not> b_terminal b1 then publish_marker now b1 else b1);
             b3 = b2\<lparr>b_closed := True, b_done := True\<rparr>
         in (Returned True,
             if \<not> b_subscribed b3
             then b3\<lparr>b_events := b_events b3 @ b_queue b3, b_eventsCap := length (b_events b3) + length (b_queue b3),
                     b_queue := [], b_eventsClosed := True\<rparr>
             else wakeLocked (startPumpLocked b3)))
      else
        (let (flushed, b1) = (if \<not> b_terminal b then flushDroppedLocked env now b (\<not> b_aborted b) else (Returned True, b))
         in if flushed = Probing then (Probing, b1)
            else (Returned True, b1\<lparr>b_closed := True, b_eventsClosed := True, b_done := True\<rparr>)))"

definition broker_abort :: "eventBroker \<Rightarrow> eventBroker" where
  "broker_abort b = b\<lparr>b_aborted := True\<rparr>"

definition markConsumer :: "eventBroker \<Rightarrow> eventBroker" where
  "markConsumer b = b\<lparr>b_consumer := True\<rparr>"

definition broker_subscribe :: "eventBroker \<Rightarrow> eventBroker" where
  "broker_subscribe b =
     (let b1 = markConsumer (b\<lparr>b_subscribed := True\<rparr>);
          b2 = (if \<not> b_closed b1 then b1\<lparr>b_discardOrdinary := False\<rparr> else b1)
      in if b_spool b2 \<and> \<not> b_closed b2 then startPumpLocked b2 else b2)"

definition awaitResult :: "eventBroker \<Rightarrow> eventBroker" where
  "awaitResult b =
     (let b1 = markConsumer b in
      if \<not> b_spool b1 \<or> b_subscribed b1 \<or> b_closed b1 \<or> b_terminal b1 then b1
      else pruneUnobservedLocked False (b1\<lparr>b_discardOrdinary := True\<rparr>))"

text \<open>The reader takes one event; it exists only once it has subscribed.\<close>

definition broker_receive :: "eventBroker \<Rightarrow> eventBroker" where
  "broker_receive b = take_events 1 b"

text \<open>One atomic step of the pump goroutine; a step that cannot be taken leaves the state alone.\<close>

definition pump_step :: "eventBroker \<Rightarrow> eventBroker" where
  "pump_step b =
     (case b_pump b of
        PumpOff \<Rightarrow> b
      | PumpCheck \<Rightarrow>
          (case b_queue b of
             [] \<Rightarrow> if b_closed b then b\<lparr>b_eventsClosed := True, b_pump := PumpExit\<rparr> else b\<lparr>b_pump := PumpWait\<rparr>
           | ev # _ \<Rightarrow> b\<lparr>b_pump := PumpSend ev\<rparr>)
      | PumpWait \<Rightarrow> if b_wake b then b\<lparr>b_wake := False, b_pump := PumpCheck\<rparr> else b
      | PumpSend ev \<Rightarrow>
          if length (b_events b) < b_eventsCap b
          then b\<lparr>b_events := b_events b @ [ev], b_pump := PumpPop\<rparr> else b
      | PumpPop \<Rightarrow> b\<lparr>b_queue := tl (b_queue b), b_pump := PumpCheck\<rparr>
      | PumpExit \<Rightarrow> b)"

subsection \<open>The stream of a broker\<close>

text \<open>
  What the reader has received, what the channel buffers and what the queue still holds, in order.
  Between its send and its removal the pump's event is at the head of the queue and already in the
  channel: it counts once.
\<close>

definition pending_queue :: "eventBroker \<Rightarrow> Event list" where
  "pending_queue b = (if b_pump b = PumpPop then tl (b_queue b) else b_queue b)"

definition stream :: "eventBroker \<Rightarrow> Event list" where
  "stream b = b_received b @ b_events b @ pending_queue b"

definition event_seq :: "Event \<Rightarrow> nat" where
  "event_seq ev = Meta_Sequence (Event_meta ev)"

text \<open>
  The pump's invariant. The program counter agrees with \<^verbatim>\<open>pumping\<close>; the event being sent is
  the head of the queue; a pump that waits has a wake signal whenever there is work; the channel is
  closed only after the broker and only when the queue is empty; a subscribed spool has a pump until then.
\<close>

definition head_ok :: "pump_pc \<Rightarrow> Event list \<Rightarrow> bool" where
  "head_ok pc q = (case pc of PumpSend ev \<Rightarrow> q \<noteq> [] \<and> hd q = ev | PumpPop \<Rightarrow> q \<noteq> [] | _ \<Rightarrow> True)"

definition pump_ok :: "eventBroker \<Rightarrow> bool" where
  "pump_ok b \<longleftrightarrow>
     (b_pumping b \<longleftrightarrow> b_pump b \<noteq> PumpOff)
     \<and> head_ok (b_pump b) (b_queue b)
     \<and> (b_pumping b \<longrightarrow> b_subscribed b \<and> b_spool b)
     \<and> (b_pump b = PumpWait \<and> (b_queue b \<noteq> [] \<or> b_closed b) \<longrightarrow> b_wake b)
     \<and> (b_pump b = PumpExit \<longrightarrow> b_eventsClosed b)
     \<and> (b_eventsClosed b \<longrightarrow> b_closed b \<and> b_queue b = [])
     \<and> (b_spool b \<and> (b_subscribed b \<or> b_closed b) \<and> \<not> b_eventsClosed b \<longrightarrow> b_pumping b)
     \<and> (\<not> b_spool b \<longrightarrow> b_queue b = [])
     \<and> (\<not> b_eventsClosed b \<longrightarrow> b_normalCapacity b < b_eventsCap b)"

definition ordered :: "eventBroker \<Rightarrow> bool" where
  "ordered b \<longleftrightarrow> sorted_wrt (<) (map event_seq (stream b)) \<and> (\<forall>ev \<in> set (stream b). event_seq ev \<le> b_sequence b)"

definition critical_log :: "Event list \<Rightarrow> Event list" where
  "critical_log evs = filter (\<lambda>ev. eventCritical (Event_body ev) \<and> \<not> is_sdk_marker (Event_body ev)) evs"

definition stamped :: "gotime \<Rightarrow> eventBroker \<Rightarrow> Event \<Rightarrow> EventSourceMeta option \<Rightarrow> Event" where
  "stamped now b ev source = fst (stampNextLocked now b ev source)"

lemma stampNextLocked_eq:
  "stampNextLocked now b ev source = (stamped now b ev source, b\<lparr>b_sequence := Suc (b_sequence b)\<rparr>)"
  by (simp add: stamped_def stampNextLocked_def Let_def)

lemma stamped_simps [simp]:
  "Event_body (stamped now b ev source) = Event_body ev"
  "event_seq (stamped now b ev source) = Suc (b_sequence b)"
  by (simp_all add: stamped_def stampNextLocked_def event_seq_def Let_def)

lemma critical_log_append [simp]: "critical_log (xs @ ys) = critical_log xs @ critical_log ys"
  by (simp add: critical_log_def)

lemma stream_cong:
  "\<lbrakk>b_received b' = b_received b; b_events b' = b_events b; b_queue b' = b_queue b; b_pump b' = b_pump b\<rbrakk>
   \<Longrightarrow> stream b' = stream b"
  by (simp add: stream_def pending_queue_def)

lemma ordered_append:
  assumes "ordered b" "stream b' = stream b @ [ev]" "event_seq ev = Suc (b_sequence b)" "b_sequence b' = Suc (b_sequence b)"
  shows "ordered b'"
  using assms by (auto simp: ordered_def sorted_wrt_append less_Suc_eq_le le_Suc_eq)

lemma ordered_same:
  "\<lbrakk>ordered b; stream b' = stream b; b_sequence b \<le> b_sequence b'\<rbrakk> \<Longrightarrow> ordered b'"
  unfolding ordered_def by (metis le_trans)

lemma subseq_set: "subseq xs ys \<Longrightarrow> set xs \<subseteq> set ys"
  by (auto dest: list_emb_set)

lemma sorted_wrt_subseq: "\<lbrakk>subseq xs ys; sorted_wrt P ys\<rbrakk> \<Longrightarrow> sorted_wrt P xs"
  by (induction rule: list_emb.induct) (auto dest: subseq_set)

lemma ordered_subseq:
  assumes "ordered b" "subseq (stream b') (stream b)" "b_sequence b' = b_sequence b"
  shows "ordered b'"
proof -
  have "subseq (map event_seq (stream b')) (map event_seq (stream b))" using assms(2) by (rule subseq_map)
  then have "sorted_wrt (<) (map event_seq (stream b'))" using assms(1) sorted_wrt_subseq by (auto simp: ordered_def)
  then show ?thesis using assms(1,3) subseq_set[OF assms(2)] by (auto simp: ordered_def)
qed

subsection \<open>What each locked helper does to the stream\<close>

lemma head_ok_simps [simp]:
  "head_ok PumpOff q" "head_ok PumpCheck q" "head_ok PumpWait q" "head_ok PumpExit q"
  "head_ok PumpPop q = (q \<noteq> [])" "head_ok (PumpSend ev) q = (q \<noteq> [] \<and> hd q = ev)"
  by (simp_all add: head_ok_def)

lemma head_ok_append: "head_ok pc q \<Longrightarrow> head_ok pc (q @ q')"
  by (cases pc) auto

lemma enqueue_stream: "pump_ok b \<Longrightarrow> stream (enqueueLocked b ev) = stream b @ [ev]"
  by (auto simp: enqueueLocked_def stream_def pending_queue_def pump_ok_def wakeLocked_def startPumpLocked_def Let_def)

lemma enqueue_pump_ok: "\<lbrakk>pump_ok b; \<not> b_closed b; b_spool b\<rbrakk> \<Longrightarrow> pump_ok (enqueueLocked b ev)"
  by (auto simp: enqueueLocked_def pump_ok_def wakeLocked_def startPumpLocked_def Let_def head_ok_append)

lemma enqueue_fields [simp]:
  "b_sequence (enqueueLocked b ev) = b_sequence b"
  "b_dropped (enqueueLocked b ev) = b_dropped b"
  "b_closed (enqueueLocked b ev) = b_closed b"
  "b_terminal (enqueueLocked b ev) = b_terminal b"
  "b_spool (enqueueLocked b ev) = b_spool b"
  "b_subscribed (enqueueLocked b ev) = b_subscribed b"
  "b_normalCapacity (enqueueLocked b ev) = b_normalCapacity b"
  "b_eventsCap (enqueueLocked b ev) = b_eventsCap b"
  "b_eventsClosed (enqueueLocked b ev) = b_eventsClosed b"
  "b_received (enqueueLocked b ev) = b_received b"
  "b_discardOrdinary (enqueueLocked b ev) = b_discardOrdinary b"
  "b_discardUnsubscribed (enqueueLocked b ev) = b_discardUnsubscribed b"
  "b_blocking (enqueueLocked b ev) = b_blocking b"
  "b_aborted (enqueueLocked b ev) = b_aborted b"
  by (simp_all add: enqueueLocked_def wakeLocked_def startPumpLocked_def Let_def)

end
