(* ===== verification/EventStream.thy ===== *)
theory EventStream
  imports EventBroker
begin

text \<open>
  What each operation of the broker does to the stream, and the invariant every operation keeps: the
  pump and the queue agree and sequence numbers increase along the stream.
\<close>

subsection \<open>Publication\<close>

lemma publish_marker_fields [simp]:
  "b_closed (publish_marker now b) = b_closed b"
  "b_terminal (publish_marker now b) = b_terminal b"
  "b_spool (publish_marker now b) = b_spool b"
  "b_subscribed (publish_marker now b) = b_subscribed b"
  "b_normalCapacity (publish_marker now b) = b_normalCapacity b"
  "b_eventsCap (publish_marker now b) = b_eventsCap b"
  "b_eventsClosed (publish_marker now b) = b_eventsClosed b"
  "b_received (publish_marker now b) = b_received b"
  "b_discardOrdinary (publish_marker now b) = b_discardOrdinary b"
  "b_discardUnsubscribed (publish_marker now b) = b_discardUnsubscribed b"
  "b_blocking (publish_marker now b) = b_blocking b"
  "b_aborted (publish_marker now b) = b_aborted b"
  by (simp_all add: publish_marker_def spoolDroppedLocked_def stampNextLocked_eq Let_def)

text \<open>The marker a broker with pending losses puts in front of the next event.\<close>

definition pending_marker :: "gotime \<Rightarrow> eventBroker \<Rightarrow> Event" where
  "pending_marker now b =
     stamped now b (stampEvent (new_event
       (if drop_unobserved (b_dropped b)
        then drop_marker (b_dropped b) ''events_unobserved'' ''retain_critical'' (b_normalCapacity b)
        else drop_marker (b_dropped b) ''slow_consumer'' ''drop_deltas'' (b_normalCapacity b)))
       (zero_EventMeta\<lparr>Meta_RunID := drop_runID (b_dropped b)\<rparr>)) None"

lemma stamped_cong:
  "\<lbrakk>b_sequence b' = b_sequence b; b_runID b' = b_runID b; b_threadKey b' = b_threadKey b; b_multipleRuns b' = b_multipleRuns b\<rbrakk>
   \<Longrightarrow> stamped now b' ev source = stamped now b ev source"
  by (simp add: stamped_def stampNextLocked_def Let_def)

lemma publish_marker_eq:
  "publish_marker now b = (if 0 < drop_count (b_dropped b)
     then enqueueLocked (b\<lparr>b_dropped := no_drops, b_sequence := Suc (b_sequence b)\<rparr>) (pending_marker now b) else b)"
  by (simp add: publish_marker_def spoolDroppedLocked_def stampNextLocked_eq pending_marker_def Let_def
      stamped_cong[of "b\<lparr>b_dropped := no_drops\<rparr>" b])

lemma pump_ok_irrelevant [simp]:
  "pump_ok (b\<lparr>b_dropped := d\<rparr>) = pump_ok b"
  "pump_ok (b\<lparr>b_sequence := n\<rparr>) = pump_ok b"
  "pump_ok (b\<lparr>b_terminal := t\<rparr>) = pump_ok b"
  "pump_ok (b\<lparr>b_aborted := t\<rparr>) = pump_ok b"
  "pump_ok (b\<lparr>b_consumer := t\<rparr>) = pump_ok b"
  "pump_ok (b\<lparr>b_discardOrdinary := t\<rparr>) = pump_ok b"
  by (simp_all add: pump_ok_def)

lemma stream_irrelevant [simp]:
  "stream (b\<lparr>b_dropped := d\<rparr>) = stream b"
  "stream (b\<lparr>b_sequence := n\<rparr>) = stream b"
  "stream (b\<lparr>b_terminal := t\<rparr>) = stream b"
  "stream (b\<lparr>b_aborted := t\<rparr>) = stream b"
  "stream (b\<lparr>b_consumer := t\<rparr>) = stream b"
  "stream (b\<lparr>b_discardOrdinary := t\<rparr>) = stream b"
  "stream (b\<lparr>b_subscribed := t\<rparr>) = stream b"
  "stream (b\<lparr>b_wake := t\<rparr>) = stream b"
  "stream (b\<lparr>b_closed := t\<rparr>) = stream b"
  "stream (b\<lparr>b_done := t\<rparr>) = stream b"
  "stream (b\<lparr>b_eventsClosed := t\<rparr>) = stream b"
  by (simp_all add: stream_def pending_queue_def)

lemma pending_marker_simps [simp]:
  "event_seq (pending_marker now b) = Suc (b_sequence b)"
  "is_sdk_marker (Event_body (pending_marker now b))"
  "eventCritical (Event_body (pending_marker now b))"
  by (simp_all add: pending_marker_def new_event_def is_sdk_marker_def drop_marker_def)

lemma publish_marker_stream:
  "pump_ok b \<Longrightarrow> stream (publish_marker now b)
     = stream b @ (if 0 < drop_count (b_dropped b) then [pending_marker now b] else [])"
  by (simp add: publish_marker_eq enqueue_stream)

lemma publish_marker_pump_ok: "\<lbrakk>pump_ok b; \<not> b_closed b; b_spool b\<rbrakk> \<Longrightarrow> pump_ok (publish_marker now b)"
  by (simp add: publish_marker_eq enqueue_pump_ok)

lemma publish_marker_ordered: "\<lbrakk>pump_ok b; ordered b\<rbrakk> \<Longrightarrow> ordered (publish_marker now b)"
  by (auto simp: publish_marker_eq intro!: ordered_append[of b] simp: enqueue_stream)

definition broker_inv :: "eventBroker \<Rightarrow> bool" where
  "broker_inv b \<longleftrightarrow> pump_ok b \<and> ordered b"

lemma recordDrop_eq: "recordDropLocked b ev = b\<lparr>b_dropped := b_dropped (recordDropLocked b ev)\<rparr>"
  by (simp add: recordDropLocked_def Let_def)

lemma mergeDrops_eq:
  "mergeDropsLocked b n ks f l u = b\<lparr>b_dropped := b_dropped (mergeDropsLocked b n ks f l u)\<rparr>"
  by (simp add: mergeDropsLocked_def Let_def)

definition drop_summary :: "gotime \<Rightarrow> eventBroker \<Rightarrow> Event \<Rightarrow> EventSourceMeta option \<Rightarrow> dropAggregate" where
  "drop_summary now b ev source = b_dropped (drop_ordinary now b ev source)"

lemma drop_ordinary_eq:
  "drop_ordinary now b ev source = b\<lparr>b_sequence := Suc (b_sequence b), b_dropped := drop_summary now b ev source\<rparr>"
  by (simp add: drop_summary_def drop_ordinary_def stampNextLocked_eq recordDropLocked_def Let_def)

text \<open>The three ways a publication on an open spool can go, after the marker of pending losses.\<close>

lemma publish_second_cases:
  assumes "publish_second ctx now b ev source = (st, b')"
  obtains (waits) "st = WaitSecond" "b' = b" "\<not> eventCritical (Event_body ev)" "must_wait ctx b"
  | (refused) "st = Returned False" "b' = b" "b_closed b \<or> b_terminal b"
  | (dropped) "st = Returned False" "b' = drop_ordinary now b ev source" "\<not> eventCritical (Event_body ev)"
      "drop_now ctx b ev" "\<not> b_closed b" "\<not> b_terminal b"
  | (accepted) "st = Returned True"
      "b' = enqueueLocked (b\<lparr>b_sequence := Suc (b_sequence b)\<rparr>) (stamped now b ev source)"
      "\<not> b_closed b" "\<not> b_terminal b"
      "eventCritical (Event_body ev) \<or> \<not> (b_blocking b \<and> must_wait ctx b) \<and> \<not> drop_now ctx b ev"
  using assms unfolding publish_second_def
  by (auto simp: Let_def stampNextLocked_eq split: if_splits)

lemma publish_first_cases:
  assumes "publish_first ctx now b ev source = (st, b')" "eventCritical (Event_body ev) \<longrightarrow> \<not> b_closed b \<and> \<not> b_terminal b"
  obtains (waits) "st = WaitFirst" "b' = b" "\<not> eventCritical (Event_body ev)" "must_wait ctx b"
  | (refused) "st = Returned False" "b' = b" "b_closed b \<or> b_terminal b"
  | (dropped) "st = Returned False" "b' = drop_ordinary now b ev source" "\<not> eventCritical (Event_body ev)"
      "drop_now ctx b ev" "\<not> b_closed b" "\<not> b_terminal b"
  | (second) "publish_second ctx now (publish_marker now b) ev source = (st, b')" "\<not> b_closed b" "\<not> b_terminal b"
proof (cases "eventCritical (Event_body ev)")
  case True
  then show thesis using assms second by (simp add: publish_first_def)
next
  case False
  consider "b_blocking b \<and> must_wait ctx b" | "\<not> (b_blocking b \<and> must_wait ctx b)" "b_closed b \<or> b_terminal b"
    | "\<not> (b_blocking b \<and> must_wait ctx b)" "\<not> (b_closed b \<or> b_terminal b)" "drop_now ctx b ev"
    | "\<not> (b_blocking b \<and> must_wait ctx b)" "\<not> (b_closed b \<or> b_terminal b)" "\<not> drop_now ctx b ev"
    by blast
  then show thesis
  proof cases
    case 1 then show thesis using False assms(1) by (intro waits) (auto simp: publish_first_def)
  next
    case 2 then show thesis using False assms(1) by (intro refused) (auto simp: publish_first_def)
  next
    case 3 then show thesis using False assms(1) by (intro dropped) (auto simp: publish_first_def)
  next
    case 4 then show thesis using False assms(1) by (intro second) (auto simp: publish_first_def)
  qed
qed

lemma enqueue_inv:
  assumes "broker_inv b" "\<not> b_closed b" "b_spool b" "event_seq ev = Suc (b_sequence b)"
  shows "broker_inv (enqueueLocked (b\<lparr>b_dropped := d, b_sequence := Suc (b_sequence b)\<rparr>) ev)"
  using assms
  by (auto simp: broker_inv_def enqueue_pump_ok enqueue_stream intro: ordered_append[of b])

lemma publish_marker_inv:
  assumes "broker_inv b" "\<not> b_closed b" "b_spool b"
  shows "broker_inv (publish_marker now b)"
  using assms by (simp add: publish_marker_eq enqueue_inv)

lemma drop_ordinary_inv: "broker_inv b \<Longrightarrow> broker_inv (drop_ordinary now b ev source)"
  by (auto simp: broker_inv_def drop_ordinary_eq intro: ordered_same[of b])

lemma publish_second_inv:
  assumes "publish_second ctx now b ev source = (st, b')" "broker_inv b" "b_spool b"
  shows "broker_inv b'"
  using assms(1)
proof (cases rule: publish_second_cases)
  case accepted
  then show ?thesis
    using assms(2,3) enqueue_inv[of b "stamped now b ev source" "b_dropped b"] by simp
qed (use assms(2) drop_ordinary_inv in auto)

lemma publish_first_inv:
  assumes "publish_first ctx now b ev source = (st, b')" "eventCritical (Event_body ev) \<longrightarrow> \<not> b_closed b \<and> \<not> b_terminal b"
    "broker_inv b" "b_spool b"
  shows "broker_inv b'"
  using assms(1,2)
proof (cases rule: publish_first_cases)
  case second
  then show ?thesis using assms(3,4) publish_second_inv[OF second(1)] publish_marker_inv by simp
qed (use assms(3) drop_ordinary_inv in auto)

subsection \<open>Pruning\<close>

text \<open>What pruning keeps, as a function of the pending events alone.\<close>

fun retained :: "bool \<Rightarrow> nat \<Rightarrow> nat \<Rightarrow> Event list \<Rightarrow> Event list" where
  "retained keep cap kept [] = []"
| "retained keep cap kept (ev # evs) =
     (if is_sdk_marker (Event_body ev) then retained keep cap kept evs
      else if eventCritical (Event_body ev) then ev # retained keep cap kept evs
      else if keep \<and> kept < cap then ev # retained keep cap (Suc kept) evs
      else retained keep cap kept evs)"

definition prune_loop :: "bool \<Rightarrow> nat \<Rightarrow> eventBroker \<Rightarrow> Event list \<Rightarrow> eventBroker" where
  "prune_loop keep kept b evs = snd (foldl (prune_event keep) (kept, b) evs)"

lemma sdk_markerE:
  assumes "is_sdk_marker body"
  obtains d where "body = EvDropped d" "Dropped_Source d = sdk_source"
  using assms by (cases body) (auto simp: is_sdk_marker_def)

lemma prune_event_merge:
  "\<lbrakk>Event_body ev = EvDropped d; Dropped_Source d = sdk_source\<rbrakk> \<Longrightarrow> prune_event keep (kept, b) ev
     = (kept, mergeDropsLocked b (Dropped_Count d) (Dropped_ByKind d) (Dropped_FirstSequence d) (Dropped_LastSequence d) True)"
  by (simp add: prune_event_def)

lemma prune_event_other:
  assumes "\<not> is_sdk_marker (Event_body ev)"
  shows "prune_event keep (kept, b) ev =
    (if eventCritical (Event_body ev) then (kept, b\<lparr>b_queue := b_queue b @ [ev]\<rparr>)
     else if keep \<and> kept < b_normalCapacity b then (Suc kept, b\<lparr>b_queue := b_queue b @ [ev]\<rparr>)
     else (kept, b\<lparr>b_dropped := (b_dropped (recordDropLocked b ev))\<lparr>drop_unobserved := True\<rparr>\<rparr>))"
proof -
  have "(let b1 = recordDropLocked b ev in b1\<lparr>b_dropped := (b_dropped b1)\<lparr>drop_unobserved := True\<rparr>\<rparr>)
      = b\<lparr>b_dropped := (b_dropped (recordDropLocked b ev))\<lparr>drop_unobserved := True\<rparr>\<rparr>"
    by (simp add: recordDropLocked_def Let_def)
  then show ?thesis using assms
    by (cases "Event_body ev") (simp_all add: prune_event_def is_sdk_marker_def)
qed

lemma prune_loop_simps:
  "prune_loop keep kept b [] = b"
  "prune_loop keep kept b (ev # evs) = (let (k, b1) = prune_event keep (kept, b) ev in prune_loop keep k b1 evs)"
  by (simp_all add: prune_loop_def split: prod.split)

lemma prune_loop_shape:
  "\<exists>d. prune_loop keep kept b evs = b\<lparr>b_queue := b_queue b @ retained keep (b_normalCapacity b) kept evs, b_dropped := d\<rparr>"
proof (induction evs arbitrary: kept b)
  case Nil
  show ?case by (rule exI[of _ "b_dropped b"]) (simp add: prune_loop_simps)
next
  case (Cons ev evs)
  show ?case
  proof (cases "is_sdk_marker (Event_body ev)")
    case True
    then obtain d where d: "Event_body ev = EvDropped d" "Dropped_Source d = sdk_source" by (elim sdk_markerE)
    obtain x where x: "mergeDropsLocked b (Dropped_Count d) (Dropped_ByKind d) (Dropped_FirstSequence d) (Dropped_LastSequence d) True
        = b\<lparr>b_dropped := x\<rparr>" using mergeDrops_eq by blast
    show ?thesis using Cons.IH[of kept "b\<lparr>b_dropped := x\<rparr>"] True
      by (simp add: prune_loop_simps prune_event_merge[OF d] x)
  next
    case False
    then show ?thesis
      using Cons.IH[of kept "b\<lparr>b_queue := b_queue b @ [ev]\<rparr>"] Cons.IH[of "Suc kept" "b\<lparr>b_queue := b_queue b @ [ev]\<rparr>"]
        Cons.IH[of kept "b\<lparr>b_dropped := (b_dropped (recordDropLocked b ev))\<lparr>drop_unobserved := True\<rparr>\<rparr>"]
      by (cases keep) (simp_all add: prune_loop_simps prune_event_other)
  qed
qed

lemma retained_subseq: "subseq (retained keep cap kept evs) evs"
  by (induction keep cap kept evs rule: retained.induct) auto

lemma retained_critical: "critical_log (retained keep cap kept evs) = critical_log evs"
  by (induction keep cap kept evs rule: retained.induct) (auto simp: critical_log_def)

lemma pruneUnobserved_shape:
  "\<exists>d. pruneUnobservedLocked keep b = b\<lparr>b_events := [],
     b_queue := retained keep (b_normalCapacity b) 0 (b_events b @ b_queue b), b_dropped := d\<rparr>"
  using prune_loop_shape[of keep 0 "b\<lparr>b_events := [], b_queue := []\<rparr>" "b_events b @ b_queue b"]
  by (simp add: pruneUnobservedLocked_def prune_loop_def)

lemma pruneUnobservedE:
  obtains d where "pruneUnobservedLocked keep b = b\<lparr>b_events := [],
     b_queue := retained keep (b_normalCapacity b) 0 (b_events b @ b_queue b), b_dropped := d\<rparr>"
  using pruneUnobserved_shape by blast

lemma pruneUnobserved_fields [simp]:
  "b_sequence (pruneUnobservedLocked keep b) = b_sequence b"
  "b_closed (pruneUnobservedLocked keep b) = b_closed b"
  "b_terminal (pruneUnobservedLocked keep b) = b_terminal b"
  "b_spool (pruneUnobservedLocked keep b) = b_spool b"
  "b_subscribed (pruneUnobservedLocked keep b) = b_subscribed b"
  "b_normalCapacity (pruneUnobservedLocked keep b) = b_normalCapacity b"
  "b_eventsCap (pruneUnobservedLocked keep b) = b_eventsCap b"
  "b_eventsClosed (pruneUnobservedLocked keep b) = b_eventsClosed b"
  "b_received (pruneUnobservedLocked keep b) = b_received b"
  "b_discardOrdinary (pruneUnobservedLocked keep b) = b_discardOrdinary b"
  "b_discardUnsubscribed (pruneUnobservedLocked keep b) = b_discardUnsubscribed b"
  "b_blocking (pruneUnobservedLocked keep b) = b_blocking b"
  "b_aborted (pruneUnobservedLocked keep b) = b_aborted b"
  "b_pump (pruneUnobservedLocked keep b) = b_pump b"
  "b_events (pruneUnobservedLocked keep b) = []"
  "b_queue (pruneUnobservedLocked keep b) = retained keep (b_normalCapacity b) 0 (b_events b @ b_queue b)"
  by (rule pruneUnobservedE[of keep b], simp)+

lemma unsubscribed_off: "\<lbrakk>pump_ok b; \<not> b_subscribed b\<rbrakk> \<Longrightarrow> b_pump b = PumpOff"
  by (auto simp: pump_ok_def)

lemma pruneUnobserved_stream:
  "b_pump b = PumpOff \<Longrightarrow> stream (pruneUnobservedLocked keep b)
     = b_received b @ retained keep (b_normalCapacity b) 0 (b_events b @ b_queue b)"
  by (rule pruneUnobservedE[of keep b]) (simp add: stream_def pending_queue_def)

lemma pruneUnobserved_inv:
  assumes "broker_inv b" "\<not> b_subscribed b" "b_spool b" "\<not> b_closed b"
  shows "broker_inv (pruneUnobservedLocked keep b)"
proof -
  have off: "b_pump b = PumpOff" using assms unsubscribed_off by (auto simp: broker_inv_def)
  have "pump_ok (pruneUnobservedLocked keep b)"
    using assms off by (auto intro: pruneUnobservedE[of keep b] simp: broker_inv_def pump_ok_def)
  moreover have "subseq (stream (pruneUnobservedLocked keep b)) (stream b)"
    using off by (simp add: pruneUnobserved_stream stream_def pending_queue_def list_emb_append_mono retained_subseq)
  ultimately show ?thesis using assms(1) ordered_subseq by (auto simp: broker_inv_def)
qed

lemma pruneUnobserved_critical:
  "\<lbrakk>pump_ok b; \<not> b_subscribed b\<rbrakk>
   \<Longrightarrow> critical_log (stream (pruneUnobservedLocked keep b)) = critical_log (stream b)"
  using unsubscribed_off[of b]
  by (simp add: pruneUnobserved_stream stream_def pending_queue_def retained_critical)

subsection \<open>The other operations\<close>

lemma stamped_terminal: "stamped now (b\<lparr>b_terminal := t\<rparr>) ev source = stamped now b ev source"
  by (rule stamped_cong) simp_all

lemma publishTerminal_spool:
  assumes "b_spool b" "\<not> b_closed b" "\<not> b_terminal b"
  shows "publishTerminal env now b (Some ev) source =
    (let b1 = publish_marker now (if b_subscribed b then b else pruneUnobservedLocked (\<not> b_discardOrdinary b) b)
     in Return (Returned True, enqueueLocked (b1\<lparr>b_terminal := True, b_sequence := Suc (b_sequence b1)\<rparr>) (stamped now b1 ev source)))"
  using assms by (simp add: publishTerminal_def Let_def stampNextLocked_eq stamped_terminal)

lemma close_spool:
  assumes "b_spool b" "\<not> b_closed b"
  shows "broker_close env now b =
    (let b1 = (if b_terminal b then b
               else publish_marker now (if b_subscribed b then b else pruneUnobservedLocked (\<not> b_discardOrdinary b) b))
     in (Returned True,
         if b_subscribed b1 then wakeLocked (startPumpLocked (b1\<lparr>b_closed := True, b_done := True\<rparr>))
         else b1\<lparr>b_closed := True, b_done := True, b_events := b_events b1 @ b_queue b1,
                 b_eventsCap := length (b_events b1) + length (b_queue b1), b_queue := [], b_eventsClosed := True\<rparr>))"
  using assms by (simp add: broker_close_def Let_def)

lemma prepared_inv:
  assumes "broker_inv b" "b_spool b" "\<not> b_closed b"
  shows "broker_inv (publish_marker now (if b_subscribed b then b else pruneUnobservedLocked keep b))"
  using assms pruneUnobserved_inv[of b keep] publish_marker_inv by simp

lemma terminal_inv:
  assumes "publishTerminal env now b (Some ev) source = Return (st, b')" "broker_inv b" "b_spool b"
  shows "broker_inv b'"
proof (cases "b_closed b \<or> b_terminal b")
  case False
  let ?b = "publish_marker now (if b_subscribed b then b else pruneUnobservedLocked (\<not> b_discardOrdinary b) b)"
  have inv: "broker_inv ?b" using assms False by (simp add: prepared_inv del: if_split)
  then have "broker_inv (?b\<lparr>b_terminal := True\<rparr>)" by (auto simp: broker_inv_def ordered_def)
  then have "broker_inv (enqueueLocked (?b\<lparr>b_terminal := True, b_sequence := Suc (b_sequence ?b)\<rparr>) (stamped now ?b ev source))"
    using enqueue_inv[of "?b\<lparr>b_terminal := True\<rparr>" "stamped now ?b ev source" "b_dropped ?b"] False assms(3) by simp
  then show ?thesis using assms(1,3) False by (simp add: publishTerminal_spool Let_def del: if_split)
qed (use assms in \<open>auto simp: publishTerminal_def\<close>)

lemma stream_closed_tail:
  "\<lbrakk>b_pump b = PumpOff\<rbrakk> \<Longrightarrow> stream (b\<lparr>b_closed := c, b_done := d, b_events := b_events b @ b_queue b,
     b_eventsCap := n, b_queue := [], b_eventsClosed := e\<rparr>) = stream b"
  by (simp add: stream_def pending_queue_def)

lemma startPump_stream: "pump_ok b \<Longrightarrow> stream (wakeLocked (startPumpLocked (b\<lparr>b_closed := c, b_done := d\<rparr>))) = stream b"
  by (auto simp: startPumpLocked_def wakeLocked_def stream_def pending_queue_def pump_ok_def)

lemma close_tail_pump_ok:
  assumes "pump_ok b" "b_spool b" "\<not> b_closed b"
  shows "b_subscribed b \<Longrightarrow> pump_ok (wakeLocked (startPumpLocked (b\<lparr>b_closed := True, b_done := d\<rparr>)))"
    and "\<not> b_subscribed b \<Longrightarrow> pump_ok (b\<lparr>b_closed := True, b_done := d, b_events := b_events b @ b_queue b,
           b_eventsCap := n, b_queue := [], b_eventsClosed := True\<rparr>)"
  using assms by (auto simp: pump_ok_def startPumpLocked_def wakeLocked_def)

definition sealed :: "gotime \<Rightarrow> eventBroker \<Rightarrow> eventBroker" where
  "sealed now b = (if b_terminal b then b
     else publish_marker now (if b_subscribed b then b else pruneUnobservedLocked (\<not> b_discardOrdinary b) b))"

lemma sealed_fields [simp]:
  "b_closed (sealed now b) = b_closed b" "b_spool (sealed now b) = b_spool b"
  "b_subscribed (sealed now b) = b_subscribed b" "b_received (sealed now b) = b_received b"
  "b_terminal (sealed now b) = b_terminal b" "b_normalCapacity (sealed now b) = b_normalCapacity b"
  by (simp_all add: sealed_def)

lemma sealed_inv: "\<lbrakk>broker_inv b; b_spool b; \<not> b_closed b\<rbrakk> \<Longrightarrow> broker_inv (sealed now b)"
  by (simp add: sealed_def prepared_inv del: if_split)

text \<open>Closing seals the stream, and what follows only moves the sealed stream.\<close>

lemma close_effect:
  assumes "broker_close env now b = (st, b')" "broker_inv b" "b_spool b" "\<not> b_closed b"
  shows "stream b' = stream (sealed now b)" "pump_ok b'" "b_sequence b' = b_sequence (sealed now b)"
    "b_dropped b' = b_dropped (sealed now b)" "b_closed b'" "st = Returned True"
proof -
  let ?s = "sealed now b"
  have inv: "pump_ok ?s" "ordered ?s" using sealed_inv assms by (auto simp: broker_inv_def)
  have eq: "(st, b') = (Returned True,
         if b_subscribed ?s then wakeLocked (startPumpLocked (?s\<lparr>b_closed := True, b_done := True\<rparr>))
         else ?s\<lparr>b_closed := True, b_done := True, b_events := b_events ?s @ b_queue ?s,
                 b_eventsCap := length (b_events ?s) + length (b_queue ?s), b_queue := [], b_eventsClosed := True\<rparr>)"
    using assms(1) close_spool[OF assms(3,4), of env now] unfolding sealed_def Let_def by simp
  have "\<not> b_subscribed ?s \<Longrightarrow> b_pump ?s = PumpOff" using inv(1) by (auto simp: pump_ok_def)
  then show "stream b' = stream ?s" using eq inv(1) by (auto simp: stream_closed_tail startPump_stream simp del: sealed_fields stream_irrelevant)
  show "pump_ok b'" using eq inv(1) assms(3,4) by (auto simp: close_tail_pump_ok)
  show "b_sequence b' = b_sequence ?s" "b_dropped b' = b_dropped ?s" "b_closed b'" "st = Returned True"
    using eq by (auto simp: wakeLocked_def startPumpLocked_def split: if_splits)
qed

lemma close_inv:
  assumes "broker_close env now b = (st, b')" "broker_inv b" "b_spool b"
  shows "broker_inv b'"
proof (cases "b_closed b")
  case True
  then show ?thesis using assms by (simp add: broker_close_def)
next
  case False
  note e = close_effect[OF assms(1,2,3) False]
  have "ordered (sealed now b)" using sealed_inv assms False by (auto simp: broker_inv_def)
  then show ?thesis using e by (auto simp: broker_inv_def intro: ordered_same)
qed

lemma abort_inv: "broker_inv b \<Longrightarrow> broker_inv (broker_abort b)"
  by (simp add: broker_inv_def broker_abort_def ordered_def)

lemma subscribe_effect [simp]:
  "pump_ok b \<Longrightarrow> stream (broker_subscribe b) = stream b"
  "b_sequence (broker_subscribe b) = b_sequence b"
  "b_dropped (broker_subscribe b) = b_dropped b"
  "b_closed (broker_subscribe b) = b_closed b"
  "b_terminal (broker_subscribe b) = b_terminal b"
  "b_spool (broker_subscribe b) = b_spool b"
  "b_normalCapacity (broker_subscribe b) = b_normalCapacity b"
  "b_blocking (broker_subscribe b) = b_blocking b"
  "b_subscribed (broker_subscribe b)"
  by (auto simp: broker_subscribe_def markConsumer_def startPumpLocked_def stream_def pending_queue_def pump_ok_def Let_def)

lemma subscribe_pump_ok: "pump_ok b \<Longrightarrow> pump_ok (broker_subscribe b)"
  by (auto simp: broker_subscribe_def markConsumer_def startPumpLocked_def pump_ok_def Let_def)

lemma subscribe_inv: "broker_inv b \<Longrightarrow> broker_inv (broker_subscribe b)"
  by (auto simp: broker_inv_def subscribe_pump_ok intro: ordered_same[of b])

lemma awaitResult_eq:
  "awaitResult b = (if \<not> b_spool b \<or> b_subscribed b \<or> b_closed b \<or> b_terminal b then b\<lparr>b_consumer := True\<rparr>
     else pruneUnobservedLocked False (b\<lparr>b_consumer := True, b_discardOrdinary := True\<rparr>))"
  by (simp add: awaitResult_def markConsumer_def Let_def)

lemma awaitResult_inv:
  assumes "broker_inv b"
  shows "broker_inv (awaitResult b)"
proof -
  have "broker_inv (b\<lparr>b_consumer := True, b_discardOrdinary := True\<rparr>)" "broker_inv (b\<lparr>b_consumer := True\<rparr>)"
    using assms by (auto simp: broker_inv_def ordered_def)
  then show ?thesis by (auto simp: awaitResult_eq intro!: pruneUnobserved_inv)
qed

lemma receive_effect [simp]:
  "stream (broker_receive b) = stream b"
  "pump_ok b \<Longrightarrow> pump_ok (broker_receive b)"
  "b_sequence (broker_receive b) = b_sequence b"
  "b_dropped (broker_receive b) = b_dropped b"
  "b_closed (broker_receive b) = b_closed b"
  "b_terminal (broker_receive b) = b_terminal b"
  "b_spool (broker_receive b) = b_spool b"
  "b_normalCapacity (broker_receive b) = b_normalCapacity b"
  "b_subscribed (broker_receive b) = b_subscribed b"
  by (auto simp: broker_receive_def take_events_def stream_def pending_queue_def pump_ok_def)

lemma pump_effect [simp]:
  "pump_ok b \<Longrightarrow> stream (pump_step b) = stream b"
  "b_sequence (pump_step b) = b_sequence b"
  "b_dropped (pump_step b) = b_dropped b"
  "b_closed (pump_step b) = b_closed b"
  "b_terminal (pump_step b) = b_terminal b"
  "b_spool (pump_step b) = b_spool b"
  "b_normalCapacity (pump_step b) = b_normalCapacity b"
  "b_subscribed (pump_step b) = b_subscribed b"
  by (auto simp: pump_step_def stream_def pending_queue_def pump_ok_def neq_Nil_conv split: pump_pc.splits list.splits)

lemma pump_pump_ok: "pump_ok b \<Longrightarrow> pump_ok (pump_step b)"
  by (auto simp: pump_step_def pump_ok_def split: pump_pc.splits list.splits)

subsection \<open>Brokers without a spool\<close>

definition within :: "eventBroker \<Rightarrow> bool" where
  "within b \<longleftrightarrow> length (b_events b) \<le> b_normalCapacity b"

lemma take_events_effect [simp]:
  "stream (take_events n b) = stream b"
  "pump_ok (take_events n b) = pump_ok b"
  "within b \<Longrightarrow> within (take_events n b)"
  by (auto simp: take_events_def stream_def pending_queue_def pump_ok_def within_def)

lemma push_effect:
  "b_queue b = [] \<Longrightarrow> stream (b\<lparr>b_events := b_events b @ [ev]\<rparr>) = stream b @ [ev]"
  "pump_ok (b\<lparr>b_events := evs\<rparr>) = pump_ok b"
  "length (b_events b) < b_normalCapacity b \<Longrightarrow> within (b\<lparr>b_events := b_events b @ [ev]\<rparr>)"
  by (auto simp: stream_def pending_queue_def pump_ok_def within_def)

lemma sendLocked_effect:
  assumes "sendLocked env b ev = (st, b')" "b_queue b = []"
  shows "stream b' = stream b @ (if st = Returned True then [ev] else [])"
    and "pump_ok b' = pump_ok b" and "within b \<Longrightarrow> within b'"
    and "b_sequence b' = b_sequence b" and "b_queue b' = []" and "b_spool b' = b_spool b"
    and "b_terminal b' = b_terminal b" and "b_closed b' = b_closed b" and "b_eventsClosed b' = b_eventsClosed b"
    and "b_normalCapacity b' = b_normalCapacity b" and "b_eventsCap b' = b_eventsCap b"
    and "st \<noteq> WaitFirst" and "st \<noteq> WaitSecond"
proof -
  have q: "b_queue (take_events n b) = []" for n using assms(2) by (simp add: take_events_def)
  consider "st = Returned True" "b' = b\<lparr>b_events := b_events b @ [ev]\<rparr>" "length (b_events b) < b_normalCapacity b"
    | n where "st = Returned True" "b' = (take_events n b)\<lparr>b_events := b_events (take_events n b) @ [ev]\<rparr>"
        "length (b_events (take_events n b)) < b_normalCapacity (take_events n b)"
    | n where "st = Probing" "b' = take_events n b"
    | "st = Returned False" "b' = b\<lparr>b_aborted := True\<rparr>"
    | "st = Returned False" "b' = b"
  proof (cases "length (b_events b) < b_normalCapacity b")
    case True
    then show thesis using assms(1) that(1) by (simp add: sendLocked_def)
  next
    case full: False
    show thesis
    proof (cases env)
      case (Drained n)
      then show thesis using assms(1) full that(2,3)[of n] by (simp add: sendLocked_def Let_def split: if_splits)
    next
      case AbortSeen
      then show thesis using assms(1) full by (intro that(4)) (auto simp: sendLocked_def)
    next
      case CtxSeen
      then show thesis using assms(1) full by (intro that(5)) (auto simp: sendLocked_def)
    qed
  qed
  note c = this
  show "stream b' = stream b @ (if st = Returned True then [ev] else [])"
    using c by cases (use assms(2) q in \<open>auto simp: push_effect\<close>)
  show "pump_ok b' = pump_ok b" using c by cases (auto simp: push_effect)
  show "within b'" if "within b" using c that
    by cases (auto simp: push_effect, simp add: within_def)
  show "b_sequence b' = b_sequence b" "b_queue b' = []" "b_spool b' = b_spool b" "b_terminal b' = b_terminal b"
    "b_closed b' = b_closed b" "b_eventsClosed b' = b_eventsClosed b" "b_normalCapacity b' = b_normalCapacity b"
    "b_eventsCap b' = b_eventsCap b" "st \<noteq> WaitFirst" "st \<noteq> WaitSecond"
    using c by (cases, use assms(2) in \<open>auto simp: take_events_def\<close>)+
qed

definition same_channel :: "eventBroker \<Rightarrow> eventBroker \<Rightarrow> bool" where
  "same_channel b b' \<longleftrightarrow> b_spool b' = b_spool b \<and> b_terminal b' = b_terminal b \<and> b_closed b' = b_closed b
     \<and> b_eventsClosed b' = b_eventsClosed b \<and> b_normalCapacity b' = b_normalCapacity b \<and> b_eventsCap b' = b_eventsCap b
     \<and> (within b \<longrightarrow> within b')"

lemma plain_queue: "\<lbrakk>broker_inv b; \<not> b_spool b\<rbrakk> \<Longrightarrow> b_queue b = []"
  by (simp add: broker_inv_def pump_ok_def)

lemma send_inv:
  assumes "sendLocked env b ev = (st, b')" "broker_inv b" "\<not> b_spool b" "event_seq ev = Suc (b_sequence b)"
  shows "broker_inv (b'\<lparr>b_sequence := Suc (b_sequence b), b_dropped := d\<rparr>)"
    and "st \<noteq> Returned True \<Longrightarrow> broker_inv b'" and "same_channel b b'"
proof -
  note e = sendLocked_effect[OF assms(1) plain_queue[OF assms(2,3)]]
  show "broker_inv (b'\<lparr>b_sequence := Suc (b_sequence b), b_dropped := d\<rparr>)"
    using e(1,2,4) assms(2,4)
    by (cases "st = Returned True") (auto simp: broker_inv_def intro: ordered_append[of b] ordered_same[of b])
  show "broker_inv b'" if "st \<noteq> Returned True"
    using e(1,2,4) assms(2) that by (auto simp: broker_inv_def intro: ordered_same[of b])
  show "same_channel b b'" using e(3,6-11) by (simp add: same_channel_def)
qed

lemma flush_inv:
  assumes "flushDroppedLocked env now b reliable = (st, b')" "broker_inv b" "\<not> b_spool b"
  shows "broker_inv b' \<and> same_channel b b' \<and> st \<noteq> WaitFirst \<and> st \<noteq> WaitSecond \<and> (\<not> reliable \<longrightarrow> st \<noteq> Probing)"
proof (cases "drop_count (b_dropped b) = 0")
  case True
  then show ?thesis using assms by (auto simp: flushDroppedLocked_def same_channel_def)
next
  case False
  define m where "m = stampEvent (new_event (drop_marker (b_dropped b) ''slow_consumer'' ''drop_deltas'' (b_normalCapacity b)))
     (zero_EventMeta\<lparr>Meta_RunID := b_runID b, Meta_ThreadKey := b_threadKey b, Meta_Sequence := b_sequence b + 1, Meta_Time := now\<rparr>)"
  define r where "r = (if reliable then sendLocked env b m
     else if length (b_events b) < b_normalCapacity b then (Returned True, b\<lparr>b_events := b_events b @ [m]\<rparr>) else (Returned False, b))"
  obtain s b1 where r1: "r = (s, b1)" by fastforce
  have m: "event_seq m = Suc (b_sequence b)" by (simp add: m_def event_seq_def)
  have eq: "flushDroppedLocked env now b reliable =
      (s, if s = Returned True then b1\<lparr>b_sequence := b_sequence b + 1, b_dropped := no_drops\<rparr> else b1)"
    unfolding flushDroppedLocked_def Let_def m_def[symmetric] r_def[symmetric] using False r1 by simp
  have "sendLocked (if reliable then env else CtxSeen) b m = (s, b1)"
    using r1 by (auto simp: r_def sendLocked_def split: if_splits)
  note send = send_inv[OF this assms(2,3) m] and eff = sendLocked_effect[OF this plain_queue[OF assms(2,3)]]
  have "\<not> reliable \<Longrightarrow> s \<noteq> Probing" using r1 by (auto simp: r_def split: if_splits)
  moreover have "same_channel b (b1\<lparr>b_sequence := b_sequence b + 1, b_dropped := no_drops\<rparr>)"
    using send(3) by (auto simp: same_channel_def within_def)
  ultimately show ?thesis using send eff(12,13) assms(1) eq by (auto split: if_splits)
qed

lemma recordDrop_inv: "broker_inv b \<Longrightarrow> broker_inv (recordDropLocked b ev)"
  by (subst recordDrop_eq) (simp add: broker_inv_def ordered_def)

lemma recordDrop_channel: "same_channel b (recordDropLocked b ev)"
  by (subst recordDrop_eq) (simp add: same_channel_def within_def)

lemma bump_inv: "broker_inv b \<Longrightarrow> broker_inv (b\<lparr>b_sequence := Suc (b_sequence b)\<rparr>)"
  by (auto simp: broker_inv_def intro: ordered_same[of b])

lemma same_channel_trans: "\<lbrakk>same_channel b b1; same_channel b1 b2\<rbrakk> \<Longrightarrow> same_channel b b2"
  by (simp add: same_channel_def)

lemma same_channel_bump [simp]: "same_channel b (b\<lparr>b_sequence := n\<rparr>)"
  by (simp add: same_channel_def within_def)

lemma same_channel_refl [simp]: "same_channel b b"
  by (simp add: same_channel_def)

lemma direct_push:
  assumes "broker_inv b" "\<not> b_spool b" "event_seq ev = Suc (b_sequence b)"
  shows "broker_inv (b\<lparr>b_sequence := Suc (b_sequence b), b_events := b_events b @ [ev]\<rparr>)"
proof -
  have "stream (b\<lparr>b_sequence := Suc (b_sequence b), b_events := b_events b @ [ev]\<rparr>) = stream b @ [ev]"
    using plain_queue[OF assms(1,2)] by (simp add: stream_def pending_queue_def)
  then show ?thesis using assms by (auto simp: broker_inv_def push_effect(2) intro: ordered_append[of b])
qed

lemma push_channel:
  "length (b_events b) < b_normalCapacity b
   \<Longrightarrow> same_channel b (b\<lparr>b_sequence := n, b_events := b_events b @ [ev]\<rparr>)"
  by (simp add: same_channel_def within_def)

lemma publish_direct_inv:
  assumes "publish_direct env1 env2 now b ev source = (st, b')" "broker_inv b" "\<not> b_spool b"
  shows "broker_inv b' \<and> same_channel b b' \<and> st \<noteq> WaitFirst \<and> st \<noteq> WaitSecond"
proof (cases "b_aborted b")
  case True
  then show ?thesis using assms direct_push[OF assms(2,3)] push_channel[of b]
    by (auto simp: publish_direct_def stampNextLocked_eq Let_def split: if_splits)
next
  case False
  let ?reliable = "b_blocking b \<or> \<not> eventMayDrop (Event_body ev)"
  obtain f b1 where flush: "flushDroppedLocked env1 now b ?reliable = (f, b1)" by fastforce
  note i1 = flush_inv[OF flush assms(2,3)]
  then have plain: "\<not> b_spool b1" using assms(3) by (simp add: same_channel_def)
  let ?e = "stamped now b1 ev source" and ?b2 = "b1\<lparr>b_sequence := Suc (b_sequence b1)\<rparr>"
  have lost: "broker_inv (recordDropLocked ?b2 ?e)" "same_channel b (recordDropLocked ?b2 ?e)"
    using i1 recordDrop_inv bump_inv recordDrop_channel same_channel_trans same_channel_bump by metis+
  consider "f = Probing" | "f = Returned False" | "f = Returned True" ?reliable | "f = Returned True" "\<not> ?reliable"
    using i1 by (cases f) auto
  then show ?thesis
  proof cases
    case 1
    then show ?thesis using assms(1) False flush i1 by (simp add: publish_direct_def)
  next
    case 2
    then show ?thesis using assms(1) False flush i1 lost
      by (auto simp: publish_direct_def stampNextLocked_eq Let_def split: if_splits)
  next
    case 3
    then have send: "sendLocked env2 ?b2 ?e = (st, b')"
      using assms(1) False flush by (auto simp: publish_direct_def stampNextLocked_eq Let_def split: if_splits)
    have "b_queue ?b2 = []" using plain_queue i1 plain by auto
    note e = sendLocked_effect[OF send this]
    have "ordered b'" using e(1,4) i1
      by (cases "st = Returned True") (auto simp: broker_inv_def intro: ordered_append[of b1] ordered_same[of b1])
    moreover have "same_channel ?b2 b'" using e(3,6-11) by (simp add: same_channel_def)
    ultimately show ?thesis using e(2,12,13) i1 same_channel_trans[of b b1] same_channel_trans[of b ?b2 b']
      by (simp add: broker_inv_def)
  next
    case 4
    have "same_channel b (b1\<lparr>b_sequence := n, b_events := b_events b1 @ [x]\<rparr>)"
      if "length (b_events b1) < b_normalCapacity b1" for n x
      using push_channel[OF that] i1 same_channel_trans by blast
    moreover have "broker_inv (b1\<lparr>b_sequence := Suc (b_sequence b1), b_events := b_events b1 @ [?e]\<rparr>)"
      using direct_push i1 plain by simp
    ultimately show ?thesis using 4 assms(1) False flush lost
      by (auto simp: publish_direct_def stampNextLocked_eq Let_def split: if_splits)
  qed
qed

text \<open>The reserved slot: the terminal send of such a broker always finds room.\<close>

lemma terminal_direct:
  assumes "broker_inv b" "\<not> b_spool b" "b_terminal b \<or> within b"
  shows "\<exists>st b'. publishTerminal env now b ev source = Return (st, b') \<and> (st \<noteq> Probing \<longrightarrow> broker_inv b' \<and> \<not> b_spool b'
     \<and> b_closed b' = b_closed b \<and> (st = Returned True \<longrightarrow> b_terminal b'
        \<and> (\<exists>front e. stream b' = front @ [e] \<and> map_option Event_body ev = Some (Event_body e))))"
proof (cases "ev = None \<or> b_closed b \<or> b_terminal b")
  case True
  then show ?thesis using assms by (cases ev) (auto simp: publishTerminal_def)
next
  case False
  then obtain e where e: "ev = Some e" by auto
  define b1 where "b1 = b\<lparr>b_terminal := True\<rparr>"
  have b1: "broker_inv b1" "\<not> b_spool b1" using assms by (auto simp: b1_def broker_inv_def ordered_def)
  obtain f b2 where f: "(if \<not> b_aborted b1 \<and> 0 < drop_count (b_dropped b1) then flushDroppedLocked env now b1 True
      else (Returned True, b1)) = (f, b2)" by fastforce
  have i2: "broker_inv b2 \<and> same_channel b1 b2" using f flush_inv[OF _ b1] b1 by (auto split: if_splits)
  define b3 where "b3 = (if f = Returned False then b2\<lparr>b_dropped := no_drops\<rparr> else b2)"
  have i3: "broker_inv b3" "same_channel b1 b3" using i2 by (auto simp: b3_def broker_inv_def ordered_def same_channel_def within_def)
  have "within b1" using assms(3) False by (simp add: b1_def within_def)
  moreover have "b_normalCapacity b3 < b_eventsCap b3"
    using i3 b1 False by (auto simp: broker_inv_def pump_ok_def same_channel_def b1_def)
  ultimately have room: "length (b_events b3) < b_eventsCap b3" using i3(2) by (auto simp: same_channel_def within_def)
  have "publishTerminal env now b ev source = (if f = Probing then Return (Probing, b2)
     else Return (Returned True, b3\<lparr>b_sequence := Suc (b_sequence b3), b_events := b_events b3 @ [stamped now b3 e source]\<rparr>))"
    using False f room assms(2) unfolding e publishTerminal_def b1_def[symmetric] Let_def b3_def[symmetric]
    by (simp add: stampNextLocked_eq flip: b3_def)
  moreover have "stream (b3\<lparr>b_sequence := Suc (b_sequence b3), b_events := b_events b3 @ [stamped now b3 e source]\<rparr>)
      = stream b3 @ [stamped now b3 e source]"
    using plain_queue[OF i3(1)] i3(2) b1(2) by (simp add: stream_def pending_queue_def same_channel_def)
  moreover have "map_option Event_body ev = Some (Event_body (stamped now b3 e source))" by (simp add: e)
  moreover have "broker_inv (b3\<lparr>b_sequence := Suc (b_sequence b3), b_events := b_events b3 @ [stamped now b3 e source]\<rparr>)"
    using direct_push[OF i3(1)] i3(2) b1(2) by (simp add: same_channel_def)
  ultimately show ?thesis using i3 b1(2) by (cases "f = Probing") (auto simp: same_channel_def b1_def)
qed

lemma close_direct:
  assumes "broker_close env now b = (st, b')" "broker_inv b" "\<not> b_spool b" "st \<noteq> Probing"
  shows "broker_inv b' \<and> \<not> b_spool b' \<and> b_closed b' \<and> b_terminal b' = b_terminal b
    \<and> (within b \<longrightarrow> within b') \<and> st = Returned True \<and> (b_terminal b \<or> b_closed b \<longrightarrow> stream b' = stream b)"
proof (cases "b_closed b")
  case True
  then show ?thesis using assms by (simp add: broker_close_def)
next
  case False
  obtain f b1 where f: "(if \<not> b_terminal b then flushDroppedLocked env now b (\<not> b_aborted b) else (Returned True, b)) = (f, b1)"
    by fastforce
  have i1: "broker_inv b1 \<and> same_channel b b1" "b_terminal b \<Longrightarrow> b1 = b"
    using f flush_inv[OF _ assms(2,3)] assms(2) by (auto split: if_splits)
  have eq: "(st, b') = (if f = Probing then (Probing, b1)
      else (Returned True, b1\<lparr>b_closed := True, b_eventsClosed := True, b_done := True\<rparr>))"
    using assms(1,3) False f by (simp add: broker_close_def split: if_splits)
  have "pump_ok (b1\<lparr>b_closed := True, b_eventsClosed := True, b_done := True\<rparr>)"
    using i1 assms(3) by (auto simp: broker_inv_def pump_ok_def same_channel_def)
  moreover have "ordered (b1\<lparr>b_closed := True, b_eventsClosed := True, b_done := True\<rparr>)"
    using i1 by (simp add: broker_inv_def ordered_def)
  ultimately show ?thesis using eq assms(3,4) i1 False
    by (auto simp: broker_inv_def same_channel_def within_def split: if_splits)
qed

end
