(* ===== verification/BrokerSystem.thy ===== *)
theory BrokerSystem
  imports EventStream
begin

text \<open>
  The broker of one run as a transition system, and what its users can rely on: the order of the
  stream, what is never lost, what is counted when it is lost, and that the stream ends.
\<close>

subsection \<open>The broker as a transition system\<close>

text \<open>
  The broker, the producers that wait for capacity with the mutex released, and the publications it
  has taken in so far: the ones that returned while it was open, as an event of the stream or as a
  counted loss. A standby broker ignores publications until someone subscribes.
\<close>

record broker_system =
  sys_broker :: eventBroker
  sys_waiting :: "(publish_step \<times> Event \<times> EventSourceMeta option) list"
  sys_taken :: "event_body list"

definition broker_open :: "eventBroker \<Rightarrow> bool" where
  "broker_open b \<longleftrightarrow> \<not> b_closed b \<and> \<not> b_terminal b"

definition waiters :: "publish_step \<Rightarrow> Event \<Rightarrow> EventSourceMeta option \<Rightarrow> (publish_step \<times> Event \<times> EventSourceMeta option) list" where
  "waiters st ev source = (case st of Returned _ \<Rightarrow> [] | _ \<Rightarrow> [(st, ev, source)])"

definition taken_by :: "publish_step \<Rightarrow> eventBroker \<Rightarrow> Event \<Rightarrow> event_body list" where
  "taken_by st b ev = (case st of Returned _ \<Rightarrow> if broker_open b then [Event_body ev] else [] | _ \<Rightarrow> [])"

text \<open>
  One step: a call that returns or starts to wait, a waiting producer that looks again, the reader
  or the pump. A call of a broker without a spool waits with the mutex held, so only its return is
  a step. The context of a waiting producer may have ended by the time it looks again.
\<close>

inductive broker_step :: "broker_system \<Rightarrow> broker_system \<Rightarrow> bool" where
  ignored: "\<lbrakk>b = sys_broker s; broker_open b; b_discardUnsubscribed b; \<not> b_subscribed b\<rbrakk> \<Longrightarrow> broker_step s s"
| publish: "\<lbrakk>b = sys_broker s; \<not> (b_discardUnsubscribed b \<and> \<not> b_subscribed b);
     publishContext ctx env1 env2 now b (Some ev) source = (st, b'); st \<noteq> Probing\<rbrakk>
   \<Longrightarrow> broker_step s (s\<lparr>sys_broker := b', sys_waiting := sys_waiting s @ waiters st ev source,
                          sys_taken := sys_taken s @ taken_by st b ev\<rparr>)"
| resume_first: "\<lbrakk>b = sys_broker s; sys_waiting s = ws @ (WaitFirst, ev, source) # ws';
     publish_first ctx now b ev source = (st, b')\<rbrakk>
   \<Longrightarrow> broker_step s (s\<lparr>sys_broker := b', sys_waiting := ws @ waiters st ev source @ ws',
                          sys_taken := sys_taken s @ taken_by st b ev\<rparr>)"
| resume_second: "\<lbrakk>b = sys_broker s; sys_waiting s = ws @ (WaitSecond, ev, source) # ws';
     publish_second ctx now b ev source = (st, b')\<rbrakk>
   \<Longrightarrow> broker_step s (s\<lparr>sys_broker := b', sys_waiting := ws @ waiters st ev source @ ws',
                          sys_taken := sys_taken s @ taken_by st b ev\<rparr>)"
| terminal: "\<lbrakk>b = sys_broker s; publishTerminal env now b (Some ev) source = Return (st, b'); st \<noteq> Probing\<rbrakk>
   \<Longrightarrow> broker_step s (s\<lparr>sys_broker := b', sys_taken := sys_taken s @ taken_by st b ev\<rparr>)"
| close: "\<lbrakk>broker_close env now (sys_broker s) = (st, b'); st \<noteq> Probing\<rbrakk> \<Longrightarrow> broker_step s (s\<lparr>sys_broker := b'\<rparr>)"
| abort: "broker_step s (s\<lparr>sys_broker := broker_abort (sys_broker s)\<rparr>)"
| mark: "broker_step s (s\<lparr>sys_broker := markConsumer (sys_broker s)\<rparr>)"
| subscribe: "broker_step s (s\<lparr>sys_broker := broker_subscribe (sys_broker s)\<rparr>)"
| await: "broker_step s (s\<lparr>sys_broker := awaitResult (sys_broker s)\<rparr>)"
| receive: "b_subscribed (sys_broker s) \<Longrightarrow> broker_step s (s\<lparr>sys_broker := broker_receive (sys_broker s)\<rparr>)"
| pump: "broker_step s (s\<lparr>sys_broker := pump_step (sys_broker s)\<rparr>)"

definition broker_start :: "eventBroker \<Rightarrow> bool \<Rightarrow> bool \<Rightarrow> bool \<Rightarrow> broker_system" where
  "broker_start b spool discard multiple =
     \<lparr>sys_broker = b\<lparr>b_spool := spool, b_discardUnsubscribed := discard, b_multipleRuns := multiple\<rparr>,
      sys_waiting = [], sys_taken = []\<rparr>"

inductive broker_reachable :: "broker_system \<Rightarrow> bool" where
  start: "newEventBroker runID key buffer blocking = Return b \<Longrightarrow> broker_reachable (broker_start b spool discard multiple)"
| step: "\<lbrakk>broker_reachable s; broker_step s s'\<rbrakk> \<Longrightarrow> broker_reachable s'"

definition waiting_ok :: "broker_system \<Rightarrow> bool" where
  "waiting_ok s \<longleftrightarrow> (\<forall>w \<in> set (sys_waiting s). fst w \<in> {WaitFirst, WaitSecond}
     \<and> \<not> eventCritical (Event_body (fst (snd w))) \<and> b_spool (sys_broker s))"

definition sys_inv :: "broker_system \<Rightarrow> bool" where
  "sys_inv s \<longleftrightarrow> broker_inv (sys_broker s) \<and> waiting_ok s
     \<and> (b_spool (sys_broker s) \<or> b_terminal (sys_broker s) \<or> within (sys_broker s))"

lemma publish_second_fields:
  assumes "publish_second ctx now b ev source = (st, b')"
  shows "b_spool b' = b_spool b" "b_closed b' = b_closed b" "b_terminal b' = b_terminal b"
    "b_subscribed b' = b_subscribed b" "b_discardOrdinary b' = b_discardOrdinary b"
    "b_normalCapacity b' = b_normalCapacity b" "b_received b' = b_received b"
    "\<And>r. waiters st ev r \<noteq> [] \<Longrightarrow> st = WaitSecond \<and> \<not> eventCritical (Event_body ev)"
  using assms by (cases rule: publish_second_cases; simp add: drop_ordinary_eq waiters_def)+

lemma publish_first_fields:
  assumes "publish_first ctx now b ev source = (st, b')" "eventCritical (Event_body ev) \<longrightarrow> broker_open b"
  shows "b_spool b' = b_spool b" "b_closed b' = b_closed b" "b_terminal b' = b_terminal b"
    "b_subscribed b' = b_subscribed b" "b_discardOrdinary b' = b_discardOrdinary b"
    "b_normalCapacity b' = b_normalCapacity b" "b_received b' = b_received b"
    "\<And>r. waiters st ev r \<noteq> [] \<Longrightarrow> st \<in> {WaitFirst, WaitSecond} \<and> \<not> eventCritical (Event_body ev)"
  using assms(1,2)[unfolded broker_open_def]
  by (cases rule: publish_first_cases; simp add: drop_ordinary_eq waiters_def publish_second_fields)+

text \<open>
  A publication by a producer that has just arrived, on a spool: it is refused when the broker is
  not open.
\<close>

lemma publishContext_spool:
  "\<lbrakk>b_spool b; \<not> (b_discardUnsubscribed b \<and> \<not> b_subscribed b)\<rbrakk> \<Longrightarrow> publishContext ctx env1 env2 now b (Some ev) source
     = (if broker_open b then publish_first ctx now b ev source else (Returned False, b))"
  by (auto simp: publishContext_def publishLocked_def broker_open_def)

lemma publishContext_direct:
  "\<lbrakk>\<not> b_spool b; \<not> (b_discardUnsubscribed b \<and> \<not> b_subscribed b)\<rbrakk> \<Longrightarrow> publishContext ctx env1 env2 now b (Some ev) source
     = (if broker_open b then publish_direct env1 env2 now b ev source else (Returned False, b))"
  by (auto simp: publishContext_def publishLocked_def broker_open_def)

lemma waiting_okI:
  assumes "waiting_ok s" "b_spool b' = b_spool (sys_broker s)" "set ws \<subseteq> set (sys_waiting s) \<union> set (waiters st ev r)"
    "waiters st ev r \<noteq> [] \<Longrightarrow> st \<in> {WaitFirst, WaitSecond} \<and> \<not> eventCritical (Event_body ev) \<and> b_spool b'"
  shows "waiting_ok (s\<lparr>sys_broker := b', sys_waiting := ws, sys_taken := t\<rparr>)"
proof -
  have w: "w = (st, ev, r) \<and> waiters st ev r \<noteq> []" if "w \<in> set (waiters st ev r)" for w
    using that by (cases st) (auto simp: waiters_def)
  have "fst w \<in> {WaitFirst, WaitSecond} \<and> \<not> eventCritical (Event_body (fst (snd w))) \<and> b_spool b'" if "w \<in> set ws" for w
  proof (cases "w \<in> set (sys_waiting s)")
    case True
    then show ?thesis using assms(1,2) by (simp add: waiting_ok_def)
  next
    case False
    then have "w \<in> set (waiters st ev r)" using that assms(3) by blast
    then show ?thesis using w assms(4) by fastforce
  qed
  then show ?thesis by (simp add: waiting_ok_def)
qed

lemma waiting_ok_broker:
  "\<lbrakk>waiting_ok s; b_spool b' = b_spool (sys_broker s)\<rbrakk> \<Longrightarrow> waiting_ok (s\<lparr>sys_broker := b'\<rparr>)"
  "waiting_ok (s\<lparr>sys_taken := t\<rparr>) = waiting_ok s"
  by (simp_all add: waiting_ok_def)

lemma sys_inv_broker:
  assumes "sys_inv s" "broker_inv b'" "b_spool b' = b_spool (sys_broker s)"
    "\<not> b_spool b' \<Longrightarrow> b_terminal b' \<or> within b'"
  shows "sys_inv (s\<lparr>sys_broker := b'\<rparr>)" "sys_inv (s\<lparr>sys_broker := b', sys_taken := t\<rparr>)"
  using assms by (auto simp: sys_inv_def waiting_ok_def)

lemma spool_waiters: "\<lbrakk>waiting_ok s; (st, ev, source) \<in> set (sys_waiting s)\<rbrakk>
  \<Longrightarrow> b_spool (sys_broker s) \<and> \<not> eventCritical (Event_body ev)"
  by (force simp: waiting_ok_def)

lemma publish_sys_inv:
  assumes "sys_inv s" "b_spool (sys_broker s)" "broker_inv b'" "b_spool b' = b_spool (sys_broker s)"
    "set ws \<subseteq> set (sys_waiting s) \<union> set (waiters st ev r)"
    "waiters st ev r \<noteq> [] \<Longrightarrow> st \<in> {WaitFirst, WaitSecond} \<and> \<not> eventCritical (Event_body ev)"
  shows "sys_inv (s\<lparr>sys_broker := b', sys_waiting := ws, sys_taken := t\<rparr>)"
  using assms waiting_okI[of s b' ws st ev r t] by (simp add: sys_inv_def)

lemma publish_step_inv:
  assumes "sys_inv s" "\<not> (b_discardUnsubscribed (sys_broker s) \<and> \<not> b_subscribed (sys_broker s))"
    "publishContext ctx env1 env2 now (sys_broker s) (Some ev) source = (st, b')" "st \<noteq> Probing"
  shows "sys_inv (s\<lparr>sys_broker := b', sys_waiting := sys_waiting s @ waiters st ev source, sys_taken := t\<rparr>)"
proof (cases "broker_open (sys_broker s)")
  case False
  then have "st = Returned False" "b' = sys_broker s" using assms(3) by (auto simp: publishContext_def broker_open_def)
  then show ?thesis using assms(1) by (auto simp: waiters_def sys_inv_def waiting_ok_def)
next
  case True
  show ?thesis
  proof (cases "b_spool (sys_broker s)")
    case spool: True
    then have p: "publish_first ctx now (sys_broker s) ev source = (st, b')" using assms True by (simp add: publishContext_spool)
    show ?thesis
    proof (rule publish_sys_inv[OF assms(1) spool, where st = st and ev = ev and r = source])
      show "broker_inv b'" using publish_first_inv[OF p _ _ spool] assms(1) True by (simp add: broker_open_def sys_inv_def)
      show "waiters st ev source \<noteq> [] \<Longrightarrow> st \<in> {WaitFirst, WaitSecond} \<and> \<not> eventCritical (Event_body ev)"
        using publish_first_fields(8)[OF p] True by blast
    qed (use publish_first_fields(1)[OF p] True in auto)
  next
    case direct: False
    then have p: "publish_direct env1 env2 now (sys_broker s) ev source = (st, b')" using assms True by (simp add: publishContext_direct)
    have e: "broker_inv b'" "same_channel (sys_broker s) b'" "waiters st ev source = []"
      using publish_direct_inv[OF p _ direct] assms(1,4) by (auto simp: sys_inv_def waiters_def split: publish_step.splits)
    then show ?thesis using assms(1) direct by (auto simp: sys_inv_def same_channel_def waiting_ok_def)
  qed
qed

lemma receive_inv: "broker_inv b \<Longrightarrow> broker_inv (broker_receive b)"
  by (auto simp: broker_inv_def intro: ordered_same[of b])

lemma pump_inv: "broker_inv b \<Longrightarrow> broker_inv (pump_step b)"
  by (auto simp: broker_inv_def pump_pump_ok intro: ordered_same[of b])

lemma mark_inv: "broker_inv b \<Longrightarrow> broker_inv (markConsumer b)"
  by (simp add: broker_inv_def markConsumer_def ordered_def)

lemma within_others:
  "within b \<Longrightarrow> within (broker_receive b)"
  "within (broker_abort b) = within b" "within (markConsumer b) = within b"
  "within (broker_subscribe b) = within b"
  "\<not> b_spool b \<Longrightarrow> within (awaitResult b) = within b"
  "\<lbrakk>pump_ok b; \<not> b_spool b\<rbrakk> \<Longrightarrow> pump_step b = b"
  by (auto simp: within_def broker_receive_def take_events_def broker_abort_def markConsumer_def broker_subscribe_def
      startPumpLocked_def Let_def awaitResult_eq pump_step_def pump_ok_def)

lemma resume_first_inv:
  assumes "sys_inv s" "sys_waiting s = ws @ (WaitFirst, ev, source) # ws'"
    "publish_first ctx now (sys_broker s) ev source = (st, b')"
  shows "sys_inv (s\<lparr>sys_broker := b', sys_waiting := ws @ waiters st ev source @ ws', sys_taken := t\<rparr>)"
proof -
  have w: "b_spool (sys_broker s)" "\<not> eventCritical (Event_body ev)"
    using assms(1,2) spool_waiters[of s WaitFirst ev source] by (auto simp: sys_inv_def)
  show ?thesis
    by (rule publish_sys_inv[OF assms(1) w(1), where st = st and ev = ev and r = source])
      (use assms w publish_first_inv[OF assms(3)] publish_first_fields(1,8)[OF assms(3)] in \<open>auto simp: sys_inv_def\<close>)
qed

lemma resume_second_inv:
  assumes "sys_inv s" "sys_waiting s = ws @ (WaitSecond, ev, source) # ws'"
    "publish_second ctx now (sys_broker s) ev source = (st, b')"
  shows "sys_inv (s\<lparr>sys_broker := b', sys_waiting := ws @ waiters st ev source @ ws', sys_taken := t\<rparr>)"
proof -
  have w: "b_spool (sys_broker s)" "\<not> eventCritical (Event_body ev)"
    using assms(1,2) spool_waiters[of s WaitSecond ev source] by (auto simp: sys_inv_def)
  show ?thesis
    by (rule publish_sys_inv[OF assms(1) w(1), where st = st and ev = ev and r = source])
      (use assms w publish_second_inv[OF assms(3)] publish_second_fields(1,8)[OF assms(3)] in \<open>auto simp: sys_inv_def\<close>)
qed

lemma terminal_spool_field:
  "\<lbrakk>publishTerminal env now b (Some ev) source = Return (st, b'); b_spool b\<rbrakk> \<Longrightarrow> b_spool b' \<and> b_closed b' = b_closed b"
  by (cases "b_closed b \<or> b_terminal b") (auto simp: publishTerminal_spool Let_def split: if_splits, auto simp: publishTerminal_def)

lemma terminal_step_inv:
  assumes "sys_inv s" "publishTerminal env now (sys_broker s) (Some ev) source = Return (st, b')" "st \<noteq> Probing"
  shows "sys_inv (s\<lparr>sys_broker := b', sys_taken := t\<rparr>)"
proof (cases "b_spool (sys_broker s)")
  case True
  then show ?thesis using assms terminal_inv[OF assms(2)] terminal_spool_field[OF assms(2)]
    by (intro sys_inv_broker) (auto simp: sys_inv_def)
next
  case False
  have d: "broker_inv b' \<and> \<not> b_spool b' \<and> (st = Returned True \<longrightarrow> b_terminal b')"
    using terminal_direct[of "sys_broker s" env now "Some ev" source] assms False by (auto simp: sys_inv_def)
  have "st = Returned True \<or> b' = sys_broker s"
    using assms(2,3) False by (auto simp: publishTerminal_def Let_def stampNextLocked_eq split: if_splits prod.splits)
  then show ?thesis using assms(1) False d by (intro sys_inv_broker) (auto simp: sys_inv_def)
qed

lemma close_spool_field:
  "\<lbrakk>broker_close env now b = (st, b'); b_spool b\<rbrakk> \<Longrightarrow> b_spool b'"
  by (cases "b_closed b")
    (auto simp: broker_close_def, auto simp: Let_def wakeLocked_def startPumpLocked_def split: if_splits)

lemma close_step_inv:
  assumes "sys_inv s" "broker_close env now (sys_broker s) = (st, b')" "st \<noteq> Probing"
  shows "sys_inv (s\<lparr>sys_broker := b'\<rparr>)"
proof (cases "b_spool (sys_broker s)")
  case True
  then show ?thesis using assms close_inv[OF assms(2)] close_spool_field[OF assms(2)]
    by (intro sys_inv_broker) (auto simp: sys_inv_def)
next
  case False
  have "broker_inv b' \<and> \<not> b_spool b' \<and> b_terminal b' = b_terminal (sys_broker s) \<and> (within (sys_broker s) \<longrightarrow> within b')"
    using close_direct[OF assms(2) _ False assms(3)] assms(1) by (auto simp: sys_inv_def)
  then show ?thesis using assms(1) False by (intro sys_inv_broker) (auto simp: sys_inv_def)
qed

lemma other_fields [simp]:
  "b_spool (broker_abort b) = b_spool b" "b_terminal (broker_abort b) = b_terminal b" "b_closed (broker_abort b) = b_closed b"
  "b_spool (markConsumer b) = b_spool b" "b_terminal (markConsumer b) = b_terminal b" "b_closed (markConsumer b) = b_closed b"
  "b_spool (awaitResult b) = b_spool b" "b_terminal (awaitResult b) = b_terminal b" "b_closed (awaitResult b) = b_closed b"
  "b_subscribed (broker_abort b) = b_subscribed b" "b_subscribed (markConsumer b) = b_subscribed b"
  "b_subscribed (awaitResult b) = b_subscribed b"
  "stream (broker_abort b) = stream b" "stream (markConsumer b) = stream b"
  by (simp_all add: broker_abort_def markConsumer_def awaitResult_eq)

lemma step_inv: "\<lbrakk>broker_step s s'; sys_inv s\<rbrakk> \<Longrightarrow> sys_inv s'"
proof (induction rule: broker_step.induct)
  case (publish b s ctx env1 env2 now ev source st b')
  then show ?case using publish_step_inv by simp
next
  case (terminal b s env now ev source st b')
  then show ?case using terminal_step_inv by simp
next
  case (pump s)
  then show ?case using pump_inv within_others(6)[of "sys_broker s"]
    by (intro sys_inv_broker) (auto simp: sys_inv_def broker_inv_def)
next
  case (receive s)
  then show ?case using receive_inv within_others(1) by (intro sys_inv_broker) (auto simp: sys_inv_def)
next
  case (abort s)
  then show ?case using abort_inv within_others(2) by (intro sys_inv_broker) (auto simp: sys_inv_def)
next
  case (mark s)
  then show ?case using mark_inv within_others(3) by (intro sys_inv_broker) (auto simp: sys_inv_def)
next
  case (subscribe s)
  then show ?case using subscribe_inv within_others(4) by (intro sys_inv_broker) (auto simp: sys_inv_def)
next
  case (await s)
  then show ?case using awaitResult_inv within_others(5) by (intro sys_inv_broker) (auto simp: sys_inv_def)
qed (use resume_first_inv resume_second_inv close_step_inv in auto)

lemma start_inv:
  assumes "newEventBroker runID key buffer blocking = Return b"
  shows "sys_inv (broker_start b spool discard multiple)"
  using assms
  by (auto simp: newEventBroker_def Let_def broker_start_def sys_inv_def broker_inv_def waiting_ok_def pump_ok_def
      ordered_def stream_def pending_queue_def within_def split: if_splits)

lemma reachable_inv: "broker_reachable s \<Longrightarrow> sys_inv s"
  by (induction rule: broker_reachable.induct) (auto intro: start_inv step_inv)

subsection \<open>The sealed stream\<close>

lemma publish_sealed:
  assumes "\<not> broker_open b"
  shows "publishContext ctx env1 env2 now b (Some ev) source = (Returned False, b)"
    and "\<not> eventCritical (Event_body ev) \<Longrightarrow> publish_first ctx now b ev source = (Returned False, b)"
    and "\<not> eventCritical (Event_body ev) \<Longrightarrow> publish_second ctx now b ev source = (Returned False, b)"
    and "publishTerminal env now b (Some ev) source = Return (Returned False, b)"
  using assms
  by (auto simp: publishContext_def publish_first_def publish_second_def publishTerminal_def broker_open_def must_wait_def)

lemma close_sealed:
  assumes "broker_close env now b = (st, b')" "broker_inv b" "\<not> broker_open b" "st \<noteq> Probing"
  shows "stream b' = stream b" "b_closed b'"
proof -
  consider "b_closed b" | "\<not> b_closed b" "b_terminal b" "b_spool b" | "b_terminal b" "\<not> b_spool b"
    using assms(3) by (auto simp: broker_open_def)
  then have "stream b' = stream b \<and> b_closed b'"
  proof cases
    case 1
    then show ?thesis using assms(1) by (simp add: broker_close_def)
  next
    case 2
    then show ?thesis using close_effect(1,5)[OF assms(1,2)] by (simp add: sealed_def)
  next
    case 3
    then show ?thesis using close_direct[OF assms(1,2) _ assms(4)] by simp
  qed
  then show "stream b' = stream b" "b_closed b'" by auto
qed

lemma step_sealed:
  assumes "broker_step s s'" "sys_inv s" "\<not> broker_open (sys_broker s)"
  shows "stream (sys_broker s') = stream (sys_broker s) \<and> \<not> broker_open (sys_broker s') \<and> sys_taken s' = sys_taken s"
  using assms
proof (induction rule: broker_step.induct)
  case (publish b s ctx env1 env2 now ev source st b')
  then show ?case by (auto simp: publish_sealed taken_by_def)
next
  case (resume_first b s ws ev source ws' ctx now st b')
  then have "\<not> eventCritical (Event_body ev)" using spool_waiters[of s WaitFirst ev source] by (auto simp: sys_inv_def)
  then show ?case using resume_first by (auto simp: publish_sealed taken_by_def)
next
  case (resume_second b s ws ev source ws' ctx now st b')
  then have "\<not> eventCritical (Event_body ev)" using spool_waiters[of s WaitSecond ev source] by (auto simp: sys_inv_def)
  then show ?case using resume_second by (auto simp: publish_sealed taken_by_def)
next
  case (terminal b s env now ev source st b')
  then show ?case by (auto simp: publish_sealed taken_by_def)
next
  case (close env now s st b')
  then show ?case using close_sealed[of env now "sys_broker s" st b'] by (auto simp: sys_inv_def broker_open_def)
next
  case (await s)
  then show ?case by (auto simp: awaitResult_eq broker_open_def)
next
  case (subscribe s)
  then show ?case by (auto simp: broker_open_def sys_inv_def broker_inv_def)
next
  case (pump s)
  then show ?case by (auto simp: broker_open_def sys_inv_def broker_inv_def)
qed (auto simp: broker_open_def)

lemma steps_inv: "\<lbrakk>broker_step\<^sup>*\<^sup>* s s'; sys_inv s\<rbrakk> \<Longrightarrow> sys_inv s'"
  by (induction rule: rtranclp_induct) (auto intro: step_inv)

lemma steps_sealed:
  assumes "broker_step\<^sup>*\<^sup>* s s'" "sys_inv s" "\<not> broker_open (sys_broker s)"
  shows "stream (sys_broker s') = stream (sys_broker s) \<and> \<not> broker_open (sys_broker s') \<and> sys_taken s' = sys_taken s"
  using assms
proof (induction rule: rtranclp_induct)
  case (step y z)
  then show ?case using step_sealed[OF step(2)] steps_inv[OF step(1)] by simp
qed simp

subsection \<open>What the stream never loses\<close>

definition event_log :: "(event_body \<Rightarrow> bool) \<Rightarrow> eventBroker \<Rightarrow> event_body list" where
  "event_log P b = filter P (map Event_body (stream b))"

text \<open>
  A class of events a broker keeps: critical ones always, everything that is not a droppable delta
  once there is a subscriber and ordinary events are not being discarded.
\<close>

definition keeps_class :: "(event_body \<Rightarrow> bool) \<Rightarrow> eventBroker \<Rightarrow> bool" where
  "keeps_class P b \<longleftrightarrow> (\<forall>body. P body \<longrightarrow> \<not> is_sdk_marker body)
     \<and> ((\<forall>body. P body \<longrightarrow> eventCritical body)
        \<or> b_subscribed b \<and> \<not> b_discardOrdinary b \<and> (\<forall>body. P body \<longrightarrow> \<not> eventMayDrop body))"

lemma event_log_append: "stream b' = stream b @ evs \<Longrightarrow> event_log P b' = event_log P b @ filter P (map Event_body evs)"
  by (simp add: event_log_def)

lemma dropped_not_kept:
  "\<lbrakk>keeps_class P b; drop_now ctx b ev; \<not> eventCritical (Event_body ev)\<rbrakk> \<Longrightarrow> \<not> P (Event_body ev)"
  by (auto simp: keeps_class_def drop_now_def)

lemma marker_log: "\<lbrakk>keeps_class P b; pump_ok b\<rbrakk> \<Longrightarrow> event_log P (publish_marker now b) = event_log P b"
  using event_log_append[OF publish_marker_stream[of b now], of P] pending_marker_simps(2)[of now b]
  by (auto simp: keeps_class_def)

lemma drop_ordinary_stream [simp]: "stream (drop_ordinary now b ev source) = stream b"
  by (simp add: drop_ordinary_eq)

lemma publish_second_log:
  assumes "publish_second ctx now b ev source = (st, b')" "keeps_class P b" "pump_ok b"
  shows "event_log P b' = event_log P b @ filter P (taken_by st b ev)"
  using assms(1)
proof (cases rule: publish_second_cases)
  case dropped
  then show ?thesis using dropped_not_kept[OF assms(2)] by (simp add: taken_by_def event_log_def)
next
  case accepted
  then have "stream b' = stream b @ [stamped now b ev source]" using assms(3) by (simp add: enqueue_stream)
  then show ?thesis using accepted by (simp add: event_log_append taken_by_def broker_open_def)
qed (auto simp: taken_by_def broker_open_def)

lemma publish_first_log:
  assumes "publish_first ctx now b ev source = (st, b')" "eventCritical (Event_body ev) \<longrightarrow> broker_open b"
    "keeps_class P b" "broker_inv b" "b_spool b"
  shows "event_log P b' = event_log P b @ filter P (taken_by st b ev)"
  using assms(1) assms(2)[unfolded broker_open_def]
proof (cases rule: publish_first_cases)
  case dropped
  then show ?thesis using dropped_not_kept[OF assms(3)] by (simp add: taken_by_def event_log_def)
next
  case second
  have m: "pump_ok (publish_marker now b)" "keeps_class P (publish_marker now b)"
    using assms(3-5) second publish_marker_pump_ok by (auto simp: broker_inv_def keeps_class_def)
  show ?thesis using publish_second_log[OF second(1) m(2,1)] marker_log[OF assms(3)] assms(4) second
    by (simp add: broker_inv_def taken_by_def broker_open_def)
qed (auto simp: taken_by_def broker_open_def)

lemma retained_log:
  assumes "\<forall>body. P body \<longrightarrow> eventCritical body \<and> \<not> is_sdk_marker body"
  shows "filter P (map Event_body (retained keep cap kept evs)) = filter P (map Event_body evs)"
  by (induction keep cap kept evs rule: retained.induct) (use assms in auto)

lemma prune_log:
  assumes "keeps_class P b" "pump_ok b" "\<not> b_subscribed b"
  shows "event_log P (pruneUnobservedLocked keep b) = event_log P b"
proof -
  have "\<forall>body. P body \<longrightarrow> eventCritical body \<and> \<not> is_sdk_marker body" using assms(1,3) by (auto simp: keeps_class_def)
  from retained_log[OF this] show ?thesis
    using unsubscribed_off[OF assms(2,3)] unfolding event_log_def
    by (simp add: pruneUnobserved_stream del: map_append) (simp add: stream_def pending_queue_def)
qed

lemma prepared_log:
  assumes "keeps_class P b" "broker_inv b" "b_spool b" "\<not> b_closed b"
  shows "event_log P (publish_marker now (if b_subscribed b then b else pruneUnobservedLocked keep b)) = event_log P b"
proof (cases "b_subscribed b")
  case True
  then show ?thesis using marker_log assms by (simp add: broker_inv_def)
next
  case False
  have "keeps_class P (pruneUnobservedLocked keep b)" "pump_ok (pruneUnobservedLocked keep b)"
    using assms(1) False pruneUnobserved_inv[OF assms(2) False assms(3,4)] by (auto simp: keeps_class_def broker_inv_def)
  then show ?thesis using marker_log prune_log[OF assms(1) _ False] assms(2) False by (simp add: broker_inv_def)
qed

lemma terminal_log:
  assumes "publishTerminal env now b (Some ev) source = Return (st, b')" "keeps_class P b" "broker_inv b" "b_spool b"
  shows "event_log P b' = event_log P b @ filter P (taken_by st b ev)"
proof (cases "broker_open b")
  case False
  then show ?thesis using assms(1) by (auto simp: publish_sealed taken_by_def)
next
  case True
  let ?b = "publish_marker now (if b_subscribed b then b else pruneUnobservedLocked (\<not> b_discardOrdinary b) b)"
  have inv: "pump_ok ?b" using prepared_inv[OF assms(3,4)] True by (simp add: broker_inv_def broker_open_def)
  have "stream b' = stream ?b @ [stamped now ?b ev source]" "st = Returned True"
    using assms(1,4) True enqueue_stream inv by (auto simp: publishTerminal_spool Let_def broker_open_def)
  then show ?thesis using prepared_log[OF assms(2-4)] True
    by (simp add: event_log_append taken_by_def broker_open_def)
qed

lemma close_log:
  assumes "broker_close env now b = (st, b')" "keeps_class P b" "broker_inv b" "b_spool b"
  shows "event_log P b' = event_log P b"
proof (cases "b_closed b")
  case True
  then show ?thesis using assms(1) by (simp add: broker_close_def)
next
  case False
  then show ?thesis using close_effect(1)[OF assms(1,3,4) False] prepared_log[OF assms(2-4) False]
    by (simp add: event_log_def sealed_def del: if_split)
qed

lemma await_log:
  assumes "keeps_class P b" "broker_inv b"
  shows "event_log P (awaitResult b) = event_log P b"
proof (cases "\<not> b_spool b \<or> b_subscribed b \<or> b_closed b \<or> b_terminal b")
  case True
  then show ?thesis by (simp add: awaitResult_eq event_log_def)
next
  case False
  let ?b = "b\<lparr>b_consumer := True, b_discardOrdinary := True\<rparr>"
  have "keeps_class P ?b" "pump_ok ?b" "\<not> b_subscribed ?b" using assms False by (auto simp: keeps_class_def broker_inv_def)
  then show ?thesis using prune_log[of P ?b False] False by (simp add: awaitResult_eq event_log_def)
qed

text \<open>One step appends to the log of a kept class exactly what it took in of that class.\<close>

lemma step_log:
  assumes "broker_step s s'" "sys_inv s" "b_spool (sys_broker s)" "keeps_class P (sys_broker s)"
  shows "\<exists>new. sys_taken s' = sys_taken s @ new
    \<and> event_log P (sys_broker s') = event_log P (sys_broker s) @ filter P new"
  using assms
proof (induction rule: broker_step.induct)
  case (publish b s ctx env1 env2 now ev source st b')
  then show ?case
    using publish_first_log[of ctx now b ev source st b' P]
    by (auto simp: publishContext_spool sys_inv_def taken_by_def split: if_splits)
next
  case (resume_first b s ws ev source ws' ctx now st b')
  then show ?case using publish_first_log[of ctx now b ev source st b' P] spool_waiters[of s WaitFirst ev source]
    by (auto simp: sys_inv_def)
next
  case (resume_second b s ws ev source ws' ctx now st b')
  then show ?case using publish_second_log[of ctx now b ev source st b' P] by (auto simp: sys_inv_def broker_inv_def)
next
  case (terminal b s env now ev source st b')
  then show ?case using terminal_log[of env now b ev source st b' P] by (auto simp: sys_inv_def)
next
  case (close env now s st b')
  then show ?case using close_log[of env now "sys_broker s" st b' P] by (auto simp: sys_inv_def)
next
  case (await s)
  then show ?case using await_log by (auto simp: sys_inv_def)
next
  case (subscribe s)
  then show ?case by (auto simp: sys_inv_def broker_inv_def event_log_def)
next
  case (pump s)
  then show ?case by (auto simp: sys_inv_def broker_inv_def event_log_def)
qed (auto simp: event_log_def)

text \<open>The subscription is permanent, and a subscribed open broker discards nothing wholesale.\<close>

definition consumer_ok :: "eventBroker \<Rightarrow> bool" where
  "consumer_ok b \<longleftrightarrow> (b_subscribed b \<and> \<not> b_closed b \<longrightarrow> \<not> b_discardOrdinary b)"

definition watched :: "eventBroker \<Rightarrow> bool" where
  "watched b \<longleftrightarrow> b_subscribed b \<and> \<not> b_discardOrdinary b"

definition class_frame :: "eventBroker \<Rightarrow> eventBroker \<Rightarrow> bool" where
  "class_frame b b' \<longleftrightarrow> b_spool b' = b_spool b \<and> (watched b \<longrightarrow> watched b') \<and> (consumer_ok b \<longrightarrow> consumer_ok b')
     \<and> (b_subscribed b \<longrightarrow> b_subscribed b')"

lemma class_frameI:
  "\<lbrakk>b_spool b' = b_spool b; b_subscribed b' = b_subscribed b; b_discardOrdinary b' = b_discardOrdinary b;
    b_closed b \<longrightarrow> b_closed b'\<rbrakk> \<Longrightarrow> class_frame b b'"
  by (auto simp: class_frame_def watched_def consumer_ok_def)

lemma terminal_frame:
  "\<lbrakk>publishTerminal env now b (Some ev) source = Return (st, b'); b_spool b\<rbrakk> \<Longrightarrow> class_frame b b'"
  by (cases "broker_open b") (auto simp: publish_sealed publishTerminal_spool broker_open_def Let_def class_frame_def watched_def consumer_ok_def
      split: if_splits)

lemma close_frame: "\<lbrakk>broker_close env now b = (st, b'); b_spool b\<rbrakk> \<Longrightarrow> class_frame b b'"
  by (cases "b_closed b")
    (auto simp: broker_close_def Let_def wakeLocked_def startPumpLocked_def class_frame_def watched_def consumer_ok_def split: if_splits)

lemma other_frames:
  "class_frame b (broker_subscribe b)" "class_frame b (awaitResult b)" "class_frame b (broker_receive b)"
  "class_frame b (pump_step b)" "class_frame b (broker_abort b)" "class_frame b (markConsumer b)"
  by (auto simp: broker_subscribe_def startPumpLocked_def Let_def awaitResult_eq broker_receive_def take_events_def
      pump_step_def broker_abort_def markConsumer_def class_frame_def watched_def consumer_ok_def
      split: pump_pc.splits list.splits)

lemma step_frame:
  assumes "broker_step s s'" "sys_inv s" "b_spool (sys_broker s)"
  shows "class_frame (sys_broker s) (sys_broker s')"
  using assms
proof (induction rule: broker_step.induct)
  case (publish b s ctx env1 env2 now ev source st b')
  then show ?case using publish_first_fields[of ctx now b ev source st b']
    by (auto simp: publishContext_spool intro!: class_frameI split: if_splits)
next
  case (resume_first b s ws ev source ws' ctx now st b')
  then show ?case using publish_first_fields[of ctx now b ev source st b'] spool_waiters[of s WaitFirst ev source]
    by (auto simp: sys_inv_def intro!: class_frameI)
next
  case (resume_second b s ws ev source ws' ctx now st b')
  then show ?case using publish_second_fields[of ctx now b ev source st b'] by (auto intro!: class_frameI)
qed (use terminal_frame close_frame other_frames in \<open>auto intro: class_frameI\<close>)

lemma keeps_class_frame: "\<lbrakk>keeps_class P b; class_frame b b'\<rbrakk> \<Longrightarrow> keeps_class P b'"
  by (auto simp: keeps_class_def class_frame_def watched_def)

lemma steps_log:
  assumes "broker_step\<^sup>*\<^sup>* s s'" "sys_inv s" "b_spool (sys_broker s)" "keeps_class P (sys_broker s)"
  shows "\<exists>new. sys_taken s' = sys_taken s @ new
    \<and> event_log P (sys_broker s') = event_log P (sys_broker s) @ filter P new
    \<and> keeps_class P (sys_broker s') \<and> b_spool (sys_broker s')"
  using assms
proof (induction rule: rtranclp_induct)
  case (step y z)
  then obtain new where n: "sys_taken y = sys_taken s @ new" "event_log P (sys_broker y) = event_log P (sys_broker s) @ filter P new"
    "keeps_class P (sys_broker y)" "b_spool (sys_broker y)" by blast
  have inv: "sys_inv y" using step steps_inv by blast
  obtain new' where n': "sys_taken z = sys_taken y @ new'" "event_log P (sys_broker z) = event_log P (sys_broker y) @ filter P new'"
    using step_log[OF step(2) inv n(4,3)] by blast
  have "class_frame (sys_broker y) (sys_broker z)" using step_frame[OF step(2) inv n(4)] .
  then show ?case using n n' keeps_class_frame[OF n(3)] by (auto simp: class_frame_def)
qed auto

lemma step_plain:
  assumes "broker_step s s'" "sys_inv s"
  shows "b_spool (sys_broker s') = b_spool (sys_broker s)"
  using assms
proof (induction rule: broker_step.induct)
  case (publish b s ctx env1 env2 now ev source st b')
  then show ?case
    using publish_first_fields(1)[of ctx now b ev source st b'] publish_direct_inv[of env1 env2 now b ev source st b']
    by (cases "b_spool b")
      (auto simp: publishContext_spool publishContext_direct sys_inv_def same_channel_def split: if_splits)
next
  case (resume_first b s ws ev source ws' ctx now st b')
  then show ?case using publish_first_fields(1)[of ctx now b ev source st b'] spool_waiters[of s WaitFirst ev source]
    by (auto simp: sys_inv_def)
next
  case (resume_second b s ws ev source ws' ctx now st b')
  then show ?case using publish_second_fields(1)[of ctx now b ev source st b'] by simp
next
  case (terminal b s env now ev source st b')
  then show ?case
    using terminal_spool_field[of env now b ev source st b'] terminal_direct[of b env now "Some ev" source]
    by (cases "b_spool b") (auto simp: sys_inv_def)
next
  case (close env now s st b')
  then show ?case using close_spool_field[of env now "sys_broker s" st b'] close_direct[of env now "sys_broker s" st b']
    by (cases "b_spool (sys_broker s)") (auto simp: sys_inv_def)
qed auto

lemma reachable_consumer_ok: "\<lbrakk>broker_reachable s; b_spool (sys_broker s)\<rbrakk> \<Longrightarrow> consumer_ok (sys_broker s)"
proof (induction rule: broker_reachable.induct)
  case (step s s')
  have inv: "sys_inv s" using step reachable_inv by blast
  show ?case
  proof (cases "b_spool (sys_broker s)")
    case True
    then show ?thesis using step step_frame[OF step(2) inv] by (auto simp: class_frame_def)
  next
    case False
    then have "\<not> b_spool (sys_broker s')" using step_plain[OF step(2) inv] by simp
    then show ?thesis using step by simp
  qed
qed (auto simp: newEventBroker_def broker_start_def consumer_ok_def Let_def split: if_splits)

subsection \<open>Properties of every reachable broker\<close>

definition must_keep :: "event_body \<Rightarrow> bool" where
  "must_keep body \<longleftrightarrow> eventCritical body \<and> \<not> is_sdk_marker body"

definition reliable :: "event_body \<Rightarrow> bool" where
  "reliable body \<longleftrightarrow> \<not> eventMayDrop body \<and> \<not> is_sdk_marker body"

lemma start_log: "newEventBroker runID key buffer blocking = Return b
  \<Longrightarrow> event_log P (sys_broker (broker_start b spool discard multiple)) = []
      \<and> sys_taken (broker_start b spool discard multiple) = []"
  by (auto simp: newEventBroker_def Let_def broker_start_def event_log_def stream_def pending_queue_def split: if_splits)

lemma reachable_critical:
  "\<lbrakk>broker_reachable s; b_spool (sys_broker s)\<rbrakk> \<Longrightarrow> event_log must_keep (sys_broker s) = filter must_keep (sys_taken s)"
proof (induction rule: broker_reachable.induct)
  case (start runID key buffer blocking b spool discard multiple)
  then show ?case using start_log by simp
next
  case (step s s')
  have inv: "sys_inv s" using step reachable_inv by blast
  then have "b_spool (sys_broker s)" using step_plain[OF step(2)] step by simp
  moreover have "keeps_class must_keep (sys_broker s)" by (simp add: keeps_class_def must_keep_def)
  ultimately show ?case using step_log[OF step(2) inv] step.IH by fastforce
qed

lemma critical_accepted:
  assumes "b_spool b" "broker_open b" "\<not> (b_discardUnsubscribed b \<and> \<not> b_subscribed b)" "eventCritical (Event_body ev)"
  shows "fst (publishContext ctx env1 env2 now b (Some ev) source) = Returned True"
  using assms
  by (simp add: publishContext_spool publish_first_def publish_second_def broker_open_def Let_def stampNextLocked_eq)

lemma terminal_appends:
  assumes "publishTerminal env now b (Some ev) source = Return (Returned True, b')" "broker_inv b"
    "b_spool b \<or> b_terminal b \<or> within b"
  shows "(\<exists>front e. stream b' = front @ [e] \<and> Event_body e = Event_body ev) \<and> \<not> broker_open b'"
proof (cases "b_spool b")
  case False
  then show ?thesis using terminal_direct[OF assms(2) False, of env now "Some ev" source] assms(1,3)
    by (auto simp: broker_open_def)
next
  case True
  have opn: "broker_open b" using assms(1) publish_sealed(4)[of b env now ev source] by auto
  let ?b = "publish_marker now (if b_subscribed b then b else pruneUnobservedLocked (\<not> b_discardOrdinary b) b)"
  have "pump_ok ?b" using prepared_inv[OF assms(2) True] opn by (simp add: broker_inv_def broker_open_def)
  then have "stream b' = stream ?b @ [stamped now ?b ev source]" "b_terminal b'"
    using assms(1) True opn enqueue_stream by (auto simp: publishTerminal_spool Let_def broker_open_def)
  then show ?thesis by (auto simp: broker_open_def)
qed

text \<open>
  Sequence numbers. In every reachable state of a broker, with or without a spool, the events of
  the stream (received, buffered and queued, in that order) carry strictly increasing sequence
  numbers, none above the broker's counter; so a reader never sees a number twice or out of order.
\<close>

theorem stream_strictly_ordered:
  assumes "broker_reachable s"
  shows "sorted_wrt (<) (map event_seq (stream (sys_broker s)))
    \<and> (\<forall>ev \<in> set (stream (sys_broker s)). event_seq ev \<le> b_sequence (sys_broker s))"
  using reachable_inv[OF assms] by (auto simp: sys_inv_def broker_inv_def ordered_def)

text \<open>
  C27. Critical events are never lost. On a spool, publishing a critical event on an open broker that
  is not ignoring publications returns at once with true; and in every reachable state the critical
  events of the stream (other than the broker's own loss summaries) are exactly the critical events
  the broker has taken in, each once and in the order it took them in.
\<close>

theorem critical_never_lost:
  assumes "broker_reachable s" "b_spool (sys_broker s)"
  shows "filter must_keep (map Event_body (stream (sys_broker s))) = filter must_keep (sys_taken s)
    \<and> (eventCritical (Event_body ev) \<and> broker_open (sys_broker s)
        \<and> \<not> (b_discardUnsubscribed (sys_broker s) \<and> \<not> b_subscribed (sys_broker s))
       \<longrightarrow> fst (publishContext ctx env1 env2 now (sys_broker s) (Some ev) source) = Returned True)"
  using reachable_critical[OF assms] critical_accepted[OF assms(2)] by (auto simp: event_log_def)

text \<open>
  With a subscriber only content deltas can be lost. From any reachable state of a spool that
  has a subscriber, whatever happens next, the reliable events of the stream (the ones that are
  neither droppable deltas nor loss summaries) grow by exactly the reliable events taken in since.
\<close>

theorem subscriber_loses_only_deltas:
  assumes "broker_reachable s" "b_spool (sys_broker s)" "b_subscribed (sys_broker s)" "broker_step\<^sup>*\<^sup>* s s'"
  shows "\<exists>new. sys_taken s' = sys_taken s @ new
    \<and> filter reliable (map Event_body (stream (sys_broker s')))
      = filter reliable (map Event_body (stream (sys_broker s))) @ filter reliable new"
proof (cases "broker_open (sys_broker s)")
  case False
  then show ?thesis using steps_sealed[OF assms(4) reachable_inv[OF assms(1)]] by auto
next
  case True
  then have "keeps_class reliable (sys_broker s)"
    using reachable_consumer_ok[OF assms(1,2)] assms(3)
    by (auto simp: keeps_class_def reliable_def consumer_ok_def broker_open_def)
  then show ?thesis using steps_log[OF assms(4) reachable_inv[OF assms(1)] assms(2)] by (auto simp: event_log_def)
qed

text \<open>
  C29. The terminal event is the last one. Publishing the terminal event never panics for want of its
  reserved slot, whatever the broker has been through; once it has been published it is the last
  event of the stream and no later call, waiting producer, close or pump step adds, removes or
  reorders anything.
\<close>

theorem terminal_is_last:
  assumes "broker_reachable s"
  shows "publishTerminal env now (sys_broker s) ev source \<noteq> Panic
    \<and> (publishTerminal env now (sys_broker s) (Some e) source = Return (Returned True, b')
        \<and> broker_step\<^sup>*\<^sup>* (s\<lparr>sys_broker := b', sys_taken := sys_taken s @ [Event_body e]\<rparr>) s'
       \<longrightarrow> stream (sys_broker s') = stream b' \<and> stream b' \<noteq> [] \<and> Event_body (last (stream b')) = Event_body e)"
proof -
  have inv: "sys_inv s" using reachable_inv[OF assms] .
  have no_panic: "publishTerminal env now (sys_broker s) ev source \<noteq> Panic"
  proof (cases "b_spool (sys_broker s)")
    case True
    then show ?thesis by (cases ev) (auto simp: publishTerminal_def Let_def split: prod.splits)
  next
    case False
    then show ?thesis using terminal_direct[of "sys_broker s" env now ev source] inv by (auto simp: sys_inv_def)
  qed
  have "stream (sys_broker s') = stream b' \<and> stream b' \<noteq> [] \<and> Event_body (last (stream b')) = Event_body e"
    if t: "publishTerminal env now (sys_broker s) (Some e) source = Return (Returned True, b')"
      and st: "broker_step\<^sup>*\<^sup>* (s\<lparr>sys_broker := b', sys_taken := sys_taken s @ [Event_body e]\<rparr>) s'"
  proof -
    have "sys_inv (s\<lparr>sys_broker := b', sys_taken := sys_taken s @ [Event_body e]\<rparr>)"
      using terminal_step_inv[OF inv t] by simp
    moreover have "(\<exists>front e'. stream b' = front @ [e'] \<and> Event_body e' = Event_body e) \<and> \<not> broker_open b'"
      using terminal_appends[OF t] inv by (auto simp: sys_inv_def)
    ultimately show ?thesis using steps_sealed[OF st] by auto
  qed
  then show ?thesis using no_panic by blast
qed

subsection \<open>Draining\<close>

text \<open>How much the pump and the reader still have to do before the reader sees the end of the channel.\<close>

definition drained :: "eventBroker \<Rightarrow> bool" where
  "drained b \<longleftrightarrow> b_eventsClosed b \<and> b_events b = [] \<and> b_received b = stream b"

fun pump_weight :: "pump_pc \<Rightarrow> nat" where
  "pump_weight PumpOff = 0"
| "pump_weight PumpCheck = 2"
| "pump_weight PumpWait = 3"
| "pump_weight (PumpSend ev) = 1"
| "pump_weight PumpPop = 3"
| "pump_weight PumpExit = 0"

definition drain_work :: "eventBroker \<Rightarrow> nat" where
  "drain_work b = 5 * length (pending_queue b) + length (b_events b) + pump_weight (b_pump b)"

text \<open>A step of the pump, then the reader takes what is there.\<close>

definition drain_round :: "eventBroker \<Rightarrow> eventBroker" where
  "drain_round b = broker_receive (pump_step b)"

lemma pump_work: "\<lbrakk>pump_ok b; b_closed b; pump_step b \<noteq> b\<rbrakk> \<Longrightarrow> drain_work (pump_step b) < drain_work b"
  by (cases "b_pump b") (auto simp: pump_step_def drain_work_def pending_queue_def pump_ok_def neq_Nil_conv
      split: list.splits if_splits)

lemma receive_work: "b_events b \<noteq> [] \<Longrightarrow> drain_work (broker_receive b) < drain_work b"
  by (simp add: broker_receive_def take_events_def drain_work_def pending_queue_def)

lemma receive_idle: "b_events b = [] \<Longrightarrow> broker_receive b = b"
  by (simp add: broker_receive_def take_events_def)

text \<open>Nobody is stuck: unless everything is delivered, the pump or the reader can move.\<close>

lemma drain_enabled:
  assumes "pump_ok b" "b_closed b" "b_spool b" "\<not> drained b"
  shows "pump_step b \<noteq> b \<or> b_events b \<noteq> []"
proof (rule ccontr)
  assume "\<not> ?thesis"
  then have idle: "pump_step b = b" "b_events b = []" by auto
  have "b_pump b = PumpOff \<or> b_pump b = PumpExit"
  proof (cases "b_pump b")
    case PumpCheck
    then show ?thesis using arg_cong[OF idle(1), of b_pump] by (auto simp: pump_step_def assms(2) split: list.splits)
  next
    case PumpWait
    then show ?thesis using arg_cong[OF idle(1), of b_pump] assms(1,2) by (auto simp: pump_step_def pump_ok_def)
  next
    case (PumpSend ev)
    have "\<not> b_eventsClosed b" using assms(1) PumpSend by (auto simp: pump_ok_def)
    then show ?thesis using arg_cong[OF idle(1), of b_pump] assms(1) PumpSend idle(2) by (auto simp: pump_step_def pump_ok_def)
  next
    case PumpPop
    then show ?thesis using arg_cong[OF idle(1), of b_pump] by (auto simp: pump_step_def)
  qed auto
  then have "b_eventsClosed b" using assms(1-3) by (auto simp: pump_ok_def)
  then show False using assms(1,4) idle(2) by (auto simp: drained_def stream_def pending_queue_def pump_ok_def)
qed

lemma drain_round_work:
  assumes "pump_ok b" "b_closed b" "b_spool b" "\<not> drained b"
  shows "drain_work (drain_round b) < drain_work b"
proof (cases "pump_step b = b")
  case True
  then show ?thesis using drain_enabled[OF assms] receive_work by (auto simp: drain_round_def)
next
  case False
  have "drain_work (broker_receive (pump_step b)) \<le> drain_work (pump_step b)"
    using receive_work receive_idle by (cases "b_events (pump_step b) = []") (auto intro: less_imp_le)
  then show ?thesis using pump_work[OF assms(1,2) False] by (simp add: drain_round_def)
qed

lemma drained_stays: "\<lbrakk>drained b; pump_ok b\<rbrakk> \<Longrightarrow> drained (drain_round b)"
  by (cases "b_pump b") (auto simp: drained_def drain_round_def broker_receive_def take_events_def pump_step_def stream_def
      pending_queue_def pump_ok_def)

lemma drain_rounds:
  assumes "pump_ok b" "b_closed b" "b_spool b" "drain_work b \<le> n"
  shows "drained ((drain_round ^^ n) b) \<and> stream ((drain_round ^^ n) b) = stream b"
  using assms
proof (induction n arbitrary: b)
  case 0
  then show ?case using drain_round_work[of b] by auto
next
  case (Suc n)
  have r: "pump_ok (drain_round b)" "b_closed (drain_round b)" "b_spool (drain_round b)" "stream (drain_round b) = stream b"
    using Suc.prems by (auto simp: drain_round_def pump_pump_ok)
  have work: "drained b \<or> drain_work (drain_round b) \<le> n" using drain_round_work[of b] Suc.prems by fastforce
  have idle: "drained ((drain_round ^^ k) b) \<and> stream ((drain_round ^^ k) b) = stream b \<and> pump_ok ((drain_round ^^ k) b)"
    if "drained b" for k
    by (induction k) (use that Suc.prems(1) drained_stays pump_pump_ok in \<open>auto simp: drain_round_def\<close>)
  show ?case
  proof (cases "drained b")
    case True
    then show ?thesis using idle[of "Suc n"] by blast
  next
    case False
    then show ?thesis using work Suc.IH[OF r(1-3)] r(4) by (simp add: funpow_Suc_right del: funpow.simps(2))
  qed
qed

text \<open>
  C30. A closed stream ends and is complete. Once a spool is closed, in any reachable state, the pump
  or the reader can always make progress until everything is delivered: a pump that waits has a wake
  signal pending. At most five rounds of pump and reader per queued event and one per buffered event,
  plus three, later the reader has received the whole stream, and the channel is empty and closed.
\<close>

theorem closed_stream_drains:
  assumes "broker_reachable s" "b_spool (sys_broker s)" "b_closed (sys_broker s)"
    "5 * length (b_queue (sys_broker s)) + length (b_events (sys_broker s)) + 3 \<le> n"
  shows "b_received ((drain_round ^^ n) (sys_broker s)) = stream (sys_broker s)
    \<and> b_events ((drain_round ^^ n) (sys_broker s)) = [] \<and> b_eventsClosed ((drain_round ^^ n) (sys_broker s))
    \<and> (b_pump (sys_broker s) = PumpWait \<longrightarrow> b_wake (sys_broker s))"
proof -
  have ok: "pump_ok (sys_broker s)" using reachable_inv[OF assms(1)] by (simp add: sys_inv_def broker_inv_def)
  have "length (pending_queue (sys_broker s)) \<le> length (b_queue (sys_broker s))" by (simp add: pending_queue_def)
  moreover have "pump_weight (b_pump (sys_broker s)) \<le> 3" by (cases "b_pump (sys_broker s)") auto
  ultimately have "drain_work (sys_broker s) \<le> n" using assms(4) unfolding drain_work_def by linarith
  from drain_rounds[OF ok assms(3,2) this] show ?thesis
    using ok assms(3) by (auto simp: drained_def pump_ok_def)
qed

end
