(* ===== verification/LossAccounting.thy ===== *)
theory LossAccounting
  imports BrokerSystem
begin

text \<open>
  Every event a broker takes in is either in its stream or counted as lost: in a loss summary of the
  stream or in the aggregate the next summary will report. The argument is made once, for any way of
  weighing events and aggregates that agrees with how the broker records, merges and reports losses,
  and used for the total count and for the count of each kind.
\<close>

subsection \<open>Well-formed aggregates\<close>

text \<open>
  An aggregate that counts nothing is empty; one that counts something has a range of sequence
  numbers that were issued.
\<close>

definition drop_ok :: "nat \<Rightarrow> dropAggregate \<Rightarrow> bool" where
  "drop_ok seq d \<longleftrightarrow> 0 \<le> drop_count d \<and> (drop_count d = 0 \<longrightarrow> drop_byKind d = Map.empty \<and> drop_last d = 0)
     \<and> (0 < drop_count d \<longrightarrow> drop_first d \<le> drop_last d \<and> drop_last d \<le> seq)"

lemma drop_ok_none [simp]: "drop_ok seq no_drops"
  by (simp add: drop_ok_def no_drops_def)

lemma drop_ok_unobserved [simp]: "drop_ok seq (d\<lparr>drop_unobserved := u\<rparr>) = drop_ok seq d"
  by (simp add: drop_ok_def)

lemma recordDrop_ok:
  "\<lbrakk>drop_ok seq (b_dropped b); event_seq ev \<le> seq'; seq \<le> seq'\<rbrakk> \<Longrightarrow> drop_ok seq' (b_dropped (recordDropLocked b ev))"
  by (auto simp: recordDropLocked_def drop_ok_def event_seq_def Let_def)

lemma mergeDrops_ok:
  "\<lbrakk>drop_ok seq (b_dropped b); 0 < n; f \<le> l; l \<le> seq\<rbrakk> \<Longrightarrow> drop_ok seq (b_dropped (mergeDropsLocked b n ks f l u))"
  by (auto simp: mergeDropsLocked_def drop_ok_def Let_def)

lemma drop_summary_ok:
  "drop_ok (max N (b_sequence b)) (b_dropped b) \<Longrightarrow> drop_ok (max N (Suc (b_sequence b))) (drop_summary now b ev source)"
  by (simp add: drop_summary_def drop_ordinary_def stampNextLocked_eq Let_def recordDrop_ok[of "max N (b_sequence b)"])

lemma drop_ok_mono: "\<lbrakk>drop_ok seq d; seq \<le> seq'\<rbrakk> \<Longrightarrow> drop_ok seq' d"
  by (auto simp: drop_ok_def)

text \<open>
  The loss summaries of a stream, whose sequence numbers are bounded: those the broker put there itself by the numbers it
  has issued, those it took in from another broker by some bound \<open>N\<close>.
\<close>

definition summary_ok :: "nat \<Rightarrow> event_body \<Rightarrow> bool" where
  "summary_ok seq body = (case body of
     EvDropped d \<Rightarrow> Dropped_Source d = sdk_source \<longrightarrow> 0 < Dropped_Count d
       \<and> Dropped_FirstSequence d \<le> Dropped_LastSequence d \<and> Dropped_LastSequence d \<le> seq
   | _ \<Rightarrow> True)"

definition loss_ok :: "nat \<Rightarrow> eventBroker \<Rightarrow> bool" where
  "loss_ok N b \<longleftrightarrow> drop_ok (max N (b_sequence b)) (b_dropped b) \<and> (\<forall>ev \<in> set (stream b). summary_ok (max N (b_sequence b)) (Event_body ev))"

lemma summary_ok_mono: "\<lbrakk>summary_ok seq body; seq \<le> seq'\<rbrakk> \<Longrightarrow> summary_ok seq' body"
  by (auto simp: summary_ok_def split: event_body.splits)

lemma summary_ok_plain: "\<not> is_sdk_marker body \<Longrightarrow> summary_ok seq body"
  by (auto simp: summary_ok_def is_sdk_marker_def split: event_body.splits)

lemma loss_append:
  assumes "loss_ok N b" "stream b' = stream b @ evs" "b_sequence b \<le> b_sequence b'" "drop_ok (max N (b_sequence b')) (b_dropped b')"
    "\<forall>ev \<in> set evs. summary_ok (max N (b_sequence b')) (Event_body ev)"
  shows "loss_ok N b'"
  using assms summary_ok_mono[of "max N (b_sequence b)" _ "max N (b_sequence b')"] by (auto simp: loss_ok_def)

lemma marker_critical: "is_sdk_marker body \<Longrightarrow> eventCritical body"
  by (auto simp: is_sdk_marker_def split: event_body.splits)

lemma step_taken: "broker_step s s' \<Longrightarrow> set (sys_taken s) \<subseteq> set (sys_taken s')"
  by (induction rule: broker_step.induct) auto

subsection \<open>A weight of events that losses preserve\<close>

definition accounted :: "(event_body \<Rightarrow> int) \<Rightarrow> (dropAggregate \<Rightarrow> int) \<Rightarrow> eventBroker \<Rightarrow> int" where
  "accounted weight tally b = sum_list (map (weight \<circ> Event_body) (stream b)) + tally (b_dropped b)"

definition charges ::
  "nat \<Rightarrow> (event_body \<Rightarrow> int) \<Rightarrow> (dropAggregate \<Rightarrow> int) \<Rightarrow> eventBroker \<Rightarrow> event_body list \<Rightarrow> eventBroker \<Rightarrow> bool" where
  "charges N weight tally b bodies b' \<longleftrightarrow>
     loss_ok N b' \<and> accounted weight tally b' = accounted weight tally b + sum_list (map weight bodies)"

locale loss_account =
  fixes N :: nat
    and weight :: "event_body \<Rightarrow> int"
    and tally :: "dropAggregate \<Rightarrow> int"
  assumes tally_none: "tally no_drops = 0"
    and tally_unobserved: "tally (d\<lparr>drop_unobserved := u\<rparr>) = tally d"
    and tally_record: "\<lbrakk>drop_ok seq (b_dropped b); \<not> is_sdk_marker (Event_body ev)\<rbrakk>
      \<Longrightarrow> tally (b_dropped (recordDropLocked b ev)) = tally (b_dropped b) + weight (Event_body ev)"
    and tally_merge: "\<lbrakk>drop_ok seq (b_dropped b); Dropped_Source r = sdk_source; 0 < Dropped_Count r\<rbrakk>
      \<Longrightarrow> tally (b_dropped (mergeDropsLocked b (Dropped_Count r) (Dropped_ByKind r) (Dropped_FirstSequence r) (Dropped_LastSequence r) u))
          = tally (b_dropped b) + weight (EvDropped r)"
    and weight_marker: "weight (drop_marker d reason strategy cap) = tally d"
begin

abbreviation account :: "eventBroker \<Rightarrow> int" where
  "account \<equiv> accounted weight tally"

lemmas account_def = accounted_def[of weight tally]

lemma account_marker:
  assumes "pump_ok b"
  shows "account (publish_marker now b) = account b"
proof (cases "0 < drop_count (b_dropped b)")
  case True
  have "weight (Event_body (pending_marker now b)) = tally (b_dropped b)"
    by (simp add: pending_marker_def new_event_def weight_marker)
  then show ?thesis using True assms tally_none by (simp add: account_def publish_marker_eq enqueue_stream)
qed (simp add: publish_marker_eq)

lemma tally_drop_summary:
  assumes "drop_ok seq (b_dropped b)" "\<not> is_sdk_marker (Event_body ev)"
  shows "tally (drop_summary now b ev source) = tally (b_dropped b) + weight (Event_body ev)"
proof -
  have "tally (b_dropped (recordDropLocked (b\<lparr>b_sequence := Suc (b_sequence b)\<rparr>) (stamped now b ev source)))
      = tally (b_dropped b) + weight (Event_body ev)"
    using tally_record[of seq "b\<lparr>b_sequence := Suc (b_sequence b)\<rparr>" "stamped now b ev source"] assms by simp
  then show ?thesis by (simp add: drop_summary_def drop_ordinary_def stampNextLocked_eq Let_def tally_unobserved)
qed

lemma account_drop_ordinary:
  "\<lbrakk>drop_ok seq (b_dropped b); \<not> is_sdk_marker (Event_body ev)\<rbrakk>
   \<Longrightarrow> account (drop_ordinary now b ev source) = account b + weight (Event_body ev)"
  by (simp add: account_def drop_ordinary_eq tally_drop_summary)

lemma tally_prune_loop:
  assumes "drop_ok seq (b_dropped b)" "\<forall>ev \<in> set evs. summary_ok seq (Event_body ev) \<and> event_seq ev \<le> seq"
  shows "drop_ok seq (b_dropped (prune_loop keep kept b evs))
    \<and> sum_list (map (weight \<circ> Event_body) (retained keep (b_normalCapacity b) kept evs)) + tally (b_dropped (prune_loop keep kept b evs))
      = sum_list (map (weight \<circ> Event_body) evs) + tally (b_dropped b)"
  using assms
proof (induction evs arbitrary: kept b)
  case Nil
  then show ?case by (simp add: prune_loop_simps)
next
  case (Cons ev evs)
  show ?case
  proof (cases "is_sdk_marker (Event_body ev)")
    case True
    then obtain d where d: "Event_body ev = EvDropped d" "Dropped_Source d = sdk_source" by (elim sdk_markerE)
    let ?m = "mergeDropsLocked b (Dropped_Count d) (Dropped_ByKind d) (Dropped_FirstSequence d) (Dropped_LastSequence d) True"
    have ok: "0 < Dropped_Count d" "Dropped_FirstSequence d \<le> Dropped_LastSequence d" "Dropped_LastSequence d \<le> seq"
      using Cons.prems(2) d by (auto simp: summary_ok_def)
    have "drop_ok seq (b_dropped ?m)" using mergeDrops_ok[OF Cons.prems(1) ok] .
    moreover have "b_normalCapacity ?m = b_normalCapacity b" by (subst mergeDrops_eq) simp
    ultimately show ?thesis using Cons.IH[of ?m kept] Cons.prems True tally_merge[OF Cons.prems(1) d(2) ok(1), of True]
      by (simp add: prune_loop_simps prune_event_merge[OF d] d)
  next
    case False
    let ?r = "b\<lparr>b_dropped := (b_dropped (recordDropLocked b ev))\<lparr>drop_unobserved := True\<rparr>\<rparr>"
    have "drop_ok seq (b_dropped ?r)" using recordDrop_ok[OF Cons.prems(1), of ev seq] Cons.prems(2) by simp
    then show ?thesis
      using False Cons.prems Cons.IH[of "b\<lparr>b_queue := b_queue b @ [ev]\<rparr>" kept] Cons.IH[of "b\<lparr>b_queue := b_queue b @ [ev]\<rparr>" "Suc kept"]
        Cons.IH[of ?r kept] tally_record[OF Cons.prems(1) False]
      by (auto simp: prune_loop_simps prune_event_other tally_unobserved)
  qed
qed

abbreviation charged :: "eventBroker \<Rightarrow> event_body list \<Rightarrow> eventBroker \<Rightarrow> bool" where
  "charged \<equiv> charges N weight tally"

lemmas charged_iff = charges_def[of N weight tally]

text \<open>What every operation on a spool does to the account.\<close>

lemma charged_append:
  assumes "loss_ok N b" "stream b' = stream b @ [ev]" "b_sequence b' = Suc (b_sequence b)" "b_dropped b' = b_dropped b"
    "summary_ok N (Event_body ev)"
  shows "charged b [Event_body ev] b'"
  using assms loss_append[OF assms(1,2)] summary_ok_mono[OF assms(5), of "max N (b_sequence b')"]
    drop_ok_mono[of "max N (b_sequence b)" _ "max N (b_sequence b')"]
  by (simp add: charged_iff account_def loss_ok_def)

lemma charged_marker:
  assumes "loss_ok N b" "pump_ok b"
  shows "charged b [] (publish_marker now b)"
proof (cases "0 < drop_count (b_dropped b)")
  case True
  have "summary_ok (max N (Suc (b_sequence b))) (Event_body (pending_marker now b))"
    using assms(1) True by (auto simp: pending_marker_def new_event_def drop_marker_def summary_ok_def loss_ok_def drop_ok_def)
  then have "loss_ok N (publish_marker now b)"
    using True assms by (intro loss_append[OF assms(1), of _ "[pending_marker now b]"]) (auto simp: publish_marker_eq enqueue_stream)
  then show ?thesis by (simp add: charged_iff account_marker[OF assms(2)])
qed (use assms in \<open>simp add: charged_iff publish_marker_eq\<close>)

lemma charged_trans: "\<lbrakk>charged b xs b1; charged b1 ys b2\<rbrakk> \<Longrightarrow> charged b (xs @ ys) b2"
  by (simp add: charged_iff)

lemma charged_drop:
  assumes "loss_ok N b" "\<not> is_sdk_marker (Event_body ev)"
  shows "charged b [Event_body ev] (drop_ordinary now b ev source)"
  using assms account_drop_ordinary[of "max N (b_sequence b)" b ev now source] loss_append[OF assms(1), of "drop_ordinary now b ev source" "[]"]
  by (auto simp: charged_iff drop_ordinary_eq drop_summary_ok loss_ok_def)

lemma charged_prune:
  assumes "loss_ok N b" "broker_inv b" "\<not> b_subscribed b"
  shows "charged b [] (pruneUnobservedLocked keep b)"
proof -
  have off: "b_pump b = PumpOff" using assms unsubscribed_off by (auto simp: broker_inv_def)
  let ?evs = "b_events b @ b_queue b" and ?b0 = "b\<lparr>b_events := [], b_queue := []\<rparr>"
  have split: "stream b = b_received b @ ?evs" using off by (simp add: stream_def pending_queue_def)
  have evs: "\<forall>ev \<in> set ?evs. summary_ok (max N (b_sequence b)) (Event_body ev) \<and> event_seq ev \<le> max N (b_sequence b)"
    using assms(1,2) split by (auto simp: loss_ok_def broker_inv_def ordered_def le_max_iff_disj)
  have "b_dropped (prune_loop keep 0 ?b0 ?evs) = b_dropped (pruneUnobservedLocked keep b)"
    by (simp add: pruneUnobservedLocked_def prune_loop_def)
  with tally_prune_loop[of "max N (b_sequence b)" ?b0 ?evs keep 0] assms(1) evs
  have d: "drop_ok (max N (b_sequence b)) (b_dropped (pruneUnobservedLocked keep b))"
    "sum_list (map (weight \<circ> Event_body) (retained keep (b_normalCapacity b) 0 ?evs)) + tally (b_dropped (pruneUnobservedLocked keep b))
      = sum_list (map (weight \<circ> Event_body) ?evs) + tally (b_dropped b)"
    by (auto simp: loss_ok_def)
  have "set (retained keep (b_normalCapacity b) 0 ?evs) \<subseteq> set ?evs" using retained_subseq subseq_set by blast
  then have "loss_ok N (pruneUnobservedLocked keep b)"
    using d(1) assms(1) split off by (auto simp: loss_ok_def pruneUnobserved_stream)
  moreover have "account (pruneUnobservedLocked keep b) = account b"
    using d(2) split off by (simp add: account_def pruneUnobserved_stream)
  ultimately show ?thesis by (simp add: charged_iff)
qed

lemma charged_prepared:
  assumes "loss_ok N b" "broker_inv b" "b_spool b" "\<not> b_closed b"
  shows "charged b [] (publish_marker now (if b_subscribed b then b else pruneUnobservedLocked keep b))"
proof (cases "b_subscribed b")
  case True
  then show ?thesis using charged_marker assms by (simp add: broker_inv_def)
next
  case False
  have p: "charged b [] (pruneUnobservedLocked keep b)" using charged_prune[OF assms(1,2) False] .
  have "pump_ok (pruneUnobservedLocked keep b)" using pruneUnobserved_inv[OF assms(2) False assms(3,4)] by (simp add: broker_inv_def)
  then have "charged (pruneUnobservedLocked keep b) [] (publish_marker now (pruneUnobservedLocked keep b))"
    using charged_marker p by (simp add: charged_iff)
  then show ?thesis using charged_trans[OF p] False by simp
qed

lemma charged_publish_second:
  assumes "publish_second ctx now b ev source = (st, b')" "loss_ok N b" "pump_ok b" "summary_ok N (Event_body ev)"
  shows "charged b (taken_by st b ev) b'"
  using assms(1)
proof (cases rule: publish_second_cases)
  case dropped
  then show ?thesis using charged_drop[OF assms(2)] marker_critical by (auto simp: taken_by_def broker_open_def)
next
  case accepted
  then show ?thesis using charged_append[OF assms(2), of b' "stamped now b ev source"] assms(3,4)
    by (simp add: taken_by_def broker_open_def enqueue_stream)
qed (use assms(2) in \<open>auto simp: taken_by_def broker_open_def charged_iff\<close>)

lemma charged_publish_first:
  assumes "publish_first ctx now b ev source = (st, b')" "eventCritical (Event_body ev) \<longrightarrow> broker_open b"
    "loss_ok N b" "broker_inv b" "b_spool b" "summary_ok N (Event_body ev)"
  shows "charged b (taken_by st b ev) b'"
  using assms(1) assms(2)[unfolded broker_open_def]
proof (cases rule: publish_first_cases)
  case dropped
  then show ?thesis using charged_drop[OF assms(3)] marker_critical by (auto simp: taken_by_def broker_open_def)
next
  case second
  have ok: "pump_ok b" "pump_ok (publish_marker now b)"
    using assms(4,5) second publish_marker_pump_ok by (auto simp: broker_inv_def)
  have m: "charged b [] (publish_marker now b)" using charged_marker[OF assms(3) ok(1)] .
  then have "charged (publish_marker now b) (taken_by st (publish_marker now b) ev) b'"
    using charged_publish_second[OF second(1) _ ok(2) assms(6)] by (simp add: charged_iff)
  moreover have "taken_by st (publish_marker now b) ev = taken_by st b ev"
    by (cases st) (simp_all add: taken_by_def broker_open_def)
  ultimately show ?thesis using charged_trans[OF m] by simp
qed (use assms(3) in \<open>auto simp: taken_by_def broker_open_def charged_iff\<close>)

lemma charged_terminal:
  assumes "publishTerminal env now b (Some ev) source = Return (st, b')" "loss_ok N b" "broker_inv b" "b_spool b"
    "summary_ok N (Event_body ev)"
  shows "charged b (taken_by st b ev) b'"
proof (cases "broker_open b")
  case False
  then show ?thesis using assms(1,2) by (auto simp: publish_sealed taken_by_def charged_iff)
next
  case True
  let ?b = "publish_marker now (if b_subscribed b then b else pruneUnobservedLocked (\<not> b_discardOrdinary b) b)"
  have prep: "charged b [] ?b" using charged_prepared[OF assms(2-4)] True by (simp add: broker_open_def)
  have "pump_ok ?b" using prepared_inv[OF assms(3,4)] True by (simp add: broker_inv_def broker_open_def)
  then have "stream b' = stream ?b @ [stamped now ?b ev source]" "st = Returned True"
    "b_sequence b' = Suc (b_sequence ?b)" "b_dropped b' = b_dropped ?b"
    using assms(1,4) True enqueue_stream by (auto simp: publishTerminal_spool Let_def broker_open_def)
  then have "charged ?b [Event_body ev] b'"
    using charged_append[of ?b b' "stamped now ?b ev source"] prep assms(5) by (simp add: charged_iff)
  then show ?thesis using charged_trans[OF prep] True \<open>st = Returned True\<close> by (simp add: taken_by_def)
qed

lemma charged_close:
  assumes "broker_close env now b = (st, b')" "loss_ok N b" "broker_inv b" "b_spool b"
  shows "charged b [] b'"
proof (cases "b_closed b")
  case True
  then show ?thesis using assms(1,2) by (simp add: broker_close_def charged_iff)
next
  case False
  have "charged b [] (sealed now b)"
    using charged_prepared[OF assms(2-4) False] assms(2) by (simp add: sealed_def charged_iff)
  then show ?thesis using close_effect(1,3,4)[OF assms(1,3,4) False]
    by (simp add: charged_iff account_def loss_ok_def)
qed

lemma charged_await:
  assumes "loss_ok N b" "broker_inv b"
  shows "charged b [] (awaitResult b)"
proof (cases "\<not> b_spool b \<or> b_subscribed b \<or> b_closed b \<or> b_terminal b")
  case True
  then show ?thesis using assms(1) by (simp add: awaitResult_eq charged_iff account_def loss_ok_def)
next
  case False
  let ?b = "b\<lparr>b_consumer := True, b_discardOrdinary := True\<rparr>"
  have "loss_ok N ?b" "broker_inv ?b" using assms by (auto simp: loss_ok_def broker_inv_def ordered_def)
  then show ?thesis using charged_prune[of ?b False] False by (simp add: awaitResult_eq charged_iff account_def)
qed

text \<open>One step of the system, and all reachable states.\<close>

lemma step_charged:
  assumes "broker_step s s'" "sys_inv s" "b_spool (sys_broker s)" "loss_ok N (sys_broker s)"
    "\<forall>body \<in> set (sys_taken s'). summary_ok N body"
    "\<forall>w \<in> set (sys_waiting s). summary_ok N (Event_body (fst (snd w)))"
  shows "\<exists>new. sys_taken s' = sys_taken s @ new \<and> charged (sys_broker s) new (sys_broker s')"
  using assms
proof (induction rule: broker_step.induct)
  case (publish b s ctx env1 env2 now ev source st b')
  show ?case
  proof (cases "broker_open b \<and> (\<exists>r. st = Returned r)")
    case True
    then show ?thesis using publish charged_publish_first[of ctx now b ev source st b']
      by (auto simp: publishContext_spool sys_inv_def taken_by_def)
  next
    case False
    then have "taken_by st b ev = []" by (cases st) (auto simp: taken_by_def)
    moreover have "charged b [] b'"
    proof (cases "broker_open b")
      case True
      have "\<not> eventCritical (Event_body ev)"
        using critical_accepted[of b ev ctx env1 env2 now source] publish True False by auto
      then have "summary_ok N (Event_body ev)" using marker_critical summary_ok_plain by blast
      then show ?thesis using True publish charged_publish_first[of ctx now b ev source st b'] \<open>taken_by st b ev = []\<close>
        by (auto simp: publishContext_spool sys_inv_def)
    next
      case False
      then show ?thesis using publish by (auto simp: publish_sealed charged_iff)
    qed
    ultimately show ?thesis using publish by auto
  qed
next
  case (resume_first b s ws ev source ws' ctx now st b')
  then show ?case using charged_publish_first[of ctx now b ev source st b'] spool_waiters[of s WaitFirst ev source]
    by (auto simp: sys_inv_def)
next
  case (resume_second b s ws ev source ws' ctx now st b')
  then show ?case using charged_publish_second[of ctx now b ev source st b'] by (auto simp: sys_inv_def broker_inv_def)
next
  case (terminal b s env now ev source st b')
  have "charged b (taken_by st b ev) b'"
  proof (cases "broker_open b")
    case True
    then have "Event_body ev \<in> set (taken_by st b ev)"
      using terminal by (auto simp: publishTerminal_spool broker_open_def Let_def taken_by_def)
    then show ?thesis using charged_terminal[of env now b ev source st b'] terminal by (auto simp: sys_inv_def)
  next
    case False
    then show ?thesis using terminal by (auto simp: publish_sealed taken_by_def charged_iff)
  qed
  then show ?case using terminal by auto
next
  case (close env now s st b')
  then show ?case using charged_close[of env now "sys_broker s" st b'] by (auto simp: sys_inv_def)
next
  case (await s)
  then show ?case using charged_await by (auto simp: sys_inv_def)
next
  case (subscribe s)
  then show ?case by (auto simp: sys_inv_def broker_inv_def charged_iff account_def loss_ok_def)
next
  case (pump s)
  then show ?case by (auto simp: sys_inv_def broker_inv_def charged_iff account_def loss_ok_def)
next
  case (receive s)
  then show ?case by (auto simp: charged_iff account_def loss_ok_def)
qed (auto simp: charged_iff account_def loss_ok_def broker_abort_def markConsumer_def)

lemma reachable_account:
  assumes "broker_reachable s" "b_spool (sys_broker s)" "\<forall>body \<in> set (sys_taken s). summary_ok N body"
  shows "loss_ok N (sys_broker s) \<and> account (sys_broker s) = sum_list (map weight (sys_taken s))"
  using assms
proof (induction rule: broker_reachable.induct)
  case (start runID key buffer blocking b spool discard multiple)
  then have "b_dropped b = no_drops" "stream (sys_broker (broker_start b spool discard multiple)) = []"
    "sys_taken (broker_start b spool discard multiple) = []"
    by (auto simp: newEventBroker_def broker_start_def stream_def pending_queue_def Let_def split: if_splits)
  then show ?case by (simp add: account_def loss_ok_def tally_none) (simp add: broker_start_def tally_none)
next
  case (step s s')
  have inv: "sys_inv s" using step reachable_inv by blast
  have spool: "b_spool (sys_broker s)" using step_plain[OF step(2) inv] step by simp
  have waits: "\<forall>w \<in> set (sys_waiting s). summary_ok N (Event_body (fst (snd w)))"
    using inv marker_critical summary_ok_plain by (fastforce simp: sys_inv_def waiting_ok_def)
  have "\<forall>body \<in> set (sys_taken s). summary_ok N body" using step.prems(2) step_taken[OF step(2)] by auto
  then have ih: "loss_ok N (sys_broker s)" "account (sys_broker s) = sum_list (map weight (sys_taken s))"
    using step.IH spool by auto
  show ?case using step_charged[OF step(2) inv spool ih(1) step.prems(2) waits] ih(2) by (auto simp: charged_iff)
qed

end

subsection \<open>The two accounts\<close>

definition count_weight :: "event_body \<Rightarrow> int" where
  "count_weight body = (case body of EvDropped d \<Rightarrow> if Dropped_Source d = sdk_source then Dropped_Count d else 1 | _ \<Rightarrow> 1)"

definition kind_count :: "(string \<rightharpoonup> int) \<Rightarrow> string \<Rightarrow> int" where
  "kind_count m k = (case m k of None \<Rightarrow> 0 | Some n \<Rightarrow> n)"

definition kind_weight :: "string \<Rightarrow> event_body \<Rightarrow> int" where
  "kind_weight k body = (case body of
     EvDropped d \<Rightarrow> if Dropped_Source d = sdk_source then kind_count (Dropped_ByKind d) k else of_bool (k = ''dropped'')
   | _ \<Rightarrow> of_bool (eventKind body = k))"

definition kind_tally :: "string \<Rightarrow> dropAggregate \<Rightarrow> int" where
  "kind_tally k d = kind_count (drop_byKind d) k"

lemma plain_weights:
  assumes "\<not> is_sdk_marker body"
  shows "count_weight body = 1" "kind_weight k body = of_bool (eventKind body = k)"
  using assms by (auto simp: count_weight_def kind_weight_def is_sdk_marker_def split: event_body.splits)

interpretation total: loss_account N count_weight drop_count for N
proof
  fix b :: eventBroker and ev :: Event
  assume "\<not> is_sdk_marker (Event_body ev)"
  then show "drop_count (b_dropped (recordDropLocked b ev)) = drop_count (b_dropped b) + count_weight (Event_body ev)"
    by (simp add: plain_weights recordDropLocked_def Let_def)
qed (auto simp: no_drops_def mergeDropsLocked_def count_weight_def drop_marker_def Let_def)

interpretation by_kind: loss_account N "kind_weight k" "kind_tally k" for N k
proof
  fix b :: eventBroker and ev :: Event and seq
  assume "drop_ok seq (b_dropped b)" "\<not> is_sdk_marker (Event_body ev)"
  then show "kind_tally k (b_dropped (recordDropLocked b ev)) = kind_tally k (b_dropped b) + kind_weight k (Event_body ev)"
    by (auto simp: plain_weights recordDropLocked_def Let_def kind_tally_def kind_count_def drop_ok_def split: option.splits)
next
  fix b :: eventBroker and r :: Dropped and u seq
  assume "drop_ok seq (b_dropped b)" "Dropped_Source r = sdk_source" "0 < Dropped_Count r"
  then show "kind_tally k (b_dropped (mergeDropsLocked b (Dropped_Count r) (Dropped_ByKind r) (Dropped_FirstSequence r)
        (Dropped_LastSequence r) u)) = kind_tally k (b_dropped b) + kind_weight k (EvDropped r)"
    by (auto simp: mergeDropsLocked_def Let_def kind_tally_def kind_count_def kind_weight_def add_kinds_def drop_ok_def
        split: option.splits)
qed (auto simp: no_drops_def kind_tally_def kind_weight_def kind_count_def drop_marker_def Let_def)

subsection \<open>The last summary\<close>

lemma marker_flushes: "\<not> 0 < drop_count (b_dropped (publish_marker now b))"
  by (simp add: publish_marker_eq no_drops_def)

definition flushed :: "eventBroker \<Rightarrow> bool" where
  "flushed b \<longleftrightarrow> broker_open b \<or> \<not> 0 < drop_count (b_dropped b)"

lemma open_cong: "\<lbrakk>b_closed b' = b_closed b; b_terminal b' = b_terminal b; b_dropped b' = b_dropped b\<rbrakk> \<Longrightarrow> flushed b' = flushed b"
  by (simp add: flushed_def broker_open_def)

lemma first_open:
  assumes "publish_first ctx now b ev source = (st, b')" "eventCritical (Event_body ev) \<longrightarrow> broker_open b" "flushed b"
  shows "flushed b'"
proof (cases "broker_open b")
  case True
  then show ?thesis using publish_first_fields(2,3)[OF assms(1,2)] by (simp add: flushed_def broker_open_def)
next
  case False
  then show ?thesis using publish_sealed(2)[OF False] assms by auto
qed

lemma second_open:
  assumes "publish_second ctx now b ev source = (st, b')" "\<not> eventCritical (Event_body ev)" "flushed b"
  shows "flushed b'"
proof (cases "broker_open b")
  case True
  then show ?thesis using publish_second_fields(2,3)[OF assms(1)] by (simp add: flushed_def broker_open_def)
next
  case False
  then show ?thesis using publish_sealed(3)[OF False] assms by auto
qed

lemma terminal_flushes:
  assumes "publishTerminal env now b (Some ev) source = Return (st, b')" "b_spool b" "flushed b"
  shows "flushed b'"
proof (cases "broker_open b")
  case True
  then show ?thesis using assms(1,2) marker_flushes
    by (auto simp: publishTerminal_spool broker_open_def Let_def flushed_def)
next
  case False
  then show ?thesis using assms publish_sealed(4)[OF False] by auto
qed

lemma close_flushes:
  assumes "broker_close env now b = (st, b')" "broker_inv b" "b_spool b" "flushed b"
  shows "flushed b'"
proof (cases "b_closed b")
  case True
  then show ?thesis using assms by (simp add: broker_close_def)
next
  case False
  have "\<not> 0 < drop_count (b_dropped (sealed now b))"
    using assms(4) marker_flushes False by (auto simp: sealed_def flushed_def broker_open_def)
  then show ?thesis using close_effect(4)[OF assms(1-3) False] by (simp add: flushed_def)
qed

lemma step_flushed:
  assumes "broker_step s s'" "sys_inv s" "b_spool (sys_broker s)" "flushed (sys_broker s)"
  shows "flushed (sys_broker s')"
  using assms
proof (induction rule: broker_step.induct)
  case (publish b s ctx env1 env2 now ev source st b')
  then show ?case using first_open[of ctx now b ev source st b'] by (auto simp: publishContext_spool split: if_splits)
next
  case (resume_first b s ws ev source ws' ctx now st b')
  then show ?case using first_open[of ctx now b ev source st b'] spool_waiters[of s WaitFirst ev source] by (auto simp: sys_inv_def)
next
  case (resume_second b s ws ev source ws' ctx now st b')
  then show ?case using second_open[of ctx now b ev source st b'] spool_waiters[of s WaitSecond ev source] by (auto simp: sys_inv_def)
next
  case (terminal b s env now ev source st b')
  then show ?case using terminal_flushes by auto
next
  case (close env now s st b')
  then show ?case using close_flushes by (auto simp: sys_inv_def)
next
  case (await s)
  then show ?case by (auto simp: awaitResult_eq flushed_def broker_open_def)
qed (auto simp: flushed_def broker_open_def broker_abort_def markConsumer_def)

lemma reachable_flushed: "\<lbrakk>broker_reachable s; b_spool (sys_broker s)\<rbrakk> \<Longrightarrow> flushed (sys_broker s)"
proof (induction rule: broker_reachable.induct)
  case (start runID key buffer blocking b spool discard multiple)
  then show ?case by (auto simp: flushed_def broker_open_def newEventBroker_def broker_start_def Let_def split: if_splits)
next
  case (step s s')
  then show ?case using step_flushed step_plain reachable_inv by metis
qed

text \<open>
  C28. No event disappears without an account. Let a spool take in events among which every loss summary of the SDK
  (a standby's broker takes in those of its executions' brokers) counts at least one event and names a range of
  sequence numbers, at most \<open>N\<close>, as the SDK's own summaries do. Weigh an event as one and an SDK summary as the events it
  counts. In every reachable state the weight of what was taken in is the weight of the stream plus the losses still to be
  reported; the same holds for each kind of event. Every summary of the stream counts at least one event and names
  a range of sequence numbers that were issued here or are at most \<open>N\<close>. And once the stream is sealed nothing is left to
  report: every loss is in a summary of the stream, which comes before the terminal event.
\<close>

theorem no_unaccounted_loss:
  assumes "broker_reachable s" "b_spool (sys_broker s)" "\<forall>body \<in> set (sys_taken s). summary_ok N body"
  shows "sum_list (map count_weight (sys_taken s))
      = sum_list (map (count_weight \<circ> Event_body) (stream (sys_broker s))) + drop_count (b_dropped (sys_broker s))
    \<and> sum_list (map (kind_weight k) (sys_taken s))
      = sum_list (map (kind_weight k \<circ> Event_body) (stream (sys_broker s))) + kind_tally k (b_dropped (sys_broker s))
    \<and> (\<forall>ev \<in> set (stream (sys_broker s)). summary_ok (max N (b_sequence (sys_broker s))) (Event_body ev))
    \<and> (\<not> broker_open (sys_broker s) \<longrightarrow> drop_count (b_dropped (sys_broker s)) = 0 \<and> kind_tally k (b_dropped (sys_broker s)) = 0)"
proof -
  have ok: "loss_ok N (sys_broker s)" using total.reachable_account[OF assms] by blast
  moreover have "\<not> broker_open (sys_broker s) \<longrightarrow> drop_count (b_dropped (sys_broker s)) = 0"
    using reachable_flushed[OF assms(1,2)] ok by (auto simp: flushed_def loss_ok_def drop_ok_def)
  ultimately show ?thesis
    using total.reachable_account[OF assms] by_kind.reachable_account[OF assms, of k]
    by (auto simp: accounted_def loss_ok_def drop_ok_def kind_tally_def kind_count_def)
qed

text \<open>Without such summaries the weights of what was taken in are numbers of events.\<close>

lemma plain_taken:
  assumes "\<forall>body \<in> set bodies. \<not> is_sdk_marker body"
  shows "sum_list (map count_weight bodies) = int (length bodies)"
    "sum_list (map (kind_weight k) bodies) = int (length (filter (\<lambda>body. eventKind body = k) bodies))"
    "\<forall>body \<in> set bodies. summary_ok 0 body"
  using assms by (induction bodies) (auto simp: plain_weights summary_ok_plain)

end
