(* ===== verification/BrokerBounds.thy ===== *)
theory BrokerBounds
  imports LossAccounting
begin

text \<open>
  The backlog of content deltas a slow reader can cause, and a sample run of a broker on which the
  properties of the broker are instantiated.
\<close>

subsection \<open>The backlog of deltas\<close>

definition backlog :: "eventBroker \<Rightarrow> Event list" where
  "backlog b = b_events b @ pending_queue b"

definition deltas :: "Event list \<Rightarrow> nat" where
  "deltas evs = length (filter (\<lambda>ev. eventMayDrop (Event_body ev)) evs)"

definition bounded :: "eventBroker \<Rightarrow> bool" where
  "bounded b \<longleftrightarrow> deltas (backlog b) \<le> b_normalCapacity b + of_bool (b_terminal b)"

lemma deltas_simps [simp]:
  "deltas [] = 0" "deltas (xs @ ys) = deltas xs + deltas ys"
  "deltas [ev] = of_bool (eventMayDrop (Event_body ev))"
  by (simp_all add: deltas_def)

lemma stream_backlog: "stream b = b_received b @ backlog b"
  by (simp add: stream_def backlog_def)

lemma backlog_grows:
  "\<lbrakk>stream b' = stream b @ evs; b_received b' = b_received b\<rbrakk> \<Longrightarrow> backlog b' = backlog b @ evs"
  by (simp add: stream_backlog)

lemma deltas_occupancy: "deltas (backlog b) \<le> length (b_events b) + length (b_queue b)"
proof -
  have "deltas (backlog b) \<le> length (backlog b)" by (simp add: deltas_def)
  also have "\<dots> \<le> length (b_events b) + length (b_queue b)" by (simp add: backlog_def pending_queue_def)
  finally show ?thesis .
qed

lemma deltas_subseq: "subseq xs ys \<Longrightarrow> deltas xs \<le> deltas ys"
  unfolding deltas_def using list_emb_length[OF subseq_filter] by blast

text \<open>An event that may be dropped is accepted only when there is room for it.\<close>

lemma accepted_room:
  assumes "eventCritical (Event_body ev) \<or> \<not> (b_blocking b \<and> must_wait ctx b) \<and> \<not> drop_now ctx b ev"
    "broker_open b" "eventMayDrop (Event_body ev)"
  shows "length (b_events b) + length (b_queue b) < b_normalCapacity b"
  using assms mayDrop_not_critical[OF assms(3)] by (auto simp: must_wait_def drop_now_def broker_open_def)

lemma bounded_same:
  "\<lbrakk>bounded b; stream b' = stream b; b_received b' = b_received b; b_normalCapacity b' = b_normalCapacity b;
    b_terminal b' = b_terminal b\<rbrakk> \<Longrightarrow> bounded b'"
  using backlog_grows[of b' b "[]"] by (simp add: bounded_def)

lemma marker_bounded: "\<lbrakk>bounded b; pump_ok b\<rbrakk> \<Longrightarrow> bounded (publish_marker now b)"
  using backlog_grows[OF publish_marker_stream[of b now]] mayDrop_not_critical[of "Event_body (pending_marker now b)"]
  by (auto simp: bounded_def)

lemma second_bounded:
  assumes "publish_second ctx now b ev source = (st, b')" "bounded b" "pump_ok b"
  shows "bounded b'"
  using assms(1)
proof (cases rule: publish_second_cases)
  case dropped
  then show ?thesis using assms(2) bounded_same[of b b'] by (simp add: drop_ordinary_eq)
next
  case accepted
  have "backlog b' = backlog b @ [stamped now b ev source]"
    using accepted assms(3) by (intro backlog_grows) (simp_all add: enqueue_stream)
  then show ?thesis
    using accepted assms(2) accepted_room[of ev b ctx] deltas_occupancy[of b]
    by (cases "eventMayDrop (Event_body ev)") (auto simp: bounded_def broker_open_def)
qed (use assms(2) in auto)

lemma first_bounded:
  assumes "publish_first ctx now b ev source = (st, b')" "eventCritical (Event_body ev) \<longrightarrow> broker_open b"
    "bounded b" "broker_inv b" "b_spool b"
  shows "bounded b'"
  using assms(1) assms(2)[unfolded broker_open_def]
proof (cases rule: publish_first_cases)
  case dropped
  then show ?thesis using assms(3) bounded_same[of b b'] by (simp add: drop_ordinary_eq)
next
  case second
  then show ?thesis
    using second_bounded[OF second(1)] marker_bounded[OF assms(3)] publish_marker_pump_ok assms(4,5) by (auto simp: broker_inv_def)
qed (use assms(3) in auto)

lemma prune_bounded:
  assumes "bounded b" "pump_ok b" "\<not> b_subscribed b"
  shows "bounded (pruneUnobservedLocked keep b)"
proof -
  have off: "b_pump b = PumpOff" using unsubscribed_off assms by blast
  have "backlog (pruneUnobservedLocked keep b) = retained keep (b_normalCapacity b) 0 (backlog b)"
    using off by (simp add: backlog_def pending_queue_def)
  then show ?thesis using deltas_subseq[OF retained_subseq[of keep "b_normalCapacity b" 0 "backlog b"]] assms(1)
    by (simp add: bounded_def)
qed

lemma prepared_bounded:
  assumes "bounded b" "broker_inv b" "b_spool b" "\<not> b_closed b"
  shows "bounded (publish_marker now (if b_subscribed b then b else pruneUnobservedLocked keep b))"
  using assms prune_bounded[of b keep] marker_bounded pruneUnobserved_inv[of b keep] by (auto simp: broker_inv_def)

lemma terminal_bounded:
  assumes "publishTerminal env now b (Some ev) source = Return (st, b')" "bounded b" "broker_inv b" "b_spool b"
  shows "bounded b'"
proof (cases "broker_open b")
  case False
  then show ?thesis using assms(1,2) by (auto simp: publish_sealed)
next
  case True
  let ?b = "publish_marker now (if b_subscribed b then b else pruneUnobservedLocked (\<not> b_discardOrdinary b) b)"
  have ok: "pump_ok ?b" "bounded ?b" using prepared_inv[OF assms(3,4)] prepared_bounded[OF assms(2-4)] True
    by (auto simp: broker_inv_def broker_open_def)
  have "stream b' = stream ?b @ [stamped now ?b ev source]" "b_received b' = b_received ?b"
    "b_normalCapacity b' = b_normalCapacity ?b" "b_terminal b'" "\<not> b_terminal ?b"
    using assms(1,4) True enqueue_stream ok(1) by (auto simp: publishTerminal_spool Let_def broker_open_def)
  then show ?thesis using ok(2) backlog_grows[of b' ?b] by (auto simp: bounded_def split: if_splits)
qed

lemma close_bounded:
  assumes "broker_close env now b = (st, b')" "bounded b" "broker_inv b" "b_spool b"
  shows "bounded b'"
proof (cases "b_closed b")
  case True
  then show ?thesis using assms by (simp add: broker_close_def)
next
  case False
  have "bounded (sealed now b)" using prepared_bounded[OF assms(2-4) False] assms(2) by (simp add: sealed_def)
  moreover have "b_received b' = b_received (sealed now b)" "b_normalCapacity b' = b_normalCapacity (sealed now b)"
    "b_terminal b' = b_terminal (sealed now b)"
    using assms(1,4) False by (auto simp: close_spool Let_def wakeLocked_def startPumpLocked_def split: if_splits)
  ultimately show ?thesis using close_effect(1)[OF assms(1,3,4) False] bounded_same by blast
qed

lemma other_bounded:
  "\<lbrakk>bounded b; pump_ok b\<rbrakk> \<Longrightarrow> bounded (broker_subscribe b)"
  "\<lbrakk>bounded b; broker_inv b\<rbrakk> \<Longrightarrow> bounded (awaitResult b)"
  "bounded b \<Longrightarrow> bounded (broker_receive b)"
  "\<lbrakk>bounded b; pump_ok b\<rbrakk> \<Longrightarrow> bounded (pump_step b)"
  "bounded b \<Longrightarrow> bounded (broker_abort b)"
  "bounded b \<Longrightarrow> bounded (markConsumer b)"
proof -
  have "b_received (broker_subscribe b) = b_received b"
    by (simp add: broker_subscribe_def markConsumer_def startPumpLocked_def Let_def)
  then show "bounded (broker_subscribe b)" if "bounded b" "pump_ok b" using that bounded_same[of b] by simp
  have "bounded (pruneUnobservedLocked False (b\<lparr>b_consumer := True, b_discardOrdinary := True\<rparr>))"
    if "bounded b" "broker_inv b" "\<not> b_subscribed b"
  proof (rule prune_bounded)
    show "bounded (b\<lparr>b_consumer := True, b_discardOrdinary := True\<rparr>)"
      using that(1) by (auto simp: bounded_def backlog_def pending_queue_def)
  qed (use that in \<open>simp_all add: broker_inv_def\<close>)
  then show "bounded (awaitResult b)" if "bounded b" "broker_inv b"
    using that by (auto simp: awaitResult_eq bounded_def backlog_def pending_queue_def)
  have "subseq (backlog (broker_receive b)) (backlog b)"
    by (simp add: backlog_def broker_receive_def take_events_def pending_queue_def list_emb_append_mono suffix_drop suffix_imp_subseq)
  from deltas_subseq[OF this] show "bounded (broker_receive b)" if "bounded b"
    using that by (simp add: bounded_def)
  have "b_received (pump_step b) = b_received b" by (simp add: pump_step_def split: pump_pc.splits list.splits)
  then show "bounded (pump_step b)" if "bounded b" "pump_ok b" using that bounded_same[of b] by simp
  show "bounded (broker_abort b)" "bounded (markConsumer b)" if "bounded b"
    using that by (auto simp: broker_abort_def markConsumer_def bounded_def backlog_def pending_queue_def)
qed

lemma step_bounded:
  assumes "broker_step s s'" "sys_inv s" "b_spool (sys_broker s)" "bounded (sys_broker s)"
  shows "bounded (sys_broker s')"
  using assms
proof (induction rule: broker_step.induct)
  case (publish b s ctx env1 env2 now ev source st b')
  then show ?case using first_bounded[of ctx now b ev source st b'] by (auto simp: publishContext_spool sys_inv_def split: if_splits)
next
  case (resume_first b s ws ev source ws' ctx now st b')
  then show ?case using first_bounded[of ctx now b ev source st b'] spool_waiters[of s WaitFirst ev source] by (auto simp: sys_inv_def)
next
  case (resume_second b s ws ev source ws' ctx now st b')
  then show ?case using second_bounded[of ctx now b ev source st b'] by (auto simp: sys_inv_def broker_inv_def)
qed (use terminal_bounded close_bounded other_bounded in \<open>auto simp: sys_inv_def broker_inv_def\<close>)

text \<open>
  C32. A slow reader cannot make the backlog of droppable events grow without bound. In every
  reachable state of a spool, blocking or not, the droppable content deltas in the channel and the
  queue together never exceed the configured event buffer (one more if the terminal event itself were
  a delta), although critical and boundary events may exceed it.
\<close>

theorem delta_backlog_bounded:
  assumes "broker_reachable s" "b_spool (sys_broker s)"
  shows "deltas (backlog (sys_broker s)) \<le> b_normalCapacity (sys_broker s) + of_bool (b_terminal (sys_broker s))"
proof -
  have "bounded (sys_broker s)" using assms
  proof (induction rule: broker_reachable.induct)
    case (start runID key buffer blocking b spool discard multiple)
    then show ?case
      by (auto simp: bounded_def backlog_def pending_queue_def newEventBroker_def broker_start_def Let_def split: if_splits)
  next
    case (step s s')
    then show ?case using step_bounded step_plain reachable_inv by metis
  qed
  then show ?thesis by (simp add: bounded_def)
qed

subsection \<open>A sample run\<close>

text \<open>
  A spool with room for one ordinary event: the reader subscribes, a critical and then a droppable
  event are published, the second of which is lost, and the broker is closed.
\<close>

definition sample_notice :: Event where
  "sample_notice = new_event (plain_notice ''kind'' ''text'' [])"

definition sample_delta :: Event where
  "sample_delta = new_event (EvProcessInfo \<lparr>Process_Kind = ProcessStdout, Process_Text = ''out'', Process_Bytes = '''',
     Process_Metadata = [], Process_Data = []\<rparr>)"

definition sample_start :: broker_system where
  "sample_start = (case newEventBroker ''run'' ''key'' 1 False of Return b \<Rightarrow> broker_start b True False False)"

definition sample_subscribed :: broker_system where
  "sample_subscribed = sample_start\<lparr>sys_broker := broker_subscribe (sys_broker sample_start)\<rparr>"

definition sample_publish :: "Event \<Rightarrow> broker_system \<Rightarrow> broker_system" where
  "sample_publish ev s = (case publishContext None CtxSeen CtxSeen 0 (sys_broker s) (Some ev) None of
     (st, b') \<Rightarrow> s\<lparr>sys_broker := b', sys_waiting := sys_waiting s @ waiters st ev None,
                    sys_taken := sys_taken s @ taken_by st (sys_broker s) ev\<rparr>)"

definition sample_published :: broker_system where
  "sample_published = sample_publish sample_delta (sample_publish sample_notice sample_subscribed)"

definition sample_closed :: broker_system where
  "sample_closed = sample_published\<lparr>sys_broker := snd (broker_close CtxSeen 0 (sys_broker sample_published))\<rparr>"

lemmas sample_simps = sample_start_def sample_subscribed_def sample_publish_def sample_published_def sample_closed_def
  sample_notice_def sample_delta_def new_event_def plain_notice_def newEventBroker_def broker_start_def
  broker_subscribe_def markConsumer_def startPumpLocked_def publishContext_def publishLocked_def publish_first_def
  publish_second_def publish_marker_def no_drops_def must_wait_def drop_now_def drop_ordinary_def stampNextLocked_def
  stampEvent_def recordDropLocked_def enqueueLocked_def wakeLocked_def waiters_def taken_by_def broker_open_def
  broker_close_def spoolDroppedLocked_def drop_marker_def zero_EventMeta_def Let_def

lemma sample_published_reachable:
  "broker_reachable sample_subscribed" "broker_reachable sample_published"
  "broker_step\<^sup>*\<^sup>* sample_subscribed sample_published"
proof -
  have "newEventBroker ''run'' ''key'' 1 False = Return b \<Longrightarrow> broker_reachable (broker_start b True False False)" for b
    by (rule broker_reachable.start)
  then have "broker_reachable sample_start" by (simp add: sample_start_def newEventBroker_def Let_def)
  then show sub: "broker_reachable sample_subscribed"
    unfolding sample_subscribed_def by (rule broker_reachable.step) (rule broker_step.subscribe)
  have step: "broker_step s (sample_publish ev s)"
    if "b_spool (sys_broker s)" "b_subscribed (sys_broker s)" "fst (publishContext None CtxSeen CtxSeen 0 (sys_broker s) (Some ev) None) \<noteq> Probing" for s ev
    using that broker_step.publish[of "sys_broker s" s None CtxSeen CtxSeen 0 ev None]
    by (auto simp: sample_publish_def split: prod.split)
  have s1: "broker_step sample_subscribed (sample_publish sample_notice sample_subscribed)"
    by (rule step) (simp_all add: sample_simps)
  have s2: "broker_step (sample_publish sample_notice sample_subscribed) sample_published"
    unfolding sample_published_def by (rule step) (simp_all add: sample_simps)
  show "broker_reachable sample_published" using broker_reachable.step[OF broker_reachable.step[OF sub s1] s2] .
  show "broker_step\<^sup>*\<^sup>* sample_subscribed sample_published" using s1 s2 by auto
qed

lemma sample_closed_reachable: "broker_reachable sample_closed"
proof -
  have "broker_close CtxSeen 0 (sys_broker sample_published) = (Returned True, sys_broker sample_closed)"
    by (simp add: sample_simps)
  then have "broker_step sample_published sample_closed"
    using broker_step.close[of CtxSeen 0 sample_published] by (auto simp: sample_closed_def)
  then show ?thesis using broker_reachable.step sample_published_reachable(2) by blast
qed

lemma sample_facts:
  "b_spool (sys_broker sample_subscribed)" "b_subscribed (sys_broker sample_subscribed)"
  "b_spool (sys_broker sample_published)" "b_spool (sys_broker sample_closed)" "b_closed (sys_broker sample_closed)"
  "map event_seq (stream (sys_broker sample_published)) = [1]"
  "map (eventKind \<circ> Event_body) (stream (sys_broker sample_closed)) = [''notice.kind'', ''dropped'']"
  "length (b_queue (sys_broker sample_closed)) = 1" "length (b_events (sys_broker sample_closed)) = 1"
  "sys_taken sample_closed = [Event_body sample_notice, Event_body sample_delta]"
  by (simp_all add: sample_simps stream_def pending_queue_def event_seq_def)

theorem stream_strictly_ordered_witness:
  "broker_reachable sample_closed \<and> sorted_wrt (<) (map event_seq (stream (sys_broker sample_closed)))
   \<and> length (stream (sys_broker sample_closed)) = 2"
  using stream_strictly_ordered[OF sample_closed_reachable] sample_closed_reachable
    arg_cong[OF sample_facts(7), of length] by simp

theorem critical_never_lost_witness:
  "filter must_keep (map Event_body (stream (sys_broker sample_closed))) = [Event_body sample_notice]"
proof -
  have "filter must_keep (sys_taken sample_closed) = [Event_body sample_notice]"
    by (simp add: sample_facts(10) must_keep_def is_sdk_marker_def sample_notice_def sample_delta_def new_event_def plain_notice_def)
  then show ?thesis
    using critical_never_lost[OF sample_closed_reachable sample_facts(4), of sample_notice] by simp
qed

theorem subscriber_loses_only_deltas_witness:
  "\<exists>new. sys_taken sample_published = sys_taken sample_subscribed @ new
    \<and> filter reliable (map Event_body (stream (sys_broker sample_published)))
      = filter reliable (map Event_body (stream (sys_broker sample_subscribed))) @ filter reliable new"
  by (rule subscriber_loses_only_deltas[OF sample_published_reachable(1) sample_facts(1,2) sample_published_reachable(3)])

theorem terminal_is_last_witness:
  "\<exists>b'. publishTerminal CtxSeen 0 (sys_broker sample_published) (Some sample_notice) None = Return (Returned True, b')
    \<and> Event_body (last (stream b')) = Event_body sample_notice"
proof -
  have "\<not> b_closed (sys_broker sample_published) \<and> \<not> b_terminal (sys_broker sample_published)" by (simp add: sample_simps)
  then obtain b' where t: "publishTerminal CtxSeen 0 (sys_broker sample_published) (Some sample_notice) None = Return (Returned True, b')"
    using publishTerminal_spool[OF sample_facts(3)] by (auto simp: Let_def)
  then show ?thesis using terminal_is_last[OF sample_published_reachable(2), of CtxSeen 0 None None sample_notice b'] by blast
qed

theorem closed_stream_drains_witness:
  "b_received ((drain_round ^^ 9) (sys_broker sample_closed)) = stream (sys_broker sample_closed)"
  using closed_stream_drains[OF sample_closed_reachable sample_facts(4,5), of 9] sample_facts(8,9) by simp

theorem no_unaccounted_loss_witness:
  "sum_list (map count_weight (sys_taken sample_closed)) = sum_list (map (count_weight \<circ> Event_body) (stream (sys_broker sample_closed)))
    + drop_count (b_dropped (sys_broker sample_closed)) \<and> length (sys_taken sample_closed) = 2"
proof -
  have "\<forall>body \<in> set (sys_taken sample_closed). summary_ok 0 body"
    by (intro plain_taken(3)) (simp add: sample_facts(10) sample_notice_def sample_delta_def new_event_def plain_notice_def is_sdk_marker_def)
  from no_unaccounted_loss[OF sample_closed_reachable sample_facts(4) this] show ?thesis by (simp add: sample_facts(10))
qed

theorem delta_backlog_bounded_witness:
  "deltas (backlog (sys_broker sample_published)) \<le> 1"
proof -
  have "b_normalCapacity (sys_broker sample_published) = 1" "\<not> b_terminal (sys_broker sample_published)"
    by (simp_all add: sample_simps)
  then show ?thesis using delta_backlog_bounded[OF sample_published_reachable(2) sample_facts(3)] by simp
qed

end
