(* ===== verification/ThreadStore.thy ===== *)
theory ThreadStore
  imports DriverTypes
begin

text \<open>
  \<^verbatim>\<open>threadstore/threadstore.go\<close>: the records, queries, leases, requests and errors of
  the storage contract behind stateful Threads, and the lease discipline that contract
  asks of every store, stated as a locale. \<^verbatim>\<open>memory.Store\<close> (theory
  \<open>MemoryStore\<close>) interprets it.
\<close>

subsection \<open>Data\<close>

type_synonym Status = string

definition StatusActive :: Status where "StatusActive = ''active''"
definition StatusArchived :: Status where "StatusArchived = ''archived''"

lemma Status_distinct [simp]: "StatusActive \<noteq> StatusArchived" "StatusArchived \<noteq> StatusActive"
  by (simp_all add: StatusActive_def StatusArchived_def)

record DeliveredMessage =
  Delivered_ID :: string
  Delivered_At :: gotime

record Record =
  Record_EarlierGuidance :: "string list"
  Record_RecentTurns :: "string list"
  Record_DeliveredMessages :: "DeliveredMessage list"
  Record_ID :: string
  Record_Key :: string
  Record_Status :: Status
  Record_DriverType :: string
  Record_Agent :: AgentIdentity
  Record_Fingerprint :: string
  Record_CompatibilityFingerprint :: string
  Record_SessionCodec :: string
  Record_State :: "SessionState option"
  Record_CreatedAt :: gotime
  Record_UpdatedAt :: gotime

record Query =
  Query_ID :: string
  Query_Key :: string
  Query_IncludeArchived :: bool

record Lease =
  Lease_Target :: string
  Lease_Owner :: string
  Lease_Token :: string

record FinalizeRequest =
  Finalize_Record :: Record
  Finalize_PreviousID :: string
  Finalize_Key :: string
  Finalize_HeldLeases :: "Lease list"
  Finalize_ArchiveOld :: bool
  Finalize_RebindActive :: bool
  Finalize_RequireKeyAbsent :: bool

subsection \<open>Errors\<close>

text \<open>
  The struct errors of the package, the context errors a store must preserve, and
  \<open>BackendError\<close> for every other failure of a store.
\<close>

datatype StoreError =
    BusyError string
  | LeaseLostError string
  | AlreadyExistsError string
  | ContextError CtxErr
  | BackendError string

datatype StoreSentinel = ErrBusy | ErrLeaseLost | ErrAlreadyExists

text \<open>\<^verbatim>\<open>errors.Is(err, sentinel)\<close> through the \<^verbatim>\<open>Unwrap\<close> methods.\<close>

fun StoreError_Unwrap :: "StoreError \<Rightarrow> StoreSentinel option" where
  "StoreError_Unwrap (BusyError _) = Some ErrBusy"
| "StoreError_Unwrap (LeaseLostError _) = Some ErrLeaseLost"
| "StoreError_Unwrap (AlreadyExistsError _) = Some ErrAlreadyExists"
| "StoreError_Unwrap _ = None"

fun Sentinel_Error :: "StoreSentinel \<Rightarrow> string" where
  "Sentinel_Error ErrBusy = ''threadstore: target busy''"
| "Sentinel_Error ErrLeaseLost = ''threadstore: lease lost''"
| "Sentinel_Error ErrAlreadyExists = ''threadstore: thread already exists''"

definition with_detail :: "StoreSentinel \<Rightarrow> string \<Rightarrow> string" where
  "with_detail base detail =
     (if detail = '''' then Sentinel_Error base else Sentinel_Error base @ '': '' @ detail)"

fun BusyError_Error :: "string \<Rightarrow> string" where
  "BusyError_Error target = with_detail ErrBusy target"

fun LeaseLostError_Error :: "string \<Rightarrow> string" where
  "LeaseLostError_Error target = with_detail ErrLeaseLost target"

fun AlreadyExistsError_Error :: "string \<Rightarrow> string" where
  "AlreadyExistsError_Error key = with_detail ErrAlreadyExists key"

subsection \<open>The lease discipline as an interface\<close>

text \<open>
  A timed run: every operation with the time at which it ran, and the fencing tokens drawn
  on the way.
\<close>

fun timed_run :: "(gotime \<Rightarrow> 's \<Rightarrow> 'o \<Rightarrow> 's) \<Rightarrow> 's \<Rightarrow> (gotime \<times> 'o) list \<Rightarrow> 's" where
  "timed_run exec s [] = s"
| "timed_run exec s ((t, op) # ops) = timed_run exec (exec t s op) ops"

fun minted_in ::
  "(gotime \<Rightarrow> 's \<Rightarrow> 'o \<Rightarrow> 's) \<Rightarrow> (gotime \<Rightarrow> 's \<Rightarrow> 'o \<Rightarrow> string set)
   \<Rightarrow> 's \<Rightarrow> (gotime \<times> 'o) list \<Rightarrow> string set" where
  "minted_in exec minted s [] = {}"
| "minted_in exec minted s ((t, op) # ops) =
     minted t s op \<union> minted_in exec minted (exec t s op) ops"

text \<open>
  What a store with expiring, token-fenced leases promises, for any state type \<open>'s\<close>, any
  operation type \<open>'o\<close> and any lease type \<open>'l\<close>. \<open>valid s t l\<close> says that lease \<open>l\<close> is the current, unexpired
  lease of its target at time \<open>t\<close>; \<open>exec t s op\<close> is the state after \<open>op\<close> ran atomically at
  time \<open>t\<close>; \<open>minted t s op\<close> holds the fencing tokens \<open>op\<close> drew from the entropy source.
  The laws: validity only ever ends as time passes; a lease that is not valid can only become
  valid by being minted afresh; two valid leases of one target are the same lease; and an
  operation that does not act on behalf of a valid lease (\<open>acts_for\<close>) leaves it valid.
\<close>

locale fenced_leases =
  fixes exec :: "gotime \<Rightarrow> 's \<Rightarrow> 'o \<Rightarrow> 's"
    and valid :: "'s \<Rightarrow> gotime \<Rightarrow> 'l \<Rightarrow> bool"
    and target :: "'l \<Rightarrow> string"
    and token :: "'l \<Rightarrow> string"
    and minted :: "gotime \<Rightarrow> 's \<Rightarrow> 'o \<Rightarrow> string set"
    and acts_for :: "'o \<Rightarrow> 'l \<Rightarrow> bool"
  assumes valid_mono: "valid s t' l \<Longrightarrow> t \<le> t' \<Longrightarrow> valid s t l"
    and no_revival: "valid (exec t s op) t' l \<Longrightarrow> t \<le> t' \<Longrightarrow> \<not> valid s t l
                       \<Longrightarrow> token l \<in> minted t s op"
    and valid_unique: "valid s t l \<Longrightarrow> valid s t l' \<Longrightarrow> target l = target l' \<Longrightarrow> l = l'"
    and interference_free: "valid s t' l \<Longrightarrow> t \<le> t' \<Longrightarrow> \<not> acts_for op l
                       \<Longrightarrow> valid (exec t s op) t' l"
begin

lemma fencing:
  assumes "\<not> valid s t0 l" and "sorted (t0 # map fst ops @ [t])"
    and "token l \<notin> minted_in exec minted s ops"
  shows "\<not> valid (timed_run exec s ops) t l"
  using assms
proof (induction ops arbitrary: s t0)
  case Nil
  then show ?case using valid_mono by auto
next
  case (Cons top ops)
  obtain t1 op where top: "top = (t1, op)" by (cases top)
  with Cons.prems have "t0 \<le> t1" "sorted (t1 # map fst ops @ [t])" by auto
  have "\<not> valid s t1 l" using Cons.prems(1) \<open>t0 \<le> t1\<close> valid_mono by blast
  moreover have "token l \<notin> minted t1 s op" using Cons.prems(3) top by simp
  ultimately have "\<not> valid (exec t1 s op) t1 l" using no_revival by blast
  with Cons.IH [OF _ \<open>sorted (t1 # map fst ops @ [t])\<close>] Cons.prems(3) top
  show ?case by simp
qed

lemma undisturbed:
  assumes "valid s t l" and "sorted (map fst ops @ [t])"
    and "\<forall>(t1, op) \<in> set ops. \<not> acts_for op l"
  shows "valid (timed_run exec s ops) t l"
  using assms
proof (induction ops arbitrary: s)
  case (Cons top ops)
  obtain t1 op where top: "top = (t1, op)" by (cases top)
  have "t1 \<le> t" using Cons.prems(2) top by simp
  with Cons.prems top have "valid (exec t1 s op) t l" by (auto intro: interference_free)
  with Cons.IH [of "exec t1 s op"] Cons.prems top show ?case by simp
qed simp

lemma exclusive:
  assumes "valid s t l" and "sorted (map fst ops @ [t])"
    and "\<forall>(t1, op) \<in> set ops. \<not> acts_for op l"
    and "valid (timed_run exec s ops) t l'" and "target l' = target l"
  shows "l' = l"
  using undisturbed [OF assms(1-3)] assms(4,5) valid_unique by metis

end

end
