(* ===== verification/HubProtocol.thy ===== *)
theory HubProtocol
  imports MessageHub
begin

text \<open>
  The life of an admitted message as a protocol of small moves on the hub: registered once, adjusted
  while it is open, settled once. The wrap-up instruction is different: it joins the admission list
  only when it has been delivered and is silent until then. The invariant of the protocol ties the
  state of every item to the updates the hub has pushed.
\<close>

subsection \<open>Settlements in the log\<close>

fun settles :: "string \<Rightarrow> event_body \<Rightarrow> bool" where
  "settles k (EvMessageUpdate u) \<longleftrightarrow> Update_ID u = k \<and> Update_State u \<noteq> MessageAccepted"
| "settles k _ \<longleftrightarrow> False"

definition settlements :: "messageHub \<Rightarrow> string \<Rightarrow> event_body list" where
  "settlements h k = filter (settles k) (hub_pushed h)"

fun turn_end_of :: "event_body \<Rightarrow> int list" where
  "turn_end_of (EvTurnEnd t) = [TurnEnd_Turn t]"
| "turn_end_of _ = []"

definition turn_ends :: "messageHub \<Rightarrow> int list" where
  "turn_ends h = concat (map turn_end_of (hub_pushed h))"

definition quiet :: "event_body \<Rightarrow> bool" where
  "quiet ev \<longleftrightarrow> (\<forall>k. \<not> settles k ev) \<and> turn_end_of ev = []"

definition accepted_free :: "messageHub \<Rightarrow> bool" where
  "accepted_free h \<longleftrightarrow> (\<forall>i \<in> set (hub_items h). item_state h i \<noteq> MessageAccepted)"

abbreviation item_id :: "messageHub \<Rightarrow> nat \<Rightarrow> string" where
  "item_id h i \<equiv> Out_ID (item_out (hub_heap h i))"

abbreviation known_ids :: "messageHub \<Rightarrow> string set" where
  "known_ids h \<equiv> fst ` set (hub_byID h)"

subsection \<open>Moves\<close>

text \<open>A change of everything but the items, their index and the log.\<close>

definition same_items :: "messageHub \<Rightarrow> messageHub \<Rightarrow> bool" where
  "same_items h h' \<longleftrightarrow> hub_heap h' = hub_heap h \<and> hub_next h' = hub_next h \<and> hub_items h' = hub_items h
     \<and> hub_byID h' = hub_byID h \<and> hub_wrapUp h' = hub_wrapUp h \<and> hub_pushed h' = hub_pushed h
     \<and> hub_start h' = hub_start h \<and> hub_policy h' = hub_policy h \<and> set (hub_delivered h) \<subseteq> set (hub_delivered h')"

text \<open>
  The active turn follows the completed ones, which never exceed the policy's limit and have been reported
  in order.
\<close>

definition turns_ok :: "messageHub \<Rightarrow> bool" where
  "turns_ok h \<longleftrightarrow> hub_turn h = int (length (hub_turns h)) + 1 \<and> int (length (hub_turns h)) \<le> max 0 (MP_MaxTurns (hub_policy h))
     \<and> turn_ends h = [1..int (length (hub_turns h))]"

inductive hub_move :: "messageHub \<Rightarrow> messageHub \<Rightarrow> bool" where
  other: "\<lbrakk>same_items h h'; hub_finished h \<longrightarrow> hub_finished h'; hub_finished h' \<longrightarrow> hub_finished h \<or> accepted_free h;
     turns_ok h \<longrightarrow> turns_ok h'\<rbrakk>
    \<Longrightarrow> hub_move h h'"
| report: "quiet ev \<Longrightarrow> hub_move h (hub_push ev h)"
| turn_end: "\<lbrakk>same_items h h'; hub_finished h' = hub_finished h; hub_turns h' = hub_turns h @ [res];
     hub_turn h' = int (length (hub_turns h)) + 2; int (length (hub_turns h)) < MP_MaxTurns (hub_policy h);
     TurnEnd_Turn t = int (length (hub_turns h)) + 1\<rbrakk>
    \<Longrightarrow> hub_move h (hub_push (EvTurnEnd t) h')"
| tweak: "\<lbrakk>i < hub_next h; Out_ID (item_out it) = item_id h i; Out_State (item_out it) = item_state h i;
     item_state h i \<noteq> MessageAccepted \<longrightarrow> item_out it = item_out (hub_heap h i)\<rbrakk>
    \<Longrightarrow> hub_move h (upd_item i (\<lambda>_. it) h)"
| settle: "\<lbrakk>i \<in> set (hub_items h); item_state h i = MessageAccepted; Out_ID (item_out it) = item_id h i;
     Out_State (item_out it) \<noteq> MessageAccepted\<rbrakk>
    \<Longrightarrow> hub_move h (hub_push (update_event it) (upd_item i (\<lambda>_. it) h))"
| register: "\<lbrakk>Out_ID (item_out it) \<notin> known_ids h;
     Out_State (item_out it) = MessageAccepted \<longrightarrow> \<not> hub_finished h \<and> Out_ID (item_out it) \<notin> set (hub_delivered h)\<rbrakk>
    \<Longrightarrow> hub_move h (hub_push (update_event it) (register it h))"
| dedupe: "\<lbrakk>Out_ID (item_out it) \<notin> known_ids h; \<not> hub_finished h; Out_State (item_out it) = MessageAccepted;
     Out_ID (item_out it') = Out_ID (item_out it); Out_State (item_out it') = MessageDelivered\<rbrakk>
    \<Longrightarrow> hub_move h (hub_push (update_event it') (upd_item (hub_next h) (\<lambda>_. it') (hub_push (update_event it) (register it h))))"
| wrap_register: "\<lbrakk>hub_wrapUp h = None; Out_ID (item_out it) \<notin> known_ids h \<union> set (hub_delivered h); Out_ID (item_out it) \<noteq> '''';
     Out_State (item_out it) = MessageAccepted\<rbrakk>
    \<Longrightarrow> hub_move h (h\<lparr>hub_heap := (hub_heap h)(hub_next h := it), hub_next := Suc (hub_next h),
          hub_wrapUp := Some (hub_next h), hub_byID := (Out_ID (item_out it), hub_next h) # hub_byID h\<rparr>)"
| wrap_fail: "\<lbrakk>hub_wrapUp h = Some i; item_state h i = MessageAccepted; Out_ID (item_out it) = item_id h i;
     Out_State (item_out it) = MessageFailed\<rbrakk>
    \<Longrightarrow> hub_move h (upd_item i (\<lambda>_. it) h)"
| wrap_deliver: "\<lbrakk>hub_wrapUp h = Some i; item_state h i = MessageAccepted; Out_ID (item_out it) = item_id h i;
     Out_State (item_out it) = MessageDelivered\<rbrakk>
    \<Longrightarrow> hub_move h (hub_push (update_event it) ((upd_item i (\<lambda>_. it) h)\<lparr>hub_items := hub_items h @ [i]\<rparr>))"

subsection \<open>The invariant\<close>

definition ids_ok :: "messageHub \<Rightarrow> bool" where
  "ids_ok h \<longleftrightarrow> distinct (hub_items h) \<and> distinct (map fst (hub_byID h))
     \<and> (\<forall>(k, i) \<in> set (hub_byID h). i < hub_next h \<and> item_id h i = k)
     \<and> (\<forall>i \<in> set (hub_items h). (item_id h i, i) \<in> set (hub_byID h))
     \<and> (\<forall>(k, i) \<in> set (hub_byID h). i \<in> set (hub_items h) \<or> hub_wrapUp h = Some i)"

definition wrap_ok :: "messageHub \<Rightarrow> bool" where
  "wrap_ok h \<longleftrightarrow> (case hub_wrapUp h of None \<Rightarrow> True | Some w \<Rightarrow>
     (item_id h w, w) \<in> set (hub_byID h) \<and> item_id h w \<noteq> ''''
     \<and> (w \<in> set (hub_items h) \<longleftrightarrow> item_state h w = MessageDelivered))"

definition settlement_of :: "messageHub \<Rightarrow> nat \<Rightarrow> event_body list" where
  "settlement_of h i = (if i \<in> set (hub_items h) \<and> item_state h i \<noteq> MessageAccepted then [update_event (hub_heap h i)] else [])"

definition log_ok :: "messageHub \<Rightarrow> bool" where
  "log_ok h \<longleftrightarrow> (\<forall>(k, i) \<in> set (hub_byID h). settlements h k = settlement_of h i)
     \<and> (\<forall>k. k \<notin> known_ids h \<longrightarrow> settlements h k = [])"

definition hub_inv :: "messageHub \<Rightarrow> bool" where
  "hub_inv h \<longleftrightarrow> ids_ok h \<and> wrap_ok h \<and> log_ok h \<and> (hub_finished h \<longrightarrow> accepted_free h) \<and> turns_ok h"

lemma ids_okD:
  assumes "ids_ok h" "(k, i) \<in> set (hub_byID h)"
  shows "i < hub_next h" "item_id h i = k" "i \<in> set (hub_items h) \<or> hub_wrapUp h = Some i"
  using assms by (auto simp: ids_ok_def)

lemma items_allocated: "\<lbrakk>ids_ok h; i \<in> set (hub_items h)\<rbrakk> \<Longrightarrow> i < hub_next h \<and> (item_id h i, i) \<in> set (hub_byID h)"
  by (auto simp: ids_ok_def)

lemma by_id_iff: "ids_ok h \<Longrightarrow> by_id h k = Some i \<longleftrightarrow> (k, i) \<in> set (hub_byID h)"
  by (simp add: ids_ok_def)

lemma settles_update [simp]: "settles k (update_event it) \<longleftrightarrow> Out_ID (item_out it) = k \<and> Out_State (item_out it) \<noteq> MessageAccepted"
  by (simp add: update_event_def)

lemma settlements_push [simp]: "settlements (hub_push ev h) k = settlements h k @ (if settles k ev then [ev] else [])"
  by (simp add: settlements_def hub_push_def)

lemma push_fields [simp]:
  "hub_heap (hub_push ev h) = hub_heap h" "hub_next (hub_push ev h) = hub_next h" "hub_items (hub_push ev h) = hub_items h"
  "hub_byID (hub_push ev h) = hub_byID h" "hub_wrapUp (hub_push ev h) = hub_wrapUp h" "hub_finished (hub_push ev h) = hub_finished h"
  "hub_delivered (hub_push ev h) = hub_delivered h"
  by (simp_all add: hub_push_def)

lemma turns_fields [simp]:
  "turn_end_of ev = [] \<Longrightarrow> turns_ok (hub_push ev h) = turns_ok h" "turns_ok (upd_item i f h) = turns_ok h" "turns_ok (register it h) = turns_ok h"
  "turns_ok (h\<lparr>hub_items := js\<rparr>) = turns_ok h" "turns_ok (h\<lparr>hub_heap := hp, hub_next := n, hub_wrapUp := w, hub_byID := ids\<rparr>) = turns_ok h"
  by (simp_all add: turns_ok_def turn_ends_def hub_push_def upd_item_def register_def)

lemma update_no_turn_end [simp]: "turn_end_of (update_event it) = []"
  by (simp add: update_event_def)

lemma upd_item_fields [simp]:
  "hub_heap (upd_item i f h) = (hub_heap h)(i := f (hub_heap h i))" "hub_next (upd_item i f h) = hub_next h"
  "hub_items (upd_item i f h) = hub_items h" "hub_byID (upd_item i f h) = hub_byID h"
  "hub_wrapUp (upd_item i f h) = hub_wrapUp h" "hub_finished (upd_item i f h) = hub_finished h"
  "settlements (upd_item i f h) k = settlements h k" "hub_delivered (upd_item i f h) = hub_delivered h"
  by (simp_all add: upd_item_def settlements_def)

lemma register_fields [simp]:
  "hub_heap (register it h) = (hub_heap h)(hub_next h := it)" "hub_next (register it h) = Suc (hub_next h)"
  "hub_items (register it h) = hub_items h @ [hub_next h]"
  "hub_byID (register it h) = (Out_ID (item_out it), hub_next h) # hub_byID h"
  "hub_wrapUp (register it h) = hub_wrapUp h" "hub_finished (register it h) = hub_finished h"
  "settlements (register it h) k = settlements h k" "hub_delivered (register it h) = hub_delivered h"
  by (simp_all add: register_def settlements_def)

lemma next_fresh: "ids_ok h \<Longrightarrow> hub_next h \<notin> set (hub_items h) \<and> (\<forall>k. (k, hub_next h) \<notin> set (hub_byID h))"
  by (auto simp: ids_ok_def)

subsection \<open>Every move keeps the invariant\<close>

lemma same_items_inv:
  assumes "same_items h h'" "hub_finished h' \<longrightarrow> hub_finished h \<or> accepted_free h" "turns_ok h \<longrightarrow> turns_ok h'" "hub_inv h"
  shows "hub_inv h'"
proof -
  have eq: "hub_heap h' = hub_heap h" "hub_next h' = hub_next h" "hub_items h' = hub_items h" "hub_byID h' = hub_byID h"
    "hub_wrapUp h' = hub_wrapUp h" "hub_pushed h' = hub_pushed h" using assms(1) by (auto simp: same_items_def)
  show ?thesis using assms(2-4) unfolding hub_inv_def ids_ok_def wrap_ok_def log_ok_def settlements_def settlement_of_def accepted_free_def eq
    by blast
qed

lemma push_quiet_inv:
  assumes "quiet ev" "hub_inv h"
  shows "hub_inv (hub_push ev h)"
proof -
  have "settlements (hub_push ev h) k = settlements h k" "settlement_of (hub_push ev h) i = settlement_of h i" for k i
    using assms(1) by (simp_all add: quiet_def settlement_of_def)
  then have "log_ok (hub_push ev h) = log_ok h" by (simp add: log_ok_def)
  moreover have "wrap_ok (hub_push ev h) = wrap_ok h" by (simp add: wrap_ok_def split: option.split)
  ultimately show ?thesis using assms by (simp add: hub_inv_def ids_ok_def accepted_free_def quiet_def)
qed

lemma turn_end_inv:
  assumes "same_items h h'" "hub_finished h' = hub_finished h" "hub_turns h' = hub_turns h @ [res]"
    "hub_turn h' = int (length (hub_turns h)) + 2" "int (length (hub_turns h)) < MP_MaxTurns (hub_policy h)"
    "TurnEnd_Turn t = int (length (hub_turns h)) + 1" "hub_inv h"
  shows "hub_inv (hub_push (EvTurnEnd t) h')" (is "hub_inv ?h")
proof -
  have eq: "hub_heap ?h = hub_heap h" "hub_next ?h = hub_next h" "hub_items ?h = hub_items h" "hub_byID ?h = hub_byID h"
    "hub_wrapUp ?h = hub_wrapUp h" "settlements ?h k = settlements h k" "hub_finished ?h = hub_finished h" for k
    using assms(1,2) by (auto simp: same_items_def settlements_def hub_push_def)
  have "turns_ok ?h" using assms by (auto simp: turns_ok_def turn_ends_def hub_push_def same_items_def hub_inv_def upto_rec2)
  then show ?thesis using assms(7) unfolding hub_inv_def ids_ok_def wrap_ok_def log_ok_def settlement_of_def accepted_free_def eq
    by blast
qed

text \<open>Replacing an item without changing its ID.\<close>

lemma upd_ids_ok:
  assumes "ids_ok h" "Out_ID (item_out (f (hub_heap h i))) = item_id h i"
  shows "ids_ok (upd_item i f h)"
  using assms unfolding ids_ok_def by (auto split: if_splits)

lemma tweak_inv:
  assumes "hub_inv h" "Out_ID (item_out it) = item_id h i" "Out_State (item_out it) = item_state h i"
    "item_state h i \<noteq> MessageAccepted \<longrightarrow> item_out it = item_out (hub_heap h i)"
  shows "hub_inv (upd_item i (\<lambda>_. it) h)"
proof -
  have "wrap_ok (upd_item i (\<lambda>_. it) h)" using assms unfolding hub_inv_def wrap_ok_def by (auto split: option.splits)
  moreover have "settlement_of (upd_item i (\<lambda>_. it) h) j = settlement_of h j" for j
    using assms(2-4) by (auto simp: settlement_of_def update_event_def)
  then have "log_ok (upd_item i (\<lambda>_. it) h)" using assms(1) unfolding hub_inv_def log_ok_def by simp
  moreover have "accepted_free h \<Longrightarrow> accepted_free (upd_item i (\<lambda>_. it) h)" using assms(3) by (auto simp: accepted_free_def)
  ultimately show ?thesis using assms(1,2) upd_ids_ok[of h "\<lambda>_. it" i] by (simp add: hub_inv_def)
qed

text \<open>Settling item \<open>i\<close>: only the settlements of its ID change.\<close>

lemma settle_log_ok:
  assumes "ids_ok h" "log_ok h" "(k0, i) \<in> set (hub_byID h)" "settlement_of h i = []"
    "hub_byID h' = hub_byID h" "\<And>j. j \<noteq> i \<Longrightarrow> settlement_of h' j = settlement_of h j"
    "settlement_of h' i = [ev]" "\<And>k. settlements h' k = settlements h k @ (if k = k0 then [ev] else [])"
  shows "log_ok h'"
proof -
  have "settlements h' k = settlement_of h' j" if "(k, j) \<in> set (hub_byID h')" for k j
  proof (cases "j = i")
    case True
    then have "k = k0" using ids_okD(2)[OF assms(1)] that assms(3,5) by metis
    then show ?thesis using True that assms by (auto simp: log_ok_def)
  next
    case False
    have "k \<noteq> k0"
    proof
      assume "k = k0"
      then have "map_of (hub_byID h) k = Some j" "map_of (hub_byID h) k = Some i" using that assms(1,3,5) by (auto simp: by_id_iff)
      then show False using False by simp
    qed
    then show ?thesis using False that assms by (auto simp: log_ok_def)
  qed
  moreover have "settlements h' k = []" if "k \<notin> known_ids h'" for k
    using that assms(2,3,5,8) by (force simp: log_ok_def)
  ultimately show ?thesis by (auto simp: log_ok_def)
qed

lemma wrap_not_accepted_item:
  "\<lbrakk>wrap_ok h; hub_wrapUp h = Some w; item_state h w = MessageAccepted\<rbrakk> \<Longrightarrow> w \<notin> set (hub_items h)"
  by (simp add: wrap_ok_def)

lemma settle_inv:
  assumes "hub_inv h" "i \<in> set (hub_items h)" "item_state h i = MessageAccepted" "Out_ID (item_out it) = item_id h i"
    "Out_State (item_out it) \<noteq> MessageAccepted"
  shows "hub_inv (hub_push (update_event it) (upd_item i (\<lambda>_. it) h))" (is "hub_inv ?h")
proof -
  have inv: "ids_ok h" "wrap_ok h" "log_ok h" using assms(1) by (auto simp: hub_inv_def)
  have ids: "ids_ok ?h" using upd_ids_ok[OF inv(1), of "\<lambda>_. it" i] assms(4) by (simp add: ids_ok_def)
  have "hub_wrapUp h \<noteq> Some i" using wrap_not_accepted_item[OF inv(2)] assms(2,3) by blast
  then have wrap: "wrap_ok ?h" using inv(2) by (auto simp: wrap_ok_def split: option.splits)
  have "log_ok ?h"
    using items_allocated[OF inv(1) assms(2)] assms(2-5)
    by (intro settle_log_ok[OF inv(1,3), of "item_id h i" i ?h "update_event it"]) (auto simp: settlement_of_def)
  moreover have "accepted_free h \<Longrightarrow> accepted_free ?h" using assms(5) by (auto simp: accepted_free_def)
  ultimately show ?thesis using ids wrap assms(1) by (simp add: hub_inv_def)
qed

lemma register_inv:
  assumes "hub_inv h" "Out_ID (item_out it) \<notin> known_ids h" "Out_State (item_out it) = MessageAccepted \<longrightarrow> \<not> hub_finished h"
  shows "hub_inv (hub_push (update_event it) (register it h))" (is "hub_inv ?h")
proof -
  have inv: "ids_ok h" "wrap_ok h" "log_ok h" using assms(1) by (auto simp: hub_inv_def)
  note fresh = next_fresh[OF inv(1)]
  have "ids_ok ?h" using inv(1) assms(2) fresh by (auto simp: ids_ok_def)
  moreover have "wrap_ok ?h" using inv(2) fresh by (auto simp: wrap_ok_def split: option.splits)
  moreover have old: "settlement_of ?h j = settlement_of h j" if "j \<noteq> hub_next h" for j
    using that by (auto simp: settlement_of_def)
  have "log_ok ?h"
    unfolding log_ok_def
  proof (intro conjI ballI allI impI, clarify)
    fix k j assume "(k, j) \<in> set (hub_byID ?h)"
    then consider "k = Out_ID (item_out it)" "j = hub_next h" | "(k, j) \<in> set (hub_byID h)" "j \<noteq> hub_next h" "k \<noteq> Out_ID (item_out it)"
      using fresh assms(2) by force
    then show "settlements ?h k = settlement_of ?h j"
      using inv(3) assms(2) old by cases (auto simp: log_ok_def settlement_of_def)
  qed (use inv(3) in \<open>auto simp: log_ok_def\<close>)
  moreover have "hub_finished ?h \<longrightarrow> accepted_free ?h"
    using assms(1,3) fresh by (auto simp: hub_inv_def accepted_free_def)
  ultimately show ?thesis using assms(1) by (simp add: hub_inv_def)
qed

lemma wrap_register_inv:
  assumes "hub_inv h" "hub_wrapUp h = None" "Out_ID (item_out it) \<notin> known_ids h" "Out_State (item_out it) = MessageAccepted"
    "Out_ID (item_out it) \<noteq> ''''"
  shows "hub_inv (h\<lparr>hub_heap := (hub_heap h)(hub_next h := it), hub_next := Suc (hub_next h),
     hub_wrapUp := Some (hub_next h), hub_byID := (Out_ID (item_out it), hub_next h) # hub_byID h\<rparr>)" (is "hub_inv ?h")
proof -
  have inv: "ids_ok h" "log_ok h" using assms(1) by (auto simp: hub_inv_def)
  note fresh = next_fresh[OF inv(1)]
  have "ids_ok ?h" using inv(1) assms(2,3) fresh by (auto simp: ids_ok_def)
  moreover have "wrap_ok ?h" using fresh assms(4,5) by (simp add: wrap_ok_def)
  moreover have "log_ok ?h"
    unfolding log_ok_def
  proof (intro conjI ballI allI impI, clarify)
    fix k j assume "(k, j) \<in> set (hub_byID ?h)"
    then consider "k = Out_ID (item_out it)" "j = hub_next h" | "(k, j) \<in> set (hub_byID h)" "j \<noteq> hub_next h"
      using fresh by force
    then show "settlements ?h k = settlement_of ?h j"
      using inv(2) assms(3) fresh by cases (auto simp: log_ok_def settlement_of_def settlements_def)
  qed (use inv(2) in \<open>auto simp: log_ok_def settlements_def\<close>)
  moreover have "hub_finished ?h \<longrightarrow> accepted_free ?h"
    using assms(1) fresh by (auto simp: hub_inv_def accepted_free_def)
  ultimately show ?thesis using assms(1) by (simp add: hub_inv_def)
qed

lemma wrap_fail_inv:
  assumes "hub_inv h" "hub_wrapUp h = Some i" "item_state h i = MessageAccepted" "Out_ID (item_out it) = item_id h i"
    "Out_State (item_out it) = MessageFailed"
  shows "hub_inv (upd_item i (\<lambda>_. it) h)" (is "hub_inv ?h")
proof -
  have inv: "ids_ok h" "wrap_ok h" "log_ok h" using assms(1) by (auto simp: hub_inv_def)
  have out: "i \<notin> set (hub_items h)" using wrap_not_accepted_item[OF inv(2) assms(2,3)] .
  have "wrap_ok ?h" using inv(2) assms(2,4,5) out by (simp add: wrap_ok_def)
  moreover have "settlement_of ?h j = settlement_of h j" for j using out by (auto simp: settlement_of_def)
  then have "log_ok ?h" using inv(3) by (simp add: log_ok_def)
  moreover have "accepted_free h \<Longrightarrow> accepted_free ?h" using out by (auto simp: accepted_free_def)
  ultimately show ?thesis using assms(1,4) upd_ids_ok[OF inv(1), of "\<lambda>_. it" i] by (simp add: hub_inv_def)
qed

lemma wrap_deliver_inv:
  assumes "hub_inv h" "hub_wrapUp h = Some i" "item_state h i = MessageAccepted" "Out_ID (item_out it) = item_id h i"
    "Out_State (item_out it) = MessageDelivered"
  shows "hub_inv (hub_push (update_event it) ((upd_item i (\<lambda>_. it) h)\<lparr>hub_items := hub_items h @ [i]\<rparr>))" (is "hub_inv ?h")
proof -
  have inv: "ids_ok h" "wrap_ok h" "log_ok h" using assms(1) by (auto simp: hub_inv_def)
  have out: "i \<notin> set (hub_items h)" using wrap_not_accepted_item[OF inv(2) assms(2,3)] .
  have known: "(item_id h i, i) \<in> set (hub_byID h)" using inv(2) assms(2) by (simp add: wrap_ok_def)
  have "ids_ok ?h" using upd_ids_ok[OF inv(1), of "\<lambda>_. it" i] assms(4) out known by (auto simp: ids_ok_def)
  moreover have "wrap_ok ?h" using inv(2) known assms(2,4,5) by (simp add: wrap_ok_def)
  moreover have "log_ok ?h"
    using known out assms(2-5)
    by (intro settle_log_ok[OF inv(1,3), of "item_id h i" i ?h "update_event it"])
      (auto simp: settlement_of_def settlements_def upd_item_def hub_push_def)
  moreover have "accepted_free h \<Longrightarrow> accepted_free ?h" using out assms(5) by (auto simp: accepted_free_def)
  ultimately show ?thesis using assms(1) by (simp add: hub_inv_def)
qed

lemma dedupe_inv:
  assumes "hub_inv h" "Out_ID (item_out it) \<notin> known_ids h" "\<not> hub_finished h" "Out_State (item_out it) = MessageAccepted"
    "Out_ID (item_out it') = Out_ID (item_out it)" "Out_State (item_out it') = MessageDelivered"
  shows "hub_inv (hub_push (update_event it') (upd_item (hub_next h) (\<lambda>_. it') (hub_push (update_event it) (register it h))))"
  by (rule settle_inv[OF register_inv]) (use assms in auto)

lemma move_inv: "\<lbrakk>hub_move h h'; hub_inv h\<rbrakk> \<Longrightarrow> hub_inv h'"
  by (induction rule: hub_move.induct)
    (auto intro: same_items_inv push_quiet_inv turn_end_inv tweak_inv settle_inv register_inv dedupe_inv wrap_register_inv wrap_fail_inv wrap_deliver_inv)

lemma moves_inv: "\<lbrakk>hub_move\<^sup>*\<^sup>* h h'; hub_inv h\<rbrakk> \<Longrightarrow> hub_inv h'"
  by (induction rule: rtranclp_induct) (auto intro: move_inv)

subsection \<open>What is settled stays settled\<close>

text \<open>
  The admission list only grows at its end, an admitted message keeps its identity, and a settled one
  its whole outcome.
\<close>

definition extends :: "messageHub \<Rightarrow> messageHub \<Rightarrow> bool" where
  "extends h h' \<longleftrightarrow> (\<exists>new. hub_items h' = hub_items h @ new)
     \<and> (\<forall>i \<in> set (hub_items h). item_id h' i = item_id h i
          \<and> (item_state h i \<noteq> MessageAccepted \<longrightarrow> item_out (hub_heap h' i) = item_out (hub_heap h i)))
     \<and> (hub_finished h \<longrightarrow> hub_finished h') \<and> hub_start h' = hub_start h"

lemma extends_refl [simp]: "extends h h"
  by (simp add: extends_def)

lemma extends_trans:
  assumes "extends h1 h2" "extends h2 h3"
  shows "extends h1 h3"
proof -
  obtain n1 n2 where n: "hub_items h2 = hub_items h1 @ n1" "hub_items h3 = hub_items h2 @ n2"
    using assms by (auto simp: extends_def)
  then have "\<exists>new. hub_items h3 = hub_items h1 @ new" by simp
  moreover have "set (hub_items h1) \<subseteq> set (hub_items h2)" using n by auto
  ultimately show ?thesis using assms unfolding extends_def by (metis subsetD)
qed

lemma start_fields [simp]:
  "hub_start (hub_push ev h) = hub_start h" "hub_start (upd_item i f h) = hub_start h" "hub_start (register it h) = hub_start h"
  by (simp_all add: hub_push_def upd_item_def register_def)

lemma move_extends: "\<lbrakk>hub_move h h'; hub_inv h\<rbrakk> \<Longrightarrow> extends h h'"
proof (induction rule: hub_move.induct)
  case (register it h)
  then show ?case using next_fresh[of h] by (auto simp: extends_def hub_inv_def)
next
  case (wrap_register h it)
  then show ?case using next_fresh[of h] by (auto simp: extends_def hub_inv_def)
next
  case (dedupe it h it')
  then show ?case using next_fresh[of h] by (auto simp: extends_def hub_inv_def)
qed (auto simp: extends_def same_items_def)

lemma moves_extends: "\<lbrakk>hub_move\<^sup>*\<^sup>* h h'; hub_inv h\<rbrakk> \<Longrightarrow> extends h h'"
proof (induction rule: rtranclp_induct)
  case (step y z)
  then show ?case using move_extends moves_inv extends_trans by blast
qed simp

text \<open>
  An ID is retired when it is on the delivered list and no message is open under it; it stays so, because
  a message is only ever opened under an ID that is neither known nor delivered.
\<close>

definition retired :: "messageHub \<Rightarrow> string \<Rightarrow> bool" where
  "retired h k \<longleftrightarrow> k \<in> set (hub_delivered h) \<and> (\<forall>i. (k, i) \<in> set (hub_byID h) \<longrightarrow> item_state h i \<noteq> MessageAccepted)"

lemma move_retired: "\<lbrakk>hub_move h h'; hub_inv h; retired h k\<rbrakk> \<Longrightarrow> retired h' k"
proof (induction rule: hub_move.induct)
  case (settle i h it)
  then show ?case by (auto simp: retired_def)
next
  case (register it h)
  then show ?case using next_fresh[of h] by (auto simp: retired_def hub_inv_def)
next
  case (dedupe it h it')
  then show ?case using next_fresh[of h] by (auto simp: retired_def hub_inv_def)
next
  case (wrap_register h it)
  then show ?case using next_fresh[of h] by (auto simp: retired_def hub_inv_def)
next
  case (wrap_fail h i it)
  then show ?case by (auto simp: retired_def)
next
  case (wrap_deliver h i it)
  then show ?case by (auto simp: retired_def hub_push_def upd_item_def)
qed (auto simp: retired_def same_items_def)

lemma moves_retired: "\<lbrakk>hub_move\<^sup>*\<^sup>* h h'; hub_inv h; retired h k\<rbrakk> \<Longrightarrow> retired h' k"
proof (induction rule: rtranclp_induct)
  case (step y z)
  then show ?case using move_retired moves_inv by blast
qed

end
