(* ===== verification/HubSystem.thy ===== *)
theory HubSystem
  imports HubProtocol "HOL-Library.Sublist"
begin

text \<open>
  Every method of the hub is a sequence of moves of the message protocol, so the protocol's
  guarantees hold for every interleaving of senders, the driver, cancellation and the execution.
\<close>

abbreviation moves :: "messageHub \<Rightarrow> messageHub \<Rightarrow> bool" where
  "moves \<equiv> hub_move\<^sup>*\<^sup>*"

lemma moves1: "hub_move h h' \<Longrightarrow> moves h h'"
  by (rule r_into_rtranclp)

lemma moves_other:
  "\<lbrakk>same_items h h'; hub_finished h' = hub_finished h; hub_turn h' = hub_turn h; hub_turns h' = hub_turns h\<rbrakk> \<Longrightarrow> moves h h'"
  by (auto intro!: moves1 hub_move.other simp: turns_ok_def turn_ends_def same_items_def)

lemma upd_item_const: "upd_item i f h = upd_item i (\<lambda>_. f (hub_heap h i)) h"
  by (simp add: upd_item_def)

lemma signal_moves [simp]: "moves h (signalLocked h)"
  by (rule moves_other) (auto simp: same_items_def signalLocked_def)

lemma signal_fields [simp]:
  "hub_heap (signalLocked h) = hub_heap h" "hub_items (signalLocked h) = hub_items h" "hub_byID (signalLocked h) = hub_byID h"
  "hub_next (signalLocked h) = hub_next h" "hub_wrapUp (signalLocked h) = hub_wrapUp h" "hub_cap (signalLocked h) = hub_cap h"
  "hub_policy (signalLocked h) = hub_policy h" "hub_finished (signalLocked h) = hub_finished h"
  by (simp_all add: signalLocked_def)

subsection \<open>Single items\<close>

definition tracked :: "messageHub \<Rightarrow> nat \<Rightarrow> bool" where
  "tracked h i \<longleftrightarrow> i \<in> set (hub_items h) \<or> hub_wrapUp h = Some i"

lemma tracked_allocated: "\<lbrakk>hub_inv h; tracked h i\<rbrakk> \<Longrightarrow> i < hub_next h"
  by (auto simp: tracked_def hub_inv_def wrap_ok_def ids_ok_def split: option.splits)

lemma tweak_moves:
  assumes "hub_inv h" "tracked h i" "item_state h i = MessageAccepted"
    "Out_ID (item_out (f (hub_heap h i))) = item_id h i" "Out_State (item_out (f (hub_heap h i))) = MessageAccepted"
  shows "moves h (upd_item i f h)"
  by (subst upd_item_const) (use assms tracked_allocated in \<open>auto intro!: moves1 hub_move.tweak\<close>)

lemma updateLocked_settled:
  "updateLocked i h = (if hub_wrapUp h = Some i \<and> item_state h i \<noteq> MessageDelivered then h else hub_push (update_event (hub_heap h i)) h)"
  by (simp add: updateLocked_def)

lemma upd_item_twice: "upd_item i f (upd_item i g h) = upd_item i (\<lambda>it. f (g it)) h"
  by (simp add: upd_item_def)

text \<open>Replacing an open item by a settled one and reporting it.\<close>

lemma settle_moves:
  assumes "hub_inv h" "tracked h i" "item_state h i = MessageAccepted"
    "Out_ID (item_out (f (hub_heap h i))) = item_id h i" "Out_State (item_out (f (hub_heap h i))) = MessageFailed
      \<or> Out_State (item_out (f (hub_heap h i))) = MessageDelivered \<and> hub_wrapUp h \<noteq> Some i"
  shows "moves h (updateLocked i (upd_item i f h))"
proof (cases "hub_wrapUp h = Some i")
  case True
  then have "updateLocked i (upd_item i f h) = upd_item i (\<lambda>_. f (hub_heap h i)) h"
    using assms(5) by (simp add: updateLocked_def upd_item_const[of i f])
  then show ?thesis using True assms by (auto intro!: moves1 hub_move.wrap_fail)
next
  case False
  then have "updateLocked i (upd_item i f h) = hub_push (update_event (f (hub_heap h i))) (upd_item i (\<lambda>_. f (hub_heap h i)) h)"
    by (simp add: updateLocked_def upd_item_const[of i f])
  moreover have "i \<in> set (hub_items h)" using False assms(2) by (simp add: tracked_def)
  ultimately show ?thesis using assms by (auto intro!: moves1 hub_move.settle)
qed

lemma call_stop_out [simp]: "item_out (call_stop it) = item_out it" "item_claimed (call_stop it) = item_claimed it"
  "item_framed (call_stop it) = item_framed it" "item_ctx (call_stop it) = item_ctx it"
  "item_turnEndOnly (call_stop it) = item_turnEndOnly it" "item_duplicate (call_stop it) = item_duplicate it"
  by (simp_all add: call_stop_def)

definition failed_item :: "MessageFailure \<Rightarrow> hubItem \<Rightarrow> hubItem" where
  "failed_item r it = call_stop (it\<lparr>item_out := (item_out it)\<lparr>Out_State := MessageFailed, Out_Reason := r\<rparr>\<rparr>)"

lemma failLocked_eq: "failLocked i r h = updateLocked i (upd_item i (failed_item r) h)"
  by (simp add: failLocked_def upd_out_def upd_item_twice failed_item_def[abs_def])

lemma failed_item_simps [simp]:
  "Out_ID (item_out (failed_item r it)) = Out_ID (item_out it)"
  "Out_State (item_out (failed_item r it)) = MessageFailed"
  by (simp_all add: failed_item_def)

lemma fail_moves: "\<lbrakk>hub_inv h; tracked h i; item_state h i = MessageAccepted\<rbrakk> \<Longrightarrow> moves h (failLocked i r h)"
  unfolding failLocked_eq by (rule settle_moves) auto

text \<open>A loop whose body makes moves makes moves.\<close>

lemma each_moves:
  assumes "\<And>i h. \<lbrakk>hub_inv h; i \<in> set (hub_items h)\<rbrakk> \<Longrightarrow> moves h (f i h)" "hub_inv h" "set is \<subseteq> set (hub_items h)"
  shows "moves h (hub_each f is h)"
  using assms(2,3)
proof (induction "is" arbitrary: h)
  case (Cons i "is")
  have m: "moves h (f i h)" using Cons.prems assms(1) by simp
  have "set is \<subseteq> set (hub_items (f i h))" using moves_extends[OF m Cons.prems(1)] Cons.prems(2) by (auto simp: extends_def)
  then have "moves (f i h) (hub_each f is (f i h))" using Cons.IH moves_inv[OF m Cons.prems(1)] by simp
  then show ?case using m by (simp add: rtranclp_trans)
qed simp

lemma tracked_items [simp]: "i \<in> set (hub_items h) \<Longrightarrow> tracked h i"
  by (simp add: tracked_def)

lemma withdraw_moves: "\<lbrakk>hub_inv h; tracked h i\<rbrakk> \<Longrightarrow> moves h (withdraw i h)"
  by (auto simp: withdraw_def unclaimed_def intro: fail_moves)

lemma reconcile_moves: "\<lbrakk>hub_inv h; i \<in> set (hub_items h)\<rbrakk> \<Longrightarrow> moves h (reconcile i h)"
  by (auto simp: reconcile_def unclaimed_def intro!: fail_moves split: option.split)

lemma setCapability_moves:
  assumes "hub_inv h"
  shows "moves h (setCapability cap h)"
proof -
  let ?h = "h\<lparr>hub_cap := cap\<rparr>"
  have o: "moves h ?h" by (rule moves_other) (auto simp: same_items_def)
  have "moves ?h (hub_each reconcile (hub_items ?h) ?h)"
    by (rule each_moves) (use moves_inv[OF o assms] reconcile_moves in auto)
  then show ?thesis using o by (simp add: setCapability_def)
qed

lemma cancelPending_moves:
  assumes "hub_inv h"
  shows "moves h (cancelPending h)"
proof -
  let ?h = "h\<lparr>hub_cancelled := True\<rparr>"
  have o: "moves h ?h" by (rule moves_other) (auto simp: same_items_def)
  have "moves ?h (hub_each (\<lambda>i h. if unclaimed h i then failLocked i MessageCancelled h else h) (hub_items ?h) ?h)"
    by (rule each_moves) (use moves_inv[OF o assms] fail_moves in \<open>auto simp: unclaimed_def\<close>)
  then show ?thesis using o by (simp add: cancelPending_def)
qed

lemma Window_moves: "moves h (Window b h)"
  by (simp add: Window_def)

subsection \<open>Admission\<close>

text \<open>Registering under an unused ID; the wrap-up pointer never names a new item.\<close>

lemma update_registered:
  assumes "hub_inv h"
  shows "updateLocked (hub_next h) (register it h) = hub_push (update_event it) (register it h)"
proof -
  have "hub_wrapUp h \<noteq> Some (hub_next h)"
    using tracked_allocated[OF assms, of "hub_next h"] by (auto simp: tracked_def)
  then show ?thesis by (simp add: updateLocked_def)
qed

lemma register_moves:
  assumes "hub_inv h" "Out_ID (item_out it) \<notin> known_ids h"
    "Out_State (item_out it) = MessageAccepted \<longrightarrow> \<not> hub_finished h \<and> Out_ID (item_out it) \<notin> set (hub_delivered h)"
  shows "moves h (updateLocked (hub_next h) (register it h))"
  unfolding update_registered[OF assms(1)] using assms by (auto intro!: moves1 hub_move.register)

lemma registered_fields [simp]:
  assumes "hub_inv h"
  shows "tracked (updateLocked (hub_next h) (register it h)) (hub_next h)"
    "hub_heap (updateLocked (hub_next h) (register it h)) (hub_next h) = it"
    "hub_wrapUp (updateLocked (hub_next h) (register it h)) = hub_wrapUp h"
  unfolding update_registered[OF assms] by (simp_all add: tracked_def)

lemma unknown_id: "by_id h k = None \<Longrightarrow> k \<notin> known_ids h"
  by (simp add: map_of_eq_None_iff)

lemma admit_message_moves:
  assumes "hub_inv h" "by_id h (ms_id m) = None" "\<not> hub_finished h" "ms_id m \<notin> set (hub_delivered h)"
  shows "moves h (admit_message lifetime m txt framed h)"
proof -
  let ?it = "new_item (new_outcome (ms_id m) txt (ms_from m) (ms_timing m) MessageAccepted) framed lifetime"
  let ?h = "updateLocked (hub_next h) (register ?it h)"
  have r: "moves h ?h" using assms unknown_id by (intro register_moves) (auto simp: new_item_def new_outcome_def)
  have "moves ?h (upd_item (hub_next h) (\<lambda>it. it\<lparr>item_stop := Armed\<rparr>) ?h)"
    using moves_inv[OF r assms(1)] assms(1) by (intro tweak_moves) (auto simp: new_item_def new_outcome_def)
  with r have "moves h (upd_item (hub_next h) (\<lambda>it. it\<lparr>item_stop := Armed\<rparr>) ?h)" by (rule rtranclp_trans)
  then show ?thesis using signal_moves rtranclp_trans unfolding admit_message_def Let_def by metis
qed

lemma not_wrap_next: "hub_inv h \<Longrightarrow> hub_wrapUp h \<noteq> Some (hub_next h)"
  using tracked_allocated[of h "hub_next h"] by (auto simp: tracked_def)

lemma admit_deduped_moves:
  assumes "hub_inv h" "by_id h (ms_id m) = None" "\<not> hub_finished h"
  shows "moves h (admit_deduped ctx m txt h)"
proof -
  let ?it = "new_item ((new_outcome (ms_id m) txt (ms_from m) (ms_timing m) MessageAccepted)\<lparr>Out_Mechanism := ''core.dedupe''\<rparr>) '''' ctx"
  let ?it' = "?it\<lparr>item_out := (item_out ?it)\<lparr>Out_State := MessageDelivered\<rparr>\<rparr>"
  have "admit_deduped ctx m txt h = hub_push (update_event ?it')
      (upd_item (hub_next h) (\<lambda>_. ?it') (hub_push (update_event ?it) (register ?it h)))"
    using not_wrap_next[OF assms(1)] unfolding admit_deduped_def upd_out_def Let_def update_registered[OF assms(1)]
    by (simp add: updateLocked_def upd_item_def)
  moreover have "Out_ID (item_out ?it) \<notin> known_ids h" using unknown_id[OF assms(2)] by (simp add: new_item_def new_outcome_def)
  ultimately show ?thesis using hub_move.dedupe[OF _ assms(3), of ?it ?it'] by (simp add: new_item_def new_outcome_def moves1)
qed

lemma send_moves:
  assumes "hub_inv h"
  shows "moves h (snd (send_attempt ctx lifetime m txt framed h))"
  unfolding send_attempt_def using admit_message_moves[OF assms] admit_deduped_moves[OF assms]
  by (auto split: option.split prod.split)

subsection \<open>Sealing\<close>

lemma each_finished:
  assumes "\<And>i h. f i (h\<lparr>hub_finished := True\<rparr>) = (f i h)\<lparr>hub_finished := True\<rparr>"
  shows "hub_each f is (h\<lparr>hub_finished := True\<rparr>) = (hub_each f is h)\<lparr>hub_finished := True\<rparr>"
  by (induction "is" arbitrary: h) (simp_all add: assms)

lemma fail_finished: "failLocked i r (h\<lparr>hub_finished := True\<rparr>) = (failLocked i r h)\<lparr>hub_finished := True\<rparr>"
  by (simp add: failLocked_eq updateLocked_def upd_item_def hub_push_def)

definition fail_open :: "MessageFailure \<Rightarrow> nat \<Rightarrow> messageHub \<Rightarrow> messageHub" where
  "fail_open r i h = (if item_state h i = MessageAccepted then failLocked i r h else h)"

lemma finish_eq: "finish r h = (hub_each (fail_open r) (hub_items h) h)\<lparr>hub_finished := True\<rparr>"
proof -
  have "(\<lambda>i h. if item_state h i = MessageAccepted then failLocked i r h else h) = fail_open r"
    by (simp add: fail_open_def fun_eq_iff)
  moreover have "fail_open r i (h\<lparr>hub_finished := True\<rparr>) = (fail_open r i h)\<lparr>hub_finished := True\<rparr>" for i h
    by (simp add: fail_open_def fail_finished)
  ultimately show ?thesis using each_finished[of "fail_open r"] by (simp add: finish_def)
qed

lemma fail_open_moves: "\<lbrakk>hub_inv h; i \<in> set (hub_items h)\<rbrakk> \<Longrightarrow> moves h (fail_open r i h)"
  by (auto simp: fail_open_def intro: fail_moves)

lemma updateLocked_fields [simp]:
  "hub_heap (updateLocked i h) = hub_heap h" "hub_items (updateLocked i h) = hub_items h" "hub_byID (updateLocked i h) = hub_byID h"
  "hub_next (updateLocked i h) = hub_next h" "hub_wrapUp (updateLocked i h) = hub_wrapUp h" "hub_finished (updateLocked i h) = hub_finished h"
  by (simp_all add: updateLocked_def)

lemma failLocked_fields [simp]:
  "hub_heap (failLocked i r h) = (hub_heap h)(i := failed_item r (hub_heap h i))" "hub_items (failLocked i r h) = hub_items h"
  "hub_byID (failLocked i r h) = hub_byID h" "hub_next (failLocked i r h) = hub_next h"
  "hub_wrapUp (failLocked i r h) = hub_wrapUp h" "hub_finished (failLocked i r h) = hub_finished h"
  by (simp_all add: failLocked_eq)

lemma fail_open_state:
  "hub_items (hub_each (fail_open r) is h) = hub_items h"
  "item_state (hub_each (fail_open r) is h) j
     = (if j \<in> set is \<and> item_state h j = MessageAccepted then MessageFailed else item_state h j)"
  by (induction "is" arbitrary: h) (auto simp: fail_open_def)

lemma finish_free: "accepted_free (hub_each (fail_open r) (hub_items h) h)"
  by (simp add: accepted_free_def fail_open_state)

lemma finish_moves:
  assumes "hub_inv h"
  shows "moves h (finish r h)"
proof -
  let ?h = "hub_each (fail_open r) (hub_items h) h"
  have m: "moves h ?h" by (rule each_moves[OF fail_open_moves assms]) auto
  have "hub_move ?h (?h\<lparr>hub_finished := True\<rparr>)"
    using finish_free by (intro hub_move.other) (auto simp: same_items_def turns_ok_def turn_ends_def)
  then show ?thesis using m by (simp add: finish_eq)
qed

lemma closeIfIdle_moves: "moves h (snd (closeIfIdle h))"
  by (auto simp: closeIfIdle_def list_ex_iff same_items_def accepted_free_def turns_ok_def turn_ends_def intro!: moves1 hub_move.other)

subsection \<open>Acknowledgement\<close>

definition add_receipt :: "string \<Rightarrow> gotime \<Rightarrow> messageHub \<Rightarrow> messageHub" where
  "add_receipt k now h = h\<lparr>hub_delivered := k # hub_delivered h,
     hub_receipts := hub_receipts h @ [\<lparr>Delivered_ID = k, Delivered_At = now\<rparr>]\<rparr>"

lemma add_receipt_moves: "moves h (add_receipt k now h)"
  by (rule moves_other) (auto simp: same_items_def add_receipt_def)

lemma add_receipt_update: "updateLocked i (add_receipt k now h) = add_receipt k now (updateLocked i h)"
  by (simp add: updateLocked_def add_receipt_def hub_push_def)

definition deliver_item :: "hubItem \<Rightarrow> hubItem" where
  "deliver_item it = it\<lparr>item_out := (item_out it)\<lparr>Out_State := MessageDelivered\<rparr>\<rparr>"

lemma ack_delivered_moves:
  assumes "hub_inv h" "tracked h i" "item_state h i = MessageAccepted"
  shows "moves h (ack_delivered now i k h)"
proof (cases "hub_wrapUp h = Some i")
  case True
  have "ack_delivered now i k h = add_receipt k now (hub_push (update_event (deliver_item (hub_heap h i)))
      ((upd_item i (\<lambda>_. deliver_item (hub_heap h i)) h)\<lparr>hub_items := hub_items h @ [i]\<rparr>))"
    using True by (simp add: ack_delivered_def Let_def upd_out_def upd_item_def updateLocked_def deliver_item_def add_receipt_def hub_push_def)
  moreover have "hub_move h (hub_push (update_event (deliver_item (hub_heap h i)))
      ((upd_item i (\<lambda>_. deliver_item (hub_heap h i)) h)\<lparr>hub_items := hub_items h @ [i]\<rparr>))"
    using True assms(3) by (intro hub_move.wrap_deliver) (auto simp: deliver_item_def)
  ultimately show ?thesis using add_receipt_moves by (metis converse_rtranclp_into_rtranclp)
next
  case False
  have eq: "ack_delivered now i k h = add_receipt k now (updateLocked i (upd_item i deliver_item h))"
    using False by (simp add: ack_delivered_def Let_def upd_out_def upd_item_def updateLocked_def deliver_item_def add_receipt_def hub_push_def)
  have "moves h (updateLocked i (upd_item i deliver_item h))"
    using assms False by (intro settle_moves) (auto simp: deliver_item_def)
  then show ?thesis unfolding eq using add_receipt_moves rtranclp_trans by metis
qed

lemma update_accepted_moves:
  assumes "item_state h i = MessageAccepted"
  shows "moves h (updateLocked i h)"
proof -
  have "quiet (update_event (hub_heap h i))" using assms by (simp add: quiet_def)
  then show ?thesis by (auto simp: updateLocked_def intro!: moves1 hub_move.report)
qed

lemma ack_requeue_moves:
  assumes "hub_inv h" "tracked h i" "item_state h i = MessageAccepted"
  shows "moves h (ack_requeue i ack h)"
proof -
  define f :: "hubItem \<Rightarrow> hubItem" where "f = (\<lambda>it. if Ack_MaybeDelivered ack \<and> \<not> item_duplicate it
                 then it\<lparr>item_duplicate := True, item_framed := item_framed it @ duplicateWarning\<rparr> else it)"
  define h2 where "h2 = upd_item i (\<lambda>it. f (it\<lparr>item_turnEndOnly := True\<rparr>)) h"
  have m2: "moves h h2" unfolding h2_def using assms by (intro tweak_moves) (auto simp: f_def)
  have i2: "hub_inv h2" "tracked h2 i" "item_state h2 i = MessageAccepted"
    using moves_inv[OF m2 assms(1)] assms(2,3) by (auto simp: h2_def tracked_def f_def)
  have eq: "ack_requeue i ack h = (if hub_wrapUp h2 \<noteq> Some i
      then signalLocked (upd_item i (\<lambda>it. it\<lparr>item_stop := Armed\<rparr>) (updateLocked i h2)) else h2)"
    by (simp add: ack_requeue_def Let_def upd_item_twice h2_def f_def)
  have u: "moves h2 (updateLocked i h2)" using update_accepted_moves[OF i2(3)] .
  have "moves (updateLocked i h2) (upd_item i (\<lambda>it. it\<lparr>item_stop := Armed\<rparr>) (updateLocked i h2))"
    using i2 moves_inv[OF u i2(1)] by (intro tweak_moves) (auto simp: tracked_def)
  then have "moves h2 (signalLocked (upd_item i (\<lambda>it. it\<lparr>item_stop := Armed\<rparr>) (updateLocked i h2)))"
    using u signal_moves rtranclp_trans by metis
  then show ?thesis unfolding eq using m2 rtranclp_trans by auto
qed

lemma by_id_tracked: "\<lbrakk>hub_inv h; by_id h k = Some i\<rbrakk> \<Longrightarrow> tracked h i \<and> item_id h i = k"
  using ids_okD[of h k i] by_id_iff[of h k i] by (auto simp: hub_inv_def tracked_def)

definition release_item :: "string \<Rightarrow> hubItem \<Rightarrow> hubItem" where
  "release_item mech it = it\<lparr>item_claimed := False, item_out := (item_out it)\<lparr>Out_Boundary := item_boundary it,
     Out_Mechanism := mech\<rparr>\<rparr>"

lemma release_moves:
  assumes "hub_inv h" "tracked h i" "item_state h i = MessageAccepted"
  shows "moves h (upd_item i (release_item mech) h)" "hub_inv (upd_item i (release_item mech) h)"
    "tracked (upd_item i (release_item mech) h) i" "item_state (upd_item i (release_item mech) h) i = MessageAccepted"
proof -
  show m: "moves h (upd_item i (release_item mech) h)" using assms by (intro tweak_moves) (auto simp: release_item_def)
  show "hub_inv (upd_item i (release_item mech) h)" using moves_inv[OF m assms(1)] .
  show "tracked (upd_item i (release_item mech) h) i" "item_state (upd_item i (release_item mech) h) i = MessageAccepted"
    using assms(2,3) by (auto simp: tracked_def release_item_def)
qed

lemma Ack_moves:
  assumes "hub_inv h"
  shows "moves h (Ack now k ack h)"
proof (cases "by_id h k")
  case None
  then show ?thesis by (simp add: Ack_def)
next
  case (Some i)
  have t: "tracked h i" using by_id_tracked[OF assms Some] by simp
  show ?thesis
  proof (cases "item_claimed (hub_heap h i) \<and> item_state h i = MessageAccepted")
    case False
    then show ?thesis using Some by (auto simp: Ack_def)
  next
    case True
    let ?h = "upd_item i (release_item (Ack_Mechanism ack)) h"
    note r = release_moves[OF assms t, of "Ack_Mechanism ack"]
    have "moves ?h (ack_delivered now i k ?h)" "moves ?h (ack_requeue i ack ?h)" "moves ?h (failLocked i x ?h)" for x
      using r True ack_delivered_moves ack_requeue_moves fail_moves by blast+
    then have "moves h (ack_delivered now i k ?h)" "moves h (ack_requeue i ack ?h)" "moves h (failLocked i x ?h)" for x
      using r(1) True rtranclp_trans by metis+
    then show ?thesis using True Some by (simp add: Ack_def Let_def release_item_def[abs_def])
  qed
qed

text \<open>The starting prompt, once registered, is an admitted item and never the wrap-up instruction.\<close>

definition start_ok :: "messageHub \<Rightarrow> bool" where
  "start_ok h \<longleftrightarrow> ms_id (hub_start h) = '''' \<or> (\<exists>i \<in> set (hub_items h). item_id h i = ms_id (hub_start h))"

lemma start_ok_extends: "\<lbrakk>start_ok h; extends h h'\<rbrakk> \<Longrightarrow> start_ok h'"
  unfolding start_ok_def extends_def by (metis UnCI set_append)

lemma start_not_wrap:
  assumes "hub_inv h" "start_ok h" "by_id h (ms_id (hub_start h)) = Some i" "item_state h i = MessageAccepted"
  shows "hub_wrapUp h \<noteq> Some i"
proof
  assume w: "hub_wrapUp h = Some i"
  have inv: "ids_ok h" "wrap_ok h" using assms(1) by (auto simp: hub_inv_def)
  have ne: "item_id h i \<noteq> ''''" using w inv(2) by (simp add: wrap_ok_def)
  have "item_id h i = ms_id (hub_start h)" using by_id_tracked[OF assms(1,3)] by simp
  then obtain j where j: "j \<in> set (hub_items h)" "item_id h j = ms_id (hub_start h)" using assms(2) ne by (auto simp: start_ok_def)
  then have "by_id h (ms_id (hub_start h)) = Some j" using items_allocated[OF inv(1)] by_id_iff[OF inv(1)] by metis
  then show False using j assms(3,4) w wrap_not_accepted_item[OF inv(2) w] by simp
qed

lemma ackStart_moves:
  assumes "hub_inv h" "start_ok h"
  shows "moves h (ackStart now success h)"
proof (cases "by_id h (ms_id (hub_start h))")
  case None
  then show ?thesis by (simp add: ackStart_def)
next
  case (Some i)
  have t: "tracked h i" using by_id_tracked[OF assms(1) Some] by simp
  show ?thesis
  proof (cases "item_state h i = MessageAccepted")
    case False
    then show ?thesis using Some by (simp add: ackStart_def)
  next
    case True
    have nw: "hub_wrapUp h \<noteq> Some i" using start_not_wrap[OF assms Some True] .
    let ?f = "\<lambda>it. it\<lparr>item_claimed := False, item_out := (item_out it)\<lparr>Out_State := MessageDelivered, Out_Mechanism := ''core.prompt''\<rparr>\<rparr>"
    let ?g = "\<lambda>it. it\<lparr>item_claimed := False, item_out := (item_out it)\<lparr>Out_State := MessageFailed,
             Out_Reason := (if hub_ctxErr h 0 \<noteq> None then MessageCancelled else MessageRunFailed)\<rparr>\<rparr>"
    have "moves h (updateLocked i (upd_item i ?f h))" using nw t True assms(1) by (intro settle_moves) auto
    then have "moves h (add_receipt (item_id h i) now (updateLocked i (upd_item i ?f h)))"
      by (rule rtranclp_trans[OF _ add_receipt_moves])
    moreover have "moves h (updateLocked i (upd_item i ?g h))" using t True assms(1) by (intro settle_moves) auto
    moreover have "ackStart now success h = (if success
        then add_receipt (item_id h i) now (updateLocked i (upd_item i ?f h)) else updateLocked i (upd_item i ?g h))"
      using Some True unfolding ackStart_def upd_out_def upd_item_twice Let_def
      by (auto simp: add_receipt_def upd_item_def updateLocked_def hub_push_def)
    ultimately show ?thesis by (cases success) simp_all
  qed
qed

lemma ack_prompt_fail_moves:
  assumes "hub_inv h"
  shows "moves h (ack_prompt_fail k h)"
proof (cases "by_id h k")
  case (Some i)
  have t: "tracked h i" using by_id_tracked[OF assms Some] by simp
  have "moves h (failLocked i x (upd_item i (release_item ''core.resume'') h))" if "item_state h i = MessageAccepted" for x
    using release_moves[OF assms t that] fail_moves rtranclp_trans by metis
  then show ?thesis using Some by (simp add: ack_prompt_fail_def release_item_def[abs_def])
qed (simp add: ack_prompt_fail_def)

lemma ack_prompt_one_moves: "hub_inv h \<Longrightarrow> moves h (ack_prompt_one now success deadline k h)"
  by (simp add: ack_prompt_one_def ack_prompt_fail_moves Ack_moves)

subsection \<open>Receipts, turns, prompts\<close>

lemma load_receipts_same: "same_items h (load_receipts cutoff rs h) \<and> hub_finished (load_receipts cutoff rs h) = hub_finished h
  \<and> hub_turn (load_receipts cutoff rs h) = hub_turn h \<and> hub_turns (load_receipts cutoff rs h) = hub_turns h"
  by (induction cutoff rs h rule: load_receipts.induct) (auto simp: same_items_def)

lemma load_settle_moves:
  assumes "hub_inv h" "i \<in> set (hub_items h)"
  shows "moves h (load_settle i h)"
proof -
  have "hub_wrapUp h \<noteq> Some i" if "item_state h i = MessageAccepted"
    using wrap_not_accepted_item[of h i] assms that by (auto simp: hub_inv_def)
  then show ?thesis using assms by (auto simp: load_settle_def Let_def intro!: settle_moves)
qed

lemma load_moves:
  assumes "hub_inv h"
  shows "moves h (load now receipts h)"
proof -
  let ?h = "load_receipts (now - retention) receipts h"
  have o: "moves h ?h" using load_receipts_same moves_other by blast
  have "moves ?h (hub_each load_settle (hub_items ?h) ?h)"
    by (rule each_moves) (use moves_inv[OF o assms] load_settle_moves in auto)
  with o show ?thesis unfolding load_def Let_def by (rule rtranclp_trans)
qed

lemma completeTurn_moves: "moves h (completeTurn res err h)"
proof (cases "hub_finished h \<or> MP_MaxTurns (hub_policy h) < int (length (hub_turns h)) + 1")
  case True
  then show ?thesis by (simp add: completeTurn_def)
next
  case False
  define turn where "turn = int (length (hub_turns h)) + 1"
  define h1 where "h1 = h\<lparr>hub_resultTurns := (hub_resultTurns h)(res := 1), hub_turns := hub_turns h @ [res]\<rparr>"
  define ev where "ev = EvTurnEnd \<lparr>TurnEnd_Turn = turn, TurnEnd_Result = Some res, TurnEnd_Err = err, TurnEnd_MessageIDs =
    map (\<lambda>i. Out_ID (item_out (hub_item h1 i)))
      (filter (\<lambda>i. Out_Turn (item_out (hub_item h1 i)) = turn \<and> item_state h1 i = MessageDelivered) (hub_items h1))\<rparr>"
  define h3 where "h3 = (hub_push ev h1)\<lparr>hub_turn := turn + 1\<rparr>"
  define ev2 where "ev2 = plain_notice ''limit.approaching'' ''The execution is approaching its turn limit; begin wrapping up.'' []"
  let ?h2 = "h1\<lparr>hub_turn := turn + 1\<rparr>"
  have h3: "h3 = hub_push ev ?h2" by (simp add: h3_def hub_push_def)
  have "hub_move h h3"
    unfolding h3 ev_def using False by (intro hub_move.turn_end) (auto simp: same_items_def h1_def turn_def)
  moreover have "moves h3 (h3\<lparr>hub_warned := True\<rparr>)" by (rule moves_other) (simp_all add: same_items_def)
  moreover have "moves (h3\<lparr>hub_warned := True\<rparr>) (hub_push ev2 (h3\<lparr>hub_warned := True\<rparr>))"
    by (auto intro!: moves1 hub_move.report simp: quiet_def ev2_def plain_notice_def)
  ultimately have m: "moves h h3" "moves h (hub_push ev2 (h3\<lparr>hub_warned := True\<rparr>))"
    by (simp_all add: moves1)
  have "completeTurn res err h = (if \<not> MP_Disabled (hub_policy h3) \<and> \<not> hub_warned h3 \<and> wrapUpThreshold h3 \<le> turn
           \<and> turn < MP_MaxTurns (hub_policy h3) \<and> err = None \<and> (hub_resume h3 \<or> Cap_Continue (hub_cap h3) = ContinueInRun)
        then hub_push ev2 (h3\<lparr>hub_warned := True\<rparr>) else h3)"
    using False unfolding completeTurn_def Let_def turn_def[symmetric] h1_def[symmetric] ev_def[symmetric] h3_def[symmetric] ev2_def[symmetric]
    by simp
  then show ?thesis using m by (auto intro: rtranclp_trans)
qed

lemma setPrompt_moves: "moves h (setPrompt items h)"
  by (rule moves_other) (auto simp: same_items_def setPrompt_def)

lemma carryPrompt_moves:
  assumes "hub_inv h" "\<not> hub_finished h"
  shows "moves h (snd (carryPrompt out h))"
proof (cases "Out_ID out \<in> set (hub_delivered h) \<or> by_id h (Out_ID out) \<noteq> None")
  case False
  then have "Out_ID out \<notin> known_ids h" using unknown_id by auto
  then have "moves h (updateLocked (hub_next h) (register it h))" if "Out_ID (item_out it) = Out_ID out" for it
    using register_moves[OF assms(1)] assms(2) False that by simp
  then show ?thesis using False by (simp add: carryPrompt_def Let_def new_item_def)
qed (auto simp: carryPrompt_def)

subsection \<open>Claiming\<close>

text \<open>The size of a batch whose texts are joined by two newlines.\<close>

definition joined_units :: "MessageUnit \<Rightarrow> string list \<Rightarrow> int" where
  "joined_units unit texts = sum_list (map (\<lambda>t. framedMessageUnits t unit) texts) + 2 * int (length texts - 1)"

text \<open>
  What a scan has established: the selected items are admitted, open, unclaimed, with a live sender
  and deliverable at this boundary; the batch is what they read and fits the provider's limit.
\<close>

definition claimable :: "Boundary \<Rightarrow> messageHub \<Rightarrow> nat \<Rightarrow> bool" where
  "claimable b h i \<longleftrightarrow> i \<in> set (hub_items h) \<and> unclaimed h i \<and> hub_ctxErr h (item_ctx (hub_heap h i)) = None
     \<and> \<not> claim_skips b (hub_heap h i)"

definition same_setup :: "messageHub \<Rightarrow> messageHub \<Rightarrow> bool" where
  "same_setup h h' \<longleftrightarrow> hub_items h' = hub_items h \<and> hub_byID h' = hub_byID h \<and> hub_next h' = hub_next h
     \<and> hub_wrapUp h' = hub_wrapUp h \<and> hub_cap h' = hub_cap h \<and> hub_policy h' = hub_policy h \<and> hub_ctxErr h' = hub_ctxErr h
     \<and> hub_turn h' = hub_turn h \<and> hub_turns h' = hub_turns h \<and> hub_warned h' = hub_warned h \<and> hub_finished h' = hub_finished h
     \<and> hub_delivered h' = hub_delivered h \<and> hub_runID h' = hub_runID h"

lemma same_setup_refl [simp]: "same_setup h h"
  by (simp add: same_setup_def)

lemma same_setup_trans: "\<lbrakk>same_setup h h1; same_setup h1 h2\<rbrakk> \<Longrightarrow> same_setup h h2"
  by (simp add: same_setup_def)

lemma fail_setup: "same_setup h (failLocked i r h)"
  by (simp add: same_setup_def failLocked_eq updateLocked_def hub_push_def upd_item_def)

definition scan_ok :: "Boundary \<Rightarrow> messageHub \<Rightarrow> claim_acc \<Rightarrow> bool" where
  "scan_ok b h acc \<longleftrightarrow>
     hub_inv (acc_hub acc) \<and> moves h (acc_hub acc) \<and> same_setup h (acc_hub acc)
     \<and> distinct (acc_selected acc)
     \<and> (\<forall>i \<in> set (acc_selected acc). claimable b h i \<and> hub_heap (acc_hub acc) i = hub_heap h i)
     \<and> acc_out acc = map (\<lambda>i. claim_item (hub_heap h i)) (acc_selected acc)
     \<and> acc_units acc = joined_units (Cap_Unit (hub_cap h)) (map Item_Text (acc_out acc))
     \<and> (0 < Cap_MaxUnits (hub_cap h) \<longrightarrow> acc_units acc \<le> Cap_MaxUnits (hub_cap h))"

lemma scan_fail:
  assumes "scan_ok b h acc" "i \<in> set (hub_items (acc_hub acc))" "unclaimed (acc_hub acc) i" "i \<notin> set (acc_selected acc)"
  shows "scan_ok b h (acc\<lparr>acc_hub := failLocked i r (acc_hub acc)\<rparr>)"
proof -
  let ?h = "acc_hub acc" and ?h' = "failLocked i r (acc_hub acc)"
  have ok: "hub_inv ?h" "moves h ?h" "same_setup h ?h" using assms(1) by (auto simp: scan_ok_def)
  have m: "moves ?h ?h'" using fail_moves[OF ok(1)] assms(2,3) by (simp add: unclaimed_def)
  have "moves h ?h'" using ok(2) m by (rule rtranclp_trans)
  moreover have "hub_inv ?h'" using moves_inv[OF m ok(1)] .
  moreover have "same_setup h ?h'" using same_setup_trans[OF ok(3) fail_setup] .
  moreover have "\<forall>j \<in> set (acc_selected acc). hub_heap ?h' j = hub_heap h j" using assms(1,4) by (auto simp: scan_ok_def)
  ultimately show ?thesis using assms(1) unfolding scan_ok_def by auto
qed

lemma joined_units_snoc:
  "joined_units unit (texts @ [t]) = joined_units unit texts + (if texts \<noteq> [] then 2 else 0) + framedMessageUnits t unit"
  by (cases texts) (simp_all add: joined_units_def)

text \<open>The outcome of one step, with the hub it started from in place of the current one.\<close>

lemma claim_step_ok:
  assumes "scan_ok b h acc" "i \<in> set (hub_items h)" "i \<notin> set (acc_selected acc)" "hub_heap (acc_hub acc) i = hub_heap h i"
  shows "scan_ok b h (claim_step b i acc)"
    and "set (acc_selected (claim_step b i acc)) \<subseteq> insert i (set (acc_selected acc))"
    and "\<And>j. j \<noteq> i \<Longrightarrow> hub_heap (acc_hub (claim_step b i acc)) j = hub_heap (acc_hub acc) j"
proof -
  let ?h = "acc_hub acc"
  have same: "hub_items ?h = hub_items h" "hub_ctxErr ?h = hub_ctxErr h" "hub_cap ?h = hub_cap h"
    using assms(1) by (auto simp: scan_ok_def same_setup_def)
  have cl: "claimable b ?h i = claimable b h i" "unclaimed ?h i = unclaimed h i"
    using same assms(4) by (auto simp: claimable_def unclaimed_def)
  have fail: "scan_ok b h (acc\<lparr>acc_hub := failLocked i r ?h\<rparr>)" if "unclaimed h i" for r
    using scan_fail[OF assms(1)] that assms(2,3) same cl by simp
  define units where "units = framedMessageUnits (item_framed (hub_heap h i)) (Cap_Unit (hub_cap h))"
  define maxu where "maxu = Cap_MaxUnits (hub_cap h)"
  define acc' where "acc' = acc\<lparr>acc_units := acc_units acc + (if acc_out acc \<noteq> [] then 2 else 0) + units,
     acc_selected := acc_selected acc @ [i],
     acc_successor := (acc_successor acc \<or> b = BoundaryImmediate \<and> Out_Timing (item_out (hub_heap h i)) = Interrupt),
     acc_out := acc_out acc @ [claim_item (hub_heap h i)]\<rparr>"
  have eq: "claim_step b i acc = (if \<not> unclaimed h i then acc
      else if hub_ctxErr h (item_ctx (hub_heap h i)) \<noteq> None then acc\<lparr>acc_hub := failLocked i MessageCancelled ?h\<rparr>
      else if claim_skips b (hub_heap h i) then acc
      else if 0 < maxu \<and> maxu < units then acc\<lparr>acc_hub := failLocked i MessageLimitExceeded ?h\<rparr>
      else if 0 < maxu \<and> acc_out acc \<noteq> [] \<and> maxu - acc_units acc < units + 2 then acc\<lparr>acc_full := True\<rparr> else acc')"
    using same assms(4) cl(2) by (simp add: claim_step_def Let_def units_def maxu_def acc'_def)
  have full: "scan_ok b h (acc\<lparr>acc_full := True\<rparr>)" using assms(1) unfolding scan_ok_def by auto
  have take: "scan_ok b h acc'" if "claimable b h i" "\<not> (0 < maxu \<and> maxu < units)"
    "\<not> (0 < maxu \<and> acc_out acc \<noteq> [] \<and> maxu - acc_units acc < units + 2)"
  proof -
    have u: "acc_units acc' = joined_units (Cap_Unit (hub_cap h)) (map Item_Text (acc_out acc'))"
      using assms(1) by (simp add: acc'_def joined_units_snoc scan_ok_def claim_item_def units_def)
    have "acc_out acc = [] \<Longrightarrow> acc_units acc = 0" using assms(1) by (simp add: scan_ok_def joined_units_def)
    then have "0 < maxu \<longrightarrow> acc_units acc' \<le> maxu" using that(2,3) by (auto simp: acc'_def)
    then show ?thesis using assms(1,3,4) that(1) u by (simp add: scan_ok_def acc'_def maxu_def)
  qed
  show "scan_ok b h (claim_step b i acc)"
    unfolding eq using fail full take assms(1,2) by (auto simp: claimable_def)
  show "set (acc_selected (claim_step b i acc)) \<subseteq> insert i (set (acc_selected acc))"
    by (auto simp: claim_step_def Let_def)
  show "hub_heap (acc_hub (claim_step b i acc)) j = hub_heap (acc_hub acc) j" if "j \<noteq> i" for j
    using that by (auto simp: claim_step_def Let_def)
qed

lemma claim_scan_ok:
  assumes "scan_ok b h0 acc" "set is \<subseteq> set (hub_items h0)" "distinct is" "set is \<inter> set (acc_selected acc) = {}"
    "\<forall>i \<in> set is. hub_heap (acc_hub acc) i = hub_heap h0 i"
  shows "scan_ok b h0 (claim_scan b is acc)"
  using assms
proof (induction b "is" acc rule: claim_scan.induct)
  case (2 b i "is" acc)
  have s: "scan_ok b h0 (claim_step b i acc)" "set (acc_selected (claim_step b i acc)) \<subseteq> insert i (set (acc_selected acc))"
    "\<And>j. j \<noteq> i \<Longrightarrow> hub_heap (acc_hub (claim_step b i acc)) j = hub_heap (acc_hub acc) j"
    using claim_step_ok[of b h0 acc i] 2(2-6) by auto
  show ?case
  proof (cases "acc_full (claim_step b i acc)")
    case True
    then show ?thesis using s(1) by simp
  next
    case False
    have "scan_ok b h0 (claim_scan b is (claim_step b i acc))"
    proof (rule 2(1)[OF refl False s(1)])
      show "\<forall>j \<in> set is. hub_heap (acc_hub (claim_step b i acc)) j = hub_heap h0 j"
        using 2(4,6) s(3) by (metis distinct.simps(2) list.set_intros(2))
    qed (use 2(3-5) s(2) in auto)
    then show ?thesis using False by simp
  qed
qed simp

text \<open>
  The selection takes the eligible messages in admission order: it is a prefix of them, and empty only
  when there are none.
\<close>

definition eligible :: "Boundary \<Rightarrow> messageHub \<Rightarrow> nat \<Rightarrow> bool" where
  "eligible b h i \<longleftrightarrow> claimable b h i \<and> \<not> (0 < Cap_MaxUnits (hub_cap h)
     \<and> Cap_MaxUnits (hub_cap h) < framedMessageUnits (item_framed (hub_heap h i)) (Cap_Unit (hub_cap h)))"

lemma claim_step_eligible:
  assumes "scan_ok b h0 acc" "i \<in> set (hub_items h0)" "hub_heap (acc_hub acc) i = hub_heap h0 i" "\<not> acc_full acc"
  shows "acc_selected (claim_step b i acc) = acc_selected acc @ (if eligible b h0 i \<and> \<not> acc_full (claim_step b i acc) then [i] else [])
    \<and> (acc_full (claim_step b i acc) \<longrightarrow> acc_out acc \<noteq> [])"
proof -
  have "hub_cap (acc_hub acc) = hub_cap h0" "hub_ctxErr (acc_hub acc) = hub_ctxErr h0"
    using assms(1) by (auto simp: scan_ok_def same_setup_def)
  moreover have "unclaimed (acc_hub acc) i = unclaimed h0 i" using assms(3) by (simp add: unclaimed_def)
  ultimately show ?thesis using assms(2-4) by (auto simp: claim_step_def Let_def eligible_def claimable_def)
qed

lemma claim_scan_prefix:
  assumes "scan_ok b h0 acc" "set is \<subseteq> set (hub_items h0)" "distinct is" "set is \<inter> set (acc_selected acc) = {}"
    "\<forall>i \<in> set is. hub_heap (acc_hub acc) i = hub_heap h0 i" "\<not> acc_full acc"
  shows "\<exists>s. acc_selected (claim_scan b is acc) = acc_selected acc @ s \<and> prefix s (filter (eligible b h0) is)
    \<and> (acc_out acc = [] \<and> s = [] \<longrightarrow> filter (eligible b h0) is = [])"
  using assms
proof (induction b "is" acc rule: claim_scan.induct)
  case (2 b i "is" acc)
  let ?acc = "claim_step b i acc"
  have s: "scan_ok b h0 ?acc" "set (acc_selected ?acc) \<subseteq> insert i (set (acc_selected acc))"
    "\<And>j. j \<noteq> i \<Longrightarrow> hub_heap (acc_hub ?acc) j = hub_heap (acc_hub acc) j"
    using claim_step_ok[of b h0 acc i] 2(2-6) by auto
  have e: "acc_selected ?acc = acc_selected acc @ (if eligible b h0 i \<and> \<not> acc_full ?acc then [i] else [])"
    "acc_full ?acc \<longrightarrow> acc_out acc \<noteq> []"
    using claim_step_eligible[OF 2(2)] 2(3,6,7) by auto
  show ?case
  proof (cases "acc_full ?acc")
    case True
    then show ?thesis using e by auto
  next
    case False
    have "\<exists>t. acc_selected (claim_scan b is ?acc) = acc_selected ?acc @ t \<and> prefix t (filter (eligible b h0) is)
        \<and> (acc_out ?acc = [] \<and> t = [] \<longrightarrow> filter (eligible b h0) is = [])"
    proof (rule 2(1)[OF refl False s(1)])
      show "\<forall>j \<in> set is. hub_heap (acc_hub ?acc) j = hub_heap h0 j"
        using 2(4,6) s(3) by (metis distinct.simps(2) list.set_intros(2))
    qed (use 2(3-5) s(2) False in auto)
    moreover have "acc_out ?acc = [] \<longleftrightarrow> acc_out acc = [] \<and> \<not> eligible b h0 i"
      using s(1) 2(2) e(1) False by (auto simp: scan_ok_def)
    ultimately show ?thesis using False e(1) by auto
  qed
qed simp

definition scan_start :: "Boundary \<Rightarrow> messageHub \<Rightarrow> claim_acc" where
  "scan_start b h = \<lparr>acc_hub = h, acc_selected = [], acc_out = [], acc_units = 0, acc_full = False, acc_successor = (b = BoundaryStop)\<rparr>"

lemma scan_result_ok:
  assumes "hub_inv h"
  shows "scan_ok b h (claim_scan b (hub_items h) (scan_start b h))"
  using assms by (intro claim_scan_ok) (auto simp: scan_ok_def scan_start_def joined_units_def hub_inv_def ids_ok_def)

text \<open>Marking the selection as claimed.\<close>

definition marked :: "Boundary \<Rightarrow> int \<Rightarrow> hubItem \<Rightarrow> hubItem" where
  "marked b turn it = call_stop (it\<lparr>item_claimed := True, item_boundary := b, item_out := (item_out it)\<lparr>Out_Turn := turn\<rparr>\<rparr>)"

lemma marked_simps [simp]:
  "Out_ID (item_out (marked b turn it)) = Out_ID (item_out it)" "Out_State (item_out (marked b turn it)) = Out_State (item_out it)"
  "item_claimed (marked b turn it)" "Out_Turn (item_out (marked b turn it)) = turn" "item_framed (marked b turn it) = item_framed it"
  by (simp_all add: marked_def)

lemma mark_claimed_eq: "mark_claimed b turn i h = upd_item i (marked b turn) h"
  by (simp add: mark_claimed_def marked_def[abs_def])

lemma upd_setup [simp]: "same_setup h (upd_item i f h)"
  by (simp add: same_setup_def upd_item_def)

lemma mark_each:
  assumes "hub_inv h" "distinct is" "\<forall>i \<in> set is. i \<in> set (hub_items h) \<and> item_state h i = MessageAccepted"
  shows "moves h (hub_each (mark_claimed b turn) is h) \<and> same_setup h (hub_each (mark_claimed b turn) is h)
    \<and> (\<forall>i. hub_heap (hub_each (mark_claimed b turn) is h) i = (if i \<in> set is then marked b turn (hub_heap h i) else hub_heap h i))"
  using assms
proof (induction "is" arbitrary: h)
  case (Cons i "is")
  let ?h = "upd_item i (marked b turn) h"
  have m: "moves h ?h" using Cons.prems by (intro tweak_moves) auto
  have "moves ?h (hub_each (mark_claimed b turn) is ?h) \<and> same_setup ?h (hub_each (mark_claimed b turn) is ?h)
    \<and> (\<forall>j. hub_heap (hub_each (mark_claimed b turn) is ?h) j = (if j \<in> set is then marked b turn (hub_heap ?h j) else hub_heap ?h j))"
    using Cons.prems moves_inv[OF m Cons.prems(1)] by (intro Cons.IH) auto
  moreover have "hub_each (mark_claimed b turn) (i # is) h = hub_each (mark_claimed b turn) is ?h"
    by (simp add: mark_claimed_eq[of b turn i h])
  ultimately show ?case using m Cons.prems(2) same_setup_trans[OF upd_setup[of h i "marked b turn"]]
    by (auto intro: rtranclp_trans)
qed simp

subsection \<open>The wrap-up instruction\<close>

lemma fresh_id_fresh: "fresh_id used k \<notin> set used"
  by (induction used k rule: fresh_id.induct) (subst fresh_id.simps, simp)

lemma fresh_id_nonempty: "k \<noteq> [] \<Longrightarrow> fresh_id used k \<noteq> []"
  by (induction used k rule: fresh_id.induct) (subst fresh_id.simps, simp)

lemma wrap_fits_units:
  "\<lbrakk>wrap_fits unit maxu u items; u \<le> maxu\<rbrakk> \<Longrightarrow> u + sum_list (map (\<lambda>it. framedMessageUnits (Item_Text it) unit) items) + 2 * int (length items) \<le> maxu"
proof (induction unit maxu u items rule: wrap_fits.induct)
  case (2 unit maxu units item items)
  then show ?case by (simp add: Let_def algebra_simps)
qed simp

lemma joined_units_Cons:
  "joined_units unit (t # texts) = framedMessageUnits t unit + sum_list (map (\<lambda>t. framedMessageUnits t unit) texts) + 2 * int (length texts)"
  by (simp add: joined_units_def)

definition batch_fits :: "MessageCapability \<Rightarrow> MessageItem list \<Rightarrow> bool" where
  "batch_fits cap items \<longleftrightarrow> (0 < Cap_MaxUnits cap \<longrightarrow> joined_units (Cap_Unit cap) (map Item_Text items) \<le> Cap_MaxUnits cap)"

text \<open>The registration of a new instruction, and claiming it.\<close>

definition wrap_registered :: "messageHub \<Rightarrow> MessageItem list \<Rightarrow> messageHub" where
  "wrap_registered h items = (case hub_wrapUp h of Some _ \<Rightarrow> h | None \<Rightarrow>
     h\<lparr>hub_heap := (hub_heap h)(hub_next h := wrap_item h items), hub_next := Suc (hub_next h), hub_wrapUp := Some (hub_next h),
       hub_byID := (Out_ID (item_out (wrap_item h items)), hub_next h) # hub_byID h\<rparr>)"

definition claim_wrap :: "Boundary \<Rightarrow> int \<Rightarrow> hubItem \<Rightarrow> hubItem" where
  "claim_wrap b turn it = it\<lparr>item_claimed := True, item_boundary := b, item_out := (item_out it)\<lparr>Out_Turn := turn\<rparr>\<rparr>"

lemma prependWrapUp_cases:
  assumes "prependWrapUpLocked b turn items h = (out, h')"
  obtains "out = items" "h' = h"
  | w where "hub_wrapUp (wrap_registered h items) = Some w" "item_state (wrap_registered h items) w = MessageAccepted"
      "h' = upd_item w (claim_wrap b turn) (wrap_registered h items)" "out = claim_item (hub_heap h' w) # items"
      "0 < Cap_MaxUnits (hub_cap h) \<longrightarrow> framedMessageUnits (Item_Text (hd out)) (Cap_Unit (hub_cap h)) \<le> Cap_MaxUnits (hub_cap h)
        \<and> wrap_fits (Cap_Unit (hub_cap h)) (Cap_MaxUnits (hub_cap h)) (framedMessageUnits (Item_Text (hd out)) (Cap_Unit (hub_cap h))) items"
proof (cases "out = items \<and> h' = h")
  case True
  then show thesis using that(1) by simp
next
  case False
  define w where "w = (case hub_wrapUp h of None \<Rightarrow> hub_next h | Some i \<Rightarrow> i)"
  define it where "it = (case hub_wrapUp h of None \<Rightarrow> wrap_item h items | Some i \<Rightarrow> hub_heap h i)"
  have reg: "hub_wrapUp (wrap_registered h items) = Some w" "hub_heap (wrap_registered h items) w = it"
    by (auto simp: wrap_registered_def w_def it_def split: option.split)
  have h1: "wrap_registered h items = (if hub_wrapUp h \<noteq> None then h
      else h\<lparr>hub_heap := (hub_heap h)(w := it), hub_next := Suc (hub_next h), hub_wrapUp := Some w,
             hub_byID := (Out_ID (item_out it), w) # hub_byID h\<rparr>)"
    by (auto simp: wrap_registered_def w_def it_def split: option.split)
  let ?u = "framedMessageUnits (item_framed it) (Cap_Unit (hub_cap h))" and ?m = "Cap_MaxUnits (hub_cap h)"
  have eq: "prependWrapUpLocked b turn items h =
     (if Out_State (item_out it) \<noteq> MessageAccepted \<or> item_claimed it \<or> (item_turnEndOnly it \<and> b \<noteq> BoundaryTurnEnd \<and> b \<noteq> BoundaryStop)
      then (items, h)
      else if 0 < ?m \<and> (?m < ?u \<or> \<not> wrap_fits (Cap_Unit (hub_cap h)) ?m ?u items) then (items, h)
      else (claim_item (hub_heap (upd_item w (claim_wrap b turn) (wrap_registered h items)) w) # items,
            upd_item w (claim_wrap b turn) (wrap_registered h items)))"
    unfolding prependWrapUpLocked_def Let_def w_def[symmetric] it_def[symmetric] h1 claim_wrap_def[abs_def] by simp
  have out: "Out_State (item_out it) = MessageAccepted" "0 < ?m \<longrightarrow> ?u \<le> ?m \<and> wrap_fits (Cap_Unit (hub_cap h)) ?m ?u items"
    "h' = upd_item w (claim_wrap b turn) (wrap_registered h items)" "out = claim_item (hub_heap h' w) # items"
    using assms False unfolding eq by (auto split: if_splits)
  have shown: "Item_Text (hd out) = item_framed it" using out(3,4) reg(2) by (simp add: claim_item_def claim_wrap_def)
  show thesis by (rule that(2)[of w]) (use reg out shown in auto)
qed

lemma wrap_registered_moves:
  assumes "hub_inv h"
  shows "moves h (wrap_registered h items)"
proof (cases "hub_wrapUp h")
  case None
  let ?it = "wrap_item h items"
  have id: "Out_ID (item_out ?it) = fresh_id (map fst (hub_byID h) @ hub_delivered h) (hub_runID h @ ''-limit'')"
    "Out_State (item_out ?it) = MessageAccepted"
    by (simp_all add: wrap_item_def wrap_context_def new_item_def new_outcome_def Let_def)
  have "Out_ID (item_out ?it) \<notin> known_ids h \<union> set (hub_delivered h)"
    using fresh_id_fresh[of "map fst (hub_byID h) @ hub_delivered h"] id(1) by auto
  moreover have "Out_ID (item_out ?it) \<noteq> ''''" using fresh_id_nonempty id(1) by simp
  ultimately show ?thesis using None id(2) hub_move.wrap_register[OF None] by (auto simp: wrap_registered_def)
qed (simp add: wrap_registered_def)

lemma prependWrapUp_moves:
  assumes "prependWrapUpLocked b turn items h = (out, h')" "hub_inv h"
  shows "moves h h'"
  using assms(1)
proof (cases rule: prependWrapUp_cases)
  case (2 w)
  have m: "moves h (wrap_registered h items)" using wrap_registered_moves[OF assms(2)] .
  have "moves (wrap_registered h items) h'"
    unfolding 2(3) using moves_inv[OF m assms(2)] 2(1,2) by (intro tweak_moves) (auto simp: tracked_def claim_wrap_def)
  with m show ?thesis by (rule rtranclp_trans)
qed simp

lemma prependWrapUp_fits:
  assumes "prependWrapUpLocked b turn items h = (out, h')" "batch_fits (hub_cap h) items"
  shows "batch_fits (hub_cap h) out \<and> (\<exists>pre. out = pre @ items \<and> length pre \<le> 1)"
  using assms(1)
proof (cases rule: prependWrapUp_cases)
  case (2 w)
  let ?unit = "Cap_Unit (hub_cap h)" and ?m = "Cap_MaxUnits (hub_cap h)"
  have "joined_units ?unit (map Item_Text out) \<le> ?m" if "0 < ?m"
    using wrap_fits_units[of ?unit ?m "framedMessageUnits (Item_Text (hd out)) ?unit" items] 2(4,5) that
    by (simp add: joined_units_Cons comp_def)
  then show ?thesis using 2(4) by (auto simp: batch_fits_def intro!: exI[of _ "[hd out]"])
qed (use assms(2) in auto)

end
