(* ===== verification/HubExecution.thy ===== *)
theory HubExecution
  imports HubSystem
begin

text \<open>
  The message hub of a running execution: any interleaving of senders, the driver's claims and
  acknowledgements, withdrawals, cancellation, turn completion and sealing; and what hosts and
  drivers can rely on.
\<close>

subsection \<open>A claim\<close>

lemma moves_refl: "moves h h"
  by simp

definition claim_turn_ok :: "messageHub \<Rightarrow> messageHub \<Rightarrow> nat \<Rightarrow> bool" where
  "claim_turn_ok h h' i \<longleftrightarrow> hub_turn h \<le> Out_Turn (item_out (hub_heap h' i)) \<and> Out_Turn (item_out (hub_heap h' i)) \<le> hub_turn h + 1
     \<and> Out_Turn (item_out (hub_heap h' i)) \<le> MP_MaxTurns (hub_policy h)"

lemma wrap_registered_heap: "\<lbrakk>hub_inv h; i \<in> set (hub_items h)\<rbrakk> \<Longrightarrow> hub_heap (wrap_registered h items) i = hub_heap h i"
  using next_fresh[of h] by (auto simp: wrap_registered_def hub_inv_def split: option.split)

lemma prepend_keeps:
  assumes "prependWrapUpLocked b turn items h = (out, h')" "hub_inv h" "i \<in> set (hub_items h)" "item_state h i = MessageAccepted"
  shows "hub_heap h' i = hub_heap h i"
  using assms(1)
proof (cases rule: prependWrapUp_cases)
  case (2 w)
  have inv: "hub_inv (wrap_registered h items)" using moves_inv[OF wrap_registered_moves[OF assms(2)] assms(2)] .
  have "hub_items (wrap_registered h items) = hub_items h" by (auto simp: wrap_registered_def split: option.split)
  then have "w \<noteq> i"
    using wrap_not_accepted_item[of "wrap_registered h items" w] inv 2(1,2) assms(3) by (auto simp: hub_inv_def)
  then show ?thesis using 2(3) wrap_registered_heap[OF assms(2,3)] by simp
qed simp

text \<open>
  The state after the scan, with the selection marked; and the two ways the claim ends.
\<close>

lemma Claim_cases:
  assumes "Claim b h = (out, h')" "hub_inv h"
  obtains (nothing) "out = []" "moves h h'" "\<not> claim_allowed b h \<or> MP_MaxTurns (hub_policy h) \<le> hub_turn h"
  | (batch) sel turn h3 where
      "claim_allowed b h" "distinct sel" "prefix sel (filter (eligible b h) (hub_items h))"
      "sel = [] \<longrightarrow> filter (eligible b h) (hub_items h) = []"
      "turn \<in> {hub_turn h, hub_turn h + 1}" "turn = hub_turn h + 1 \<longrightarrow> hub_turn h < MP_MaxTurns (hub_policy h)"
      "moves h h3" "hub_inv h3" "same_setup h h3"
      "\<forall>i \<in> set sel. hub_heap h3 i = marked b turn (hub_heap h i)"
      "batch_fits (hub_cap h) (map (\<lambda>i. claim_item (hub_heap h i)) sel)"
      "(out, h') = (map (\<lambda>i. claim_item (hub_heap h i)) sel, h3)
        \<or> prependWrapUpLocked b turn (map (\<lambda>i. claim_item (hub_heap h i)) sel) h3 = (out, h')"
proof (cases "claim_allowed b h")
  case False
  then have "out = []" "h' = h" using assms(1) by (auto simp: Claim_def)
  then have "moves h h'" by simp
  with \<open>out = []\<close> show thesis by (rule nothing) (simp add: False)
next
  case True
  define acc where "acc = claim_scan b (hub_items h) (scan_start b h)"
  define h1 where "h1 = acc_hub acc"
  have ok: "scan_ok b h acc" using scan_result_ok[OF assms(2)] by (simp add: acc_def)
  then have h1: "hub_inv h1" "moves h h1" "same_setup h h1" by (auto simp: scan_ok_def h1_def)
  have dist: "distinct (hub_items h)" using assms(2) by (simp add: hub_inv_def ids_ok_def)
  have start: "scan_ok b h (scan_start b h)" using assms(2) by (auto simp: scan_ok_def scan_start_def joined_units_def)
  have pre: "prefix (acc_selected acc) (filter (eligible b h) (hub_items h))"
    "acc_selected acc = [] \<longrightarrow> filter (eligible b h) (hub_items h) = []"
    using claim_scan_prefix[OF start, of "hub_items h"] dist by (auto simp: acc_def scan_start_def)
  have sel: "distinct (acc_selected acc)"
    "\<forall>i \<in> set (acc_selected acc). claimable b h i \<and> hub_heap h1 i = hub_heap h i"
    "acc_out acc = map (\<lambda>i. claim_item (hub_heap h i)) (acc_selected acc)"
    using ok by (auto simp: scan_ok_def h1_def acc_def scan_start_def)
  have turns: "hub_turn h1 = hub_turn h" "hub_policy h1 = hub_policy h" using h1(3) by (auto simp: same_setup_def)
  show thesis
  proof (cases "acc_successor acc \<and> MP_MaxTurns (hub_policy h1) \<le> hub_turn h1")
    case limit: True
    then have "Claim b h = ([], h1)" using True unfolding Claim_def scan_start_def[symmetric] Let_def acc_def[symmetric] h1_def[symmetric] by simp
    then have "out = []" "moves h h'" using assms(1) h1(2) by simp_all
    then show thesis by (rule nothing) (use limit turns in simp)
  next
    case False
    define turn where "turn = (if acc_successor acc then hub_turn h1 + 1 else hub_turn h1)"
    define h2 where "h2 = hub_each (mark_claimed b turn) (acc_selected acc) h1"
    define h3 where "h3 = (if acc_full acc then signalLocked h2 else h2)"
    have "\<forall>i \<in> set (acc_selected acc). i \<in> set (hub_items h1) \<and> item_state h1 i = MessageAccepted"
      using sel(2) h1(3) by (auto simp: claimable_def unclaimed_def same_setup_def)
    note mark = mark_each[OF h1(1) sel(1) this, of b turn, folded h2_def]
    have m3: "moves h2 h3" "same_setup h2 h3" "hub_heap h3 = hub_heap h2"
      using signal_moves by (auto simp: h3_def same_setup_def signalLocked_def)
    have m: "moves h h3" using h1(2) mark m3(1) by (meson rtranclp_trans)
    have eq: "Claim b h = (if acc_out acc \<noteq> [] \<and> \<not> MP_Disabled (hub_policy h3) \<and> 1 < MP_MaxTurns (hub_policy h3)
             \<and> (hub_warned h3 \<or> wrapUpThreshold h3 < turn)
          then prependWrapUpLocked b turn (acc_out acc) h3 else (acc_out acc, h3))"
      using True False unfolding Claim_def scan_start_def[symmetric] Let_def acc_def[symmetric] h1_def[symmetric] turn_def[symmetric]
        h2_def[symmetric] h3_def[symmetric] by (simp only: if_not_P not_not if_False simp_thms(8) if_True)
    show thesis
    proof (rule batch[OF True sel(1) pre])
      show "turn \<in> {hub_turn h, hub_turn h + 1}" "turn = hub_turn h + 1 \<longrightarrow> hub_turn h < MP_MaxTurns (hub_policy h)"
        using False turns by (auto simp: turn_def)
      show "moves h h3" using m .
      show "hub_inv h3" using moves_inv[OF m assms(2)] .
      show "same_setup h h3" using h1(3) mark m3(2) same_setup_trans by blast
      show "\<forall>i \<in> set (acc_selected acc). hub_heap h3 i = marked b turn (hub_heap h i)" using mark m3(3) sel(2) by simp
      show "batch_fits (hub_cap h) (map (\<lambda>i. claim_item (hub_heap h i)) (acc_selected acc))"
        using ok sel(3) by (auto simp: batch_fits_def scan_ok_def)
      show "(out, h') = (map (\<lambda>i. claim_item (hub_heap h i)) (acc_selected acc), h3)
        \<or> prependWrapUpLocked b turn (map (\<lambda>i. claim_item (hub_heap h i)) (acc_selected acc)) h3 = (out, h')"
        using assms(1) unfolding eq sel(3) by (auto split: if_splits)
    qed
  qed
qed

lemma Claim_moves: "hub_inv h \<Longrightarrow> moves h (snd (Claim b h))"
proof -
  assume inv: "hub_inv h"
  obtain out h' where c: "Claim b h = (out, h')" by fastforce
  have "moves h h'" using c inv
  proof (cases rule: Claim_cases)
    case (batch sel turn h3)
    then have "moves h3 h'" using prependWrapUp_moves by fastforce
    with batch(7) show ?thesis by (rule rtranclp_trans)
  qed
  then show ?thesis using c by simp
qed

subsection \<open>Opening and running\<close>

text \<open>
  \<^verbatim>\<open>startInvocation\<close> registers the carried messages and then the starting prompt on a new
  hub, before anyone else can reach it. The standby loop does not carry a message under the ID of the
  prompt it starts with, given hosts that use fresh IDs for messages with execution options (StandbySystem).
\<close>

definition start_id :: "messageSettings \<Rightarrow> messageHub \<Rightarrow> string" where
  "start_id m h = (if ms_id m = '''' then hub_runID h @ ''-initial'' else ms_id m)"

definition carry_all :: "MessageOutcome list \<Rightarrow> messageHub \<Rightarrow> messageHub" where
  "carry_all outs h = foldl (\<lambda>h out. snd (carryPrompt out h)) h outs"

inductive hub_step :: "messageHub \<Rightarrow> messageHub \<Rightarrow> bool" where
  send: "hub_step h (snd (send_attempt ctx lifetime m txt framed h))"
| withdraw: "\<lbrakk>i \<in> set (hub_items h); hub_ctxErr h (item_ctx (hub_heap h i)) \<noteq> None\<rbrakk> \<Longrightarrow> hub_step h (withdraw i h)"
| capability: "hub_step h (setCapability cap h)"
| window: "hub_step h (Window opened h)"
| claim: "hub_step h (snd (Claim b h))"
| ack: "hub_step h (Ack now k ack h)"
| cancel: "hub_step h (cancelPending h)"
| finish: "hub_step h (finish reason h)"
| close_idle: "hub_step h (snd (closeIfIdle h))"
| load: "hub_step h (load now receipts h)"
| ack_start: "hub_step h (ackStart now success h)"
| ack_prompt: "hub_step h (ack_prompt_one now success deadline k h)"
| complete: "hub_step h (completeTurn res err h)"
| prompt: "hub_step h (setPrompt items h)"
| ctx_end: "hub_ctxErr h c = None \<Longrightarrow> hub_step h (h\<lparr>hub_ctxErr := (hub_ctxErr h)(c := Some e)\<rparr>)"

inductive hub_reachable :: "messageHub \<Rightarrow> bool" where
  opened: "\<lbrakk>h = carry_all outs (newMessageHub ctxErr runID p cap resume); by_id h (start_id m h) = None\<rbrakk>
    \<Longrightarrow> hub_reachable (snd (startMessage m txt h))"
| step: "\<lbrakk>hub_reachable h; hub_step h h'\<rbrakk> \<Longrightarrow> hub_reachable h'"

text \<open>
  The same without the proviso on the starting prompt: \<open>hub_boot\<close> holds of a hub that has taken up
  any carried messages, \<open>hub_run h0 m\<close> of the states of the execution that started with message \<open>m\<close> on \<open>h0\<close>.
\<close>

inductive hub_boot :: "messageHub \<Rightarrow> bool" where
  new: "hub_boot (newMessageHub ctxErr runID p cap resume)"
| carry: "hub_boot h \<Longrightarrow> hub_boot (snd (carryPrompt out h))"

inductive hub_run :: "messageHub \<Rightarrow> messageSettings \<Rightarrow> messageHub \<Rightarrow> bool" for h0 m where
  start: "hub_boot h0 \<Longrightarrow> hub_run h0 m (snd (startMessage m txt h0))"
| step: "\<lbrakk>hub_run h0 m h; hub_step h h'\<rbrakk> \<Longrightarrow> hub_run h0 m h'"

lemma hub_boot_carry_all:
  "hub_boot h \<Longrightarrow> \<exists>outs ctxErr runID p cap resume. h = carry_all outs (newMessageHub ctxErr runID p cap resume)"
proof (induction rule: hub_boot.induct)
  case (new ctxErr runID p cap resume)
  then show ?case by (metis carry_all_def foldl_Nil)
next
  case (carry h out)
  then obtain outs ctxErr runID p cap resume where "h = carry_all outs (newMessageHub ctxErr runID p cap resume)" by blast
  then have "snd (carryPrompt out h) = carry_all (outs @ [out]) (newMessageHub ctxErr runID p cap resume)" by (simp add: carry_all_def)
  then show ?case by blast
qed

lemma hub_run_reachable: "\<lbrakk>hub_run h0 m h; by_id h0 (start_id m h0) = None\<rbrakk> \<Longrightarrow> hub_reachable h"
proof (induction rule: hub_run.induct)
  case (start t)
  then show ?case using hub_boot_carry_all hub_reachable.opened by blast
next
  case (step h h')
  then show ?case using hub_reachable.step by blast
qed

lemma new_inv: "hub_inv (newMessageHub ctxErr runID p cap resume)"
  by (simp add: hub_inv_def ids_ok_def wrap_ok_def log_ok_def settlements_def accepted_free_def turns_ok_def turn_ends_def newMessageHub_def)

lemma carry_all_inv: "\<lbrakk>hub_inv h; \<not> hub_finished h\<rbrakk> \<Longrightarrow> hub_inv (carry_all outs h) \<and> \<not> hub_finished (carry_all outs h)"
proof (induction outs arbitrary: h)
  case (Cons out outs)
  have "hub_inv (snd (carryPrompt out h))" using moves_inv[OF carryPrompt_moves] Cons.prems by blast
  moreover have "hub_finished (snd (carryPrompt out h)) = hub_finished h"
    by (auto simp: carryPrompt_def Let_def)
  ultimately show ?case using Cons by (simp add: carry_all_def)
qed (simp add: carry_all_def)

lemma hub_inv_start [simp]: "hub_inv (h\<lparr>hub_start := m\<rparr>) = hub_inv h"
proof -
  have "settlements (h\<lparr>hub_start := m\<rparr>) k = settlements h k" "settlement_of (h\<lparr>hub_start := m\<rparr>) i = settlement_of h i" for k i
    by (simp_all add: settlements_def settlement_of_def)
  then show ?thesis by (simp add: hub_inv_def ids_ok_def wrap_ok_def log_ok_def accepted_free_def turns_ok_def turn_ends_def cong: option.case_cong)
qed

lemma opened_inv:
  assumes "hub_inv h" "\<not> hub_finished h" "by_id h (start_id m h) = None" "ms_id (hub_start h) = ''''"
  shows "hub_inv (snd (startMessage m txt h)) \<and> start_ok (snd (startMessage m txt h))"
proof -
  define m' where "m' = (let m1 = default_author m in if ms_id m1 = '''' then m1\<lparr>ms_id := hub_runID h @ ''-initial''\<rparr> else m1)"
  have id: "ms_id m' = start_id m h" by (simp add: m'_def start_id_def default_author_def Let_def)
  have fresh: "ms_id m' \<notin> known_ids h" using unknown_id[OF assms(3)] id by simp
  define out where "out = new_outcome (ms_id m') txt (ms_from m') Soon"
  define it1 where "it1 = new_item ((out MessageDelivered)\<lparr>Out_Mechanism := ''core.dedupe''\<rparr>) '''' 0"
  define it2 where "it2 = (new_item ((out MessageAccepted)\<lparr>Out_Turn := 1\<rparr>) '''' 0)\<lparr>item_claimed := True\<rparr>"
  have ids: "Out_ID (item_out it1) = ms_id m'" "Out_ID (item_out it2) = ms_id m'"
    by (simp_all add: it1_def it2_def out_def new_item_def new_outcome_def)
  have inv: "hub_inv (updateLocked (hub_next h) (register it h))"
    if "Out_ID (item_out it) = ms_id m'" "Out_State (item_out it) = MessageAccepted \<longrightarrow> ms_id m' \<notin> set (hub_delivered h)" for it
    using moves_inv[OF register_moves[OF assms(1)] assms(1)] that fresh assms(2) by simp
  have s1: "Out_State (item_out it1) \<noteq> MessageAccepted" by (simp add: it1_def out_def new_item_def new_outcome_def)
  have eq: "startMessage m txt h = (if ms_id m' \<in> set (hub_delivered h)
      then (False, updateLocked (hub_next h) (register it1 h))
      else (True, (updateLocked (hub_next h) (register it2 h))\<lparr>hub_start := m'\<rparr>))"
    unfolding startMessage_def Let_def m'_def[unfolded Let_def, symmetric] out_def[symmetric] it1_def[symmetric] it2_def[symmetric]
    by (simp add: updateLocked_def hub_push_def)
  show ?thesis
  proof (cases "ms_id m' \<in> set (hub_delivered h)")
    case True
    then show ?thesis using inv[OF ids(1)] s1 assms(4) by (simp add: eq start_ok_def updateLocked_def)
  next
    case False
    then show ?thesis using inv[OF ids(2)] ids(2) by (simp add: eq start_ok_def)
  qed
qed

lemma step_moves:
  assumes "hub_step h h'" "hub_inv h" "start_ok h"
  shows "moves h h'"
  using assms
proof (induction rule: hub_step.induct)
  case (withdraw i h)
  then show ?case by (simp add: withdraw_moves)
next
  case (ctx_end h c e)
  show ?case by (rule moves_other) (simp_all add: same_items_def)
qed (auto intro: send_moves setCapability_moves Window_moves Claim_moves Ack_moves cancelPending_moves finish_moves
    closeIfIdle_moves load_moves ackStart_moves ack_prompt_one_moves completeTurn_moves setPrompt_moves)

lemma carry_start: "hub_start (carry_all outs h) = hub_start h"
proof (induction outs arbitrary: h)
  case (Cons out outs)
  have "hub_start (snd (carryPrompt out h)) = hub_start h"
    by (auto simp: carryPrompt_def Let_def updateLocked_def)
  then show ?case using Cons by (simp add: carry_all_def)
qed (simp add: carry_all_def)

lemma hub_boot_inv: "hub_boot h \<Longrightarrow> hub_inv h \<and> \<not> hub_finished h"
  using hub_boot_carry_all carry_all_inv[OF new_inv] by (fastforce simp: newMessageHub_def)

lemma hub_reachable_inv: "hub_reachable h \<Longrightarrow> hub_inv h \<and> start_ok h"
proof (induction rule: hub_reachable.induct)
  case (opened h outs ctxErr runID p cap resume m t)
  have "hub_inv h" "\<not> hub_finished h"
    using carry_all_inv[OF new_inv, where outs = outs] opened(1) by (auto simp: newMessageHub_def)
  moreover have "ms_id (hub_start h) = ''''" using opened(1) by (simp add: carry_start newMessageHub_def zero_settings_def)
  ultimately show ?case using opened_inv opened(2) by blast
next
  case (step h h')
  then have "moves h h'" using step_moves by blast
  then show ?case using step moves_inv moves_extends start_ok_extends by blast
qed

lemma steps_moves: "\<lbrakk>hub_step\<^sup>*\<^sup>* h h'; hub_inv h; start_ok h\<rbrakk> \<Longrightarrow> moves h h' \<and> hub_inv h' \<and> start_ok h'"
proof (induction rule: rtranclp_induct)
  case (step y z)
  then have "moves y z" using step_moves by blast
  then show ?case using step moves_inv moves_extends start_ok_extends by (meson rtranclp_trans)
qed simp

end
