(* ===== verification/HubGuarantees.thy ===== *)
theory HubGuarantees
  imports HubExecution
begin

text \<open>
  What hosts and drivers can rely on in any execution of the message hub: it refines an append-only
  ledger, settles every message once, drains on sealing, hands out bounded batches in order, and
  never hands out a delivered message again.
\<close>

subsection \<open>The abstract ledger\<close>

text \<open>
  The host's view: the admitted messages with their states, the settlements reported, and whether the
  execution still takes messages.
\<close>

record ledger =
  led_entries :: "(string \<times> MessageState) list"
  led_log :: "(string \<times> MessageState) list"
  led_sealed :: bool

inductive ledger_step :: "ledger \<Rightarrow> ledger \<Rightarrow> bool" where
  admit: "\<lbrakk>k \<notin> fst ` set (led_entries L); \<not> led_sealed L\<rbrakk>
    \<Longrightarrow> ledger_step L (L\<lparr>led_entries := led_entries L @ [(k, MessageAccepted)]\<rparr>)"
| admit_settled: "\<lbrakk>k \<notin> fst ` set (led_entries L); s \<noteq> MessageAccepted\<rbrakk>
    \<Longrightarrow> ledger_step L (L\<lparr>led_entries := led_entries L @ [(k, s)], led_log := led_log L @ [(k, s)]\<rparr>)"
| settle: "\<lbrakk>n < length (led_entries L); led_entries L ! n = (k, MessageAccepted); s \<noteq> MessageAccepted\<rbrakk>
    \<Longrightarrow> ledger_step L (L\<lparr>led_entries := (led_entries L)[n := (k, s)], led_log := led_log L @ [(k, s)]\<rparr>)"
| seal: "MessageAccepted \<notin> snd ` set (led_entries L) \<Longrightarrow> ledger_step L (L\<lparr>led_sealed := True\<rparr>)"

fun settled_pair :: "event_body \<Rightarrow> (string \<times> MessageState) list" where
  "settled_pair (EvMessageUpdate u) = (if Update_State u = MessageAccepted then [] else [(Update_ID u, Update_State u)])"
| "settled_pair _ = []"

definition ledger_of :: "messageHub \<Rightarrow> ledger" where
  "ledger_of h = \<lparr>led_entries = map (\<lambda>i. (item_id h i, item_state h i)) (hub_items h),
     led_log = concat (map settled_pair (hub_pushed h)), led_sealed = hub_finished h\<rparr>"

lemma settled_pair_update [simp]:
  "settled_pair (update_event it) =
     (if Out_State (item_out it) = MessageAccepted then [] else [(Out_ID (item_out it), Out_State (item_out it))])"
  by (simp add: update_event_def)

lemma quiet_pair: "quiet ev \<Longrightarrow> settled_pair ev = []"
  by (cases ev) (auto simp: quiet_def)



lemma entries_fresh:
  assumes "hub_inv h" "k \<notin> known_ids h"
  shows "k \<notin> fst ` set (led_entries (ledger_of h))"
proof
  assume "k \<in> fst ` set (led_entries (ledger_of h))"
  then obtain i where i: "i \<in> set (hub_items h)" "item_id h i = k" by (auto simp: ledger_of_def)
  then have "(k, i) \<in> set (hub_byID h)" using items_allocated[of h i] assms(1) by (auto simp: hub_inv_def)
  then show False using assms(2) by force
qed

lemma entries_append:
  assumes "hub_inv h" "hub_next h \<notin> set (hub_items h)"
  shows "map (\<lambda>i. (Out_ID (item_out (((hub_heap h)(hub_next h := it)) i)), Out_State (item_out (((hub_heap h)(hub_next h := it)) i)))) (hub_items h)
    = led_entries (ledger_of h)"
  using assms by (auto simp: ledger_of_def)

lemma move_ledger:
  assumes "hub_move h h'" "hub_inv h"
  shows "ledger_step\<^sup>*\<^sup>* (ledger_of h) (ledger_of h')"
  using assms
proof (induction rule: hub_move.induct)
  case (other h h')
  then have "ledger_of h' = ledger_of h \<or> accepted_free h \<and> ledger_of h' = (ledger_of h)\<lparr>led_sealed := True\<rparr>"
    by (auto simp: ledger_of_def same_items_def)
  moreover have "accepted_free h \<Longrightarrow> MessageAccepted \<notin> snd ` set (led_entries (ledger_of h))"
    by (force simp: ledger_of_def accepted_free_def)
  ultimately show ?case using ledger_step.seal[of "ledger_of h"] by (metis r_into_rtranclp rtranclp.rtrancl_refl)
next
  case (report ev h)
  then show ?case by (simp add: ledger_of_def hub_push_def quiet_pair)
next
  case (turn_end h h' res t)
  then show ?case by (simp add: ledger_of_def hub_push_def same_items_def)
next
  case (tweak i h it)
  then have "ledger_of (upd_item i (\<lambda>_. it) h) = ledger_of h" by (auto simp: ledger_of_def upd_item_def)
  then show ?case by simp
next
  case (settle i h it)
  then obtain n where n: "n < length (hub_items h)" "hub_items h ! n = i" by (metis in_set_conv_nth)
  have d: "distinct (hub_items h)" using settle by (simp add: hub_inv_def ids_ok_def)
  let ?h = "hub_push (update_event it) (upd_item i (\<lambda>_. it) h)"
  have "led_entries (ledger_of ?h) = (led_entries (ledger_of h))[n := (item_id h i, Out_State (item_out it))]"
    using settle(3) n d by (auto simp: ledger_of_def list_eq_iff_nth_eq nth_list_update nth_eq_iff_index_eq)
  then have "ledger_of ?h = (ledger_of h)\<lparr>led_entries := (led_entries (ledger_of h))[n := (item_id h i, Out_State (item_out it))],
      led_log := led_log (ledger_of h) @ [(item_id h i, Out_State (item_out it))]\<rparr>"
    using settle by (simp add: ledger_of_def hub_push_def upd_item_def)
  then show ?case using ledger_step.settle[of n "ledger_of h" "item_id h i" "Out_State (item_out it)"] settle n
    by (simp add: ledger_of_def r_into_rtranclp)
next
  case (register it h)
  have fresh: "hub_next h \<notin> set (hub_items h)" using next_fresh[of h] register by (simp add: hub_inv_def)
  let ?k = "Out_ID (item_out it)" and ?s = "Out_State (item_out it)" and ?L = "ledger_of h"
  have eq: "ledger_of (hub_push (update_event it) (register it h)) = ?L\<lparr>led_entries := led_entries ?L @ [(?k, ?s)],
      led_log := led_log ?L @ (if ?s = MessageAccepted then [] else [(?k, ?s)])\<rparr>"
    using entries_append[OF register(3) fresh] by (simp add: ledger_of_def hub_push_def register_def)
  have fr: "?k \<notin> fst ` set (led_entries ?L)" using entries_fresh[OF register(3,1)] .
  show ?case
  proof (cases "?s = MessageAccepted")
    case True
    then have "\<not> led_sealed ?L" using register(2) by (simp add: ledger_of_def)
    then show ?thesis unfolding eq using ledger_step.admit[OF fr] True by (simp add: r_into_rtranclp)
  next
    case False
    then show ?thesis unfolding eq using ledger_step.admit_settled[OF fr False] by (simp add: r_into_rtranclp)
  qed
next
  case (dedupe it h it')
  have fresh: "hub_next h \<notin> set (hub_items h)" using next_fresh[of h] dedupe by (simp add: hub_inv_def)
  let ?k = "Out_ID (item_out it)" and ?L = "ledger_of h"
  have "ledger_of (hub_push (update_event it') (upd_item (hub_next h) (\<lambda>_. it') (hub_push (update_event it) (register it h))))
      = ?L\<lparr>led_entries := led_entries ?L @ [(?k, MessageDelivered)], led_log := led_log ?L @ [(?k, MessageDelivered)]\<rparr>"
    using entries_append[OF dedupe(6) fresh, of it'] dedupe(3-5) by (simp add: ledger_of_def hub_push_def upd_item_def register_def)
  then show ?case using entries_fresh[OF dedupe(6,1)] ledger_step.admit_settled[of ?k ?L MessageDelivered] by (simp add: r_into_rtranclp)
next
  case (wrap_register h it)
  have fresh: "hub_next h \<notin> set (hub_items h)" using next_fresh[of h] wrap_register by (simp add: hub_inv_def)
  let ?h = "h\<lparr>hub_heap := (hub_heap h)(hub_next h := it), hub_next := Suc (hub_next h),
          hub_wrapUp := Some (hub_next h), hub_byID := (Out_ID (item_out it), hub_next h) # hub_byID h\<rparr>"
  have "led_entries (ledger_of ?h) = led_entries (ledger_of h)" using fresh by (auto simp: ledger_of_def)
  then have "ledger_of ?h = ledger_of h" by (simp add: ledger_of_def)
  then show ?case by simp
next
  case (wrap_fail h i it)
  then have "i \<notin> set (hub_items h)" using wrap_not_accepted_item by (auto simp: hub_inv_def)
  then have "ledger_of (upd_item i (\<lambda>_. it) h) = ledger_of h" by (auto simp: ledger_of_def upd_item_def)
  then show ?case by simp
next
  case (wrap_deliver h i it)
  then have out: "i \<notin> set (hub_items h)" using wrap_not_accepted_item by (auto simp: hub_inv_def)
  let ?k = "item_id h i" and ?L = "ledger_of h"
  have "(?k, i) \<in> set (hub_byID h)" "ids_ok h" using wrap_deliver by (auto simp: hub_inv_def wrap_ok_def)
  then have "?k \<notin> fst ` set (led_entries ?L)"
    using out by (auto simp: ledger_of_def ids_ok_def) (metis eq_key_imp_eq_value)
  moreover have "ledger_of (hub_push (update_event it) ((upd_item i (\<lambda>_. it) h)\<lparr>hub_items := hub_items h @ [i]\<rparr>))
      = ?L\<lparr>led_entries := led_entries ?L @ [(?k, MessageDelivered)], led_log := led_log ?L @ [(?k, MessageDelivered)]\<rparr>"
    using out wrap_deliver by (auto simp: ledger_of_def hub_push_def upd_item_def)
  ultimately show ?case using ledger_step.admit_settled[of ?k ?L MessageDelivered] by (simp add: r_into_rtranclp)
qed

lemma moves_ledger: "\<lbrakk>moves h h'; hub_inv h\<rbrakk> \<Longrightarrow> ledger_step\<^sup>*\<^sup>* (ledger_of h) (ledger_of h')"
proof (induction rule: rtranclp_induct)
  case (step y z)
  then show ?case using move_ledger moves_inv by (meson rtranclp_trans)
qed simp

lemma reachable_steps: "\<lbrakk>hub_reachable h; hub_step\<^sup>*\<^sup>* h h'\<rbrakk> \<Longrightarrow> moves h h' \<and> hub_inv h \<and> hub_inv h'"
  using hub_reachable_inv steps_moves by blast

lemma start_ledger:
  assumes "hub_inv h" "\<not> hub_finished h" "by_id h (start_id m h) = None"
  shows "ledger_step\<^sup>*\<^sup>* (ledger_of h) (ledger_of (snd (startMessage m t h)))"
proof -
  define m' where "m' = (let m1 = default_author m in if ms_id m1 = '''' then m1\<lparr>ms_id := hub_runID h @ ''-initial''\<rparr> else m1)"
  have id: "ms_id m' = start_id m h" by (simp add: m'_def start_id_def default_author_def Let_def)
  have fresh: "ms_id m' \<notin> known_ids h" using unknown_id[OF assms(3)] id by simp
  define out where "out = new_outcome (ms_id m') t (ms_from m') Soon"
  define it1 where "it1 = new_item ((out MessageDelivered)\<lparr>Out_Mechanism := ''core.dedupe''\<rparr>) '''' 0"
  define it2 where "it2 = (new_item ((out MessageAccepted)\<lparr>Out_Turn := 1\<rparr>) '''' 0)\<lparr>item_claimed := True\<rparr>"
  have eq: "startMessage m t h = (if ms_id m' \<in> set (hub_delivered h)
      then (False, updateLocked (hub_next h) (register it1 h))
      else (True, (updateLocked (hub_next h) (register it2 h))\<lparr>hub_start := m'\<rparr>))"
    unfolding startMessage_def Let_def m'_def[unfolded Let_def, symmetric] out_def[symmetric] it1_def[symmetric] it2_def[symmetric]
    by (simp add: updateLocked_def hub_push_def)
  have ids: "Out_ID (item_out it1) = ms_id m'" "Out_ID (item_out it2) = ms_id m'"
    by (simp_all add: it1_def it2_def out_def new_item_def new_outcome_def)
  have s1: "Out_State (item_out it1) \<noteq> MessageAccepted" by (simp add: it1_def out_def new_item_def new_outcome_def)
  have reg: "ledger_step\<^sup>*\<^sup>* (ledger_of h) (ledger_of (updateLocked (hub_next h) (register it h)))"
    if "Out_ID (item_out it) = ms_id m'" "Out_State (item_out it) = MessageAccepted \<longrightarrow> ms_id m' \<notin> set (hub_delivered h)" for it
    by (rule moves_ledger[OF register_moves[OF assms(1)] assms(1)]) (use that fresh assms(2) in simp_all)
  have "ledger_of (h'\<lparr>hub_start := m'\<rparr>) = ledger_of h'" for h' by (simp add: ledger_of_def)
  then show ?thesis using reg[OF ids(1)] reg[OF ids(2)] s1 by (simp add: eq)
qed

text \<open>
  C33. The hub refines the ledger over the whole life of an execution. On a hub that is being opened,
  taking up a carried message is zero or more steps of the ledger. If no carried message has the
  starting prompt's ID, then admitting the prompt is too, and so is every operation in every state
  the execution reaches: admit a message under a new ID while unsealed, settle an open one once with a
  report, record a message that is settled on arrival, or seal when nothing is open. Nothing else
  changes what the host sees.
\<close>

theorem hub_refines_ledger:
  "(hub_boot h0 \<longrightarrow> ledger_step\<^sup>*\<^sup>* (ledger_of h0) (ledger_of (snd (carryPrompt out h0))))
   \<and> (hub_boot h0 \<and> by_id h0 (start_id m h0) = None \<longrightarrow>
        ledger_step\<^sup>*\<^sup>* (ledger_of h0) (ledger_of (snd (startMessage m t h0))))
   \<and> (hub_run h0 m h \<and> by_id h0 (start_id m h0) = None \<and> hub_step h h' \<longrightarrow>
        ledger_step\<^sup>*\<^sup>* (ledger_of h) (ledger_of h'))"
proof (intro conjI impI)
  assume "hub_boot h0"
  then show "ledger_step\<^sup>*\<^sup>* (ledger_of h0) (ledger_of (snd (carryPrompt out h0)))"
    using hub_boot_inv moves_ledger[OF carryPrompt_moves] by blast
next
  assume "hub_boot h0 \<and> by_id h0 (start_id m h0) = None"
  then show "ledger_step\<^sup>*\<^sup>* (ledger_of h0) (ledger_of (snd (startMessage m t h0)))"
    using hub_boot_inv start_ledger by blast
next
  assume "hub_run h0 m h \<and> by_id h0 (start_id m h0) = None \<and> hub_step h h'"
  then show "ledger_step\<^sup>*\<^sup>* (ledger_of h) (ledger_of h')"
    using hub_run_reachable hub_reachable_inv step_moves moves_ledger by blast
qed

subsection \<open>Settlement\<close>

lemma outcomes_nth: "n < length (hub_items h) \<Longrightarrow> outcomes h ! n = item_out (hub_heap h (hub_items h ! n))"
  by (simp add: outcomes_def)

lemma length_outcomes [simp]: "length (outcomes h) = length (hub_items h)"
  by (simp add: outcomes_def)

lemma extends_outcomes:
  assumes "extends h h'" "n < length (outcomes h)"
  shows "n < length (outcomes h') \<and> Out_ID (outcomes h' ! n) = Out_ID (outcomes h ! n)
    \<and> (Out_State (outcomes h ! n) \<noteq> MessageAccepted \<longrightarrow> outcomes h' ! n = outcomes h ! n)"
proof -
  obtain new where new: "hub_items h' = hub_items h @ new" using assms(1) by (auto simp: extends_def)
  have "hub_items h' ! n = hub_items h ! n" "hub_items h ! n \<in> set (hub_items h)" using assms(2) new by (auto simp: nth_append)
  then show ?thesis using assms new by (auto simp: extends_def outcomes_nth)
qed

lemma inv_ids_distinct: "hub_inv h \<Longrightarrow> distinct (map Out_ID (outcomes h))"
proof -
  assume inv: "hub_inv h"
  then have ids: "ids_ok h" by (simp add: hub_inv_def)
  have "inj_on (\<lambda>i. item_id h i) (set (hub_items h))"
  proof (rule inj_onI)
    fix i j assume "i \<in> set (hub_items h)" "j \<in> set (hub_items h)" "item_id h i = item_id h j"
    then have "(item_id h i, i) \<in> set (hub_byID h)" "(item_id h i, j) \<in> set (hub_byID h)" using items_allocated[OF ids] by metis+
    then show "i = j" using ids by (meson ids_ok_def eq_key_imp_eq_value)
  qed
  then show ?thesis using ids by (simp add: outcomes_def comp_def distinct_map ids_ok_def)
qed

lemma inv_settlements:
  assumes "hub_inv h" "i \<in> set (hub_items h)"
  shows "settlements h (item_id h i) = (if item_state h i = MessageAccepted then [] else [update_event (hub_heap h i)])"
  using assms items_allocated[of h i] by (auto simp: hub_inv_def log_ok_def settlement_of_def)

text \<open>
  C34. A message is settled once. In an execution whose starting prompt does not have the ID of a
  carried message (with such an ID two messages of one ID can be admitted), in every state it reaches
  no two admitted messages share an ID,
  an open one has no settlement in the event log and a settled one exactly one, which reports its
  outcome; and whatever happens later, a message keeps its place and its ID, and a settled one
  its whole outcome.
\<close>

theorem message_settles_once:
  assumes "hub_run h0 m h" "by_id h0 (start_id m h0) = None" "hub_step\<^sup>*\<^sup>* h h'"
  shows "distinct (map Out_ID (outcomes h))
    \<and> (\<forall>i \<in> set (hub_items h). settlements h (item_id h i) =
         (if item_state h i = MessageAccepted then [] else [update_event (hub_heap h i)]))
    \<and> (\<forall>n < length (outcomes h). n < length (outcomes h') \<and> Out_ID (outcomes h' ! n) = Out_ID (outcomes h ! n)
         \<and> (Out_State (outcomes h ! n) \<noteq> MessageAccepted \<longrightarrow> outcomes h' ! n = outcomes h ! n))"
  using reachable_steps[OF hub_run_reachable[OF assms(1,2)] assms(3)] inv_ids_distinct inv_settlements moves_extends extends_outcomes
  by blast

subsection \<open>Sealing\<close>

lemma finished_rejects: "hub_finished h \<Longrightarrow> send_attempt ctx lifetime m txt framed h = (send_reject m txt MessageRunFailed ErrRunFinished, h)"
  by (simp add: send_attempt_def)

lemma finished_claims_nothing: "hub_finished h \<Longrightarrow> Claim b h = ([], h)"
  by (simp add: Claim_def claim_allowed_def)

lemma sealed_settled: "\<lbrakk>hub_inv h; hub_finished h\<rbrakk> \<Longrightarrow> \<forall>m \<in> set (outcomes h). Out_State m \<noteq> MessageAccepted"
  by (auto simp: hub_inv_def accepted_free_def outcomes_def)

text \<open>
  C35. Sealing drains the hub. After \<^verbatim>\<open>finish\<close>, or a \<^verbatim>\<open>closeIfIdle\<close> that returned true, in every
  later state every admitted message is settled, new messages are rejected with
  \<^verbatim>\<open>ErrRunFinished\<close>, and no claim returns a message.
\<close>

theorem sealing_drains:
  assumes "hub_reachable h" "h1 = finish reason h \<or> closeIfIdle h = (True, h1)" "hub_step\<^sup>*\<^sup>* h1 h'"
  shows "(\<forall>out \<in> set (outcomes h'). Out_State out \<noteq> MessageAccepted)
    \<and> (\<forall>ctx lifetime m t framed. send_attempt ctx lifetime m t framed h' = (send_reject m t MessageRunFailed ErrRunFinished, h'))
    \<and> (\<forall>b. Claim b h' = ([], h'))"
proof -
  have "hub_step h h1" using assms(2) hub_step.finish[of h reason] hub_step.close_idle[of h] by auto
  then have r: "hub_reachable h1" using assms(1) hub_reachable.step by blast
  have "hub_finished h1" using assms(2) by (auto simp: finish_eq closeIfIdle_def split: if_splits)
  then have "hub_finished h'" "hub_inv h'" using reachable_steps[OF r assms(3)] moves_extends[of h1 h'] by (auto simp: extends_def)
  then show ?thesis using sealed_settled finished_rejects finished_claims_nothing by blast
qed

subsection \<open>Claiming\<close>

lemma eligible_claimable: "eligible b h i \<Longrightarrow> i \<in> set (hub_items h) \<and> item_state h i = MessageAccepted \<and> claimable b h i"
  by (simp add: eligible_def claimable_def unclaimed_def)

text \<open>
  What a claim hands out: at most one instruction of the hub's own, then the messages \<open>sel\<close>, a
  prefix of the eligible ones in admission order.
\<close>

definition batch_of :: "Boundary \<Rightarrow> messageHub \<Rightarrow> MessageItem list \<Rightarrow> nat list \<Rightarrow> bool" where
  "batch_of b h out sel \<longleftrightarrow> prefix sel (filter (eligible b h) (hub_items h))
     \<and> (\<exists>pre. length pre \<le> 1 \<and> out = pre @ map (\<lambda>i. claim_item (hub_heap h i)) sel)
     \<and> batch_fits (hub_cap h) out"

definition claimed_in :: "messageHub \<Rightarrow> int \<Rightarrow> nat \<Rightarrow> bool" where
  "claimed_in h turn i \<longleftrightarrow> item_claimed (hub_heap h i) \<and> item_state h i = MessageAccepted \<and> Out_Turn (item_out (hub_heap h i)) = turn"

lemma claim_batch:
  assumes "Claim b h = (out, h')" "hub_inv h"
  shows "out = [] \<and> (\<not> claim_allowed b h \<or> MP_MaxTurns (hub_policy h) \<le> hub_turn h)
    \<or> claim_allowed b h \<and> (\<exists>sel turn. batch_of b h out sel \<and> (sel = [] \<longrightarrow> filter (eligible b h) (hub_items h) = [])
        \<and> hub_turn h \<le> turn \<and> turn \<le> MP_MaxTurns (hub_policy h) \<and> (\<forall>i \<in> set sel. claimed_in h' turn i))"
  using assms(1,2)
proof (cases rule: Claim_cases)
  case nothing
  then show ?thesis by simp
next
  case (batch sel turn h3)
  let ?items = "map (\<lambda>i. claim_item (hub_heap h i)) sel"
  have cap: "hub_cap h3 = hub_cap h" using batch(9) by (simp add: same_setup_def)
  have out: "batch_fits (hub_cap h) out \<and> (\<exists>pre. out = pre @ ?items \<and> length pre \<le> 1)"
    using batch(12) prependWrapUp_fits[of b turn ?items h3 out h'] batch(11) cap by auto
  have el: "eligible b h i" if "i \<in> set sel" for i
    using set_mono_prefix[OF batch(3)] that by auto
  have "hub_heap h' i = marked b turn (hub_heap h i)" if i: "i \<in> set sel" for i
  proof -
    have "hub_heap h3 i = marked b turn (hub_heap h i)" using batch(10) i by blast
    moreover have "hub_heap h' i = hub_heap h3 i"
    proof (cases "h' = h3")
      case False
      have "i \<in> set (hub_items h3)" using eligible_claimable[OF el[OF i]] batch(9) by (simp add: same_setup_def)
      moreover have "item_state h3 i = MessageAccepted" using \<open>hub_heap h3 i = _\<close> eligible_claimable[OF el[OF i]] by simp
      ultimately show ?thesis using False batch(12) prepend_keeps[OF _ batch(8)] by auto
    qed simp
    ultimately show ?thesis by simp
  qed
  then have "\<forall>i \<in> set sel. claimed_in h' turn i" using eligible_claimable[OF el] by (simp add: claimed_in_def)
  moreover have "batch_of b h out sel" using batch(3) out by (auto simp: batch_of_def)
  moreover have "hub_turn h \<le> MP_MaxTurns (hub_policy h)"
    using batch(1) assms(2) by (simp add: claim_allowed_def hub_inv_def turns_ok_def)
  then have "hub_turn h \<le> turn" "turn \<le> MP_MaxTurns (hub_policy h)" using batch(5,6) by auto
  ultimately show ?thesis using batch(1,4) by blast
qed

text \<open>
  C36. A claim is a bounded batch in order. If anything is handed out, the boundary was allowed; the batch
  is a prefix of the eligible messages in admission order, behind at most one wrap-up instruction;
  joined by blank lines it fits the driver's size limit; every message of it is now claimed and
  assigned to one turn, the current one or the next, within the policy's limit. A claim that hands
  out nothing was not allowed, had reached the turn limit, or found no eligible message.
\<close>

theorem claim_is_bounded_fifo:
  assumes "hub_reachable h" "Claim b h = (out, h')"
  shows "out = [] \<and> (\<not> claim_allowed b h \<or> MP_MaxTurns (hub_policy h) \<le> hub_turn h)
    \<or> claim_allowed b h \<and> (\<exists>sel turn. batch_of b h out sel \<and> (sel = [] \<longrightarrow> filter (eligible b h) (hub_items h) = [])
        \<and> hub_turn h \<le> turn \<and> turn \<le> MP_MaxTurns (hub_policy h) \<and> (\<forall>i \<in> set sel. claimed_in h' turn i))"
  using claim_batch[OF assms(2)] hub_reachable_inv[OF assms(1)] by blast

subsection \<open>No second delivery\<close>

lemma claimed_open:
  assumes "Claim b h = (out, h')" "hub_inv h" "m \<in> set out"
  obtains i where "(Item_ID m, i) \<in> set (hub_byID h')" "item_state h' i = MessageAccepted"
proof -
  have inv': "hub_inv h'" using Claim_moves[OF assms(2), of b] assms(1) moves_inv[OF _ assms(2)] by simp
  consider (sel) sel turn where "m \<in> (\<lambda>i. claim_item (hub_heap h i)) ` set sel" "set sel \<subseteq> set (hub_items h)" "\<forall>i \<in> set sel. claimed_in h' turn i"
    | (wrap) w where "hub_wrapUp h' = Some w" "item_state h' w = MessageAccepted" "m = claim_item (hub_heap h' w)"
    using assms(1,2)
  proof (cases rule: Claim_cases)
    case nothing
    then show ?thesis using assms(3) by simp
  next
    case (batch sel turn h3)
    let ?items = "map (\<lambda>i. claim_item (hub_heap h i)) sel"
    have sub: "set sel \<subseteq> set (hub_items h)" using set_mono_prefix[OF batch(3)] by auto
    have ids: "claim_item (hub_heap h i) \<in> set ?items" if "i \<in> set sel" for i using that by simp
    show ?thesis
    proof (cases "m \<in> set ?items")
      case True
      then obtain i where i: "i \<in> set sel" "m = claim_item (hub_heap h i)" by auto
      have acc: "item_state h i = MessageAccepted" "item_state h3 i = MessageAccepted" "i \<in> set (hub_items h3)"
        using set_mono_prefix[OF batch(3)] eligible_claimable[of b h i] i(1) batch(9,10) by (auto simp: same_setup_def)
      have "claimed_in h' turn i"
        using batch(10,12) i(1) acc prepend_keeps[OF _ batch(8), of b turn ?items out h' i] by (auto simp: claimed_in_def)
      then show ?thesis using that(1)[of "[i]" turn] i sub by auto
    next
      case False
      then have "prependWrapUpLocked b turn ?items h3 = (out, h')" using batch(12) assms(3) by auto
      then show ?thesis
      proof (cases rule: prependWrapUp_cases)
        case 1
        then show ?thesis using False assms(3) by simp
      next
        case (2 w)
        then show ?thesis using that(2)[of w] False assms(3) by (auto simp: claim_wrap_def)
      qed
    qed
  qed
  then show thesis
  proof cases
    case (sel sel turn)
    then obtain i where i: "i \<in> set (hub_items h)" "m = claim_item (hub_heap h i)" "claimed_in h' turn i" by auto
    have "extends h h'" using Claim_moves[OF assms(2), of b] assms(1,2) moves_extends by simp
    then have "item_id h' i = item_id h i" "i \<in> set (hub_items h')" using i(1) by (auto simp: extends_def)
    then show thesis using that[of i] i items_allocated[of h' i] inv' by (auto simp: claim_item_def claimed_in_def hub_inv_def)
  next
    case (wrap w)
    then show thesis using that[of w] inv' by (auto simp: hub_inv_def wrap_ok_def claim_item_def)
  qed
qed

lemma retired_not_claimed:
  assumes "hub_inv h" "retired h k" "Claim b h = (out, h')"
  shows "k \<notin> Item_ID ` set out"
proof
  assume "k \<in> Item_ID ` set out"
  then obtain m where m: "m \<in> set out" "Item_ID m = k" by auto
  then obtain i where "(k, i) \<in> set (hub_byID h')" "item_state h' i = MessageAccepted" using claimed_open[OF assms(3,1)] by metis
  moreover have "retired h' k" using moves_retired[OF _ assms(1,2)] Claim_moves[OF assms(1), of b] assms(3) by simp
  ultimately show False by (auto simp: retired_def)
qed

lemma Ack_retires:
  assumes "hub_inv h" "by_id h k = Some i" "item_claimed (hub_heap h i)" "item_state h i = MessageAccepted" "Ack_Delivered ack"
  shows "retired (Ack now k ack h) k"
proof -
  have ids: "ids_ok h" using assms(1) by (simp add: hub_inv_def)
  have uniq: "j = i" if "(k, j) \<in> set (hub_byID h)" for j using that assms(2) by_id_iff[OF ids] by (metis option.inject)
  have "Ack now k ack h = ack_delivered now i k (upd_item i (release_item (Ack_Mechanism ack)) h)"
    using assms by (simp add: Ack_def Let_def release_item_def[abs_def])
  then show ?thesis using uniq by (auto simp: retired_def ack_delivered_def Let_def upd_out_def updateLocked_def)
qed

lemma load_receipts_delivered:
  "set (hub_delivered (load_receipts cutoff rs h))
     = set (hub_delivered h) \<union> Delivered_ID ` {r \<in> set rs. After (Delivered_At r) cutoff}"
  by (induction cutoff rs h rule: load_receipts.induct) auto

definition load_settles :: "messageHub \<Rightarrow> nat \<Rightarrow> bool" where
  "load_settles h i \<longleftrightarrow> item_id h i \<in> set (hub_delivered h) \<and> (\<not> item_claimed (hub_heap h i) \<or> item_id h i = ms_id (hub_start h))"

lemma updateLocked_delivered [simp]: "hub_delivered (updateLocked i h) = hub_delivered h" "hub_start (updateLocked i h) = hub_start h"
  by (simp_all add: updateLocked_def hub_push_def)

lemma load_settle_fields:
  "hub_delivered (load_settle i h) = hub_delivered h" "hub_byID (load_settle i h) = hub_byID h"
  "hub_items (load_settle i h) = hub_items h" "hub_start (load_settle i h) = hub_start h"
  "item_id (load_settle i h) j = item_id h j" "j \<noteq> i \<Longrightarrow> hub_heap (load_settle i h) j = hub_heap h j"
  "load_settles h i \<Longrightarrow> item_state (load_settle i h) i \<noteq> MessageAccepted"
  "item_state h j \<noteq> MessageAccepted \<Longrightarrow> item_state (load_settle i h) j \<noteq> MessageAccepted"
  by (auto simp: load_settle_def Let_def load_settles_def)

lemma load_each:
  "hub_byID (hub_each load_settle is h) = hub_byID h \<and> hub_delivered (hub_each load_settle is h) = hub_delivered h
   \<and> (item_state h j \<noteq> MessageAccepted \<or> j \<in> set is \<and> load_settles h j
      \<longrightarrow> item_state (hub_each load_settle is h) j \<noteq> MessageAccepted)"
proof (induction "is" arbitrary: h)
  case (Cons i "is")
  have "load_settles (load_settle i h) j" if "load_settles h j" "j \<noteq> i"
    using that load_settle_fields by (simp add: load_settles_def)
  then show ?case using Cons[of "load_settle i h"] load_settle_fields[where i = i and h = h] by (cases "j = i") auto
qed simp

lemma load_retires:
  assumes "hub_inv h" "r \<in> set receipts" "After (Delivered_At r) (now - retention)"
    "\<forall>i. by_id h (Delivered_ID r) = Some i \<longrightarrow> i \<in> set (hub_items h) \<and> (item_claimed (hub_heap h i) \<longrightarrow> Delivered_ID r = ms_id (hub_start h))"
  shows "retired (load now receipts h) (Delivered_ID r)"
proof -
  let ?h = "load_receipts (now - retention) receipts h" and ?k = "Delivered_ID r"
  have same: "hub_byID ?h = hub_byID h" "hub_heap ?h = hub_heap h" "hub_items ?h = hub_items h" "hub_start ?h = hub_start h"
    using load_receipts_same[of h "now - retention" receipts] by (simp_all add: same_items_def)
  have del: "?k \<in> set (hub_delivered ?h)" using assms(2,3) by (auto simp: load_receipts_delivered)
  have "i \<in> set (hub_items ?h) \<and> load_settles ?h i" if "(?k, i) \<in> set (hub_byID ?h)" for i
  proof -
    have "ids_ok h" "(?k, i) \<in> set (hub_byID h)" using assms(1) that same(1) by (auto simp: hub_inv_def)
    then have "by_id h ?k = Some i" "item_id h i = ?k" by (simp_all add: by_id_iff ids_okD(2))
    then show ?thesis using assms(4) del same by (auto simp: load_settles_def)
  qed
  then show ?thesis using load_each[of "hub_items ?h" ?h] del by (auto simp: retired_def load_def Let_def)
qed

text \<open>
  C37. A delivered message is not handed out again. In an execution whose starting prompt does not have
  the ID of a carried message, let a claimed message be acknowledged as delivered, or let a receipt of
  an earlier execution that has not expired be loaded while no driver holds a message under its ID, the
  starting prompt aside. (A message that a driver holds while its receipt is loaded may be given back with a
  request to queue it again, and is then handed out again.) Then in every later state no claim contains
  the ID, whoever sends it again, and its ID is among the delivered ones.
\<close>

theorem delivered_never_claimed_again:
  assumes "hub_run h0 m h" "by_id h0 (start_id m h0) = None"
    "(\<exists>i now ack. by_id h k = Some i \<and> item_claimed (hub_heap h i) \<and> item_state h i = MessageAccepted \<and> Ack_Delivered ack
        \<and> h1 = Ack now k ack h)
     \<or> (\<exists>now receipts r. r \<in> set receipts \<and> Delivered_ID r = k \<and> After (Delivered_At r) (now - retention) \<and> h1 = load now receipts h
        \<and> (\<forall>i. by_id h k = Some i \<longrightarrow> i \<in> set (hub_items h) \<and> (item_claimed (hub_heap h i) \<longrightarrow> k = ms_id (hub_start h))))"
    "hub_step\<^sup>*\<^sup>* h1 h'"
  shows "k \<in> set (hub_delivered h') \<and> (\<forall>b out h2. Claim b h' = (out, h2) \<longrightarrow> k \<notin> Item_ID ` set out)"
proof -
  have h: "hub_reachable h" using assms(1,2) by (rule hub_run_reachable)
  have inv: "hub_inv h" using hub_reachable_inv[OF h] by blast
  have "hub_step h h1" using assms(3) hub_step.ack[of h] hub_step.load[of h] by blast
  then have r: "hub_reachable h1" using h hub_reachable.step by blast
  have "retired h1 k" using assms(3) Ack_retires[OF inv] load_retires[OF inv] by blast
  then have "retired h' k" "hub_inv h'" using reachable_steps[OF r assms(4)] moves_retired by blast+
  then show ?thesis using retired_not_claimed by (auto simp: retired_def)
qed

lemma load_receipts_exact:
  assumes "distinct (map Delivered_ID rs)" "Delivered_ID ` set rs \<inter> set (hub_delivered h) = {}"
  shows "hub_receipts (load_receipts cutoff rs h) = hub_receipts h @ filter (\<lambda>r. After (Delivered_At r) cutoff) rs"
  using assms by (induction cutoff rs h rule: load_receipts.induct) auto

lemma load_keeps_lists:
  "hub_receipts (load now rs h) = hub_receipts (load_receipts (now - retention) rs h)"
  "hub_delivered (load now rs h) = hub_delivered (load_receipts (now - retention) rs h)"
proof -
  have one: "hub_receipts (load_settle i h) = hub_receipts h" for i h
    by (simp add: load_settle_def Let_def updateLocked_def upd_item_def hub_push_def)
  have "hub_receipts (hub_each load_settle is h) = hub_receipts h" for "is" h
    by (induction "is" arbitrary: h) (simp_all add: one)
  then show "hub_receipts (load now rs h) = hub_receipts (load_receipts (now - retention) rs h)" by (simp add: load_def Let_def)
  show "hub_delivered (load now rs h) = hub_delivered (load_receipts (now - retention) rs h)"
    using load_each by (simp add: load_def Let_def)
qed

text \<open>
  C38. Receipts bound the memory of deliveries and carry it over. An execution exports exactly the latest
  1000 of its receipts of the last seven days, all of them if there are no more, in order. Loading them
  into the next execution adds to its delivered IDs exactly those whose receipt is still fresh then; and a
  new hub that has loaded receipts of distinct IDs exports exactly those of them that are still fresh, so that
  nothing is lost or reordered over any number of executions.
\<close>

theorem receipts_carry_over:
  fixes now later :: gotime and h h2 :: messageHub
  defines "fresh \<equiv> \<lambda>t. filter (\<lambda>r. After (Delivered_At r) (t - retention))"
  defines "rs \<equiv> deliveryReceipts now h"
  shows "rs = drop (length (fresh now (hub_receipts h)) - 1000) (fresh now (hub_receipts h))
   \<and> set (hub_delivered (load later rs h2)) = set (hub_delivered h2) \<union> Delivered_ID ` set (fresh later rs)
   \<and> (distinct (map Delivered_ID rs) \<and> hub_delivered h2 = [] \<and> hub_receipts h2 = [] \<longrightarrow>
        deliveryReceipts later (load later rs h2) = fresh later rs)"
proof -
  have r: "rs = drop (length (fresh now (hub_receipts h)) - 1000) (fresh now (hub_receipts h))"
    by (simp add: rs_def fresh_def deliveryReceipts_def Let_def maxReceipts_def)
  then have "length rs \<le> 1000" by simp
  then have len: "length (fresh later rs) \<le> 1000" unfolding fresh_def by (rule le_trans[OF length_filter_le])
  have "deliveryReceipts later (load later rs h2) = fresh later rs"
    if "distinct (map Delivered_ID rs)" "hub_delivered h2 = []" "hub_receipts h2 = []"
    using load_receipts_exact[OF that(1), of h2 "later - retention"] that(2,3) len
    by (simp add: deliveryReceipts_def load_keeps_lists fresh_def Let_def maxReceipts_def)
  moreover have "set (hub_delivered (load later rs h2)) = set (hub_delivered h2) \<union> Delivered_ID ` set (fresh later rs)"
    by (simp add: load_keeps_lists load_receipts_delivered fresh_def)
  ultimately show ?thesis using r by blast
qed

subsection \<open>Turns\<close>

text \<open>
  In every reachable state the turn reports in the event log are numbered from 1 without gap or
  repetition, one per completed turn, and there are never more of them than the policy's turn limit;
  the active turn is the next one. The wrap-up starts after four fifths of the limit, rounded up, but
  always leaves at least one turn.
\<close>

theorem turns_numbered_and_limited:
  assumes "hub_reachable h"
  shows "turn_ends h = [1..turnCount h] \<and> turnCount h \<le> max 0 (MP_MaxTurns (hub_policy h)) \<and> hub_turn h = turnCount h + 1
    \<and> (0 < MP_MaxTurns (hub_policy h) \<longrightarrow>
         wrapUpThreshold h = min ((4 * MP_MaxTurns (hub_policy h) + 4) div 5) (MP_MaxTurns (hub_policy h) - 1))"
proof -
  have "turns_ok h" using hub_reachable_inv[OF assms] by (simp add: hub_inv_def)
  moreover have "(4 * n + 4) div 5 = n - n div 5" for n :: int
    by (rule int_div_pos_eq[of _ _ _ "4 - n mod 5"]) (use mult_div_mod_eq[of 5 n] in \<open>auto simp: algebra_simps\<close>)
  ultimately show ?thesis by (simp add: turns_ok_def turnCount_def wrapUpThreshold_def Let_def)
qed

subsection \<open>A sample execution\<close>

text \<open>
  A prompt is started and acknowledged, a message is sent, claimed at a tool boundary and acknowledged.
\<close>

definition sample_policy :: MessagePolicy where
  "sample_policy = \<lparr>MP_Disabled = False, MP_Format = Some MC_Text, MP_MaxPending = 2, MP_MaxTurns = 5\<rparr>"

definition sample_capability :: MessageCapability where
  "sample_capability = \<lparr>Cap_Boundaries = [BoundaryTool], Cap_Interrupt = False, Cap_Continue = ContinueInRun, Cap_MaxUnits = 100,
     Cap_Unit = MessageUnitBytes, Cap_ConfirmedDelivery = True, Cap_PersistsDelivered = True, Cap_MinVersion = ''''\<rparr>"

definition sample_opened :: messageHub where
  "sample_opened = snd (startMessage zero_settings ''go'' (newMessageHub (\<lambda>_. None) ''r'' sample_policy sample_capability True))"

definition sample_message :: messageSettings where
  "sample_message = \<lparr>ms_id = ''m'', ms_from = \<lparr>Author_Kind = AuthorHuman, Author_ID = '''', Author_Name = ''''\<rparr>, ms_timing = Soon\<rparr>"

definition sample_sent :: messageHub where
  "sample_sent = snd (send_attempt 0 0 sample_message ''hi'' ''hi'' sample_opened)"

definition sample_claimed :: messageHub where
  "sample_claimed = snd (Claim BoundaryTool sample_sent)"

definition sample_ack :: MessageAck where
  "sample_ack = \<lparr>Ack_Delivered = True, Ack_Mechanism = ''stdin'', Ack_DeadlineExceeded = False, Ack_Requeue = False, Ack_MaybeDelivered = False\<rparr>"

definition sample_acked :: messageHub where
  "sample_acked = Ack 0 ''m'' sample_ack sample_claimed"

lemma sample_steps: "hub_reachable sample_opened" "hub_reachable sample_sent" "hub_reachable sample_claimed"
proof -
  show o: "hub_reachable sample_opened"
    unfolding sample_opened_def by (rule hub_reachable.opened[where outs = "[]"]) (simp_all add: carry_all_def newMessageHub_def)
  show s: "hub_reachable sample_sent" unfolding sample_sent_def by (rule hub_reachable.step[OF o hub_step.send])
  show "hub_reachable sample_claimed" unfolding sample_claimed_def by (rule hub_reachable.step[OF s hub_step.claim])
qed

lemmas sample_simps = sample_policy_def sample_capability_def sample_message_def zero_settings_def no_author_def
  newMessageHub_def startMessage_def default_author_def new_outcome_def new_item_def updateLocked_def register_def hub_push_def
  Let_def signalLocked_def upd_item_def upd_out_def

lemma sample_opened_heap:
  "hub_items sample_opened = [0]" "hub_byID sample_opened = [(''r-initial'', 0)]" "hub_next sample_opened = 1" "hub_delivered sample_opened = []"
  "\<not> hub_finished sample_opened" "\<not> hub_cancelled sample_opened" "hub_ctxErr sample_opened = (\<lambda>_. None)" "hub_turn sample_opened = 1" "hub_turns sample_opened = []"
  "hub_policy sample_opened = sample_policy" "hub_cap sample_opened = sample_capability" "hub_resume sample_opened"
  "hub_wrapUp sample_opened = None" "\<not> hub_warned sample_opened"
  "item_state sample_opened 0 = MessageAccepted" "item_claimed (hub_heap sample_opened 0)" "item_id sample_opened 0 = ''r-initial''"
  by (simp_all add: sample_opened_def sample_simps)

lemma sample_sent_eq: "sample_sent = admit_message 0 sample_message ''hi'' ''hi'' sample_opened"
  by (simp add: sample_sent_def send_attempt_def sample_opened_heap pending_count_def unclaimed_def validateMessageLocked_def
      framedMessageUnits_def sample_policy_def sample_capability_def sample_message_def)

lemma sample_sent_heap:
  "hub_items sample_sent = [0, Suc 0]" "by_id sample_sent ''m'' = Some (Suc 0)" "hub_delivered sample_sent = []"
  "\<not> hub_finished sample_sent" "\<not> hub_cancelled sample_sent" "hub_ctxErr sample_sent = (\<lambda>_. None)" "hub_turn sample_sent = 1" "hub_turns sample_sent = []"
  "hub_policy sample_sent = sample_policy" "hub_cap sample_sent = sample_capability" "hub_wrapUp sample_sent = None" "\<not> hub_warned sample_sent"
  "hub_heap sample_sent 0 = hub_heap sample_opened 0"
  "hub_heap sample_sent (Suc 0) = (new_item (new_outcome ''m'' ''hi'' (ms_from sample_message) Soon MessageAccepted) ''hi'' 0)\<lparr>item_stop := Armed\<rparr>"
  by (simp_all add: sample_sent_eq admit_message_def sample_opened_heap Let_def signalLocked_def upd_item_def updateLocked_def register_def
      hub_push_def sample_message_def new_item_def new_outcome_def)

abbreviation (input) sample_item :: MessageItem where
  "sample_item \<equiv> \<lparr>Item_ID = ''m'', Item_Text = ''hi'', Item_Timing = Soon, Item_MaybeDuplicate = False\<rparr>"

lemma sample_step0: "claim_step BoundaryTool 0 (scan_start BoundaryTool sample_sent) = scan_start BoundaryTool sample_sent"
  by (simp add: claim_step_def scan_start_def unclaimed_def sample_sent_heap sample_opened_heap Let_def)

lemma sample_step1:
  "claim_step BoundaryTool (Suc 0) (scan_start BoundaryTool sample_sent) = \<lparr>acc_hub = sample_sent, acc_selected = [Suc 0],
     acc_out = [sample_item], acc_units = 2, acc_full = False, acc_successor = False\<rparr>"
  by (simp add: claim_step_def scan_start_def unclaimed_def sample_sent_heap Let_def claim_skips_def framedMessageUnits_def claim_item_def
      sample_capability_def new_item_def new_outcome_def)

lemma sample_claim_eq: "Claim BoundaryTool sample_sent = ([sample_item], mark_claimed BoundaryTool 1 (Suc 0) sample_sent)"
proof -
  have "claim_allowed BoundaryTool sample_sent"
    by (simp add: claim_allowed_def sample_sent_heap sample_policy_def sample_capability_def)
  moreover have "claim_scan BoundaryTool [0, Suc 0] (scan_start BoundaryTool sample_sent) = \<lparr>acc_hub = sample_sent, acc_selected = [Suc 0],
     acc_out = [sample_item], acc_units = 2, acc_full = False, acc_successor = False\<rparr>"
    by (simp add: sample_step0 sample_step1 Let_def) (simp add: scan_start_def)
  ultimately show ?thesis
    unfolding Claim_def scan_start_def[symmetric] sample_sent_heap(1)
    by (simp add: Let_def mark_claimed_def upd_item_def sample_sent_heap wrapUpThreshold_def sample_policy_def)
qed

lemma sample_claim:
  "by_id sample_claimed ''m'' = Some (Suc 0)" "item_claimed (hub_heap sample_claimed (Suc 0))"
  "item_state sample_claimed (Suc 0) = MessageAccepted" "hub_items sample_claimed = [0, Suc 0]"
  by (simp_all add: sample_claimed_def sample_claim_eq mark_claimed_def upd_item_def sample_sent_heap new_item_def new_outcome_def)

lemma sample_claim_step: "hub_step sample_sent sample_claimed"
  unfolding sample_claimed_def by (rule hub_step.claim)

definition sample_booted :: messageHub where
  "sample_booted = newMessageHub (\<lambda>_. None) ''r'' sample_policy sample_capability True"

lemma sample_runs:
  "hub_boot sample_booted" "by_id sample_booted (start_id zero_settings sample_booted) = None"
  "hub_run sample_booted zero_settings sample_sent" "hub_run sample_booted zero_settings sample_claimed"
  "hub_run sample_booted zero_settings sample_acked"
proof -
  show b: "hub_boot sample_booted" unfolding sample_booted_def by (rule hub_boot.new)
  show "by_id sample_booted (start_id zero_settings sample_booted) = None" by (simp add: sample_booted_def newMessageHub_def)
  have "hub_run sample_booted zero_settings sample_opened"
    unfolding sample_opened_def using hub_run.start[OF b, of zero_settings "''go''"] by (simp add: sample_booted_def)
  from hub_run.step[OF this hub_step.send] show s: "hub_run sample_booted zero_settings sample_sent" by (simp add: sample_sent_def)
  from hub_run.step[OF s hub_step.claim] show c: "hub_run sample_booted zero_settings sample_claimed" by (simp add: sample_claimed_def)
  from hub_run.step[OF c hub_step.ack] show "hub_run sample_booted zero_settings sample_acked" by (simp add: sample_acked_def)
qed

theorem hub_refines_ledger_witness:
  "ledger_step\<^sup>*\<^sup>* (ledger_of sample_booted) (ledger_of sample_opened)
   \<and> ledger_step\<^sup>*\<^sup>* (ledger_of sample_sent) (ledger_of sample_claimed)
   \<and> led_entries (ledger_of sample_sent) = [(''r-initial'', MessageAccepted), (''m'', MessageAccepted)]"
proof -
  have "sample_opened = snd (startMessage zero_settings ''go'' sample_booted)" by (simp add: sample_opened_def sample_booted_def)
  then show ?thesis
    using hub_refines_ledger[of sample_booted _ zero_settings "''go''" sample_sent sample_claimed] sample_runs(1-3) sample_claim_step
    by (simp add: ledger_of_def sample_sent_heap sample_opened_heap new_item_def new_outcome_def)
qed

theorem message_settles_once_witness:
  "distinct (map Out_ID (outcomes sample_claimed)) \<and> settlements sample_claimed ''m'' = []
   \<and> settlements sample_acked ''m'' = [update_event (hub_heap sample_acked (Suc 0))]"
proof -
  have "item_id sample_claimed (Suc 0) = ''m''"
    by (simp add: sample_claimed_def sample_claim_eq mark_claimed_def upd_item_def sample_sent_heap new_item_def new_outcome_def)
  moreover have "item_id sample_acked (Suc 0) = ''m''" "item_state sample_acked (Suc 0) = MessageDelivered" "Suc 0 \<in> set (hub_items sample_acked)"
    using sample_claim calculation by (simp_all add: sample_acked_def Ack_def ack_delivered_def Let_def sample_ack_def upd_out_def)
  ultimately show ?thesis
    using message_settles_once[OF sample_runs(4,2) rtranclp.rtrancl_refl] message_settles_once[OF sample_runs(5,2) rtranclp.rtrancl_refl] sample_claim
    by (metis (no_types, lifting) MessageState.distinct(1) list.set_intros(1,2))
qed

theorem sealing_drains_witness:
  "list_all (\<lambda>out. Out_State out \<noteq> MessageAccepted) (outcomes (finish MessageRunFailed sample_claimed))
   \<and> length (outcomes (finish MessageRunFailed sample_claimed)) = 2"
proof -
  have "hub_items (finish r h) = hub_items h" for r h by (simp add: finish_eq fail_open_state(1))
  then have "hub_items (finish MessageRunFailed sample_claimed) = [0, Suc 0]" by (simp add: sample_claim)
  then show ?thesis using sealing_drains[OF sample_steps(3) disjI1[OF refl] rtranclp.rtrancl_refl, of MessageRunFailed]
    by (simp add: list_all_iff)
qed

theorem claim_is_bounded_fifo_witness:
  "\<exists>sel turn. batch_of BoundaryTool sample_sent [sample_item] sel \<and> turn \<le> 5 \<and> list_all (claimed_in sample_claimed turn) sel"
  using claim_is_bounded_fifo[OF sample_steps(2) sample_claim_eq] sample_claim_eq
  by (auto simp: sample_claimed_def sample_sent_heap sample_policy_def list_all_iff)

theorem delivered_never_claimed_again_witness:
  "''m'' \<in> set (hub_delivered sample_acked) \<and> ''m'' \<notin> Item_ID ` set (fst (Claim BoundaryTurnEnd sample_acked))"
proof -
  have "\<exists>i now ack. by_id sample_claimed ''m'' = Some i \<and> item_claimed (hub_heap sample_claimed i)
      \<and> item_state sample_claimed i = MessageAccepted \<and> Ack_Delivered ack \<and> sample_acked = Ack now ''m'' ack sample_claimed"
    using sample_claim sample_acked_def by (intro exI[of _ "Suc 0"] exI[of _ 0] exI[of _ sample_ack]) (simp add: sample_ack_def)
  from delivered_never_claimed_again[OF sample_runs(4,2) disjI1[OF this] rtranclp.rtrancl_refl]
  show ?thesis by (metis prod.collapse)
qed

definition sample_delivered :: messageHub where
  "sample_delivered = sample_booted\<lparr>hub_receipts := [\<lparr>Delivered_ID = ''m'', Delivered_At = 5\<rparr>]\<rparr>"

theorem receipts_carry_over_witness:
  "deliveryReceipts 6 sample_delivered = [\<lparr>Delivered_ID = ''m'', Delivered_At = 5\<rparr>]
   \<and> ''m'' \<in> set (hub_delivered (load 7 (deliveryReceipts 6 sample_delivered) sample_booted))
   \<and> deliveryReceipts 7 (load 7 (deliveryReceipts 6 sample_delivered) sample_booted) = [\<lparr>Delivered_ID = ''m'', Delivered_At = 5\<rparr>]"
proof -
  have new: "hub_delivered sample_booted = []" "hub_receipts sample_booted = []" by (simp_all add: sample_booted_def newMessageHub_def)
  have d: "deliveryReceipts 6 sample_delivered = [\<lparr>Delivered_ID = ''m'', Delivered_At = 5\<rparr>]"
    by (simp add: deliveryReceipts_def retention_def maxReceipts_def Let_def sample_delivered_def)
  note carry = receipts_carry_over[of 6 sample_delivered 7 sample_booted, unfolded d, THEN conjunct2]
  show ?thesis unfolding d using carry new by (simp add: retention_def)
qed

theorem turns_numbered_and_limited_witness:
  "wrapUpThreshold sample_claimed = 4 \<and> turn_ends sample_claimed = []"
proof -
  have "hub_policy sample_claimed = sample_policy" "hub_turns sample_claimed = []"
    by (simp_all add: sample_claimed_def sample_claim_eq mark_claimed_def upd_item_def sample_sent_heap)
  then show ?thesis using turns_numbered_and_limited[OF sample_steps(3)] by (simp add: turnCount_def sample_policy_def)
qed

end
