(* ===== verification/SessionTypes.thy ===== *)
theory SessionTypes
  imports ThreadStore
begin

text \<open>
  The vocabulary of thread coordination in \<^verbatim>\<open>internal/engine\<close>
  (\<^verbatim>\<open>session_types.go\<close>, \<^verbatim>\<open>errors.go\<close>, \<^verbatim>\<open>session_codec.go\<close>) and the
  session codecs of the four built-in drivers. A codec is an implementation of the interface
  \<^verbatim>\<open>driver.SessionCodec\<close>; it is a record of functions, any of which may panic,
  and the name it reports may differ from call to call (the coordinator checks that it does not).
\<close>

subsection \<open>Requests, records, leases\<close>

record SessionRequest =
  SReq_ID :: string
  SReq_Namespace :: string
  SReq_Key :: string
  SReq_Mode :: SessionMode
  SReq_ForkFrom :: string
  SReq_ForkFromKey :: string
  SReq_SessionCodec :: string

type_synonym SessionCompatibilityStatus = string

abbreviation (input) SessionCompatibilityNew :: SessionCompatibilityStatus where
  "SessionCompatibilityNew \<equiv> ''new''"
abbreviation (input) SessionCompatibilityCompatible :: SessionCompatibilityStatus where
  "SessionCompatibilityCompatible \<equiv> ''compatible''"
abbreviation (input) SessionCompatibilityIncompatible :: SessionCompatibilityStatus where
  "SessionCompatibilityIncompatible \<equiv> ''incompatible''"

record SessionCompatibility =
  Compat_Status :: SessionCompatibilityStatus
  Compat_Reason :: string
  Compat_ExpectedFingerprint :: string
  Compat_ActualFingerprint :: string

definition compat_of_status :: "SessionCompatibilityStatus \<Rightarrow> SessionCompatibility" where
  "compat_of_status st = \<lparr>Compat_Status = st, Compat_Reason = '''',
     Compat_ExpectedFingerprint = '''', Compat_ActualFingerprint = ''''\<rparr>"

record SessionRef =
  Ref_ID :: string
  Ref_Namespace :: string
  Ref_Key :: string
  Ref_DisplayID :: string
  Ref_Reused :: bool
  Ref_Created :: bool
  Ref_PreviousID :: string
  Ref_Compatibility :: SessionCompatibility

record SessionQuery =
  SQuery_ID :: string
  SQuery_Namespace :: string
  SQuery_Key :: string
  SQuery_IncludeArchived :: bool

definition session_by_key :: "string \<Rightarrow> string \<Rightarrow> SessionQuery" where
  "session_by_key ns key = \<lparr>SQuery_ID = '''', SQuery_Namespace = ns, SQuery_Key = key,
     SQuery_IncludeArchived = False\<rparr>"

definition session_by_id :: "string \<Rightarrow> SessionQuery" where
  "session_by_id sid = \<lparr>SQuery_ID = sid, SQuery_Namespace = '''', SQuery_Key = '''',
     SQuery_IncludeArchived = True\<rparr>"

type_synonym SessionStatus = string

abbreviation (input) SessionStatusActive :: SessionStatus where
  "SessionStatusActive \<equiv> ''active''"
abbreviation (input) SessionStatusArchived :: SessionStatus where
  "SessionStatusArchived \<equiv> ''archived''"

record SessionRecord =
  SRec_ID :: string
  SRec_Namespace :: string
  SRec_Key :: string
  SRec_Status :: SessionStatus
  SRec_DriverType :: string
  SRec_Agent :: AgentIdentity
  SRec_Fingerprint :: string
  SRec_CompatibilityFingerprint :: string
  SRec_SessionCodec :: string
  SRec_DriverState :: "SessionState option"
  SRec_CreatedAt :: gotime
  SRec_UpdatedAt :: gotime

record SessionLease =
  SLease_Target :: string
  SLease_Owner :: string
  SLease_Token :: string

record SessionFinalizeRequest =
  SFin_Record :: SessionRecord
  SFin_PreviousID :: string
  SFin_Namespace :: string
  SFin_Key :: string
  SFin_HeldLeases :: "SessionLease list"
  SFin_ArchiveOld :: bool
  SFin_RebindActive :: bool
  SFin_RequireKeyAbsent :: bool

subsection \<open>Errors\<close>

text \<open>
  The sentinels and struct errors of \<^verbatim>\<open>errors.go\<close>, an entropy failure, whatever a
  store returned, and the wrappers \<^verbatim>\<open>fmt.Errorf("...%w")\<close> and
  \<^verbatim>\<open>errors.Join\<close> that the coordinator builds.
\<close>

datatype SessionError =
    ErrInvalidSessionRequest string
  | ErrSessionStoreRequired
  | ErrSessionNotFound
  | ErrSessionCheckpointMissing
  | ErrThreadAlreadyExists string
  | SessionBusyError string
  | SessionLeaseLostError string
  | SessionIncompatibleError string string string
  | SessionEntropyError string
  | StoreFailure StoreError
  | ReleaseFailure string SessionError
  | ReleasePending "string list" CtxErr
  | JoinedError "SessionError list"

text \<open>\<^verbatim>\<open>errors.Is\<close> looks through every wrapper: the errors in a chain.\<close>

fun error_chain :: "SessionError \<Rightarrow> SessionError list" where
  "error_chain (ReleaseFailure t e) = ReleaseFailure t e # error_chain e"
| "error_chain (JoinedError es) = JoinedError es # concat (map error_chain es)"
| "error_chain e = [e]"

definition is_busy :: "SessionError \<Rightarrow> bool" where
  "is_busy err \<longleftrightarrow> (\<exists>e \<in> set (error_chain err). case e of SessionBusyError _ \<Rightarrow> True | _ \<Rightarrow> False)"

definition is_incompatible :: "SessionError \<Rightarrow> bool" where
  "is_incompatible err \<longleftrightarrow>
     (\<exists>e \<in> set (error_chain err). case e of SessionIncompatibleError _ _ _ \<Rightarrow> True | _ \<Rightarrow> False)"

text \<open>
  \<^verbatim>\<open>errors.As(err, &conflict) && conflict.ThreadAlreadyExists()\<close>: the first error of
  the chain with that method is a \<^verbatim>\<open>threadstore.AlreadyExistsError\<close>.
\<close>

definition already_exists :: "SessionError \<Rightarrow> string option" where
  "already_exists err =
     (case List.find (\<lambda>e. case e of StoreFailure (AlreadyExistsError _) \<Rightarrow> True | _ \<Rightarrow> False)
             (error_chain err) of
        Some (StoreFailure (AlreadyExistsError key)) \<Rightarrow> Some key
      | _ \<Rightarrow> None)"

text \<open>\<^verbatim>\<open>errors.Join\<close> drops nil errors and is nil when nothing is left.\<close>

definition errors_Join :: "SessionError option list \<Rightarrow> SessionError option" where
  "errors_Join es = (case List.map_filter id es of [] \<Rightarrow> None | es' \<Rightarrow> Some (JoinedError es'))"

lemma errors_Join_None_iff: "errors_Join es = None \<longleftrightarrow> (\<forall>e \<in> set es. e = None)"
  by (induction es) (auto simp: errors_Join_def map_filter_def split: list.splits)

subsection \<open>Drivers and codecs\<close>

record SessionCodec =
  Codec_Name :: "nat \<Rightarrow> string"
  Codec_ToParams :: "SessionState option \<Rightarrow> SessionParams outcome"
  Codec_FromParams :: "SessionParams \<Rightarrow> SessionState option outcome"
  Codec_GuardFingerprint :: "SessionParams \<Rightarrow> string"

text \<open>
  What the coordinator uses of a \<^verbatim>\<open>Driver\<close>: its descriptor, and, when it implements
  \<^verbatim>\<open>SessionCodecProvider\<close>, the codec that method returns, which may be nil and whose
  construction may panic.
\<close>

record Driver =
  Driver_Type :: string
  Driver_SupportsResume :: bool
  Driver_Provider :: "SessionCodec option outcome option"

definition zero_SessionParams :: SessionParams where
  "zero_SessionParams = \<lparr>Params_ResumeID = '''', Params_DisplayID = '''', Params_Values = Map.empty\<rparr>"

text \<open>The copy of a \<^verbatim>\<open>map[string]string\<close>; an empty map becomes nil.\<close>

definition cloneStringMap :: "(string \<rightharpoonup> string) \<Rightarrow> (string \<rightharpoonup> string)" where
  "cloneStringMap values = (if values = Map.empty then Map.empty else Map.empty ++ values)"

definition displayID :: "SessionState \<Rightarrow> string" where
  "displayID state = (if State_DisplayID state \<noteq> '''' then State_DisplayID state else State_ResumeID state)"

definition codec_ToParams :: "SessionState option \<Rightarrow> SessionParams" where
  "codec_ToParams state = (case state of None \<Rightarrow> zero_SessionParams | Some st \<Rightarrow>
     \<lparr>Params_ResumeID = State_ResumeID st, Params_DisplayID = displayID st,
      Params_Values = cloneStringMap (State_Data st)\<rparr>)"

definition codec_FromParams :: "SessionParams \<Rightarrow> SessionState option" where
  "codec_FromParams params =
     (if Params_ResumeID params = '''' \<and> Params_DisplayID params = '''' \<and> Params_Values params = Map.empty
      then None
      else Some \<lparr>State_ResumeID = Params_ResumeID params,
             State_DisplayID = (if Params_DisplayID params = '''' then Params_ResumeID params
                                else Params_DisplayID params),
             State_Data = cloneStringMap (Params_Values params)\<rparr>)"

text \<open>
  \<^verbatim>\<open>guardHash\<close> of the built-in drivers: the digest of the three guarded values, each
  written \<^verbatim>\<open>key=value\<close> and separated by NUL. The digest (SHA-256, in hexadecimal) is
  a parameter.
\<close>

definition guardPreimage :: "(string \<rightharpoonup> string) \<Rightarrow> string list \<Rightarrow> string" where
  "guardPreimage values keys =
     join_with [CHR 0x00] (map (\<lambda>key. key @ ''='' @ (case values key of None \<Rightarrow> '''' | Some v \<Rightarrow> v)) keys)"

definition guardHash :: "(string \<Rightarrow> string) \<Rightarrow> (string \<rightharpoonup> string) \<Rightarrow> string list \<Rightarrow> string" where
  "guardHash sha256hex values keys = sha256hex (guardPreimage values keys)"

definition guard_keys :: "string list" where
  "guard_keys = [''cwd'', ''workspace_id'', ''profile_fingerprint'']"

definition driver_sessionCodec :: "string \<Rightarrow> (string \<Rightarrow> string) \<Rightarrow> SessionCodec" where
  "driver_sessionCodec driverType sha256hex =
     \<lparr>Codec_Name = (\<lambda>_. driverType), Codec_ToParams = (\<lambda>st. Return (codec_ToParams st)),
      Codec_FromParams = (\<lambda>ps. Return (codec_FromParams ps)),
      Codec_GuardFingerprint = (\<lambda>ps. guardHash sha256hex (Params_Values ps) guard_keys)\<rparr>"

definition claude_sessionCodec :: "(string \<Rightarrow> string) \<Rightarrow> SessionCodec" where
  "claude_sessionCodec = driver_sessionCodec ''claude''"
definition codex_sessionCodec :: "(string \<Rightarrow> string) \<Rightarrow> SessionCodec" where
  "codex_sessionCodec = driver_sessionCodec ''codex''"
definition cursor_sessionCodec :: "(string \<Rightarrow> string) \<Rightarrow> SessionCodec" where
  "cursor_sessionCodec = driver_sessionCodec ''cursor''"
definition codebuddy_sessionCodec :: "(string \<Rightarrow> string) \<Rightarrow> SessionCodec" where
  "codebuddy_sessionCodec = driver_sessionCodec ''codebuddy''"

text \<open>
  The engine's fallback codec. Its guard hashes the parameters with \<^verbatim>\<open>stableHash\<close>,
  here the parameter \<open>paramsHash\<close>.
\<close>

definition passthroughSessionCodec :: "(SessionParams \<Rightarrow> string) \<Rightarrow> SessionCodec" where
  "passthroughSessionCodec paramsHash =
     \<lparr>Codec_Name = (\<lambda>_. ''passthrough''), Codec_ToParams = (\<lambda>st. Return (codec_ToParams st)),
      Codec_FromParams = (\<lambda>ps. Return (codec_FromParams ps)),
      Codec_GuardFingerprint = (\<lambda>ps.
        if Params_ResumeID ps = '''' \<and> Params_DisplayID ps = '''' \<and> Params_Values ps = Map.empty
        then '''' else paramsHash ps)\<rparr>"

definition SessionCodecFor :: "(SessionParams \<Rightarrow> string) \<Rightarrow> Driver \<Rightarrow> SessionCodec outcome" where
  "SessionCodecFor paramsHash d =
     (case Driver_Provider d of
        None \<Rightarrow> Return (passthroughSessionCodec paramsHash)
      | Some Panic \<Rightarrow> Panic
      | Some (Return None) \<Rightarrow> Return (passthroughSessionCodec paramsHash)
      | Some (Return (Some codec)) \<Rightarrow> Return codec)"

definition incompatible :: "string \<Rightarrow> SessionError" where
  "incompatible reason = SessionIncompatibleError reason '''' ''''"

text \<open>
  The two calls of \<^verbatim>\<open>Name\<close> are the codec's first two; a panic of the provider is
  recovered into an error.
\<close>

definition resumeSessionCodecFor :: "Driver option \<Rightarrow> SessionError + SessionCodec" where
  "resumeSessionCodecFor drv =
     (case drv of None \<Rightarrow> Inl (incompatible ''thread driver is nil'') | Some d \<Rightarrow>
      if \<not> Driver_SupportsResume d
      then Inl (incompatible ''driver does not declare session resume support'')
      else case Driver_Provider d of
        None \<Rightarrow> Inl (incompatible ''resume-capable driver does not implement SessionCodecProvider'')
      | Some Panic \<Rightarrow> Inl (incompatible ''driver session codec panicked during validation'')
      | Some (Return None) \<Rightarrow> Inl (incompatible ''resume-capable driver returned a nil session codec'')
      | Some (Return (Some codec)) \<Rightarrow>
          (let name = TrimSpace (Codec_Name codec 0) in
           if name = '''' then Inl (incompatible ''driver session codec has an empty stable name'')
           else if TrimSpace (Codec_Name codec 1) \<noteq> name
           then Inl (incompatible ''driver session codec name is not stable'')
           else Inr codec))"

definition normalizeResumableSessionState ::
  "SessionCodec \<Rightarrow> SessionState option \<Rightarrow> SessionError + SessionState" where
  "normalizeResumableSessionState codec state =
     (case state of None \<Rightarrow> Inl ErrSessionCheckpointMissing | Some _ \<Rightarrow>
      case bind_outcome (Codec_ToParams codec state) (Codec_FromParams codec) of
        Panic \<Rightarrow> Inl (incompatible ''driver session codec panicked while normalizing checkpoint'')
      | Return None \<Rightarrow> Inl (incompatible ''session checkpoint has no resumable provider identifier'')
      | Return (Some normalized) \<Rightarrow>
          (if TrimSpace (State_ResumeID normalized) = ''''
           then Inl (incompatible ''session checkpoint has no resumable provider identifier'')
           else Inr normalized))"

definition validateResumableRecord :: "SessionRecord option \<Rightarrow> SessionCodec \<Rightarrow> SessionError option" where
  "validateResumableRecord rec codec =
     (case rec of None \<Rightarrow> Some ErrSessionNotFound | Some r \<Rightarrow>
      if SRec_SessionCodec r = '''' \<or> SRec_SessionCodec r \<noteq> TrimSpace (Codec_Name codec 3)
      then Some (incompatible ''stored session codec does not match the configured driver'')
      else case normalizeResumableSessionState codec (SRec_DriverState r) of
        Inl err \<Rightarrow> Some err
      | Inr _ \<Rightarrow> None)"

definition normalizeSessionState ::
  "(SessionParams \<Rightarrow> string) \<Rightarrow> Driver \<Rightarrow> SessionState option \<Rightarrow> SessionState option outcome" where
  "normalizeSessionState paramsHash d state =
     bind_outcome (SessionCodecFor paramsHash d)
       (\<lambda>codec. bind_outcome (Codec_ToParams codec state) (Codec_FromParams codec))"

definition sessionDisplayID ::
  "(SessionParams \<Rightarrow> string) \<Rightarrow> Driver \<Rightarrow> SessionState option \<Rightarrow> string outcome" where
  "sessionDisplayID paramsHash d state =
     bind_outcome (SessionCodecFor paramsHash d) (\<lambda>codec.
     map_outcome (\<lambda>params. if Params_DisplayID params \<noteq> '''' then Params_DisplayID params
                           else Params_ResumeID params)
       (Codec_ToParams codec state))"

subsection \<open>The codec contract\<close>

text \<open>
  What \<^verbatim>\<open>driver.SessionCodec\<close> documents: the canonical empty mapping, and a lossless
  round trip of the non-empty values. A state is canonical when it is not empty and carries a
  display identifier whenever it carries a resume identifier; every state a codec produces is.
\<close>

definition canonical_state :: "SessionState \<Rightarrow> bool" where
  "canonical_state st \<longleftrightarrow>
     (State_ResumeID st \<noteq> '''' \<or> State_DisplayID st \<noteq> '''' \<or> State_Data st \<noteq> Map.empty)
     \<and> (State_ResumeID st \<noteq> '''' \<longrightarrow> State_DisplayID st \<noteq> '''')"

definition params_of_state :: "SessionState \<Rightarrow> SessionParams" where
  "params_of_state st = \<lparr>Params_ResumeID = State_ResumeID st, Params_DisplayID = State_DisplayID st,
     Params_Values = State_Data st\<rparr>"

locale lossless_codec =
  fixes ToParams :: "SessionState option \<Rightarrow> SessionParams"
    and FromParams :: "SessionParams \<Rightarrow> SessionState option"
  assumes ToParams_nil: "ToParams None = zero_SessionParams"
    and FromParams_zero: "FromParams zero_SessionParams = None"
    and ToParams_canonical: "canonical_state st \<Longrightarrow> ToParams (Some st) = params_of_state st"
    and FromParams_canonical: "canonical_state st \<Longrightarrow> FromParams (params_of_state st) = Some st"
    and produces_canonical: "FromParams ps = Some st \<Longrightarrow> canonical_state st"
begin

lemma roundtrip: "canonical_state st \<Longrightarrow> FromParams (ToParams (Some st)) = Some st"
  by (simp add: ToParams_canonical FromParams_canonical)

lemma normalize_idem: "FromParams (ToParams (FromParams (ToParams x))) = FromParams (ToParams x)"
proof (cases "FromParams (ToParams x)")
  case None
  then show ?thesis by (simp add: ToParams_nil FromParams_zero)
next
  case (Some st)
  then show ?thesis using produces_canonical [OF Some] by (simp add: roundtrip)
qed

end

lemma cloneStringMap_id [simp]: "cloneStringMap m = m"
  by (simp add: cloneStringMap_def)

interpretation builtin: lossless_codec codec_ToParams codec_FromParams
  by unfold_locales
    (auto simp: codec_ToParams_def codec_FromParams_def zero_SessionParams_def canonical_state_def
      params_of_state_def displayID_def split: if_splits)

text \<open>
  The values of a parameter map that the guard covers, with a missing value read as empty.
\<close>

definition guarded_values :: "(string \<rightharpoonup> string) \<Rightarrow> string list" where
  "guarded_values values = map (\<lambda>key. case values key of None \<Rightarrow> '''' | Some v \<Rightarrow> v) guard_keys"

lemma append_sep_inject:
  "c \<notin> set xs \<Longrightarrow> c \<notin> set ys \<Longrightarrow> xs @ c # zs = ys @ c # ws \<longleftrightarrow> xs = ys \<and> zs = ws"
proof (induction xs arbitrary: ys)
  case Nil
  then show ?case by (cases ys) auto
next
  case (Cons x xs)
  then show ?case by (cases ys) auto
qed

lemma guardPreimage_inject:
  assumes "\<forall>v \<in> set (guarded_values vs). CHR 0x00 \<notin> set v"
    and "\<forall>v \<in> set (guarded_values ws). CHR 0x00 \<notin> set v"
  shows "guardPreimage vs guard_keys = guardPreimage ws guard_keys
     \<longleftrightarrow> guarded_values vs = guarded_values ws"
  using assms
  by (auto simp: guardPreimage_def guard_keys_def guarded_values_def append_sep_inject
      simp flip: append_assoc split: option.splits)

definition builtin_codecs :: "(string \<Rightarrow> string) \<Rightarrow> SessionCodec list" where
  "builtin_codecs sha256hex = [claude_sessionCodec sha256hex, codex_sessionCodec sha256hex,
     cursor_sessionCodec sha256hex, codebuddy_sessionCodec sha256hex]"

definition driver_of_codec :: "SessionCodec \<Rightarrow> Driver" where
  "driver_of_codec codec = \<lparr>Driver_Type = Codec_Name codec 0, Driver_SupportsResume = True,
     Driver_Provider = Some (Return (Some codec))\<rparr>"

lemma builtin_codec_ops:
  assumes "codec \<in> set (builtin_codecs sha256hex)"
  shows "Codec_ToParams codec st = Return (codec_ToParams st)"
    and "Codec_FromParams codec ps = Return (codec_FromParams ps)"
    and "Codec_GuardFingerprint codec ps = sha256hex (guardPreimage (Params_Values ps) guard_keys)"
  using assms
  by (auto simp: builtin_codecs_def claude_sessionCodec_def codex_sessionCodec_def
      cursor_sessionCodec_def codebuddy_sessionCodec_def driver_sessionCodec_def guardHash_def)

lemma builtin_codec_name:
  assumes "codec \<in> set (builtin_codecs sha256hex)"
  shows "TrimSpace (Codec_Name codec k) = Codec_Name codec 0 \<and> Codec_Name codec 0 \<noteq> ''''"
proof -
  have trim: "TrimSpace ''claude'' = ''claude''" "TrimSpace ''codex'' = ''codex''"
    "TrimSpace ''cursor'' = ''cursor''" "TrimSpace ''codebuddy'' = ''codebuddy''"
    by (simp_all add: TrimSpace_def drop_prefixes.simps [of _ "_ # _"] space_runes_def)
  have "\<exists>n \<in> {''claude'', ''codex'', ''cursor'', ''codebuddy''}. codec = driver_sessionCodec n sha256hex"
    using assms
    by (auto simp: builtin_codecs_def claude_sessionCodec_def codex_sessionCodec_def
        cursor_sessionCodec_def codebuddy_sessionCodec_def)
  then obtain n where n: "n \<in> {''claude'', ''codex'', ''cursor'', ''codebuddy''}"
    and codec: "codec = driver_sessionCodec n sha256hex" by blast
  have "TrimSpace n = n \<and> n \<noteq> ''''" using n trim by (elim insertE emptyE) simp_all
  then show ?thesis by (simp add: codec driver_sessionCodec_def)
qed

lemma normalize_builtin:
  assumes "codec \<in> set (builtin_codecs sha256hex)"
  shows "normalizeResumableSessionState codec (Some st) =
    (if TrimSpace (State_ResumeID st) = ''''
     then Inl (incompatible ''session checkpoint has no resumable provider identifier'')
     else Inr (st\<lparr>State_DisplayID := displayID st\<rparr>))"
proof -
  have [simp]: "State_ResumeID st \<noteq> ''''" if "TrimSpace (State_ResumeID st) \<noteq> ''''"
    using that by auto
  show ?thesis
    unfolding normalizeResumableSessionState_def builtin_codec_ops [OF assms]
    by (auto simp: codec_ToParams_def codec_FromParams_def displayID_def split: option.splits)
qed

lemma builtin_resume_ok:
  assumes "codec \<in> set (builtin_codecs sha256hex)"
  shows "resumeSessionCodecFor (Some (driver_of_codec codec)) = Inr codec"
  unfolding resumeSessionCodecFor_def driver_of_codec_def
  by (simp add: builtin_codec_name [OF assms])

text \<open>
  Every built-in driver passes the coordinator's codec check, and its codec normalises a
  checkpoint losslessly: a checkpoint is accepted exactly when its resume identifier is not
  blank, only a missing display identifier is filled in, normalising again changes nothing, and
  the resume guard's fingerprint is unaffected, so a stored checkpoint keeps matching itself.
\<close>

theorem builtin_codec_normalizes:
  assumes "codec \<in> set (builtin_codecs sha256hex)"
  shows "resumeSessionCodecFor (Some (driver_of_codec codec)) = Inr codec
    \<and> (case normalizeResumableSessionState codec (Some st) of
         Inl err \<Rightarrow> TrimSpace (State_ResumeID st) = '''' \<and> is_incompatible err
       | Inr st' \<Rightarrow> TrimSpace (State_ResumeID st) \<noteq> '''' \<and> st' = st\<lparr>State_DisplayID := displayID st\<rparr>
           \<and> normalizeResumableSessionState codec (Some st') = Inr st'
           \<and> map_outcome (Codec_GuardFingerprint codec) (Codec_ToParams codec (Some st'))
             = map_outcome (Codec_GuardFingerprint codec) (Codec_ToParams codec (Some st)))"
proof
  show "resumeSessionCodecFor (Some (driver_of_codec codec)) = Inr codec"
    using assms by (rule builtin_resume_ok)
next
  have disp: "displayID (st\<lparr>State_DisplayID := displayID st\<rparr>) = displayID st"
    by (simp add: displayID_def)
  show "case normalizeResumableSessionState codec (Some st) of
         Inl err \<Rightarrow> TrimSpace (State_ResumeID st) = '''' \<and> is_incompatible err
       | Inr st' \<Rightarrow> TrimSpace (State_ResumeID st) \<noteq> '''' \<and> st' = st\<lparr>State_DisplayID := displayID st\<rparr>
           \<and> normalizeResumableSessionState codec (Some st') = Inr st'
           \<and> map_outcome (Codec_GuardFingerprint codec) (Codec_ToParams codec (Some st'))
             = map_outcome (Codec_GuardFingerprint codec) (Codec_ToParams codec (Some st))"
    unfolding normalize_builtin [OF assms] builtin_codec_ops [OF assms]
    by (simp add: disp is_incompatible_def incompatible_def codec_ToParams_def)
qed

theorem builtin_codec_normalizes_witness:
  "resumeSessionCodecFor (Some (driver_of_codec (codex_sessionCodec id))) = Inr (codex_sessionCodec id)
   \<and> normalizeResumableSessionState (codex_sessionCodec id)
       (Some \<lparr>State_ResumeID = ''abc'', State_DisplayID = '''', State_Data = [''cwd'' \<mapsto> ''/w'']\<rparr>)
     = Inr \<lparr>State_ResumeID = ''abc'', State_DisplayID = ''abc'', State_Data = [''cwd'' \<mapsto> ''/w'']\<rparr>"
proof -
  have mem: "codex_sessionCodec id \<in> set (builtin_codecs id)" by (simp add: builtin_codecs_def)
  have trim: "TrimSpace ''abc'' = ''abc''"
    by (simp add: TrimSpace_def drop_prefixes.simps [of _ "_ # _"] space_runes_def)
  show ?thesis
    using builtin_codec_normalizes [OF mem, of
        "\<lparr>State_ResumeID = ''abc'', State_DisplayID = '''', State_Data = [''cwd'' \<mapsto> ''/w'']\<rparr>"] trim
    by (auto simp: displayID_def split: sum.splits)
qed

text \<open>
  The resume guard of the built-in drivers separates sessions: when the digest does not
  collide on the two preimages and no guarded value contains a NUL byte, two sessions have the
  same guard fingerprint exactly when working directory, workspace and profile fingerprint agree.
\<close>

theorem guardHash_separates:
  assumes "\<forall>v \<in> set (guarded_values vs) \<union> set (guarded_values ws). CHR 0x00 \<notin> set v"
    and "inj_on sha256hex {guardPreimage vs guard_keys, guardPreimage ws guard_keys}"
  shows "guardHash sha256hex vs guard_keys = guardHash sha256hex ws guard_keys
     \<longleftrightarrow> guarded_values vs = guarded_values ws"
  using assms guardPreimage_inject [of vs ws] by (auto simp: guardHash_def)

theorem guardHash_separates_witness:
  "guardHash id [''cwd'' \<mapsto> ''/a''] guard_keys \<noteq> guardHash id [''cwd'' \<mapsto> ''/b''] guard_keys"
  using guardHash_separates [of "[''cwd'' \<mapsto> ''/a'']" "[''cwd'' \<mapsto> ''/b'']" id]
  by (simp add: guarded_values_def guard_keys_def)

end
