(* ===== verification/SessionPlan.thy ===== *)
theory SessionPlan
  imports SessionTypes KeyCodec "HOL-Library.List_Lexorder" "HOL-Library.Char_ord"
begin

text \<open>
  \<^verbatim>\<open>internal/engine/session.go\<close> and \<^verbatim>\<open>threadsession.go\<close>: resolving a thread
  request into a plan under leases, renewing and releasing the leases, and persisting the
  checkpoint after a run. The coordinator talks to a store through the interface
  \<^verbatim>\<open>SessionStore\<close>, which is a record of operations on an arbitrary world \<open>'w\<close>; the
  clock, the entropy source and the digest \<^verbatim>\<open>stableHash\<close> are an environment record.
  A plan is mutated through a pointer, so a step works on the pair of plan and world and keeps
  what it changed when it fails.
\<close>

subsection \<open>Stores and environment\<close>

record 'w SessionStore =
  Store_Resolve :: "SessionQuery \<Rightarrow> ('w, SessionError, SessionRecord option) step"
  Store_Finalize :: "SessionFinalizeRequest \<Rightarrow> ('w, SessionError, unit) step"
  Store_AcquireLease :: "string \<Rightarrow> string \<Rightarrow> duration \<Rightarrow> ('w, SessionError, SessionLease) step"
  Store_RenewLease :: "SessionLease \<Rightarrow> duration \<Rightarrow> ('w, SessionError, unit) step"
  Store_ReleaseLease :: "SessionLease \<Rightarrow> ('w, SessionError, unit) step"

text \<open>The arguments \<^verbatim>\<open>stableHash\<close> is called with.\<close>

datatype hash_arg = HashString string | HashIdentity AgentIdentity | HashRequest SessionRequest

record 'w session_env =
  env_stableHash :: "hash_arg list \<Rightarrow> string"
  env_paramsHash :: "SessionParams \<Rightarrow> string"
  env_entropyRead :: "'w \<Rightarrow> entropy \<times> 'w"
  env_now :: "'w \<Rightarrow> gotime \<times> 'w"
  env_LeaseTTL :: duration
  env_LeaseRenewInterval :: duration

record resolvedSessionPlan =
  plan_request :: SessionRequest
  plan_engineID :: string
  plan_record :: "SessionRecord option"
  plan_keyLeaseID :: string
  plan_reused :: bool
  plan_created :: bool
  plan_previousID :: string
  plan_compatibility :: SessionCompatibility
  plan_requireKeyAbsent :: bool
  plan_owner :: string
  plan_leases :: "SessionLease list"
  plan_renewing :: bool
  plan_renewErr :: "SessionError option"

definition new_plan :: "SessionRequest \<Rightarrow> string \<Rightarrow> resolvedSessionPlan" where
  "new_plan req owner = \<lparr>plan_request = req, plan_engineID = '''', plan_record = None,
     plan_keyLeaseID = '''', plan_reused = False, plan_created = False, plan_previousID = '''',
     plan_compatibility = compat_of_status '''', plan_requireKeyAbsent = False,
     plan_owner = owner, plan_leases = [], plan_renewing = False, plan_renewErr = None\<rparr>"

type_synonym ('w, 'a) plan_step = "(resolvedSessionPlan \<times> 'w, SessionError, 'a) step"

definition in_world :: "('w, SessionError, 'a) step \<Rightarrow> ('w, 'a) plan_step" where
  "in_world m = (\<lambda>(p, w). case m w of (r, w') \<Rightarrow> (r, (p, w')))"

definition set_plan :: "(resolvedSessionPlan \<Rightarrow> resolvedSessionPlan) \<Rightarrow> ('w, unit) plan_step" where
  "set_plan f = (\<lambda>(p, w). (Inr (), (f p, w)))"

subsection \<open>Requests\<close>

definition resolveSessionDefaults :: "SessionRequest \<Rightarrow> SessionRequest" where
  "resolveSessionDefaults req =
     (if SReq_Mode req \<noteq> '''' then req
      else if SReq_ID req \<noteq> '''' then req\<lparr>SReq_Mode := SessionContinueOnly\<rparr>
      else if SReq_Key req \<noteq> '''' then req\<lparr>SReq_Mode := SessionContinueOrStart\<rparr>
      else req\<lparr>SReq_Mode := SessionStateless\<rparr>)"

definition validateSessionRequest :: "SessionRequest \<Rightarrow> SessionError option" where
  "validateSessionRequest req =
     (let hasTuple = SReq_Namespace req \<noteq> '''' \<and> SReq_Key req \<noteq> '''';
          hasID = SReq_ID req \<noteq> '''';
          hasForkID = SReq_ForkFrom req \<noteq> '''';
          hasForkKey = SReq_ForkFromKey req \<noteq> ''''
      in if (SReq_Namespace req = '''') \<noteq> (SReq_Key req = '''')
         then Some (ErrInvalidSessionRequest ''namespace and key must be supplied together'')
         else if SReq_Mode req = SessionStateless then
           (if hasID \<or> hasTuple \<or> hasForkID \<or> hasForkKey \<or> SReq_SessionCodec req \<noteq> ''''
            then Some (ErrInvalidSessionRequest ''stateless mode cannot include session selectors'')
            else None)
         else if SReq_Mode req = SessionContinueOnly then
           (if hasID = hasTuple \<or> hasForkID \<or> hasForkKey
            then Some (ErrInvalidSessionRequest ''continue-only requires exactly one ID or key selector'')
            else None)
         else if SReq_Mode req = SessionContinueOrStart then
           (if \<not> hasTuple \<or> hasID \<or> hasForkID \<or> hasForkKey
            then Some (ErrInvalidSessionRequest (SReq_Mode req @ '' requires exactly one key selector''))
            else None)
         else if SReq_Mode req = SessionFork then
           (if \<not> hasTuple \<or> hasID \<or> hasForkID = hasForkKey
            then Some (ErrInvalidSessionRequest ''fork requires one target key and exactly one parent selector'')
            else if hasForkKey \<and> SReq_SessionCodec req = ''''
            then Some (ErrInvalidSessionRequest ''structured fork requires session codec'')
            else None)
         else Some (ErrInvalidSessionRequest (''unsupported mode '' @ SReq_Mode req)))"

definition sessionKeyLeaseID :: "string \<Rightarrow> string \<Rightarrow> string" where
  "sessionKeyLeaseID namespace key = Encode [''session-key'', namespace, key]"

definition sessionRecordLeaseID :: "string \<Rightarrow> string" where
  "sessionRecordLeaseID sid = Encode [''session-record'', sid]"

subsection \<open>Identifiers\<close>

definition entropy_suffix :: "string \<Rightarrow> entropy \<Rightarrow> SessionError + string" where
  "entropy_suffix what ent =
     (case ent of
        EntropyError msg \<Rightarrow> Inl (SessionEntropyError (what @ '': '' @ msg))
      | EntropyRead buf \<Rightarrow>
          (if length buf \<noteq> 16 then Inl (SessionEntropyError (what @ '': unexpected EOF''))
           else Inr (hexEncode buf)))"

definition newEngineSessionID ::
  "'w session_env \<Rightarrow> string \<Rightarrow> string \<Rightarrow> ('w, SessionError, string) step" where
  "newEngineSessionID env driverType fingerprint w =
     (case env_entropyRead env w of (ent, w') \<Rightarrow>
        (bindE (entropy_suffix ''generate engine session ID entropy'' ent) (\<lambda>suffix.
           Inr (env_stableHash env [HashString ''session'', HashString driverType,
                  HashString fingerprint, HashString suffix])), w'))"

definition newLeaseOwner ::
  "'w session_env \<Rightarrow> AgentIdentity \<Rightarrow> string \<Rightarrow> SessionRequest \<Rightarrow> ('w, SessionError, string) step" where
  "newLeaseOwner env identity driverType req w =
     (case env_entropyRead env w of (ent, w') \<Rightarrow>
        (bindE (entropy_suffix ''generate session lease owner entropy'' ent) (\<lambda>suffix.
           Inr (env_stableHash env [HashString ''lease_owner'', HashIdentity identity,
                  HashString driverType, HashRequest req, HashString suffix])), w'))"

definition sessionCompatibility :: "string \<Rightarrow> string \<Rightarrow> SessionCompatibility" where
  "sessionCompatibility expected actual =
     (if expected = '''' \<or> actual = '''' then
        \<lparr>Compat_Status = SessionCompatibilityIncompatible, Compat_Reason = ''missing fingerprint'',
         Compat_ExpectedFingerprint = '''', Compat_ActualFingerprint = ''''\<rparr>
      else if expected = actual then
        \<lparr>Compat_Status = SessionCompatibilityCompatible, Compat_Reason = '''',
         Compat_ExpectedFingerprint = expected, Compat_ActualFingerprint = actual\<rparr>
      else
        \<lparr>Compat_Status = SessionCompatibilityIncompatible, Compat_Reason = ''run fingerprint changed'',
         Compat_ExpectedFingerprint = expected, Compat_ActualFingerprint = actual\<rparr>)"

subsection \<open>Leases\<close>

fun rememberLeaseLocked :: "SessionLease list \<Rightarrow> SessionLease \<Rightarrow> SessionLease list" where
  "rememberLeaseLocked [] lease = [lease]"
| "rememberLeaseLocked (existing # leases) lease =
     (if SLease_Target existing = SLease_Target lease then lease # leases
      else existing # rememberLeaseLocked leases lease)"

definition acquireLease :: "'w session_env \<Rightarrow> 'w SessionStore \<Rightarrow> string \<Rightarrow> ('w, unit) plan_step" where
  "acquireLease env store target = (\<lambda>(p, w).
     if target = '''' then (Inr (), (p, w))
     else case Store_AcquireLease store target (plan_owner p) (env_LeaseTTL env) w of
       (Inl err, w') \<Rightarrow> (Inl (if is_busy err then SessionBusyError target else err), (p, w'))
     | (Inr lease, w') \<Rightarrow>
         (Inr (), (p\<lparr>plan_leases := rememberLeaseLocked (plan_leases p) lease\<rparr>, w')))"

definition stopLeaseRenewal :: "resolvedSessionPlan \<Rightarrow> resolvedSessionPlan" where
  "stopLeaseRenewal p = p\<lparr>plan_renewing := False\<rparr>"

text \<open>
  What the release coordinator waits for: the results of the hooks it started, the end of its
  context, and then the end of the cancellation grace. The result is \<open>None\<close> while it is still
  waiting.
\<close>

datatype release_event =
    HookResult string "SessionError option"
  | ReleaseDone CtxErr
  | GraceElapsed

definition release_failure :: "string \<Rightarrow> SessionError option \<Rightarrow> SessionError list" where
  "release_failure target err = (case err of None \<Rightarrow> [] | Some e \<Rightarrow> [ReleaseFailure target e])"

fun release_wait ::
  "string list \<Rightarrow> CtxErr option \<Rightarrow> SessionError list \<Rightarrow> release_event list \<Rightarrow> SessionError option option" where
  "release_wait [] ctx errs evs = Some (errors_Join (map Some errs))"
| "release_wait (t # ts) ctx errs [] = None"
| "release_wait (t # ts) ctx errs (HookResult target err # evs) =
     release_wait (removeAll target (t # ts)) ctx (errs @ release_failure target err) evs"
| "release_wait (t # ts) ctx errs (ReleaseDone c # evs) =
     release_wait (t # ts) (case ctx of None \<Rightarrow> Some c | Some c' \<Rightarrow> Some c') errs evs"
| "release_wait (t # ts) ctx errs (GraceElapsed # evs) =
     (case ctx of
        None \<Rightarrow> release_wait (t # ts) None errs evs
      | Some c \<Rightarrow> Some (errors_Join (map Some (errs @ [ReleasePending (sort (t # ts)) c]))))"

text \<open>The hooks, started from the last lease to the first, and the results they publish.\<close>

fun run_release_hooks ::
  "'w SessionStore \<Rightarrow> SessionLease list \<Rightarrow> 'w \<Rightarrow> release_event list \<times> 'w" where
  "run_release_hooks store [] w = ([], w)"
| "run_release_hooks store (lease # leases) w =
     (case Store_ReleaseLease store lease w of (r, w1) \<Rightarrow>
      case run_release_hooks store leases w1 of (evs, w2) \<Rightarrow>
        (HookResult (SLease_Target lease) (case r of Inl e \<Rightarrow> Some e | Inr _ \<Rightarrow> None) # evs, w2))"

definition releaseContext ::
  "'w SessionStore \<Rightarrow> resolvedSessionPlan \<times> 'w \<Rightarrow> SessionError option \<times> (resolvedSessionPlan \<times> 'w)" where
  "releaseContext store = (\<lambda>(p, w).
     let leases = plan_leases p;
         p' = (stopLeaseRenewal p)\<lparr>plan_leases := []\<rparr>
     in if leases = [] then (None, (p', w))
        else case run_release_hooks store (rev leases) w of (evs, w') \<Rightarrow>
          (case release_wait (map SLease_Target (rev leases)) None [] evs of
             None \<Rightarrow> None
           | Some res \<Rightarrow> res, (p', w')))"

definition releaseAfter ::
  "'w SessionStore \<Rightarrow> SessionError \<Rightarrow> resolvedSessionPlan \<times> 'w
   \<Rightarrow> SessionError \<times> (resolvedSessionPlan \<times> 'w)" where
  "releaseAfter store primary s =
     (case releaseContext store s of (err, s') \<Rightarrow>
        (case errors_Join [Some primary, err] of None \<Rightarrow> primary | Some e \<Rightarrow> e, s'))"

definition prepareFresh ::
  "'w session_env \<Rightarrow> 'w SessionStore \<Rightarrow> string \<Rightarrow> string \<Rightarrow> ('w, unit) plan_step" where
  "prepareFresh env store driverType fingerprint =
     seqE (in_world (newEngineSessionID env driverType fingerprint)) (\<lambda>engineID.
     seqE (set_plan (\<lambda>p. p\<lparr>plan_previousID := plan_engineID p, plan_engineID := engineID,
             plan_reused := False, plan_created := True, plan_record := None,
             plan_compatibility := compat_of_status SessionCompatibilityNew\<rparr>)) (\<lambda>_.
     acquireLease env store (sessionRecordLeaseID engineID)))"

subsection \<open>Renewal\<close>

definition defaultLeaseReleaseTimeout :: duration where
  "defaultLeaseReleaseTimeout = 5 * 1000000000"

definition leaseHookCancellationGrace :: duration where
  "leaseHookCancellationGrace = 100 * 1000000"

definition leaseRenewInterval :: "duration \<Rightarrow> duration \<Rightarrow> duration" where
  "leaseRenewInterval configured ttl =
     (let interval = (if configured \<le> 0 \<or> ttl \<le> configured then go_div ttl 2 else configured)
      in if interval \<le> 0 then 1000000000 else interval)"

definition leaseRenewAttemptTimeout :: "duration \<Rightarrow> duration" where
  "leaseRenewAttemptTimeout ttl =
     (let timeout = go_div ttl 2
      in if timeout \<le> 0 then 1000000
         else if defaultLeaseReleaseTimeout < timeout then defaultLeaseReleaseTimeout
         else timeout)"

text \<open>
  How a bounded hook call ends: it returns before its context is done, or within the grace
  after that, or not at all as far as the coordinator waits.
\<close>

datatype hook_timing = ReturnedInTime | ReturnedInGrace | Abandoned

definition boundedSessionStoreCall ::
  "hook_timing \<Rightarrow> SessionError \<Rightarrow> SessionError option \<Rightarrow> SessionError option \<times> bool" where
  "boundedSessionStoreCall timing cause err =
     (case timing of
        ReturnedInTime \<Rightarrow> (err, True)
      | ReturnedInGrace \<Rightarrow> (err, True)
      | Abandoned \<Rightarrow> (Some cause, False))"

text \<open>The cause of the renewal context when an attempt has failed.\<close>

datatype renew_cause = NotCancelled | RenewalStopped | InvocationEnded

definition setRenewalError :: "SessionError \<Rightarrow> resolvedSessionPlan \<Rightarrow> resolvedSessionPlan" where
  "setRenewalError err p =
     (case plan_renewErr p of None \<Rightarrow> p\<lparr>plan_renewErr := Some err\<rparr> | Some _ \<Rightarrow> p)"

text \<open>
  One tick of the renewal loop over a snapshot of the leases. The environment decides for every
  attempt how the hook call ends and what the renewal context's cause is afterwards. The tick
  ends with the loop going on, or stopped, with the run's cancel function called or not.
\<close>

datatype renew_result = RenewOn | RenewStopped bool

record renew_attempt =
  attempt_timing :: hook_timing
  attempt_ctx_cause :: SessionError
  attempt_cause :: renew_cause

fun renew_tick ::
  "'w SessionStore \<Rightarrow> duration \<Rightarrow> renew_attempt list \<Rightarrow> SessionLease list
   \<Rightarrow> resolvedSessionPlan \<times> 'w \<Rightarrow> renew_result \<times> (resolvedSessionPlan \<times> 'w)" where
  "renew_tick store ttl (a # as) (lease # leases) (p, w) =
     (let (r, w') = (if attempt_timing a = Abandoned then (Inr (), w)
                     else Store_RenewLease store lease ttl w);
          (err, completed) = boundedSessionStoreCall (attempt_timing a) (attempt_ctx_cause a)
             (case r of Inl e \<Rightarrow> Some e | Inr _ \<Rightarrow> None)
      in case err of
           None \<Rightarrow> renew_tick store ttl as leases (p, w')
         | Some e \<Rightarrow>
             (case attempt_cause a of
                RenewalStopped \<Rightarrow>
                  (RenewStopped False,
                   (if \<not> completed
                    then setRenewalError (SessionLeaseLostError (SLease_Target lease)) p else p, w'))
              | InvocationEnded \<Rightarrow> (RenewStopped False, (p, w'))
              | NotCancelled \<Rightarrow>
                  (RenewStopped True,
                   (setRenewalError (JoinedError [SessionLeaseLostError (SLease_Target lease), e]) p, w'))))"
| "renew_tick store ttl _ _ s = (RenewOn, s)"

subsection \<open>Preparing a plan\<close>

definition acquireCurrent ::
  "'w session_env \<Rightarrow> 'w SessionStore \<Rightarrow> SessionRecord option \<Rightarrow> ('w, unit) plan_step" where
  "acquireCurrent env store current =
     (case current of None \<Rightarrow> doneE () | Some r \<Rightarrow>
        if SRec_ID r = '''' then doneE () else acquireLease env store (sessionRecordLeaseID (SRec_ID r)))"

definition incompatible_of :: "SessionCompatibility \<Rightarrow> SessionError" where
  "incompatible_of cmp = SessionIncompatibleError (Compat_Reason cmp)
     (Compat_ExpectedFingerprint cmp) (Compat_ActualFingerprint cmp)"

definition validateForkParent ::
  "SessionRecord option \<Rightarrow> AgentIdentity \<Rightarrow> string \<Rightarrow> string \<Rightarrow> string \<Rightarrow> SessionError option" where
  "validateForkParent parent identity driverType fingerprint codec =
     (case parent of None \<Rightarrow> Some ErrSessionNotFound | Some r \<Rightarrow>
      if SRec_DriverState r = None then Some ErrSessionCheckpointMissing
      else if SRec_DriverType r = '''' \<or> SRec_DriverType r \<noteq> driverType
      then Some (incompatible ''fork parent driver changed'')
      else if SRec_Agent r \<noteq> identity then Some (incompatible ''fork parent identity changed'')
      else let cmp = sessionCompatibility fingerprint (SRec_CompatibilityFingerprint r) in
        if Compat_Status cmp \<noteq> SessionCompatibilityCompatible then Some (incompatible_of cmp)
        else if codec \<noteq> '''' \<and> (SRec_SessionCodec r = '''' \<or> SRec_SessionCodec r \<noteq> codec)
        then Some (incompatible ''fork parent session codec changed'')
        else None)"

text \<open>The parent's key lease and its first lookup, then its record lease and the lookup that counts.\<close>

definition forkParentCandidate ::
  "'w session_env \<Rightarrow> 'w SessionStore \<Rightarrow> SessionRequest \<Rightarrow> ('w, SessionRecord option) plan_step" where
  "forkParentCandidate env store req =
     (if SReq_ForkFromKey req \<noteq> '''' then
        seqE (acquireLease env store (sessionKeyLeaseID (SReq_Namespace req) (SReq_ForkFromKey req))) (\<lambda>_.
        in_world (Store_Resolve store (session_by_key (SReq_Namespace req) (SReq_ForkFromKey req))))
      else
        seqE (in_world (Store_Resolve store (session_by_id (SReq_ForkFrom req)))) (\<lambda>parent.
        case parent of None \<Rightarrow> doneE None | Some r \<Rightarrow>
          (if SRec_Namespace r \<noteq> '''' \<and> SRec_Key r \<noteq> '''' then
             seqE (acquireLease env store (sessionKeyLeaseID (SRec_Namespace r) (SRec_Key r)))
               (\<lambda>_. doneE (Some r))
           else doneE (Some r))))"

definition prepareForkParent ::
  "'w session_env \<Rightarrow> 'w SessionStore \<Rightarrow> SessionRequest \<Rightarrow> ('w, SessionRecord option) plan_step" where
  "prepareForkParent env store req =
     seqE (forkParentCandidate env store req) (\<lambda>parent.
     case parent of None \<Rightarrow> doneE None | Some r \<Rightarrow>
       seqE (acquireLease env store (sessionRecordLeaseID (SRec_ID r))) (\<lambda>_.
       in_world (Store_Resolve store (session_by_id (SRec_ID r)))))"

text \<open>The record a request selects: by key for a fork, by identifier, or by key.\<close>

definition resolveCurrent ::
  "'w SessionStore \<Rightarrow> SessionRequest \<Rightarrow> ('w, SessionRecord option) plan_step" where
  "resolveCurrent store req =
     (if SReq_Mode req = SessionFork
      then in_world (Store_Resolve store (session_by_key (SReq_Namespace req) (SReq_Key req)))
      else if SReq_ID req \<noteq> '''' then in_world (Store_Resolve store (session_by_id (SReq_ID req)))
      else if SReq_Namespace req \<noteq> '''' \<and> SReq_Key req \<noteq> ''''
      then in_world (Store_Resolve store (session_by_key (SReq_Namespace req) (SReq_Key req)))
      else doneE None)"

definition prepareContinueOnly ::
  "'w session_env \<Rightarrow> 'w SessionStore \<Rightarrow> string \<Rightarrow> SessionRecord option \<Rightarrow> ('w, unit) plan_step" where
  "prepareContinueOnly env store fingerprint current =
     (case current of None \<Rightarrow> failE ErrSessionNotFound | Some r \<Rightarrow>
        seqE (acquireCurrent env store current) (\<lambda>_.
        let cmp = sessionCompatibility fingerprint (SRec_CompatibilityFingerprint r) in
        seqE (set_plan (\<lambda>p. p\<lparr>plan_compatibility := cmp\<rparr>)) (\<lambda>_.
        if Compat_Status cmp \<noteq> SessionCompatibilityCompatible then failE (incompatible_of cmp)
        else set_plan (\<lambda>p. p\<lparr>plan_engineID := SRec_ID r, plan_reused := True\<rparr>))))"

definition prepareContinueOrStart ::
  "'w session_env \<Rightarrow> 'w SessionStore \<Rightarrow> string \<Rightarrow> string \<Rightarrow> SessionRecord option \<Rightarrow> ('w, unit) plan_step" where
  "prepareContinueOrStart env store driverType fingerprint current =
     (case current of
        None \<Rightarrow>
          seqE (in_world (newEngineSessionID env driverType fingerprint)) (\<lambda>engineID.
          seqE (set_plan (\<lambda>p. p\<lparr>plan_engineID := engineID\<rparr>)) (\<lambda>_.
          seqE (acquireLease env store (sessionRecordLeaseID engineID)) (\<lambda>_.
          set_plan (\<lambda>p. p\<lparr>plan_created := True,
            plan_compatibility := compat_of_status SessionCompatibilityNew\<rparr>))))
      | Some r \<Rightarrow>
          seqE (acquireCurrent env store current) (\<lambda>_.
          let cmp = sessionCompatibility fingerprint (SRec_CompatibilityFingerprint r) in
          seqE (set_plan (\<lambda>p. p\<lparr>plan_compatibility := cmp\<rparr>)) (\<lambda>_.
          if Compat_Status cmp = SessionCompatibilityCompatible
          then set_plan (\<lambda>p. p\<lparr>plan_engineID := SRec_ID r, plan_reused := True\<rparr>)
          else
            seqE (in_world (newEngineSessionID env driverType fingerprint)) (\<lambda>engineID.
            seqE (set_plan (\<lambda>p. p\<lparr>plan_previousID := SRec_ID r, plan_engineID := engineID\<rparr>)) (\<lambda>_.
            seqE (acquireLease env store (sessionRecordLeaseID engineID)) (\<lambda>_.
            set_plan (\<lambda>p. p\<lparr>plan_created := True\<rparr>)))))))"

definition prepareFork ::
  "'w session_env \<Rightarrow> 'w SessionStore \<Rightarrow> SessionRequest \<Rightarrow> AgentIdentity \<Rightarrow> string \<Rightarrow> string
   \<Rightarrow> SessionRecord option \<Rightarrow> ('w, unit) plan_step" where
  "prepareFork env store req identity driverType fingerprint current =
     (if current \<noteq> None then failE (ErrThreadAlreadyExists (SReq_Key req))
      else seqE (prepareForkParent env store req) (\<lambda>parent.
        if parent = None then failE ErrSessionNotFound
        else case validateForkParent parent identity driverType fingerprint (SReq_SessionCodec req) of
          Some err \<Rightarrow> failE err
        | None \<Rightarrow>
            seqE (in_world (newEngineSessionID env driverType fingerprint)) (\<lambda>engineID.
            seqE (set_plan (\<lambda>p. p\<lparr>plan_record := parent, plan_engineID := engineID\<rparr>)) (\<lambda>_.
            seqE (acquireLease env store (sessionRecordLeaseID engineID)) (\<lambda>_.
            set_plan (\<lambda>p. p\<lparr>plan_created := True, plan_requireKeyAbsent := True,
              plan_compatibility := compat_of_status SessionCompatibilityNew\<rparr>))))))"

definition prepareMode ::
  "'w session_env \<Rightarrow> 'w SessionStore \<Rightarrow> SessionRequest \<Rightarrow> AgentIdentity \<Rightarrow> string \<Rightarrow> string
   \<Rightarrow> SessionRecord option \<Rightarrow> ('w, unit) plan_step" where
  "prepareMode env store req identity driverType fingerprint current =
     (if SReq_Mode req = SessionContinueOnly then prepareContinueOnly env store fingerprint current
      else if SReq_Mode req = SessionContinueOrStart
      then prepareContinueOrStart env store driverType fingerprint current
      else if SReq_Mode req = SessionFork
      then prepareFork env store req identity driverType fingerprint current
      else failE (ErrInvalidSessionRequest (''unsupported mode '' @ SReq_Mode req)))"

definition prepareLeased ::
  "'w session_env \<Rightarrow> 'w SessionStore \<Rightarrow> SessionRequest \<Rightarrow> AgentIdentity \<Rightarrow> string \<Rightarrow> string
   \<Rightarrow> ('w, unit) plan_step" where
  "prepareLeased env store req identity driverType fingerprint =
     seqE (if SReq_Namespace req \<noteq> '''' \<and> SReq_Key req \<noteq> '''' then
             let keyLease = sessionKeyLeaseID (SReq_Namespace req) (SReq_Key req) in
             seqE (set_plan (\<lambda>p. p\<lparr>plan_keyLeaseID := keyLease\<rparr>)) (\<lambda>_. acquireLease env store keyLease)
           else doneE ()) (\<lambda>_.
     seqE (resolveCurrent store req) (\<lambda>current.
     seqE (set_plan (\<lambda>p. p\<lparr>plan_record := current\<rparr>)) (\<lambda>_.
     prepareMode env store req identity driverType fingerprint current)))"

text \<open>
  Every failure after the plan exists goes through \<^verbatim>\<open>releaseAfter\<close>. The result is
  \<open>Inr None\<close> for the stateless mode, Go's \<^verbatim>\<open>nil, nil\<close>.
\<close>

definition prepareSessionPlan ::
  "'w session_env \<Rightarrow> 'w SessionStore option \<Rightarrow> SessionRequest \<Rightarrow> AgentIdentity \<Rightarrow> string \<Rightarrow> string
   \<Rightarrow> ('w, SessionError, resolvedSessionPlan option) step" where
  "prepareSessionPlan env store req0 identity driverType fingerprint w =
     (let req = resolveSessionDefaults req0 in
      case validateSessionRequest req of Some err \<Rightarrow> (Inl err, w) | None \<Rightarrow>
      if SReq_Mode req = SessionStateless then (Inr None, w)
      else case store of None \<Rightarrow> (Inl ErrSessionStoreRequired, w) | Some st \<Rightarrow>
        case newLeaseOwner env identity driverType req w of
          (Inl err, w1) \<Rightarrow> (Inl err, w1)
        | (Inr owner, w1) \<Rightarrow>
            (case prepareLeased env st req identity driverType fingerprint (new_plan req owner, w1) of
               (Inr _, (p, w2)) \<Rightarrow> (Inr (Some p), w2)
             | (Inl err, s2) \<Rightarrow> (case releaseAfter st err s2 of (e, (_, w3)) \<Rightarrow> (Inl e, w3))))"

subsection \<open>Persisting a plan\<close>

definition usable_checkpoint :: "Checkpoint option \<Rightarrow> SessionState option" where
  "usable_checkpoint cp =
     (case cp of None \<Rightarrow> None | Some c \<Rightarrow> if \<not> Checkpoint_Valid c then None else Checkpoint_State c)"

definition persist_record ::
  "resolvedSessionPlan \<Rightarrow> AgentIdentity \<Rightarrow> string \<Rightarrow> string \<Rightarrow> string \<Rightarrow> SessionState
   \<Rightarrow> gotime \<Rightarrow> gotime \<Rightarrow> SessionRecord" where
  "persist_record p identity driverType fingerprint codecName st t1 t2 =
     \<lparr>SRec_ID = plan_engineID p, SRec_Namespace = SReq_Namespace (plan_request p),
      SRec_Key = SReq_Key (plan_request p), SRec_Status = SessionStatusActive,
      SRec_DriverType = driverType, SRec_Agent = identity, SRec_Fingerprint = fingerprint,
      SRec_CompatibilityFingerprint = fingerprint, SRec_SessionCodec = codecName,
      SRec_DriverState = Some st,
      SRec_CreatedAt = (case plan_record p of Some r \<Rightarrow> if plan_reused p then SRec_CreatedAt r else t1
                        | None \<Rightarrow> t1),
      SRec_UpdatedAt = t2\<rparr>"

definition persist_request :: "resolvedSessionPlan \<Rightarrow> SessionRecord \<Rightarrow> SessionFinalizeRequest" where
  "persist_request p record =
     \<lparr>SFin_Record = record, SFin_PreviousID = plan_previousID p,
      SFin_Namespace = SReq_Namespace (plan_request p), SFin_Key = SReq_Key (plan_request p),
      SFin_HeldLeases = plan_leases p, SFin_ArchiveOld = (plan_previousID p \<noteq> ''''),
      SFin_RebindActive = (SReq_Namespace (plan_request p) \<noteq> '''' \<and> SReq_Key (plan_request p) \<noteq> ''''),
      SFin_RequireKeyAbsent = plan_requireKeyAbsent p\<rparr>"

definition persist_compatibility :: "resolvedSessionPlan \<Rightarrow> string \<Rightarrow> SessionCompatibility" where
  "persist_compatibility p fingerprint =
     (if Compat_Status (plan_compatibility p) \<noteq> '''' then plan_compatibility p
      else if plan_reused p then
        \<lparr>Compat_Status = SessionCompatibilityCompatible, Compat_Reason = '''',
         Compat_ExpectedFingerprint = fingerprint, Compat_ActualFingerprint = fingerprint\<rparr>
      else compat_of_status SessionCompatibilityNew)"

text \<open>
  The display identifier is computed by the driver's codec after the record is stored; only
  there can a panic of the codec escape, which is the outcome \<open>Panic\<close>.
\<close>

definition persistSessionPlan ::
  "'w session_env \<Rightarrow> 'w SessionStore option \<Rightarrow> AgentIdentity \<Rightarrow> Driver option \<Rightarrow> string
   \<Rightarrow> Checkpoint option \<Rightarrow> resolvedSessionPlan \<times> 'w
   \<Rightarrow> (SessionError + SessionRef option) outcome \<times> (resolvedSessionPlan \<times> 'w)" where
  "persistSessionPlan env store identity drv fingerprint checkpoint = (\<lambda>(p, w).
     case store of None \<Rightarrow> (Return (Inr None), (p, w)) | Some st \<Rightarrow>
     if SReq_Mode (plan_request p) = SessionStateless then (Return (Inr None), (p, w))
     else case usable_checkpoint checkpoint of
       None \<Rightarrow> (Return (Inl ErrSessionCheckpointMissing), (p, w))
     | Some state \<Rightarrow>
     (case resumeSessionCodecFor drv of Inl err \<Rightarrow> (Return (Inl err), (p, w)) | Inr codec \<Rightarrow>
     (case normalizeResumableSessionState codec (Some state) of
        Inl err \<Rightarrow> (Return (Inl (if is_incompatible err then ErrSessionCheckpointMissing else err)), (p, w))
      | Inr persisted \<Rightarrow>
     (case drv of None \<Rightarrow> (Panic, (p, w)) | Some d \<Rightarrow>
     (case env_now env w of (t1, w1) \<Rightarrow> case env_now env w1 of (t2, w2) \<Rightarrow>
      let record = persist_record p identity (Driver_Type d) fingerprint (Codec_Name codec 2) persisted t1 t2 in
      case Store_Finalize st (persist_request p record) w2 of
        (Inl err, w3) \<Rightarrow>
          (Return (Inl (case already_exists err of
             Some key \<Rightarrow> JoinedError [ErrThreadAlreadyExists (AlreadyExistsError_Error key), err]
           | None \<Rightarrow> err)), (p, w3))
      | (Inr _, w3) \<Rightarrow>
          (case sessionDisplayID (env_paramsHash env) d (Some persisted) of
             Panic \<Rightarrow> (Panic, (p, w3))
           | Return disp \<Rightarrow>
               let cmp = persist_compatibility p fingerprint in
               (Return (Inr (Some
                  \<lparr>Ref_ID = plan_engineID p, Ref_Namespace = SReq_Namespace (plan_request p),
                   Ref_Key = SReq_Key (plan_request p),
                   Ref_DisplayID = (if disp \<noteq> '''' then disp else plan_engineID p),
                   Ref_Reused = plan_reused p, Ref_Created = plan_created p,
                   Ref_PreviousID = plan_previousID p, Ref_Compatibility = cmp\<rparr>)),
                (p\<lparr>plan_compatibility := cmp, plan_record := Some record, plan_reused := True,
                   plan_previousID := '''', plan_requireKeyAbsent := False\<rparr>, w3))))))))"

subsection \<open>The Thread entry points\<close>

definition PrepareThreadSession where
  "PrepareThreadSession = prepareSessionPlan"

definition PrepareThreadSessionForDriver ::
  "'w session_env \<Rightarrow> 'w SessionStore option \<Rightarrow> SessionRequest \<Rightarrow> AgentIdentity \<Rightarrow> Driver option \<Rightarrow> string
   \<Rightarrow> ('w, SessionError, resolvedSessionPlan option) step" where
  "PrepareThreadSessionForDriver env store req identity drv fingerprint w =
     (case resumeSessionCodecFor drv of Inl err \<Rightarrow> (Inl err, w) | Inr codec \<Rightarrow>
      let driverType = (case drv of None \<Rightarrow> '''' | Some d \<Rightarrow> Driver_Type d);
          req' = req\<lparr>SReq_SessionCodec := TrimSpace (Codec_Name codec 2)\<rparr>
      in case prepareSessionPlan env store req' identity driverType fingerprint w of
           (Inl err, w') \<Rightarrow> (Inl err, w')
         | (Inr None, w') \<Rightarrow> (Inr None, w')
         | (Inr (Some p), w') \<Rightarrow>
             (if plan_record p \<noteq> None \<and> (plan_reused p \<or> SReq_Mode req' = SessionFork) then
                (case validateResumableRecord (plan_record p) codec of
                   None \<Rightarrow> (Inr (Some p), w')
                 | Some stateErr \<Rightarrow>
                     (case store of None \<Rightarrow> (Inl stateErr, w') | Some st \<Rightarrow>
                      case releaseAfter st stateErr (p, w') of (e, (_, w'')) \<Rightarrow> (Inl e, w'')))
              else (Inr (Some p), w')))"

definition AcquireThreadOwnership ::
  "'w session_env \<Rightarrow> 'w SessionStore option \<Rightarrow> string \<Rightarrow> string \<Rightarrow> string
   \<Rightarrow> ('w, SessionError, resolvedSessionPlan) step" where
  "AcquireThreadOwnership env store namespace key driverType w =
     (case store of None \<Rightarrow> (Inl ErrSessionStoreRequired, w) | Some st \<Rightarrow>
      let req = \<lparr>SReq_ID = '''', SReq_Namespace = namespace, SReq_Key = key,
                 SReq_Mode = SessionContinueOrStart, SReq_ForkFrom = '''', SReq_ForkFromKey = '''',
                 SReq_SessionCodec = ''''\<rparr>;
          nobody = \<lparr>Agent_ID = '''', Agent_TenantID = '''', Agent_ProfileID = '''', Agent_Name = ''''\<rparr>
      in case validateSessionRequest req of Some err \<Rightarrow> (Inl err, w) | None \<Rightarrow>
      case newLeaseOwner env nobody driverType req w of
        (Inl err, w1) \<Rightarrow> (Inl err, w1)
      | (Inr owner, w1) \<Rightarrow>
          (case acquireLease env st (sessionKeyLeaseID namespace key) (new_plan req owner, w1) of
             (Inr _, (p, w2)) \<Rightarrow> (Inr p, w2)
           | (Inl err, s2) \<Rightarrow> (case releaseAfter st err s2 of (e, (_, w3)) \<Rightarrow> (Inl e, w3))))"

definition OwnershipLease :: "resolvedSessionPlan \<Rightarrow> SessionLease" where
  "OwnershipLease p = (case plan_leases p of
     [] \<Rightarrow> \<lparr>SLease_Target = '''', SLease_Owner = '''', SLease_Token = ''''\<rparr>
   | lease # _ \<Rightarrow> lease)"

definition DriverSession ::
  "'w session_env \<Rightarrow> Driver \<Rightarrow> resolvedSessionPlan \<Rightarrow> SessionContext outcome" where
  "DriverSession env d p =
     map_outcome (\<lambda>state. \<lparr>Context_EngineSessionID = plan_engineID p,
         Context_Mode = SReq_Mode (plan_request p), Context_State = state,
         Context_PreviousID = plan_previousID p\<rparr>)
       (case plan_record p of None \<Rightarrow> Return None | Some r \<Rightarrow>
          if plan_reused p \<or> SReq_Mode (plan_request p) = SessionFork
          then normalizeSessionState (env_paramsHash env) d (SRec_DriverState r)
          else Return None)"

subsection \<open>Releasing is bounded, renewing fails closed\<close>

lemma release_wait_done:
  "ctx \<noteq> None \<or> (\<exists>c. ReleaseDone c \<in> set pre) \<Longrightarrow>
     release_wait ts ctx errs (pre @ GraceElapsed # post) \<noteq> None"
proof (induction pre arbitrary: ts ctx errs)
  case Nil
  then show ?case by (cases ts) auto
next
  case (Cons ev pre)
  then show ?case by (cases ts; cases ev; cases ctx) auto
qed

lemma errors_Join_some: "es \<noteq> [] \<Longrightarrow> errors_Join (map Some es) \<noteq> None"
  by (auto simp: errors_Join_None_iff neq_Nil_conv)

lemma release_wait_nil:
  "release_wait ts ctx errs evs = Some None \<Longrightarrow>
     errs = [] \<and> (\<forall>t \<in> set ts. HookResult t None \<in> set evs)"
proof (induction ts ctx errs evs rule: release_wait.induct)
  case (1 ctx errs evs)
  then show ?case using errors_Join_some [of errs] by fastforce
next
  case (3 t ts ctx errs target err evs)
  then show ?case by (auto simp: release_failure_def split: option.splits if_splits)
next
  case (5 t ts ctx errs evs)
  show ?case
  proof (cases ctx)
    case (Some c)
    have "errors_Join (map Some (errs @ [ReleasePending (sort (t # ts)) c])) \<noteq> None"
      by (rule errors_Join_some) simp
    with 5(2) Some show ?thesis by simp
  qed (use 5 in auto)
qed auto

text \<open>
  Releasing a plan's leases is bounded and honest: whatever the store's hooks do, the
  coordinator has returned once its context is done and the grace has elapsed, it has returned as
  soon as every hook has reported, and it returns a nil error only when the release hook of every
  lease reported success.
\<close>

theorem release_bounded:
  "(ReleaseDone c \<in> set pre \<longrightarrow> release_wait targets None [] (pre @ GraceElapsed # post) \<noteq> None)
   \<and> (release_wait targets None [] evs = Some None \<longrightarrow> (\<forall>t \<in> set targets. HookResult t None \<in> set evs))"
  using release_wait_done release_wait_nil by blast

theorem release_bounded_witness:
  "release_wait [''a'', ''b''] None [] ([HookResult ''b'' None, ReleaseDone DeadlineExceeded] @ GraceElapsed # [])
     = Some (Some (JoinedError [ReleasePending [''a''] DeadlineExceeded]))
   \<and> release_wait [''a'', ''b''] None [] ([HookResult ''b'' None, ReleaseDone DeadlineExceeded] @ GraceElapsed # []) \<noteq> None"
  using release_bounded [of DeadlineExceeded "[HookResult ''b'' None, ReleaseDone DeadlineExceeded]" "[''a'', ''b'']" "[]"]
  by (simp add: release_failure_def errors_Join_def map_filter_def)

lemma setRenewalError_set: "\<exists>e'. plan_renewErr (setRenewalError e p) = Some e'"
  by (simp add: setRenewalError_def split: option.splits)

lemma setRenewalError_keeps: "plan_renewErr p = Some e0 \<Longrightarrow> plan_renewErr (setRenewalError e p) = Some e0"
  by (simp add: setRenewalError_def)

lemma setRenewalError_only: "setRenewalError e p = p\<lparr>plan_renewErr := plan_renewErr (setRenewalError e p)\<rparr>"
  by (simp add: setRenewalError_def split: option.splits)

text \<open>The leases a tick has renewed: every attempted hook returned without an error.\<close>

fun renewed_all ::
  "'w SessionStore \<Rightarrow> duration \<Rightarrow> renew_attempt list \<Rightarrow> SessionLease list \<Rightarrow> 'w \<Rightarrow> bool" where
  "renewed_all store ttl (a # as) (lease # leases) w \<longleftrightarrow>
     attempt_timing a \<noteq> Abandoned \<and>
     (case Store_RenewLease store lease ttl w of (Inl _, w') \<Rightarrow> False
      | (Inr _, w') \<Rightarrow> renewed_all store ttl as leases w')"
| "renewed_all store ttl [] (lease # leases) w \<longleftrightarrow> False"
| "renewed_all store ttl as [] w \<longleftrightarrow> True"

lemma renew_tick_result:
  assumes "renew_tick store ttl as leases (p, w) = (res, (p', w'))" and "length as = length leases"
  shows "(res = RenewOn \<longleftrightarrow> renewed_all store ttl as leases w) \<and> (res = RenewOn \<longrightarrow> p' = p)
    \<and> (res = RenewStopped True \<longrightarrow> plan_renewErr p' \<noteq> None)
    \<and> (\<forall>e. plan_renewErr p = Some e \<longrightarrow> plan_renewErr p' = Some e)
    \<and> plan_leases p' = plan_leases p"
  using assms
proof (induction store ttl as leases "(p, w)" arbitrary: w rule: renew_tick.induct)
  case (1 store ttl a as lease leases w)
  obtain r w1 where r: "Store_RenewLease store lease ttl w = (r, w1)" by fastforce
  have sl: "plan_leases (setRenewalError e p) = plan_leases p" for e
    by (subst setRenewalError_only) simp
  show ?case
  proof (cases "attempt_timing a = Abandoned")
    case True
    with 1(2) show ?thesis
      by (auto simp: boundedSessionStoreCall_def setRenewalError_set setRenewalError_keeps sl split: renew_cause.splits)
  next
    case False
    then have b: "boundedSessionStoreCall (attempt_timing a) c err = (err, True)" for c err
      by (simp add: boundedSessionStoreCall_def split: hook_timing.splits)
    show ?thesis
    proof (cases r)
      case (Inl e)
      with 1(2) False r b show ?thesis
        by (auto simp: setRenewalError_set setRenewalError_keeps sl split: renew_cause.splits)
    next
      case (Inr u)
      with 1 False r b show ?thesis by auto
    qed
  qed
qed auto

text \<open>
  Lease renewal fails closed. A tick of the renewal loop carries on exactly when the store
  confirmed the renewal of every held lease; when it cancels the run it has recorded a renewal
  error first, an already recorded error is never replaced or lost, and the set of held leases is
  not changed, so the coordinator that checks the error before persisting cannot miss it.
\<close>

theorem renewal_fails_closed:
  assumes "renew_tick store ttl attempts (plan_leases p) (p, w) = (res, (p', w'))"
    and "length attempts = length (plan_leases p)"
  shows "(res = RenewOn \<longleftrightarrow> renewed_all store ttl attempts (plan_leases p) w)
    \<and> (res = RenewStopped True \<longrightarrow> plan_renewErr p' \<noteq> None)
    \<and> (\<forall>e. plan_renewErr p = Some e \<longrightarrow> plan_renewErr p' = Some e)
    \<and> plan_leases p' = plan_leases p"
  using renew_tick_result [OF assms] by blast

text \<open>
  The renewal timing: intervals and attempt timeouts are positive, an attempt never takes more
  than five seconds, the interval is shorter than any lease of at least two nanoseconds, and with
  the production settings (five-minute leases renewed every two minutes) a stalled attempt ends,
  grace included, well before the lease does. A lease of at most ten seconds renewed at half its
  length has no such margin: interval and attempt timeout add up to the lease's whole length, to
  within a nanosecond of rounding.
\<close>

theorem lease_renewal_timing:
  "0 < leaseRenewInterval cfg ttl \<and> 0 < leaseRenewAttemptTimeout ttl
   \<and> leaseRenewAttemptTimeout ttl \<le> defaultLeaseReleaseTimeout
   \<and> (2 \<le> ttl \<longrightarrow> leaseRenewInterval cfg ttl < ttl)
   \<and> leaseRenewInterval (120 * 1000000000) (300 * 1000000000) + leaseRenewAttemptTimeout (300 * 1000000000)
        + leaseHookCancellationGrace < 300 * 1000000000
   \<and> (2 \<le> ttl \<and> ttl \<le> 10 * 1000000000 \<and> ttl \<le> cfg \<longrightarrow>
        ttl - 1 \<le> leaseRenewInterval cfg ttl + leaseRenewAttemptTimeout ttl)"
proof -
  have "0 \<le> ttl \<Longrightarrow> go_div ttl 2 = ttl div 2" by simp
  moreover have "ttl < 0 \<Longrightarrow> go_div ttl 2 \<le> 0" using go_div_nonpos [of ttl 2] by simp
  ultimately show ?thesis
    unfolding leaseRenewInterval_def leaseRenewAttemptTimeout_def defaultLeaseReleaseTimeout_def
      leaseHookCancellationGrace_def Let_def
    by (cases "0 \<le> ttl") auto
qed

theorem lease_renewal_timing_witness:
  "leaseRenewInterval 8000000000 8000000000 + leaseRenewAttemptTimeout 8000000000 = 8000000000
   \<and> leaseRenewInterval 8000000000 8000000000 < 8000000000"
  using lease_renewal_timing [of 8000000000 8000000000]
  by (simp add: leaseRenewInterval_def leaseRenewAttemptTimeout_def defaultLeaseReleaseTimeout_def Let_def)

end
