(* ===== verification/SessionContract.thy ===== *)
theory SessionContract
  imports SessionPlan
begin

text \<open>
  What the coordinator may rely on in a \<^verbatim>\<open>SessionStore\<close>, stated as a locale over an
  abstract view of the store: the lease on every target, the record under every identifier and
  the active identifier of every key. The lemmas of the locale are the coordinator's side:
  a failed preparation gives every lease back and leaves the records alone, and a successful
  one holds exactly the leases that its persistence request will be fenced by.
\<close>

subsection \<open>Plan leases\<close>

abbreviation (input) lease_targets :: "SessionLease list \<Rightarrow> string list" where
  "lease_targets \<equiv> map SLease_Target"

lemma set_rememberLeaseLocked_targets [simp]:
  "set (lease_targets (rememberLeaseLocked ls l)) = insert (SLease_Target l) (set (lease_targets ls))"
  by (induction ls) auto

lemma distinct_rememberLeaseLocked:
  "distinct (lease_targets ls) \<Longrightarrow> distinct (lease_targets (rememberLeaseLocked ls l))"
proof (induction ls)
  case (Cons a ls)
  then show ?case
    using set_rememberLeaseLocked_targets [of ls l] by (auto simp del: set_rememberLeaseLocked_targets)
qed simp

lemma rememberLeaseLocked_memD:
  "distinct (lease_targets ls) \<Longrightarrow> m \<in> set (rememberLeaseLocked ls l) \<Longrightarrow>
     m = l \<or> m \<in> set ls \<and> SLease_Target m \<noteq> SLease_Target l"
  by (induction ls) (auto split: if_splits intro: rev_image_eqI)

lemma rememberLeaseLocked_mem [simp]: "l \<in> set (rememberLeaseLocked ls l)"
  by (induction ls) auto

lemma rememberLeaseLocked_keeps:
  "m \<in> set ls \<Longrightarrow> SLease_Target m \<noteq> SLease_Target l \<Longrightarrow> m \<in> set (rememberLeaseLocked ls l)"
  by (induction ls) auto

lemma keeps_set_plan: "(\<And>p w. P (p, w) \<Longrightarrow> P (f p, w)) \<Longrightarrow> keeps P (set_plan f)"
  by (auto simp: keeps_def set_plan_def)

lemma keeps_in_world:
  "(\<And>p w r w'. P (p, w) \<Longrightarrow> m w = (r, w') \<Longrightarrow> P (p, w')) \<Longrightarrow> keeps P (in_world m)"
  by (auto simp: keeps_def in_world_def split: prod.splits)

subsection \<open>The contract\<close>

definition view_lookup ::
  "(string \<rightharpoonup> SessionRecord) \<Rightarrow> (string \<rightharpoonup> string) \<Rightarrow> SessionQuery \<Rightarrow> SessionRecord option" where
  "view_lookup recs act q =
     (let sid = (if SQuery_ID q \<noteq> '''' then SQuery_ID q
                 else case act (SQuery_Key q) of None \<Rightarrow> '''' | Some i \<Rightarrow> i)
      in if SQuery_ID q = '''' \<and> (SQuery_Key q = '''' \<or> sid = '''') then None
         else case recs sid of None \<Rightarrow> None
         | Some r \<Rightarrow> if SRec_Status r = SessionStatusArchived \<and> \<not> SQuery_IncludeArchived q then None else Some r)"

locale session_store_contract =
  fixes store :: "'w SessionStore"
    and env :: "'w session_env"
    and leases_of :: "'w \<Rightarrow> string \<rightharpoonup> SessionLease"
    and records_of :: "'w \<Rightarrow> string \<rightharpoonup> SessionRecord"
    and active_of :: "'w \<Rightarrow> string \<rightharpoonup> string"
  assumes Resolve_frame: "Store_Resolve store q w = (r, w') \<Longrightarrow>
      leases_of w' = leases_of w \<and> records_of w' = records_of w \<and> active_of w' = active_of w"
    and Resolve_result: "Store_Resolve store q w = (Inr x, w') \<Longrightarrow>
      x = view_lookup (records_of w) (active_of w) q"
    and Acquire_ok: "Store_AcquireLease store target owner ttl w = (Inr lease, w') \<Longrightarrow>
      SLease_Target lease = target \<and> SLease_Owner lease = owner
      \<and> leases_of w' = (leases_of w)(target \<mapsto> lease)
      \<and> records_of w' = records_of w \<and> active_of w' = active_of w"
    and Acquire_err: "Store_AcquireLease store target owner ttl w = (Inl err, w') \<Longrightarrow>
      leases_of w' = leases_of w \<and> records_of w' = records_of w \<and> active_of w' = active_of w"
    and Release_effect: "Store_ReleaseLease store lease w = (res, w') \<Longrightarrow>
      res = Inr () \<and> records_of w' = records_of w \<and> active_of w' = active_of w
      \<and> leases_of w' = (if leases_of w (SLease_Target lease) = Some lease
                        then (leases_of w)(SLease_Target lease := None) else leases_of w)"
    and entropy_frame: "env_entropyRead env w = (ent, w') \<Longrightarrow>
      leases_of w' = leases_of w \<and> records_of w' = records_of w \<and> active_of w' = active_of w"
begin

text \<open>
  The plan's leases are the ones it took since the lease table was \<open>L0\<close>: each is the store's
  lease of its target, no target occurs twice, and every other target is as it was.
\<close>

definition lease_inv ::
  "(string \<rightharpoonup> SessionLease) \<Rightarrow> (string \<rightharpoonup> SessionRecord) \<Rightarrow> (string \<rightharpoonup> string)
   \<Rightarrow> resolvedSessionPlan \<times> 'w \<Rightarrow> bool" where
  "lease_inv L0 R0 A0 = (\<lambda>(p, w).
     distinct (lease_targets (plan_leases p))
     \<and> (\<forall>l \<in> set (plan_leases p). leases_of w (SLease_Target l) = Some l)
     \<and> (\<forall>t. t \<notin> set (lease_targets (plan_leases p)) \<longrightarrow> leases_of w t = L0 t)
     \<and> records_of w = R0 \<and> active_of w = A0)"

lemma keeps_acquireLease: "keeps (lease_inv L0 R0 A0) (acquireLease env store target)"
  unfolding keeps_def
proof (intro allI impI)
  fix s assume inv: "lease_inv L0 R0 A0 s"
  obtain p w where s: "s = (p, w)" by (cases s)
  show "lease_inv L0 R0 A0 (snd (acquireLease env store target s))"
  proof (cases "target = ''''")
    case True
    with inv s show ?thesis by (simp add: acquireLease_def)
  next
    case False
    obtain r w' where acq: "Store_AcquireLease store target (plan_owner p) (env_LeaseTTL env) w = (r, w')"
      by fastforce
    show ?thesis
    proof (cases r)
      case (Inl err)
      with acq Acquire_err [of target "plan_owner p" "env_LeaseTTL env" w err w'] inv s False
      show ?thesis by (simp add: acquireLease_def lease_inv_def)
    next
      case (Inr lease)
      have ok: "SLease_Target lease = target" "leases_of w' = (leases_of w)(target \<mapsto> lease)"
        "records_of w' = records_of w" "active_of w' = active_of w"
        using Acquire_ok acq Inr by blast+
      let ?ls = "rememberLeaseLocked (plan_leases p) lease"
      from inv s have d: "distinct (lease_targets (plan_leases p))"
        and cur: "\<forall>l \<in> set (plan_leases p). leases_of w (SLease_Target l) = Some l"
        and oth: "\<forall>t. t \<notin> set (lease_targets (plan_leases p)) \<longrightarrow> leases_of w t = L0 t"
        and rest: "records_of w = R0" "active_of w = A0"
        by (auto simp: lease_inv_def)
      have "\<forall>l \<in> set ?ls. leases_of w' (SLease_Target l) = Some l"
        using rememberLeaseLocked_memD [OF d] cur ok by auto
      moreover have "\<forall>t. t \<notin> set (lease_targets ?ls) \<longrightarrow> leases_of w' t = L0 t"
        using oth ok unfolding set_rememberLeaseLocked_targets by auto
      ultimately have "lease_inv L0 R0 A0 (p\<lparr>plan_leases := ?ls\<rparr>, w')"
        using distinct_rememberLeaseLocked [OF d] rest ok by (simp add: lease_inv_def)
      then show ?thesis using acq Inr s False by (simp add: acquireLease_def)
    qed
  qed
qed

lemma keeps_Resolve: "keeps (lease_inv L0 R0 A0) (in_world (Store_Resolve store q))"
  by (rule keeps_in_world) (auto simp: lease_inv_def dest: Resolve_frame)

lemma keeps_newEngineSessionID:
  "keeps (lease_inv L0 R0 A0) (in_world (newEngineSessionID env dt fp))"
  by (rule keeps_in_world)
    (auto simp: lease_inv_def newEngineSessionID_def split: prod.splits dest: entropy_frame)

lemma keeps_set_plan_leases:
  "(\<And>p. plan_leases (f p) = plan_leases p) \<Longrightarrow> keeps (lease_inv L0 R0 A0) (set_plan f)"
  by (rule keeps_set_plan) (simp add: lease_inv_def)

lemmas plan_keeps = keeps_intros keeps_acquireLease keeps_Resolve keeps_newEngineSessionID

lemma keeps_acquireCurrent: "keeps (lease_inv L0 R0 A0) (acquireCurrent env store current)"
  unfolding acquireCurrent_def by (intro plan_keeps)

lemma keeps_prepareForkParent: "keeps (lease_inv L0 R0 A0) (prepareForkParent env store req)"
  unfolding prepareForkParent_def forkParentCandidate_def by (intro plan_keeps)

lemma keeps_prepareMode:
  "keeps (lease_inv L0 R0 A0) (prepareMode env store req identity dt fp current)"
  unfolding prepareMode_def prepareContinueOnly_def prepareContinueOrStart_def prepareFork_def Let_def
  by (intro plan_keeps keeps_acquireCurrent keeps_prepareForkParent keeps_set_plan_leases) simp_all

lemma keeps_prepareLeased:
  "keeps (lease_inv L0 R0 A0) (prepareLeased env store req identity dt fp)"
  unfolding prepareLeased_def resolveCurrent_def Let_def
  by (intro plan_keeps keeps_prepareMode keeps_set_plan_leases) simp_all

lemma keeps_prepareFresh: "keeps (lease_inv L0 R0 A0) (prepareFresh env store dt fp)"
  unfolding prepareFresh_def by (intro plan_keeps keeps_set_plan_leases) simp_all

subsubsection \<open>Releasing\<close>

lemma run_release_hooks_effect:
  assumes "distinct (lease_targets ls)" and "\<forall>l \<in> set ls. leases_of w (SLease_Target l) = Some l"
    and "run_release_hooks store ls w = (evs, w')"
  shows "evs = map (\<lambda>l. HookResult (SLease_Target l) None) ls
    \<and> records_of w' = records_of w \<and> active_of w' = active_of w
    \<and> leases_of w' = (\<lambda>t. if t \<in> set (lease_targets ls) then None else leases_of w t)"
  using assms
proof (induction ls arbitrary: w evs)
  case (Cons l ls)
  obtain r w1 where rel: "Store_ReleaseLease store l w = (r, w1)" by fastforce
  from Release_effect [OF rel] Cons.prems(2)
  have eff: "r = Inr ()" "records_of w1 = records_of w" "active_of w1 = active_of w"
    "leases_of w1 = (leases_of w)(SLease_Target l := None)" by auto
  obtain evs1 where run: "run_release_hooks store ls w1 = (evs1, w')" "evs = HookResult (SLease_Target l) None # evs1"
    using Cons.prems(3) rel eff(1) by (auto split: prod.splits)
  have "\<forall>m \<in> set ls. leases_of w1 (SLease_Target m) = Some m"
  proof
    fix m assume m: "m \<in> set ls"
    then have "SLease_Target m \<noteq> SLease_Target l" using Cons.prems(1) by (auto simp: image_iff)
    moreover have "leases_of w (SLease_Target m) = Some m" using m Cons.prems(2) by simp
    ultimately show "leases_of w1 (SLease_Target m) = Some m" by (simp add: eff(4))
  qed
  note IH = Cons.IH [OF _ this run(1)]
  have d: "distinct (lease_targets ls)" using Cons.prems(1) by simp
  have "leases_of w' = (\<lambda>t. if t \<in> set (lease_targets (l # ls)) then None else leases_of w t)"
    using IH [OF d] eff(4) by (simp add: fun_eq_iff)
  with IH [OF d] eff(2,3) run(2) show ?case by simp
qed simp

lemma releaseContext_effect:
  assumes "lease_inv L0 R0 A0 (p, w)" and "releaseContext store (p, w) = (err, (p', w'))"
  shows "err = None \<and> plan_leases p' = [] \<and> records_of w' = R0 \<and> active_of w' = A0
    \<and> leases_of w' = (\<lambda>t. if t \<in> set (lease_targets (plan_leases p)) then None else L0 t)"
proof (cases "plan_leases p = []")
  case True
  with assms show ?thesis by (auto simp: releaseContext_def lease_inv_def Let_def stopLeaseRenewal_def)
next
  case False
  obtain evs where run: "run_release_hooks store (rev (plan_leases p)) w = (evs, w')"
    and err: "err = (case release_wait (map SLease_Target (rev (plan_leases p))) None [] evs of
                None \<Rightarrow> None | Some res \<Rightarrow> res)" and p': "plan_leases p' = []"
    using assms(2) False by (auto simp: releaseContext_def Let_def stopLeaseRenewal_def split: prod.splits)
  have inv: "distinct (lease_targets (rev (plan_leases p)))"
    "\<forall>l \<in> set (rev (plan_leases p)). leases_of w (SLease_Target l) = Some l"
    using assms(1) by (auto simp: lease_inv_def simp flip: rev_map)
  note eff = run_release_hooks_effect [OF inv run]
  have "release_wait (lease_targets ls) None [] (map (\<lambda>l. HookResult (SLease_Target l) None) ls) = Some None"
    if "distinct (lease_targets ls)" for ls
    using that by (induction ls) (auto simp: release_failure_def errors_Join_def map_filter_def
        removeAll_id)
  with inv(1) eff err have "err = None" by simp
  with eff p' assms(1) show ?thesis by (auto simp: lease_inv_def fun_eq_iff)
qed

lemma releaseAfter_effect:
  assumes "lease_inv L0 R0 A0 (p, w)" and "releaseAfter store primary (p, w) = (e, (p', w'))"
  shows "e = JoinedError [primary] \<and> records_of w' = R0 \<and> active_of w' = A0
    \<and> leases_of w' = (\<lambda>t. if t \<in> set (lease_targets (plan_leases p)) then None else L0 t)"
proof -
  obtain err p1 w1 where "releaseContext store (p, w) = (err, (p1, w1))" by (metis prod.exhaust)
  with assms releaseContext_effect [OF assms(1) this] show ?thesis
    by (auto simp: releaseAfter_def errors_Join_def map_filter_def)
qed

lemma newLeaseOwner_frame:
  "newLeaseOwner env identity dt req w = (r, w') \<Longrightarrow>
     leases_of w' = leases_of w \<and> records_of w' = records_of w \<and> active_of w' = active_of w"
  by (auto simp: newLeaseOwner_def split: prod.splits dest: entropy_frame)

lemma new_plan_inv: "lease_inv (leases_of w) (records_of w) (active_of w) (new_plan req owner, w)"
  by (simp add: lease_inv_def new_plan_def)

lemma prepareLeased_inv:
  assumes "newLeaseOwner env identity dt req w = (Inr owner, w1)"
    and "prepareLeased env store req identity dt fp (new_plan req owner, w1) = (r, s)"
  shows "lease_inv (leases_of w) (records_of w) (active_of w) s"
  using keepsD [OF keeps_prepareLeased new_plan_inv assms(2)] newLeaseOwner_frame [OF assms(1)] by simp

lemma prepareSessionPlan_failure:
  assumes "prepareSessionPlan env (Some store) req identity dt fp w = (Inl e, w')"
  shows "records_of w' = records_of w \<and> active_of w' = active_of w
    \<and> (\<forall>t. leases_of w' t = leases_of w t \<or> leases_of w' t = None)"
proof (cases "validateSessionRequest (resolveSessionDefaults req)")
  case (Some err)
  with assms show ?thesis by (simp add: prepareSessionPlan_def)
next
  case None
  let ?req = "resolveSessionDefaults req"
  obtain r w1 where own: "newLeaseOwner env identity dt ?req w = (r, w1)" by fastforce
  from assms None own consider (ent) "w' = w1"
    | (leased) owner err s2 s3 where "r = Inr owner"
        "prepareLeased env store ?req identity dt fp (new_plan ?req owner, w1) = (Inl err, s2)"
        "releaseAfter store err s2 = (e, s3)" "w' = snd s3"
    by (auto simp: prepareSessionPlan_def Let_def split: if_splits sum.splits prod.splits)
  then show ?thesis
  proof cases
    case ent
    with newLeaseOwner_frame [OF own] show ?thesis by simp
  next
    case leased
    obtain p2 w2 p3 w3 where s: "s2 = (p2, w2)" "s3 = (p3, w3)" by (metis prod.exhaust)
    from prepareLeased_inv [OF own [unfolded leased(1)] leased(2)] leased(3,4)
      releaseAfter_effect [of _ _ _ p2 w2 err e p3 w3] s
    show ?thesis by auto
  qed
qed

lemma prepareSessionPlan_success:
  assumes "prepareSessionPlan env (Some store) req identity dt fp w = (Inr (Some p), w')"
  obtains owner w1 where "validateSessionRequest (resolveSessionDefaults req) = None"
    and "newLeaseOwner env identity dt (resolveSessionDefaults req) w = (Inr owner, w1)"
    and "prepareLeased env store (resolveSessionDefaults req) identity dt fp
           (new_plan (resolveSessionDefaults req) owner, w1) = (Inr (), (p, w'))"
    and "lease_inv (leases_of w) (records_of w) (active_of w) (p, w')"
proof -
  let ?req = "resolveSessionDefaults req"
  from assms obtain owner w1 where own: "newLeaseOwner env identity dt ?req w = (Inr owner, w1)"
    and prep: "prepareLeased env store ?req identity dt fp (new_plan ?req owner, w1) = (Inr (), (p, w'))"
    and val: "validateSessionRequest ?req = None"
    by (auto simp: prepareSessionPlan_def Let_def split: if_splits sum.splits prod.splits option.splits)
  from val own prep prepareLeased_inv [OF own prep] show thesis by (rule that)
qed

subsubsection \<open>What a plan says\<close>

lemma acquireLease_InrD:
  assumes "acquireLease env store target (p, w) = (Inr x, (p', w'))"
  shows "\<exists>ls. p' = p\<lparr>plan_leases := ls\<rparr>
    \<and> (target \<noteq> '''' \<longrightarrow> set (lease_targets ls) = insert target (set (lease_targets (plan_leases p))))
    \<and> (target = '''' \<longrightarrow> ls = plan_leases p)
    \<and> records_of w' = records_of w \<and> active_of w' = active_of w"
proof (cases "target = ''''")
  case True
  with assms show ?thesis by (auto simp: acquireLease_def intro!: exI [of _ "plan_leases p"])
next
  case False
  with assms obtain lease where
    acq: "Store_AcquireLease store target (plan_owner p) (env_LeaseTTL env) w = (Inr lease, w')"
    and p': "p' = p\<lparr>plan_leases := rememberLeaseLocked (plan_leases p) lease\<rparr>"
    by (auto simp: acquireLease_def split: prod.splits sum.splits)
  from Acquire_ok [OF acq] p' False show ?thesis
    by (intro exI [of _ "rememberLeaseLocked (plan_leases p) lease"])
      (simp del: set_map add: set_rememberLeaseLocked_targets)
qed

lemma Resolve_InrD:
  "Store_Resolve store q w = (Inr x, w') \<Longrightarrow>
     x = view_lookup (records_of w) (active_of w) q \<and> records_of w' = records_of w \<and> active_of w' = active_of w"
  using Resolve_frame Resolve_result by blast

lemma newEngineSessionID_frame:
  "newEngineSessionID env dt fp w = (r, w') \<Longrightarrow> records_of w' = records_of w \<and> active_of w' = active_of w"
  by (auto simp: newEngineSessionID_def split: prod.splits dest: entropy_frame)

end

text \<open>
  The decision table of \<^verbatim>\<open>prepareSessionPlan\<close>, over the records and active keys of the
  store when the leases are held.
\<close>

definition current_of ::
  "(string \<rightharpoonup> SessionRecord) \<Rightarrow> (string \<rightharpoonup> string) \<Rightarrow> SessionRequest \<Rightarrow> SessionRecord option" where
  "current_of recs act req =
     (if SReq_Mode req \<noteq> SessionFork \<and> SReq_ID req \<noteq> ''''
      then view_lookup recs act (session_by_id (SReq_ID req))
      else view_lookup recs act (session_by_key (SReq_Namespace req) (SReq_Key req)))"

definition fork_candidate_of ::
  "(string \<rightharpoonup> SessionRecord) \<Rightarrow> (string \<rightharpoonup> string) \<Rightarrow> SessionRequest \<Rightarrow> SessionRecord option" where
  "fork_candidate_of recs act req =
     (if SReq_ForkFromKey req \<noteq> ''''
      then view_lookup recs act (session_by_key (SReq_Namespace req) (SReq_ForkFromKey req))
      else view_lookup recs act (session_by_id (SReq_ForkFrom req)))"

definition fork_parent_of ::
  "(string \<rightharpoonup> SessionRecord) \<Rightarrow> (string \<rightharpoonup> string) \<Rightarrow> SessionRequest \<Rightarrow> SessionRecord option" where
  "fork_parent_of recs act req =
     (case fork_candidate_of recs act req of
        None \<Rightarrow> None
      | Some r \<Rightarrow> view_lookup recs act (session_by_id (SRec_ID r)))"

definition fingerprint_matches :: "string \<Rightarrow> SessionRecord \<Rightarrow> bool" where
  "fingerprint_matches fp r \<longleftrightarrow> fp \<noteq> '''' \<and> SRec_CompatibilityFingerprint r = fp"

definition plan_resumes :: "SessionRecord \<Rightarrow> resolvedSessionPlan \<Rightarrow> bool" where
  "plan_resumes r p \<longleftrightarrow> plan_reused p \<and> \<not> plan_created p \<and> plan_engineID p = SRec_ID r
     \<and> plan_record p = Some r \<and> plan_previousID p = '''' \<and> \<not> plan_requireKeyAbsent p"

definition plan_replaces :: "SessionRecord option \<Rightarrow> resolvedSessionPlan \<Rightarrow> bool" where
  "plan_replaces old p \<longleftrightarrow> \<not> plan_reused p \<and> plan_created p \<and> plan_record p = old
     \<and> plan_previousID p = (case old of None \<Rightarrow> '''' | Some r \<Rightarrow> SRec_ID r) \<and> \<not> plan_requireKeyAbsent p"

definition plan_forks :: "SessionRecord \<Rightarrow> resolvedSessionPlan \<Rightarrow> bool" where
  "plan_forks parent p \<longleftrightarrow> \<not> plan_reused p \<and> plan_created p \<and> plan_record p = Some parent
     \<and> plan_previousID p = '''' \<and> plan_requireKeyAbsent p"

definition plan_follows ::
  "(string \<rightharpoonup> SessionRecord) \<Rightarrow> (string \<rightharpoonup> string) \<Rightarrow> SessionRequest \<Rightarrow> AgentIdentity \<Rightarrow> string \<Rightarrow> string
   \<Rightarrow> resolvedSessionPlan \<Rightarrow> bool" where
  "plan_follows recs act req identity dt fp p \<longleftrightarrow>
     (if SReq_Mode req = SessionContinueOnly then
        (\<exists>r. current_of recs act req = Some r \<and> fingerprint_matches fp r \<and> plan_resumes r p)
      else if SReq_Mode req = SessionContinueOrStart then
        (case current_of recs act req of
           None \<Rightarrow> plan_replaces None p
         | Some r \<Rightarrow> if fingerprint_matches fp r then plan_resumes r p else plan_replaces (Some r) p)
      else if SReq_Mode req = SessionFork then
        current_of recs act req = None
        \<and> (\<exists>parent. fork_parent_of recs act req = Some parent \<and> plan_forks parent p
             \<and> validateForkParent (Some parent) identity dt fp (SReq_SessionCodec req) = None)
      else False)"

lemma compatible_status:
  "Compat_Status (sessionCompatibility fp (SRec_CompatibilityFingerprint r)) = SessionCompatibilityCompatible
     \<longleftrightarrow> fingerprint_matches fp r"
  by (auto simp: sessionCompatibility_def fingerprint_matches_def)

lemma key_lease_nonempty [simp]: "sessionKeyLeaseID ns k \<noteq> ''''"
  by (simp add: sessionKeyLeaseID_def Encode_def keycodec_prefix_def)

lemma record_lease_nonempty [simp]: "sessionRecordLeaseID i \<noteq> ''''"
  by (simp add: sessionRecordLeaseID_def Encode_def keycodec_prefix_def)

lemma in_world_Inr_iff:
  "in_world m (p, w) = (Inr x, (p', w')) \<longleftrightarrow> p' = p \<and> m w = (Inr x, w')"
  by (auto simp: in_world_def split: prod.splits)

lemma set_plan_Inr_iff: "set_plan f (p, w) = (Inr x, (p', w')) \<longleftrightarrow> p' = f p \<and> w' = w"
  by (auto simp: set_plan_def)

lemma seqE_plan_Inr_iff:
  "seqE m f (p, w) = (Inr y, (p', w')) \<longleftrightarrow>
     (\<exists>x p1 w1. m (p, w) = (Inr x, (p1, w1)) \<and> f x (p1, w1) = (Inr y, (p', w')))"
  by (auto simp: seqE_def split: prod.splits sum.splits)

lemmas plan_inr = seqE_plan_Inr_iff set_plan_Inr_iff in_world_Inr_iff doneE_def failE_def

definition plan_targets :: "resolvedSessionPlan \<Rightarrow> string set" where
  "plan_targets p = SLease_Target ` set (plan_leases p)"

definition undecided :: "resolvedSessionPlan \<Rightarrow> bool" where
  "undecided p \<longleftrightarrow> \<not> plan_reused p \<and> \<not> plan_created p \<and> plan_previousID p = ''''
     \<and> \<not> plan_requireKeyAbsent p"

text \<open>What a decision keeps of the plan, and the lease on the record it will write.\<close>

definition decides :: "resolvedSessionPlan \<Rightarrow> resolvedSessionPlan \<Rightarrow> bool" where
  "decides p p' \<longleftrightarrow> plan_request p' = plan_request p \<and> plan_owner p' = plan_owner p
     \<and> plan_targets p \<subseteq> plan_targets p'
     \<and> (plan_engineID p' \<noteq> '''' \<longrightarrow> sessionRecordLeaseID (plan_engineID p') \<in> plan_targets p')
     \<and> (plan_previousID p' \<noteq> '''' \<longrightarrow> sessionRecordLeaseID (plan_previousID p') \<in> plan_targets p')"

lemmas decide_defs = undecided_def decides_def plan_resumes_def plan_replaces_def plan_forks_def

context session_store_contract
begin

lemma acquireLease_InrE:
  assumes "acquireLease env store target (p, w) = (Inr x, (p', w'))" and "target \<noteq> ''''"
  obtains ls where "p' = p\<lparr>plan_leases := ls\<rparr>" and "plan_targets p' = insert target (plan_targets p)"
    and "records_of w' = records_of w" and "active_of w' = active_of w"
  using acquireLease_InrD [OF assms(1)] assms(2) by (auto simp: plan_targets_def)

lemma acquireCurrent_InrE:
  assumes "acquireCurrent env store (Some r) (p, w) = (Inr x, (p', w'))"
  obtains ls where "p' = p\<lparr>plan_leases := ls\<rparr>" and "plan_targets p \<subseteq> plan_targets p'"
    and "SRec_ID r \<noteq> '''' \<longrightarrow> sessionRecordLeaseID (SRec_ID r) \<in> plan_targets p'"
    and "records_of w' = records_of w" and "active_of w' = active_of w"
proof (cases "SRec_ID r = ''''")
  case True
  with assms have "p' = p" "w' = w" by (auto simp: acquireCurrent_def doneE_def)
  with True show thesis by (intro that [of "plan_leases p"]) auto
next
  case False
  with assms have "acquireLease env store (sessionRecordLeaseID (SRec_ID r)) (p, w) = (Inr x, (p', w'))"
    by (simp add: acquireCurrent_def)
  from this record_lease_nonempty show thesis
    by (rule acquireLease_InrE) (rule that, auto)
qed

lemma prepareContinueOnly_InrD:
  assumes "prepareContinueOnly env store fp current (p, w) = (Inr x, (p', w'))"
    and "undecided p" and "plan_record p = current"
  shows "\<exists>r. current = Some r \<and> fingerprint_matches fp r \<and> plan_resumes r p' \<and> decides p p'
    \<and> records_of w' = records_of w \<and> active_of w' = active_of w"
proof (cases current)
  case None
  with assms show ?thesis by (simp add: prepareContinueOnly_def failE_def)
next
  case (Some r)
  with assms(1) obtain p1 where acq: "acquireCurrent env store (Some r) (p, w) = (Inr (), (p1, w'))"
    and m: "fingerprint_matches fp r"
    and p': "p' = p1\<lparr>plan_compatibility := sessionCompatibility fp (SRec_CompatibilityFingerprint r),
        plan_engineID := SRec_ID r, plan_reused := True\<rparr>"
    by (auto simp: prepareContinueOnly_def plan_inr compatible_status Let_def split: if_splits)
  from acq show ?thesis
    by (rule acquireCurrent_InrE) (use Some m p' assms(2,3) in \<open>auto simp: decide_defs plan_targets_def\<close>)
qed

lemma fresh_record_InrD:
  assumes "seqE (in_world (newEngineSessionID env dt fp)) (\<lambda>engineID.
      seqE (set_plan (\<lambda>p. f p\<lparr>plan_engineID := engineID\<rparr>)) (\<lambda>_.
      seqE (acquireLease env store (sessionRecordLeaseID engineID)) (\<lambda>_. set_plan g))) (p, w)
      = (Inr x, (p', w'))"
  shows "\<exists>engineID ls. p' = g (f p\<lparr>plan_engineID := engineID, plan_leases := ls\<rparr>)
    \<and> SLease_Target ` set ls = insert (sessionRecordLeaseID engineID) (plan_targets (f p))
    \<and> records_of w' = records_of w \<and> active_of w' = active_of w"
proof -
  from assms obtain engineID w1 p2 where new: "newEngineSessionID env dt fp w = (Inr engineID, w1)"
    and acq: "acquireLease env store (sessionRecordLeaseID engineID)
        (f p\<lparr>plan_engineID := engineID\<rparr>, w1) = (Inr (), (p2, w'))"
    and p': "p' = g p2"
    by (auto simp: plan_inr)
  from acq record_lease_nonempty obtain ls where
    "p2 = f p\<lparr>plan_engineID := engineID, plan_leases := ls\<rparr>"
    "plan_targets p2 = insert (sessionRecordLeaseID engineID) (plan_targets (f p\<lparr>plan_engineID := engineID\<rparr>))"
    "records_of w' = records_of w1" "active_of w' = active_of w1"
    by (rule acquireLease_InrE)
  with newEngineSessionID_frame [OF new] p' show ?thesis
    by (intro exI [of _ engineID] exI [of _ ls]) (simp add: plan_targets_def)
qed

lemma prepareContinueOrStart_InrD:
  assumes "prepareContinueOrStart env store dt fp current (p, w) = (Inr x, (p', w'))"
    and "undecided p" and "plan_record p = current"
  shows "decides p p' \<and> records_of w' = records_of w \<and> active_of w' = active_of w
    \<and> (case current of None \<Rightarrow> plan_replaces None p'
       | Some r \<Rightarrow> if fingerprint_matches fp r then plan_resumes r p' else plan_replaces (Some r) p')"
proof (cases current)
  case None
  with assms(1) have "seqE (in_world (newEngineSessionID env dt fp)) (\<lambda>engineID.
      seqE (set_plan (\<lambda>p. (\<lambda>p. p) p\<lparr>plan_engineID := engineID\<rparr>)) (\<lambda>_.
      seqE (acquireLease env store (sessionRecordLeaseID engineID)) (\<lambda>_.
        set_plan (\<lambda>p. p\<lparr>plan_created := True,
            plan_compatibility := compat_of_status SessionCompatibilityNew\<rparr>)))) (p, w) = (Inr x, (p', w'))"
    by (simp add: prepareContinueOrStart_def)
  from fresh_record_InrD [OF this] None assms(2,3) show ?thesis
    by (auto simp: decide_defs plan_targets_def)
next
  case (Some r)
  with assms(1) obtain p1 w1 where acq: "acquireCurrent env store (Some r) (p, w) = (Inr (), (p1, w1))"
    and rest: "(if fingerprint_matches fp r
       then set_plan (\<lambda>p. p\<lparr>plan_engineID := SRec_ID r, plan_reused := True\<rparr>)
       else seqE (in_world (newEngineSessionID env dt fp)) (\<lambda>engineID.
            seqE (set_plan (\<lambda>p. p\<lparr>plan_previousID := SRec_ID r, plan_engineID := engineID\<rparr>)) (\<lambda>_.
            seqE (acquireLease env store (sessionRecordLeaseID engineID)) (\<lambda>_.
            set_plan (\<lambda>p. p\<lparr>plan_created := True\<rparr>)))))
       (p1\<lparr>plan_compatibility := sessionCompatibility fp (SRec_CompatibilityFingerprint r)\<rparr>, w1)
       = (Inr x, (p', w'))"
    unfolding prepareContinueOrStart_def compatible_status [symmetric] Let_def
    by (auto simp: plan_inr)
  let ?q = "p1\<lparr>plan_compatibility := sessionCompatibility fp (SRec_CompatibilityFingerprint r)\<rparr>"
  from acq obtain ls where p1: "p1 = p\<lparr>plan_leases := ls\<rparr>" and mono: "plan_targets p \<subseteq> plan_targets p1"
    and held: "SRec_ID r \<noteq> '''' \<longrightarrow> sessionRecordLeaseID (SRec_ID r) \<in> plan_targets p1"
    and w1: "records_of w1 = records_of w" "active_of w1 = active_of w"
    by (rule acquireCurrent_InrE)
  show ?thesis
  proof (cases "fingerprint_matches fp r")
    case True
    with rest have "p' = ?q\<lparr>plan_engineID := SRec_ID r, plan_reused := True\<rparr>" "w' = w1"
      by (auto simp: plan_inr)
    with True Some p1 mono held w1 assms(2,3) show ?thesis
      by (auto simp: decide_defs plan_targets_def)
  next
    case False
    with rest have "seqE (in_world (newEngineSessionID env dt fp)) (\<lambda>engineID.
        seqE (set_plan (\<lambda>p. (\<lambda>p. p\<lparr>plan_previousID := SRec_ID r\<rparr>) p\<lparr>plan_engineID := engineID\<rparr>)) (\<lambda>_.
        seqE (acquireLease env store (sessionRecordLeaseID engineID)) (\<lambda>_.
        set_plan (\<lambda>p. p\<lparr>plan_created := True\<rparr>)))) (?q, w1) = (Inr x, (p', w'))" by simp
    from fresh_record_InrD [OF this] False Some p1 mono held w1 assms(2,3) show ?thesis
      by (auto simp: decide_defs plan_targets_def)
  qed
qed

lemma forkParentCandidate_InrD:
  assumes "forkParentCandidate env store req (p, w) = (Inr cand, (p', w'))"
  shows "cand = fork_candidate_of (records_of w) (active_of w) req
    \<and> (\<exists>ls. p' = p\<lparr>plan_leases := ls\<rparr>) \<and> plan_targets p \<subseteq> plan_targets p'
    \<and> records_of w' = records_of w \<and> active_of w' = active_of w"
proof (cases "SReq_ForkFromKey req \<noteq> ''''")
  case True
  with assms obtain w2 where
    acq: "acquireLease env store (sessionKeyLeaseID (SReq_Namespace req) (SReq_ForkFromKey req)) (p, w)
      = (Inr (), (p', w2))"
    and res: "Store_Resolve store (session_by_key (SReq_Namespace req) (SReq_ForkFromKey req)) w2 = (Inr cand, w')"
    by (auto simp: forkParentCandidate_def plan_inr)
  from acq key_lease_nonempty show ?thesis
    by (rule acquireLease_InrE) (use True Resolve_InrD [OF res] in \<open>auto simp: fork_candidate_of_def\<close>)
next
  case False
  with assms obtain x w2 where
    res: "Store_Resolve store (session_by_id (SReq_ForkFrom req)) w = (Inr x, w2)"
    and rest: "(case x of None \<Rightarrow> doneE None | Some r \<Rightarrow>
          (if SRec_Namespace r \<noteq> '''' \<and> SRec_Key r \<noteq> '''' then
             seqE (acquireLease env store (sessionKeyLeaseID (SRec_Namespace r) (SRec_Key r)))
               (\<lambda>_. doneE (Some r))
           else doneE (Some r))) (p, w2) = (Inr cand, (p', w'))"
    by (auto simp: forkParentCandidate_def seqE_plan_Inr_iff [of "in_world _"] in_world_Inr_iff)
  have x: "x = cand" using rest by (cases x) (auto simp: plan_inr split: if_splits)
  have "p' = p \<and> w' = w2 \<or> (\<exists>ns k. acquireLease env store (sessionKeyLeaseID ns k) (p, w2) = (Inr (), (p', w')))"
    using rest by (cases x) (auto simp: plan_inr split: if_splits)
  then show ?thesis
  proof (elim disjE conjE exE)
    assume "p' = p" "w' = w2"
    with Resolve_InrD [OF res] x False show ?thesis
      by (auto simp: fork_candidate_of_def intro!: exI [of _ "plan_leases p"])
  next
    fix ns k assume "acquireLease env store (sessionKeyLeaseID ns k) (p, w2) = (Inr (), (p', w'))"
    from this key_lease_nonempty show ?thesis
      by (rule acquireLease_InrE) (use False x Resolve_InrD [OF res] in \<open>auto simp: fork_candidate_of_def\<close>)
  qed
qed

lemma prepareForkParent_InrD:
  assumes "prepareForkParent env store req (p, w) = (Inr parent, (p', w'))"
  shows "parent = fork_parent_of (records_of w) (active_of w) req
    \<and> (\<exists>ls. p' = p\<lparr>plan_leases := ls\<rparr>) \<and> plan_targets p \<subseteq> plan_targets p'
    \<and> records_of w' = records_of w \<and> active_of w' = active_of w"
proof -
  obtain cand p1 w1 where first: "forkParentCandidate env store req (p, w) = (Inr cand, (p1, w1))"
    and second: "(case cand of None \<Rightarrow> doneE None | Some r \<Rightarrow>
          seqE (acquireLease env store (sessionRecordLeaseID (SRec_ID r))) (\<lambda>_.
          in_world (Store_Resolve store (session_by_id (SRec_ID r))))) (p1, w1) = (Inr parent, (p', w'))"
    using assms unfolding prepareForkParent_def seqE_plan_Inr_iff by blast
  note one = forkParentCandidate_InrD [OF first]
  then have fp: "fork_parent_of (records_of w) (active_of w) req = (case cand of None \<Rightarrow> None
      | Some r \<Rightarrow> view_lookup (records_of w) (active_of w) (session_by_id (SRec_ID r)))"
    by (simp add: fork_parent_of_def)
  show ?thesis
  proof (cases cand)
    case None
    with one second fp show ?thesis by (auto simp: doneE_def)
  next
    case (Some r)
    with second obtain w2 where
      acq: "acquireLease env store (sessionRecordLeaseID (SRec_ID r)) (p1, w1) = (Inr (), (p', w2))"
      and res: "Store_Resolve store (session_by_id (SRec_ID r)) w2 = (Inr parent, w')"
      by (auto simp: plan_inr)
    have "fork_parent_of (records_of w) (active_of w) req
        = view_lookup (records_of w) (active_of w) (session_by_id (SRec_ID r))"
      unfolding fp Some by simp
    with acq record_lease_nonempty show ?thesis
      by (elim acquireLease_InrE) (use one Resolve_InrD [OF res] in auto)
  qed
qed

lemma prepareFork_InrD:
  assumes "prepareFork env store req identity dt fp current (p, w) = (Inr x, (p', w'))"
    and "undecided p"
  shows "current = None \<and> decides p p' \<and> records_of w' = records_of w \<and> active_of w' = active_of w
    \<and> (\<exists>parent. fork_parent_of (records_of w) (active_of w) req = Some parent \<and> plan_forks parent p'
         \<and> validateForkParent (Some parent) identity dt fp (SReq_SessionCodec req) = None)"
proof -
  from assms(1) obtain parent p1 w1 where cur: "current = None"
    and par: "prepareForkParent env store req (p, w) = (Inr (Some parent), (p1, w1))"
    and val: "validateForkParent (Some parent) identity dt fp (SReq_SessionCodec req) = None"
    and rest: "seqE (in_world (newEngineSessionID env dt fp)) (\<lambda>engineID.
        seqE (set_plan (\<lambda>p. (\<lambda>p. p\<lparr>plan_record := Some parent\<rparr>) p\<lparr>plan_engineID := engineID\<rparr>)) (\<lambda>_.
        seqE (acquireLease env store (sessionRecordLeaseID engineID)) (\<lambda>_.
        set_plan (\<lambda>p. p\<lparr>plan_created := True, plan_requireKeyAbsent := True,
              plan_compatibility := compat_of_status SessionCompatibilityNew\<rparr>)))) (p1, w1) = (Inr x, (p', w'))"
    by (auto simp: prepareFork_def seqE_plan_Inr_iff [of "prepareForkParent env store req"] failE_def
        split: if_splits option.splits)
  from prepareForkParent_InrD [OF par] obtain ls where
    "fork_parent_of (records_of w) (active_of w) req = Some parent" and p1: "p1 = p\<lparr>plan_leases := ls\<rparr>"
    and "plan_targets p \<subseteq> plan_targets p1" "records_of w1 = records_of w" "active_of w1 = active_of w"
    by auto
  with fresh_record_InrD [OF rest] cur val assms(2) show ?thesis
    by (auto simp: decide_defs plan_targets_def)
qed

lemma key_lease_step_InrD:
  assumes "(if SReq_Namespace req \<noteq> '''' \<and> SReq_Key req \<noteq> '''' then
        let keyLease = sessionKeyLeaseID (SReq_Namespace req) (SReq_Key req) in
        seqE (set_plan (\<lambda>p. p\<lparr>plan_keyLeaseID := keyLease\<rparr>)) (\<lambda>_. acquireLease env store keyLease)
      else doneE ()) (p, w) = (Inr x, (p', w'))"
  shows "(undecided p \<longrightarrow> undecided p') \<and> plan_request p' = plan_request p \<and> plan_owner p' = plan_owner p
    \<and> (SReq_Namespace req \<noteq> '''' \<and> SReq_Key req \<noteq> '''' \<longrightarrow>
         sessionKeyLeaseID (SReq_Namespace req) (SReq_Key req) \<in> plan_targets p')
    \<and> records_of w' = records_of w \<and> active_of w' = active_of w"
proof (cases "SReq_Namespace req \<noteq> '''' \<and> SReq_Key req \<noteq> ''''")
  case True
  let ?k = "sessionKeyLeaseID (SReq_Namespace req) (SReq_Key req)"
  from assms True have "acquireLease env store ?k (p\<lparr>plan_keyLeaseID := ?k\<rparr>, w) = (Inr x, (p', w'))"
    by (auto simp: plan_inr Let_def)
  from this key_lease_nonempty show ?thesis
    by (rule acquireLease_InrE) (auto simp: undecided_def)
next
  case False
  with assms show ?thesis by (auto simp: doneE_def)
qed

lemma resolveCurrent_InrD:
  assumes "resolveCurrent store req (p, w) = (Inr cur, (p', w'))"
    and "(SReq_Namespace req = '''') = (SReq_Key req = '''')"
  shows "p' = p \<and> cur = current_of (records_of w) (active_of w) req
    \<and> records_of w' = records_of w \<and> active_of w' = active_of w"
  using assms
  by (auto simp: resolveCurrent_def plan_inr current_of_def view_lookup_def session_by_key_def
      split: if_splits dest: Resolve_InrD)

text \<open>The plan a successful preparation returns follows the decision table, under its leases.\<close>

lemma prepareLeased_InrD:
  assumes "prepareLeased env store req identity dt fp (p, w) = (Inr x, (p', w'))"
    and "undecided p" and "(SReq_Namespace req = '''') = (SReq_Key req = '''')"
  shows "plan_follows (records_of w) (active_of w) req identity dt fp p'
    \<and> plan_request p' = plan_request p \<and> plan_owner p' = plan_owner p
    \<and> (SReq_Namespace req \<noteq> '''' \<and> SReq_Key req \<noteq> '''' \<longrightarrow>
         sessionKeyLeaseID (SReq_Namespace req) (SReq_Key req) \<in> plan_targets p')
    \<and> (plan_engineID p' \<noteq> '''' \<longrightarrow> sessionRecordLeaseID (plan_engineID p') \<in> plan_targets p')
    \<and> (plan_previousID p' \<noteq> '''' \<longrightarrow> sessionRecordLeaseID (plan_previousID p') \<in> plan_targets p')"
proof -
  from assms(1) obtain p1 w1 cur w2 where
    key: "(if SReq_Namespace req \<noteq> '''' \<and> SReq_Key req \<noteq> '''' then
        let keyLease = sessionKeyLeaseID (SReq_Namespace req) (SReq_Key req) in
        seqE (set_plan (\<lambda>p. p\<lparr>plan_keyLeaseID := keyLease\<rparr>)) (\<lambda>_. acquireLease env store keyLease)
      else doneE ()) (p, w) = (Inr (), (p1, w1))"
    and res: "resolveCurrent store req (p1, w1) = (Inr cur, (p1, w2))"
    and mode: "prepareMode env store req identity dt fp cur (p1\<lparr>plan_record := cur\<rparr>, w2) = (Inr x, (p', w'))"
    unfolding prepareLeased_def seqE_plan_Inr_iff set_plan_Inr_iff
    using resolveCurrent_InrD [OF _ assms(3)] by fastforce
  let ?q = "p1\<lparr>plan_record := cur\<rparr>"
  note K = key_lease_step_InrD [OF key]
  note R = resolveCurrent_InrD [OF res assms(3)]
  have u: "undecided ?q" using K assms(2) by (simp add: undecided_def)
  have same: "records_of w2 = records_of w" "active_of w2 = active_of w"
    and cur: "cur = current_of (records_of w) (active_of w) req" using K R by auto
  have tg: "plan_targets ?q = plan_targets p1" by (simp add: plan_targets_def)
  consider (only) "SReq_Mode req = SessionContinueOnly" | (start) "SReq_Mode req = SessionContinueOrStart"
    | (fork) "SReq_Mode req = SessionFork"
    using mode by (auto simp: prepareMode_def failE_def split: if_splits)
  then have "plan_follows (records_of w) (active_of w) req identity dt fp p' \<and> decides ?q p'"
  proof cases
    case only
    with mode prepareContinueOnly_InrD [of fp cur ?q w2 x p' w', OF _ u] same cur show ?thesis
      by (auto simp: prepareMode_def plan_follows_def)
  next
    case start
    with mode prepareContinueOrStart_InrD [of dt fp cur ?q w2 x p' w', OF _ u] same cur show ?thesis
      by (auto simp: prepareMode_def plan_follows_def)
  next
    case fork
    with mode prepareFork_InrD [of req identity dt fp cur ?q w2 x p' w', OF _ u] same cur show ?thesis
      by (auto simp: prepareMode_def plan_follows_def)
  qed
  with K tg show ?thesis by (auto simp: decides_def)
qed

lemma prepareSessionPlan_plan:
  assumes "prepareSessionPlan env (Some store) req0 identity dt fp w = (Inr (Some p), w')"
  defines "req \<equiv> resolveSessionDefaults req0"
  shows "plan_follows (records_of w) (active_of w) req identity dt fp p \<and> plan_request p = req
    \<and> (SReq_Key req \<noteq> '''' \<longrightarrow> sessionKeyLeaseID (SReq_Namespace req) (SReq_Key req) \<in> plan_targets p)
    \<and> (plan_engineID p \<noteq> '''' \<longrightarrow> sessionRecordLeaseID (plan_engineID p) \<in> plan_targets p)
    \<and> (plan_previousID p \<noteq> '''' \<longrightarrow> sessionRecordLeaseID (plan_previousID p) \<in> plan_targets p)
    \<and> lease_inv (leases_of w) (records_of w) (active_of w) (p, w')"
proof -
  from prepareSessionPlan_success [OF assms(1)] obtain owner w1 where
    val: "validateSessionRequest req = None"
    and own: "newLeaseOwner env identity dt req w = (Inr owner, w1)"
    and prep: "prepareLeased env store req identity dt fp (new_plan req owner, w1) = (Inr (), (p, w'))"
    and inv: "lease_inv (leases_of w) (records_of w) (active_of w) (p, w')"
    unfolding req_def by metis
  have tup: "(SReq_Namespace req = '''') = (SReq_Key req = '''')"
    using val by (auto simp: validateSessionRequest_def Let_def split: if_splits)
  have "undecided (new_plan req owner)" "plan_request (new_plan req owner) = req"
    by (simp_all add: undecided_def new_plan_def)
  with prepareLeased_InrD [OF prep this(1) tup] newLeaseOwner_frame [OF own] inv tup show ?thesis
    by auto
qed

end

subsection \<open>Transactions\<close>

text \<open>What a successful Finalize does to the view; the archived record's time is the store's.\<close>

definition finalized_records ::
  "gotime \<Rightarrow> SessionFinalizeRequest \<Rightarrow> (string \<rightharpoonup> SessionRecord) \<Rightarrow> (string \<rightharpoonup> SessionRecord)" where
  "finalized_records wall req recs =
     (let m = recs(SRec_ID (SFin_Record req) \<mapsto> SFin_Record req)
      in if SFin_ArchiveOld req \<and> SFin_PreviousID req \<noteq> '''' then
           m(SFin_PreviousID req := map_option (\<lambda>r. r\<lparr>SRec_Status := SessionStatusArchived,
               SRec_UpdatedAt := wall\<rparr>) (m (SFin_PreviousID req)))
         else m)"

definition finalized_active ::
  "SessionFinalizeRequest \<Rightarrow> (string \<rightharpoonup> string) \<Rightarrow> (string \<rightharpoonup> string)" where
  "finalized_active req act =
     (if SFin_RebindActive req \<and> SFin_Key req \<noteq> '''' then act(SFin_Key req \<mapsto> SRec_ID (SFin_Record req))
      else act)"

locale session_store_transactions = session_store_contract +
  fixes namespace :: string
  assumes Finalize_ok: "Store_Finalize store req w = (Inr u, w') \<Longrightarrow>
      SRec_Namespace (SFin_Record req) = namespace \<Longrightarrow>
      (\<forall>l \<in> set (SFin_HeldLeases req). leases_of w (SLease_Target l) = Some l)
      \<and> (SFin_RequireKeyAbsent req \<and> SFin_Key req \<noteq> '''' \<longrightarrow>
           active_of w (SFin_Key req) = None \<or> active_of w (SFin_Key req) = Some '''')
      \<and> leases_of w' = leases_of w \<and> active_of w' = finalized_active req (active_of w)
      \<and> (\<exists>wall. records_of w' = finalized_records wall req (records_of w))"
    and Finalize_err: "Store_Finalize store req w = (Inl err, w') \<Longrightarrow>
      leases_of w' = leases_of w \<and> records_of w' = records_of w \<and> active_of w' = active_of w"
    and now_frame: "env_now env w = (t, w') \<Longrightarrow>
      leases_of w' = leases_of w \<and> records_of w' = records_of w \<and> active_of w' = active_of w"
begin

lemma persist_success:
  assumes "persistSessionPlan env (Some store) identity drv fp cp (p, w) = (Return (Inr (Some ref)), (p', w'))"
    and "SReq_Namespace (plan_request p) = namespace"
  obtains state codec st d t1 t2 saved wall where
    "usable_checkpoint cp = Some state" and "resumeSessionCodecFor drv = Inr codec" and "drv = Some d"
    and "normalizeResumableSessionState codec (Some state) = Inr st"
    and "saved = persist_record p identity (Driver_Type d) fp (Codec_Name codec 2) st t1 t2"
    and "p' = p\<lparr>plan_compatibility := persist_compatibility p fp, plan_record := Some saved,
               plan_reused := True, plan_previousID := '''', plan_requireKeyAbsent := False\<rparr>"
    and "records_of w' = finalized_records wall (persist_request p saved) (records_of w)"
    and "active_of w' = finalized_active (persist_request p saved) (active_of w)"
    and "leases_of w' = leases_of w"
    and "\<forall>l \<in> set (plan_leases p). leases_of w (SLease_Target l) = Some l"
    and "plan_requireKeyAbsent p \<and> SReq_Key (plan_request p) \<noteq> '''' \<longrightarrow>
           active_of w (SReq_Key (plan_request p)) = None \<or> active_of w (SReq_Key (plan_request p)) = Some ''''"
proof -
  from assms(1) obtain state codec st d t1 w1 t2 w2 saved where
    a: "usable_checkpoint cp = Some state" "resumeSessionCodecFor drv = Inr codec" "drv = Some d"
       "normalizeResumableSessionState codec (Some state) = Inr st"
    and t: "env_now env w = (t1, w1)" "env_now env w1 = (t2, w2)"
    and rec: "saved = persist_record p identity (Driver_Type d) fp (Codec_Name codec 2) st t1 t2"
    and fin: "Store_Finalize store (persist_request p saved) w2 = (Inr (), w')"
    and p': "p' = p\<lparr>plan_compatibility := persist_compatibility p fp, plan_record := Some saved,
               plan_reused := True, plan_previousID := '''', plan_requireKeyAbsent := False\<rparr>"
    by (auto simp: persistSessionPlan_def Let_def split: if_splits option.splits sum.splits prod.splits outcome.splits)
  have ns: "SRec_Namespace (SFin_Record (persist_request p saved)) = namespace"
    using assms(2) by (simp add: persist_request_def rec persist_record_def)
  from Finalize_ok [OF fin ns] obtain wall where
    "records_of w' = finalized_records wall (persist_request p saved) (records_of w2)" by blast
  with Finalize_ok [OF fin ns] now_frame [OF t(1)] now_frame [OF t(2)] a rec p' show thesis
    by (intro that [of state codec d st saved t1 t2 wall]) (auto simp: persist_request_def)
qed

lemma persist_failure:
  assumes "persistSessionPlan env (Some store) identity drv fp cp (p, w) = (Return (Inl err), (p', w'))"
  shows "p' = p \<and> leases_of w' = leases_of w \<and> records_of w' = records_of w \<and> active_of w' = active_of w"
  using assms
  by (auto simp: persistSessionPlan_def Let_def split: if_splits option.splits sum.splits prod.splits outcome.splits
      dest!: now_frame Finalize_err)

end

end
