(* ===== verification/MemoryStore.thy ===== *)
theory MemoryStore
  imports ThreadStore
begin

text \<open>
  \<^verbatim>\<open>memory/store.go\<close>: the in-memory \<^verbatim>\<open>threadstore.Store\<close>. Every method holds the
  store's mutex for its whole body, so a method is one atomic function on the store's state;
  methods that can fail return before they write, so a failure is \<open>Inl e\<close> with the state
  unchanged and a success is \<open>Inr\<close> with the new state. The readings of the clock
  (\<^verbatim>\<open>leaseNow\<close>, \<^verbatim>\<open>now\<close>), the state of the caller's context and the outcome of
  the entropy read are arguments.
\<close>

subsection \<open>State\<close>

record leaseRecord =
  lease_Owner :: string
  lease_Until :: gotime
  lease_Token :: string

record Store =
  store_records :: "string \<rightharpoonup> Record"
  store_keyIndex :: "string \<rightharpoonup> string"
  store_leases :: "string \<rightharpoonup> leaseRecord"

definition NewStore :: Store where
  "NewStore = \<lparr>store_records = Map.empty, store_keyIndex = Map.empty, store_leases = Map.empty\<rparr>"

subsection \<open>Lease tokens\<close>

text \<open>
  \<^verbatim>\<open>leaseEntropyRead(buf[:])\<close> fails or reports how many bytes it filled; a short
  read is a failure of \<^verbatim>\<open>newLeaseToken\<close>.
\<close>

definition newLeaseToken :: "entropy \<Rightarrow> StoreError + string" where
  "newLeaseToken ent =
     (case ent of
        EntropyError msg \<Rightarrow> Inl (BackendError (''memory: generate lease token entropy: '' @ msg))
      | EntropyRead buf \<Rightarrow>
          (if length buf \<noteq> 16
           then Inl (BackendError ''memory: generate lease token entropy: unexpected EOF'')
           else Inr (hexEncode buf)))"

subsection \<open>Methods\<close>

text \<open>
  The Go function copies every slice and map of the record. HOL values are immutable, so
  the copy is the record itself; the definition rebuilds the copied fields as the code does.
\<close>

definition cloneThreadRecord :: "Record \<Rightarrow> Record" where
  "cloneThreadRecord record =
     record\<lparr>Record_EarlierGuidance := [] @ Record_EarlierGuidance record,
            Record_RecentTurns := [] @ Record_RecentTurns record,
            Record_DeliveredMessages := [] @ Record_DeliveredMessages record,
            Record_State :=
              map_option (\<lambda>state. state\<lparr>State_Data := Map.empty ++ State_Data state\<rparr>)
                (Record_State record)\<rparr>"

definition recordByIDLocked :: "Store \<Rightarrow> string \<Rightarrow> bool \<Rightarrow> Record option" where
  "recordByIDLocked s rid includeArchived =
     (case store_records s rid of
        None \<Rightarrow> None
      | Some record \<Rightarrow>
          (if Record_Status record = StatusArchived \<and> \<not> includeArchived then None
           else Some (cloneThreadRecord record)))"

text \<open>A missing key reads as the empty string, Go's zero value.\<close>

definition index_of :: "Store \<Rightarrow> string \<Rightarrow> string" where
  "index_of s key = (case store_keyIndex s key of None \<Rightarrow> '''' | Some rid \<Rightarrow> rid)"

definition Resolve :: "Store \<Rightarrow> Query \<Rightarrow> Record option" where
  "Resolve s q =
     (if Query_ID q \<noteq> '''' then recordByIDLocked s (Query_ID q) (Query_IncludeArchived q)
      else if Query_Key q = '''' then None
      else let rid = index_of s (Query_Key q)
           in if rid = '''' then None
              else recordByIDLocked s rid (Query_IncludeArchived q))"

definition lease_current :: "Store \<Rightarrow> gotime \<Rightarrow> Lease \<Rightarrow> bool" where
  "lease_current s now lease =
     (case store_leases s (Lease_Target lease) of
        None \<Rightarrow> False
      | Some current \<Rightarrow>
          lease_Owner current = Lease_Owner lease
          \<and> lease_Token current = Lease_Token lease
          \<and> After (lease_Until current) now)"

fun check_held :: "Store \<Rightarrow> gotime \<Rightarrow> Lease list \<Rightarrow> StoreError + unit" where
  "check_held s now [] = Inr ()"
| "check_held s now (lease # leases) =
     (if \<not> lease_current s now lease then Inl (LeaseLostError (Lease_Target lease))
      else check_held s now leases)"

definition apply_finalize :: "gotime \<Rightarrow> Store \<Rightarrow> FinalizeRequest \<Rightarrow> Store" where
  "apply_finalize wall s req =
     (let copyRecord = cloneThreadRecord (Finalize_Record req);
          s1 = s\<lparr>store_records := (store_records s)(Record_ID copyRecord \<mapsto> copyRecord)\<rparr>;
          s2 = (if Finalize_ArchiveOld req \<and> Finalize_PreviousID req \<noteq> '''' then
                  (case store_records s1 (Finalize_PreviousID req) of
                     None \<Rightarrow> s1
                   | Some record \<Rightarrow>
                       s1\<lparr>store_records := (store_records s1)(Finalize_PreviousID req \<mapsto>
                           record\<lparr>Record_Status := StatusArchived, Record_UpdatedAt := wall\<rparr>)\<rparr>)
                else s1)
      in if Finalize_RebindActive req \<and> Finalize_Key req \<noteq> '''' then
           s2\<lparr>store_keyIndex :=
                (store_keyIndex s2)(Finalize_Key req \<mapsto> Record_ID (Finalize_Record req))\<rparr>
         else s2)"

definition Finalize ::
  "gotime \<Rightarrow> gotime \<Rightarrow> Store \<Rightarrow> FinalizeRequest \<Rightarrow> StoreError + Store" where
  "Finalize now wall s req =
     (case check_held s now (Finalize_HeldLeases req) of
        Inl e \<Rightarrow> Inl e
      | Inr _ \<Rightarrow>
          (if Finalize_RequireKeyAbsent req \<and> Finalize_Key req \<noteq> ''''
              \<and> index_of s (Finalize_Key req) \<noteq> ''''
           then Inl (AlreadyExistsError (Finalize_Key req))
           else Inr (apply_finalize wall s req)))"

text \<open>
  \<^verbatim>\<open>ctx.Err()\<close> is read before and after the mutex is taken.
\<close>

definition AcquireLease ::
  "CtxErr option \<Rightarrow> CtxErr option \<Rightarrow> gotime \<Rightarrow> entropy \<Rightarrow> Store \<Rightarrow> string \<Rightarrow> string \<Rightarrow> duration
   \<Rightarrow> StoreError + (Lease \<times> Store)" where
  "AcquireLease ctx0 ctx1 now ent s target owner ttl =
     (case ctx0 of Some err \<Rightarrow> Inl (ContextError err) | None \<Rightarrow>
      case ctx1 of Some err \<Rightarrow> Inl (ContextError err) | None \<Rightarrow>
      let current = store_leases s target;
          live = (case current of None \<Rightarrow> False | Some c \<Rightarrow> After (lease_Until c) now);
          owned = (case current of None \<Rightarrow> False | Some c \<Rightarrow> lease_Owner c = owner);
          old = (case current of None \<Rightarrow> '''' | Some c \<Rightarrow> lease_Token c)
      in if live \<and> \<not> owned then Inl (BusyError target)
         else bindE (if old = '''' \<or> current = None \<or> \<not> live then newLeaseToken ent
                     else Inr old)
                (\<lambda>tok. Inr (\<lparr>Lease_Target = target, Lease_Owner = owner, Lease_Token = tok\<rparr>,
                     s\<lparr>store_leases := (store_leases s)(target \<mapsto>
                         \<lparr>lease_Owner = owner, lease_Until = now + ttl, lease_Token = tok\<rparr>)\<rparr>)))"

definition RenewLease :: "gotime \<Rightarrow> Store \<Rightarrow> Lease \<Rightarrow> duration \<Rightarrow> StoreError + Store" where
  "RenewLease now s lease ttl =
     (case store_leases s (Lease_Target lease) of
        None \<Rightarrow> Inl (LeaseLostError (Lease_Target lease))
      | Some current \<Rightarrow>
          (if lease_Owner current \<noteq> Lease_Owner lease
              \<or> lease_Token current \<noteq> Lease_Token lease
              \<or> \<not> After (lease_Until current) now
           then Inl (LeaseLostError (Lease_Target lease))
           else Inr (s\<lparr>store_leases := (store_leases s)(Lease_Target lease \<mapsto>
                         current\<lparr>lease_Until := now + ttl\<rparr>)\<rparr>)))"

definition ReleaseLease :: "Store \<Rightarrow> Lease \<Rightarrow> Store" where
  "ReleaseLease s lease =
     (case store_leases s (Lease_Target lease) of
        None \<Rightarrow> s
      | Some current \<Rightarrow>
          (if lease_Owner current \<noteq> Lease_Owner lease \<or> lease_Token current \<noteq> Lease_Token lease
           then s
           else s\<lparr>store_leases := (store_leases s)(Lease_Target lease := None)\<rparr>))"

subsection \<open>One atomic call on the store\<close>

datatype StoreCall =
    CallResolve Query
  | CallFinalize gotime FinalizeRequest
  | CallAcquire "CtxErr option" "CtxErr option" entropy string string duration
  | CallRenew Lease duration
  | CallRelease Lease

fun store_exec :: "gotime \<Rightarrow> Store \<Rightarrow> StoreCall \<Rightarrow> Store" where
  "store_exec now s (CallResolve q) = s"
| "store_exec now s (CallFinalize wall req) =
     (case Finalize now wall s req of Inl _ \<Rightarrow> s | Inr s' \<Rightarrow> s')"
| "store_exec now s (CallAcquire c0 c1 ent target owner ttl) =
     (case AcquireLease c0 c1 now ent s target owner ttl of Inl _ \<Rightarrow> s | Inr (_, s') \<Rightarrow> s')"
| "store_exec now s (CallRenew lease ttl) =
     (case RenewLease now s lease ttl of Inl _ \<Rightarrow> s | Inr s' \<Rightarrow> s')"
| "store_exec now s (CallRelease lease) = ReleaseLease s lease"

text \<open>
  The token a call draws from the entropy source: only \<^verbatim>\<open>AcquireLease\<close> draws one.
\<close>

fun call_mints :: "gotime \<Rightarrow> Store \<Rightarrow> StoreCall \<Rightarrow> string set" where
  "call_mints now s (CallAcquire c0 c1 ent target owner ttl) =
     (case newLeaseToken ent of Inl _ \<Rightarrow> {} | Inr tok \<Rightarrow> {tok})"
| "call_mints now s _ = {}"

text \<open>
  A call acts for a lease when it is made by the lease's owner on the lease's target, or
  presents the lease's owner and token.
\<close>

fun call_acts_for :: "StoreCall \<Rightarrow> Lease \<Rightarrow> bool" where
  "call_acts_for (CallAcquire c0 c1 ent target owner ttl) l =
     (target = Lease_Target l \<and> owner = Lease_Owner l)"
| "call_acts_for (CallRenew lease ttl) l = (lease = l)"
| "call_acts_for (CallRelease lease) l = (lease = l)"
| "call_acts_for _ l = False"

subsection \<open>Elementary laws\<close>

lemma cloneThreadRecord_id [simp]: "cloneThreadRecord r = r"
  by (cases r) (auto simp: cloneThreadRecord_def option.map_ident split: option.splits)

lemma lease_current_mono: "lease_current s t' l \<Longrightarrow> t \<le> t' \<Longrightarrow> lease_current s t l"
  by (auto simp: lease_current_def split: option.splits)

lemma lease_current_unique:
  "lease_current s t l \<Longrightarrow> lease_current s t l' \<Longrightarrow> Lease_Target l = Lease_Target l' \<Longrightarrow> l = l'"
  by (cases l, cases l') (auto simp: lease_current_def split: option.splits)

lemma RenewLease_iff: "RenewLease now s lease ttl =
    (if lease_current s now lease
     then Inr (s\<lparr>store_leases := (store_leases s)(Lease_Target lease \<mapsto>
            (the (store_leases s (Lease_Target lease)))\<lparr>lease_Until := now + ttl\<rparr>)\<rparr>)
     else Inl (LeaseLostError (Lease_Target lease)))"
  by (auto simp: RenewLease_def lease_current_def split: option.splits)

lemma check_held_iff [store_simps]:
  "check_held s now leases = Inr u \<longleftrightarrow> (\<forall>l \<in> set leases. lease_current s now l)"
  by (induction leases) auto

lemma check_held_Inl:
  "check_held s now leases = Inl e \<Longrightarrow>
   \<exists>l \<in> set leases. \<not> lease_current s now l \<and> e = LeaseLostError (Lease_Target l)"
  by (induction leases) (auto split: if_splits)

lemma apply_finalize_leases [simp]: "store_leases (apply_finalize wall s req) = store_leases s"
  by (simp add: apply_finalize_def Let_def split: option.splits)

lemma Finalize_leases: "Finalize now wall s req = Inr s' \<Longrightarrow> store_leases s' = store_leases s"
  by (auto simp: Finalize_def split: sum.splits if_splits)

lemma lease_current_cong:
  "store_leases s = store_leases s' \<Longrightarrow> lease_current s = lease_current s'"
  by (intro ext) (simp add: lease_current_def)

lemma AcquireLease_cases:
  assumes "AcquireLease c0 c1 now ent s target owner ttl = Inr (l, s')"
  obtains tok where "l = \<lparr>Lease_Target = target, Lease_Owner = owner, Lease_Token = tok\<rparr>"
    and "s' = s\<lparr>store_leases := (store_leases s)(target \<mapsto>
               \<lparr>lease_Owner = owner, lease_Until = now + ttl, lease_Token = tok\<rparr>)\<rparr>"
    and "newLeaseToken ent = Inr tok
         \<or> (\<exists>c. store_leases s target = Some c \<and> lease_Owner c = owner \<and> lease_Token c = tok
               \<and> After (lease_Until c) now)"
    and "\<forall>c. store_leases s target = Some c \<longrightarrow> After (lease_Until c) now \<longrightarrow> lease_Owner c = owner"
  using assms
  by (auto simp: AcquireLease_def Let_def split: option.splits if_splits)

subsection \<open>The store keeps the lease discipline\<close>

lemma store_no_revival:
  assumes "lease_current (store_exec t s op) t' l" and "t \<le> t'" and "\<not> lease_current s t l"
  shows "Lease_Token l \<in> call_mints t s op"
proof (cases op)
  case (CallAcquire c0 c1 ent target owner ttl)
  show ?thesis
  proof (cases "AcquireLease c0 c1 t ent s target owner ttl")
    case (Inl e)
    with assms CallAcquire show ?thesis using lease_current_mono by auto
  next
    case (Inr p)
    obtain l' s' where p: "p = (l', s')" by (cases p)
    with Inr have acq: "AcquireLease c0 c1 t ent s target owner ttl = Inr (l', s')" by simp
    from assms(1) CallAcquire acq have cur: "lease_current s' t' l" by simp
    from acq show ?thesis
    proof (rule AcquireLease_cases)
      fix tok
      assume s': "s' = s\<lparr>store_leases := (store_leases s)(target \<mapsto>
               \<lparr>lease_Owner = owner, lease_Until = t + ttl, lease_Token = tok\<rparr>)\<rparr>"
        and tok: "newLeaseToken ent = Inr tok
         \<or> (\<exists>c. store_leases s target = Some c \<and> lease_Owner c = owner \<and> lease_Token c = tok
               \<and> After (lease_Until c) t)"
      show ?thesis
      proof (cases "Lease_Target l = target")
        case True
        with cur s' have "Lease_Owner l = owner" "Lease_Token l = tok"
          by (simp_all add: lease_current_def)
        with True tok assms(3) CallAcquire show ?thesis
          by (auto simp: lease_current_def)
      next
        case False
        with cur s' have "lease_current s t' l" by (simp add: lease_current_def)
        with assms(2,3) show ?thesis using lease_current_mono by blast
      qed
    qed
  qed
next
  case (CallFinalize wall req)
  with assms show ?thesis
    using lease_current_cong [OF Finalize_leases] lease_current_mono
    by (auto split: sum.splits)
next
  case (CallRenew lease ttl)
  with assms show ?thesis
    by (auto simp: RenewLease_iff lease_current_def split: option.splits if_splits)
next
  case (CallRelease lease)
  with assms show ?thesis
    by (auto simp: ReleaseLease_def lease_current_def split: option.splits if_splits)
next
  case (CallResolve q)
  with assms show ?thesis using lease_current_mono by auto
qed

lemma store_interference_free:
  assumes cur: "lease_current s t' l" and "t \<le> t'" and act: "\<not> call_acts_for op l"
  shows "lease_current (store_exec t s op) t' l"
proof (cases op)
  case (CallAcquire c0 c1 ent target owner ttl)
  show ?thesis
  proof (cases "AcquireLease c0 c1 t ent s target owner ttl")
    case (Inl e)
    with cur CallAcquire show ?thesis by simp
  next
    case (Inr p)
    obtain l' s' where "p = (l', s')" by (cases p)
    with Inr have acq: "AcquireLease c0 c1 t ent s target owner ttl = Inr (l', s')" by simp
    then show ?thesis
    proof (rule AcquireLease_cases)
      fix tok
      assume s': "s' = s\<lparr>store_leases := (store_leases s)(target \<mapsto>
               \<lparr>lease_Owner = owner, lease_Until = t + ttl, lease_Token = tok\<rparr>)\<rparr>"
        and own: "\<forall>c. store_leases s target = Some c \<longrightarrow> After (lease_Until c) t
                     \<longrightarrow> lease_Owner c = owner"
      have "Lease_Target l \<noteq> target"
        using cur \<open>t \<le> t'\<close> own act CallAcquire
        by (auto simp: lease_current_def split: option.splits)
      with cur s' acq CallAcquire show ?thesis by (simp add: lease_current_def)
    qed
  qed
next
  case (CallFinalize wall req)
  with cur show ?thesis
    using lease_current_cong [OF Finalize_leases] by (auto split: sum.splits)
next
  case (CallRenew lease ttl)
  with cur act show ?thesis
    by (cases lease, cases l)
      (auto simp: RenewLease_iff lease_current_def split: option.splits if_splits)
next
  case (CallRelease lease)
  with cur act show ?thesis
    by (cases lease, cases l)
      (auto simp: ReleaseLease_def lease_current_def split: option.splits if_splits)
qed (use cur in simp)

interpretation memory: fenced_leases store_exec lease_current Lease_Target Lease_Token
    call_mints call_acts_for
  by unfold_locales
    (blast intro: lease_current_mono store_no_revival lease_current_unique store_interference_free)+

lemma length_hexEncode: "length (hexEncode bs) = 2 * length bs"
  by (induction bs) auto

lemma minted_length: "newLeaseToken ent = Inr tok \<Longrightarrow> length tok = 32"
  by (auto simp: newLeaseToken_def length_hexEncode split: entropy.splits if_splits)

subsection \<open>Finalize and Resolve\<close>

definition by_id :: "string \<Rightarrow> bool \<Rightarrow> Query" where
  "by_id rid arch = \<lparr>Query_ID = rid, Query_Key = '''', Query_IncludeArchived = arch\<rparr>"

definition by_key :: "string \<Rightarrow> Query" where
  "by_key key = \<lparr>Query_ID = '''', Query_Key = key, Query_IncludeArchived = False\<rparr>"

lemma Resolve_by_id [store_simps]:
  "rid \<noteq> '''' \<Longrightarrow> Resolve s (by_id rid arch) =
     (case store_records s rid of
        None \<Rightarrow> None
      | Some r \<Rightarrow> if Record_Status r = StatusArchived \<and> \<not> arch then None else Some r)"
  by (simp add: Resolve_def by_id_def recordByIDLocked_def split: option.split)

lemma Resolve_by_key [store_simps]:
  "key \<noteq> '''' \<Longrightarrow> Resolve s (by_key key) =
     (if index_of s key = '''' then None else Resolve s (by_id (index_of s key) False))"
  by (simp add: Resolve_def by_id_def by_key_def Let_def)

lemma apply_finalize_records [store_simps]:
  "store_records (apply_finalize wall s req) =
     (let m = (store_records s)(Record_ID (Finalize_Record req) \<mapsto> Finalize_Record req)
      in if Finalize_ArchiveOld req \<and> Finalize_PreviousID req \<noteq> '''' then
           m(Finalize_PreviousID req :=
               map_option (\<lambda>r. r\<lparr>Record_Status := StatusArchived, Record_UpdatedAt := wall\<rparr>)
                 (m (Finalize_PreviousID req)))
         else m)"
  by (auto simp: apply_finalize_def Let_def fun_eq_iff split: option.splits)

lemma apply_finalize_index [store_simps]:
  "index_of (apply_finalize wall s req) k =
     (if Finalize_RebindActive req \<and> Finalize_Key req \<noteq> '''' \<and> k = Finalize_Key req
      then Record_ID (Finalize_Record req) else index_of s k)"
  by (auto simp: apply_finalize_def Let_def index_of_def split: option.splits)

lemma Finalize_Inr_iff [store_simps]:
  "Finalize now wall s req = Inr s' \<longleftrightarrow>
     (\<forall>l \<in> set (Finalize_HeldLeases req). lease_current s now l)
     \<and> \<not> (Finalize_RequireKeyAbsent req \<and> Finalize_Key req \<noteq> ''''
          \<and> index_of s (Finalize_Key req) \<noteq> '''')
     \<and> s' = apply_finalize wall s req"
proof (cases "check_held s now (Finalize_HeldLeases req)")
  case (Inl e)
  from check_held_Inl [OF this] Inl show ?thesis by (auto simp: Finalize_def)
next
  case (Inr u)
  then have "\<forall>l \<in> set (Finalize_HeldLeases req). lease_current s now l"
    by (simp add: store_simps)
  with Inr show ?thesis by (auto simp: Finalize_def)
qed

lemma Finalize_stale:
  assumes "l \<in> set (Finalize_HeldLeases req)" and "\<not> lease_current s now l"
  shows "\<exists>target. Finalize now wall s req = Inl (LeaseLostError target)"
proof (cases "check_held s now (Finalize_HeldLeases req)")
  case (Inl e)
  from check_held_Inl [OF this] Inl show ?thesis by (auto simp: Finalize_def)
next
  case (Inr u)
  with assms show ?thesis by (simp add: store_simps)
qed

subsection \<open>Properties\<close>

text \<open>
  C1. Fencing. Once a lease is no longer current (expired, released or taken over), no
  sequence of store calls by anybody, at later times, makes it current again, as long as the
  entropy source does not repeat its token: a Finalize that presents it fails with
  LeaseLostError and so does RenewLease. An expired-and-reacquired lease can therefore never
  finalize stale state.
\<close>

theorem stale_lease_fenced:
  assumes "\<not> lease_current s t0 l"
    and "sorted (t0 # map fst calls @ [now])"
    and "Lease_Token l \<notin> minted_in store_exec call_mints s calls"
    and "l \<in> set (Finalize_HeldLeases req)"
  shows "(\<exists>target. Finalize now wall (timed_run store_exec s calls) req
            = Inl (LeaseLostError target))
       \<and> RenewLease now (timed_run store_exec s calls) l ttl
            = Inl (LeaseLostError (Lease_Target l))"
  using memory.fencing [OF assms(1-3)] Finalize_stale [OF assms(4)]
  by (simp add: RenewLease_iff)

text \<open>
  C2. Exclusivity. While a lease is current up to the time \<open>now\<close>, calls that neither come from
  its owner on its target nor present the lease itself leave it current, and every attempt of
  another owner to acquire the target during that time fails with BusyError.
\<close>

theorem held_lease_exclusive:
  assumes "lease_current s now l"
    and "sorted (map fst calls @ [now])"
    and "\<forall>(t, call) \<in> set calls. \<not> call_acts_for call l"
    and "owner \<noteq> Lease_Owner l"
  shows "lease_current (timed_run store_exec s calls) now l
       \<and> AcquireLease None None now ent (timed_run store_exec s calls) (Lease_Target l) owner ttl
           = Inl (BusyError (Lease_Target l))"
proof
  show cur: "lease_current (timed_run store_exec s calls) now l"
    using assms(1-3) by (rule memory.undisturbed)
  with assms(4) show "AcquireLease None None now ent (timed_run store_exec s calls)
      (Lease_Target l) owner ttl = Inl (BusyError (Lease_Target l))"
    by (auto simp: AcquireLease_def Let_def lease_current_def split: option.splits)
qed

lemma Finalize_Inl_iff:
  "isl (Finalize now wall s req) \<longleftrightarrow> \<not> ((\<forall>l \<in> set (Finalize_HeldLeases req). lease_current s now l)
     \<and> \<not> (Finalize_RequireKeyAbsent req \<and> Finalize_Key req \<noteq> '''' \<and> index_of s (Finalize_Key req) \<noteq> ''''))"
  using Finalize_Inr_iff [of now wall s req] by (cases "Finalize now wall s req") auto

lemma Finalize_refusal:
  assumes "Finalize now wall s req = Inl e"
  shows "(\<exists>l \<in> set (Finalize_HeldLeases req). \<not> lease_current s now l \<and> e = LeaseLostError (Lease_Target l))
    \<or> (\<forall>l \<in> set (Finalize_HeldLeases req). lease_current s now l) \<and> e = AlreadyExistsError (Finalize_Key req)"
  using assms check_held_Inl [of s now "Finalize_HeldLeases req" e] check_held_iff [of s now "Finalize_HeldLeases req"]
  by (cases "check_held s now (Finalize_HeldLeases req)") (auto simp: Finalize_def split: if_splits)

text \<open>
  C3. Finalize is a transaction. It is refused exactly when a presented lease is not current, with the lost-lease
  error of that lease, or when the key must be free and is bound, with the already-exists error; a refused call changes
  nothing. Otherwise the store afterwards is pinned down completely: the record stands under its identifier, the
  displaced record is archived if the request asks for it (readable by identifier with IncludeArchived, invisible
  without), the key resolves to the new record if the request rebinds it, and every other record, every other key and
  all leases are as before.
\<close>

theorem Finalize_then_Resolve:
  fixes s req now wall
  defines "rec \<equiv> Finalize_Record req" and "prev \<equiv> Finalize_PreviousID req" and "key \<equiv> Finalize_Key req"
    and "s' \<equiv> store_exec now s (CallFinalize wall req)" and "archive \<equiv> Finalize_ArchiveOld req \<and> Finalize_PreviousID req \<noteq> ''''"
  shows "(isl (Finalize now wall s req) \<longleftrightarrow> (\<exists>l \<in> set (Finalize_HeldLeases req). \<not> lease_current s now l)
         \<or> Finalize_RequireKeyAbsent req \<and> key \<noteq> '''' \<and> index_of s key \<noteq> '''')
    \<and> (\<forall>e. Finalize now wall s req = Inl e \<longrightarrow> s' = s \<and>
         ((\<exists>l \<in> set (Finalize_HeldLeases req). \<not> lease_current s now l \<and> e = LeaseLostError (Lease_Target l))
          \<or> (\<forall>l \<in> set (Finalize_HeldLeases req). lease_current s now l) \<and> e = AlreadyExistsError key))
    \<and> (\<not> isl (Finalize now wall s req) \<longrightarrow>
         store_leases s' = store_leases s
         \<and> (\<forall>k. index_of s' k = (if Finalize_RebindActive req \<and> key \<noteq> '''' \<and> k = key then Record_ID rec else index_of s k))
         \<and> (\<forall>i. \<not> (archive \<and> i = prev) \<longrightarrow> store_records s' i = (if i = Record_ID rec then Some rec else store_records s i))
         \<and> (archive \<longrightarrow> store_records s' prev =
              map_option (\<lambda>r. r\<lparr>Record_Status := StatusArchived, Record_UpdatedAt := wall\<rparr>)
                (if prev = Record_ID rec then Some rec else store_records s prev))
         \<and> (Finalize_RebindActive req \<and> key \<noteq> '''' \<and> Record_ID rec \<noteq> '''' \<and> Record_Status rec = StatusActive
              \<and> \<not> (archive \<and> prev = Record_ID rec) \<longrightarrow>
              Resolve s' (by_key key) = Some rec \<and> Resolve s' (by_id (Record_ID rec) False) = Some rec)
         \<and> (archive \<longrightarrow> Resolve s' (by_id prev False) = None \<and> Resolve s' (by_id prev True) = store_records s' prev))"
    (is "?refusals \<and> ?errors \<and> (_ \<longrightarrow> ?leases \<and> ?index \<and> ?records \<and> ?archived \<and> ?bound \<and> ?hidden)")
proof (intro conjI)
  show ?refusals unfolding Finalize_Inl_iff key_def by blast
  show ?errors using Finalize_refusal [of now wall s req] by (auto simp: s'_def key_def)
  show "\<not> isl (Finalize now wall s req) \<longrightarrow> ?leases \<and> ?index \<and> ?records \<and> ?archived \<and> ?bound \<and> ?hidden"
  proof (intro impI)
    assume "\<not> isl (Finalize now wall s req)"
    then obtain x where x: "Finalize now wall s req = Inr x" by (cases "Finalize now wall s req") auto
    then have "x = apply_finalize wall s req" by (simp add: Finalize_Inr_iff)
    then have s': "s' = apply_finalize wall s req" using x by (simp add: s'_def)
    have stat: "Record_Status rec = StatusActive \<Longrightarrow> Record_Status rec \<noteq> StatusArchived"
      by (simp add: StatusActive_def StatusArchived_def)
    have leases: ?leases by (simp add: s')
    have index: ?index by (simp add: s' store_simps key_def rec_def)
    have records: ?records by (auto simp: s' apply_finalize_records rec_def prev_def archive_def Let_def)
    have archived: ?archived by (auto simp: s' apply_finalize_records rec_def prev_def archive_def Let_def)
    have bound: ?bound using index records stat by (auto simp: Resolve_by_key Resolve_by_id)
    have hidden: ?hidden using archived
      by (cases "if prev = Record_ID rec then Some rec else store_records s prev") (auto simp: Resolve_by_id archive_def prev_def)
    show "?leases \<and> ?index \<and> ?records \<and> ?archived \<and> ?bound \<and> ?hidden"
      using leases index records archived bound hidden by blast
  qed
qed

subsection \<open>Witnesses\<close>

definition sample_record :: Record where
  "sample_record =
     \<lparr>Record_EarlierGuidance = [], Record_RecentTurns = [], Record_DeliveredMessages = [],
      Record_ID = ''new'', Record_Key = ''ticket-1'', Record_Status = StatusActive,
      Record_DriverType = ''codex'',
      Record_Agent = \<lparr>Agent_ID = '''', Agent_TenantID = '''', Agent_ProfileID = '''', Agent_Name = ''''\<rparr>,
      Record_Fingerprint = ''f'', Record_CompatibilityFingerprint = ''f'',
      Record_SessionCodec = ''codex'', Record_State = None,
      Record_CreatedAt = 0, Record_UpdatedAt = 0\<rparr>"

definition sample_lease :: Lease where
  "sample_lease = \<lparr>Lease_Target = ''k'', Lease_Owner = ''A'', Lease_Token = ''tokA''\<rparr>"

definition sample_request :: FinalizeRequest where
  "sample_request =
     \<lparr>Finalize_Record = sample_record, Finalize_PreviousID = ''old'',
      Finalize_Key = ''ticket-1'', Finalize_HeldLeases = [sample_lease],
      Finalize_ArchiveOld = True, Finalize_RebindActive = True,
      Finalize_RequireKeyAbsent = False\<rparr>"

text \<open>A store in which owner A holds the lease on target k until time 10.\<close>

definition sample_store :: Store where
  "sample_store = NewStore
     \<lparr>store_records := [''old'' \<mapsto> sample_record\<lparr>Record_ID := ''old''\<rparr>],
      store_keyIndex := [''ticket-1'' \<mapsto> ''old''],
      store_leases := [''k'' \<mapsto> \<lparr>lease_Owner = ''A'', lease_Until = 10, lease_Token = ''tokA''\<rparr>]\<rparr>"

text \<open>Owner B takes the expired lease over at time 11.\<close>

definition takeover :: "(gotime \<times> StoreCall) list" where
  "takeover = [(11, CallAcquire None None (EntropyRead (replicate 16 (CHR ''z''))) ''k'' ''B'' 100)]"

lemmas sample_defs = sample_record_def sample_lease_def sample_request_def sample_store_def
  NewStore_def takeover_def lease_current_def

theorem stale_lease_fenced_witness:
  "\<exists>target. Finalize 12 0 (timed_run store_exec sample_store takeover) sample_request
     = Inl (LeaseLostError target)"
proof -
  have a: "\<not> lease_current sample_store 10 sample_lease" by (simp add: sample_defs)
  have b: "sorted (10 # map fst takeover @ [12])" by (simp add: sample_defs)
  have c: "Lease_Token sample_lease \<notin> minted_in store_exec call_mints sample_store takeover"
    using minted_length [of "EntropyRead (replicate 16 (CHR ''z''))"]
    by (auto simp: takeover_def sample_lease_def split: sum.splits)
  have d: "sample_lease \<in> set (Finalize_HeldLeases sample_request)" by (simp add: sample_defs)
  show ?thesis using stale_lease_fenced [OF a b c d] by blast
qed

theorem held_lease_exclusive_witness:
  "AcquireLease None None 9 (EntropyError ''x'')
     (timed_run store_exec sample_store [(8, CallResolve (by_key ''ticket-1''))]) ''k'' ''B'' 5
   = Inl (BusyError ''k'')"
proof -
  have a: "lease_current sample_store 9 sample_lease" by (simp add: sample_defs)
  have b: "sorted (map fst [(8::gotime, CallResolve (by_key ''ticket-1''))] @ [9])" by simp
  have c: "\<forall>(t, call) \<in> set [(8, CallResolve (by_key ''ticket-1''))].
      \<not> call_acts_for call sample_lease" by simp
  have d: "''B'' \<noteq> Lease_Owner sample_lease" by (simp add: sample_defs)
  show ?thesis using held_lease_exclusive [OF a b c d] by (simp add: sample_lease_def)
qed

theorem Finalize_then_Resolve_witness:
  "\<not> isl (Finalize 5 7 sample_store sample_request)
      \<and> Resolve (store_exec 5 sample_store (CallFinalize 7 sample_request)) (by_key ''ticket-1'') = Some sample_record
      \<and> Resolve (store_exec 5 sample_store (CallFinalize 7 sample_request)) (by_id ''old'' False) = None
      \<and> Finalize 11 12 sample_store sample_request = Inl (LeaseLostError ''k'')
      \<and> store_exec 11 sample_store (CallFinalize 12 sample_request) = sample_store"
proof -
  have fin: "\<not> isl (Finalize 5 7 sample_store sample_request)" by (simp add: Finalize_Inl_iff sample_defs)
  have late: "Finalize 11 12 sample_store sample_request = Inl (LeaseLostError ''k'')"
    by (simp add: Finalize_def sample_defs)
  have "Resolve (store_exec 5 sample_store (CallFinalize 7 sample_request)) (by_key ''ticket-1'') = Some sample_record
      \<and> Resolve (store_exec 5 sample_store (CallFinalize 7 sample_request)) (by_id ''old'' False) = None"
    using Finalize_then_Resolve [of 5 7 sample_store sample_request] fin by (simp add: sample_request_def sample_record_def)
  then show ?thesis using fin late Finalize_then_Resolve [of 11 12 sample_store sample_request] by blast
qed

end
