(* ===== verification/ThreadStoreEngine.thy ===== *)
theory ThreadStoreEngine
  imports SessionContract MemoryStore
begin

text \<open>
  \<^verbatim>\<open>threadstore_engine.go\<close>: the adapter that lets the engine's coordinator drive a
  consumer-facing \<^verbatim>\<open>threadstore.Store\<close>, for an adapter without a thread runtime, message
  hub or run state (the one ownership acquisition uses), and its instance on the in-memory
  store. The in-memory store's world carries the readings its clock, entropy source and
  callers' contexts will give, indexed by a counter that every reading advances.
\<close>

subsection \<open>The store interface and the adapter\<close>

record 'b StoreOps =
  ops_Resolve :: "Query \<Rightarrow> ('b, StoreError, Record option) step"
  ops_Finalize :: "FinalizeRequest \<Rightarrow> ('b, StoreError, unit) step"
  ops_AcquireLease :: "string \<Rightarrow> string \<Rightarrow> duration \<Rightarrow> ('b, StoreError, Lease) step"
  ops_RenewLease :: "Lease \<Rightarrow> duration \<Rightarrow> ('b, StoreError, unit) step"
  ops_ReleaseLease :: "Lease \<Rightarrow> ('b, StoreError, unit) step"

definition threadNamespace :: string where
  "threadNamespace = ''thread''"

definition engineRecord :: "Record \<Rightarrow> SessionRecord" where
  "engineRecord rec =
     \<lparr>SRec_ID = Record_ID rec, SRec_Namespace = threadNamespace, SRec_Key = Record_Key rec,
      SRec_Status = Record_Status rec, SRec_DriverType = Record_DriverType rec,
      SRec_Agent = Record_Agent rec, SRec_Fingerprint = Record_Fingerprint rec,
      SRec_CompatibilityFingerprint = Record_CompatibilityFingerprint rec,
      SRec_SessionCodec = Record_SessionCodec rec, SRec_DriverState = Record_State rec,
      SRec_CreatedAt = Record_CreatedAt rec, SRec_UpdatedAt = Record_UpdatedAt rec\<rparr>"

definition storeRecord :: "SessionRecord \<Rightarrow> Record" where
  "storeRecord rec =
     \<lparr>Record_EarlierGuidance = [], Record_RecentTurns = [], Record_DeliveredMessages = [],
      Record_ID = SRec_ID rec, Record_Key = SRec_Key rec, Record_Status = SRec_Status rec,
      Record_DriverType = SRec_DriverType rec, Record_Agent = SRec_Agent rec,
      Record_Fingerprint = SRec_Fingerprint rec,
      Record_CompatibilityFingerprint = SRec_CompatibilityFingerprint rec,
      Record_SessionCodec = SRec_SessionCodec rec, Record_State = SRec_DriverState rec,
      Record_CreatedAt = SRec_CreatedAt rec, Record_UpdatedAt = SRec_UpdatedAt rec\<rparr>"

definition engine_lease :: "Lease \<Rightarrow> SessionLease" where
  "engine_lease l = \<lparr>SLease_Target = Lease_Target l, SLease_Owner = Lease_Owner l, SLease_Token = Lease_Token l\<rparr>"

definition store_lease :: "SessionLease \<Rightarrow> Lease" where
  "store_lease l = \<lparr>Lease_Target = SLease_Target l, Lease_Owner = SLease_Owner l, Lease_Token = SLease_Token l\<rparr>"

definition store_query :: "SessionQuery \<Rightarrow> Query" where
  "store_query q = \<lparr>Query_ID = SQuery_ID q, Query_Key = SQuery_Key q,
     Query_IncludeArchived = SQuery_IncludeArchived q\<rparr>"

definition store_finalize :: "SessionFinalizeRequest \<Rightarrow> FinalizeRequest" where
  "store_finalize req =
     \<lparr>Finalize_Record = storeRecord (SFin_Record req), Finalize_PreviousID = SFin_PreviousID req,
      Finalize_Key = SFin_Key req, Finalize_HeldLeases = map store_lease (SFin_HeldLeases req),
      Finalize_ArchiveOld = SFin_ArchiveOld req, Finalize_RebindActive = SFin_RebindActive req,
      Finalize_RequireKeyAbsent = SFin_RequireKeyAbsent req\<rparr>"

definition map_step :: "('e \<Rightarrow> 'f) \<Rightarrow> ('a \<Rightarrow> 'c) \<Rightarrow> ('s, 'e, 'a) step \<Rightarrow> ('s, 'f, 'c) step" where
  "map_step f g m s = (case m s of (Inl e, s') \<Rightarrow> (Inl (f e), s') | (Inr x, s') \<Rightarrow> (Inr (g x), s'))"

definition engineStore :: "'b StoreOps \<Rightarrow> 'b SessionStore" where
  "engineStore ops =
     \<lparr>Store_Resolve = (\<lambda>q. map_step StoreFailure (map_option engineRecord) (ops_Resolve ops (store_query q))),
      Store_Finalize = (\<lambda>req. map_step StoreFailure id (ops_Finalize ops (store_finalize req))),
      Store_AcquireLease = (\<lambda>target owner ttl.
        map_step (\<lambda>e. if StoreError_Unwrap e = Some ErrBusy then SessionBusyError target else StoreFailure e)
          engine_lease (ops_AcquireLease ops target owner ttl)),
      Store_RenewLease = (\<lambda>l ttl. map_step StoreFailure id (ops_RenewLease ops (store_lease l) ttl)),
      Store_ReleaseLease = (\<lambda>l. map_step StoreFailure id (ops_ReleaseLease ops (store_lease l)))\<rparr>"

subsection \<open>The in-memory store as a world\<close>

record mem_world =
  mw_store :: Store
  mw_clock :: "nat \<Rightarrow> gotime"
  mw_rand :: "nat \<Rightarrow> entropy"
  mw_ctx :: "nat \<Rightarrow> CtxErr option"
  mw_count :: nat

definition mem_tick :: "mem_world \<Rightarrow> mem_world" where
  "mem_tick w = w\<lparr>mw_count := Suc (mw_count w)\<rparr>"

definition mem_try :: "(gotime \<Rightarrow> Store \<Rightarrow> StoreError + ('a \<times> Store)) \<Rightarrow> (mem_world, StoreError, 'a) step" where
  "mem_try f w = (case f (mw_clock w (mw_count w)) (mw_store w) of
     Inl e \<Rightarrow> (Inl e, mem_tick w)
   | Inr (x, s) \<Rightarrow> (Inr x, (mem_tick w)\<lparr>mw_store := s\<rparr>))"

definition unit_result :: "StoreError + Store \<Rightarrow> StoreError + (unit \<times> Store)" where
  "unit_result r = (case r of Inl e \<Rightarrow> Inl e | Inr s \<Rightarrow> Inr ((), s))"

definition memory_ops :: "mem_world StoreOps" where
  "memory_ops =
     \<lparr>ops_Resolve = (\<lambda>q w. (Inr (Resolve (mw_store w) q), w)),
      ops_Finalize = (\<lambda>req. mem_try (\<lambda>now s. unit_result (Finalize now now s req))),
      ops_AcquireLease = (\<lambda>target owner ttl w.
        mem_try (\<lambda>now s. AcquireLease (mw_ctx w (mw_count w)) (mw_ctx w (Suc (mw_count w))) now
          (mw_rand w (mw_count w)) s target owner ttl) w),
      ops_RenewLease = (\<lambda>l ttl. mem_try (\<lambda>now s. unit_result (RenewLease now s l ttl))),
      ops_ReleaseLease = (\<lambda>l. mem_try (\<lambda>now s. Inr ((), ReleaseLease s l)))\<rparr>"

definition mem_env ::
  "(hash_arg list \<Rightarrow> string) \<Rightarrow> (SessionParams \<Rightarrow> string) \<Rightarrow> duration \<Rightarrow> duration \<Rightarrow> mem_world session_env" where
  "mem_env h ph ttl ivl =
     \<lparr>env_stableHash = h, env_paramsHash = ph,
      env_entropyRead = (\<lambda>w. (mw_rand w (mw_count w), mem_tick w)),
      env_now = (\<lambda>w. (mw_clock w (mw_count w), mem_tick w)),
      env_LeaseTTL = ttl, env_LeaseRenewInterval = ivl\<rparr>"

abbreviation (input) mem_session_store :: "mem_world SessionStore" where
  "mem_session_store \<equiv> engineStore memory_ops"

definition mem_leases :: "mem_world \<Rightarrow> string \<rightharpoonup> SessionLease" where
  "mem_leases w t = map_option (\<lambda>c. \<lparr>SLease_Target = t, SLease_Owner = lease_Owner c,
     SLease_Token = lease_Token c\<rparr>) (store_leases (mw_store w) t)"

definition mem_records :: "mem_world \<Rightarrow> string \<rightharpoonup> SessionRecord" where
  "mem_records w i = map_option engineRecord (store_records (mw_store w) i)"

definition mem_active :: "mem_world \<Rightarrow> string \<rightharpoonup> string" where
  "mem_active w = store_keyIndex (mw_store w)"

lemmas mem_views = mem_leases_def mem_records_def mem_active_def mem_tick_def

lemma mem_Resolve:
  "Store_Resolve mem_session_store q w = (Inr (view_lookup (mem_records w) (mem_active w) q), w)"
  by (auto simp: engineStore_def memory_ops_def map_step_def store_query_def view_lookup_def
      Resolve_def recordByIDLocked_def index_of_def mem_views engineRecord_def StatusArchived_def
      split: option.splits)

lemma mem_Acquire_ok:
  assumes "Store_AcquireLease mem_session_store target owner ttl w = (Inr lease, w')"
  shows "SLease_Target lease = target \<and> SLease_Owner lease = owner
    \<and> mem_leases w' = (mem_leases w)(target \<mapsto> lease)
    \<and> mem_records w' = mem_records w \<and> mem_active w' = mem_active w"
proof -
  from assms obtain l s c0 c1 now ent where
    acq: "AcquireLease c0 c1 now ent (mw_store w) target owner ttl = Inr (l, s)"
    and lease: "lease = engine_lease l" and w': "w' = (mem_tick w)\<lparr>mw_store := s\<rparr>"
    by (auto simp: engineStore_def memory_ops_def map_step_def mem_try_def split: sum.splits prod.splits)
  from acq show ?thesis
    by (rule AcquireLease_cases) (auto simp: lease w' engine_lease_def mem_views fun_eq_iff)
qed

lemma mem_Acquire_err:
  "Store_AcquireLease mem_session_store target owner ttl w = (Inl err, w') \<Longrightarrow>
     mem_leases w' = mem_leases w \<and> mem_records w' = mem_records w \<and> mem_active w' = mem_active w"
  by (auto simp: engineStore_def memory_ops_def map_step_def mem_try_def mem_views fun_eq_iff
      split: sum.splits prod.splits)

lemma mem_Release:
  assumes "Store_ReleaseLease mem_session_store lease w = (res, w')"
  shows "res = Inr () \<and> mem_records w' = mem_records w \<and> mem_active w' = mem_active w
      \<and> mem_leases w' = (if mem_leases w (SLease_Target lease) = Some lease
                        then (mem_leases w)(SLease_Target lease := None) else mem_leases w)"
proof -
  have w': "res = Inr ()" "w' = (mem_tick w)\<lparr>mw_store := ReleaseLease (mw_store w) (store_lease lease)\<rparr>"
    using assms by (auto simp: engineStore_def memory_ops_def map_step_def mem_try_def)
  show ?thesis
    by (cases lease) (auto simp: w' ReleaseLease_def store_lease_def mem_views fun_eq_iff split: option.splits)
qed

lemma mem_entropy:
  "env_entropyRead (mem_env h ph ttl ivl) w = (ent, w') \<Longrightarrow>
     mem_leases w' = mem_leases w \<and> mem_records w' = mem_records w \<and> mem_active w' = mem_active w"
  by (auto simp: mem_env_def mem_views fun_eq_iff)

interpretation mem_session: session_store_contract mem_session_store "mem_env h ph ttl ivl"
    mem_leases mem_records mem_active
  by unfold_locales
    (auto simp: mem_Resolve mem_entropy dest: mem_Acquire_ok mem_Acquire_err mem_Release)

lemma engineRecord_storeRecord:
  "SRec_Namespace r = threadNamespace \<Longrightarrow> engineRecord (storeRecord r) = r"
  by (cases r) (simp add: engineRecord_def storeRecord_def)

lemma engineRecord_archive:
  "engineRecord (r\<lparr>Record_Status := StatusArchived, Record_UpdatedAt := t\<rparr>)
     = engineRecord r\<lparr>SRec_Status := SessionStatusArchived, SRec_UpdatedAt := t\<rparr>"
  by (simp add: engineRecord_def StatusArchived_def)

lemma Record_ID_storeRecord: "Record_ID (storeRecord r) = SRec_ID r"
  by (simp add: storeRecord_def)

lemma mem_Finalize_cases:
  assumes "Store_Finalize mem_session_store req w = (res, w')"
  obtains (ok) now where "res = Inr ()"
      and "w' = (mem_tick w)\<lparr>mw_store := apply_finalize now (mw_store w) (store_finalize req)\<rparr>"
      and "Finalize now now (mw_store w) (store_finalize req) = Inr (mw_store w')"
    | (err) e where "res = Inl (StoreFailure e)" and "w' = mem_tick w"
  using assms
  by (auto simp: engineStore_def memory_ops_def map_step_def mem_try_def unit_result_def store_simps
      split: sum.splits prod.splits)

lemma lease_current_mem:
  "lease_current (mw_store w) now (store_lease l) \<Longrightarrow> mem_leases w (SLease_Target l) = Some l"
  by (cases l) (auto simp: lease_current_def store_lease_def mem_leases_def split: option.splits)

lemma mem_Finalize_ok:
  assumes "Store_Finalize mem_session_store req w = (Inr u, w')"
    and ns: "SRec_Namespace (SFin_Record req) = threadNamespace"
  shows "(\<forall>l \<in> set (SFin_HeldLeases req). mem_leases w (SLease_Target l) = Some l)
      \<and> (SFin_RequireKeyAbsent req \<and> SFin_Key req \<noteq> '''' \<longrightarrow>
           mem_active w (SFin_Key req) = None \<or> mem_active w (SFin_Key req) = Some '''')
      \<and> mem_leases w' = mem_leases w \<and> mem_active w' = finalized_active req (mem_active w)
      \<and> (\<exists>wall. mem_records w' = finalized_records wall req (mem_records w))"
proof (rule mem_Finalize_cases [OF assms(1)])
  fix now
  assume w': "w' = (mem_tick w)\<lparr>mw_store := apply_finalize now (mw_store w) (store_finalize req)\<rparr>"
    and fin: "Finalize now now (mw_store w) (store_finalize req) = Inr (mw_store w')"
  from fin have held: "\<forall>l \<in> set (SFin_HeldLeases req). lease_current (mw_store w) now (store_lease l)"
    and absent: "\<not> (SFin_RequireKeyAbsent req \<and> SFin_Key req \<noteq> '''' \<and> index_of (mw_store w) (SFin_Key req) \<noteq> '''')"
    by (auto simp: Finalize_Inr_iff store_finalize_def)
  have "mem_leases w' = mem_leases w" by (simp add: w' mem_views fun_eq_iff)
  moreover have "mem_active w' = finalized_active req (mem_active w)"
    by (auto simp: w' mem_views apply_finalize_def finalized_active_def store_finalize_def storeRecord_def Let_def
        split: option.splits)
  moreover have "mem_records w' = finalized_records now req (mem_records w)"
    using engineRecord_storeRecord [OF ns]
    by (auto simp: w' mem_views apply_finalize_records finalized_records_def store_finalize_def Let_def
        fun_eq_iff Record_ID_storeRecord engineRecord_archive option.map_comp comp_def)
  moreover have "\<forall>l \<in> set (SFin_HeldLeases req). mem_leases w (SLease_Target l) = Some l"
    using held lease_current_mem by blast
  ultimately show ?thesis
    using absent by (auto simp: mem_active_def index_of_def split: option.splits)
qed (use assms in auto)

lemma mem_Finalize_err:
  assumes "Store_Finalize mem_session_store req w = (Inl err, w')"
  shows "mem_leases w' = mem_leases w \<and> mem_records w' = mem_records w \<and> mem_active w' = mem_active w"
  by (rule mem_Finalize_cases [OF assms]) (auto simp: mem_views fun_eq_iff)

lemma mem_now:
  "env_now (mem_env h ph ttl ivl) w = (t, w') \<Longrightarrow>
     mem_leases w' = mem_leases w \<and> mem_records w' = mem_records w \<and> mem_active w' = mem_active w"
  by (auto simp: mem_env_def mem_views fun_eq_iff)

interpretation mem_tx: session_store_transactions mem_session_store "mem_env h ph ttl ivl"
    mem_leases mem_records mem_active threadNamespace
  by unfold_locales (blast dest: mem_Finalize_ok mem_Finalize_err mem_now)+

subsection \<open>When nothing stands in the way\<close>

text \<open>
  The entropy source works, no context is done, and the lease table holds leases of one owner only.
\<close>

definition mem_ready :: "mem_world \<Rightarrow> bool" where
  "mem_ready w \<longleftrightarrow> (\<forall>n. mw_ctx w n = None) \<and> (\<forall>n. \<exists>buf. mw_rand w n = EntropyRead buf \<and> length buf = 16)"

lemma mem_readyE:
  assumes "mem_ready w"
  obtains buf where "mw_rand w n = EntropyRead buf" and "length buf = 16"
  using assms unfolding mem_ready_def by blast

definition only_owner :: "string \<Rightarrow> resolvedSessionPlan \<times> mem_world \<Rightarrow> bool" where
  "only_owner o' = (\<lambda>(p, w). mem_ready w \<and> plan_owner p = o'
     \<and> (\<forall>t c. store_leases (mw_store w) t = Some c \<longrightarrow> lease_Owner c = o'))"

lemma succeeds_acquireLease:
  "succeeds (only_owner o') (acquireLease (mem_env h ph ttl ivl) mem_session_store target)"
  unfolding succeeds_def
proof (intro allI impI)
  fix s assume P: "only_owner o' s"
  obtain p w where s: "s = (p, w)" by (cases s)
  let ?n = "mw_count w"
  from P s have ready: "mem_ready w" and own: "plan_owner p = o'"
    and leases: "\<forall>t c. store_leases (mw_store w) t = Some c \<longrightarrow> lease_Owner c = o'"
    by (auto simp: only_owner_def)
  from ready obtain buf where rand: "mw_rand w ?n = EntropyRead buf" "length buf = 16"
    by (rule mem_readyE)
  have tok: "newLeaseToken (mw_rand w ?n) = Inr (hexEncode buf)" using rand by (simp add: newLeaseToken_def)
  obtain l st where acq: "AcquireLease None None (mw_clock w ?n) (mw_rand w ?n) (mw_store w) target o' ttl = Inr (l, st)"
  proof (cases "AcquireLease None None (mw_clock w ?n) (mw_rand w ?n) (mw_store w) target o' ttl")
    case (Inl e)
    with leases tok show ?thesis
      by (auto simp: AcquireLease_def Let_def split: option.splits if_splits)
  qed (metis prod.exhaust that)
  then have "\<forall>t c. store_leases st t = Some c \<longrightarrow> lease_Owner c = o'"
    by (rule AcquireLease_cases) (use leases in auto)
  moreover have "mw_ctx w n = None" for n using ready by (simp add: mem_ready_def)
  ultimately show "\<exists>x s'. acquireLease (mem_env h ph ttl ivl) mem_session_store target s = (Inr x, s') \<and> only_owner o' s'"
    using ready own leases acq s
    by (auto simp: acquireLease_def mem_env_def engineStore_def memory_ops_def map_step_def mem_try_def
        only_owner_def mem_ready_def mem_tick_def)
qed

lemma succeeds_newEngineSessionID:
  "succeeds (only_owner o') (in_world (newEngineSessionID (mem_env h ph ttl ivl) dt fp))"
  unfolding succeeds_def
proof (intro allI impI)
  fix s assume P: "only_owner o' s"
  obtain p w where s: "s = (p, w)" by (cases s)
  with P have "mem_ready w" by (simp add: only_owner_def)
  then obtain buf where "mw_rand w (mw_count w) = EntropyRead buf" "length buf = 16"
    by (rule mem_readyE)
  with P s show "\<exists>x s'. in_world (newEngineSessionID (mem_env h ph ttl ivl) dt fp) s = (Inr x, s') \<and> only_owner o' s'"
    by (auto simp: in_world_def newEngineSessionID_def mem_env_def entropy_suffix_def only_owner_def
        mem_ready_def mem_tick_def)
qed

lemma succeeds_set_plan:
  "(\<And>p. plan_owner (f p) = plan_owner p) \<Longrightarrow> succeeds (only_owner o') (set_plan f)"
  by (auto simp: succeeds_def set_plan_def only_owner_def)

lemma succeeds_Resolve: "succeeds (only_owner o') (in_world (Store_Resolve mem_session_store q))"
  by (auto simp: succeeds_def in_world_def mem_Resolve)

lemmas plan_succeeds = succeeds_intros succeeds_acquireLease succeeds_newEngineSessionID succeeds_Resolve

lemma prepareLeased_succeeds:
  assumes "SReq_Mode req = SessionContinueOrStart"
  shows "succeeds (only_owner o') (prepareLeased (mem_env h ph ttl ivl) mem_session_store req identity dt fp)"
  unfolding prepareLeased_def prepareMode_def prepareContinueOrStart_def resolveCurrent_def acquireCurrent_def
    Let_def if_P [OF assms]
  using assms by (auto intro!: plan_succeeds succeeds_set_plan)

lemma prepareSessionPlan_starts:
  assumes "mem_ready w" and "\<forall>t. store_leases (mw_store w) t = None"
    and "SReq_Mode req = SessionContinueOrStart" and "validateSessionRequest req = None"
  shows "\<exists>p w'. prepareSessionPlan (mem_env h ph ttl ivl) (Some mem_session_store) req identity dt fp w = (Inr (Some p), w')"
proof -
  let ?env = "mem_env h ph ttl ivl"
  from assms(1) obtain buf where rand: "mw_rand w (mw_count w) = EntropyRead buf" "length buf = 16"
    by (rule mem_readyE)
  then obtain owner where own: "newLeaseOwner ?env identity dt req w = (Inr owner, mem_tick w)"
    by (simp add: newLeaseOwner_def mem_env_def entropy_suffix_def)
  have "only_owner owner (new_plan req owner, mem_tick w)"
    using assms(1,2) by (simp add: only_owner_def mem_ready_def mem_tick_def new_plan_def)
  from succeedsD [OF prepareLeased_succeeds [OF assms(3)] this] obtain x s' where
    prep: "prepareLeased ?env mem_session_store req identity dt fp (new_plan req owner, mem_tick w) = (Inr x, s')"
    by blast
  have req: "resolveSessionDefaults req = req" using assms(3) by (simp add: resolveSessionDefaults_def)
  from prep own assms(3,4) show ?thesis
    by (cases s') (simp add: prepareSessionPlan_def Let_def req)
qed

end
