(* ===== verification/ThreadHistory.thy ===== *)
theory ThreadHistory
  imports MessageHub
begin

text \<open>
  \<^verbatim>\<open>thread_continuity.go\<close>: the guidance and the recent turns a thread record carries from one
  execution to the next, kept within a byte budget. The text of a turn's result is a parameter,
  because results are handles in the model of the hub.
\<close>

subsection \<open>Bounded texts\<close>

definition threadHistoryBudget :: int where
  "threadHistoryBudget = 8 * 1024 - 256"

text \<open>\<^verbatim>\<open>utf8.RuneStart\<close>: any byte but a continuation byte\<close>

definition RuneStart :: "char \<Rightarrow> bool" where
  "RuneStart c \<longleftrightarrow> \<not> (0x80 \<le> (of_char c :: nat) \<and> (of_char c :: nat) < 0xC0)"

definition fit_text :: "int \<Rightarrow> string \<Rightarrow> string" where
  "fit_text budget t = (if budget < int (length t)
     then dropWhile (\<lambda>c. \<not> RuneStart c) (drop (length t - nat budget) t) else t)"

text \<open>The loop from the newest text backwards; its result is newest first.\<close>

fun newest_texts :: "string list \<Rightarrow> int \<Rightarrow> string list" where
  "newest_texts [] budget = []"
| "newest_texts (t # older) budget =
     (if budget \<le> 0 then []
      else let t' = fit_text budget t in
        if t' \<noteq> '''' then t' # newest_texts older (budget - (int (length t') + 2))
        else newest_texts older budget)"

definition boundedThreadTexts :: "string list \<Rightarrow> int \<Rightarrow> nat \<Rightarrow> string list" where
  "boundedThreadTexts texts budget cnt =
     (let texts = (if cnt < length texts then drop (length texts - cnt) texts else texts)
      in rev (newest_texts (rev texts) budget))"

subsection \<open>Updating the record\<close>

record threadRunState =
  trs_record :: "Record option"
  trs_turns :: nat
  trs_guidance :: "string list"

definition guidance_item :: "hubItem \<Rightarrow> string list \<Rightarrow> bool" where
  "guidance_item it seen \<longleftrightarrow> Out_State (item_out it) = MessageDelivered
     \<and> Out_Mechanism (item_out it) \<noteq> ''core.prompt'' \<and> Out_Mechanism (item_out it) \<noteq> ''core.dedupe''
     \<and> Out_ID (item_out it) \<notin> set seen"

definition hasUnstoredThreadGuidance :: "messageHub \<Rightarrow> threadRunState \<Rightarrow> bool" where
  "hasUnstoredThreadGuidance h st \<longleftrightarrow> \<not> Cap_PersistsDelivered (hub_cap h)
     \<and> list_ex (\<lambda>i. guidance_item (hub_heap h i) (trs_guidance st)) (hub_items h)"

text \<open>The loop that appends delivered guidance and marks it as stored.\<close>

fun append_guidance :: "messageHub \<Rightarrow> nat list \<Rightarrow> string list \<times> string list \<Rightarrow> string list \<times> string list" where
  "append_guidance h [] acc = acc"
| "append_guidance h (i # is) (earlier, seen) = append_guidance h is
     (if guidance_item (hub_heap h i) seen
      then (earlier @ [item_framed (hub_heap h i)], Out_ID (item_out (hub_heap h i)) # seen) else (earlier, seen))"

definition guidance_budget :: int where "guidance_budget = go_div threadHistoryBudget 2"
definition turns_budget :: int where "turns_budget = threadHistoryBudget - go_div threadHistoryBudget 2"

definition updateHistory ::
  "(nat \<Rightarrow> string) \<Rightarrow> messageHub option \<Rightarrow> threadRunState \<Rightarrow> Record \<Rightarrow> Record \<times> threadRunState" where
  "updateHistory result_text hub st record =
     (let record1 = (case trs_record st of None \<Rightarrow> record | Some previous \<Rightarrow>
            record\<lparr>Record_EarlierGuidance := Record_EarlierGuidance previous, Record_RecentTurns := Record_RecentTurns previous\<rparr>)
      in case hub of None \<Rightarrow> (record1, st) | Some h \<Rightarrow>
        let (earlier, seen) = (if Cap_PersistsDelivered (hub_cap h) then (Record_EarlierGuidance record1, trs_guidance st)
               else append_guidance h (hub_items h) (Record_EarlierGuidance record1, trs_guidance st));
            recent = Record_RecentTurns record1 @ map result_text (drop (trs_turns st) (hub_turns h))
        in (record1\<lparr>Record_EarlierGuidance := boundedThreadTexts earlier guidance_budget 1000,
                    Record_RecentTurns := boundedThreadTexts recent turns_budget 3\<rparr>,
            st\<lparr>trs_guidance := seen, trs_turns := length (hub_turns h)\<rparr>))"

subsection \<open>The preamble of the next execution\<close>

abbreviation join_texts :: "string list \<Rightarrow> string" where
  "join_texts \<equiv> join_with newline2"

definition guidance_header :: string where
  "guidance_header = ''Earlier guidance (retain its author and authority; do not acknowledge separately):'' @ [char_of (10 :: nat)]"

definition turns_header :: string where
  "turns_header = ''Recent assistant turns before this fresh session:'' @ [char_of (10 :: nat)]"

definition threadContinuityPreamble :: "Record option \<Rightarrow> bool \<Rightarrow> string" where
  "threadContinuityPreamble rec fresh =
     (case rec of None \<Rightarrow> '''' | Some r \<Rightarrow>
      let sections =
            (if Record_EarlierGuidance r \<noteq> []
             then [guidance_header @ join_texts (boundedThreadTexts (Record_EarlierGuidance r) guidance_budget 1000)] else [])
            @ (if fresh \<and> Record_RecentTurns r \<noteq> []
               then [turns_header @ join_texts (boundedThreadTexts (Record_RecentTurns r) turns_budget 3)] else [])
      in if sections = [] then '''' else join_texts sections @ newline2)"

subsection \<open>The budget holds\<close>

text \<open>The size of texts joined by blank lines.\<close>

definition joined_size :: "string list \<Rightarrow> int" where
  "joined_size ts = sum_list (map (\<lambda>t. int (length t)) ts) + 2 * int (length ts - 1)"

lemma length_newline2 [simp]: "length newline2 = 2"
  by (simp add: newline2_def)

lemma length_join_texts: "int (length (join_texts ts)) = joined_size ts"
  by (induction newline2 ts rule: join_with.induct) (auto simp: joined_size_def)

lemma joined_size_rev [simp]: "joined_size (rev ts) = joined_size ts"
  by (simp add: joined_size_def sum_list_rev flip: rev_map)

lemma joined_size_Cons: "joined_size (t # ts) = int (length t) + (if ts = [] then 0 else 2 + joined_size ts)"
  by (cases ts) (simp_all add: joined_size_def)

lemma fit_text_fits: "0 < budget \<Longrightarrow> int (length (fit_text budget t)) \<le> budget"
  using length_dropWhile_le[of "\<lambda>c. \<not> RuneStart c" "drop (length t - nat budget) t"] by (auto simp: fit_text_def)

lemma fit_text_id [simp]: "int (length t) \<le> budget \<Longrightarrow> fit_text budget t = t"
  by (simp add: fit_text_def)

lemma newest_texts_nonempty: "'''' \<notin> set (newest_texts ts budget)"
  by (induction ts budget rule: newest_texts.induct) (auto simp: Let_def)

lemma newest_texts_bound: "0 \<le> budget \<Longrightarrow> joined_size (newest_texts ts budget) \<le> budget"
proof (induction ts budget rule: newest_texts.induct)
  case (2 t older budget)
  let ?t = "fit_text budget t" and ?b = "budget - (int (length (fit_text budget t)) + 2)"
  show ?case
  proof (cases "budget \<le> 0")
    case False
    then have len: "int (length ?t) \<le> budget" using fit_text_fits by simp
    have IH: "0 \<le> ?b \<Longrightarrow> joined_size (newest_texts older ?b) \<le> ?b" if "?t \<noteq> ''''" using 2(1) False that by blast
    have "newest_texts older ?b = []" if "?b < 0" using that by (cases older) simp_all
    then show ?thesis using 2 False len IH by (fastforce simp: Let_def joined_size_Cons)
  qed (use 2 in \<open>simp add: joined_size_def\<close>)
qed (simp add: joined_size_def)

lemma length_newest_texts: "length (newest_texts ts budget) \<le> length ts"
  by (induction ts budget rule: newest_texts.induct) (auto simp: Let_def)

lemma newest_texts_all: "\<lbrakk>joined_size ts \<le> budget; '''' \<notin> set ts\<rbrakk> \<Longrightarrow> newest_texts ts budget = ts"
proof (induction ts budget rule: newest_texts.induct)
  case (2 t older budget)
  have "0 \<le> joined_size older" by (simp flip: length_join_texts)
  moreover have "0 < int (length t)" using 2(4) by (cases t) auto
  moreover have "int (length t) + (if older = [] then 0 else 2 + joined_size older) \<le> budget" using 2(3) unfolding joined_size_Cons .
  ultimately have "int (length t) \<le> budget \<and> 0 < budget \<and> (older \<noteq> [] \<longrightarrow> joined_size older \<le> budget - (int (length t) + 2))"
    by (auto split: if_splits simp del: length_greater_0_conv of_nat_0_less_iff)
  then show ?case using 2 by (cases "older = []") (auto simp: Let_def)
qed simp

lemma bounded_facts:
  assumes "0 \<le> budget"
  shows "joined_size (boundedThreadTexts texts budget cnt) \<le> budget" "length (boundedThreadTexts texts budget cnt) \<le> cnt"
    "'''' \<notin> set (boundedThreadTexts texts budget cnt)"
proof -
  let ?ts = "rev (if cnt < length texts then drop (length texts - cnt) texts else texts)"
  have "length ?ts \<le> cnt" by simp
  then show "length (boundedThreadTexts texts budget cnt) \<le> cnt"
    using le_trans[OF length_newest_texts[of ?ts budget]] unfolding boundedThreadTexts_def Let_def by simp
  show "joined_size (boundedThreadTexts texts budget cnt) \<le> budget"
    unfolding boundedThreadTexts_def Let_def joined_size_rev by (rule newest_texts_bound[OF assms])
  show "'''' \<notin> set (boundedThreadTexts texts budget cnt)"
    unfolding boundedThreadTexts_def Let_def set_rev by (rule newest_texts_nonempty)
qed

lemma bounded_all:
  "\<lbrakk>joined_size ts \<le> budget; '''' \<notin> set ts; length ts \<le> cnt\<rbrakk> \<Longrightarrow> boundedThreadTexts ts budget cnt = ts"
  using newest_texts_all[of "rev ts" budget] by (simp add: boundedThreadTexts_def)

lemma budgets [simp]: "guidance_budget = 3968" "turns_budget = 3968"
  by (simp_all add: guidance_budget_def turns_budget_def threadHistoryBudget_def)

lemma header_lengths [simp]: "length guidance_header = 83" "length turns_header = 50"
  by (simp_all add: guidance_header_def turns_header_def)

lemma newest_kept:
  assumes "t \<noteq> ''''" "int (length t) \<le> budget" "0 < cnt"
  shows "\<exists>older. boundedThreadTexts (texts @ [t]) budget cnt = older @ [t]"
proof -
  let ?ts = "if cnt < length (texts @ [t]) then drop (length (texts @ [t]) - cnt) (texts @ [t]) else texts @ [t]"
  obtain xs where xs: "?ts = xs @ [t]" using assms(3) by (cases "cnt < length (texts @ [t])") auto
  have "0 < int (length t)" using assms(1) by simp
  then have "\<not> budget \<le> 0" using assms(2) by linarith
  then have "newest_texts (rev ?ts) budget = t # newest_texts (rev xs) (budget - (int (length t) + 2))"
    unfolding xs using assms(1,2) by (simp add: Let_def)
  then show ?thesis unfolding boundedThreadTexts_def Let_def by simp
qed

lemma preamble_size: "int (length (threadContinuityPreamble rec fresh)) \<le> 8 * 1024"
proof (cases rec)
  case (Some r)
  have "joined_size (boundedThreadTexts xs 3968 n) \<le> 3968" for xs n using bounded_facts(1)[of 3968] by simp
  then have "int (length (join_texts (boundedThreadTexts xs 3968 n))) \<le> 3968" for xs n by (simp add: length_join_texts)
  from this[of "Record_EarlierGuidance r" 1000] this[of "Record_RecentTurns r" 3] show ?thesis
    by (simp add: threadContinuityPreamble_def Some Let_def)
qed (simp add: threadContinuityPreamble_def)

text \<open>
  What a record may make of a list of texts, oldest first: within the limits, nothing empty, the
  newest text whole if it fits, and the newest \<open>cnt\<close> texts exactly if they fit together.
\<close>

definition carried :: "int \<Rightarrow> nat \<Rightarrow> string list \<Rightarrow> string list \<Rightarrow> bool" where
  "carried budget cnt texts kept \<longleftrightarrow>
     length kept \<le> cnt \<and> joined_size kept \<le> budget \<and> '''' \<notin> set kept
     \<and> (texts \<noteq> [] \<and> last texts \<noteq> '''' \<and> int (length (last texts)) \<le> budget \<longrightarrow> kept \<noteq> [] \<and> last kept = last texts)
     \<and> ('''' \<notin> set (drop (length texts - cnt) texts) \<and> joined_size (drop (length texts - cnt) texts) \<le> budget
          \<longrightarrow> kept = drop (length texts - cnt) texts)"

lemma bounded_carried:
  assumes "0 \<le> budget" and "0 < cnt"
  shows "carried budget cnt texts (boundedThreadTexts texts budget cnt)"
proof -
  have new: "boundedThreadTexts texts budget cnt \<noteq> [] \<and> last (boundedThreadTexts texts budget cnt) = last texts"
    if "texts \<noteq> []" "last texts \<noteq> ''''" "int (length (last texts)) \<le> budget"
    using newest_kept[OF that(2,3) assms(2), of "butlast texts"] that(1) by auto
  have "boundedThreadTexts texts budget cnt = boundedThreadTexts (drop (length texts - cnt) texts) budget cnt"
    by (simp add: boundedThreadTexts_def)
  then have "boundedThreadTexts texts budget cnt = drop (length texts - cnt) texts"
    if "'''' \<notin> set (drop (length texts - cnt) texts)" "joined_size (drop (length texts - cnt) texts) \<le> budget"
    using bounded_all[OF that(2,1), of cnt] by simp
  with new show ?thesis unfolding carried_def using bounded_facts[OF assms(1), of texts cnt] by blast
qed

lemma append_guidance_filter:
  assumes "distinct (map (\<lambda>i. Out_ID (item_out (hub_heap h i))) is)"
  shows "fst (append_guidance h is (earlier, seen))
    = earlier @ map (\<lambda>i. item_framed (hub_heap h i)) (filter (\<lambda>i. guidance_item (hub_heap h i) seen) is)"
  using assms
proof (induction "is" arbitrary: earlier seen)
  case (Cons i "is")
  let ?id = "\<lambda>i. Out_ID (item_out (hub_heap h i))"
  have "filter (\<lambda>j. guidance_item (hub_heap h j) (?id i # seen)) is = filter (\<lambda>j. guidance_item (hub_heap h j) seen) is"
    using Cons.prems by (intro filter_cong) (auto simp: guidance_item_def image_iff)
  with Cons show ?case by simp
qed simp


text \<open>Two turns completed since the record was last written.\<close>

definition sample_history_hub :: messageHub where
  "sample_history_hub = (newMessageHub (\<lambda>_. None) ''r'' zero_MessagePolicy
     \<lparr>Cap_Boundaries = [], Cap_Interrupt = False, Cap_Continue = ContinueInRun, Cap_MaxUnits = 0, Cap_Unit = '''',
      Cap_ConfirmedDelivery = True, Cap_PersistsDelivered = True, Cap_MinVersion = ''''\<rparr> True)\<lparr>hub_turns := [7, 8]\<rparr>"

definition sample_history_record :: Record where
  "sample_history_record = \<lparr>Record_EarlierGuidance = [], Record_RecentTurns = [], Record_DeliveredMessages = [], Record_ID = ''i'',
     Record_Key = ''k'', Record_Status = StatusActive, Record_DriverType = '''',
     Record_Agent = \<lparr>Agent_ID = '''', Agent_TenantID = '''', Agent_ProfileID = '''', Agent_Name = ''''\<rparr>,
     Record_Fingerprint = '''', Record_CompatibilityFingerprint = '''', Record_SessionCodec = '''', Record_State = None,
     Record_CreatedAt = 0, Record_UpdatedAt = 0\<rparr>"

definition sample_history :: "Record \<times> threadRunState" where
  "sample_history = updateHistory (\<lambda>i. if i = 7 then ''a'' else ''bc'') (Some sample_history_hub)
     \<lparr>trs_record = None, trs_turns = 0, trs_guidance = []\<rparr> sample_history_record"


end
