(* ===== verification/ThreadRuntime.thy ===== *)
theory ThreadRuntime
  imports ThreadStoreEngine ThreadHistory
begin

text \<open>
  \<^verbatim>\<open>thread_runtime.go\<close>: what an agent keeps per thread key: the ownership lease between executions,
  the newest checkpoint that could not be stored yet, and the two recovery loops that store it later.
  The full adapter of \<^verbatim>\<open>threadstore_engine.go\<close> goes through it. The mutex makes each locked section
  one function. The store, its clock and its callers' contexts are an arbitrary world, so whatever
  other clients do between two store calls is part of that world. An owner context is known by the
  run ID registered for it; contexts, timers and bounded waits of a call are arguments.
\<close>

subsection \<open>State\<close>

datatype RtError =
    RtThreadBusy
  | RtAgentClosed
  | RtLeaseLost "RtError option"
  | RtStore StoreError
  | RtSession SessionError
  | RtContext CtxErr
  | RtEntropy string
  | RtJoin RtError RtError

record threadRuntime =
  rt_key :: string
  rt_task :: bool
  rt_standby :: bool
  rt_executing :: bool
  rt_owner :: "resolvedSessionPlan option"
  rt_ownerDone :: bool
  rt_ownerID :: string
  rt_stopExecution :: bool
  rt_pending :: "FinalizeRequest option"
  rt_durableID :: string
  rt_durableVersion :: string
  rt_pendingNeedsValidation :: bool
  rt_recoveryID :: string
  rt_wake :: bool
  rt_ownershipErr :: "RtError option"

definition new_threadRuntime :: "string \<Rightarrow> threadRuntime" where
  "new_threadRuntime key = \<lparr>rt_key = key, rt_task = False, rt_standby = False, rt_executing = False, rt_owner = None,
     rt_ownerDone = False, rt_ownerID = '''', rt_stopExecution = False, rt_pending = None, rt_durableID = '''',
     rt_durableVersion = '''', rt_pendingNeedsValidation = False, rt_recoveryID = '''', rt_wake = False, rt_ownershipErr = None\<rparr>"

text \<open>
  The runtime with the parts of the agent it uses (\<^verbatim>\<open>closeStarted\<close>, \<^verbatim>\<open>activeRuns\<close>), the world, and the
  notices it pushes. \<open>rs_writes\<close> records every request handed to the store's \<^verbatim>\<open>Finalize\<close> with
  the store's answer.
\<close>

record 'b rstate =
  rs_rt :: threadRuntime
  rs_world :: 'b
  rs_closed :: bool
  rs_runs :: "string list"
  rs_writes :: "(FinalizeRequest \<times> StoreError option) list"
  rs_pushed :: "event_body list"

text \<open>
  \<open>re_hash\<close> is \<^verbatim>\<open>engine.StableHash\<close> of a record pointer, \<open>re_runEntropy\<close> what the entropy source gives for
  a run ID.
\<close>

record 'b rt_env =
  re_ops :: "'b StoreOps"
  re_senv :: "'b session_env"
  re_hash :: "Record option \<Rightarrow> string"
  re_runEntropy :: "'b \<Rightarrow> entropy \<times> 'b"
  re_driverType :: string

definition upd_rt :: "(threadRuntime \<Rightarrow> threadRuntime) \<Rightarrow> 'b rstate \<Rightarrow> 'b rstate" where
  "upd_rt f s = s\<lparr>rs_rt := f (rs_rt s)\<rparr>"

definition on_store :: "('b \<Rightarrow> 'r \<times> 'b) \<Rightarrow> 'b rstate \<Rightarrow> 'r \<times> 'b rstate" where
  "on_store m s = (case m (rs_world s) of (r, w) \<Rightarrow> (r, s\<lparr>rs_world := w\<rparr>))"

definition rt_signal :: "'b rstate \<Rightarrow> 'b rstate" where
  "rt_signal = upd_rt (\<lambda>r. r\<lparr>rt_wake := True\<rparr>)"

definition rt_lost :: "RtError option \<Rightarrow> 'b rstate \<Rightarrow> 'b rstate" where
  "rt_lost cause = upd_rt (\<lambda>r. r\<lparr>rt_ownershipErr := Some (RtLeaseLost cause)\<rparr>)"

definition rt_ownerCancel :: "'b rstate \<Rightarrow> 'b rstate" where
  "rt_ownerCancel = upd_rt (\<lambda>r. r\<lparr>rt_ownerDone := True\<rparr>)"

definition rt_newRunID :: "'b rt_env \<Rightarrow> 'b rstate \<Rightarrow> (string + string) \<times> 'b rstate" where
  "rt_newRunID env s = (case on_store (re_runEntropy env) s of (ent, s') \<Rightarrow> (newRunID ent, s'))"

definition registerRun :: "string \<Rightarrow> 'b rstate \<Rightarrow> RtError option \<times> 'b rstate" where
  "registerRun k s = (if rs_closed s then (Some RtAgentClosed, s) else (None, s\<lparr>rs_runs := k # removeAll k (rs_runs s)\<rparr>))"

definition unregisterRun :: "string \<Rightarrow> 'b rstate \<Rightarrow> 'b rstate" where
  "unregisterRun k s = s\<lparr>rs_runs := removeAll k (rs_runs s)\<rparr>"

definition reserveTask :: "'b rstate \<Rightarrow> RtError option \<times> 'b rstate" where
  "reserveTask s = (if rt_task (rs_rt s) \<or> rt_standby (rs_rt s) then (Some RtThreadBusy, s)
     else (None, upd_rt (\<lambda>r. r\<lparr>rt_task := True\<rparr>) s))"

subsection \<open>Ownership\<close>

text \<open>
  A digest of no record equal to the pending record's would make Go dereference nil; the identifier is
  empty in that case.
\<close>

definition validatePendingLocked :: "'b rt_env \<Rightarrow> 'b rstate \<Rightarrow> RtError option \<times> 'b rstate" where
  "validatePendingLocked env s =
     (case rt_pending (rs_rt s) of
        None \<Rightarrow> (None, upd_rt (\<lambda>r. r\<lparr>rt_pendingNeedsValidation := False\<rparr>) s)
      | Some p \<Rightarrow>
          (case on_store (ops_Resolve (re_ops env) (by_key (rt_key (rs_rt s)))) s of
             (Inl e, s1) \<Rightarrow> (Some (RtStore e), s1)
           | (Inr rec, s1) \<Rightarrow>
               let version = re_hash env rec in
               if version = re_hash env (Some (Finalize_Record p))
               then (None, upd_rt (\<lambda>r. r\<lparr>rt_pending := None, rt_durableID := (case rec of None \<Rightarrow> '''' | Some x \<Rightarrow> Record_ID x),
                       rt_durableVersion := version, rt_pendingNeedsValidation := False\<rparr>) s1)
               else if version \<noteq> rt_durableVersion (rs_rt s1) then (Some (RtLeaseLost None), rt_lost None s1)
               else (None, upd_rt (\<lambda>r. r\<lparr>rt_pendingNeedsValidation := False\<rparr>) s1)))"

definition rt_release_plan :: "'b rt_env \<Rightarrow> resolvedSessionPlan \<Rightarrow> 'b rstate \<Rightarrow> SessionError option \<times> 'b rstate" where
  "rt_release_plan env p = on_store (\<lambda>w. case releaseContext (engineStore (re_ops env)) (p, w) of (err, (_, w')) \<Rightarrow> (err, w'))"

definition acquireLocked :: "'b rt_env \<Rightarrow> 'b rstate \<Rightarrow> RtError option \<times> 'b rstate" where
  "acquireLocked env s =
     (case rt_ownershipErr (rs_rt s) of Some e \<Rightarrow> (Some e, s) | None \<Rightarrow>
      if rt_owner (rs_rt s) \<noteq> None then (if rt_ownerDone (rs_rt s) then (Some (RtLeaseLost None), s) else (None, s))
      else case rt_newRunID env s of (Inl msg, s1) \<Rightarrow> (Some (RtEntropy msg), s1) | (Inr rid, s1) \<Rightarrow>
      case registerRun rid s1 of (Some e, s2) \<Rightarrow> (Some e, s2) | (None, s2) \<Rightarrow>
      case on_store (AcquireThreadOwnership (re_senv env) (Some (engineStore (re_ops env))) threadNamespace (rt_key (rs_rt s2))
             (re_driverType env)) s2 of
        (Inl e, s3) \<Rightarrow> (Some (RtSession e), unregisterRun rid s3)
      | (Inr owner, s3) \<Rightarrow>
          (case (if rt_pendingNeedsValidation (rs_rt s3) then validatePendingLocked env s3 else (None, s3)) of
             (Some e, s4) \<Rightarrow>
               (case rt_release_plan env owner s4 of (rel, s5) \<Rightarrow>
                  (Some (case rel of None \<Rightarrow> e | Some x \<Rightarrow> RtJoin e (RtSession x)), unregisterRun rid s5))
           | (None, s4) \<Rightarrow>
               (None, upd_rt (\<lambda>r. r\<lparr>rt_owner := Some (owner\<lparr>plan_renewing := True\<rparr>), rt_ownerDone := False, rt_ownerID := rid\<rparr>) s4)))"

definition releaseLocked :: "'b rt_env \<Rightarrow> 'b rstate \<Rightarrow> SessionError option \<times> 'b rstate" where
  "releaseLocked env s =
     (case rt_owner (rs_rt s) of None \<Rightarrow> (None, s) | Some owner \<Rightarrow>
      case rt_release_plan env owner (rt_ownerCancel s) of (err, s1) \<Rightarrow>
        let s2 = upd_rt (\<lambda>r. r\<lparr>rt_owner := None,
                   rt_pendingNeedsValidation := (rt_pending r \<noteq> None \<or> rt_pendingNeedsValidation r)\<rparr>)
                   (unregisterRun (rt_ownerID (rs_rt s1)) s1)
        in (err, case err of None \<Rightarrow> s2 | Some e \<Rightarrow> rt_lost (Some (RtSession e)) s2))"

definition own_lease :: "threadRuntime \<Rightarrow> Lease" where
  "own_lease r = (case rt_owner r of None \<Rightarrow> \<lparr>Lease_Target = '''', Lease_Owner = '''', Lease_Token = ''''\<rparr>
     | Some p \<Rightarrow> store_lease (OwnershipLease p))"

subsection \<open>Flushing the pending checkpoint\<close>

fun flush_acquire ::
  "'b rt_env \<Rightarrow> string \<Rightarrow> string list \<Rightarrow> Lease list \<Rightarrow> Lease list \<Rightarrow> 'b rstate \<Rightarrow> (StoreError option \<times> Lease list) \<times> 'b rstate" where
  "flush_acquire env owner seen [] acquired s = ((None, acquired), s)"
| "flush_acquire env owner seen (old # leases) acquired s =
     (if Lease_Target old \<in> set seen then flush_acquire env owner seen leases acquired s
      else case on_store (ops_AcquireLease (re_ops env) (Lease_Target old) owner (env_LeaseTTL (re_senv env))) s of
        (Inl e, s') \<Rightarrow> ((Some e, acquired), s')
      | (Inr lease, s') \<Rightarrow> flush_acquire env owner (Lease_Target old # seen) leases (acquired @ [lease]) s')"

text \<open>
  The deferred release of the recovery's own leases. Each call is bounded: it may be abandoned, with the
  error of its context.
\<close>

type_synonym call_timing = "nat \<Rightarrow> hook_timing \<times> StoreError"

definition bounded_store_call ::
  "hook_timing \<times> StoreError \<Rightarrow> ('b, StoreError, unit) step \<Rightarrow> 'b rstate \<Rightarrow> (StoreError option \<times> bool) \<times> 'b rstate" where
  "bounded_store_call timing m s =
     (if fst timing = Abandoned then ((Some (snd timing), False), s)
      else case on_store m s of (r, s') \<Rightarrow> ((case r of Inl e \<Rightarrow> Some e | Inr _ \<Rightarrow> None, True), s'))"

fun flush_release :: "'b rt_env \<Rightarrow> call_timing \<Rightarrow> Lease list \<Rightarrow> 'b rstate \<Rightarrow> 'b rstate" where
  "flush_release env ts [] s = s"
| "flush_release env ts (lease # leases) s =
     (case bounded_store_call (ts (length leases)) (ops_ReleaseLease (re_ops env) lease) s of
        ((None, _), s') \<Rightarrow> flush_release env ts leases s'
      | ((Some e, _), s') \<Rightarrow> flush_release env ts leases (rt_ownerCancel (rt_lost (Some (RtStore e)) s')))"

definition flush_request :: "Lease \<Rightarrow> Lease list \<Rightarrow> FinalizeRequest \<Rightarrow> FinalizeRequest" where
  "flush_request own acquired p = p\<lparr>Finalize_HeldLeases := own # acquired\<rparr>"

definition rt_Finalize_call :: "'b rt_env \<Rightarrow> FinalizeRequest \<Rightarrow> 'b rstate \<Rightarrow> StoreError option \<times> 'b rstate" where
  "rt_Finalize_call env req s =
     (case on_store (ops_Finalize (re_ops env) req) s of (r, s') \<Rightarrow>
      let err = (case r of Inl e \<Rightarrow> Some e | Inr _ \<Rightarrow> None)
      in (err, s'\<lparr>rs_writes := rs_writes s' @ [(req, err)]\<rparr>))"

definition flushLocked ::
  "'b rt_env \<Rightarrow> call_timing \<Rightarrow> 'b rstate \<Rightarrow> StoreError option \<times> 'b rstate" where
  "flushLocked env ts s =
     (case rt_pending (rs_rt s) of None \<Rightarrow> (None, s) | Some p \<Rightarrow>
      let own = own_lease (rs_rt s) in
      case flush_acquire env (Lease_Owner own) [Lease_Target own] (Finalize_HeldLeases p) [] s of
        ((Some e, acquired), s1) \<Rightarrow> (Some e, flush_release env ts (rev acquired) s1)
      | ((None, acquired), s1) \<Rightarrow>
          (let req = flush_request own acquired p in
           case rt_Finalize_call env req s1 of
             (Some e, s2) \<Rightarrow> (Some e, flush_release env ts (rev acquired) s2)
           | (None, s2) \<Rightarrow>
               (None, flush_release env ts (rev acquired)
                  (upd_rt (\<lambda>r. r\<lparr>rt_pending := None, rt_durableID := Record_ID (Finalize_Record req),
                     rt_durableVersion := re_hash env (Some (Finalize_Record req))\<rparr>) s2))))"

abbreviation (input) is_lease_lost :: "StoreError \<Rightarrow> bool" where
  "is_lease_lost e \<equiv> StoreError_Unwrap e = Some ErrLeaseLost"

subsection \<open>Executions\<close>

definition rt_push :: "string \<Rightarrow> string \<Rightarrow> 'b rstate \<Rightarrow> 'b rstate" where
  "rt_push kind txt s = s\<lparr>rs_pushed := rs_pushed s @ [plain_notice kind txt []]\<rparr>"

fun StoreError_text :: "StoreError \<Rightarrow> string" where
  "StoreError_text (BusyError target) = BusyError_Error target"
| "StoreError_text (LeaseLostError target) = LeaseLostError_Error target"
| "StoreError_text (AlreadyExistsError key) = AlreadyExistsError_Error key"
| "StoreError_text (ContextError Canceled) = ''context canceled''"
| "StoreError_text (ContextError DeadlineExceeded) = ''context deadline exceeded''"
| "StoreError_text (BackendError msg) = msg"

text \<open>
  \<^verbatim>\<open>begin\<close>: \<open>renewal\<close> says how the bounded renewal of an inherited lease ends and \<open>ctx_after\<close> what the
  caller's context says afterwards.
\<close>

definition begin_flush :: "'b rt_env \<Rightarrow> call_timing \<Rightarrow> 'b rstate \<Rightarrow> RtError option \<times> 'b rstate" where
  "begin_flush env ts s =
     (case flushLocked env ts s of
        (None, s') \<Rightarrow> (None, s')
      | (Some e, s') \<Rightarrow> if is_lease_lost e then (Some (RtStore e), s')
          else (None, rt_push ''thread.persistence''
                 (''Checkpoint storage is unavailable; continuing from the in-process checkpoint: '' @ StoreError_text e) s'))"

definition rt_begin ::
  "'b rt_env \<Rightarrow> call_timing \<Rightarrow> hook_timing \<times> StoreError \<Rightarrow> CtxErr option \<Rightarrow> 'b rstate \<Rightarrow> RtError option \<times> 'b rstate" where
  "rt_begin env ts renewal ctx_after s =
     (let inherited = (rt_owner (rs_rt s) \<noteq> None) in
      case acquireLocked env s of (Some e, s1) \<Rightarrow> (Some e, s1) | (None, s1) \<Rightarrow>
      let s2 = upd_rt (\<lambda>r. r\<lparr>rt_executing := True, rt_stopExecution := True\<rparr>) s1 in
      if \<not> inherited then begin_flush env ts s2
      else case bounded_store_call renewal
                  (ops_RenewLease (re_ops env) (own_lease (rs_rt s2)) (env_LeaseTTL (re_senv env))) s2 of
        ((None, _), s3) \<Rightarrow> begin_flush env ts s3
      | ((Some e, completed), s3) \<Rightarrow>
          (case (if completed then ctx_after else None) of
             Some c \<Rightarrow> (Some (RtContext c), s3)
           | None \<Rightarrow> (Some (RtLeaseLost (Some (RtStore e))), rt_ownerCancel (rt_lost (Some (RtStore e)) s3))))"

definition rt_end :: "'b rt_env \<Rightarrow> bool \<Rightarrow> 'b rstate \<Rightarrow> SessionError option \<times> 'b rstate" where
  "rt_end env task s =
     (let s1 = rt_signal (upd_rt (\<lambda>r. r\<lparr>rt_executing := False, rt_task := (rt_task r \<and> \<not> task), rt_stopExecution := False\<rparr>) s) in
      if \<not> rt_standby (rs_rt s1) \<and> rt_pending (rs_rt s1) = None then releaseLocked env s1 else (None, s1))"

definition verifyOwnership :: "'b rstate \<Rightarrow> RtError option \<times> 'b rstate" where
  "verifyOwnership s =
     (case rt_owner (rs_rt s) of None \<Rightarrow> (None, s) | Some p \<Rightarrow>
      case plan_renewErr p of
        Some e \<Rightarrow> (Some (RtLeaseLost (Some (RtSession e))),
          rt_ownerCancel (rt_lost (Some (RtSession e)) (upd_rt (\<lambda>r. r\<lparr>rt_owner := Some (p\<lparr>plan_renewing := False\<rparr>)\<rparr>) s)))
      | None \<Rightarrow>
          if rt_ownerDone (rs_rt s)
          then (Some (RtLeaseLost None), upd_rt (\<lambda>r. r\<lparr>rt_owner := Some (p\<lparr>plan_renewing := False\<rparr>)\<rparr>) s)
          else (None, upd_rt (\<lambda>r. r\<lparr>rt_owner := Some (p\<lparr>plan_renewing := True\<rparr>)\<rparr>) s))"

subsection \<open>Recovery\<close>

definition startReleasedRecoveryLocked :: "'b rt_env \<Rightarrow> 'b rstate \<Rightarrow> RtError option \<times> 'b rstate" where
  "startReleasedRecoveryLocked env s =
     (if rt_pending (rs_rt s) = None \<or> rt_recoveryID (rs_rt s) \<noteq> '''' \<or> rt_ownershipErr (rs_rt s) \<noteq> None then (None, s)
      else case rt_newRunID env s of (Inl msg, s1) \<Rightarrow> (Some (RtEntropy msg), s1) | (Inr rid, s1) \<Rightarrow>
      case registerRun rid s1 of (Some e, s2) \<Rightarrow> (Some e, s2)
      | (None, s2) \<Rightarrow> (None, upd_rt (\<lambda>r. r\<lparr>rt_recoveryID := rid\<rparr>) s2))"

text \<open>The deferred function when a recovery without ownership ends; \<open>ctx_done\<close> is its own context.\<close>

definition released_exit :: "'b rt_env \<Rightarrow> bool \<Rightarrow> string \<Rightarrow> 'b rstate \<Rightarrow> 'b rstate" where
  "released_exit env ctx_done rid s =
     (let s1 = upd_rt (\<lambda>r. if rt_recoveryID r = rid then r\<lparr>rt_recoveryID := ''''\<rparr> else r) s;
          s2 = (if rt_owner (rs_rt s1) = None \<and> rt_pending (rs_rt s1) \<noteq> None \<and> rt_ownershipErr (rs_rt s1) = None \<and> \<not> ctx_done
                then case startReleasedRecoveryLocked env s1 of
                  (None, s') \<Rightarrow> s'
                | (Some e, s') \<Rightarrow> if e = RtAgentClosed then s' else upd_rt (\<lambda>r. r\<lparr>rt_ownershipErr := Some e\<rparr>) s'
                else s1)
      in unregisterRun rid s2)"

text \<open>One attempt of \<^verbatim>\<open>recoverReleasedPersistence\<close> after its timer; the result says whether the loop ends.\<close>

definition released_attempt :: "'b rt_env \<Rightarrow> call_timing \<Rightarrow> 'b rstate \<Rightarrow> bool \<times> 'b rstate" where
  "released_attempt env ts s =
     (if rt_owner (rs_rt s) \<noteq> None \<or> rt_pending (rs_rt s) = None \<or> rt_ownershipErr (rs_rt s) \<noteq> None then (True, s)
      else
        let s' = (case acquireLocked env s of
                    (Some _, s1) \<Rightarrow> s1
                  | (None, s1) \<Rightarrow>
                      (case flushLocked env ts s1 of (err, s2) \<Rightarrow>
                       let s3 = (case err of None \<Rightarrow> s2 | Some e \<Rightarrow> if is_lease_lost e then rt_lost None s2 else s2)
                       in snd (releaseLocked env s3)))
        in (rt_pending (rs_rt s') = None \<or> rt_ownershipErr (rs_rt s') \<noteq> None, s'))"

text \<open>
  One round of \<^verbatim>\<open>recoverPersistence\<close> for the owner context registered as \<open>rid\<close>. When the context has
  ended and a standby is live, its lifetime is cancelled.
\<close>

datatype recovery_result = RecoveryOn | RecoveryWaits bool | RecoveryEnds

definition owner_round :: "'b rt_env \<Rightarrow> call_timing \<Rightarrow> string \<Rightarrow> 'b rstate \<Rightarrow> recovery_result \<times> 'b rstate" where
  "owner_round env ts rid s =
     (let r = rs_rt s in
      if rt_ownerID r \<noteq> rid \<or> rt_owner r = None then (RecoveryEnds, s)
      else if rt_ownerDone r then
        (if rt_executing r \<or> rt_task r \<or> rt_standby r then (RecoveryWaits (rt_standby r), s)
         else (RecoveryEnds, snd (releaseLocked env (if rt_pending r \<noteq> None then rt_lost None s else s))))
      else
        let s1 = (if \<not> rt_executing r \<and> rt_pending r \<noteq> None
                  then case flushLocked env ts s of
                    (Some e, s') \<Rightarrow> if is_lease_lost e then rt_ownerCancel (rt_lost None s') else s'
                  | (None, s') \<Rightarrow> s'
                  else s) in
        if \<not> rt_task (rs_rt s1) \<and> \<not> rt_standby (rs_rt s1) \<and> rt_pending (rs_rt s1) = None
        then (RecoveryEnds, snd (releaseLocked env s1)) else (RecoveryOn, s1))"

text \<open>Opening and ending a standby (\<^verbatim>\<open>standby_runtime.go\<close>), as far as the runtime is concerned.\<close>

definition standby_open :: "'b rt_env \<Rightarrow> 'b rstate \<Rightarrow> RtError option \<times> 'b rstate" where
  "standby_open env s =
     (if rt_standby (rs_rt s) then (None, s)
      else if rt_task (rs_rt s) then (Some RtThreadBusy, s)
      else case acquireLocked env s of (Some e, s1) \<Rightarrow> (Some e, s1)
      | (None, s1) \<Rightarrow> (None, upd_rt (\<lambda>r. r\<lparr>rt_standby := True\<rparr>) s1))"

definition standby_close :: "'b rt_env \<Rightarrow> 'b rstate \<Rightarrow> RtError option \<times> 'b rstate" where
  "standby_close env s =
     (case releaseLocked env (upd_rt (\<lambda>r. r\<lparr>rt_standby := False\<rparr>) s) of
        (Some e, s1) \<Rightarrow> (Some (RtSession e), rt_signal s1)
      | (None, s1) \<Rightarrow>
          (case startReleasedRecoveryLocked env s1 of (err, s2) \<Rightarrow>
             (if err = Some RtAgentClosed then None else err, rt_signal s2)))"

subsection \<open>The adapter of an execution\<close>

text \<open>
  \<^verbatim>\<open>engineStore\<close> as \<^verbatim>\<open>executeInvocation\<close> builds it: with the message hub, the runtime and the run
  state, for the thread's own key. First the sections that hold the runtime's mutex.
\<close>

definition ErrLeaseLost_value :: StoreError where
  "ErrLeaseLost_value = LeaseLostError ''''"

definition borrowedLease :: "string \<Rightarrow> 'b rstate \<Rightarrow> StoreError + Lease \<times> bool" where
  "borrowedLease target s =
     (let r = rs_rt s in
      if rt_owner r = None \<or> rt_ownerDone r \<or> rt_ownershipErr r \<noteq> None then Inl ErrLeaseLost_value
      else Inr (own_lease r, Lease_Target (own_lease r) = target))"

definition rt_AcquireLease ::
  "'b rt_env \<Rightarrow> string \<Rightarrow> string \<Rightarrow> duration \<Rightarrow> ('b rstate, SessionError, SessionLease) step" where
  "rt_AcquireLease env target owner ttl s =
     (case borrowedLease target s of
        Inl e \<Rightarrow> (Inl (StoreFailure e), s)
      | Inr (lease, True) \<Rightarrow> (Inr (engine_lease lease), s)
      | Inr (_, False) \<Rightarrow> on_store (Store_AcquireLease (engineStore (re_ops env)) target owner ttl) s)"

definition rt_RenewLease :: "'b rt_env \<Rightarrow> SessionLease \<Rightarrow> duration \<Rightarrow> ('b rstate, SessionError, unit) step" where
  "rt_RenewLease env lease ttl s =
     (case borrowedLease (SLease_Target lease) s of
        Inl e \<Rightarrow> (Inl (StoreFailure e), s)
      | Inr (_, True) \<Rightarrow> (Inr (), s)
      | Inr (_, False) \<Rightarrow> on_store (Store_RenewLease (engineStore (re_ops env)) lease ttl) s)"

definition rt_ReleaseLease :: "'b rt_env \<Rightarrow> SessionLease \<Rightarrow> ('b rstate, SessionError, unit) step" where
  "rt_ReleaseLease env lease s =
     (if rt_owner (rs_rt s) \<noteq> None \<and> Lease_Target (own_lease (rs_rt s)) = SLease_Target lease then (Inr (), s)
      else on_store (Store_ReleaseLease (engineStore (re_ops env)) lease) s)"

definition resolve_locked :: "'b rt_env \<Rightarrow> Query \<Rightarrow> ('b rstate, StoreError, Record option) step" where
  "resolve_locked env q s =
     (case (case rt_pending (rs_rt s) of None \<Rightarrow> None
            | Some p \<Rightarrow> if Query_Key q = Finalize_Key p \<or> Query_ID q = Record_ID (Finalize_Record p)
                then Some (Finalize_Record p) else None) of
        Some rec \<Rightarrow> (Inr (Some rec), s)
      | None \<Rightarrow>
          (case on_store (ops_Resolve (re_ops env) q) s of
             (Inl e, s1) \<Rightarrow> (Inl e, s1)
           | (Inr rec, s1) \<Rightarrow>
               (Inr rec, if Query_Key q = rt_key (rs_rt s1)
                  then upd_rt (\<lambda>r. r\<lparr>rt_durableID := (case rec of None \<Rightarrow> '''' | Some x \<Rightarrow> Record_ID x),
                         rt_durableVersion := re_hash env rec\<rparr>) s1
                  else s1)))"

text \<open>Leases of the replaced checkpoint whose targets the new one does not mention.\<close>

fun merge_leases :: "string list \<Rightarrow> Lease list \<Rightarrow> Lease list" where
  "merge_leases seen [] = []"
| "merge_leases seen (l # ls) = (if Lease_Target l \<in> set seen then merge_leases seen ls
     else l # merge_leases (Lease_Target l # seen) ls)"

definition replace_pending :: "threadRuntime \<Rightarrow> FinalizeRequest \<Rightarrow> FinalizeRequest \<Rightarrow> FinalizeRequest" where
  "replace_pending r p req = req\<lparr>
     Finalize_HeldLeases := Finalize_HeldLeases req @ merge_leases (map Lease_Target (Finalize_HeldLeases req)) (Finalize_HeldLeases p),
     Finalize_RequireKeyAbsent := Finalize_RequireKeyAbsent req \<or> Finalize_RequireKeyAbsent p,
     Finalize_PreviousID := rt_durableID r,
     Finalize_ArchiveOld := rt_durableID r \<noteq> '''' \<and> rt_durableID r \<noteq> Record_ID (Finalize_Record req)\<rparr>"

definition keep_pending :: "FinalizeRequest \<Rightarrow> 'b rstate \<Rightarrow> 'b rstate" where
  "keep_pending req s = rt_signal (rt_push ''thread.persistence''
     ''Checkpoint persistence failed; retaining the newest checkpoint in process and retrying storage.''
     (upd_rt (\<lambda>r. r\<lparr>rt_pending := Some req\<rparr>) s))"

text \<open>\<open>ctx_done\<close>: the caller's context has ended when a failed call returns.\<close>

definition finalize_locked :: "'b rt_env \<Rightarrow> bool \<Rightarrow> FinalizeRequest \<Rightarrow> ('b rstate, StoreError, unit) step" where
  "finalize_locked env ctx_done req s =
     (let r = rs_rt s in
      if rt_ownerDone r \<or> rt_ownershipErr r \<noteq> None then (Inl ErrLeaseLost_value, s)
      else case rt_pending r of
        Some p \<Rightarrow> (Inr (), keep_pending (replace_pending r p req) s)
      | None \<Rightarrow>
          (case rt_Finalize_call env req s of
             (Some e, s1) \<Rightarrow> if ctx_done \<or> StoreError_Unwrap e \<noteq> None then (Inl e, s1) else (Inr (), keep_pending req s1)
           | (None, s1) \<Rightarrow> (Inr (), upd_rt (\<lambda>r. r\<lparr>rt_durableID := Record_ID (Finalize_Record req),
                 rt_durableVersion := re_hash env (Some (Finalize_Record req))\<rparr>) s1)))"

text \<open>The adapter's methods around these sections; receipts and history come from the hub.\<close>

record 'b astate =
  as_rs :: "'b rstate"
  as_hub :: messageHub
  as_state :: threadRunState

definition adapter_Resolve :: "'b rt_env \<Rightarrow> SessionQuery \<Rightarrow> ('b astate, SessionError, SessionRecord option) step" where
  "adapter_Resolve env q a =
     (case resolve_locked env (store_query q) (as_rs a) of
        (Inl e, s) \<Rightarrow> (Inl (StoreFailure e), a\<lparr>as_rs := s\<rparr>)
      | (Inr None, s) \<Rightarrow> (Inr None, a\<lparr>as_rs := s\<rparr>)
      | (Inr (Some rec), s) \<Rightarrow>
          let (hub, s') = (if Record_Key rec = rt_key (rs_rt s)
                then case on_store (env_now (re_senv env)) s of (now, s') \<Rightarrow> (load now (Record_DeliveredMessages rec) (as_hub a), s')
                else (as_hub a, s))
          in (Inr (Some (engineRecord rec)), a\<lparr>as_rs := s', as_hub := hub, as_state := (as_state a)\<lparr>trs_record := Some rec\<rparr>\<rparr>))"

definition adapter_Finalize ::
  "'b rt_env \<Rightarrow> (nat \<Rightarrow> string) \<Rightarrow> bool \<Rightarrow> SessionFinalizeRequest \<Rightarrow> ('b astate, SessionError, unit) step" where
  "adapter_Finalize env result_text ctx_done req a =
     (case on_store (env_now (re_senv env)) (as_rs a) of (now, s0) \<Rightarrow>
      let request = store_finalize req;
          record1 = (Finalize_Record request)\<lparr>Record_DeliveredMessages := deliveryReceipts now (as_hub a)\<rparr>;
          (record, st) = updateHistory result_text (Some (as_hub a)) (as_state a) record1;
          request' = request\<lparr>Finalize_Record := record\<rparr>
      in case finalize_locked env ctx_done request' s0 of
           (Inl e, s) \<Rightarrow> (Inl (StoreFailure e), a\<lparr>as_rs := s, as_state := st\<rparr>)
         | (Inr _, s) \<Rightarrow> (Inr (), a\<lparr>as_rs := s, as_state := st\<lparr>trs_record := Some record\<rparr>\<rparr>))"

end
