(* ===== verification/ThreadRecovery.thy ===== *)
theory ThreadRecovery
  imports ThreadRuntime
begin

text \<open>
  The thread runtime under any interleaving of executions, standbys, recovery rounds, lost contexts,
  agent shutdown and other clients of the store: ownership that was lost is never used again, a
  checkpoint that could not be stored is neither dropped nor forgotten, and it is stored later only
  over the record it follows.
\<close>

subsection \<open>The system\<close>

text \<open>
  Executions run one at a time, inside a reserved task or a standby, and a standby ends between
  executions. The owner's context may end at any moment (a failed renewal, the agent closing), the
  world may change at any moment, and the recovery's own context ends only when the agent closes.
\<close>

inductive rt_step :: "'b rt_env \<Rightarrow> 'b rstate \<Rightarrow> 'b rstate \<Rightarrow> bool" for env where
  reserve: "rt_step env s (snd (reserveTask s))"
| begin_execution: "\<lbrakk>rt_task (rs_rt s) \<or> rt_standby (rs_rt s); \<not> rt_executing (rs_rt s)\<rbrakk>
    \<Longrightarrow> rt_step env s (snd (rt_begin env ts renewal ctx_after s))"
| end_execution: "rt_step env s (snd (rt_end env task s))"
| verify: "rt_executing (rs_rt s) \<Longrightarrow> rt_step env s (snd (verifyOwnership s))"
| resolve: "rt_executing (rs_rt s) \<Longrightarrow> rt_step env s (snd (resolve_locked env q s))"
| finalize: "rt_executing (rs_rt s) \<Longrightarrow> rt_step env s (snd (finalize_locked env ctx_done req s))"
| acquire_lease: "rt_step env s (snd (rt_AcquireLease env target owner ttl s))"
| renew_lease: "rt_step env s (snd (rt_RenewLease env lease ttl s))"
| release_lease: "rt_step env s (snd (rt_ReleaseLease env lease s))"
| round: "rt_step env s (snd (owner_round env ts rid s))"
| attempt: "rt_recoveryID (rs_rt s) \<noteq> '''' \<Longrightarrow> rt_step env s (snd (released_attempt env ts s))"
| attempt_ends: "\<lbrakk>ctx_done \<longrightarrow> rs_closed s; rid \<noteq> ''''\<rbrakk> \<Longrightarrow> rt_step env s (released_exit env ctx_done rid s)"
| open_standby: "rt_step env s (snd (standby_open env s))"
| close_standby: "\<not> rt_executing (rs_rt s) \<Longrightarrow> rt_step env s (snd (standby_close env s))"
| context_ends: "rt_step env s (rt_ownerCancel s)"
| renewal_fails: "rt_owner (rs_rt s) = Some p
    \<Longrightarrow> rt_step env s (rt_ownerCancel (upd_rt (\<lambda>r. r\<lparr>rt_owner := Some (p\<lparr>plan_renewErr := Some e\<rparr>)\<rparr>) s))"
| agent_closes: "rt_step env s (s\<lparr>rs_closed := True\<rparr>)"
| others: "rt_step env s (s\<lparr>rs_world := w\<rparr>)"

inductive rt_reachable :: "'b rt_env \<Rightarrow> 'b rstate \<Rightarrow> bool" for env where
  init: "rt_reachable env \<lparr>rs_rt = new_threadRuntime key, rs_world = w, rs_closed = False, rs_runs = runs, rs_writes = [], rs_pushed = []\<rparr>"
| step: "\<lbrakk>rt_reachable env s; rt_step env s s'\<rbrakk> \<Longrightarrow> rt_reachable env s'"

subsection \<open>What each section changes\<close>

lemma upd_rt_fields [simp]:
  "rs_rt (upd_rt f s) = f (rs_rt s)" "rs_writes (upd_rt f s) = rs_writes s" "rs_closed (upd_rt f s) = rs_closed s"
  "rs_world (upd_rt f s) = rs_world s"
  by (simp_all add: upd_rt_def)

lemma on_store_fields [simp]:
  "rs_rt (snd (on_store m s)) = rs_rt s" "rs_writes (snd (on_store m s)) = rs_writes s" "rs_closed (snd (on_store m s)) = rs_closed s"
  by (simp_all add: on_store_def split: prod.split)

lemma on_store_eq: "on_store m s = (r, s') \<Longrightarrow> rs_rt s' = rs_rt s \<and> rs_writes s' = rs_writes s \<and> rs_closed s' = rs_closed s"
  by (metis on_store_fields snd_conv)

lemma small_fields [simp]:
  "rs_rt (rt_signal s) = (rs_rt s)\<lparr>rt_wake := True\<rparr>" "rs_writes (rt_signal s) = rs_writes s" "rs_closed (rt_signal s) = rs_closed s"
  "rs_rt (rt_lost c s) = (rs_rt s)\<lparr>rt_ownershipErr := Some (RtLeaseLost c)\<rparr>" "rs_writes (rt_lost c s) = rs_writes s"
  "rs_closed (rt_lost c s) = rs_closed s"
  "rs_rt (rt_ownerCancel s) = (rs_rt s)\<lparr>rt_ownerDone := True\<rparr>" "rs_writes (rt_ownerCancel s) = rs_writes s"
  "rs_closed (rt_ownerCancel s) = rs_closed s"
  "rs_rt (unregisterRun k s) = rs_rt s" "rs_writes (unregisterRun k s) = rs_writes s" "rs_closed (unregisterRun k s) = rs_closed s"
  "rs_rt (rt_push kind t s) = rs_rt s" "rs_writes (rt_push kind t s) = rs_writes s" "rs_closed (rt_push kind t s) = rs_closed s"
  by (simp_all add: rt_signal_def rt_lost_def rt_ownerCancel_def unregisterRun_def rt_push_def)

lemma newRunID_eq: "rt_newRunID env s = (r, s') \<Longrightarrow> rs_rt s' = rs_rt s \<and> rs_writes s' = rs_writes s \<and> rs_closed s' = rs_closed s"
  by (auto simp: rt_newRunID_def split: prod.splits dest: on_store_eq)

lemma registerRun_eq: "registerRun k s = (r, s') \<Longrightarrow> rs_rt s' = rs_rt s \<and> rs_writes s' = rs_writes s \<and> rs_closed s' = rs_closed s"
  by (auto simp: registerRun_def split: if_splits)

lemma release_plan_eq: "rt_release_plan env p s = (r, s') \<Longrightarrow> rs_rt s' = rs_rt s \<and> rs_writes s' = rs_writes s \<and> rs_closed s' = rs_closed s"
  unfolding rt_release_plan_def by (rule on_store_eq)

lemma bounded_call_eq: "bounded_store_call t m s = (r, s') \<Longrightarrow> rs_rt s' = rs_rt s \<and> rs_writes s' = rs_writes s \<and> rs_closed s' = rs_closed s"
  by (auto simp: bounded_store_call_def split: if_splits prod.splits dest: on_store_eq)

lemma flush_acquire_eq:
  "flush_acquire env owner seen ls acq s = (r, s') \<Longrightarrow> rs_rt s' = rs_rt s \<and> rs_writes s' = rs_writes s \<and> rs_closed s' = rs_closed s"
proof (induction env owner seen ls acq s rule: flush_acquire.induct)
  case (2 env owner seen old leases acquired s)
  then show ?case by (fastforce split: if_splits prod.splits sum.splits dest: on_store_eq)
qed simp

lemmas section_eqs = on_store_eq newRunID_eq registerRun_eq release_plan_eq bounded_call_eq flush_acquire_eq

text \<open>The deferred release touches the runtime only to record a loss, and then it cancels the owner.\<close>

definition same_but_loss :: "threadRuntime \<Rightarrow> threadRuntime \<Rightarrow> bool" where
  "same_but_loss r r' \<longleftrightarrow> rt_key r' = rt_key r \<and> rt_task r' = rt_task r \<and> rt_standby r' = rt_standby r \<and> rt_executing r' = rt_executing r
     \<and> rt_owner r' = rt_owner r \<and> rt_pending r' = rt_pending r \<and> rt_durableID r' = rt_durableID r
     \<and> rt_durableVersion r' = rt_durableVersion r \<and> rt_pendingNeedsValidation r' = rt_pendingNeedsValidation r
     \<and> rt_recoveryID r' = rt_recoveryID r \<and> (rt_ownershipErr r \<noteq> None \<longrightarrow> rt_ownershipErr r' \<noteq> None)
     \<and> (rt_ownerDone r \<longrightarrow> rt_ownerDone r') \<and> (rt_ownershipErr r' \<noteq> None \<longrightarrow> rt_ownershipErr r \<noteq> None \<or> rt_ownerDone r' \<or> rt_owner r = None)"

lemma same_but_loss_refl [simp]: "same_but_loss r r"
  by (simp add: same_but_loss_def)

lemma same_but_loss_lost: "same_but_loss (r\<lparr>rt_ownershipErr := Some e, rt_ownerDone := True\<rparr>) r' \<Longrightarrow> same_but_loss r r'"
  by (auto simp: same_but_loss_def)

lemma flush_release_eq:
  "rs_writes (flush_release env ts ls s) = rs_writes s \<and> rs_closed (flush_release env ts ls s) = rs_closed s
   \<and> same_but_loss (rs_rt s) (rs_rt (flush_release env ts ls s))"
proof (induction env ts ls s rule: flush_release.induct)
  case (2 env ts lease leases s)
  obtain err fin s1 where c: "bounded_store_call (ts (length leases)) (ops_ReleaseLease (re_ops env) lease) s = ((err, fin), s1)"
    by (metis prod.exhaust)
  note eq = bounded_call_eq[OF c]
  show ?case
  proof (cases err)
    case None
    then show ?thesis using 2(1)[OF c[unfolded None, symmetric] refl refl] eq c by simp
  next
    case (Some e)
    then show ?thesis using 2(2)[OF c[unfolded Some, symmetric] refl refl] eq c same_but_loss_lost by auto
  qed
qed simp

text \<open>The runtime after a section as a choice of the two forms.\<close>

lemma flush_cases:
  assumes "flushLocked env ts s = (err, s')"
  obtains (idle) "rt_pending (rs_rt s) = None" "err = None" "s' = s"
  | (kept) p e where "rt_pending (rs_rt s) = Some p" "err = Some e" "rs_closed s' = rs_closed s"
      "same_but_loss (rs_rt s) (rs_rt s')" "\<exists>new. rs_writes s' = rs_writes s @ new"
  | (written) p acquired where "rt_pending (rs_rt s) = Some p" "err = None" "rs_closed s' = rs_closed s"
      "rs_writes s' = rs_writes s @ [(flush_request (own_lease (rs_rt s)) acquired p, None)]"
      "same_but_loss ((rs_rt s)\<lparr>rt_pending := None, rt_durableID := Record_ID (Finalize_Record p),
         rt_durableVersion := re_hash env (Some (Finalize_Record p))\<rparr>) (rs_rt s')"
proof (cases "rt_pending (rs_rt s)")
  case None
  then have "err = None" "s' = s" using assms by (simp_all add: flushLocked_def)
  then show thesis using idle None by blast
next
  case (Some p)
  let ?own = "own_lease (rs_rt s)"
  obtain e acquired s1 where a: "flush_acquire env (Lease_Owner ?own) [Lease_Target ?own] (Finalize_HeldLeases p) [] s = ((e, acquired), s1)"
    by (metis prod.exhaust)
  note eq1 = flush_acquire_eq[OF a]
  show thesis
  proof (cases e)
    case err: (Some x)
    then have "err = Some x" "s' = flush_release env ts (rev acquired) s1" using assms Some a by (simp_all add: flushLocked_def Let_def)
    then show thesis using kept[OF Some, of x] flush_release_eq[of env ts "rev acquired" s1] eq1 by (metis append_Nil2)
  next
    case None
    let ?req = "flush_request ?own acquired p"
    obtain f s2 where f: "rt_Finalize_call env ?req s1 = (f, s2)" by fastforce
    then have eq2: "rs_rt s2 = rs_rt s1" "rs_writes s2 = rs_writes s1 @ [(?req, f)]" "rs_closed s2 = rs_closed s1"
      by (auto simp: rt_Finalize_call_def Let_def split: prod.splits dest!: on_store_eq)
    show thesis
    proof (cases f)
      case err: (Some x)
      then have "err = Some x" "s' = flush_release env ts (rev acquired) s2" using assms Some a None f by (simp_all add: flushLocked_def Let_def)
      then show thesis using kept[OF Some, of x] flush_release_eq[of env ts "rev acquired" s2] eq1 eq2 by metis
    next
      case ok: None
      let ?s = "upd_rt (\<lambda>r. r\<lparr>rt_pending := None, rt_durableID := Record_ID (Finalize_Record ?req),
                     rt_durableVersion := re_hash env (Some (Finalize_Record ?req))\<rparr>) s2"
      have "err = None" "s' = flush_release env ts (rev acquired) ?s" using assms Some a None f ok by (simp_all add: flushLocked_def Let_def)
      then show thesis using written[OF Some, of acquired] flush_release_eq[of env ts "rev acquired" ?s] eq1 eq2 ok
        by (simp add: flush_request_def)
    qed
  qed
qed

lemma validate_cases:
  assumes "validatePendingLocked env s = (err, s')"
  obtains (fails) e where "err = Some e" "rs_rt s' = rs_rt s \<or> (\<exists>c. rs_rt s' = (rs_rt s)\<lparr>rt_ownershipErr := Some (RtLeaseLost c)\<rparr>)"
      "rt_pending (rs_rt s) \<noteq> None" "rs_writes s' = rs_writes s" "rs_closed s' = rs_closed s"
  | (idle) "err = None" "rt_pending (rs_rt s) = None" "s' = upd_rt (\<lambda>r. r\<lparr>rt_pendingNeedsValidation := False\<rparr>) s"
  | (stored) p rec w where "err = None" "rt_pending (rs_rt s) = Some p" "ops_Resolve (re_ops env) (by_key (rt_key (rs_rt s))) (rs_world s) = (Inr rec, w)"
      "re_hash env rec = re_hash env (Some (Finalize_Record p))"
      "s' = upd_rt (\<lambda>r. r\<lparr>rt_pending := None, rt_durableID := (case rec of None \<Rightarrow> '''' | Some x \<Rightarrow> Record_ID x),
              rt_durableVersion := re_hash env rec, rt_pendingNeedsValidation := False\<rparr>) (s\<lparr>rs_world := w\<rparr>)"
  | (based) p rec w where "err = None" "rt_pending (rs_rt s) = Some p" "ops_Resolve (re_ops env) (by_key (rt_key (rs_rt s))) (rs_world s) = (Inr rec, w)"
      "re_hash env rec = rt_durableVersion (rs_rt s)"
      "s' = upd_rt (\<lambda>r. r\<lparr>rt_pendingNeedsValidation := False\<rparr>) (s\<lparr>rs_world := w\<rparr>)"
proof (cases "rt_pending (rs_rt s)")
  case None
  then have "err = None" "s' = upd_rt (\<lambda>r. r\<lparr>rt_pendingNeedsValidation := False\<rparr>) s" using assms by (simp_all add: validatePendingLocked_def)
  then show thesis using idle None by blast
next
  case (Some p)
  obtain r w where r: "ops_Resolve (re_ops env) (by_key (rt_key (rs_rt s))) (rs_world s) = (r, w)" by fastforce
  show thesis
  proof (cases r)
    case (Inl e)
    then have "err = Some (RtStore e)" "s' = s\<lparr>rs_world := w\<rparr>" using assms Some r by (simp_all add: validatePendingLocked_def on_store_def)
    then show thesis by (intro fails[of "RtStore e"]) (simp_all add: Some)
  next
    case (Inr rec)
    let ?stored = "re_hash env rec = re_hash env (Some (Finalize_Record p))" and ?based = "re_hash env rec = rt_durableVersion (rs_rt s)"
    have eq: "(err, s') = (if ?stored then (None, upd_rt (\<lambda>r. r\<lparr>rt_pending := None, rt_durableID := (case rec of None \<Rightarrow> '''' | Some x \<Rightarrow> Record_ID x),
              rt_durableVersion := re_hash env rec, rt_pendingNeedsValidation := False\<rparr>) (s\<lparr>rs_world := w\<rparr>))
            else if \<not> ?based then (Some (RtLeaseLost None), rt_lost None (s\<lparr>rs_world := w\<rparr>))
            else (None, upd_rt (\<lambda>r. r\<lparr>rt_pendingNeedsValidation := False\<rparr>) (s\<lparr>rs_world := w\<rparr>)))"
      using assms Some r Inr by (auto simp: validatePendingLocked_def on_store_def Let_def)
    consider ?stored | "\<not> ?stored" "\<not> ?based" | "\<not> ?stored" ?based by blast
    then show thesis
    proof cases
      case 1
      then have "err = None" and s': "s' = upd_rt (\<lambda>r. r\<lparr>rt_pending := None, rt_durableID := (case rec of None \<Rightarrow> [] | Some x \<Rightarrow> Record_ID x),
              rt_durableVersion := re_hash env rec, rt_pendingNeedsValidation := False\<rparr>) (s\<lparr>rs_world := w\<rparr>)" using eq by simp_all
      show thesis by (rule stored[OF \<open>err = None\<close> Some r[unfolded Inr] 1 s'])
    next
      case 2
      then have "err = Some (RtLeaseLost None)" "s' = rt_lost None (s\<lparr>rs_world := w\<rparr>)" using eq by simp_all
      then show thesis by (intro fails[of "RtLeaseLost None"]) (simp_all add: Some, blast)
    next
      case 3
      then have "err = None" and s': "s' = upd_rt (\<lambda>r. r\<lparr>rt_pendingNeedsValidation := False\<rparr>) (s\<lparr>rs_world := w\<rparr>)" using eq by simp_all
      show thesis by (rule based[OF \<open>err = None\<close> Some r[unfolded Inr] 3(2) s'])
    qed
  qed
qed

text \<open>
  How an acquisition ends. When it takes ownership, the pending checkpoint (if it had been left without
  ownership) has been checked against the store's record, read under the new lease.
\<close>

definition revalidated :: "'b rt_env \<Rightarrow> threadRuntime \<Rightarrow> 'b \<Rightarrow> threadRuntime \<Rightarrow> 'b \<Rightarrow> bool" where
  "revalidated env r w r1 w1 \<longleftrightarrow>
     (case rt_pending r of None \<Rightarrow> rt_pending r1 = None \<and> w1 = w \<and> r1 \<in> {r, r\<lparr>rt_pendingNeedsValidation := False\<rparr>}
      | Some p \<Rightarrow>
        (if \<not> rt_pendingNeedsValidation r then r1 = r \<and> w1 = w
         else \<exists>rec. ops_Resolve (re_ops env) (by_key (rt_key r)) w = (Inr rec, w1) \<and> \<not> rt_pendingNeedsValidation r1
           \<and> (re_hash env rec = re_hash env (Some (Finalize_Record p)) \<and> r1 = r\<lparr>rt_pending := None,
                rt_durableID := (case rec of None \<Rightarrow> '''' | Some x \<Rightarrow> Record_ID x), rt_durableVersion := re_hash env rec,
                rt_pendingNeedsValidation := False\<rparr>
              \<or> re_hash env rec = rt_durableVersion r \<and> r1 = r\<lparr>rt_pendingNeedsValidation := False\<rparr>)))"

text \<open>The fields after ownership was taken.\<close>

definition took :: "'b rt_env \<Rightarrow> threadRuntime \<Rightarrow> threadRuntime \<Rightarrow> bool" where
  "took env r r' \<longleftrightarrow> rt_key r' = rt_key r \<and> rt_task r' = rt_task r \<and> rt_standby r' = rt_standby r \<and> rt_executing r' = rt_executing r
     \<and> rt_recoveryID r' = rt_recoveryID r \<and> rt_owner r' \<noteq> None \<and> \<not> rt_ownerDone r' \<and> rt_ownershipErr r' = rt_ownershipErr r
     \<and> \<not> rt_pendingNeedsValidation r'
     \<and> (rt_pending r' = rt_pending r \<and> rt_durableID r' = rt_durableID r \<and> rt_durableVersion r' = rt_durableVersion r
        \<or> rt_pending r' = None \<and> (\<exists>p. rt_pending r = Some p \<and> rt_durableVersion r' = re_hash env (Some (Finalize_Record p))))"

lemma revalidated_took:
  assumes "revalidated env r w r1 w1" "\<not> rt_pendingNeedsValidation r1"
  shows "took env r (r1\<lparr>rt_owner := Some pl, rt_ownerDone := False, rt_ownerID := rid\<rparr>)"
proof (cases "rt_pending r")
  case None
  then have "r1 = r \<or> r1 = r\<lparr>rt_pendingNeedsValidation := False\<rparr>" using assms(1) by (simp add: revalidated_def)
  then show ?thesis using assms(2) by (elim disjE) (simp_all add: took_def)
next
  case (Some p)
  show ?thesis
  proof (cases "rt_pendingNeedsValidation r")
    case True
    then obtain rec where "re_hash env rec = re_hash env (Some (Finalize_Record p)) \<and> r1 = r\<lparr>rt_pending := None,
                rt_durableID := (case rec of None \<Rightarrow> [] | Some x \<Rightarrow> Record_ID x), rt_durableVersion := re_hash env rec,
                rt_pendingNeedsValidation := False\<rparr> \<or> r1 = r\<lparr>rt_pendingNeedsValidation := False\<rparr>"
      using assms(1) Some by (auto simp: revalidated_def)
    then show ?thesis by (elim disjE conjE) (simp_all add: took_def Some)
  next
    case False
    then have "r1 = r" using assms(1) Some by (simp add: revalidated_def)
    then show ?thesis using False by (simp add: took_def)
  qed
qed

lemma acquire_cases:
  assumes "acquireLocked env s = (err, s')"
  obtains (kept) "err = None" "s' = s" "rt_owner (rs_rt s) \<noteq> None" "\<not> rt_ownerDone (rs_rt s)" "rt_ownershipErr (rs_rt s) = None"
  | (fails) e where "err = Some e" "rs_writes s' = rs_writes s" "rs_closed s' = rs_closed s"
      "rs_rt s' = rs_rt s \<or> (\<exists>c. rs_rt s' = (rs_rt s)\<lparr>rt_ownershipErr := Some (RtLeaseLost c)\<rparr> \<and> rt_owner (rs_rt s) = None
        \<and> rt_ownershipErr (rs_rt s) = None)"
  | (owned) pl rid r1 w0 w where "err = None" "rt_owner (rs_rt s) = None" "rt_ownershipErr (rs_rt s) = None"
      "AcquireThreadOwnership (re_senv env) (Some (engineStore (re_ops env))) threadNamespace (rt_key (rs_rt s)) (re_driverType env) w0 = (Inr pl, w)"
      "revalidated env (rs_rt s) w r1 (rs_world s')" "\<not> rt_pendingNeedsValidation r1"
      "rs_rt s' = r1\<lparr>rt_owner := Some (pl\<lparr>plan_renewing := True\<rparr>), rt_ownerDone := False, rt_ownerID := rid\<rparr>"
      "rs_writes s' = rs_writes s" "rs_closed s' = rs_closed s"
proof -
  consider (lost) e where "rt_ownershipErr (rs_rt s) = Some e" | (has) "rt_ownershipErr (rs_rt s) = None" "rt_owner (rs_rt s) \<noteq> None"
    | (free) "rt_ownershipErr (rs_rt s) = None" "rt_owner (rs_rt s) = None" by (cases "rt_ownershipErr (rs_rt s)") auto
  then show thesis
  proof cases
    case (lost e)
    then have "err = Some e" "s' = s" using assms by (simp_all add: acquireLocked_def)
    then show thesis by (intro fails) simp_all
  next
    case has
    then have eq: "(err, s') = (if rt_ownerDone (rs_rt s) then (Some (RtLeaseLost None), s) else (None, s))"
      using assms by (simp add: acquireLocked_def)
    show thesis
    proof (cases "rt_ownerDone (rs_rt s)")
      case True
      then have "err = Some (RtLeaseLost None)" "s' = s" using eq by simp_all
      then show thesis by (intro fails) simp_all
    next
      case False
      then have "err = None" "s' = s" using eq by simp_all
      then show thesis using kept False has by blast
    qed
  next
    case free
    obtain x s1 where x: "rt_newRunID env s = (x, s1)" by fastforce
    note e1 = newRunID_eq[OF x]
    show thesis
    proof (cases x)
      case (Inl msg)
      then have "err = Some (RtEntropy msg)" "s' = s1" using assms free x by (simp_all add: acquireLocked_def)
      then show thesis by (intro fails) (simp_all add: e1)
    next
      case (Inr rid)
      obtain y s2 where y: "registerRun rid s1 = (y, s2)" by fastforce
      note e2 = registerRun_eq[OF y]
      show thesis
      proof (cases y)
        case (Some e)
        then have "err = Some e" "s' = s2" using assms free x y Inr by (simp_all add: acquireLocked_def)
        then show thesis by (intro fails) (simp_all add: e1 e2)
      next
        case None
        let ?acq = "AcquireThreadOwnership (re_senv env) (Some (engineStore (re_ops env))) threadNamespace (rt_key (rs_rt s2)) (re_driverType env)"
        obtain z w where z: "?acq (rs_world s2) = (z, w)" by fastforce
        then have z': "on_store ?acq s2 = (z, s2\<lparr>rs_world := w\<rparr>)" by (simp add: on_store_def)
        show thesis
        proof (cases z)
          case (Inl e)
          then have "err = Some (RtSession e)" "s' = unregisterRun rid (s2\<lparr>rs_world := w\<rparr>)"
            using assms free x y z' Inr None by (simp_all add: acquireLocked_def)
          then show thesis by (intro fails) (simp_all add: e1 e2)
        next
          case owner: (Inr pl)
          let ?s3 = "s2\<lparr>rs_world := w\<rparr>"
          define v where "v = (if rt_pendingNeedsValidation (rs_rt ?s3) then validatePendingLocked env ?s3 else (None, ?s3))"
          obtain ve s4 where v: "v = (ve, s4)" by fastforce
          have eq: "acquireLocked env s = (case (ve, s4) of
             (Some e, s4) \<Rightarrow>
               (case rt_release_plan env pl s4 of (rel, s5) \<Rightarrow>
                  (Some (case rel of None \<Rightarrow> e | Some x \<Rightarrow> RtJoin e (RtSession x)), unregisterRun rid s5))
           | (None, s4) \<Rightarrow>
               (None, upd_rt (\<lambda>r. r\<lparr>rt_owner := Some (pl\<lparr>plan_renewing := True\<rparr>), rt_ownerDone := False, rt_ownerID := rid\<rparr>) s4))"
            using free x y z' Inr None owner v unfolding v_def by (simp add: acquireLocked_def)
          show thesis
          proof (cases ve)
            case (Some e)
            then have "validatePendingLocked env ?s3 = (Some e, s4)" using v unfolding v_def by (auto split: if_splits)
            then have "rs_writes s4 = rs_writes ?s3 \<and> rs_closed s4 = rs_closed ?s3
              \<and> (rs_rt s4 = rs_rt ?s3 \<or> (\<exists>c. rs_rt s4 = (rs_rt ?s3)\<lparr>rt_ownershipErr := Some (RtLeaseLost c)\<rparr>))"
            proof (cases rule: validate_cases)
              case (fails e')
              then show ?thesis by blast
            qed simp_all
            then have s4: "rs_writes s4 = rs_writes s" "rs_closed s4 = rs_closed s"
              "rs_rt s4 = rs_rt s \<or> (\<exists>c. rs_rt s4 = (rs_rt s)\<lparr>rt_ownershipErr := Some (RtLeaseLost c)\<rparr>)"
              using e1 e2 by simp_all
            obtain rel s5 where rel: "rt_release_plan env pl s4 = (rel, s5)" by fastforce
            then have "err = Some (case rel of None \<Rightarrow> e | Some x \<Rightarrow> RtJoin e (RtSession x))" "s' = unregisterRun rid s5"
              using assms eq Some by simp_all
            then show thesis using release_plan_eq[OF rel] s4 free by (intro fails) simp_all
          next
            case ok: None
            have out: "err = None" "s' = upd_rt (\<lambda>r. r\<lparr>rt_owner := Some (pl\<lparr>plan_renewing := True\<rparr>), rt_ownerDone := False, rt_ownerID := rid\<rparr>) s4"
              using assms eq ok by simp_all
            have "revalidated env (rs_rt s) w (rs_rt s4) (rs_world s4) \<and> \<not> rt_pendingNeedsValidation (rs_rt s4)
                \<and> rs_writes s4 = rs_writes s \<and> rs_closed s4 = rs_closed s"
            proof (cases "rt_pendingNeedsValidation (rs_rt s)")
              case True
              then have "validatePendingLocked env ?s3 = (None, s4)" using v ok e1 e2 unfolding v_def by simp
              then show ?thesis by (cases rule: validate_cases) (use True e1 e2 in \<open>auto simp: revalidated_def\<close>)
            next
              case False
              then have "s4 = ?s3" using v ok e1 e2 unfolding v_def by simp
              then show ?thesis using False e1 e2 by (auto simp: revalidated_def split: option.split)
            qed
            then show thesis using z owner out(2) e1 e2 by (intro owned[OF out(1) free(2,1), of "rs_world s2" pl w "rs_rt s4" rid]) simp_all
          qed
        qed
      qed
    qed
  qed
qed

lemma release_cases:
  assumes "releaseLocked env s = (err, s')"
  obtains (none) "rt_owner (rs_rt s) = None" "err = None" "s' = s"
  | (released) oe where "rt_owner (rs_rt s) \<noteq> None" "rs_writes s' = rs_writes s" "rs_closed s' = rs_closed s"
      "rs_rt s' = (rs_rt s)\<lparr>rt_ownerDone := True, rt_owner := None,
         rt_pendingNeedsValidation := (rt_pending (rs_rt s) \<noteq> None \<or> rt_pendingNeedsValidation (rs_rt s)), rt_ownershipErr := oe\<rparr>"
      "if err = None then oe = rt_ownershipErr (rs_rt s) else oe \<noteq> None"
proof (cases "rt_owner (rs_rt s)")
  case None
  then have "err = None" "s' = s" using assms by (simp_all add: releaseLocked_def)
  then show thesis using none None by blast
next
  case (Some owner)
  obtain e s1 where e: "rt_release_plan env owner (rt_ownerCancel s) = (e, s1)" by fastforce
  note eq = release_plan_eq[OF e]
  let ?oe = "case e of None \<Rightarrow> rt_ownershipErr (rs_rt s) | Some x \<Rightarrow> Some (RtLeaseLost (Some (RtSession x)))"
  let ?s2 = "upd_rt (\<lambda>r. r\<lparr>rt_owner := None, rt_pendingNeedsValidation := (rt_pending r \<noteq> None \<or> rt_pendingNeedsValidation r)\<rparr>)
                   (unregisterRun (rt_ownerID (rs_rt s1)) s1)"
  have s': "err = e" "s' = (case e of None \<Rightarrow> ?s2 | Some x \<Rightarrow> rt_lost (Some (RtSession x)) ?s2)"
    using assms Some e by (simp_all add: releaseLocked_def Let_def split: option.splits)
  show thesis
  proof (rule released[of ?oe])
    show "rt_owner (rs_rt s) \<noteq> None" using Some by simp
    show "rs_writes s' = rs_writes s" "rs_closed s' = rs_closed s" using s' eq by (simp_all split: option.split)
    show "if err = None then ?oe = rt_ownershipErr (rs_rt s) else ?oe \<noteq> None" using s'(1) by (simp split: option.split)
    show "rs_rt s' = (rs_rt s)\<lparr>rt_ownerDone := True, rt_owner := None,
         rt_pendingNeedsValidation := (rt_pending (rs_rt s) \<noteq> None \<or> rt_pendingNeedsValidation (rs_rt s)), rt_ownershipErr := ?oe\<rparr>"
      using s'(2) eq by (cases e) simp_all
  qed
qed

lemma start_cases:
  assumes "startReleasedRecoveryLocked env s = (err, s')"
  obtains (idle) "rt_pending (rs_rt s) = None \<or> rt_recoveryID (rs_rt s) \<noteq> '''' \<or> rt_ownershipErr (rs_rt s) \<noteq> None" "err = None" "s' = s"
  | (fails) e where "err = Some e" "rs_rt s' = rs_rt s" "rs_writes s' = rs_writes s" "rs_closed s' = rs_closed s"
      "e = RtAgentClosed \<and> rs_closed s \<or> (\<exists>msg. e = RtEntropy msg)" "(\<exists>msg. e = RtEntropy msg) \<longrightarrow> (\<exists>ent w. re_runEntropy env (rs_world s) = (ent, w) \<and> isl (newRunID ent))"
  | (started) rid where "err = None" "rs_rt s' = (rs_rt s)\<lparr>rt_recoveryID := rid\<rparr>" "rid \<noteq> ''''" "rs_writes s' = rs_writes s" "rs_closed s' = rs_closed s"
proof (cases "rt_pending (rs_rt s) = None \<or> rt_recoveryID (rs_rt s) \<noteq> '''' \<or> rt_ownershipErr (rs_rt s) \<noteq> None")
  case True
  then have "err = None" "s' = s" using assms by (auto simp: startReleasedRecoveryLocked_def)
  then show thesis using idle True by blast
next
  case False
  obtain ent w where ent: "re_runEntropy env (rs_world s) = (ent, w)" by fastforce
  then have x: "rt_newRunID env s = (newRunID ent, s\<lparr>rs_world := w\<rparr>)" by (simp add: rt_newRunID_def on_store_def)
  show thesis
  proof (cases "newRunID ent")
    case (Inl msg)
    then have "err = Some (RtEntropy msg)" "s' = s\<lparr>rs_world := w\<rparr>" using assms False x by (auto simp: startReleasedRecoveryLocked_def)
    then show thesis using ent Inl by (intro fails[of "RtEntropy msg"]) auto
  next
    case (Inr rid)
    then have rid: "rid \<noteq> ''''" by (auto simp: newRunID_def split: entropy.splits if_splits)
    show thesis
    proof (cases "rs_closed s")
      case True
      then have "err = Some RtAgentClosed" "s' = s\<lparr>rs_world := w\<rparr>"
        using assms False x Inr by (auto simp: startReleasedRecoveryLocked_def registerRun_def)
      then show thesis using True by (intro fails[of RtAgentClosed]) auto
    next
      case up: False
      then have "err = None" "rs_rt s' = (rs_rt s)\<lparr>rt_recoveryID := rid\<rparr>" "rs_writes s' = rs_writes s" "rs_closed s' = rs_closed s"
        using assms False x Inr by (auto simp: startReleasedRecoveryLocked_def registerRun_def)
      then show thesis using rid by (intro started)
    qed
  qed
qed

subsection \<open>The invariant\<close>

definition rt_ok :: "threadRuntime \<Rightarrow> bool" where
  "rt_ok r \<longleftrightarrow> (rt_ownershipErr r \<noteq> None \<longrightarrow> rt_owner r = None \<or> rt_ownerDone r)
     \<and> (rt_owner r = None \<and> rt_pending r \<noteq> None \<longrightarrow> rt_pendingNeedsValidation r)
     \<and> (rt_owner r \<noteq> None \<longrightarrow> \<not> rt_pendingNeedsValidation r)
     \<and> (rt_executing r \<longrightarrow> rt_owner r \<noteq> None \<and> (rt_task r \<or> rt_standby r))
     \<and> \<not> (rt_task r \<and> rt_standby r)"

text \<open>Somebody is in charge of a checkpoint that is still to be stored.\<close>

definition attended :: "threadRuntime \<Rightarrow> bool" where
  "attended r \<longleftrightarrow> rt_pending r = None \<or> rt_owner r \<noteq> None \<or> rt_recoveryID r \<noteq> '''' \<or> rt_ownershipErr r \<noteq> None"

definition good_entropy :: "'b rt_env \<Rightarrow> bool" where
  "good_entropy env \<longleftrightarrow> (\<forall>w. \<not> isl (newRunID (fst (re_runEntropy env w))))"

definition pending_kept :: "'b rt_env \<Rightarrow> threadRuntime \<Rightarrow> threadRuntime \<Rightarrow> bool" where
  "pending_kept env r r' \<longleftrightarrow> (\<forall>p. rt_pending r = Some p \<longrightarrow> rt_pending r' = Some p
     \<or> rt_pending r' = None \<and> rt_durableVersion r' = re_hash env (Some (Finalize_Record p))
     \<or> (\<exists>req. rt_pending r' = Some (replace_pending r p req)))"

definition sound :: "'b rt_env \<Rightarrow> 'b rstate \<Rightarrow> 'b rstate \<Rightarrow> bool" where
  "sound env s s' \<longleftrightarrow> rt_ok (rs_rt s) \<longrightarrow> rt_ok (rs_rt s')
     \<and> (rt_ownershipErr (rs_rt s) \<noteq> None \<longrightarrow> rt_ownershipErr (rs_rt s') \<noteq> None \<and> rs_writes s' = rs_writes s)
     \<and> pending_kept env (rs_rt s) (rs_rt s')
     \<and> (good_entropy env \<and> (attended (rs_rt s) \<or> rs_closed s) \<longrightarrow> attended (rs_rt s') \<or> rs_closed s')"

lemmas sound_defs = sound_def rt_ok_def pending_kept_def attended_def

lemma wake_irrelevant [simp]: "rt_ok (r\<lparr>rt_wake := x\<rparr>) = rt_ok r" "attended (r\<lparr>rt_wake := x\<rparr>) = attended r"
  by (simp_all add: rt_ok_def attended_def)

lemma sound_same_rt: "\<lbrakk>rs_rt s' = rs_rt s; rs_writes s' = rs_writes s; rs_closed s \<longrightarrow> rs_closed s'\<rbrakk> \<Longrightarrow> sound env s s'"
  by (auto simp: sound_defs)

lemma sound_reserve: "sound env s (snd (reserveTask s))"
  by (auto simp: reserveTask_def sound_defs)

lemma sound_release:
  assumes "\<not> rt_executing (rs_rt s)" "rt_pending (rs_rt s) = None \<or> rt_ownershipErr (rs_rt s) \<noteq> None \<or> rt_recoveryID (rs_rt s) \<noteq> ''''"
  shows "sound env s (snd (releaseLocked env s))"
proof -
  obtain err s' where r: "releaseLocked env s = (err, s')" by fastforce
  then show ?thesis
  proof (cases rule: release_cases)
    case (released oe)
    then show ?thesis using assms r by (auto simp: sound_defs split: if_splits)
  qed (use r in \<open>auto simp: sound_defs\<close>)
qed

text \<open>Sections composed of several parts: each part is sound from the state the previous one left.\<close>

declare not_None_eq [simp del] not_Some_eq [simp del]

lemma flush_sound_from:
  assumes "flushLocked env ts s = (err, s')" "rt_owner (rs_rt s) \<noteq> None" "rt_ownershipErr (rs_rt s) = None"
  shows "sound env s s'"
  using assms(1)
proof (cases rule: flush_cases)
  case (written p acquired)
  then show ?thesis using assms(2,3) by (auto simp: sound_defs same_but_loss_def)
next
  case (kept p e)
  then show ?thesis using assms(2,3) by (auto simp: sound_defs same_but_loss_def)
qed (simp add: sound_defs)

lemma flush_keeps:
  assumes "flushLocked env ts s = (err, s')"
  shows "rt_owner (rs_rt s') = rt_owner (rs_rt s)" "rt_executing (rs_rt s') = rt_executing (rs_rt s)" "rt_task (rs_rt s') = rt_task (rs_rt s)"
    "rt_standby (rs_rt s') = rt_standby (rs_rt s)" "rt_recoveryID (rs_rt s') = rt_recoveryID (rs_rt s)" "rs_closed s' = rs_closed s"
    "rt_ownershipErr (rs_rt s) \<noteq> None \<or> rt_ownershipErr (rs_rt s') \<noteq> None \<longrightarrow> rt_ownershipErr (rs_rt s') \<noteq> None"
    "rt_pending (rs_rt s') \<noteq> None \<longrightarrow> err \<noteq> None" "rt_pending (rs_rt s') \<noteq> None \<longrightarrow> rt_pending (rs_rt s') = rt_pending (rs_rt s)"
    "rt_pending (rs_rt s') = None \<and> rt_pending (rs_rt s) = Some p \<longrightarrow> rt_durableVersion (rs_rt s') = re_hash env (Some (Finalize_Record p))"
  using assms by (cases rule: flush_cases; auto simp: same_but_loss_def)+

lemma acquire_sound:
  assumes "acquireLocked env s = (err, s')"
  shows "sound env s s'"
  using assms
proof (cases rule: acquire_cases)
  case (fails e)
  then have "same_but_loss (rs_rt s) (rs_rt s')" by (auto simp: same_but_loss_def)
  then show ?thesis using fails(2,3) by (auto simp: sound_defs same_but_loss_def)
next
  case (owned pl rid r1 w0 w)
  then have t: "took env (rs_rt s) (rs_rt s')" using revalidated_took by metis
  have "pending_kept env (rs_rt s) (rs_rt s')" using t by (auto simp: pending_kept_def took_def)
  moreover have "rt_ok (rs_rt s')" if "rt_ok (rs_rt s)" using t that owned(2,3) by (simp add: rt_ok_def took_def)
  moreover have "attended (rs_rt s')" using t by (simp add: attended_def took_def)
  ultimately show ?thesis using owned(3) by (simp add: sound_def)
qed (simp add: sound_defs)

lemma acquire_owner:
  assumes "acquireLocked env s = (None, s')"
  shows "rt_owner (rs_rt s') \<noteq> None \<and> \<not> rt_ownerDone (rs_rt s') \<and> rt_ownershipErr (rs_rt s') = None \<and> rs_writes s' = rs_writes s
    \<and> rs_closed s' = rs_closed s \<and> rt_executing (rs_rt s') = rt_executing (rs_rt s) \<and> rt_task (rs_rt s') = rt_task (rs_rt s)
    \<and> rt_standby (rs_rt s') = rt_standby (rs_rt s) \<and> rt_recoveryID (rs_rt s') = rt_recoveryID (rs_rt s)
    \<and> rt_ownershipErr (rs_rt s) = None"
  using assms
proof (cases rule: acquire_cases)
  case (owned pl rid r1 w0 w)
  then have "took env (rs_rt s) (rs_rt s')" using revalidated_took by metis
  then show ?thesis using owned by (simp add: took_def)
qed simp_all

text \<open>
  A second part that leaves the pending checkpoint alone, or that is the only one to touch it, composes
  with a first one.
\<close>

lemma sound_trans:
  assumes "sound env s s1" "sound env s1 s2"
    "rt_pending (rs_rt s1) = rt_pending (rs_rt s) \<and> rt_durableID (rs_rt s1) = rt_durableID (rs_rt s)
     \<or> rt_pending (rs_rt s2) = rt_pending (rs_rt s1) \<and> rt_durableVersion (rs_rt s2) = rt_durableVersion (rs_rt s1)"
  shows "sound env s s2"
proof -
  have "pending_kept env (rs_rt s) (rs_rt s2)" if "rt_ok (rs_rt s)"
  proof -
    have k: "pending_kept env (rs_rt s) (rs_rt s1)" "pending_kept env (rs_rt s1) (rs_rt s2)" using assms(1,2) that by (auto simp: sound_def)
    then show ?thesis using assms(3) unfolding pending_kept_def replace_pending_def by metis
  qed
  then show ?thesis using assms(1,2) by (simp add: sound_def)
qed

lemma release_after:
  assumes "sound env s s1" "\<not> rt_executing (rs_rt s1)"
    "rt_pending (rs_rt s1) = None \<or> rt_ownershipErr (rs_rt s1) \<noteq> None \<or> rt_recoveryID (rs_rt s1) \<noteq> []"
  shows "sound env s (snd (releaseLocked env s1))"
proof -
  obtain e s2 where r: "releaseLocked env s1 = (e, s2)" by fastforce
  then have "rt_pending (rs_rt s2) = rt_pending (rs_rt s1) \<and> rt_durableVersion (rs_rt s2) = rt_durableVersion (rs_rt s1)"
    by (cases rule: release_cases) simp_all
  then show ?thesis using sound_trans[OF assms(1) sound_release[OF assms(2,3)]] r by simp
qed

lemma flush_no_more:
  assumes "flushLocked env ts s = (err, s')" "rt_pending (rs_rt s) = None"
  shows "s' = s"
  using assms by (simp add: flushLocked_def)

text \<open>Acquire, then flush: the checkpoint is touched by at most one of the two.\<close>

lemma acquire_flush_sound:
  assumes "acquireLocked env s = (None, s1)" "rs_rt s2 = (rs_rt s1)\<lparr>rt_executing := x, rt_stopExecution := y\<rparr>" "rs_writes s2 = rs_writes s1"
    "rs_closed s2 = rs_closed s1" "flushLocked env ts s2 = (err, s3)"
    "x \<longrightarrow> rt_task (rs_rt s) \<or> rt_standby (rs_rt s)"
  shows "sound env s s3"
proof -
  note own = acquire_owner[OF assms(1)]
  have a: "sound env s s1" by (rule acquire_sound[OF assms(1)])
  have b: "sound env s1 s2" using assms(2-4,6) own by (auto simp: sound_defs)
  have ab: "sound env s s2" using sound_trans[OF a b] assms(2) by simp
  have c: "sound env s2 s3" by (rule flush_sound_from[OF assms(5)]) (use assms(2) own in simp_all)
  show ?thesis
  proof (cases "rt_pending (rs_rt s2) = None")
    case True
    then show ?thesis using flush_no_more[OF assms(5)] ab by simp
  next
    case False
    have "rt_pending (rs_rt s1) = rt_pending (rs_rt s) \<and> rt_durableID (rs_rt s1) = rt_durableID (rs_rt s)"
      using assms(1)
    proof (cases rule: acquire_cases)
      case (owned pl rid r1 w0 w)
      then have "took env (rs_rt s) (rs_rt s1)" using revalidated_took by metis
      then show ?thesis using False assms(2) by (auto simp: took_def)
    qed simp_all
    then show ?thesis using sound_trans[OF ab c] assms(2) by simp
  qed
qed

lemma push_sound: "sound env s s1 \<Longrightarrow> sound env s (rt_push kind t s1)"
  by (simp add: sound_def)

lemma begin_flush_sound:
  assumes "\<And>err s3. flushLocked env ts s2 = (err, s3) \<Longrightarrow> sound env s s3"
  shows "sound env s (snd (begin_flush env ts s2))"
  using assms by (auto simp: begin_flush_def push_sound split: prod.split option.split)

lemma sound_begin:
  assumes "rt_task (rs_rt s) \<or> rt_standby (rs_rt s)" "\<not> rt_executing (rs_rt s)"
  shows "sound env s (snd (rt_begin env ts renewal ctx_after s))"
proof -
  obtain err s1 where a: "acquireLocked env s = (err, s1)" by fastforce
  show ?thesis
  proof (cases err)
    case (Some e)
    then show ?thesis using a acquire_sound[OF a] by (simp add: rt_begin_def Let_def)
  next
    case None
    note own = acquire_owner[OF a[unfolded None]]
    let ?s2 = "upd_rt (\<lambda>r. r\<lparr>rt_executing := True, rt_stopExecution := True\<rparr>) s1"
    have fl: "sound env s (snd (begin_flush env ts s3))" if "rs_rt s3 = rs_rt ?s2" "rs_writes s3 = rs_writes ?s2" "rs_closed s3 = rs_closed ?s2" for s3
      by (rule begin_flush_sound, rule acquire_flush_sound[OF a[unfolded None], where x = True and y = True]) (use that assms in auto)
    show ?thesis
    proof (cases "rt_owner (rs_rt s) = None")
      case True
      then show ?thesis using a None fl[of ?s2] by (simp add: rt_begin_def Let_def)
    next
      case False
      have s1: "s1 = s" using a[unfolded None] by (cases rule: acquire_cases) (use False in auto)
      obtain e comp s3 where c: "bounded_store_call renewal (ops_RenewLease (re_ops env) (own_lease (rs_rt ?s2)) (env_LeaseTTL (re_senv env))) ?s2
          = ((e, comp), s3)" by (metis prod.exhaust)
      note eq = bounded_call_eq[OF c]
      have s3: "sound env s s3" using eq s1 own assms by (simp add: sound_defs)
      have l: "sound env s (rt_ownerCancel (rt_lost c s3))" for c using eq s1 own assms by (simp add: sound_defs)
      show ?thesis
      proof (cases e)
        case ok: None
        then show ?thesis using a None c False fl[of s3] eq by (simp add: rt_begin_def Let_def)
      next
        case (Some x)
        then show ?thesis using a None c False s3 l by (simp add: rt_begin_def Let_def split: option.split)
      qed
    qed
  qed
qed

lemma sound_end: "sound env s (snd (rt_end env task s))"
proof -
  let ?s1 = "rt_signal (upd_rt (\<lambda>r. r\<lparr>rt_executing := False, rt_task := (rt_task r \<and> \<not> task), rt_stopExecution := False\<rparr>) s)"
  have 1: "sound env s ?s1" by (auto simp: sound_defs)
  show ?thesis
  proof (cases "\<not> rt_standby (rs_rt ?s1) \<and> rt_pending (rs_rt ?s1) = None")
    case True
    then have "sound env s (snd (releaseLocked env ?s1))" by (intro release_after[OF 1]) simp_all
    then show ?thesis using True by (simp add: rt_end_def Let_def)
  next
    case False
    then have "snd (rt_end env task s) = ?s1" unfolding rt_end_def Let_def by auto
    then show ?thesis using 1 by simp
  qed
qed

lemma sound_verify: "sound env s (snd (verifyOwnership s))"
  by (auto simp: verifyOwnership_def sound_defs split: option.split)

lemma sound_resolve: "sound env s (snd (resolve_locked env q s))"
proof (cases "rt_pending (rs_rt s)")
  case None
  obtain r s1 where r: "on_store (ops_Resolve (re_ops env) q) s = (r, s1)" by fastforce
  then show ?thesis using None on_store_eq[OF r] by (auto simp: resolve_locked_def sound_defs split: sum.split)
next
  case (Some p)
  obtain r s1 where r: "on_store (ops_Resolve (re_ops env) q) s = (r, s1)" by fastforce
  then show ?thesis using Some on_store_eq[OF r] by (auto simp: resolve_locked_def sound_defs split: sum.split)
qed

lemma keep_pending_fields [simp]:
  "rs_rt (keep_pending req s) = (rs_rt s)\<lparr>rt_pending := Some req, rt_wake := True\<rparr>" "rs_writes (keep_pending req s) = rs_writes s"
  "rs_closed (keep_pending req s) = rs_closed s"
  by (simp_all add: keep_pending_def)

lemma sound_finalize:
  assumes "rt_executing (rs_rt s)"
  shows "sound env s (snd (finalize_locked env ctx_done req s))"
proof (cases "rt_ownerDone (rs_rt s) \<or> rt_ownershipErr (rs_rt s) \<noteq> None")
  case True
  then show ?thesis by (auto simp: finalize_locked_def sound_defs)
next
  case False
  show ?thesis
  proof (cases "rt_pending (rs_rt s)")
    case (Some p)
    then show ?thesis using False assms by (auto simp: finalize_locked_def Let_def sound_defs)
  next
    case None
    obtain f s2 where f: "rt_Finalize_call env req s = (f, s2)" by fastforce
    then have eq2: "rs_rt s2 = rs_rt s" "rs_closed s2 = rs_closed s"
      by (auto simp: rt_Finalize_call_def Let_def split: prod.splits dest!: on_store_eq)
    show ?thesis using f eq2 None False assms by (cases f) (auto simp: finalize_locked_def Let_def sound_defs)
  qed
qed

lemma sound_leases:
  "sound env s (snd (rt_AcquireLease env target owner ttl s))" "sound env s (snd (rt_RenewLease env lease ttl s))"
  "sound env s (snd (rt_ReleaseLease env lease s))"
  by (rule sound_same_rt; auto simp: rt_AcquireLease_def rt_RenewLease_def rt_ReleaseLease_def split: sum.split prod.split bool.split)+

lemma sound_round: "sound env s (snd (owner_round env ts rid s))"
proof -
  let ?r = "rs_rt s"
  consider (gone) "rt_ownerID ?r \<noteq> rid \<or> rt_owner ?r = None"
    | (wait) "rt_ownerID ?r = rid" "rt_owner ?r \<noteq> None" "rt_ownerDone ?r" "rt_executing ?r \<or> rt_task ?r \<or> rt_standby ?r"
    | (ended) "rt_ownerID ?r = rid" "rt_owner ?r \<noteq> None" "rt_ownerDone ?r" "\<not> (rt_executing ?r \<or> rt_task ?r \<or> rt_standby ?r)"
    | (live) "rt_ownerID ?r = rid" "rt_owner ?r \<noteq> None" "\<not> rt_ownerDone ?r" by blast
  then show ?thesis
  proof cases
    case gone
    then show ?thesis by (auto simp: owner_round_def sound_defs)
  next
    case wait
    then show ?thesis by (simp add: owner_round_def sound_defs)
  next
    case ended
    let ?s1 = "if rt_pending ?r \<noteq> None then rt_lost None s else s"
    have 1: "sound env s ?s1" using ended by (simp add: sound_defs)
    have "sound env s (snd (releaseLocked env ?s1))" by (rule release_after[OF 1]) (use ended in simp_all)
    then show ?thesis using ended by (simp add: owner_round_def Let_def)
  next
    case live
    define s1 where "s1 = (if \<not> rt_executing ?r \<and> rt_pending ?r \<noteq> None
                  then case flushLocked env ts s of
                    (Some e, s') \<Rightarrow> if is_lease_lost e then rt_ownerCancel (rt_lost None s') else s'
                  | (None, s') \<Rightarrow> s' else s)"
    obtain err s' where f: "flushLocked env ts s = (err, s')" by fastforce
    note keep = flush_keeps[OF f]
    have fs: "sound env s s'" if "rt_ok ?r" using flush_sound_from[OF f live(2)] that live by (auto simp: rt_ok_def)
    have lost: "sound env s' (rt_ownerCancel (rt_lost None s'))" by (simp add: sound_defs)
    have l: "sound env s (rt_ownerCancel (rt_lost None s'))" if "rt_ok ?r" using sound_trans[OF fs[OF that] lost] by simp
    have s1: "sound env s s1" if "rt_ok ?r" using fs[OF that] l[OF that] f by (auto simp: s1_def sound_defs split: option.split)
    have ex: "rt_executing (rs_rt s1) = rt_executing ?r" "rt_task (rs_rt s1) = rt_task ?r" "rt_standby (rs_rt s1) = rt_standby ?r"
      using keep f by (auto simp: s1_def split: option.split)
    have eq: "snd (owner_round env ts rid s) = (if \<not> rt_task (rs_rt s1) \<and> \<not> rt_standby (rs_rt s1) \<and> rt_pending (rs_rt s1) = None
        then snd (releaseLocked env s1) else s1)"
      using live unfolding owner_round_def Let_def s1_def[symmetric] by simp
    show ?thesis
    proof (cases "rt_ok ?r")
      case True
      have "sound env s (snd (releaseLocked env s1))" if p: "\<not> rt_task (rs_rt s1)" "\<not> rt_standby (rs_rt s1)" "rt_pending (rs_rt s1) = None"
      proof -
        have "\<not> rt_executing (rs_rt s1)" using True ex p by (auto simp: rt_ok_def)
        then show ?thesis using release_after[OF s1[OF True]] p by simp
      qed
      then show ?thesis using s1[OF True] unfolding eq by simp
    qed (simp add: sound_def)
  qed
qed

lemma release_lost:
  assumes "sound env s s2" "rt_owner (rs_rt s2) \<noteq> None" "\<not> rt_executing (rs_rt s2)"
  shows "sound env s (snd (releaseLocked env (rt_lost c s2)))"
proof -
  obtain e s3 where r: "releaseLocked env (rt_lost c s2) = (e, s3)" by fastforce
  then show ?thesis
  proof (cases rule: release_cases)
    case (released oe)
    then have "oe \<noteq> None" by (auto split: if_splits)
    moreover have "pending_kept env (rs_rt s) (rs_rt s3)" if "rt_ok (rs_rt s)"
      using assms(1) that released(4) by (simp add: sound_def pending_kept_def)
    ultimately show ?thesis using assms released r by (simp add: sound_def rt_ok_def attended_def)
  qed (use assms(2) in simp)
qed

lemma sound_attempt:
  assumes "rt_recoveryID (rs_rt s) \<noteq> ''''"
  shows "sound env s (snd (released_attempt env ts s))"
proof (cases "rt_ok (rs_rt s)")
  case ok: True
  show ?thesis
proof (cases "rt_owner (rs_rt s) \<noteq> None \<or> rt_pending (rs_rt s) = None \<or> rt_ownershipErr (rs_rt s) \<noteq> None")
  case True
  then show ?thesis by (auto simp: released_attempt_def sound_defs)
next
  case False
  obtain err s1 where a: "acquireLocked env s = (err, s1)" by fastforce
  show ?thesis
  proof (cases err)
    case (Some e)
    then have "snd (released_attempt env ts s) = s1" using False a by (simp add: released_attempt_def Let_def)
    then show ?thesis using acquire_sound[OF a] by simp
  next
    case None
    note own = acquire_owner[OF a[unfolded None]]
    obtain fe s2 where f: "flushLocked env ts s1 = (fe, s2)" by fastforce
    note keep = flush_keeps[OF f]
    let ?s3 = "case fe of None \<Rightarrow> s2 | Some e \<Rightarrow> if is_lease_lost e then rt_lost None s2 else s2"
    have idle: "\<not> rt_executing (rs_rt s)" using ok False by (simp add: rt_ok_def)
    have 2: "sound env s s2"
      by (rule acquire_flush_sound[OF a[unfolded None] _ refl refl f, where x = False and y = "rt_stopExecution (rs_rt s1)"])
        (use own idle in simp_all)
    have eq: "snd (released_attempt env ts s) = snd (releaseLocked env ?s3)" using False a None f by (simp add: released_attempt_def Let_def)
    have "sound env s (snd (releaseLocked env s2))" by (rule release_after[OF 2]) (use keep own idle assms in simp_all)
    moreover have "sound env s (snd (releaseLocked env (rt_lost None s2)))" by (rule release_lost[OF 2]) (use keep own idle in simp_all)
    ultimately show ?thesis unfolding eq by (simp split: option.split)
  qed
qed
qed (simp add: sound_def)

lemma start_sound:
  assumes "startReleasedRecoveryLocked env s = (err, s')"
  shows "sound env s s' \<and> rt_pending (rs_rt s') = rt_pending (rs_rt s) \<and> rt_durableID (rs_rt s') = rt_durableID (rs_rt s)
    \<and> rt_durableVersion (rs_rt s') = rt_durableVersion (rs_rt s)"
  using assms
proof (cases rule: start_cases)
  case (fails e)
  then show ?thesis by (simp add: sound_same_rt)
next
  case (started rid)
  then show ?thesis by (simp add: sound_defs)
qed (simp add: sound_same_rt)

text \<open>Starting the recovery is what keeps a released checkpoint attended.\<close>

lemma start_attends:
  assumes "startReleasedRecoveryLocked env s = (err, s')" "good_entropy env"
  shows "attended (rs_rt s') \<or> rs_closed s'"
  using assms(1)
proof (cases rule: start_cases)
  case idle
  then show ?thesis by (auto simp: attended_def)
next
  case (fails e)
  then have "\<not> (\<exists>msg. e = RtEntropy msg)" using assms(2) unfolding good_entropy_def by (metis fst_conv)
  then show ?thesis using fails by auto
next
  case (started rid)
  then show ?thesis by (simp add: attended_def)
qed

lemma sound_exit:
  assumes "ctx_done \<longrightarrow> rs_closed s" "rid \<noteq> ''''"
  shows "sound env s (released_exit env ctx_done rid s)"
proof -
  define s1 where "s1 = upd_rt (\<lambda>r. if rt_recoveryID r = rid then r\<lparr>rt_recoveryID := []\<rparr> else r) s"
  have f: "rt_pending (rs_rt s1) = rt_pending (rs_rt s)" "rt_owner (rs_rt s1) = rt_owner (rs_rt s)"
    "rt_ownershipErr (rs_rt s1) = rt_ownershipErr (rs_rt s)" "rs_writes s1 = rs_writes s" "rs_closed s1 = rs_closed s"
    "rt_ok (rs_rt s) \<longrightarrow> rt_ok (rs_rt s1)"
    by (auto simp: s1_def rt_ok_def)
  define s2 where "s2 = (if rt_owner (rs_rt s1) = None \<and> rt_pending (rs_rt s1) \<noteq> None \<and> rt_ownershipErr (rs_rt s1) = None \<and> \<not> ctx_done
                then case startReleasedRecoveryLocked env s1 of
                  (None, s') \<Rightarrow> s'
                | (Some e, s') \<Rightarrow> if e = RtAgentClosed then s' else upd_rt (\<lambda>r. r\<lparr>rt_ownershipErr := Some e\<rparr>) s'
                else s1)"
  have eq: "released_exit env ctx_done rid s = unregisterRun rid s2"
    unfolding released_exit_def Let_def s1_def[symmetric] s2_def ..
  have "sound env s s2"
  proof (cases "rt_owner (rs_rt s1) = None \<and> rt_pending (rs_rt s1) \<noteq> None \<and> rt_ownershipErr (rs_rt s1) = None \<and> \<not> ctx_done")
    case False
    then have "s2 = s1" by (auto simp: s2_def)
    then show ?thesis using f False assms(1) by (auto simp: sound_def pending_kept_def attended_def)
  next
    case True
    obtain err s3 where st: "startReleasedRecoveryLocked env s1 = (err, s3)" by fastforce
    note ss = start_sound[OF st]
    have s2: "s2 = (case err of None \<Rightarrow> s3 | Some e \<Rightarrow> if e = RtAgentClosed then s3 else upd_rt (\<lambda>r. r\<lparr>rt_ownershipErr := Some e\<rparr>) s3)"
      using True st by (simp add: s2_def split: option.split)
    have own: "rt_owner (rs_rt s3) = None" "rs_writes s3 = rs_writes s"
      using st by (cases rule: start_cases; use True f in simp)+
    have "sound env s s3" using ss f start_attends[OF st] by (simp add: sound_def pending_kept_def)
    then show ?thesis using own unfolding s2 by (cases err) (auto simp: sound_def rt_ok_def pending_kept_def attended_def)
  qed
  then show ?thesis unfolding eq by (simp add: sound_def)
qed

lemma sound_open: "sound env s (snd (standby_open env s))"
proof -
  obtain err s1 where a: "acquireLocked env s = (err, s1)" by fastforce
  show ?thesis
  proof (cases "rt_standby (rs_rt s) \<or> rt_task (rs_rt s) \<or> err \<noteq> None")
    case True
    then show ?thesis using a acquire_sound[OF a] by (auto simp: standby_open_def sound_same_rt split: option.split)
  next
    case False
    then have own: "acquireLocked env s = (None, s1)" using a by simp
    have "sound env s1 (upd_rt (\<lambda>r. r\<lparr>rt_standby := True\<rparr>) s1)" using acquire_owner[OF own] False by (auto simp: sound_defs)
    from sound_trans[OF acquire_sound[OF own] this] show ?thesis using False own by (simp add: standby_open_def)
  qed
qed

lemma sound_close:
  assumes "\<not> rt_executing (rs_rt s)"
  shows "sound env s (snd (standby_close env s))"
proof -
  let ?s0 = "upd_rt (\<lambda>r. r\<lparr>rt_standby := False\<rparr>) s"
  obtain err s1 where r: "releaseLocked env ?s0 = (err, s1)" by fastforce
  obtain serr s2 where st: "startReleasedRecoveryLocked env s1 = (serr, s2)" by fastforce
  note ss = start_sound[OF st]
  have w: "rs_writes s2 = rs_writes s1" "rs_closed s2 = rs_closed s1" "rt_ownershipErr (rs_rt s2) = rt_ownershipErr (rs_rt s1)"
    using st by (cases rule: start_cases; simp)+
  have 1: "rt_ok (rs_rt s) \<longrightarrow> rt_ok (rs_rt s1) \<and> rt_pending (rs_rt s1) = rt_pending (rs_rt s)
      \<and> (rt_ownershipErr (rs_rt s) \<noteq> None \<longrightarrow> rt_ownershipErr (rs_rt s1) \<noteq> None) \<and> rs_writes s1 = rs_writes s \<and> rs_closed s1 = rs_closed s
      \<and> (err \<noteq> None \<longrightarrow> rt_ownershipErr (rs_rt s1) \<noteq> None)"
    using r
  proof (cases rule: release_cases)
    case (released oe)
    then show ?thesis using assms by (cases "err = None") (simp_all add: rt_ok_def)
  qed (use assms in \<open>simp add: rt_ok_def\<close>)
  have eq: "snd (standby_close env s) = (if err = None then rt_signal s2 else rt_signal s1)"
    using r st by (simp add: standby_close_def split: option.split)
  have "sound env s (rt_signal s1)" if "err \<noteq> None" using 1 that by (simp add: sound_def pending_kept_def attended_def)
  moreover have "rt_ok (rs_rt s1) \<longrightarrow> rt_ok (rs_rt s2)" using ss by (simp add: sound_def)
  then have "sound env s (rt_signal s2)" using 1 ss w start_attends[OF st] by (simp add: sound_def pending_kept_def) blast
  ultimately show ?thesis unfolding eq by simp
qed

lemma step_sound: "rt_step env s s' \<Longrightarrow> sound env s s'"
proof (induction rule: rt_step.induct)
  case (context_ends s)
  then show ?case by (auto simp: sound_defs)
next
  case (renewal_fails s p e)
  then show ?case by (auto simp: sound_defs)
qed (auto intro: sound_reserve sound_begin sound_end sound_verify sound_resolve sound_finalize sound_leases sound_round sound_attempt
    sound_exit sound_open sound_close sound_same_rt)

subsection \<open>A checkpoint stops being pending only with the store's word\<close>

text \<open>
  The store acknowledged a \<^verbatim>\<open>Finalize\<close> of the checkpoint during the step, or it returned, for the
  thread's key, a record with the checkpoint's digest.
\<close>

definition store_has :: "'b rt_env \<Rightarrow> 'b rstate \<Rightarrow> 'b rstate \<Rightarrow> FinalizeRequest \<Rightarrow> bool" where
  "store_has env s s' p \<longleftrightarrow>
     (\<exists>own acquired. (flush_request own acquired p, None) \<in> set (drop (length (rs_writes s)) (rs_writes s')))
     \<or> (\<exists>w rec w'. ops_Resolve (re_ops env) (by_key (rt_key (rs_rt s))) w = (Inr rec, w')
          \<and> re_hash env rec = re_hash env (Some (Finalize_Record p)))"

definition settled :: "'b rt_env \<Rightarrow> 'b rstate \<Rightarrow> 'b rstate \<Rightarrow> bool" where
  "settled env s s' \<longleftrightarrow> rt_key (rs_rt s') = rt_key (rs_rt s) \<and> (\<exists>new. rs_writes s' = rs_writes s @ new)
     \<and> (\<forall>p. rt_pending (rs_rt s) = Some p \<and> rt_pending (rs_rt s') = None \<longrightarrow> store_has env s s' p)"

lemma settled_same:
  "\<lbrakk>rt_key (rs_rt s') = rt_key (rs_rt s); rs_writes s' = rs_writes s; rt_pending (rs_rt s') = rt_pending (rs_rt s)\<rbrakk> \<Longrightarrow> settled env s s'"
  by (auto simp: settled_def)

lemma settled_trans:
  assumes "settled env s s1" "settled env s1 s2" "rt_pending (rs_rt s1) = None \<or> rt_pending (rs_rt s1) = rt_pending (rs_rt s)"
  shows "settled env s s2"
proof -
  obtain n1 n2 where n: "rs_writes s1 = rs_writes s @ n1" "rs_writes s2 = rs_writes s1 @ n2"
    and k: "rt_key (rs_rt s1) = rt_key (rs_rt s)" "rt_key (rs_rt s2) = rt_key (rs_rt s1)"
    using assms(1,2) by (auto simp: settled_def)
  have up: "store_has env s s1 p \<Longrightarrow> store_has env s s2 p" "store_has env s1 s2 p \<Longrightarrow> store_has env s s2 p" for p
    using n k by (auto simp: store_has_def)
  show ?thesis using assms up n k unfolding settled_def by (metis append_assoc)
qed

lemma settled_flush: "flushLocked env ts s = (err, s') \<Longrightarrow> settled env s s'"
  by (erule flush_cases) (auto simp: settled_def store_has_def same_but_loss_def)

lemma settled_acquire:
  assumes "acquireLocked env s = (err, s')"
  shows "settled env s s' \<and> (rt_pending (rs_rt s') = None \<or> rt_pending (rs_rt s') = rt_pending (rs_rt s))"
  using assms
proof (cases rule: acquire_cases)
  case (owned pl rid r1 w0 w)
  then have "took env (rs_rt s) (rs_rt s')" using revalidated_took by metis
  moreover have "store_has env s s' p" if "rt_pending r1 = None" "rt_pending (rs_rt s) = Some p" for p
  proof -
    from owned(5) that obtain rec where "ops_Resolve (re_ops env) (by_key (rt_key (rs_rt s))) w = (Inr rec, rs_world s')"
      "re_hash env rec = re_hash env (Some (Finalize_Record p))"
      by (auto simp: revalidated_def split: if_splits)
    then show ?thesis unfolding store_has_def by blast
  qed
  ultimately show ?thesis using owned(7,8) by (auto simp: settled_def took_def)
qed (auto simp: settled_def)

lemma settled_after:
  assumes "settled env s s1" "rt_key (rs_rt s2) = rt_key (rs_rt s1)" "rs_writes s2 = rs_writes s1"
    "rt_pending (rs_rt s2) = rt_pending (rs_rt s1)"
  shows "settled env s s2"
  using assms by (simp add: settled_def store_has_def)

lemma settled_release: "settled env s s1 \<Longrightarrow> settled env s (snd (releaseLocked env s1))"
proof -
  assume a: "settled env s s1"
  obtain e s2 where r: "releaseLocked env s1 = (e, s2)" by fastforce
  then have "rs_writes s2 = rs_writes s1 \<and> rt_key (rs_rt s2) = rt_key (rs_rt s1) \<and> rt_pending (rs_rt s2) = rt_pending (rs_rt s1)"
    by (cases rule: release_cases) simp_all
  then show ?thesis using r settled_after[OF a, of s2] by simp
qed

lemma settled_begin_flush: "settled env s (snd (begin_flush env ts s))"
proof -
  obtain err s' where f: "flushLocked env ts s = (err, s')" by fastforce
  have "settled env s (rt_push k t s')" for k t by (rule settled_after[OF settled_flush[OF f]]) simp_all
  then show ?thesis using f settled_flush[OF f] by (simp add: begin_flush_def split: option.split)
qed

lemma settled_begin: "settled env s (snd (rt_begin env ts renewal ctx_after s))"
proof -
  obtain err s1 where a: "acquireLocked env s = (err, s1)" by fastforce
  note acq = settled_acquire[OF a]
  let ?s2 = "upd_rt (\<lambda>r. r\<lparr>rt_executing := True, rt_stopExecution := True\<rparr>) s1"
  obtain e comp s3 where c: "bounded_store_call renewal (ops_RenewLease (re_ops env) (own_lease (rs_rt ?s2)) (env_LeaseTTL (re_senv env))) ?s2
      = ((e, comp), s3)" by (metis prod.exhaust)
  note eq = bounded_call_eq[OF c]
  have same: "settled env s s'" if "rs_rt s' = rs_rt ?s2" "rs_writes s' = rs_writes s1" for s'
    by (rule settled_after[of env s s1]) (use that acq in simp_all)
  have fl: "settled env s (snd (begin_flush env ts s'))" if "rs_rt s' = rs_rt ?s2" "rs_writes s' = rs_writes s1" for s'
    by (rule settled_trans[OF same settled_begin_flush]) (use that acq in simp_all)
  have s3: "settled env s s3" by (rule same) (use eq in simp_all)
  have lost: "settled env s (rt_ownerCancel (rt_lost z s3))" for z by (rule settled_after[OF s3]) simp_all
  have f2: "settled env s (snd (begin_flush env ts ?s2))" "settled env s (snd (begin_flush env ts s3))"
    by (rule fl, use eq in simp_all)+
  show ?thesis
  proof (cases err)
    case None
    then show ?thesis using a c f2 s3 lost by (simp add: rt_begin_def Let_def split: option.split)
  qed (use a acq in \<open>simp add: rt_begin_def Let_def\<close>)
qed

lemma settled_round: "settled env s (snd (owner_round env ts rid s))"
proof -
  obtain err s' where f: "flushLocked env ts s = (err, s')" by fastforce
  have fs: "settled env s s'" by (rule settled_flush[OF f])
  have l: "settled env s (rt_ownerCancel (rt_lost None s'))" by (rule settled_after[OF fs]) simp_all
  have s: "settled env s s" "settled env s (rt_lost None s)" by (simp_all add: settled_same)
  define s1 where "s1 = (if \<not> rt_executing (rs_rt s) \<and> rt_pending (rs_rt s) \<noteq> None
                  then case flushLocked env ts s of
                    (Some e, s') \<Rightarrow> if is_lease_lost e then rt_ownerCancel (rt_lost None s') else s'
                  | (None, s') \<Rightarrow> s' else s)"
  have s1: "settled env s s1" using f fs l s by (simp add: s1_def split: option.split)
  show ?thesis unfolding owner_round_def Let_def s1_def[symmetric] using s s1 by (simp add: settled_release)
qed

lemma settled_attempt: "settled env s (snd (released_attempt env ts s))"
proof -
  obtain err s1 where a: "acquireLocked env s = (err, s1)" by fastforce
  obtain fe s2 where f: "flushLocked env ts s1 = (fe, s2)" by fastforce
  note acq = settled_acquire[OF a]
  have 2: "settled env s s2" using settled_trans[OF _ settled_flush[OF f]] acq by blast
  have l: "settled env s (rt_lost None s2)" by (rule settled_after[OF 2]) simp_all
  show ?thesis using a f acq 2 l unfolding released_attempt_def Let_def
    by (simp add: settled_same settled_release split: option.split)
qed

lemma start_same:
  "startReleasedRecoveryLocked env s = (err, s') \<Longrightarrow> rt_key (rs_rt s') = rt_key (rs_rt s) \<and> rs_writes s' = rs_writes s
     \<and> rt_pending (rs_rt s') = rt_pending (rs_rt s)"
  by (erule start_cases) simp_all

lemma settled_exit: "settled env s (released_exit env ctx_done rid s)"
proof -
  let ?s1 = "upd_rt (\<lambda>r. if rt_recoveryID r = rid then r\<lparr>rt_recoveryID := ''''\<rparr> else r) s"
  obtain err s3 where st: "startReleasedRecoveryLocked env ?s1 = (err, s3)" by fastforce
  show ?thesis by (rule settled_same) (use st start_same[OF st] in \<open>simp_all add: released_exit_def Let_def split: option.split\<close>)
qed

lemma settled_close: "settled env s (snd (standby_close env s))"
proof -
  let ?s0 = "upd_rt (\<lambda>r. r\<lparr>rt_standby := False\<rparr>) s"
  obtain err s1 where r: "releaseLocked env ?s0 = (err, s1)" by fastforce
  obtain serr s2 where st: "startReleasedRecoveryLocked env s1 = (serr, s2)" by fastforce
  have "settled env s ?s0" by (rule settled_same) simp_all
  from settled_release[OF this] r have s1: "settled env s s1" by simp
  have "settled env s (rt_signal s1)" "settled env s (rt_signal s2)"
    by (rule settled_after[OF s1], use start_same[OF st] in simp_all)+
  then show ?thesis using r st by (simp add: standby_close_def split: option.split)
qed

lemma step_settled:
  assumes "rt_step env s s'"
  shows "settled env s s'"
  using assms
proof cases
  case (finalize ctx_done req)
  obtain f s2 where f: "rt_Finalize_call env req s = (f, s2)" by fastforce
  then have "rs_rt s2 = rs_rt s" "\<exists>new. rs_writes s2 = rs_writes s @ new"
    by (auto simp: rt_Finalize_call_def Let_def split: prod.splits dest!: on_store_eq)
  with f show ?thesis unfolding finalize(1) by (auto simp: finalize_locked_def Let_def settled_def split: option.split)
next
  case (end_execution task)
  have "settled env s (rt_signal (upd_rt (\<lambda>r. r\<lparr>rt_executing := False, rt_task := (rt_task r \<and> \<not> task), rt_stopExecution := False\<rparr>) s))"
    by (rule settled_same) simp_all
  then show ?thesis unfolding end_execution by (auto simp: rt_end_def Let_def intro: settled_release)
next
  case (resolve q)
  obtain r s1 where r: "on_store (ops_Resolve (re_ops env) q) s = (r, s1)" by fastforce
  then show ?thesis using on_store_eq[OF r] unfolding resolve
    by (auto simp: resolve_locked_def settled_def split: sum.split option.split)
next
  case open_standby
  obtain err s1 where a: "acquireLocked env s = (err, s1)" by fastforce
  note acq = settled_acquire[OF a]
  then have "settled env s (upd_rt (\<lambda>r. r\<lparr>rt_standby := True\<rparr>) s1)" by (auto intro: settled_after)
  with a acq show ?thesis unfolding open_standby by (auto simp: standby_open_def settled_same split: option.split)
next
  case reserve
  show ?thesis unfolding reserve by (rule settled_same) (simp_all add: reserveTask_def)
next
  case verify
  show ?thesis unfolding verify by (rule settled_same) (simp_all add: verifyOwnership_def split: option.split)
next
  case (acquire_lease target owner ttl)
  show ?thesis unfolding acquire_lease
    by (rule settled_same) (simp_all add: rt_AcquireLease_def split: sum.split prod.split bool.split)
next
  case (renew_lease lease ttl)
  show ?thesis unfolding renew_lease
    by (rule settled_same) (simp_all add: rt_RenewLease_def split: sum.split prod.split bool.split)
next
  case (release_lease lease)
  show ?thesis unfolding release_lease by (rule settled_same) (simp_all add: rt_ReleaseLease_def)
qed (simp_all add: settled_begin settled_round settled_attempt settled_exit settled_close settled_same)

end
