(* ===== verification/SessionTrace.thy ===== *)
theory SessionTrace
  imports SessionContract
begin

text \<open>
  The order in which the coordinator talks to its store. The store's operations are wrapped so
  that they record what was granted, given back and looked up; the coordinator's definitions,
  which work over any world, run on the wrapped store unchanged. A run on the wrapped store is a
  run on the store itself, and every lookup by key happens while the key's lease is held.
\<close>

datatype store_event = Granted string | GaveBack string | LookedUp SessionQuery

definition traced :: "('w, SessionError, 'a) step \<Rightarrow> ('a \<Rightarrow> store_event list)
   \<Rightarrow> ('w \<times> store_event list, SessionError, 'a) step" where
  "traced m note_of = (\<lambda>(w, log). case m w of
     (Inl e, w') \<Rightarrow> (Inl e, (w', log)) | (Inr x, w') \<Rightarrow> (Inr x, (w', log @ note_of x)))"

definition traced_store :: "'w SessionStore \<Rightarrow> ('w \<times> store_event list) SessionStore" where
  "traced_store st =
     \<lparr>Store_Resolve = (\<lambda>q. traced (Store_Resolve st q) (\<lambda>_. [LookedUp q])),
      Store_Finalize = (\<lambda>req. traced (Store_Finalize st req) (\<lambda>_. [])),
      Store_AcquireLease = (\<lambda>target owner ttl. traced (Store_AcquireLease st target owner ttl) (\<lambda>_. [Granted target])),
      Store_RenewLease = (\<lambda>l ttl. traced (Store_RenewLease st l ttl) (\<lambda>_. [])),
      Store_ReleaseLease = (\<lambda>l. traced (Store_ReleaseLease st l) (\<lambda>_. [GaveBack (SLease_Target l)]))\<rparr>"

definition traced_env :: "'w session_env \<Rightarrow> ('w \<times> store_event list) session_env" where
  "traced_env env =
     \<lparr>env_stableHash = env_stableHash env, env_paramsHash = env_paramsHash env,
      env_entropyRead = (\<lambda>(w, log). case env_entropyRead env w of (ent, w') \<Rightarrow> (ent, (w', log))),
      env_now = (\<lambda>(w, log). case env_now env w of (t, w') \<Rightarrow> (t, (w', log))),
      env_LeaseTTL = env_LeaseTTL env, env_LeaseRenewInterval = env_LeaseRenewInterval env\<rparr>"

subsection \<open>A traced run is a run\<close>

definition forget :: "'a \<times> (resolvedSessionPlan \<times> ('w \<times> store_event list)) \<Rightarrow> 'a \<times> (resolvedSessionPlan \<times> 'w)" where
  "forget = (\<lambda>(r, (p, (w, log))). (r, (p, w)))"

definition projects ::
  "('w \<times> store_event list, 'a) plan_step \<Rightarrow> ('w, 'a) plan_step \<Rightarrow> bool" where
  "projects m1 m2 \<longleftrightarrow> (\<forall>p w log. forget (m1 (p, (w, log))) = m2 (p, w))"

named_theorems projects_intros \<open>traced steps against plain ones\<close>

lemma projects_seqE [projects_intros]:
  "projects m1 m2 \<Longrightarrow> (\<And>x. projects (f1 x) (f2 x)) \<Longrightarrow> projects (seqE m1 f1) (seqE m2 f2)"
proof -
  assume m: "projects m1 m2" and f: "\<And>x. projects (f1 x) (f2 x)"
  have "forget (seqE m1 f1 (p, (w, log))) = seqE m2 f2 (p, w)" for p w log
  proof -
    obtain r p1 w1 l1 where run: "m1 (p, (w, log)) = (r, (p1, (w1, l1)))" by (metis prod.exhaust)
    with m have "m2 (p, w) = (r, (p1, w1))" unfolding projects_def forget_def by (metis case_prod_conv)
    moreover have "forget (f1 x (p1, (w1, l1))) = f2 x (p1, w1)" for x using f by (simp add: projects_def)
    ultimately show ?thesis using run by (cases r) (simp_all add: seqE_def forget_def)
  qed
  then show ?thesis by (simp add: projects_def)
qed

lemma projects_doneE [projects_intros]: "projects (doneE x) (doneE x)"
  by (simp add: projects_def forget_def doneE_def)

lemma projects_failE [projects_intros]: "projects (failE x) (failE x)"
  by (simp add: projects_def forget_def failE_def)

lemma projects_if [projects_intros]:
  "(b \<Longrightarrow> projects m1 m2) \<Longrightarrow> (\<not> b \<Longrightarrow> projects n1 n2) \<Longrightarrow> projects (if b then m1 else n1) (if b then m2 else n2)"
  by simp

lemma projects_option [projects_intros]:
  "projects m1 m2 \<Longrightarrow> (\<And>y. projects (f1 y) (f2 y))
   \<Longrightarrow> projects (case x of None \<Rightarrow> m1 | Some y \<Rightarrow> f1 y) (case x of None \<Rightarrow> m2 | Some y \<Rightarrow> f2 y)"
  by (cases x) auto

lemma projects_set_plan [projects_intros]: "projects (set_plan f) (set_plan f)"
  by (simp add: projects_def forget_def set_plan_def)

lemma projects_Resolve [projects_intros]:
  "projects (in_world (Store_Resolve (traced_store st) q)) (in_world (Store_Resolve st q))"
  by (auto simp: projects_def forget_def in_world_def traced_store_def traced_def split: prod.splits sum.splits)

lemma projects_newEngineSessionID [projects_intros]:
  "projects (in_world (newEngineSessionID (traced_env env) dt fp)) (in_world (newEngineSessionID env dt fp))"
  by (auto simp: projects_def forget_def in_world_def traced_env_def newEngineSessionID_def split: prod.splits)

lemma projects_acquireLease [projects_intros]:
  "projects (acquireLease (traced_env env) (traced_store st) target) (acquireLease env st target)"
  by (auto simp: projects_def forget_def acquireLease_def traced_store_def traced_def traced_env_def
      split: prod.splits sum.splits)

lemma projects_acquireCurrent [projects_intros]:
  "projects (acquireCurrent (traced_env env) (traced_store st) cur) (acquireCurrent env st cur)"
  unfolding acquireCurrent_def by (intro projects_intros)

lemma projects_prepareForkParent [projects_intros]:
  "projects (prepareForkParent (traced_env env) (traced_store st) req) (prepareForkParent env st req)"
  unfolding prepareForkParent_def forkParentCandidate_def by (intro projects_intros)

lemma projects_prepareMode [projects_intros]:
  "projects (prepareMode (traced_env env) (traced_store st) req identity dt fp cur)
     (prepareMode env st req identity dt fp cur)"
  unfolding prepareMode_def prepareContinueOnly_def prepareContinueOrStart_def prepareFork_def Let_def
  by (intro projects_intros)

lemma projects_prepareLeased:
  "projects (prepareLeased (traced_env env) (traced_store st) req identity dt fp)
     (prepareLeased env st req identity dt fp)"
  unfolding prepareLeased_def resolveCurrent_def Let_def by (intro projects_intros)

lemma traced_newLeaseOwner:
  "newLeaseOwner (traced_env env) identity dt req (w, log)
     = (case newLeaseOwner env identity dt req w of (r, w') \<Rightarrow> (r, (w', log)))"
  by (auto simp: newLeaseOwner_def traced_env_def split: prod.splits)

lemma traced_prepare_success:
  assumes "prepareSessionPlan env (Some st) req identity dt fp w = (Inr (Some p), w')"
  obtains owner w1 log where
    "validateSessionRequest (resolveSessionDefaults req) = None"
    and "prepareLeased (traced_env env) (traced_store st) (resolveSessionDefaults req) identity dt fp
           (new_plan (resolveSessionDefaults req) owner, (w1, [])) = (Inr (), (p, (w', log)))"
    and "prepareSessionPlan (traced_env env) (Some (traced_store st)) req identity dt fp (w, [])
           = (Inr (Some p), (w', log))"
proof -
  let ?req = "resolveSessionDefaults req"
  from assms obtain owner w1 where val: "validateSessionRequest ?req = None"
    and mode: "SReq_Mode ?req \<noteq> SessionStateless"
    and own: "newLeaseOwner env identity dt ?req w = (Inr owner, w1)"
    and prep: "prepareLeased env st ?req identity dt fp (new_plan ?req owner, w1) = (Inr (), (p, w'))"
    by (auto simp: prepareSessionPlan_def Let_def split: if_splits sum.splits prod.splits option.splits)
  have "forget (prepareLeased (traced_env env) (traced_store st) ?req identity dt fp (new_plan ?req owner, (w1, [])))
      = (Inr (), (p, w'))"
    using projects_prepareLeased [of env st ?req identity dt fp] prep by (simp add: projects_def)
  then obtain log where
    run: "prepareLeased (traced_env env) (traced_store st) ?req identity dt fp (new_plan ?req owner, (w1, []))
      = (Inr (), (p, (w', log)))"
    by (auto simp: forget_def split: prod.splits)
  with val mode own show thesis
    by (intro that [of owner w1 log]) (simp_all add: prepareSessionPlan_def Let_def traced_newLeaseOwner)
qed

subsection \<open>Lookups by key are made under the key's lease\<close>

fun held_after :: "string set \<Rightarrow> store_event list \<Rightarrow> string set" where
  "held_after held [] = held"
| "held_after held (Granted t # evs) = held_after (insert t held) evs"
| "held_after held (GaveBack t # evs) = held_after (held - {t}) evs"
| "held_after held (LookedUp q # evs) = held_after held evs"

fun lookups_leased :: "string set \<Rightarrow> store_event list \<Rightarrow> bool" where
  "lookups_leased held [] \<longleftrightarrow> True"
| "lookups_leased held (Granted t # evs) \<longleftrightarrow> lookups_leased (insert t held) evs"
| "lookups_leased held (GaveBack t # evs) \<longleftrightarrow> lookups_leased (held - {t}) evs"
| "lookups_leased held (LookedUp q # evs) \<longleftrightarrow>
     (SQuery_Key q \<noteq> '''' \<longrightarrow> sessionKeyLeaseID (SQuery_Namespace q) (SQuery_Key q) \<in> held)
     \<and> lookups_leased held evs"

lemma held_after_append: "held_after held (xs @ ys) = held_after (held_after held xs) ys"
  by (induction held xs rule: held_after.induct) auto

lemma lookups_leased_append:
  "lookups_leased held (xs @ ys) \<longleftrightarrow> lookups_leased held xs \<and> lookups_leased (held_after held xs) ys"
  by (induction held xs rule: held_after.induct) auto

text \<open>So far every lookup was leased, and the leases \<open>K\<close> have been granted and not given back.\<close>

definition holding :: "string set \<Rightarrow> resolvedSessionPlan \<times> ('w \<times> store_event list) \<Rightarrow> bool" where
  "holding K = (\<lambda>(p, (w, log)). lookups_leased {} log \<and> K \<subseteq> held_after {} log)"

lemma holding_mono: "holding K s \<Longrightarrow> K' \<subseteq> K \<Longrightarrow> holding K' s"
  by (auto simp: holding_def)

lemma keeps_holding_set_plan: "keeps (holding K) (set_plan f)"
  by (rule keeps_set_plan) (simp add: holding_def)

lemma keeps_holding_new_id: "keeps (holding K) (in_world (newEngineSessionID (traced_env env) dt fp))"
  by (rule keeps_in_world)
    (auto simp: holding_def newEngineSessionID_def traced_env_def split: prod.splits)

lemma keeps_holding_by_id: "keeps (holding K) (in_world (Store_Resolve (traced_store st) (session_by_id sid)))"
  by (rule keeps_in_world)
    (auto simp: holding_def traced_store_def traced_def session_by_id_def held_after_append
      lookups_leased_append split: prod.splits sum.splits)

lemma keeps_holding_by_key:
  "sessionKeyLeaseID ns k \<in> K \<Longrightarrow>
     keeps (holding K) (in_world (Store_Resolve (traced_store st) (session_by_key ns k)))"
  by (rule keeps_in_world)
    (auto simp: holding_def traced_store_def traced_def session_by_key_def held_after_append
      lookups_leased_append split: prod.splits sum.splits)

lemma acquireLease_holding:
  assumes "acquireLease env (traced_store st) t s = (r, s')" and "holding K s"
  shows "holding K s'" and "t \<noteq> '''' \<Longrightarrow> r = Inr x \<Longrightarrow> holding (insert t K) s'"
  using assms
  by (auto simp: acquireLease_def holding_def traced_store_def traced_def held_after_append
      lookups_leased_append split: prod.splits sum.splits if_splits)

lemma keeps_holding_acquire: "keeps (holding K) (acquireLease env (traced_store st) t)"
  unfolding keeps_def using acquireLease_holding(1) by (metis prod.collapse)

lemma keeps_holding_acquire_then:
  assumes "t \<noteq> ''''" and "\<And>x. keeps (holding (insert t K)) (f x)"
  shows "keeps (holding K) (seqE (acquireLease env (traced_store st) t) f)"
  unfolding keeps_def
proof (intro allI impI)
  fix s :: "resolvedSessionPlan \<times> ('a \<times> store_event list)" assume P: "holding K s"
  obtain r s1 where acq: "acquireLease env (traced_store st) t s = (r, s1)" by (metis prod.exhaust)
  show "holding K (snd (seqE (acquireLease env (traced_store st) t) f s))"
  proof (cases r)
    case (Inl e)
    with acq acquireLease_holding(1) [OF acq P] show ?thesis by (simp add: seqE_def)
  next
    case (Inr x)
    with acquireLease_holding(2) [OF acq P assms(1)] have "holding (insert t K) s1" by simp
    with assms(2) [of x] have "holding (insert t K) (snd (f x s1))" unfolding keeps_def by blast
    with acq Inr show ?thesis using holding_mono by (fastforce simp: seqE_def)
  qed
qed

lemmas holding_keeps = keeps_intros keeps_holding_acquire_then keeps_holding_set_plan keeps_holding_new_id
  keeps_holding_acquire keeps_holding_by_key keeps_holding_by_id

lemma keeps_holding_prepareMode:
  "keeps (holding K) (prepareMode (traced_env env) (traced_store st) req identity dt fp cur)"
  unfolding prepareMode_def prepareContinueOnly_def prepareContinueOrStart_def prepareFork_def
    prepareForkParent_def forkParentCandidate_def acquireCurrent_def Let_def
  by (intro holding_keeps) simp_all

lemma prepareLeased_lookups:
  assumes "prepareLeased (traced_env env) (traced_store st) req identity dt fp (p, (w, [])) = (r, (p', (w', log)))"
    and "validateSessionRequest req = None"
  shows "lookups_leased {} log"
proof -
  let ?k = "sessionKeyLeaseID (SReq_Namespace req) (SReq_Key req)"
  have tup: "SReq_Mode req = SessionFork \<Longrightarrow> SReq_Namespace req \<noteq> '''' \<and> SReq_Key req \<noteq> ''''"
    using assms(2) by (auto simp: validateSessionRequest_def Let_def split: if_splits)
  have "keeps (holding {}) (prepareLeased (traced_env env) (traced_store st) req identity dt fp)"
  proof (cases "SReq_Namespace req \<noteq> '''' \<and> SReq_Key req \<noteq> ''''")
    case True
    have "keeps (holding {?k}) (seqE (resolveCurrent (traced_store st) req) (\<lambda>cur.
        seqE (set_plan (\<lambda>p. p\<lparr>plan_record := cur\<rparr>)) (\<lambda>_.
        prepareMode (traced_env env) (traced_store st) req identity dt fp cur)))"
      unfolding resolveCurrent_def by (intro holding_keeps keeps_holding_prepareMode) simp_all
    with True show ?thesis
      unfolding prepareLeased_def Let_def seqE_assoc if_P [OF True]
      by (intro keeps_seqE [OF keeps_holding_set_plan] keeps_holding_acquire_then) auto
  next
    case False
    then have nf: "SReq_Mode req \<noteq> SessionFork" using tup by blast
    show ?thesis
      unfolding prepareLeased_def resolveCurrent_def Let_def if_not_P [OF False] if_not_P [OF nf]
      by (intro holding_keeps keeps_holding_prepareMode)
  qed
  from keepsD [OF this _ assms(1)] show ?thesis by (simp add: holding_def)
qed

text \<open>
  A preparation that succeeds has looked up keys only under their leases, the requested key and
  a fork parent's key alike.
\<close>

lemma prepare_lookups_leased:
  assumes "prepareSessionPlan env (Some st) req identity dt fp w = (Inr (Some p), w')"
  shows "\<exists>log. prepareSessionPlan (traced_env env) (Some (traced_store st)) req identity dt fp (w, [])
           = (Inr (Some p), (w', log)) \<and> lookups_leased {} log"
  by (rule traced_prepare_success [OF assms]) (blast dest: prepareLeased_lookups)

end
