(* ===== verification/ThreadLifecycle.thy ===== *)
theory ThreadLifecycle
  imports ThreadStoreEngine SessionTrace
begin

text \<open>
  The life of a thread across components: the coordinator (\<^verbatim>\<open>internal/engine\<close>)
  driving the in-memory store (\<^verbatim>\<open>memory\<close>) through the adapter
  (\<^verbatim>\<open>threadstore_engine.go\<close>). The properties follow from the contract locales'
  lemmas through their interpretations on these definitions.
\<close>

subsection \<open>Lease discipline of finalize requests\<close>

text \<open>
  What the coordinator promises other clients of the store: a Finalize carries a lease on every
  key it rebinds and on every record it writes or archives.
\<close>

definition carries :: "FinalizeRequest \<Rightarrow> string \<Rightarrow> bool" where
  "carries req target \<longleftrightarrow> (\<exists>l \<in> set (Finalize_HeldLeases req). Lease_Target l = target)"

definition disciplined :: "FinalizeRequest \<Rightarrow> bool" where
  "disciplined req \<longleftrightarrow>
     (Finalize_RebindActive req \<and> Finalize_Key req \<noteq> '''' \<longrightarrow>
        carries req (sessionKeyLeaseID threadNamespace (Finalize_Key req)))
     \<and> (Record_ID (Finalize_Record req) \<noteq> '''' \<longrightarrow>
        carries req (sessionRecordLeaseID (Record_ID (Finalize_Record req))))
     \<and> (Finalize_ArchiveOld req \<and> Finalize_PreviousID req \<noteq> '''' \<longrightarrow>
        carries req (sessionRecordLeaseID (Finalize_PreviousID req)))"

fun disciplined_call :: "StoreCall \<Rightarrow> bool" where
  "disciplined_call (CallFinalize wall req) = disciplined req"
| "disciplined_call _ = True"

text \<open>A call presents a lease in a Finalize.\<close>

fun presents :: "StoreCall \<Rightarrow> Lease \<Rightarrow> bool" where
  "presents (CallFinalize wall req) l = (l \<in> set (Finalize_HeldLeases req))"
| "presents _ l = False"

lemma store_exec_unprotected:
  assumes "lease_current s t l" and "disciplined_call op" and "\<not> presents op l"
  shows "(Lease_Target l = sessionKeyLeaseID threadNamespace k \<and> k \<noteq> '''' \<longrightarrow>
            index_of (store_exec t s op) k = index_of s k)
       \<and> (Lease_Target l = sessionRecordLeaseID i \<and> i \<noteq> '''' \<longrightarrow>
            store_records (store_exec t s op) i = store_records s i)"
proof (cases op)
  case (CallFinalize wall req)
  have no: "\<not> carries req (Lease_Target l)" if "Finalize t wall s req = Inr s'" for s'
  proof
    assume "carries req (Lease_Target l)"
    then obtain l' where l': "l' \<in> set (Finalize_HeldLeases req)" "Lease_Target l' = Lease_Target l"
      by (auto simp: carries_def)
    with that have "lease_current s t l'" by (simp add: Finalize_Inr_iff)
    with l' assms(1) have "l' = l" using lease_current_unique by blast
    with l' assms(3) CallFinalize show False by simp
  qed
  show ?thesis
  proof (cases "Finalize t wall s req")
    case (Inr s')
    have s': "s' = apply_finalize wall s req" using Inr by (simp add: Finalize_Inr_iff)
    have d: "disciplined req" using assms(2) CallFinalize by simp
    have e: "store_exec t s op = apply_finalize wall s req" using Inr s' CallFinalize by simp
    have "index_of (apply_finalize wall s req) k = index_of s k"
      if "Lease_Target l = sessionKeyLeaseID threadNamespace k" "k \<noteq> ''''"
      using d no [OF Inr] that by (auto simp: disciplined_def apply_finalize_index)
    moreover have "store_records (apply_finalize wall s req) i = store_records s i"
      if "Lease_Target l = sessionRecordLeaseID i" "i \<noteq> ''''"
      using d no [OF Inr] that by (auto simp: disciplined_def apply_finalize_records Let_def)
    ultimately show ?thesis unfolding e by blast
  qed (simp add: CallFinalize)
next
  case (CallAcquire c0 c1 ent target owner ttl)
  have "store_records s' = store_records s \<and> store_keyIndex s' = store_keyIndex s"
    if "AcquireLease c0 c1 t ent s target owner ttl = Inr (l', s')" for l' s'
    using that by (rule AcquireLease_cases) simp
  then have "store_records (store_exec t s op) = store_records s \<and> store_keyIndex (store_exec t s op) = store_keyIndex s"
    unfolding CallAcquire by (cases "AcquireLease c0 c1 t ent s target owner ttl") auto
  then show ?thesis by (simp add: index_of_def)
next
  case (CallRenew lease ttl)
  then show ?thesis by (auto simp: RenewLease_iff index_of_def)
next
  case (CallRelease lease)
  then show ?thesis by (auto simp: ReleaseLease_def index_of_def split: option.splits)
qed simp

lemma lease_protects:
  assumes "lease_current (timed_run store_exec s calls) now l" and "sorted (map fst calls @ [now])"
    and "Lease_Token l \<notin> minted_in store_exec call_mints s calls"
    and "\<forall>(t, op) \<in> set calls. disciplined_call op \<and> \<not> presents op l"
  shows "(Lease_Target l = sessionKeyLeaseID threadNamespace k \<and> k \<noteq> '''' \<longrightarrow>
            index_of (timed_run store_exec s calls) k = index_of s k)
       \<and> (Lease_Target l = sessionRecordLeaseID i \<and> i \<noteq> '''' \<longrightarrow>
            store_records (timed_run store_exec s calls) i = store_records s i)"
  using assms
proof (induction calls arbitrary: s)
  case (Cons top calls)
  obtain t op where top: "top = (t, op)" by (cases top)
  have "lease_current s t l"
    using memory.fencing [of s t l "top # calls" now] Cons.prems top by auto
  with store_exec_unprotected [of s t l op] Cons.prems(4) top
  have "(Lease_Target l = sessionKeyLeaseID threadNamespace k \<and> k \<noteq> '''' \<longrightarrow>
            index_of (store_exec t s op) k = index_of s k)
       \<and> (Lease_Target l = sessionRecordLeaseID i \<and> i \<noteq> '''' \<longrightarrow>
            store_records (store_exec t s op) i = store_records s i)" by auto
  with Cons.IH [of "store_exec t s op"] Cons.prems top show ?case by auto
qed simp

text \<open>The request that persists a prepared plan is disciplined.\<close>

lemma carries_plan:
  "target \<in> plan_targets p \<Longrightarrow> carries (store_finalize (persist_request p r)) target"
  by (auto simp: carries_def plan_targets_def store_finalize_def persist_request_def store_lease_def)

lemma persist_fields [simp]:
  "Finalize_RebindActive (store_finalize (persist_request p r))
     \<longleftrightarrow> SReq_Namespace (plan_request p) \<noteq> '''' \<and> SReq_Key (plan_request p) \<noteq> ''''"
  "Finalize_Key (store_finalize (persist_request p r)) = SReq_Key (plan_request p)"
  "Record_ID (Finalize_Record (store_finalize (persist_request p r))) = SRec_ID r"
  "Finalize_PreviousID (store_finalize (persist_request p r)) = plan_previousID p"
  "Finalize_HeldLeases (store_finalize (persist_request p r)) = map store_lease (plan_leases p)"
  "Finalize_RequireKeyAbsent (store_finalize (persist_request p r)) = plan_requireKeyAbsent p"
  by (simp_all add: store_finalize_def persist_request_def storeRecord_def)

lemma persist_request_disciplined:
  assumes "prepareSessionPlan (mem_env h ph ttl ivl) (Some mem_session_store) req identity dt fp w0 = (Inr (Some p), w)"
    and "SReq_Namespace (resolveSessionDefaults req) = threadNamespace"
    and "SRec_ID r = plan_engineID p"
  shows "disciplined (store_finalize (persist_request p r))"
  using mem_session.prepareSessionPlan_plan [OF assms(1)] assms(2,3)
  by (auto simp: disciplined_def carries_plan)

subsection \<open>Properties\<close>

text \<open>
  C4. No lost update. Between preparing a thread's plan and persisting it, other clients may
  make any disciplined calls on the store, at any times, as long as they do not present this
  plan's leases and the entropy source does not repeat their tokens. If the Finalize that
  persists the plan then succeeds, the key still maps to what it mapped to when the plan was
  prepared and neither the record being written nor the one being archived has changed since;
  and that Finalize is itself disciplined, so every other plan enjoys the same protection.
\<close>

theorem no_lost_update:
  fixes p r
  defines "freq \<equiv> store_finalize (persist_request p r)" and "key \<equiv> SReq_Key (plan_request p)"
  assumes prep: "prepareSessionPlan (mem_env h ph ttl ivl) (Some mem_session_store) req identity dt fp w0
      = (Inr (Some p), w)"
    and ns: "SReq_Namespace (resolveSessionDefaults req) = threadNamespace"
    and rid: "SRec_ID r = plan_engineID p"
    and times: "sorted (map fst calls @ [now])"
    and toks: "\<forall>l \<in> set (plan_leases p). SLease_Token l \<notin> minted_in store_exec call_mints (mw_store w) calls"
    and others: "\<forall>(t, op) \<in> set calls. disciplined_call op \<and> (\<forall>l \<in> set (plan_leases p). \<not> presents op (store_lease l))"
    and fin: "Finalize now wall (timed_run store_exec (mw_store w) calls) freq = Inr s'"
  shows "disciplined freq
    \<and> (key \<noteq> '''' \<longrightarrow> index_of (timed_run store_exec (mw_store w) calls) key = index_of (mw_store w) key)
    \<and> (\<forall>i \<in> {plan_engineID p, plan_previousID p} - {''''}.
         store_records (timed_run store_exec (mw_store w) calls) i = store_records (mw_store w) i)"
proof -
  note plan = mem_session.prepareSessionPlan_plan [OF prep]
  have prot: "(sessionKeyLeaseID threadNamespace k \<in> plan_targets p \<and> k \<noteq> '''' \<longrightarrow>
            index_of (timed_run store_exec (mw_store w) calls) k = index_of (mw_store w) k)
       \<and> (sessionRecordLeaseID i \<in> plan_targets p \<and> i \<noteq> '''' \<longrightarrow>
            store_records (timed_run store_exec (mw_store w) calls) i = store_records (mw_store w) i)" for k i
  proof -
    have *: "(SLease_Target l = sessionKeyLeaseID threadNamespace k \<and> k \<noteq> '''' \<longrightarrow>
            index_of (timed_run store_exec (mw_store w) calls) k = index_of (mw_store w) k)
       \<and> (SLease_Target l = sessionRecordLeaseID i \<and> i \<noteq> '''' \<longrightarrow>
            store_records (timed_run store_exec (mw_store w) calls) i = store_records (mw_store w) i)"
      if l: "l \<in> set (plan_leases p)" for l
    proof -
      have "lease_current (timed_run store_exec (mw_store w) calls) now (store_lease l)"
        using fin l by (simp add: freq_def Finalize_Inr_iff)
      from lease_protects [OF this times, of k i] toks others l show ?thesis
        by (fastforce simp: store_lease_def)
    qed
    then show ?thesis by (auto simp: plan_targets_def)
  qed
  have "disciplined freq" unfolding freq_def using prep ns rid by (rule persist_request_disciplined)
  with prot plan ns show ?thesis by (auto simp: key_def)
qed

subsection \<open>A concrete run\<close>

definition sample_hash :: "hash_arg list \<Rightarrow> string" where
  "sample_hash args = (case args of HashString s # _ \<Rightarrow> s | _ \<Rightarrow> ''x'')"

definition sample_world :: mem_world where
  "sample_world = \<lparr>mw_store = NewStore, mw_clock = int, mw_rand = (\<lambda>_. EntropyRead (replicate 16 (CHR ''z''))),
     mw_ctx = (\<lambda>_. None), mw_count = 0\<rparr>"

definition sample_env :: "mem_world session_env" where
  "sample_env = mem_env sample_hash (\<lambda>_. '''') 100 50"

definition thread_request :: "string \<Rightarrow> SessionRequest" where
  "thread_request key = \<lparr>SReq_ID = '''', SReq_Namespace = threadNamespace, SReq_Key = key,
     SReq_Mode = SessionContinueOrStart, SReq_ForkFrom = '''', SReq_ForkFromKey = '''',
     SReq_SessionCodec = ''''\<rparr>"

definition sample_identity :: AgentIdentity where
  "sample_identity = \<lparr>Agent_ID = ''a'', Agent_TenantID = '''', Agent_ProfileID = '''', Agent_Name = ''''\<rparr>"

definition sample_token :: string where
  "sample_token = hexEncode (replicate 16 (CHR ''z''))"

definition sample_plan :: resolvedSessionPlan where
  "sample_plan = (new_plan (thread_request ''k'') ''lease_owner'')
     \<lparr>plan_engineID := ''session'', plan_created := True,
      plan_keyLeaseID := sessionKeyLeaseID threadNamespace ''k'',
      plan_compatibility := compat_of_status SessionCompatibilityNew,
      plan_leases := [\<lparr>SLease_Target = sessionKeyLeaseID threadNamespace ''k'', SLease_Owner = ''lease_owner'',
                       SLease_Token = sample_token\<rparr>,
                      \<lparr>SLease_Target = sessionRecordLeaseID ''session'', SLease_Owner = ''lease_owner'',
                       SLease_Token = sample_token\<rparr>]\<rparr>"

definition sample_prepared :: mem_world where
  "sample_prepared = sample_world\<lparr>mw_count := 4, mw_store := NewStore\<lparr>store_leases :=
     [sessionKeyLeaseID threadNamespace ''k'' \<mapsto> \<lparr>lease_Owner = ''lease_owner'', lease_Until = 101, lease_Token = sample_token\<rparr>,
      sessionRecordLeaseID ''session'' \<mapsto> \<lparr>lease_Owner = ''lease_owner'', lease_Until = 103, lease_Token = sample_token\<rparr>]\<rparr>\<rparr>"

lemma lease_ids_differ [simp]:
  "sessionKeyLeaseID ns k \<noteq> sessionRecordLeaseID i" "sessionRecordLeaseID i \<noteq> sessionKeyLeaseID ns k"
  by (auto simp: sessionKeyLeaseID_def sessionRecordLeaseID_def)

lemma lease_ids_inject [simp]:
  "sessionKeyLeaseID ns k = sessionKeyLeaseID ns' k' \<longleftrightarrow> ns = ns' \<and> k = k'"
  "sessionRecordLeaseID i = sessionRecordLeaseID i' \<longleftrightarrow> i = i'"
  by (auto simp: sessionKeyLeaseID_def sessionRecordLeaseID_def)

lemmas run_simps = sample_world_def mem_env_def sample_hash_def thread_request_def
  prepareSessionPlan_def resolveSessionDefaults_def validateSessionRequest_def newLeaseOwner_def
  entropy_suffix_def mem_tick_def newEngineSessionID_def prepareLeased_def prepareMode_def
  prepareContinueOrStart_def seqE_def set_plan_def in_world_def resolveCurrent_def acquireLease_def doneE_def
  engineStore_def memory_ops_def map_step_def mem_try_def AcquireLease_def newLeaseToken_def Resolve_def
  index_of_def store_query_def session_by_key_def engine_lease_def

lemma sample_prepare:
  "prepareSessionPlan sample_env (Some mem_session_store) (thread_request ''k'') sample_identity ''codex'' ''fp'' sample_world
     = (Inr (Some sample_plan), sample_prepared)"
  by (simp add: run_simps sample_env_def sample_plan_def sample_prepared_def NewStore_def Let_def threadNamespace_def
      new_plan_def sample_token_def del: hexEncode.simps replicate.simps)

definition sample_calls :: "(gotime \<times> StoreCall) list" where
  "sample_calls = [(10, CallResolve (by_key ''k'')),
     (11, CallAcquire None None (EntropyRead (replicate 16 (CHR ''y''))) ''t'' ''B'' 5)]"

definition sample_saved :: SessionRecord where
  "sample_saved = persist_record sample_plan sample_identity ''codex'' ''fp'' ''codex''
     \<lparr>State_ResumeID = ''abc'', State_DisplayID = ''abc'', State_Data = Map.empty\<rparr> 4 5"

lemma sample_token_fresh: "sample_token \<noteq> hexEncode (replicate 16 (CHR ''y''))"
proof -
  have "replicate 16 c = c # replicate 15 c" for c :: char by (simp add: numeral_eq_Suc)
  then show ?thesis by (simp add: sample_token_def hexdigit_def)
qed

theorem no_lost_update_witness:
  "\<exists>s'. Finalize 50 50 (timed_run store_exec (mw_store sample_prepared) sample_calls)
          (store_finalize (persist_request sample_plan sample_saved)) = Inr s'
     \<and> index_of (timed_run store_exec (mw_store sample_prepared) sample_calls) ''k''
       = index_of (mw_store sample_prepared) ''k''"
proof -
  define s1 where "s1 = timed_run store_exec (mw_store sample_prepared) sample_calls"
  have leases: "plan_leases sample_plan = [\<lparr>SLease_Target = sessionKeyLeaseID threadNamespace ''k'',
      SLease_Owner = ''lease_owner'', SLease_Token = sample_token\<rparr>,
      \<lparr>SLease_Target = sessionRecordLeaseID ''session'', SLease_Owner = ''lease_owner'', SLease_Token = sample_token\<rparr>]"
    by (simp add: sample_plan_def)
  have ids: "''t'' \<noteq> sessionKeyLeaseID ns k" "''t'' \<noteq> sessionRecordLeaseID i" for ns k i
    by (simp_all add: sessionKeyLeaseID_def sessionRecordLeaseID_def Encode_def keycodec_prefix_def)
  have fin: "\<exists>s'. Finalize 50 50 s1 (store_finalize (persist_request sample_plan sample_saved)) = Inr s'"
    by (simp add: Finalize_Inr_iff leases s1_def sample_calls_def sample_prepared_def sample_world_def
        lease_current_def store_lease_def AcquireLease_def newLeaseToken_def NewStore_def ids [symmetric] ids
        sample_plan_def [THEN arg_cong, of plan_requireKeyAbsent] new_plan_def del: hexEncode.simps replicate.simps)
  then obtain s' where s': "Finalize 50 50 s1 (store_finalize (persist_request sample_plan sample_saved)) = Inr s'"
    by blast
  have "index_of s1 (SReq_Key (plan_request sample_plan))
      = index_of (mw_store sample_prepared) (SReq_Key (plan_request sample_plan))"
    using no_lost_update [OF sample_prepare [unfolded sample_env_def], of sample_saved sample_calls 50 50 s'] s'
      sample_token_fresh
    by (simp add: s1_def sample_calls_def sample_saved_def persist_record_def resolveSessionDefaults_def
        thread_request_def sample_plan_def new_plan_def newLeaseToken_def del: hexEncode.simps replicate.simps)
  with s' show ?thesis unfolding s1_def by (auto simp: sample_plan_def new_plan_def thread_request_def)
qed

subsection \<open>Prepare, persist, release, resume\<close>

lemma persist_record_ID: "SRec_ID (persist_record p identity dt fp cn st t1 t2) = plan_engineID p"
  by (simp add: persist_record_def)

lemma persisted_lookup:
  assumes "act' = finalized_active (persist_request p saved) act"
    and "recs' = finalized_records wall (persist_request p saved) recs"
    and "SRec_ID saved = plan_engineID p" and "SRec_Status saved = SessionStatusActive"
    and "plan_engineID p \<noteq> ''''" and "plan_previousID p \<noteq> plan_engineID p"
    and "SReq_Namespace (plan_request p) \<noteq> ''''" and "SReq_Key (plan_request p) \<noteq> ''''"
  shows "view_lookup recs' act' (session_by_key ns (SReq_Key (plan_request p))) = Some saved"
  using assms
  by (auto simp: view_lookup_def session_by_key_def finalized_active_def finalized_records_def
      persist_request_def Let_def)

lemma released_world:
  assumes "prepareSessionPlan (mem_env h ph ttl ivl) (Some mem_session_store) req identity dt fp w0 = (Inr (Some p), w)"
    and "mem_leases w1 = mem_leases w" and "plan_leases p1 = plan_leases p"
    and "\<forall>t. mem_leases w0 t = None"
    and "releaseContext mem_session_store (p1, w1) = (err, (p2, w2))"
  shows "mem_records w2 = mem_records w1 \<and> mem_active w2 = mem_active w1
    \<and> (\<forall>t. store_leases (mw_store w2) t = None)"
proof -
  from mem_session.prepareSessionPlan_plan [OF assms(1)] assms(2,3)
  have "mem_session.lease_inv (mem_leases w0) (mem_records w1) (mem_active w1) (p1, w1)"
    by (simp add: mem_session.lease_inv_def)
  from mem_session.releaseContext_effect [OF this assms(5)] assms(4)
  have "mem_records w2 = mem_records w1 \<and> mem_active w2 = mem_active w1 \<and> (\<forall>t. mem_leases w2 t = None)"
    by auto
  then show ?thesis by (simp add: mem_leases_def)
qed

lemma for_driver_prepares:
  assumes "PrepareThreadSessionForDriver env (Some st) req identity (Some d) fp w = (Inr (Some p), w')"
    and "resumeSessionCodecFor (Some d) = Inr codec"
  shows "prepareSessionPlan env (Some st) (req\<lparr>SReq_SessionCodec := TrimSpace (Codec_Name codec 2)\<rparr>) identity
     (Driver_Type d) fp w = (Inr (Some p), w')"
  using assms by (auto simp: PrepareThreadSessionForDriver_def Let_def split: prod.splits sum.splits option.splits if_splits)

text \<open>
  The life of one key on the level of \<^verbatim>\<open>prepareSessionPlan\<close>: the persisted record is
  found again under its identifier and its key, and the next plan resumes it.
\<close>

lemma persist_then_prepare:
  fixes req h ph ttl ivl cn
  defines "env \<equiv> mem_env h ph ttl ivl" and "key \<equiv> SReq_Key (resolveSessionDefaults req)"
  assumes prep: "prepareSessionPlan env (Some mem_session_store) req identity dt fp w0 = (Inr (Some p), w)"
    and pers: "persistSessionPlan env (Some mem_session_store) identity (Some d) fp cp (p, w)
      = (Return (Inr (Some ref)), (p1, w1))"
    and rel: "releaseContext mem_session_store (p1, w1) = (err, (p2, w2))"
    and idle: "\<forall>t. mem_leases w0 t = None" and ready: "mem_ready w2"
    and ns: "SReq_Namespace (resolveSessionDefaults req) = threadNamespace" and key: "key \<noteq> ''''"
    and fp: "fp \<noteq> ''''" and eid: "plan_engineID p \<noteq> ''''" "plan_previousID p \<noteq> plan_engineID p"
    and codec: "resumeSessionCodecFor (Some d) = Inr codec"
  defines "q \<equiv> (thread_request key)\<lparr>SReq_SessionCodec := cn\<rparr>"
  obtains st t1 t2 saved p3 w3 where "saved = persist_record p identity (Driver_Type d) fp (Codec_Name codec 2) st t1 t2"
    and "normalizeResumableSessionState codec (usable_checkpoint cp) = Inr st"
    and "Ref_ID ref = plan_engineID p"
    and "mem_records w2 (plan_engineID p) = Some saved" and "mem_active w2 key = Some (plan_engineID p)"
    and "prepareSessionPlan env (Some mem_session_store) q identity' dt' fp w2 = (Inr (Some p3), w3)"
    and "plan_resumes saved p3" and "plan_request p3 = q"
proof -
  have preq: "plan_request p = resolveSessionDefaults req"
    using mem_session.prepareSessionPlan_plan [OF prep [unfolded env_def]] by simp
  from pers have ref: "Ref_ID ref = plan_engineID p"
    by (auto simp: persistSessionPlan_def Let_def split: if_splits option.splits sum.splits prod.splits outcome.splits)
  from pers ns preq codec obtain state st t1 t2 saved wall where
    cp: "usable_checkpoint cp = Some state" "normalizeResumableSessionState codec (Some state) = Inr st"
    and saved: "saved = persist_record p identity (Driver_Type d) fp (Codec_Name codec 2) st t1 t2"
    and p1: "plan_leases p1 = plan_leases p"
    and recs: "mem_records w1 = finalized_records wall (persist_request p saved) (mem_records w)"
    and act: "mem_active w1 = finalized_active (persist_request p saved) (mem_active w)"
    and les: "mem_leases w1 = mem_leases w"
    unfolding env_def by (elim mem_tx.persist_success) auto
  note rw = released_world [OF prep [unfolded env_def] les p1 idle rel]
  have "view_lookup (mem_records w1) (mem_active w1) (session_by_key threadNamespace key) = Some saved"
    using persisted_lookup [OF act recs] eid ns key preq
    by (simp add: saved persist_record_def key_def threadNamespace_def)
  then have cur: "current_of (mem_records w2) (mem_active w2) q = Some saved"
    using rw by (simp add: current_of_def thread_request_def q_def)
  have "validateSessionRequest q = None"
    using key by (simp add: validateSessionRequest_def thread_request_def threadNamespace_def q_def)
  with prepareSessionPlan_starts [OF ready, of q] rw obtain p3 w3 where
    again: "prepareSessionPlan env (Some mem_session_store) q identity' dt' fp w2 = (Inr (Some p3), w3)"
    unfolding env_def q_def thread_request_def by fastforce
  have rd: "resolveSessionDefaults q = q" by (simp add: resolveSessionDefaults_def thread_request_def q_def)
  note plan = mem_session.prepareSessionPlan_plan [OF again [unfolded env_def]]
  have "fingerprint_matches fp saved" using fp by (simp add: fingerprint_matches_def saved persist_record_def)
  then have res: "plan_resumes saved p3" and pq: "plan_request p3 = q"
    using plan cur rd by (simp_all add: plan_follows_def thread_request_def q_def)
  have "mem_records w2 (plan_engineID p) = Some saved" "mem_active w2 key = Some (plan_engineID p)"
    using rw recs act eid ns key preq
    by (simp_all add: finalized_records_def finalized_active_def persist_request_def Let_def saved persist_record_ID
        key_def threadNamespace_def)
  from saved cp(2) [folded cp(1)] ref this again res pq show thesis by (rule that)
qed

text \<open>What a built-in codec has normalised it accepts again, from the stored record and for the driver, unchanged.\<close>

lemma builtin_saved:
  assumes builtin: "codec \<in> set (builtin_codecs sha256hex)" and norm: "normalizeResumableSessionState codec x = Inr st"
  shows "validateResumableRecord (Some (persist_record p identity dt fp (Codec_Name codec 2) st t1 t2)) codec = None"
    and "normalizeSessionState ph (driver_of_codec codec) (Some st) = Return (Some st)"
proof -
  note name = builtin_codec_name [OF builtin]
  have names: "Codec_Name codec k = Codec_Name codec 0" for k
    using builtin by (auto simp: builtin_codecs_def claude_sessionCodec_def codex_sessionCodec_def
        cursor_sessionCodec_def codebuddy_sessionCodec_def driver_sessionCodec_def)
  obtain st0 where st0: "normalizeResumableSessionState codec (Some st0) = Inr st"
    using norm by (cases x) (auto simp: normalizeResumableSessionState_def)
  then have st: "st = st0\<lparr>State_DisplayID := displayID st0\<rparr>" "TrimSpace (State_ResumeID st0) \<noteq> ''''"
    by (auto simp: normalize_builtin [OF builtin] split: if_splits)
  have dd: "displayID st = displayID st0" by (simp add: st displayID_def)
  have idem: "normalizeResumableSessionState codec (Some st) = Inr st"
    using st dd by (simp add: normalize_builtin [OF builtin])
  show "validateResumableRecord (Some (persist_record p identity dt fp (Codec_Name codec 2) st t1 t2)) codec = None"
    using name [of 2] name [of 3] names [of 2] idem by (simp add: validateResumableRecord_def persist_record_def)
  have trim: "State_ResumeID st0 \<noteq> ''''" using st(2) by auto
  show "normalizeSessionState ph (driver_of_codec codec) (Some st) = Return (Some st)"
    using trim dd st(1) name [of 0] unfolding normalizeSessionState_def driver_of_codec_def SessionCodecFor_def
    by (simp add: builtin_codec_ops [OF builtin] codec_ToParams_def codec_FromParams_def displayID_def)
qed


text \<open>
  C8. A preparation that fails gives back every lease it took and changes nothing else: the
  records and the active keys are untouched and every lease target is either as it was or free.
\<close>

theorem prepare_failure_releases:
  assumes "prepareSessionPlan (mem_env h ph ttl ivl) (Some mem_session_store) req identity dt fp w = (Inl e, w')"
  shows "mem_records w' = mem_records w \<and> mem_active w' = mem_active w
    \<and> (\<forall>t. mem_leases w' t = mem_leases w t \<or> mem_leases w' t = None)"
  using assms by (rule mem_session.prepareSessionPlan_failure)

subsection \<open>The leases of a plan are current\<close>

text \<open>
  The clock and the entropy source of the world stay what they are and readings only advance;
  every lease of the plan is in the store's table and runs for \<open>ttl\<close> from a clock reading that
  was taken since the reading \<open>n0\<close>.
\<close>

definition leased_since :: "mem_world \<Rightarrow> duration \<Rightarrow> resolvedSessionPlan \<times> mem_world \<Rightarrow> bool" where
  "leased_since w0 ttl = (\<lambda>(p, w).
     mw_clock w = mw_clock w0 \<and> mw_rand w = mw_rand w0 \<and> mw_count w0 \<le> mw_count w
     \<and> distinct (lease_targets (plan_leases p))
     \<and> (\<forall>l \<in> set (plan_leases p). \<exists>n. mw_count w0 \<le> n \<and> n < mw_count w
          \<and> store_leases (mw_store w) (SLease_Target l)
            = Some \<lparr>lease_Owner = SLease_Owner l, lease_Until = mw_clock w0 n + ttl, lease_Token = SLease_Token l\<rparr>))"

lemma leased_since_tick:
  "leased_since w0 ttl (p, w) \<Longrightarrow> leased_since w0 ttl (p, mem_tick w)"
  by (fastforce simp: leased_since_def mem_tick_def intro: less_SucI)

lemma keeps_leased_acquire:
  "keeps (leased_since w0 ttl) (acquireLease (mem_env h ph ttl ivl) mem_session_store target)"
  unfolding keeps_def
proof (intro allI impI)
  fix s assume P: "leased_since w0 ttl s"
  obtain p w where s: "s = (p, w)" by (cases s)
  let ?now = "mw_clock w (mw_count w)"
  show "leased_since w0 ttl (snd (acquireLease (mem_env h ph ttl ivl) mem_session_store target s))"
  proof (cases "AcquireLease (mw_ctx w (mw_count w)) (mw_ctx w (Suc (mw_count w))) ?now
      (mw_rand w (mw_count w)) (mw_store w) target (plan_owner p) ttl")
    case (Inl e)
    with P s leased_since_tick [of w0 ttl p w] show ?thesis
      by (auto simp: acquireLease_def mem_env_def engineStore_def memory_ops_def map_step_def mem_try_def)
  next
    case (Inr ls)
    obtain l st where "ls = (l, st)" by (cases ls)
    note acq = Inr [unfolded this]
    show ?thesis
    proof (cases "target = ''''")
      case True
      with P s show ?thesis by (simp add: acquireLease_def)
    next
      case False
      let ?p = "p\<lparr>plan_leases := rememberLeaseLocked (plan_leases p) (engine_lease l)\<rparr>"
      have run: "snd (acquireLease (mem_env h ph ttl ivl) mem_session_store target s)
          = (?p, (mem_tick w)\<lparr>mw_store := st\<rparr>)"
        using acq s False
        by (simp add: acquireLease_def mem_env_def engineStore_def memory_ops_def map_step_def mem_try_def)
      from P s have d: "distinct (lease_targets (plan_leases p))" by (simp add: leased_since_def)
      from acq show ?thesis unfolding run
      proof (rule AcquireLease_cases)
        fix tok
        assume l: "l = \<lparr>Lease_Target = target, Lease_Owner = plan_owner p, Lease_Token = tok\<rparr>"
          and st: "st = mw_store w\<lparr>store_leases := (store_leases (mw_store w))(target \<mapsto>
               \<lparr>lease_Owner = plan_owner p, lease_Until = ?now + ttl, lease_Token = tok\<rparr>)\<rparr>"
        have "\<exists>n. mw_count w0 \<le> n \<and> n < Suc (mw_count w)
            \<and> store_leases st (SLease_Target m)
              = Some \<lparr>lease_Owner = SLease_Owner m, lease_Until = mw_clock w0 n + ttl, lease_Token = SLease_Token m\<rparr>"
          if m: "m \<in> set (plan_leases ?p)" for m
        proof (cases "m = engine_lease l")
          case True
          with P s show ?thesis
            by (intro exI [of _ "mw_count w"]) (simp add: l st engine_lease_def leased_since_def)
        next
          case False
          with rememberLeaseLocked_memD [OF d, of m "engine_lease l"] m
          have "m \<in> set (plan_leases p)" "SLease_Target m \<noteq> target" by (auto simp: l engine_lease_def)
          with P s show ?thesis by (fastforce simp: st leased_since_def intro: less_SucI)
        qed
        with P s distinct_rememberLeaseLocked [OF d] show "leased_since w0 ttl (?p, (mem_tick w)\<lparr>mw_store := st\<rparr>)"
          by (simp add: leased_since_def mem_tick_def)
      qed
    qed
  qed
qed

lemma keeps_leased_Resolve: "keeps (leased_since w0 ttl) (in_world (Store_Resolve mem_session_store q))"
  by (rule keeps_in_world) (simp add: mem_Resolve)

lemma keeps_leased_new_id:
  "keeps (leased_since w0 ttl) (in_world (newEngineSessionID (mem_env h ph ttl' ivl) dt fp))"
  by (rule keeps_in_world)
    (use leased_since_tick in \<open>auto simp: newEngineSessionID_def mem_env_def\<close>)

lemma keeps_leased_set_plan:
  "(\<And>p. plan_leases (f p) = plan_leases p) \<Longrightarrow> keeps (leased_since w0 ttl) (set_plan f)"
  by (rule keeps_set_plan) (simp add: leased_since_def)

lemmas leased_keeps = keeps_intros keeps_leased_acquire keeps_leased_Resolve keeps_leased_new_id

lemma keeps_leased_prepareForkParent:
  "keeps (leased_since w0 ttl) (prepareForkParent (mem_env h ph ttl ivl) mem_session_store req)"
  unfolding prepareForkParent_def forkParentCandidate_def by (intro leased_keeps)

lemma keeps_leased_prepareMode:
  "keeps (leased_since w0 ttl) (prepareMode (mem_env h ph ttl ivl) mem_session_store req identity dt fp cur)"
  unfolding prepareMode_def prepareContinueOnly_def prepareContinueOrStart_def prepareFork_def
    acquireCurrent_def Let_def
  by (intro leased_keeps keeps_leased_prepareForkParent keeps_leased_set_plan) simp_all

lemma keeps_leased_resolveCurrent: "keeps (leased_since w0 ttl) (resolveCurrent mem_session_store req)"
  unfolding resolveCurrent_def by (intro leased_keeps)

lemma keeps_leased_key:
  "keeps (leased_since w0 ttl) (if SReq_Namespace req \<noteq> '''' \<and> SReq_Key req \<noteq> '''' then
        let keyLease = sessionKeyLeaseID (SReq_Namespace req) (SReq_Key req) in
        seqE (set_plan (\<lambda>p. p\<lparr>plan_keyLeaseID := keyLease\<rparr>))
          (\<lambda>_. acquireLease (mem_env h ph ttl ivl) mem_session_store keyLease)
      else doneE ())"
  unfolding Let_def by (intro leased_keeps keeps_leased_set_plan) simp_all

lemma prepare_start:
  assumes "prepareSessionPlan (mem_env h ph ttl ivl) (Some mem_session_store) req identity dt fp w = (Inr (Some p), w')"
  obtains owner where "leased_since w ttl (new_plan (resolveSessionDefaults req) owner, mem_tick w)"
    and "prepareLeased (mem_env h ph ttl ivl) mem_session_store (resolveSessionDefaults req) identity dt fp
       (new_plan (resolveSessionDefaults req) owner, mem_tick w) = (Inr (), (p, w'))"
proof -
  from mem_session.prepareSessionPlan_success [OF assms] obtain owner w1 where
    own: "newLeaseOwner (mem_env h ph ttl ivl) identity dt (resolveSessionDefaults req) w = (Inr owner, w1)"
    and prep: "prepareLeased (mem_env h ph ttl ivl) mem_session_store (resolveSessionDefaults req) identity dt fp
       (new_plan (resolveSessionDefaults req) owner, w1) = (Inr (), (p, w'))" by metis
  have w1: "w1 = mem_tick w" using own by (auto simp: newLeaseOwner_def mem_env_def)
  show thesis
    by (rule that [of owner]) (use prep w1 in \<open>simp_all add: leased_since_def new_plan_def mem_tick_def\<close>)
qed

lemma prepare_leased_since:
  assumes "prepareSessionPlan (mem_env h ph ttl ivl) (Some mem_session_store) req identity dt fp w = (Inr (Some p), w')"
  shows "leased_since w ttl (p, w')"
proof -
  let ?r = "resolveSessionDefaults req"
  have keep: "keeps (leased_since w ttl) (prepareLeased (mem_env h ph ttl ivl) mem_session_store ?r identity dt fp)"
    unfolding prepareLeased_def
    by (intro keeps_seqE keeps_leased_key keeps_leased_resolveCurrent keeps_leased_prepareMode
        keeps_leased_set_plan) simp
  show ?thesis by (rule prepare_start [OF assms]) (rule keepsD [OF keep])
qed

lemma leased_since_current:
  assumes "leased_since w0 ttl (p, w)" and "l \<in> set (plan_leases p)"
  shows "\<exists>n. mw_count w0 \<le> n \<and> n < mw_count w
    \<and> (\<forall>now. lease_current (mw_store w) now (store_lease l) \<longleftrightarrow> now < mw_clock w0 n + ttl)"
  using assms by (fastforce simp: leased_since_def lease_current_def store_lease_def)

text \<open>
  C6. A successful preparation follows the decision table of the session modes over the store's
  contents (continue-only resumes a record with a matching fingerprint; continue-or-start resumes,
  replaces an incompatible record, or starts; a fork needs a free target key and a validated
  parent). It holds leases on the key, on the record it will write and on the record it will
  archive, and each of them is current in the store it leaves behind exactly until the configured
  time to live after a clock reading taken during the preparation. It has looked up keys, its own and a
  fork parent's, only while it held their leases: the run on the store that records lookups and
  grants is the same run, with such a record. No other client acts during the preparation.
\<close>

theorem prepare_follows_table:
  fixes req
  defines "r \<equiv> resolveSessionDefaults req"
  assumes "prepareSessionPlan (mem_env h ph ttl ivl) (Some mem_session_store) req identity dt fp w = (Inr (Some p), w')"
  shows "plan_follows (mem_records w) (mem_active w) r identity dt fp p
    \<and> (SReq_Key r \<noteq> '''' \<longrightarrow> sessionKeyLeaseID (SReq_Namespace r) (SReq_Key r) \<in> plan_targets p)
    \<and> (\<forall>i \<in> {plan_engineID p, plan_previousID p} - {''''}. sessionRecordLeaseID i \<in> plan_targets p)
    \<and> (\<forall>l \<in> set (plan_leases p). \<exists>n. mw_count w \<le> n \<and> n < mw_count w'
         \<and> (\<forall>now. lease_current (mw_store w') now (store_lease l) \<longleftrightarrow> now < mw_clock w n + ttl))
    \<and> (\<exists>log. prepareSessionPlan (traced_env (mem_env h ph ttl ivl)) (Some (traced_store mem_session_store)) req
               identity dt fp (w, []) = (Inr (Some p), (w', log)) \<and> lookups_leased {} log)
    \<and> mem_records w' = mem_records w \<and> mem_active w' = mem_active w"
proof -
  have cur: "\<forall>l \<in> set (plan_leases p). \<exists>n. mw_count w \<le> n \<and> n < mw_count w'
         \<and> (\<forall>now. lease_current (mw_store w') now (store_lease l) \<longleftrightarrow> now < mw_clock w n + ttl)"
    using leased_since_current [OF prepare_leased_since [OF assms(2)]] by blast
  show ?thesis
    using mem_session.prepareSessionPlan_plan [OF assms(2)] cur prepare_lookups_leased [OF assms(2)]
    unfolding r_def mem_session.lease_inv_def by auto
qed

theorem prepare_follows_table_witness:
  "plan_follows (mem_records sample_world) (mem_active sample_world) (thread_request ''k'')
     sample_identity ''codex'' ''fp'' sample_plan
   \<and> plan_leases sample_plan \<noteq> []
   \<and> list_all (\<lambda>l. lease_current (mw_store sample_prepared) 99 (store_lease l)) (plan_leases sample_plan)"
proof -
  have rd: "resolveSessionDefaults (thread_request ''k'') = thread_request ''k''"
    by (simp add: resolveSessionDefaults_def thread_request_def)
  note table = prepare_follows_table [OF sample_prepare [unfolded sample_env_def]]
  have "lease_current (mw_store sample_prepared) 99 (store_lease l)" if "l \<in> set (plan_leases sample_plan)" for l
  proof -
    from table that obtain n where "lease_current (mw_store sample_prepared) 99 (store_lease l)
        \<longleftrightarrow> 99 < mw_clock sample_world n + 100" by blast
    then show ?thesis by (simp add: sample_world_def)
  qed
  then show ?thesis using table rd by (simp add: list_all_iff sample_plan_def)
qed

definition sample_driver :: Driver where
  "sample_driver = driver_of_codec (codex_sessionCodec id)"

definition sample_checkpoint :: Checkpoint where
  "sample_checkpoint = \<lparr>Checkpoint_State = Some \<lparr>State_ResumeID = ''abc'', State_DisplayID = '''',
     State_Data = Map.empty\<rparr>, Checkpoint_Valid = True\<rparr>"

lemma sample_normalized:
  "normalizeResumableSessionState (codex_sessionCodec id) (Checkpoint_State sample_checkpoint)
     = Inr \<lparr>State_ResumeID = ''abc'', State_DisplayID = ''abc'', State_Data = Map.empty\<rparr>"
proof -
  have "codex_sessionCodec id \<in> set (builtin_codecs id)" by (simp add: builtin_codecs_def)
  from normalize_builtin [OF this] show ?thesis
    by (simp add: sample_checkpoint_def displayID_def TrimSpace_def drop_prefixes.simps [of _ "_ # _"] space_runes_def)
qed

lemma sample_driver_codec: "resumeSessionCodecFor (Some sample_driver) = Inr (codex_sessionCodec id)"
  unfolding sample_driver_def by (rule builtin_resume_ok [of _ id]) (simp add: builtin_codecs_def)

text \<open>Persisting the sample checkpoint succeeds when the plan's leases are current.\<close>

lemma sample_persist_runs:
  assumes mode: "SReq_Mode (plan_request p) \<noteq> SessionStateless" and ready: "mem_ready w"
    and held: "\<forall>l \<in> set (plan_leases p). lease_current (mw_store w) (mw_clock w (Suc (Suc (mw_count w)))) (store_lease l)"
    and free: "plan_requireKeyAbsent p \<longrightarrow> store_keyIndex (mw_store w) (SReq_Key (plan_request p)) = None"
  shows "\<exists>ref p1 w1. persistSessionPlan sample_env (Some mem_session_store) sample_identity (Some sample_driver) ''fp''
      (Some sample_checkpoint) (p, w) = (Return (Inr (Some ref)), (p1, w1)) \<and> mem_ready w1"
proof -
  have use: "usable_checkpoint (Some sample_checkpoint) = Checkpoint_State sample_checkpoint"
    by (simp add: usable_checkpoint_def sample_checkpoint_def)
  have st: "Checkpoint_State sample_checkpoint
      = Some \<lparr>State_ResumeID = ''abc'', State_DisplayID = '''', State_Data = Map.empty\<rparr>"
    by (simp add: sample_checkpoint_def)
  have disp: "\<exists>x. sessionDisplayID ph sample_driver (Some s) = Return x" for ph s
    by (simp add: sessionDisplayID_def sample_driver_def driver_of_codec_def SessionCodecFor_def
        codex_sessionCodec_def driver_sessionCodec_def)
  let ?w = "mem_tick (mem_tick w)"
  have fin: "\<exists>w'. Store_Finalize mem_session_store (persist_request p r) ?w = (Inr (), w') \<and> mem_ready w'" for r
  proof -
    let ?now = "mw_clock w (Suc (Suc (mw_count w)))"
    have "Finalize ?now ?now (mw_store w) (store_finalize (persist_request p r))
        = Inr (apply_finalize ?now (mw_store w) (store_finalize (persist_request p r)))"
      using held free by (auto simp: Finalize_Inr_iff index_of_def)
    with ready show ?thesis
      by (simp add: engineStore_def memory_ops_def map_step_def mem_try_def unit_result_def mem_ready_def mem_tick_def)
  qed
  have now: "env_now sample_env w = (mw_clock w (mw_count w), mem_tick w)"
    "env_now sample_env (mem_tick w) = (mw_clock w (Suc (mw_count w)), ?w)"
    by (simp_all add: sample_env_def mem_env_def mem_tick_def)
  obtain r where r: "r = persist_record p sample_identity (Driver_Type sample_driver) ''fp'' (Codec_Name (codex_sessionCodec id) 2)
      \<lparr>State_ResumeID = ''abc'', State_DisplayID = ''abc'', State_Data = Map.empty\<rparr>
      (mw_clock w (mw_count w)) (mw_clock w (Suc (mw_count w)))" by simp
  obtain w' x where "Store_Finalize mem_session_store (persist_request p r) ?w = (Inr (), w')" "mem_ready w'"
    "sessionDisplayID (env_paramsHash sample_env) sample_driver
      (Some \<lparr>State_ResumeID = ''abc'', State_DisplayID = ''abc'', State_Data = Map.empty\<rparr>) = Return x"
    using fin [of r] disp by blast
  then show ?thesis
    using sample_normalized mode unfolding st r
    by (simp add: persistSessionPlan_def use st sample_driver_codec now Let_def)
qed

text \<open>The plan of the Thread entry point names the driver's codec.\<close>

definition driver_plan :: resolvedSessionPlan where
  "driver_plan = sample_plan\<lparr>plan_request := (thread_request ''k'')\<lparr>SReq_SessionCodec := ''codex''\<rparr>\<rparr>"

lemma codex_name: "TrimSpace (Codec_Name (codex_sessionCodec id) n) = ''codex''" "Driver_Type sample_driver = ''codex''"
  by (simp_all add: codex_sessionCodec_def driver_sessionCodec_def TrimSpace_def drop_prefixes.simps [of _ "_ # _"]
      space_runes_def sample_driver_def driver_of_codec_def)

lemma driver_prepare:
  "PrepareThreadSessionForDriver sample_env (Some mem_session_store) (thread_request ''k'') sample_identity
     (Some sample_driver) ''fp'' sample_world = (Inr (Some driver_plan), sample_prepared)"
proof -
  have "prepareSessionPlan sample_env (Some mem_session_store) ((thread_request ''k'')\<lparr>SReq_SessionCodec := ''codex''\<rparr>)
      sample_identity ''codex'' ''fp'' sample_world = (Inr (Some driver_plan), sample_prepared)"
    by (simp add: run_simps sample_env_def sample_plan_def driver_plan_def sample_prepared_def NewStore_def Let_def
        threadNamespace_def new_plan_def sample_token_def del: hexEncode.simps replicate.simps)
  moreover have "plan_record driver_plan = None" by (simp add: driver_plan_def sample_plan_def new_plan_def)
  ultimately show ?thesis
    by (simp add: PrepareThreadSessionForDriver_def sample_driver_codec codex_name)
qed

lemma sample_persist:
  "\<exists>ref p1 w1. persistSessionPlan sample_env (Some mem_session_store) sample_identity (Some sample_driver) ''fp''
      (Some sample_checkpoint) (driver_plan, sample_prepared) = (Return (Inr (Some ref)), (p1, w1)) \<and> mem_ready w1"
  by (rule sample_persist_runs)
    (simp_all add: sample_plan_def driver_plan_def new_plan_def thread_request_def mem_ready_def sample_prepared_def
      sample_world_def NewStore_def lease_current_def store_lease_def)

lemma run_release_hooks_ready:
  "run_release_hooks mem_session_store ls w = (evs, w') \<Longrightarrow> mem_ready w \<Longrightarrow> mem_ready w'"
proof (induction ls arbitrary: w evs)
  case (Cons l ls)
  obtain w1 where w1: "Store_ReleaseLease mem_session_store l w = (Inr (), w1)" "mem_ready w1"
    using Cons.prems(2) by (auto simp: engineStore_def memory_ops_def map_step_def mem_try_def mem_ready_def mem_tick_def)
  with Cons show ?case by (auto split: prod.splits)
qed simp


text \<open>The identifier of a fork's record is one that \<^verbatim>\<open>newEngineSessionID\<close> generated for it.\<close>

lemma fork_generates_ID:
  assumes prep: "prepareSessionPlan (mem_env h ph ttl ivl) (Some mem_session_store) req identity dt fp w0
      = (Inr (Some p), w)"
    and mode: "SReq_Mode req = SessionFork"
  obtains n w2 where
    "newEngineSessionID (mem_env h ph ttl ivl) dt fp (w0\<lparr>mw_count := n\<rparr>) = (Inr (plan_engineID p), w2)"
proof -
  let ?env = "mem_env h ph ttl ivl" and ?st = mem_session_store
  have rd: "resolveSessionDefaults req = req" using mode by (simp add: resolveSessionDefaults_def)
  from prepare_start [OF prep] obtain owner where inv: "leased_since w0 ttl (new_plan req owner, mem_tick w0)"
    and run: "prepareLeased ?env ?st req identity dt fp (new_plan req owner, mem_tick w0) = (Inr (), (p, w))"
    unfolding rd by metis
  from run obtain s1 cur s2 where
    k: "(if SReq_Namespace req \<noteq> '''' \<and> SReq_Key req \<noteq> '''' then
        let keyLease = sessionKeyLeaseID (SReq_Namespace req) (SReq_Key req) in
        seqE (set_plan (\<lambda>p. p\<lparr>plan_keyLeaseID := keyLease\<rparr>)) (\<lambda>_. acquireLease ?env ?st keyLease)
      else doneE ()) (new_plan req owner, mem_tick w0) = (Inr (), s1)"
    and r: "resolveCurrent ?st req s1 = (Inr cur, s2)"
    and m: "seqE (set_plan (\<lambda>p. p\<lparr>plan_record := cur\<rparr>)) (\<lambda>_. prepareFork ?env ?st req identity dt fp cur) s2
        = (Inr (), (p, w))"
    unfolding prepareLeased_def prepareMode_def seqE_Inr_iff using mode by fastforce
  have "leased_since w0 ttl s2"
    using keepsD [OF keeps_leased_resolveCurrent keepsD [OF keeps_leased_key inv k] r] .
  then obtain q w2 where s2: "s2 = (q, w2)" and inv2: "leased_since w0 ttl (q\<lparr>plan_record := cur\<rparr>, w2)"
    by (cases s2) (simp add: leased_since_def)
  from m s2 have fork: "prepareFork ?env ?st req identity dt fp cur (q\<lparr>plan_record := cur\<rparr>, w2) = (Inr (), (p, w))"
    by (auto simp: plan_inr)
  then obtain parent s3 engineID s4 p3 w3 p4 where
    par: "prepareForkParent ?env ?st req (q\<lparr>plan_record := cur\<rparr>, w2) = (Inr parent, (p3, w3))"
    and new: "newEngineSessionID ?env dt fp w3 = (Inr engineID, s4)"
    and acq: "acquireLease ?env ?st (sessionRecordLeaseID engineID)
        (p3\<lparr>plan_record := parent, plan_engineID := engineID\<rparr>, s4) = (Inr (), (p4, w))"
    and p: "p = p4\<lparr>plan_created := True, plan_requireKeyAbsent := True,
              plan_compatibility := compat_of_status SessionCompatibilityNew\<rparr>"
    by (auto simp: prepareFork_def plan_inr split: if_splits option.splits)
  have inv3: "mw_rand w3 = mw_rand w0"
    using keepsD [OF keeps_leased_prepareForkParent inv2 par] by (simp add: leased_since_def)
  have eid: "plan_engineID p = engineID"
    using acq p by (auto simp: acquireLease_def split: if_splits prod.splits sum.splits)
  have "newEngineSessionID ?env dt fp (w0\<lparr>mw_count := mw_count w3\<rparr>)
      = (Inr engineID, mem_tick (w0\<lparr>mw_count := mw_count w3\<rparr>))"
    using new inv3 by (simp add: newEngineSessionID_def mem_env_def)
  with eid show thesis by (intro that) simp
qed

text \<open>
  C7. A fork never disturbs its parent. If the identifiers that the generator yields with the
  entropy at hand are not in use already, then persisting a fork's plan adds one record, under an
  identifier the generator yielded, and binds one key, the target, which was free; every record that existed before, the
  parent included, and every other key are as they were. The plan carries the parent's record,
  and that parent had a checkpoint, the same driver, identity and fingerprint, and, when the
  request names a codec, the same codec.
\<close>

theorem fork_isolated:
  fixes h ph ttl ivl
  defines "env \<equiv> mem_env h ph ttl ivl"
  assumes prep: "prepareSessionPlan env (Some mem_session_store) req identity dt fp w0 = (Inr (Some p), w)"
    and pers: "persistSessionPlan env (Some mem_session_store) identity (Some d) fp cp (p, w)
      = (Return (Inr (Some ref)), (p1, w1))"
    and mode: "SReq_Mode req = SessionFork" and ns: "SReq_Namespace req = threadNamespace"
    and fresh: "\<forall>n i w'. newEngineSessionID env dt fp (w0\<lparr>mw_count := n\<rparr>) = (Inr i, w') \<longrightarrow> mem_records w0 i = None"
  shows "(\<forall>i r. mem_records w0 i = Some r \<longrightarrow> i \<noteq> plan_engineID p \<and> mem_records w1 i = Some r)
    \<and> dom (mem_records w1) = insert (plan_engineID p) (dom (mem_records w0))
    \<and> (\<forall>k. k \<noteq> SReq_Key req \<longrightarrow> mem_active w1 k = mem_active w0 k)
    \<and> mem_active w0 (SReq_Key req) \<in> {None, Some ''''} \<and> mem_active w1 (SReq_Key req) = Some (plan_engineID p)
    \<and> (\<exists>parent st. fork_parent_of (mem_records w0) (mem_active w0) req = Some parent
         \<and> plan_record p = Some parent \<and> SRec_DriverState parent = Some st
         \<and> SRec_DriverType parent = dt \<and> SRec_Agent parent = identity
         \<and> SRec_CompatibilityFingerprint parent = fp
         \<and> (SReq_SessionCodec req \<noteq> '''' \<longrightarrow> SRec_SessionCodec parent = SReq_SessionCodec req))"
proof -
  have rd: "resolveSessionDefaults req = req" using mode by (simp add: resolveSessionDefaults_def)
  note plan = mem_session.prepareSessionPlan_plan [OF prep [unfolded env_def], unfolded rd]
  then have preq: "plan_request p = req" and same: "mem_records w = mem_records w0" "mem_active w = mem_active w0"
    by (simp_all add: mem_session.lease_inv_def)
  from plan mode obtain parent where par: "fork_parent_of (mem_records w0) (mem_active w0) req = Some parent"
    and forks: "plan_forks parent p"
    and val: "validateForkParent (Some parent) identity dt fp (SReq_SessionCodec req) = None"
    by (auto simp: plan_follows_def)
  have "validateSessionRequest req = None"
    by (rule mem_session.prepareSessionPlan_success [OF prep [unfolded env_def]]) (simp add: rd)
  then have key: "SReq_Key req \<noteq> ''''"
    using mode by (auto simp: validateSessionRequest_def Let_def split: if_splits)
  have pns: "SReq_Namespace (plan_request p) = threadNamespace" using ns preq by simp
  obtain saved dt' cn st t1 t2 wall where
    saved: "saved = persist_record p identity dt' fp cn st t1 t2"
    and recs: "mem_records w1 = finalized_records wall (persist_request p saved) (mem_records w)"
    and act: "mem_active w1 = finalized_active (persist_request p saved) (mem_active w)"
    and free: "plan_requireKeyAbsent p \<and> SReq_Key (plan_request p) \<noteq> '''' \<longrightarrow>
       mem_active w (SReq_Key (plan_request p)) = None \<or> mem_active w (SReq_Key (plan_request p)) = Some ''''"
    by (rule mem_tx.persist_success [OF pers [unfolded env_def] pns]) (rule that; assumption)
  have new: "mem_records w0 (plan_engineID p) = None"
    using fork_generates_ID [OF prep [unfolded env_def] mode] fresh unfolding env_def by metis
  have "plan_previousID p = ''''" "plan_requireKeyAbsent p" "plan_record p = Some parent"
    using forks by (auto simp: plan_forks_def)
  moreover have "\<exists>st. SRec_DriverState parent = Some st \<and> SRec_DriverType parent = dt \<and> SRec_Agent parent = identity
         \<and> SRec_CompatibilityFingerprint parent = fp
         \<and> (SReq_SessionCodec req \<noteq> '''' \<longrightarrow> SRec_SessionCodec parent = SReq_SessionCodec req)"
    using val unfolding validateForkParent_def compatible_status [symmetric] Let_def
    by (auto simp: compatible_status fingerprint_matches_def split: if_splits)
  ultimately show ?thesis
    using recs act free same key ns preq par persist_record_ID [of p identity dt' fp cn st t1 t2] new
    unfolding saved [symmetric] by (auto simp: finalized_records_def finalized_active_def persist_request_def Let_def threadNamespace_def)
qed

definition fork_request :: SessionRequest where
  "fork_request = (thread_request ''f'')\<lparr>SReq_Mode := SessionFork, SReq_ForkFromKey := ''k'',
     SReq_SessionCodec := ''codex''\<rparr>"

definition fork_world :: mem_world where
  "fork_world = sample_world\<lparr>mw_store := NewStore\<lparr>
     store_records := [''parent'' \<mapsto> storeRecord (sample_saved\<lparr>SRec_ID := ''parent''\<rparr>)],
     store_keyIndex := [''k'' \<mapsto> ''parent'']\<rparr>\<rparr>"

definition fork_lease :: "string \<Rightarrow> SessionLease" where
  "fork_lease target = \<lparr>SLease_Target = target, SLease_Owner = ''lease_owner'', SLease_Token = sample_token\<rparr>"

definition fork_targets :: "string list" where
  "fork_targets = [sessionKeyLeaseID threadNamespace ''f'', sessionKeyLeaseID threadNamespace ''k'',
     sessionRecordLeaseID ''parent'', sessionRecordLeaseID ''session'']"

definition fork_plan :: resolvedSessionPlan where
  "fork_plan = (new_plan fork_request ''lease_owner'')
     \<lparr>plan_engineID := ''session'', plan_created := True, plan_requireKeyAbsent := True,
      plan_record := Some (sample_saved\<lparr>SRec_ID := ''parent''\<rparr>),
      plan_keyLeaseID := sessionKeyLeaseID threadNamespace ''f'',
      plan_compatibility := compat_of_status SessionCompatibilityNew,
      plan_leases := map fork_lease fork_targets\<rparr>"

definition fork_entry :: "gotime \<Rightarrow> leaseRecord" where
  "fork_entry t = \<lparr>lease_Owner = ''lease_owner'', lease_Until = t, lease_Token = sample_token\<rparr>"

definition fork_prepared :: mem_world where
  "fork_prepared = fork_world\<lparr>mw_count := 6, mw_store := mw_store fork_world\<lparr>store_leases :=
     [sessionKeyLeaseID threadNamespace ''f'' \<mapsto> fork_entry 101, sessionKeyLeaseID threadNamespace ''k'' \<mapsto> fork_entry 102,
      sessionRecordLeaseID ''parent'' \<mapsto> fork_entry 103, sessionRecordLeaseID ''session'' \<mapsto> fork_entry 105]\<rparr>\<rparr>"

lemma fork_prepare:
  "prepareSessionPlan sample_env (Some mem_session_store) fork_request sample_identity ''codex'' ''fp'' fork_world
     = (Inr (Some fork_plan), fork_prepared)"
  by (simp add: run_simps sample_env_def fork_request_def fork_world_def NewStore_def Let_def threadNamespace_def
      prepareFork_def prepareForkParent_def forkParentCandidate_def validateForkParent_def sessionCompatibility_def
      session_by_id_def storeRecord_def sample_saved_def persist_record_def engineRecord_def recordByIDLocked_def
      StatusArchived_def new_plan_def sample_plan_def fork_plan_def fork_prepared_def fork_lease_def fork_targets_def
      fork_entry_def sample_token_def del: hexEncode.simps replicate.simps)

theorem fork_isolated_witness:
  "\<exists>ref p1 w1. persistSessionPlan sample_env (Some mem_session_store) sample_identity (Some sample_driver) ''fp''
      (Some sample_checkpoint) (fork_plan, fork_prepared) = (Return (Inr (Some ref)), (p1, w1))
     \<and> mem_records w1 ''parent'' = mem_records fork_world ''parent''
     \<and> mem_active w1 ''f'' = Some ''session'' \<and> mem_active w1 ''k'' = Some ''parent''"
proof -
  have "\<exists>ref p1 w1. persistSessionPlan sample_env (Some mem_session_store) sample_identity (Some sample_driver) ''fp''
      (Some sample_checkpoint) (fork_plan, fork_prepared) = (Return (Inr (Some ref)), (p1, w1)) \<and> mem_ready w1"
    by (rule sample_persist_runs)
      (simp_all add: fork_plan_def new_plan_def thread_request_def fork_request_def mem_ready_def fork_prepared_def
        fork_world_def sample_world_def NewStore_def lease_current_def store_lease_def fork_lease_def fork_targets_def
        fork_entry_def)
  then obtain ref p1 w1 where pers: "persistSessionPlan sample_env (Some mem_session_store) sample_identity
      (Some sample_driver) ''fp'' (Some sample_checkpoint) (fork_plan, fork_prepared) = (Return (Inr (Some ref)), (p1, w1))"
    by blast
  have fields: "SReq_Mode fork_request = SessionFork" "SReq_Namespace fork_request = threadNamespace"
    "SReq_Key fork_request = ''f''" "plan_engineID fork_plan = ''session''"
    by (simp_all add: fork_request_def thread_request_def fork_plan_def)
  have act: "mem_active fork_world ''k'' = Some ''parent''" by (simp add: mem_active_def fork_world_def)
  have "mem_records fork_world ''session'' = None" by (simp add: mem_records_def fork_world_def)
  then have fresh: "\<forall>n i w'. newEngineSessionID (mem_env sample_hash (\<lambda>_. '''') 100 50) ''codex'' ''fp''
      (fork_world\<lparr>mw_count := n\<rparr>) = (Inr i, w') \<longrightarrow> mem_records fork_world i = None"
    by (auto simp: newEngineSessionID_def mem_env_def fork_world_def sample_world_def entropy_suffix_def sample_hash_def)
  have "\<exists>r. mem_records fork_world ''parent'' = Some r" by (simp add: mem_records_def fork_world_def)
  with fork_isolated [OF fork_prepare [unfolded sample_env_def] pers [unfolded sample_env_def] fields(1,2) fresh] pers act
  show ?thesis unfolding fields by auto
qed

text \<open>A key whose record another owner is using: the key lease is taken and given back.\<close>

definition busy_world :: mem_world where
  "busy_world = fork_world\<lparr>mw_store := mw_store fork_world\<lparr>store_leases :=
     [sessionRecordLeaseID ''parent'' \<mapsto> \<lparr>lease_Owner = ''B'', lease_Until = 100, lease_Token = ''tokB''\<rparr>]\<rparr>\<rparr>"

theorem prepare_failure_releases_witness:
  "\<exists>e w'. prepareSessionPlan sample_env (Some mem_session_store) (thread_request ''k'') sample_identity ''codex'' ''fp'' busy_world
      = (Inl e, w')
     \<and> is_busy e \<and> mem_records w' = mem_records busy_world
     \<and> mem_leases w' (sessionKeyLeaseID threadNamespace ''k'') = None"
proof -
  have "\<exists>e w'. prepareSessionPlan sample_env (Some mem_session_store) (thread_request ''k'') sample_identity ''codex'' ''fp'' busy_world
      = (Inl e, w') \<and> is_busy e"
    by (simp add: run_simps sample_env_def busy_world_def fork_world_def NewStore_def Let_def threadNamespace_def
        acquireCurrent_def storeRecord_def sample_saved_def persist_record_def engineRecord_def recordByIDLocked_def
        StatusArchived_def new_plan_def sample_plan_def is_busy_def releaseAfter_def releaseContext_def
        stopLeaseRenewal_def errors_Join_def map_filter_def release_failure_def
        del: hexEncode.simps replicate.simps)
  then obtain e w' where run: "prepareSessionPlan sample_env (Some mem_session_store) (thread_request ''k'') sample_identity
      ''codex'' ''fp'' busy_world = (Inl e, w')" "is_busy e" by blast
  have "mem_leases busy_world (sessionKeyLeaseID threadNamespace ''k'') = None"
    by (simp add: mem_leases_def busy_world_def)
  with prepare_failure_releases [OF run(1) [unfolded sample_env_def]] run show ?thesis by metis
qed

definition in_time :: renew_attempt where
  "in_time = \<lparr>attempt_timing = ReturnedInTime, attempt_ctx_cause = ErrSessionNotFound, attempt_cause = NotCancelled\<rparr>"

text \<open>At time 102 the first of the sample plan's leases has expired.\<close>

definition late_world :: mem_world where
  "late_world = sample_prepared\<lparr>mw_count := 102\<rparr>"

theorem renewal_fails_closed_witness:
  "\<exists>p' w'. renew_tick mem_session_store 100 [in_time, in_time] (plan_leases sample_plan) (sample_plan, late_world)
      = (RenewStopped True, (p', w')) \<and> plan_renewErr p' \<noteq> None"
proof -
  have "\<exists>p' w'. renew_tick mem_session_store 100 [in_time, in_time] (plan_leases sample_plan) (sample_plan, late_world)
      = (RenewStopped True, (p', w'))"
    by (simp add: sample_plan_def new_plan_def late_world_def sample_prepared_def sample_world_def in_time_def
        engineStore_def memory_ops_def map_step_def mem_try_def unit_result_def RenewLease_def store_lease_def
        boundedSessionStoreCall_def)
  then obtain p' w' where run: "renew_tick mem_session_store 100 [in_time, in_time] (plan_leases sample_plan)
      (sample_plan, late_world) = (RenewStopped True, (p', w'))" by blast
  moreover have "length [in_time, in_time] = length (plan_leases sample_plan)" by (simp add: sample_plan_def)
  ultimately show ?thesis using renewal_fails_closed [OF run] by blast
qed

end
