(* ===== verification/RuntimeGuarantees.thy ===== *)
theory RuntimeGuarantees
  imports ThreadRecovery ThreadLifecycle
begin

text \<open>
  What callers of a thread may rely on, over every run of the thread runtime, and a small store that
  goes down and comes back to show the runs exist.
\<close>

subsection \<open>Invariants of reachable states\<close>

lemma reachable_ok: "rt_reachable env s \<Longrightarrow> rt_ok (rs_rt s)"
proof (induction rule: rt_reachable.induct)
  case (init key w runs)
  then show ?case by (simp add: rt_ok_def new_threadRuntime_def)
next
  case (step s s')
  then show ?case using step_sound[of env s s'] by (simp add: sound_def)
qed

lemma reachable_attended: "\<lbrakk>rt_reachable env s; good_entropy env\<rbrakk> \<Longrightarrow> attended (rs_rt s) \<or> rs_closed s"
proof (induction rule: rt_reachable.induct)
  case (init key w runs)
  then show ?case by (simp add: attended_def new_threadRuntime_def)
next
  case (step s s')
  then show ?case using step_sound[of env s s'] reachable_ok[of env s] by (simp add: sound_def)
qed

lemma steps_after_loss:
  "\<lbrakk>(rt_step env)\<^sup>*\<^sup>* s s'; rt_ok (rs_rt s); rt_ownershipErr (rs_rt s) \<noteq> None\<rbrakk>
   \<Longrightarrow> rt_ok (rs_rt s') \<and> rt_ownershipErr (rs_rt s') \<noteq> None \<and> rs_writes s' = rs_writes s"
proof (induction rule: rtranclp_induct)
  case (step y z)
  then show ?case using step_sound[of env y z] by (simp add: sound_def)
qed simp

lemma lost_not_acquired: "rt_ownershipErr (rs_rt s) \<noteq> None \<Longrightarrow> fst (acquireLocked env s) \<noteq> None"
  by (auto simp: acquireLocked_def split: option.split)

lemma begin_acquires: "fst (acquireLocked env s) \<noteq> None \<Longrightarrow> fst (rt_begin env ts renewal ctx_after s) \<noteq> None"
  by (auto simp: rt_begin_def Let_def split: option.split prod.split)

subsection \<open>Properties\<close>

text \<open>
  C9. Losing ownership is final for the runtime. Once the ownership error of a reachable runtime is set,
  then whatever executions, recovery rounds, standbys and other clients of the store do afterwards, the
  error stays, not one further write reaches the store, a checkpoint handed to the adapter is refused with
  the lost-lease error, and no execution can begin.
\<close>

theorem ownership_loss_is_final:
  assumes "rt_reachable env s" "rt_ownershipErr (rs_rt s) \<noteq> None" "(rt_step env)\<^sup>*\<^sup>* s s'"
  shows "rt_ownershipErr (rs_rt s') \<noteq> None \<and> rs_writes s' = rs_writes s
    \<and> fst (finalize_locked env ctx_done req s') = Inl ErrLeaseLost_value
    \<and> fst (rt_begin env ts renewal ctx_after s') \<noteq> None"
proof -
  have k: "rt_ownershipErr (rs_rt s') \<noteq> None \<and> rs_writes s' = rs_writes s"
    using steps_after_loss[OF assms(3) reachable_ok[OF assms(1)] assms(2)] by blast
  moreover have "fst (finalize_locked env ctx_done req s') = Inl ErrLeaseLost_value"
    using k by (simp add: finalize_locked_def)
  ultimately show ?thesis using begin_acquires[OF lost_not_acquired] by blast
qed

text \<open>
  C10. A checkpoint left behind without ownership is taken up again only over the record it follows.
  When a reachable runtime without an owner holds a checkpoint and acquires ownership, then the thread's
  record was read from the store after the key's lease was granted, and either it is already the checkpoint
  (which is then no longer pending and becomes the durable version), or it is exactly the record known to be
  durable before, and the checkpoint stays pending. Any other record makes the acquisition fail.
\<close>

theorem recovery_validates:
  assumes "rt_reachable env s" "rt_owner (rs_rt s) = None" "rt_pending (rs_rt s) = Some p" "acquireLocked env s = (None, s')"
  shows "\<exists>rec w0 w plan. AcquireThreadOwnership (re_senv env) (Some (engineStore (re_ops env))) threadNamespace
        (rt_key (rs_rt s)) (re_driverType env) w0 = (Inr plan, w)
      \<and> ops_Resolve (re_ops env) (by_key (rt_key (rs_rt s))) w = (Inr rec, rs_world s')
      \<and> rt_owner (rs_rt s') = Some (plan\<lparr>plan_renewing := True\<rparr>)
      \<and> (re_hash env rec = re_hash env (Some (Finalize_Record p)) \<and> rt_pending (rs_rt s') = None
           \<and> rt_durableVersion (rs_rt s') = re_hash env rec
         \<or> re_hash env rec = rt_durableVersion (rs_rt s) \<and> rt_pending (rs_rt s') = Some p
           \<and> rt_durableVersion (rs_rt s') = rt_durableVersion (rs_rt s))"
  using assms(4)
proof (cases rule: acquire_cases)
  case kept
  then show ?thesis using assms(2) by simp
next
  case (fails e)
  then show ?thesis by simp
next
  case (owned pl rid r1 w0 w)
  have "rt_pendingNeedsValidation (rs_rt s)" using reachable_ok[OF assms(1)] assms(2,3) by (simp add: rt_ok_def)
  then obtain rec where "ops_Resolve (re_ops env) (by_key (rt_key (rs_rt s))) w = (Inr rec, rs_world s')"
    "re_hash env rec = re_hash env (Some (Finalize_Record p)) \<and> rt_pending r1 = None \<and> rt_durableVersion r1 = re_hash env rec
     \<or> re_hash env rec = rt_durableVersion (rs_rt s) \<and> rt_pending r1 = Some p \<and> rt_durableVersion r1 = rt_durableVersion (rs_rt s)"
    using owned(5) assms(3) by (auto simp: revalidated_def)
  then show ?thesis using owned(4,7) by (intro exI[of _ rec] exI[of _ w0] exI[of _ w] exI[of _ pl]) simp
qed


subsection \<open>A store that goes down\<close>

text \<open>The world says whether storage is up. The store holds no record and grants every lease.\<close>

definition flaky_ops :: "bool StoreOps" where
  "flaky_ops =
     \<lparr>ops_Resolve = (\<lambda>q w. (Inr None, w)),
      ops_Finalize = (\<lambda>req w. (if w then Inr () else Inl (BackendError ''down''), w)),
      ops_AcquireLease = (\<lambda>target owner ttl w. (Inr \<lparr>Lease_Target = target, Lease_Owner = owner, Lease_Token = ''t''\<rparr>, w)),
      ops_RenewLease = (\<lambda>l ttl w. (Inr (), w)),
      ops_ReleaseLease = (\<lambda>l w. (Inr (), w))\<rparr>"

definition flaky_entropy :: entropy where
  "flaky_entropy = EntropyRead (replicate 16 (CHR ''z''))"

definition flaky_env :: "bool rt_env" where
  "flaky_env = \<lparr>re_ops = flaky_ops,
     re_senv = \<lparr>env_stableHash = sample_hash, env_paramsHash = (\<lambda>_. ''''), env_entropyRead = (\<lambda>w. (flaky_entropy, w)),
       env_now = (\<lambda>w. (0, w)), env_LeaseTTL = 100, env_LeaseRenewInterval = 50\<rparr>,
     re_hash = (\<lambda>rec. case rec of None \<Rightarrow> '''' | Some r \<Rightarrow> Record_ID r), re_runEntropy = (\<lambda>w. (EntropyRead (replicate 8 (CHR ''z'')), w)),
     re_driverType = ''codex''\<rparr>"

definition flaky_start :: "bool rstate" where
  "flaky_start = \<lparr>rs_rt = new_threadRuntime ''k'', rs_world = False, rs_closed = False, rs_runs = [], rs_writes = [], rs_pushed = []\<rparr>"

definition flaky_renewal :: "hook_timing \<times> StoreError" where
  "flaky_renewal = (ReturnedInTime, BackendError ''down'')"

definition flaky_begun :: "bool rstate" where
  "flaky_begun = snd (rt_begin flaky_env (\<lambda>_. flaky_renewal) flaky_renewal None (snd (standby_open flaky_env flaky_start)))"

definition flaky_saved :: "bool rstate" where
  "flaky_saved = snd (finalize_locked flaky_env False sample_request flaky_begun)"

definition flaky_left :: "bool rstate" where
  "flaky_left = snd (standby_close flaky_env (snd (rt_end flaky_env False flaky_saved)))"

definition flaky_runID :: string where
  "flaky_runID = ''run_'' @ hexEncode (replicate 8 (CHR ''z''))"

definition flaky_plan :: resolvedSessionPlan where
  "flaky_plan = (new_plan (thread_request ''k'') ''lease_owner'')\<lparr>plan_leases :=
     [\<lparr>SLease_Target = sessionKeyLeaseID threadNamespace ''k'', SLease_Owner = ''lease_owner'', SLease_Token = ''t''\<rparr>]\<rparr>"

lemma flaky_ownership:
  "AcquireThreadOwnership (re_senv flaky_env) (Some (engineStore (re_ops flaky_env))) threadNamespace ''k'' (re_driverType flaky_env) w
     = (Inr flaky_plan, w)"
  by (simp add: AcquireThreadOwnership_def flaky_env_def flaky_ops_def flaky_entropy_def newLeaseOwner_def entropy_suffix_def
      acquireLease_def engineStore_def map_step_def engine_lease_def sample_hash_def flaky_plan_def new_plan_def
      validateSessionRequest_def Let_def thread_request_def threadNamespace_def)

lemma flaky_newRunID: "rt_newRunID flaky_env s = (Inr flaky_runID, s)"
  by (simp add: rt_newRunID_def on_store_def flaky_env_def newRunID_def flaky_runID_def)

lemma flaky_release: "rt_release_plan flaky_env (flaky_plan\<lparr>plan_renewing := x\<rparr>) s = (None, s)"
  by (simp add: rt_release_plan_def on_store_def releaseContext_def flaky_plan_def flaky_env_def flaky_ops_def
      engineStore_def map_step_def release_failure_def errors_Join_def map_filter_def)

lemma flaky_finalize_down:
  "\<not> rs_world s \<Longrightarrow> rt_Finalize_call flaky_env req s
     = (Some (BackendError ''down''), s\<lparr>rs_writes := rs_writes s @ [(req, Some (BackendError ''down''))]\<rparr>)"
  by (cases s) (simp add: rt_Finalize_call_def on_store_def flaky_env_def flaky_ops_def Let_def)

lemma flaky_finalize_up:
  "rs_world s \<Longrightarrow> rt_Finalize_call flaky_env req s = (None, s\<lparr>rs_writes := rs_writes s @ [(req, None)]\<rparr>)"
  by (cases s) (simp add: rt_Finalize_call_def on_store_def flaky_env_def flaky_ops_def Let_def)

lemma flaky_acquire:
  "ops_AcquireLease (re_ops flaky_env) target owner ttl w = (Inr \<lparr>Lease_Target = target, Lease_Owner = owner, Lease_Token = ''t''\<rparr>, w)"
  by (simp add: flaky_env_def flaky_ops_def)

lemma flaky_renew: "bounded_store_call flaky_renewal (ops_RenewLease (re_ops flaky_env) l ttl) s = ((None, True), s)"
  by (simp add: bounded_store_call_def flaky_renewal_def on_store_def flaky_env_def flaky_ops_def)

lemma flaky_released: "ops_ReleaseLease (re_ops flaky_env) l w = (Inr (), w)"
  by (simp add: flaky_env_def flaky_ops_def)

lemma flaky_resolve: "ops_Resolve (re_ops flaky_env) q w = (Inr None, w)"
  by (simp add: flaky_env_def flaky_ops_def)

lemma flaky_hash: "re_hash flaky_env None = ''''" "re_hash flaky_env (Some r) = Record_ID r"
  by (simp_all add: flaky_env_def)

lemmas flaky_runs = flaky_ownership flaky_newRunID flaky_release flaky_finalize_down flaky_renew flaky_resolve flaky_hash
  acquireLocked_def registerRun_def on_store_def upd_rt_def Let_def

lemma flaky_standby:
  "standby_open flaky_env flaky_start = (None, flaky_start\<lparr>rs_runs := [flaky_runID],
     rs_rt := (rs_rt flaky_start)\<lparr>rt_owner := Some (flaky_plan\<lparr>plan_renewing := True\<rparr>), rt_ownerID := flaky_runID, rt_standby := True\<rparr>\<rparr>)"
  by (simp add: standby_open_def flaky_start_def new_threadRuntime_def flaky_runs)

lemma flaky_begun_eq:
  "flaky_begun = flaky_start\<lparr>rs_runs := [flaky_runID],
     rs_rt := (rs_rt flaky_start)\<lparr>rt_owner := Some (flaky_plan\<lparr>plan_renewing := True\<rparr>), rt_ownerID := flaky_runID, rt_standby := True,
       rt_executing := True, rt_stopExecution := True\<rparr>\<rparr>"
  unfolding flaky_begun_def flaky_standby
  by (simp add: rt_begin_def begin_flush_def flushLocked_def flaky_start_def new_threadRuntime_def flaky_runs)

lemma flaky_left_eq:
  "rt_owner (rs_rt flaky_left) = None" "rt_pending (rs_rt flaky_left) = Some sample_request" "rt_recoveryID (rs_rt flaky_left) = flaky_runID"
  "rt_durableVersion (rs_rt flaky_left) = ''''" "rs_writes flaky_left = [(sample_request, Some (BackendError ''down''))]" "rt_key (rs_rt flaky_left) = ''k''"
  unfolding flaky_left_def flaky_saved_def flaky_begun_eq
  by (simp_all add: finalize_locked_def flaky_start_def new_threadRuntime_def flaky_runs keep_pending_def rt_signal_def rt_push_def
      rt_end_def standby_close_def releaseLocked_def rt_ownerCancel_def unregisterRun_def startReleasedRecoveryLocked_def)

lemma flaky_reachable:
  "rt_reachable flaky_env flaky_start" "rt_reachable flaky_env flaky_begun" "rt_reachable flaky_env flaky_saved" "rt_reachable flaky_env flaky_left"
proof -
  show 1: "rt_reachable flaky_env flaky_start" unfolding flaky_start_def by (rule rt_reachable.init)
  show 2: "rt_reachable flaky_env flaky_begun" unfolding flaky_begun_def
    by (intro rt_reachable.step[OF rt_reachable.step[OF 1 rt_step.open_standby]] rt_step.begin_execution)
      (simp_all only: flaky_standby, simp_all add: flaky_start_def new_threadRuntime_def)
  show 3: "rt_reachable flaky_env flaky_saved" unfolding flaky_saved_def
    by (intro rt_reachable.step[OF 2] rt_step.finalize) (simp add: flaky_begun_eq)
  have "\<not> rt_executing (rs_rt (snd (rt_end flaky_env False flaky_saved)))"
    by (simp add: flaky_saved_def flaky_begun_eq finalize_locked_def flaky_start_def new_threadRuntime_def flaky_runs keep_pending_def
        rt_signal_def rt_push_def rt_end_def)
  from rt_reachable.step[OF rt_reachable.step[OF 3 rt_step.end_execution] rt_step.close_standby[OF this]]
  show "rt_reachable flaky_env flaky_left" unfolding flaky_left_def .
qed

subsection \<open>Witnesses\<close>

text \<open>The renewal of the sample run's lease fails, and its next check notices.\<close>

definition flaky_lost :: "bool rstate" where
  "flaky_lost = snd (verifyOwnership (rt_ownerCancel (upd_rt (\<lambda>r. r\<lparr>rt_owner :=
     Some (flaky_plan\<lparr>plan_renewing := True, plan_renewErr := Some ErrSessionNotFound\<rparr>)\<rparr>) flaky_begun)))"

lemma flaky_lost_reachable: "rt_reachable flaky_env flaky_lost"
proof -
  have "rt_owner (rs_rt flaky_begun) = Some (flaky_plan\<lparr>plan_renewing := True\<rparr>)" by (simp add: flaky_begun_eq)
  from rt_step.renewal_fails[OF this, of flaky_env ErrSessionNotFound]
  have "rt_reachable flaky_env (rt_ownerCancel (upd_rt (\<lambda>r. r\<lparr>rt_owner :=
     Some (flaky_plan\<lparr>plan_renewing := True, plan_renewErr := Some ErrSessionNotFound\<rparr>)\<rparr>) flaky_begun))"
    using rt_reachable.step[OF flaky_reachable(2)] by simp
  then show ?thesis unfolding flaky_lost_def
    by (rule rt_reachable.step[OF _ rt_step.verify]) (simp add: flaky_begun_eq)
qed

theorem ownership_loss_is_final_witness:
  "rs_writes (flaky_lost\<lparr>rs_world := True\<rparr>) = []
   \<and> fst (finalize_locked flaky_env False sample_request (flaky_lost\<lparr>rs_world := True\<rparr>)) = Inl ErrLeaseLost_value
   \<and> fst (rt_begin flaky_env (\<lambda>_. flaky_renewal) flaky_renewal None (flaky_lost\<lparr>rs_world := True\<rparr>)) \<noteq> None"
proof -
  have a: "rt_ownershipErr (rs_rt flaky_lost) \<noteq> None" "rs_writes flaky_lost = []"
    by (simp_all add: flaky_lost_def flaky_begun_eq verifyOwnership_def flaky_start_def)
  have "(rt_step flaky_env)\<^sup>*\<^sup>* flaky_lost (flaky_lost\<lparr>rs_world := True\<rparr>)" by (intro r_into_rtranclp rt_step.others)
  from ownership_loss_is_final[OF flaky_lost_reachable a(1) this] a(2) show ?thesis by metis
qed

theorem recovery_validates_witness:
  "\<exists>s'. acquireLocked flaky_env flaky_left = (None, s') \<and> rt_pending (rs_rt s') = Some sample_request"
proof -
  have "\<exists>s'. acquireLocked flaky_env flaky_left = (None, s')"
    unfolding flaky_left_def flaky_saved_def flaky_begun_eq
    by (simp add: finalize_locked_def flaky_start_def new_threadRuntime_def flaky_runs keep_pending_def rt_signal_def rt_push_def
      rt_end_def standby_close_def releaseLocked_def rt_ownerCancel_def unregisterRun_def startReleasedRecoveryLocked_def
      validatePendingLocked_def sample_request_def sample_record_def)
  then obtain s' where s': "acquireLocked flaky_env flaky_left = (None, s')" by blast
  have "Record_ID (Finalize_Record sample_request) \<noteq> []" by (simp add: sample_request_def sample_record_def)
  then show ?thesis using recovery_validates[OF flaky_reachable(4) flaky_left_eq(1,2) s'] s' by (auto simp: flaky_runs)
qed

text \<open>With storage back up, a recovery attempt stores the checkpoint that was left behind.\<close>

definition flaky_up :: "bool rstate" where
  "flaky_up = flaky_left\<lparr>rs_world := True\<rparr>"


end
