(* ===== verification/EventSink.thy ===== *)
theory EventSink
  imports MessageHub
begin

text \<open>
  \<^verbatim>\<open>sink.go\<close>: the sink a driver reports to. It translates driver output into events, owns the public
  run envelope (one start, one finish), and dispatches approval requests: automatic modes, the callback or
  the event form, the fallback actions and their bounded retries. What the sink hands to the broker is a
  log. The responders of approval requests live on the heap of \<open>Approval\<close>. Everything a host, its
  handler or a context does during one attempt is an argument of that attempt.
\<close>

subsection \<open>State\<close>

datatype SinkError =
    ErrApprovalAbort
  | SinkCtx CtxErr
  | HandlerError string
  | HandlerPanic string
  | HandlerUnresolved

fun SinkError_Error :: "SinkError \<Rightarrow> string" where
  "SinkError_Error ErrApprovalAbort = ''adaptor: approval aborted the run''"
| "SinkError_Error (SinkCtx Canceled) = ''context canceled''"
| "SinkError_Error (SinkCtx DeadlineExceeded) = ''context deadline exceeded''"
| "SinkError_Error (HandlerError msg) = msg"
| "SinkError_Error (HandlerPanic msg) = ''approval handler panic: '' @ msg"
| "SinkError_Error HandlerUnresolved = ''approval handler returned without resolving the request''"

text \<open>The context of the invocation: not installed yet, live, or ended.\<close>

datatype invocation_ctx = NoCtx | LiveCtx | EndedCtx CtxErr

datatype sink_out = Published Event "EventSourceMeta option" | PublishedTerminal Event "EventSourceMeta option"

record eventSink =
  sk_invocationCtx :: invocation_ctx
  sk_providerFailure :: "RunFailure option"
  sk_providerFailureComplete :: bool
  sk_hub :: "messageHub option"
  sk_eventsCalled :: bool
  sk_hostEventsCalled :: "bool option"
  sk_spool :: bool
  sk_out :: "sink_out list"
  sk_closed :: bool
  sk_runID :: string
  sk_policy :: HumanDecisionPolicy
  sk_handler :: bool
  sk_caps :: RunPolicyCapabilities
  sk_retryWarned :: "HumanDecisionKind list"
  sk_decSeq :: nat
  sk_outstanding :: "(string \<times> ApprovalRequest) list"
  sk_heap :: responder_heap
  sk_next :: nat
  sk_failure :: "RunFailure option"
  sk_failureBeforeCancel :: bool
  sk_lifecycleActive :: bool
  sk_lifecycleEnded :: bool
  sk_providerRunID :: string
  sk_providerThreadID :: string
  sk_driverTerminal :: "RunFinished option"
  sk_terminalSource :: "EventSourceMeta option"
  sk_attempts :: "(DecisionRequest \<times> DecisionResponse) list"

definition effectiveApprovalPolicy :: "HumanDecisionPolicy \<Rightarrow> HumanDecisionPolicy" where
  "effectiveApprovalPolicy p =
     p\<lparr>HDP_Permission := (if HDP_Permission p = HumanDecisionUnset then HumanDecisionAsk else HDP_Permission p),
       HDP_PlanReview := (if HDP_PlanReview p = HumanDecisionUnset then HumanDecisionAsk else HDP_PlanReview p),
       HDP_Question := (if HDP_Question p = QuestionUnset then QuestionAutoReject else HDP_Question p),
       HDP_Timeout := (if HDP_Timeout p = 0 then DefaultHumanDecisionTimeout else HDP_Timeout p),
       HDP_OnTimeout := (if HDP_OnTimeout p = FailureActionUnset then FailureAbort else HDP_OnTimeout p),
       HDP_OnReject := (if HDP_OnReject p = FailureActionUnset then FailureAbort else HDP_OnReject p),
       HDP_MaxRetries := (if HDP_MaxRetries p = 0 then DefaultHumanDecisionMaxRetries else HDP_MaxRetries p)\<rparr>"

definition newEventSink ::
  "string \<Rightarrow> HumanDecisionPolicy \<Rightarrow> bool \<Rightarrow> RunPolicyCapabilities \<Rightarrow> eventSink" where
  "newEventSink runID policy handler caps =
     \<lparr>sk_invocationCtx = NoCtx, sk_providerFailure = None, sk_providerFailureComplete = False, sk_hub = None,
      sk_eventsCalled = False, sk_hostEventsCalled = None, sk_spool = False, sk_out = [], sk_closed = False,
      sk_runID = runID, sk_policy = effectiveApprovalPolicy policy, sk_handler = handler, sk_caps = caps,
      sk_retryWarned = [], sk_decSeq = 0, sk_outstanding = [], sk_heap = Map.empty, sk_next = 0,
      sk_failure = None, sk_failureBeforeCancel = False, sk_lifecycleActive = False, sk_lifecycleEnded = False,
      sk_providerRunID = '''', sk_providerThreadID = '''', sk_driverTerminal = None, sk_terminalSource = None, sk_attempts = []\<rparr>"

subsection \<open>Publishing\<close>

definition sourceMetaFromEvent :: "Event \<Rightarrow> EventSourceMeta option" where
  "sourceMetaFromEvent ev =
     (let m = Event_meta ev in
      case Meta_Source m of Some src \<Rightarrow> Some src | None \<Rightarrow>
      if Meta_RunID m = '''' \<and> Meta_ThreadKey m = '''' \<and> Meta_TurnID m = '''' \<and> Meta_Sequence m = 0 \<and> Meta_Time m = zero_time then None
      else Some \<lparr>Source_RunID = Meta_RunID m, Source_ThreadID = Meta_ThreadKey m, Source_TurnID = Meta_TurnID m,
             Source_Sequence = Meta_Sequence m, Source_Timestamp = Meta_Time m\<rparr>)"

definition sink_out :: "sink_out \<Rightarrow> eventSink \<Rightarrow> eventSink" where
  "sink_out e s = s\<lparr>sk_out := sk_out s @ [e]\<rparr>"

definition pushWithSource :: "Event \<Rightarrow> EventSourceMeta option \<Rightarrow> eventSink \<Rightarrow> eventSink" where
  "pushWithSource ev src = sink_out (Published ev src)"

definition sink_push :: "Event \<Rightarrow> eventSink \<Rightarrow> eventSink" where
  "sink_push ev = pushWithSource ev (sourceMetaFromEvent ev)"

definition push_body :: "event_body \<Rightarrow> eventSink \<Rightarrow> eventSink" where
  "push_body b = sink_push (new_event b)"

subsection \<open>Run services\<close>

text \<open>What a pump of \<^verbatim>\<open>startPumps\<close> does with an event of a run service: it may not open or close the run's envelope.\<close>

fun pump_event :: "Event \<Rightarrow> eventSink \<Rightarrow> eventSink" where
  "pump_event ev s =
     (case Event_body ev of EvRunStarted _ \<Rightarrow> s | EvRunFinished _ \<Rightarrow> s | EvDone _ \<Rightarrow> s | _ \<Rightarrow> sink_push ev s)"

subsection \<open>Driver output and the run envelope\<close>

definition ctx_live :: "eventSink \<Rightarrow> bool" where
  "ctx_live s \<longleftrightarrow> sk_invocationCtx s = LiveCtx"

text \<open>Transcript items that are the provider's own verdict that the turn failed.\<close>

definition failure_item :: "RunEvent \<Rightarrow> string option" where
  "failure_item ev =
     (case RunEvent_Item ev of None \<Rightarrow> None | Some item \<Rightarrow>
      if RunEvent_Type ev = RunEventItem
         \<and> (TItem_Kind item = ''failure'' \<or> TItem_Kind item = ''result'' \<and> TItem_IsError item \<and> TItem_Subtype item \<noteq> ''interrupted'')
      then Some (TItem_Text item) else None)"

definition agent_failure :: "string \<Rightarrow> RunFailure" where
  "agent_failure msg = \<lparr>Failure_Message = msg, Failure_Code = ''agent_error'', Failure_Metadata = [], Failure_HumanDecision = None\<rparr>"

text \<open>\<open>now\<close> is the clock for a delivery receipt, \<open>res\<close> the handle of the turn's result.\<close>

definition Emit :: "gotime \<Rightarrow> nat \<Rightarrow> RunEvent \<Rightarrow> eventSink \<Rightarrow> eventSink" where
  "Emit now res ev s =
     (let s1 = (case failure_item ev of None \<Rightarrow> s | Some msg \<Rightarrow>
            if sk_providerFailure s = None \<and> ctx_live s then s\<lparr>sk_providerFailure := Some (agent_failure msg)\<rparr> else s)
      in if RunEvent_Type ev = RunEventTurnCompleted \<and> RunEvent_Turn ev \<noteq> None \<and> sk_hub s1 \<noteq> None
         then s1\<lparr>sk_hub := map_option (\<lambda>h. completeTurn res None (ackPrompt now True False h)) (sk_hub s1)\<rparr>
         else pushWithSource (new_event (eventFromRunEvent ev))
           (if RunEvent_Seq ev \<noteq> 0 \<or> RunEvent_Timestamp ev \<noteq> zero_time
            then Some \<lparr>Source_RunID = '''', Source_ThreadID = '''', Source_TurnID = '''', Source_Sequence = RunEvent_Seq ev,
                   Source_Timestamp = RunEvent_Timestamp ev\<rparr> else None) s1)"

definition sourceMetaFromStreamPayload :: "StreamPayload \<Rightarrow> EventSourceMeta option" where
  "sourceMetaFromStreamPayload p =
     (let seq = (if Stream_Sequence p = 0 then Stream_Seq p else Stream_Sequence p) in
      if Stream_RunID p = '''' \<and> Stream_ThreadID p = '''' \<and> Stream_TurnID p = '''' \<and> seq = 0 \<and> Stream_Timestamp p = zero_time then None
      else Some \<lparr>Source_RunID = Stream_RunID p, Source_ThreadID = Stream_ThreadID p, Source_TurnID = Stream_TurnID p,
             Source_Sequence = seq, Source_Timestamp = Stream_Timestamp p\<rparr>)"

definition enableAuthoritativeLifecycle :: "eventSink \<Rightarrow> eventSink" where
  "enableAuthoritativeLifecycle s =
     (if sk_lifecycleActive s then s
      else push_body (EvRunStarted \<lparr>Started_RunID = sk_runID s, Started_ThreadID = ''''\<rparr>) (s\<lparr>sk_lifecycleActive := True\<rparr>))"

definition zero_RunFinished :: RunFinished where
  "zero_RunFinished = \<lparr>Finished_RunID = '''', Finished_ThreadID = '''', Finished_Usage = None, Finished_Failed = False,
     Finished_Reason = '''', Finished_Message = ''''\<rparr>"

definition run_finished_of :: "event_body \<Rightarrow> RunFinished" where
  "run_finished_of b = (case b of EvRunFinished f \<Rightarrow> f | _ \<Rightarrow> zero_RunFinished)"

definition captureDriverLifecycle :: "StreamPayload \<Rightarrow> EventSourceMeta option \<Rightarrow> eventSink \<Rightarrow> bool \<times> eventSink" where
  "captureDriverLifecycle p src s =
     (if \<not> sk_lifecycleActive s then (False, s)
      else if Stream_Kind p = ''run.started'' then
        (True, s\<lparr>sk_providerRunID := (if Stream_RunID p \<noteq> '''' then Stream_RunID p else sk_providerRunID s),
                sk_providerThreadID := (if Stream_ThreadID p \<noteq> '''' then Stream_ThreadID p else sk_providerThreadID s)\<rparr>)
      else if Stream_Kind p = ''run.finished'' \<or> Stream_Kind p = ''run.error'' then
        let s1 = (if Stream_Kind p = ''run.error'' \<and> Stream_Error p \<noteq> None \<and> \<not> sk_providerFailureComplete s \<and> ctx_live s
                  then s\<lparr>sk_providerFailure := Stream_Error p, sk_providerFailureComplete := True\<rparr> else s)
        in (True, s1\<lparr>sk_driverTerminal := Some (run_finished_of (eventFromStreamPayload p)), sk_terminalSource := src\<rparr>)
      else (False, s))"

definition EmitStream :: "StreamPayload \<Rightarrow> eventSink \<Rightarrow> eventSink" where
  "EmitStream p s =
     (let src = sourceMetaFromStreamPayload p in
      case captureDriverLifecycle p src s of (True, s1) \<Rightarrow> s1 | (False, s1) \<Rightarrow>
      let ev = new_event (eventFromStreamPayload p) in
      if \<not> sk_spool s1 \<and> (Stream_Kind p = ''run.finished'' \<or> Stream_Kind p = ''run.error'')
      then sink_out (PublishedTerminal ev src) s1 else pushWithSource ev src s1)"

text \<open>How the final outcome of an execution looks to the sink: a business failure, a context, or another error.\<close>

datatype run_outcome = RunOk | RunBusiness FailureReason string | RunCancelled string | RunOther string

definition completeAuthoritativeLifecycle :: "Usage option \<Rightarrow> run_outcome \<Rightarrow> eventSink \<Rightarrow> eventSink" where
  "completeAuthoritativeLifecycle usage err s =
     (if \<not> sk_lifecycleActive s \<or> sk_lifecycleEnded s then s
      else
        let t0 = (case sk_driverTerminal s of Some t \<Rightarrow> t
              | None \<Rightarrow> zero_RunFinished\<lparr>Finished_RunID := sk_providerRunID s, Finished_ThreadID := sk_providerThreadID s\<rparr>);
            t1 = t0\<lparr>Finished_RunID := (if Finished_RunID t0 = '''' then sk_runID s else Finished_RunID t0),
                    Finished_ThreadID := (if Finished_ThreadID t0 = '''' then sk_providerThreadID s else Finished_ThreadID t0),
                    Finished_Usage := (case usage of None \<Rightarrow> Finished_Usage t0 | Some u \<Rightarrow> Some u),
                    Finished_Failed := (err \<noteq> RunOk),
                    Finished_Reason := (case err of RunOk \<Rightarrow> '''' | RunBusiness r _ \<Rightarrow> r | RunCancelled _ \<Rightarrow> ''cancelled''
                        | RunOther _ \<Rightarrow> ''agent_error''),
                    Finished_Message := (case err of RunOk \<Rightarrow> '''' | RunBusiness _ m \<Rightarrow> m | RunCancelled m \<Rightarrow> m | RunOther m \<Rightarrow> m)\<rparr>;
            ev = new_event (EvRunFinished t1)
        in sink_out (if sk_spool s then Published ev (sk_terminalSource s) else PublishedTerminal ev (sk_terminalSource s))
             (s\<lparr>sk_lifecycleEnded := True\<rparr>))"

subsection \<open>Failures\<close>

definition setPendingFailure :: "RunFailure \<Rightarrow> eventSink \<Rightarrow> eventSink" where
  "setPendingFailure f s =
     (if sk_failure s \<noteq> None \<and> sk_failureBeforeCancel s then s
      else s\<lparr>sk_failure := Some f, sk_failureBeforeCancel := (sk_invocationCtx s = NoCtx \<or> ctx_live s)\<rparr>)"

definition beginDriverDispatch :: "eventSink \<Rightarrow> eventSink" where
  "beginDriverDispatch s = s\<lparr>sk_providerFailure := None, sk_providerFailureComplete := False\<rparr>"

definition observedProviderFailure :: "eventSink \<Rightarrow> RunFailure option \<times> bool" where
  "observedProviderFailure s = (sk_providerFailure s, sk_providerFailureComplete s)"

definition pendingFailureBeforeCancel :: "eventSink \<Rightarrow> RunFailure option" where
  "pendingFailureBeforeCancel s = (if sk_failureBeforeCancel s then sk_failure s else None)"

abbreviation (input) DecisionTimedOut :: DecisionResult where "DecisionTimedOut \<equiv> ''timed_out''"
abbreviation (input) DecisionAborted :: DecisionResult where "DecisionAborted \<equiv> ''aborted''"
abbreviation (input) FailureReject :: FailureCode where "FailureReject \<equiv> ''decision_rejected''"
abbreviation (input) FailureTimeout :: FailureCode where "FailureTimeout \<equiv> ''decision_timeout''"

definition decisionFailureMessage :: "DecisionResult \<Rightarrow> HumanDecisionKind \<Rightarrow> string \<Rightarrow> string" where
  "decisionFailureMessage decision kind source =
     (let src = (if source = '''' then kind else source) in
      if decision = DecisionRejected then ''approval rejected: kind='' @ kind @ '' source='' @ src
      else if decision = DecisionTimedOut then ''approval timed out: kind='' @ kind @ '' source='' @ src
      else ''approval failed ('' @ decision @ ''): kind='' @ kind @ '' source='' @ src)"

definition decision_failure ::
  "FailureCode \<Rightarrow> string \<Rightarrow> DecisionRequest \<Rightarrow> HumanDecisionKind \<Rightarrow> DecisionResult \<Rightarrow> int \<Rightarrow> RunFailure" where
  "decision_failure code msg req kind decision attempts =
     \<lparr>Failure_Message = msg, Failure_Code = code, Failure_Metadata = [],
      Failure_HumanDecision = Some \<lparr>HFail_Kind = kind, HFail_Source = DReq_Source req, HFail_Decision = decision,
        HFail_Request = Some req, HFail_Attempts = attempts\<rparr>\<rparr>"

subsection \<open>Notices\<close>

definition pushRequestedNotice :: "DecisionRequest \<Rightarrow> eventSink \<Rightarrow> eventSink" where
  "pushRequestedNotice req = push_body (plain_notice NoticeApprovalRequested (DReq_Prompt req)
     [(''request_id'', AnyString (DReq_RequestID req)), (''kind'', AnyString (DReq_Kind req)),
      (''source'', AnyString (DReq_Source req)), (''tool_call_id'', AnyString (DReq_ToolCallID req)),
      (''payload'', AnyMap (DReq_Payload req)), (''choices'', AnyList (map any_choice (DReq_Choices req))),
      (''created_at'', AnyInt (DReq_CreatedAt req)), (''deadline'', AnyInt (DReq_Deadline req)),
      (''default_result'', AnyString (DReq_DefaultDecision req)), (''attempt'', AnyInt (DReq_RetryAttempt req))])"

definition resolution :: "DecisionRequest \<Rightarrow> DecisionResponse \<Rightarrow> gotime \<Rightarrow> event_body" where
  "resolution req resp at = plain_notice NoticeApprovalResolved (Resp_Text resp)
     [(''request_id'', AnyString (DReq_RequestID req)), (''kind'', AnyString (DReq_Kind req)),
      (''source'', AnyString (DReq_Source req)), (''tool_call_id'', AnyString (DReq_ToolCallID req)),
      (''payload'', AnyMap (DReq_Payload req)), (''choices'', AnyList (map any_choice (DReq_Choices req))),
      (''created_at'', AnyInt (DReq_CreatedAt req)), (''deadline'', AnyInt (DReq_Deadline req)),
      (''result'', AnyString (Resp_Result resp)), (''choice'', AnyString (Resp_Choice resp)),
      (''answer'', AnyMap (Resp_Answer resp)), (''text'', AnyString (Resp_Text resp)),
      (''attempt'', AnyInt (DReq_RetryAttempt req)), (''resolved_at'', AnyInt at),
      (''latency'', AnyInt (if DReq_CreatedAt req = zero_time then 0 else at - DReq_CreatedAt req))]"

definition pushResolvedNotice :: "DecisionRequest \<Rightarrow> DecisionResponse \<Rightarrow> gotime \<Rightarrow> eventSink \<Rightarrow> eventSink" where
  "pushResolvedNotice req resp at = push_body (resolution req resp at)"

definition retrySupported :: "HumanDecisionKind \<Rightarrow> eventSink \<Rightarrow> bool" where
  "retrySupported kind s =
     (if kind = HumanDecisionPermission then HDS_Retry (RPC_Permission (sk_caps s))
      else if kind = HumanDecisionPlanReview then HDS_Retry (RPC_PlanReview (sk_caps s))
      else kind = HumanDecisionQuestion \<and> QS_Retry (RPC_Question (sk_caps s)))"

definition pushRetryUnsupportedWarning :: "HumanDecisionKind \<Rightarrow> FailureAction \<Rightarrow> eventSink \<Rightarrow> eventSink" where
  "pushRetryUnsupportedWarning kind action s =
     (if kind \<in> set (sk_retryWarned s) then s
      else push_body (plain_notice NoticeLifecycle (''approval '' @ kind @ '' does not support '' @ action @ ''; degrading to abort'')
             [(''kind'', AnyString kind), (''action'', AnyString action),
              (''warning'', AnyString ''human_decision_retry_unsupported'')])
           (s\<lparr>sk_retryWarned := kind # sk_retryWarned s\<rparr>))"

subsection \<open>Fallback actions\<close>

record retryOutcome =
  out_retry :: bool
  out_resp :: DecisionResponse

definition applyFailureAction ::
  "DecisionRequest \<Rightarrow> DecisionResponse \<Rightarrow> int \<Rightarrow> HumanDecisionKind \<Rightarrow> FailureAction \<Rightarrow> FailureCode \<Rightarrow> DecisionResult \<Rightarrow> eventSink
   \<Rightarrow> (retryOutcome \<times> SinkError option) \<times> eventSink" where
  "applyFailureAction req resp attempts kind action code decision s =
     (let giveup = \<lparr>out_retry = False, out_resp = resp\<rparr>;
          failure = (\<lambda>msg. decision_failure code msg req kind decision attempts);
          abort = setPendingFailure (failure (decisionFailureMessage decision kind (DReq_Source req)))
      in if action = FailureContinue then ((giveup, None), s)
         else if action = FailureRetry then
           (if \<not> retrySupported kind s then
              ((giveup, Some ErrApprovalAbort), abort (pushRetryUnsupportedWarning kind action s))
            else if HDP_MaxRetries (sk_policy s) < attempts then
              ((giveup, Some ErrApprovalAbort),
               setPendingFailure (failure (''approval '' @ decision @ '' exhausted retries ('' @ itoa attempts @ '' attempts)'')) s)
            else ((\<lparr>out_retry = True, out_resp = resp\<rparr>, None), s))
         else ((giveup, Some ErrApprovalAbort), abort s))"

definition tryAutoResolve :: "DecisionRequest \<Rightarrow> eventSink \<Rightarrow> DecisionResponse option" where
  "tryAutoResolve req s =
     (let auto = (\<lambda>mode. if mode = HumanDecisionAutoApprove
            then Some (zero_Response\<lparr>Resp_RequestID := DReq_RequestID req, Resp_Result := DecisionApproved\<rparr>)
            else if mode = HumanDecisionAutoReject
            then Some (zero_Response\<lparr>Resp_RequestID := DReq_RequestID req, Resp_Result := DecisionRejected\<rparr>) else None)
      in if DReq_Kind req = HumanDecisionPermission then auto (HDP_Permission (sk_policy s))
         else if DReq_Kind req = HumanDecisionPlanReview then auto (HDP_PlanReview (sk_policy s))
         else if DReq_Kind req = HumanDecisionQuestion \<and> HDP_Question (sk_policy s) = QuestionAutoReject
         then Some (zero_Response\<lparr>Resp_RequestID := DReq_RequestID req, Resp_Result := DecisionRejected\<rparr>) else None)"

definition applyAutoResolve ::
  "DecisionRequest \<Rightarrow> DecisionResponse \<Rightarrow> eventSink \<Rightarrow> (DecisionResponse \<times> SinkError option) \<times> eventSink" where
  "applyAutoResolve req resp s =
     (if Resp_Result resp = DecisionApproved then ((resp, None), s)
      else case applyFailureAction req resp 1 (DReq_Kind req) (HDP_OnReject (sk_policy s)) FailureReject DecisionRejected s of
        ((out, Some e), s1) \<Rightarrow> ((out_resp out, Some e), s1)
      | ((out, None), s1) \<Rightarrow>
          if out_retry out
          then ((out_resp out, Some ErrApprovalAbort),
                setPendingFailure (decision_failure FailureReject ''auto-denied approval cannot be retried; aborting'' req
                  (DReq_Kind req) DecisionRejected 1) s1)
          else ((out_resp out, None), s1))"

subsection \<open>One attempt\<close>

text \<open>
  Everything that happens outside the sink during an attempt: how the wait for a consumer ends, whether a
  standby's host has subscribed, the calls made on copies of approval requests, whether the invocation's
  context ends, how the handler or the wait for a response ends, whether the request entered the broker,
  what the attempt's context says when it is asked, and the clock.
\<close>

datatype consumer_wait = ConsumerEvents | ConsumerResult | ConsumerAborted | ConsumerCtx CtxErr
datatype handler_end = HandlerPanicked string | HandlerReturned "string option" | HandlerCtxDone CtxErr
datatype response_wait = WaitReady | WaitAborted | WaitCtxDone CtxErr

record attempt_env =
  at_consumer :: consumer_wait
  at_hostEvents :: bool
  at_calls :: "approval_call list"
  at_cancel :: "CtxErr option"
  at_handler :: handler_end
  at_enqueued :: bool
  at_wait :: response_wait
  at_ctxErr :: "CtxErr option"
  at_resolvedAt :: gotime
  at_renewedAt :: gotime

text \<open>
  The operations on the heap of responders. A panic would be the second closing of a channel; it cannot
  happen on a well-formed heap (\<open>approval_calls_return\<close> below).
\<close>

definition sink_expire :: "ApprovalRequest \<Rightarrow> eventSink \<Rightarrow> DecisionResponse option \<times> eventSink" where
  "sink_expire ar s = (case expire (sk_heap s) (Some ar) of Return (r, hp) \<Rightarrow> (r, s\<lparr>sk_heap := hp\<rparr>) | Panic \<Rightarrow> (None, s))"

definition others_act :: "attempt_env \<Rightarrow> eventSink \<Rightarrow> eventSink" where
  "others_act e s =
     (let s1 = (case approval_run (sk_heap s) (at_calls e) of Return (_, hp) \<Rightarrow> s\<lparr>sk_heap := hp\<rparr> | Panic \<Rightarrow> s)
      in case at_cancel e of None \<Rightarrow> s1 | Some c \<Rightarrow> if ctx_live s1 then s1\<lparr>sk_invocationCtx := EndedCtx c\<rparr> else s1)"

definition new_request :: "DecisionRequest \<Rightarrow> eventSink \<Rightarrow> ApprovalRequest \<times> eventSink" where
  "new_request req s = (case newApprovalRequest (sk_heap s) (sk_next s) req of
     (ar, hp) \<Rightarrow> (ar, s\<lparr>sk_heap := hp, sk_next := Suc (sk_next s)\<rparr>))"

type_synonym attempt_result = "DecisionResponse \<times> DecisionResult \<times> SinkError option"

definition plain_resp :: "DecisionRequest \<Rightarrow> DecisionResult \<Rightarrow> DecisionResponse" where
  "plain_resp req result = zero_Response\<lparr>Resp_RequestID := DReq_RequestID req, Resp_Result := result\<rparr>"

definition aborted :: "DecisionRequest \<Rightarrow> SinkError \<Rightarrow> attempt_result" where
  "aborted req e = (plain_resp req DecisionAborted, DecisionAborted, Some e)"

definition timed_out :: "DecisionRequest \<Rightarrow> attempt_result" where
  "timed_out req = (plain_resp req DecisionTimedOut, DecisionTimedOut, None)"

definition responded :: "DecisionRequest \<Rightarrow> DecisionResponse \<Rightarrow> attempt_result" where
  "responded req resp = (resp\<lparr>Resp_RequestID := DReq_RequestID req\<rparr>, Resp_Result resp, None)"

definition by_ctx :: "DecisionRequest \<Rightarrow> CtxErr \<Rightarrow> attempt_result" where
  "by_ctx req c = (if c = DeadlineExceeded then timed_out req else aborted req (SinkCtx c))"

text \<open>Expire the request; a response that won the race counts.\<close>

definition expire_or :: "DecisionRequest \<Rightarrow> ApprovalRequest \<Rightarrow> attempt_result \<Rightarrow> eventSink \<Rightarrow> attempt_result \<times> eventSink" where
  "expire_or req ar otherwise s =
     (case sink_expire ar s of (Some resp, s1) \<Rightarrow> (responded req resp, s1) | (None, s1) \<Rightarrow> (otherwise, s1))"

definition runHandler :: "attempt_env \<Rightarrow> DecisionRequest \<Rightarrow> eventSink \<Rightarrow> attempt_result \<times> eventSink" where
  "runHandler e req s =
     (case new_request req s of (ar, s0) \<Rightarrow>
      let s1 = others_act e (pushRequestedNotice req s0) in
      case at_handler e of
        HandlerPanicked msg \<Rightarrow>
          (aborted req (HandlerPanic msg),
           setPendingFailure (agent_failure (SinkError_Error (HandlerPanic msg))) (snd (sink_expire ar s1)))
      | HandlerReturned (Some msg) \<Rightarrow> (aborted req (HandlerError msg), snd (sink_expire ar s1))
      | HandlerReturned None \<Rightarrow>
          (case takeResponse (sk_heap s1) (Some ar) of
             Some resp \<Rightarrow> (responded req resp, s1)
           | None \<Rightarrow> (aborted req HandlerUnresolved,
               setPendingFailure (agent_failure (SinkError_Error HandlerUnresolved)) (snd (sink_expire ar s1))))
      | HandlerCtxDone c \<Rightarrow> expire_or req ar (by_ctx req c) s1)"

definition cancelled_result :: "DecisionRequest \<Rightarrow> CtxErr option \<Rightarrow> attempt_result" where
  "cancelled_result req c = (case c of None \<Rightarrow> aborted req (SinkCtx Canceled) | Some c \<Rightarrow> by_ctx req c)"

definition await_response :: "attempt_env \<Rightarrow> DecisionRequest \<Rightarrow> ApprovalRequest \<Rightarrow> eventSink \<Rightarrow> attempt_result \<times> eventSink" where
  "await_response e req ar s =
     (case at_wait e of
        WaitReady \<Rightarrow>
          (case takeResponse (sk_heap s) (Some ar) of
             Some resp \<Rightarrow> (responded req resp, s)
           | None \<Rightarrow> (cancelled_result req (at_ctxErr e), s))
      | WaitAborted \<Rightarrow> expire_or req ar (aborted req (SinkCtx Canceled)) s
      | WaitCtxDone c \<Rightarrow> expire_or req ar (by_ctx req c) s)"

definition runEventDispatch :: "attempt_env \<Rightarrow> DecisionRequest \<Rightarrow> eventSink \<Rightarrow> attempt_result \<times> eventSink" where
  "runEventDispatch e req s =
     (case new_request req s of (ar, s0) \<Rightarrow>
      let s1 = s0\<lparr>sk_outstanding := (Req_ID ar, ar) # filter (\<lambda>(k, _). k \<noteq> Req_ID ar) (sk_outstanding s0)\<rparr>;
          s2 = (if at_enqueued e then sink_out (Published (new_event (EvApprovalRequest ar)) None) s1 else s1);
          s3 = others_act e s2
      in case (if \<not> at_enqueued e then expire_or req ar (cancelled_result req (at_ctxErr e)) s3
               else await_response e req ar s3) of
           (r, s4) \<Rightarrow> (r, s4\<lparr>sk_outstanding := filter (\<lambda>(k, _). k \<noteq> Req_ID ar) (sk_outstanding s4)\<rparr>))"

definition events_called :: "eventSink \<Rightarrow> bool" where
  "events_called s = (case sk_hostEventsCalled s of None \<Rightarrow> sk_eventsCalled s | Some b \<Rightarrow> b)"

definition unobserved_notice :: event_body where
  "unobserved_notice = plain_notice NoticeLifecycle
     ''Approval resolved immediately using the timeout fallback because Events was never called and no OnApproval handler is configured.'' []"

definition dispatch_events :: "attempt_env \<Rightarrow> DecisionRequest \<Rightarrow> eventSink \<Rightarrow> attempt_result \<times> eventSink" where
  "dispatch_events e req s =
     (if sk_spool s \<and> \<not> events_called s
      then (timed_out req, push_body unobserved_notice (pushRequestedNotice req s))
      else runEventDispatch e req s)"

definition dispatchOnce :: "attempt_env \<Rightarrow> DecisionRequest \<Rightarrow> eventSink \<Rightarrow> attempt_result \<times> eventSink" where
  "dispatchOnce e req s =
     (if sk_handler s then runHandler e req s
      else
        let s = s\<lparr>sk_hostEventsCalled := map_option (\<lambda>b. b \<or> at_hostEvents e) (sk_hostEventsCalled s)\<rparr> in
        if sk_spool s \<and> \<not> events_called s \<and> sk_hostEventsCalled s = None then
          (case at_consumer e of
             ConsumerEvents \<Rightarrow> dispatch_events e req (s\<lparr>sk_eventsCalled := True\<rparr>)
           | ConsumerResult \<Rightarrow> dispatch_events e req s
           | ConsumerAborted \<Rightarrow> (aborted req (SinkCtx Canceled), s)
           | ConsumerCtx c \<Rightarrow> (by_ctx req c, pushRequestedNotice req s))
        else dispatch_events e req s)"

subsection \<open>The dispatcher\<close>

definition nextDecisionID :: "eventSink \<Rightarrow> string \<times> eventSink" where
  "nextDecisionID s = (let n = (sk_decSeq s + 1) mod 2 ^ 64 in
     (sk_runID s @ ''-dec-'' @ itoa_nat n, s\<lparr>sk_decSeq := n\<rparr>))"

definition effectiveTimeout :: "eventSink \<Rightarrow> duration" where
  "effectiveTimeout s =
     (let d = HDP_Timeout (sk_policy s) in
      if d < 0 then 100 * 365 * 24 * (3600 * 1000000000) else if d = 0 then DefaultHumanDecisionTimeout else d)"

definition normalizeRequest :: "gotime \<Rightarrow> DecisionRequest \<Rightarrow> eventSink \<Rightarrow> DecisionRequest \<times> eventSink" where
  "normalizeRequest now req s =
     (let (k, s1) = (if DReq_RequestID req = '''' then nextDecisionID s else (DReq_RequestID req, s));
          created = (if DReq_CreatedAt req = zero_time then now else DReq_CreatedAt req)
      in (req\<lparr>DReq_RequestID := k, DReq_RunID := (if DReq_RunID req = '''' then sk_runID s1 else DReq_RunID req),
             DReq_CreatedAt := created,
             DReq_Deadline := (if DReq_Deadline req = zero_time then created + effectiveTimeout s1 else DReq_Deadline req)\<rparr>, s1))"

definition renewForRetry :: "gotime \<Rightarrow> DecisionRequest \<Rightarrow> eventSink \<Rightarrow> DecisionRequest \<times> eventSink" where
  "renewForRetry now req s =
     (case nextDecisionID s of (k, s1) \<Rightarrow>
        (req\<lparr>DReq_RequestID := k, DReq_CreatedAt := now, DReq_Deadline := now + effectiveTimeout s1,
             DReq_RetryAttempt := DReq_RetryAttempt req + 1\<rparr>, s1))"

text \<open>What a rejected or timed-out attempt leads to; the response of a timeout is a fresh one.\<close>

definition attempt_fallback ::
  "DecisionRequest \<Rightarrow> int \<Rightarrow> DecisionResponse \<Rightarrow> DecisionResult \<Rightarrow> eventSink \<Rightarrow> (retryOutcome \<times> SinkError option) \<times> eventSink" where
  "attempt_fallback req attempts resp decision s =
     (if decision = DecisionRejected
      then applyFailureAction req resp attempts (DReq_Kind req) (HDP_OnReject (sk_policy s)) FailureReject DecisionRejected s
      else applyFailureAction req (plain_resp req DecisionTimedOut) attempts (DReq_Kind req) (HDP_OnTimeout (sk_policy s))
             FailureTimeout DecisionTimedOut s)"

text \<open>
  What the parts of an attempt leave alone: the sink's set-up, the counter of request identifiers, the
  resolution notices and the record of attempts, and a failure that was recorded.
\<close>

fun is_resolved :: "sink_out \<Rightarrow> bool" where
  "is_resolved (Published ev _) = (case Event_body ev of EvNotice n \<Rightarrow> Notice_Kind n = NoticeApprovalResolved | _ \<Rightarrow> False)"
| "is_resolved (PublishedTerminal ev _) = False"

fun out_body :: "sink_out \<Rightarrow> event_body" where
  "out_body (Published ev _) = Event_body ev"
| "out_body (PublishedTerminal ev _) = Event_body ev"

definition resolved :: "eventSink \<Rightarrow> event_body list" where
  "resolved s = map out_body (filter is_resolved (sk_out s))"

text \<open>The run-envelope events handed to the broker, and the state that governs them.\<close>

fun is_envelope :: "event_body \<Rightarrow> bool" where
  "is_envelope (EvRunStarted _) = True"
| "is_envelope (EvRunFinished _) = True"
| "is_envelope _ = False"

definition envelope_events :: "eventSink \<Rightarrow> event_body list" where
  "envelope_events s = filter is_envelope (map out_body (sk_out s))"

definition envelope :: "eventSink \<Rightarrow> bool \<times> bool \<times> string \<times> event_body list" where
  "envelope s = (sk_lifecycleActive s, sk_lifecycleEnded s, sk_runID s, envelope_events s)"

definition frame :: "eventSink \<Rightarrow> eventSink \<Rightarrow> bool" where
  "frame s s' \<longleftrightarrow> sk_policy s' = sk_policy s \<and> sk_caps s' = sk_caps s \<and> sk_runID s' = sk_runID s \<and> sk_decSeq s' = sk_decSeq s
     \<and> envelope s' = envelope s \<and> sk_next s \<le> sk_next s' \<and> resolved s' = resolved s \<and> sk_attempts s' = sk_attempts s \<and> (sk_failure s \<noteq> None \<longrightarrow> sk_failure s' \<noteq> None)"

lemma frame_refl [simp]: "frame s s"
  by (simp add: frame_def)

lemma frame_trans: "\<lbrakk>frame s s1; frame s1 s2\<rbrakk> \<Longrightarrow> frame s s2"
  by (simp add: frame_def)

lemmas envelope_defs = envelope_def envelope_events_def

lemma frame_ops [simp]:
  "frame s (pushRequestedNotice req s)" "frame s (push_body unobserved_notice s)" "frame s (setPendingFailure f s)" "frame s (others_act e s)"
  "frame s (sink_out (Published (new_event (EvApprovalRequest ar)) src) s)"
  "frame s (s\<lparr>sk_outstanding := os\<rparr>)" "frame s (s\<lparr>sk_hostEventsCalled := h\<rparr>)" "frame s (s\<lparr>sk_eventsCalled := True\<rparr>)"
  "frame s (snd (sink_expire ar s))" "frame s (snd (new_request req s))"
  by (auto simp: pushRequestedNotice_def push_body_def sink_push_def pushWithSource_def plain_notice_def unobserved_notice_def new_event_def
      frame_def resolved_def envelope_defs setPendingFailure_def others_act_def sink_expire_def new_request_def Let_def sink_out_def
      split: outcome.split prod.split option.split)

lemma frame_via [intro]: "\<lbrakk>frame s s1; frame s1 s2\<rbrakk> \<Longrightarrow> frame s s2"
  by (rule frame_trans)

lemma sink_expire_frame: "sink_expire ar s = (r, s') \<Longrightarrow> frame s s'"
  by (metis frame_ops(9) snd_conv)

lemma new_request_frame: "new_request req s = (ar, s') \<Longrightarrow> frame s s'"
  by (metis frame_ops(10) snd_conv)

lemma expire_or_frame: "expire_or req ar r s = (x, s') \<Longrightarrow> frame s s'"
  by (auto simp: expire_or_def split: prod.splits option.splits dest: sink_expire_frame)

lemma expire_or_snd: "frame s (snd (expire_or req ar r s))"
  by (metis expire_or_frame prod.collapse)

lemma runHandler_frame: "frame s (snd (runHandler e req s))"
proof -
  obtain ar s0 where n: "new_request req s = (ar, s0)" by fastforce
  let ?s1 = "others_act e (pushRequestedNotice req s0)"
  have "frame s0 ?s1" by (rule frame_trans[OF frame_ops(1) frame_ops(4)])
  then have 1: "frame s ?s1" using new_request_frame[OF n] by blast
  have 2: "frame ?s1 (setPendingFailure f (snd (sink_expire ar ?s1)))" for f by (rule frame_trans[OF frame_ops(9) frame_ops(3)])
  have "frame ?s1 (snd (runHandler e req s))"
    using n 2 by (auto simp: runHandler_def Let_def expire_or_snd split: handler_end.split option.split)
  then show ?thesis using 1 by blast
qed

lemma runEventDispatch_frame: "frame s (snd (runEventDispatch e req s))"
proof -
  obtain ar s0 where n: "new_request req s = (ar, s0)" by fastforce
  define s1 where "s1 = s0\<lparr>sk_outstanding := (Req_ID ar, ar) # filter (\<lambda>(k, _). k \<noteq> Req_ID ar) (sk_outstanding s0)\<rparr>"
  define s3 where "s3 = others_act e (if at_enqueued e then sink_out (Published (new_event (EvApprovalRequest ar)) None) s1 else s1)"
  have 1: "frame s s3" unfolding s3_def s1_def
    by (intro frame_trans[OF new_request_frame[OF n]] frame_trans[OF _ frame_ops(4)]) (auto intro: frame_trans[OF frame_ops(6) frame_ops(5)])
  obtain r s4 where r: "(if \<not> at_enqueued e then expire_or req ar (cancelled_result req (at_ctxErr e)) s3 else await_response e req ar s3) = (r, s4)"
    by fastforce
  then have 2: "frame s3 s4"
    by (auto simp: await_response_def split: if_splits response_wait.splits option.splits dest: expire_or_frame)
  have "snd (runEventDispatch e req s) = s4\<lparr>sk_outstanding := filter (\<lambda>(k, _). k \<noteq> Req_ID ar) (sk_outstanding s4)\<rparr>"
    unfolding runEventDispatch_def n prod.case Let_def s1_def[symmetric] s3_def[symmetric] r by simp
  then show ?thesis using frame_trans[OF 1 2] frame_trans[OF _ frame_ops(6)] by metis
qed

lemma dispatch_events_frame: "frame s (snd (dispatch_events e req s))"
  using runEventDispatch_frame frame_trans[OF frame_ops(1) frame_ops(2)] by (simp add: dispatch_events_def)

lemma dispatchOnce_frame: "frame s (snd (dispatchOnce e req s))"
proof -
  let ?s = "s\<lparr>sk_hostEventsCalled := map_option (\<lambda>b. b \<or> at_hostEvents e) (sk_hostEventsCalled s)\<rparr>"
  have "frame ?s (snd (dispatchOnce e req s))" if "\<not> sk_handler s"
    using that frame_trans[OF frame_ops(8) dispatch_events_frame]
    by (simp add: dispatchOnce_def Let_def dispatch_events_frame split: consumer_wait.split)
  then show ?thesis using frame_trans[OF frame_ops(7)] runHandler_frame by (cases "sk_handler s") (auto simp: dispatchOnce_def)
qed

lemma dispatchOnce_eq: "dispatchOnce e req s = (r, s') \<Longrightarrow> frame s s'"
  by (metis dispatchOnce_frame snd_conv)

lemma applyFailureAction_retry:
  assumes "applyFailureAction req resp attempts kind action code decision s = ((out, None), s')" "out_retry out"
  shows "attempts \<le> HDP_MaxRetries (sk_policy s) \<and> s' = s \<and> action = FailureRetry \<and> retrySupported kind s \<and> out_resp out = resp"
  using assms by (auto simp: applyFailureAction_def Let_def split: if_splits)

lemma attempt_fallback_retry:
  assumes "attempt_fallback req attempts resp decision s = ((out, None), s')" "out_retry out"
  shows "attempts \<le> HDP_MaxRetries (sk_policy s) \<and> s' = s \<and> retrySupported (DReq_Kind req) s"
  using assms by (auto simp: attempt_fallback_def split: if_splits dest!: applyFailureAction_retry)

lemma pushResolvedNotice_fields [simp]:
  "sk_policy (pushResolvedNotice req resp at s) = sk_policy s" "sk_caps (pushResolvedNotice req resp at s) = sk_caps s"
  "sk_runID (pushResolvedNotice req resp at s) = sk_runID s" "sk_decSeq (pushResolvedNotice req resp at s) = sk_decSeq s"
  "sk_failure (pushResolvedNotice req resp at s) = sk_failure s" "resolved (pushResolvedNotice req resp at s) = resolved s @ [resolution req resp at]"
  "sk_attempts (pushResolvedNotice req resp at s) = sk_attempts s"
  "envelope (pushResolvedNotice req resp at s) = envelope s" "sk_next (pushResolvedNotice req resp at s) = sk_next s"
  by (simp_all add: pushResolvedNotice_def push_body_def sink_push_def pushWithSource_def sink_out_def resolved_def new_event_def
      resolution_def plain_notice_def envelope_defs)

lemma renewForRetry_fields:
  "renewForRetry now req s = (req', s') \<Longrightarrow> sk_policy s' = sk_policy s \<and> sk_caps s' = sk_caps s \<and> sk_runID s' = sk_runID s
     \<and> resolved s' = resolved s \<and> sk_attempts s' = sk_attempts s \<and> sk_failure s' = sk_failure s \<and> DReq_Kind req' = DReq_Kind req \<and> envelope s' = envelope s
     \<and> sk_next s' = sk_next s"
  by (auto simp: renewForRetry_def nextDecisionID_def Let_def resolved_def envelope_defs)

text \<open>An attempt with its record: the request it dispatched and the response it got.\<close>

definition attempt_once :: "attempt_env \<Rightarrow> DecisionRequest \<Rightarrow> eventSink \<Rightarrow> attempt_result \<times> eventSink" where
  "attempt_once e req s = (case dispatchOnce e req s of (r, s1) \<Rightarrow> (r, s1\<lparr>sk_attempts := sk_attempts s1 @ [(req, fst r)]\<rparr>))"

text \<open>
  The loop of \<^verbatim>\<open>RequestDecision\<close>; \<open>n\<close> is the number of attempts made before. Retries are bounded by
  the policy, so the loop ends whatever hosts do.
\<close>

function request_loop ::
  "(int \<Rightarrow> attempt_env) \<Rightarrow> int \<Rightarrow> DecisionRequest \<Rightarrow> eventSink \<Rightarrow> (DecisionResponse \<times> SinkError option) \<times> eventSink" where
  "request_loop env n req s =
     (let attempts = n + 1;
          req1 = req\<lparr>DReq_RetryAttempt := attempts - 1\<rparr>;
          e = env attempts
      in case attempt_once e req1 s of ((resp, decision, runErr), s1) \<Rightarrow>
      let s2 = pushResolvedNotice req1 resp (at_resolvedAt e) s1 in
      if decision = DecisionApproved \<or> decision = DecisionAnswered then ((resp, None), s2)
      else if decision = DecisionRejected \<or> decision = DecisionTimedOut then
        (case attempt_fallback req1 attempts resp decision s2 of ((out, err), s3) \<Rightarrow>
           if err = None \<and> out_retry out
           then case renewForRetry (at_renewedAt e) req1 s3 of (req2, s4) \<Rightarrow> request_loop env attempts req2 s4
           else ((out_resp out, err), s3))
      else ((resp, Some (case runErr of None \<Rightarrow> ErrApprovalAbort | Some x \<Rightarrow> x)), s2))"
  by pat_completeness auto
termination
proof (relation "measure (\<lambda>(env, n, req, s). nat (HDP_MaxRetries (sk_policy s) + 1 - n))", goal_cases)
  case (2 env n req s attempts req1 e a s1 resp b decision runErr s2 a' s3 out err a'' s4)
  have d: "sk_policy s1 = sk_policy s" using dispatchOnce_frame[of s e req1] 2(4)[symmetric] 2(5)
    by (cases "dispatchOnce e req1 s") (auto simp: frame_def attempt_once_def)
  have f: "attempt_fallback req1 attempts resp decision s2 = ((out, None), s3)" "out_retry out" using 2 by simp_all
  note r = attempt_fallback_retry[OF f]
  have "sk_policy s4 = sk_policy s3" using 2 renewForRetry_fields by metis
  then have "sk_policy s4 = sk_policy s" "n + 1 \<le> HDP_MaxRetries (sk_policy s)" using r d 2 by simp_all
  then show ?case using 2(1) by simp
qed simp

declare request_loop.simps [simp del]

definition RequestDecision ::
  "(int \<Rightarrow> attempt_env) \<Rightarrow> gotime \<Rightarrow> DecisionRequest \<Rightarrow> eventSink \<Rightarrow> (DecisionResponse \<times> SinkError option) \<times> eventSink" where
  "RequestDecision env now req0 s0 =
     (case normalizeRequest now req0 s0 of (req, s) \<Rightarrow>
      case tryAutoResolve req s of
        Some resp \<Rightarrow> applyAutoResolve req resp (pushResolvedNotice req resp now (pushRequestedNotice req s))
      | None \<Rightarrow> request_loop env 0 req s)"

subsection \<open>Closing\<close>

text \<open>Go ranges over the map in any order; the requests have different responders.\<close>

definition expireOutstanding :: "eventSink \<Rightarrow> eventSink" where
  "expireOutstanding s = foldl (\<lambda>s (_, ar). snd (sink_expire ar s)) (s\<lparr>sk_outstanding := []\<rparr>) (sk_outstanding s)"

definition sink_close :: "eventSink \<Rightarrow> eventSink" where
  "sink_close s = (expireOutstanding s)\<lparr>sk_closed := True\<rparr>"

lemma approval_calls_return: "heap_wf hp \<Longrightarrow> \<exists>ress hp'. approval_run hp cs = Return (ress, hp') \<and> heap_wf hp'"
proof (induction cs arbitrary: hp)
  case (Cons c cs)
  obtain res hp' where c: "approval_exec hp c = Return (res, hp')" "approval_step hp (call_addr c) res hp'"
    using approval_exec_step[OF Cons.prems] by blast
  from Cons.IH[OF approval_step_wf[OF Cons.prems c(2)]] c(1) show ?case by auto
qed simp

end
