(* ===== verification/SinkGuarantees.thy ===== *)
theory SinkGuarantees
  imports EventSink
begin

text \<open>
  What the sink guarantees: the approval dispatcher ends and reports every attempt once, it never invents
  a decision and never aborts a run silently, and the public run envelope is exactly one start and one
  finish that tells the outcome of the execution, whatever the driver reports.
\<close>

subsection \<open>Where a response comes from\<close>

text \<open>The result a call asks for, and whether some call of a list explains a response of the responder at \<open>a\<close>.\<close>

fun asks_for :: "approval_call \<Rightarrow> DecisionResult option" where
  "asks_for (CallApprove _) = Some DecisionApproved"
| "asks_for (CallDeny _ _) = Some DecisionRejected"
| "asks_for (CallAnswer _ _) = Some DecisionAnswered"
| "asks_for (CallExpire _) = None"

definition justified :: "approval_call list \<Rightarrow> nat \<Rightarrow> DecisionResult \<Rightarrow> bool" where
  "justified cs a result \<longleftrightarrow> (\<exists>c \<in> set cs. call_addr c = Some a \<and> asks_for c = Some result)"

definition responds :: "responder_heap \<Rightarrow> nat \<Rightarrow> DecisionResult \<Rightarrow> bool" where
  "responds hp a result \<longleftrightarrow> (\<exists>r. hp a = Some r \<and> responder_state r = approvalResponded \<and> Resp_Result (responder_resp r) = result)"

lemma settle_responds:
  assumes "settle hp b resp = Return (e, hp')" "responds hp' a x"
  shows "responds hp a x \<or> b = a \<and> Resp_Result resp = x"
  using assms by (auto simp: settle_def responds_def split: option.splits approvalState.splits outcome.splits if_splits)

lemma map_outcome_eq: "map_outcome (map_prod f id) o' = Return (x, y) \<longleftrightarrow> (\<exists>z. o' = Return (z, y) \<and> x = f z)"
  by (cases o') auto

lemma exec_responds:
  assumes "approval_exec hp c = Return (res, hp')" "responds hp' a x"
  shows "responds hp a x \<or> justified [c] a x"
proof (cases c)
  case (CallApprove q)
  then obtain e where "Approve hp q = Return (e, hp')" using assms(1) by (auto simp: map_outcome_eq)
  then show ?thesis using CallApprove assms(2)
    by (auto simp: Approve_def justified_def call_addr_def boundResponder_Inr_iff split: sum.splits if_splits dest!: settle_responds[OF _ assms(2)])
next
  case (CallDeny q reason)
  then obtain e where "Deny hp q reason = Return (e, hp')" using assms(1) by (auto simp: map_outcome_eq)
  then show ?thesis using CallDeny assms(2)
    by (auto simp: Deny_def justified_def call_addr_def boundResponder_Inr_iff split: sum.splits dest!: settle_responds[OF _ assms(2)])
next
  case (CallAnswer q option)
  then obtain e where "Answer hp q option = Return (e, hp')" using assms(1) by (auto simp: map_outcome_eq)
  then show ?thesis using CallAnswer assms(2)
    by (auto simp: Answer_def Let_def justified_def call_addr_def boundResponder_Inr_iff split: sum.splits if_splits dest!: settle_responds[OF _ assms(2)])
next
  case (CallExpire q)
  then obtain e where "expire hp q = Return (e, hp')" using assms(1) by (auto simp: map_outcome_eq)
  then show ?thesis using assms(2)
    by (auto simp: expire_def expire_responder_def responds_def split: sum.splits outcome.splits option.splits approvalState.splits if_splits)
qed

lemma justified_Cons: "justified (c # cs) a x \<longleftrightarrow> justified [c] a x \<or> justified cs a x"
  by (auto simp: justified_def)

lemma run_responds:
  "\<lbrakk>approval_run hp cs = Return (ress, hp'); responds hp' a x\<rbrakk> \<Longrightarrow> responds hp a x \<or> justified cs a x"
proof (induction cs arbitrary: hp ress)
  case (Cons c cs)
  then obtain res hp1 ress1 where c: "approval_exec hp c = Return (res, hp1)" "approval_run hp1 cs = Return (ress1, hp')"
    by (auto split: outcome.splits)
  have "responds hp1 a x \<or> justified cs a x" by (rule Cons.IH[OF c(2) Cons.prems(2)])
  then show ?case using exec_responds[OF c(1)] justified_Cons by blast
qed simp

lemma others_responds: "responds (sk_heap (others_act e s)) a x \<Longrightarrow> responds (sk_heap s) a x \<or> justified (at_calls e) a x"
  by (auto simp: others_act_def Let_def split: outcome.splits option.splits if_splits dest: run_responds)

lemma take_responds:
  "\<lbrakk>takeResponse hp (Some ar) = Some resp; Req_responder ar = Some a\<rbrakk> \<Longrightarrow> responds hp a (Resp_Result resp)"
  by (auto simp: takeResponse_def responds_def boundResponder_Inr_iff split: sum.splits if_splits)

lemma expire_responds:
  "\<lbrakk>sink_expire ar s = (Some resp, s'); Req_responder ar = Some a\<rbrakk> \<Longrightarrow> responds (sk_heap s) a (Resp_Result resp)"
  by (auto simp: sink_expire_def expire_def expire_responder_def responds_def boundResponder_Inr_iff
      split: sum.splits if_splits outcome.splits option.splits approvalState.splits)

lemma new_request_facts:
  assumes "new_request req s = (ar, s')"
  shows "Req_responder ar = Some (sk_next s) \<and> \<not> responds (sk_heap s') (sk_next s) x"
  using assms by (auto simp: new_request_def newApprovalRequest_def responds_def)

subsection \<open>One attempt\<close>

definition attempt_ok :: "attempt_env \<Rightarrow> nat \<Rightarrow> attempt_result \<Rightarrow> bool" where
  "attempt_ok e a r \<longleftrightarrow>
     (case r of (resp, decision, err) \<Rightarrow>
        err = None \<and> decision = Resp_Result resp \<and> (decision = DecisionTimedOut \<or> justified (at_calls e) a decision)
        \<or> decision = DecisionAborted \<and> err \<noteq> None \<and> err \<noteq> Some ErrApprovalAbort)"

lemma attempt_ok_simps [simp]:
  "attempt_ok e a (timed_out req)" "attempt_ok e a (by_ctx req c)" "attempt_ok e a (cancelled_result req c')"
  "x \<noteq> ErrApprovalAbort \<Longrightarrow> attempt_ok e a (aborted req x)"
  "attempt_ok e a (responded req resp) \<longleftrightarrow> Resp_Result resp = DecisionTimedOut \<or> justified (at_calls e) a (Resp_Result resp)"
  by (auto simp: attempt_ok_def timed_out_def by_ctx_def aborted_def plain_resp_def responded_def cancelled_result_def split: option.split)

lemma expire_or_ok:
  assumes "\<And>x. responds (sk_heap s) a x \<Longrightarrow> justified (at_calls e) a x" "Req_responder ar = Some a" "attempt_ok e a r"
  shows "attempt_ok e a (fst (expire_or req ar r s))"
  using assms by (auto simp: expire_or_def split: prod.split option.split dest: expire_responds)

lemma runHandler_ok: "attempt_ok e (sk_next s) (fst (runHandler e req s))"
proof -
  obtain ar s0 where n: "new_request req s = (ar, s0)" by fastforce
  let ?s1 = "others_act e (pushRequestedNotice req s0)"
  have h: "sk_heap (pushRequestedNotice req s0) = sk_heap s0"
    by (simp add: pushRequestedNotice_def push_body_def sink_push_def pushWithSource_def sink_out_def)
  have j: "justified (at_calls e) (sk_next s) x" if "responds (sk_heap ?s1) (sk_next s) x" for x
    using others_responds[OF that] new_request_facts[OF n] unfolding h by blast
  have a: "Req_responder ar = Some (sk_next s)" using new_request_facts[OF n] by blast
  show ?thesis using n expire_or_ok[OF j a] j take_responds[OF _ a]
    by (auto simp: runHandler_def Let_def split: handler_end.split option.split)
qed

lemma runEventDispatch_ok: "attempt_ok e (sk_next s) (fst (runEventDispatch e req s))"
proof -
  obtain ar s0 where n: "new_request req s = (ar, s0)" by fastforce
  define s1 where "s1 = s0\<lparr>sk_outstanding := (Req_ID ar, ar) # filter (\<lambda>(k, _). k \<noteq> Req_ID ar) (sk_outstanding s0)\<rparr>"
  define s2 where "s2 = (if at_enqueued e then sink_out (Published (new_event (EvApprovalRequest ar)) None) s1 else s1)"
  have h: "sk_heap s2 = sk_heap s0" by (simp add: s2_def s1_def sink_out_def)
  have j: "justified (at_calls e) (sk_next s) x" if "responds (sk_heap (others_act e s2)) (sk_next s) x" for x
    using others_responds[OF that] new_request_facts[OF n] unfolding h by blast
  have a: "Req_responder ar = Some (sk_next s)" using new_request_facts[OF n] by blast
  have eq: "fst (runEventDispatch e req s) = fst (if \<not> at_enqueued e then expire_or req ar (cancelled_result req (at_ctxErr e)) (others_act e s2)
      else await_response e req ar (others_act e s2))"
    unfolding runEventDispatch_def n prod.case Let_def s1_def[symmetric] s2_def[symmetric] by (simp split: prod.split)
  show ?thesis unfolding eq using expire_or_ok[OF j a] j take_responds[OF _ a]
    by (auto simp: await_response_def split: response_wait.split option.split)
qed

lemma dispatch_events_ok: "attempt_ok e (sk_next s) (fst (dispatch_events e req s))"
  using runEventDispatch_ok by (simp add: dispatch_events_def)

lemma dispatchOnce_ok:
  assumes "dispatchOnce e req s = (r, s')"
  shows "attempt_ok e (sk_next s) r"
proof -
  have "attempt_ok e (sk_next s) (fst (dispatchOnce e req s))"
    using runHandler_ok[of e s req] dispatch_events_ok[of e "s\<lparr>sk_hostEventsCalled := x\<rparr>" req for x]
      dispatch_events_ok[of e "s\<lparr>sk_hostEventsCalled := x, sk_eventsCalled := True\<rparr>" req for x]
    by (simp add: dispatchOnce_def Let_def split: consumer_wait.split)
  then show ?thesis using assms by simp
qed

text \<open>An attempt ends in error with a failure recorded, with the error its handler returned, or with that of a context.\<close>

definition accounted_error :: "attempt_env \<Rightarrow> SinkError \<Rightarrow> eventSink \<Rightarrow> bool" where
  "accounted_error e x s \<longleftrightarrow> sk_failure s \<noteq> None \<or> (\<exists>msg. x = HandlerError msg \<and> at_handler e = HandlerReturned (Some msg)) \<or> (\<exists>c. x = SinkCtx c)"

definition errors_accounted :: "attempt_env \<Rightarrow> attempt_result \<times> eventSink \<Rightarrow> bool" where
  "errors_accounted e r \<longleftrightarrow> (case r of ((_, _, err), s) \<Rightarrow> \<forall>x. err = Some x \<longrightarrow> accounted_error e x s)"

lemma errors_accounted_simps [simp]:
  "errors_accounted e (timed_out req, s)" "errors_accounted e (by_ctx req c, s)" "errors_accounted e (cancelled_result req c', s)"
  "errors_accounted e (responded req resp, s)" "errors_accounted e (aborted req x, s) \<longleftrightarrow> accounted_error e x s"
  by (auto simp: errors_accounted_def accounted_error_def timed_out_def by_ctx_def aborted_def responded_def cancelled_result_def split: option.split)

lemma expire_or_accounted: "(\<And>s. errors_accounted e (r, s)) \<Longrightarrow> errors_accounted e (expire_or req ar r s)"
  by (simp add: expire_or_def split: prod.split option.split)

lemma pending_accounted: "accounted_error e x (setPendingFailure f s)"
  by (auto simp: accounted_error_def setPendingFailure_def)

lemma runHandler_accounted: "errors_accounted e (runHandler e req s)"
  by (auto simp: runHandler_def Let_def expire_or_accounted pending_accounted split: handler_end.split option.split prod.split)
     (simp_all add: accounted_error_def)

lemma await_response_accounted: "errors_accounted e (await_response e req ar s)"
  unfolding await_response_def
  by (auto simp: accounted_error_def intro!: expire_or_accounted split: response_wait.split option.split)

lemma runEventDispatch_accounted: "errors_accounted e (runEventDispatch e req s)"
proof -
  have same: "errors_accounted e (r, s'\<lparr>sk_outstanding := os\<rparr>) \<longleftrightarrow> errors_accounted e (r, s')" for r s' os
    by (simp add: errors_accounted_def accounted_error_def split: prod.split)
  have "errors_accounted e x \<Longrightarrow> errors_accounted e (case x of (r, s4) \<Rightarrow> (r, s4\<lparr>sk_outstanding := f s4\<rparr>))" for x f
    by (cases x) (simp add: same)
  then show ?thesis unfolding runEventDispatch_def Let_def
    by (auto simp: await_response_accounted expire_or_accounted split: prod.split)
qed

lemma dispatchOnce_accounted: "errors_accounted e (dispatchOnce e req s)"
  by (simp add: dispatchOnce_def Let_def dispatch_events_def runHandler_accounted runEventDispatch_accounted accounted_error_def split: consumer_wait.split)

subsection \<open>The dispatcher\<close>

lemma applyFailureAction_facts:
  assumes "applyFailureAction req resp attempts kind action code decision s = ((out, err), s')"
  shows "frame s s'" "err \<noteq> None \<Longrightarrow> err = Some ErrApprovalAbort \<and> sk_failure s' \<noteq> None"
    "err = None \<and> \<not> out_retry out \<Longrightarrow> action = FailureContinue" "out_resp out = resp"
proof -
  have w: "frame s (pushRetryUnsupportedWarning kind action s)"
    by (simp add: pushRetryUnsupportedWarning_def push_body_def sink_push_def pushWithSource_def sink_out_def plain_notice_def new_event_def
        frame_def resolved_def envelope_defs)
  have p: "sk_failure (setPendingFailure f s1) \<noteq> None" for f s1 by (auto simp: setPendingFailure_def)
  show "frame s s'" using assms w frame_trans[OF w frame_ops(3)] by (auto simp: applyFailureAction_def Let_def split: if_splits)
  show "err = Some ErrApprovalAbort \<and> sk_failure s' \<noteq> None" if "err \<noteq> None"
    using assms that p by (auto simp: applyFailureAction_def Let_def split: if_splits)
  show "action = FailureContinue" if "err = None \<and> \<not> out_retry out"
    using assms that by (auto simp: applyFailureAction_def Let_def split: if_splits)
  show "out_resp out = resp" using assms by (auto simp: applyFailureAction_def Let_def split: if_splits)
qed

lemma attempt_fallback_facts:
  assumes "attempt_fallback req attempts resp decision s = ((out, err), s')"
  shows "frame s s'" "err \<noteq> None \<Longrightarrow> err = Some ErrApprovalAbort \<and> sk_failure s' \<noteq> None"
    "err = None \<and> \<not> out_retry out \<Longrightarrow>
       (if decision = DecisionRejected then HDP_OnReject (sk_policy s) else HDP_OnTimeout (sk_policy s)) = FailureContinue"
    "out_resp out = (if decision = DecisionRejected then resp else plain_resp req DecisionTimedOut)"
  using assms by (auto simp: attempt_fallback_def split: if_splits dest: applyFailureAction_facts)

lemma retrySupported_cong: "sk_caps s = sk_caps s' \<Longrightarrow> retrySupported k s = retrySupported k s'"
  by (simp only: retrySupported_def)

text \<open>
  Attempts recorded between two states, and exactly one resolution notice handed to the broker for each, in order.
\<close>

fun announces :: "DecisionRequest \<times> DecisionResponse \<Rightarrow> event_body \<Rightarrow> bool" where
  "announces (req, resp) b \<longleftrightarrow> (\<exists>at. b = resolution req resp at)"

definition rounds :: "eventSink \<Rightarrow> (DecisionRequest \<times> DecisionResponse) list \<Rightarrow> eventSink \<Rightarrow> bool" where
  "rounds s log s' \<longleftrightarrow> sk_attempts s' = sk_attempts s @ log \<and> (\<exists>new. resolved s' = resolved s @ new \<and> list_all2 announces log new)"

lemma rounds_trans: "\<lbrakk>rounds s log1 s1; rounds s1 log2 s2\<rbrakk> \<Longrightarrow> rounds s (log1 @ log2) s2"
  unfolding rounds_def by (metis append.assoc list_all2_appendI)

text \<open>One round of the loop.\<close>

lemma loop_round:
  obtains (decided) resp x s1 where "request_loop env n req s = ((resp, None), s1)" "rounds s [(req\<lparr>DReq_RetryAttempt := n\<rparr>, x)] s1" "envelope s1 = envelope s"
      "justified (at_calls (env (n + 1))) (sk_next s) (Resp_Result resp)" "Resp_Result resp = DecisionApproved \<or> Resp_Result resp = DecisionAnswered"
  | (fallback) resp err x s1 where "request_loop env n req s = ((resp, err), s1)" "rounds s [(req\<lparr>DReq_RetryAttempt := n\<rparr>, x)] s1" "envelope s1 = envelope s"
      "err \<noteq> None \<longrightarrow> sk_failure s1 \<noteq> None"
      "err = None \<longrightarrow> Resp_Result resp = DecisionRejected \<and> HDP_OnReject (sk_policy s) = FailureContinue
         \<or> Resp_Result resp = DecisionTimedOut \<and> HDP_OnTimeout (sk_policy s) = FailureContinue"
  | (stopped) resp e x s1 where "request_loop env n req s = ((resp, Some e), s1)" "rounds s [(req\<lparr>DReq_RetryAttempt := n\<rparr>, x)] s1" "envelope s1 = envelope s"
      "e \<noteq> ErrApprovalAbort" "accounted_error (env (n + 1)) e s1"
  | (again) req2 x s1 where "request_loop env n req s = request_loop env (n + 1) req2 s1" "rounds s [(req\<lparr>DReq_RetryAttempt := n\<rparr>, x)] s1" "envelope s1 = envelope s"
      "n + 1 \<le> HDP_MaxRetries (sk_policy s)" "sk_policy s1 = sk_policy s" "sk_caps s1 = sk_caps s" "sk_next s \<le> sk_next s1"
      "DReq_Kind req2 = DReq_Kind req" "retrySupported (DReq_Kind req) s"
      "HDP_OnReject (sk_policy s) = FailureRetry \<or> HDP_OnTimeout (sk_policy s) = FailureRetry"
proof -
  define req1 where "req1 = req\<lparr>DReq_RetryAttempt := n + 1 - 1\<rparr>"
  define e where "e = env (n + 1)"
  obtain resp decision runErr s1 where d: "dispatchOnce e req1 s = ((resp, decision, runErr), s1)" by (metis prod.exhaust)
  define s1' where "s1' = s1\<lparr>sk_attempts := sk_attempts s1 @ [(req1, resp)]\<rparr>"
  have d': "attempt_once e req1 s = ((resp, decision, runErr), s1')" by (simp add: attempt_once_def d s1'_def)
  define s2 where "s2 = pushResolvedNotice req1 resp (at_resolvedAt e) s1'"
  have fr: "frame s s1" by (rule dispatchOnce_eq[OF d])
  have "resolved s1' = resolved s1" "envelope s1' = envelope s1" by (simp_all add: s1'_def resolved_def envelope_defs)
  then have f: "rounds s [(req\<lparr>DReq_RetryAttempt := n\<rparr>, resp)] s2" "envelope s2 = envelope s" "sk_policy s2 = sk_policy s" "sk_caps s2 = sk_caps s"
    "sk_next s \<le> sk_next s2" using fr by (auto simp: s2_def frame_def rounds_def s1'_def req1_def)
  have fin: "rounds s log s'" if "rounds s log s2" "frame s2 s'" for log s' using that by (simp add: rounds_def frame_def)
  note ok = dispatchOnce_ok[OF d, unfolded attempt_ok_def prod.case]
  note eq = request_loop.simps[of env n req s, folded req1_def e_def, unfolded Let_def, folded req1_def e_def, unfolded d' prod.case, folded s2_def]
  consider "decision = DecisionApproved \<or> decision = DecisionAnswered" | "decision = DecisionRejected \<or> decision = DecisionTimedOut"
    | "\<not> (decision = DecisionApproved \<or> decision = DecisionAnswered)" "\<not> (decision = DecisionRejected \<or> decision = DecisionTimedOut)" by blast
  then show thesis
  proof cases
    case 1
    then show thesis using ok f by (intro decided[of resp s2 resp]) (auto simp: eq e_def)
  next
    case 2
    obtain out err s3 where fb: "attempt_fallback req1 (n + 1) resp decision s2 = ((out, err), s3)" by (metis prod.exhaust)
    note ff = attempt_fallback_facts[OF fb]
    show thesis
    proof (cases "err = None \<and> out_retry out")
      case True
      then have fb': "attempt_fallback req1 (n + 1) resp decision s2 = ((out, None), s3)" using fb by simp
      have r: "n + 1 \<le> HDP_MaxRetries (sk_policy s2)" "s3 = s2" "retrySupported (DReq_Kind req1) s2"
        using attempt_fallback_retry[OF fb'] True by auto
      have act: "HDP_OnReject (sk_policy s2) = FailureRetry \<or> HDP_OnTimeout (sk_policy s2) = FailureRetry"
        using fb' True by (auto simp: attempt_fallback_def split: if_splits dest: applyFailureAction_retry)
      obtain req2 s4 where rn: "renewForRetry (at_renewedAt e) req1 s3 = (req2, s4)" by fastforce
      have "request_loop env n req s = request_loop env (n + 1) req2 s4" unfolding eq using 2 fb True rn by auto
      moreover have "retrySupported (DReq_Kind req) s" using r(3) retrySupported_cong[OF f(4)] by (simp add: req1_def)
      ultimately show thesis using renewForRetry_fields[OF rn] r(1,2) f act by (intro again[of req2 s4 resp]) (simp_all add: req1_def rounds_def)
    next
      case False
      have "request_loop env n req s = ((out_resp out, err), s3)" unfolding eq using 2 fb False by auto
      moreover have "rounds s [(req\<lparr>DReq_RetryAttempt := n\<rparr>, resp)] s3" "envelope s3 = envelope s" using fin[OF f(1) ff(1)] ff(1) f by (simp_all add: frame_def)
      moreover have "err \<noteq> None \<longrightarrow> sk_failure s3 \<noteq> None" using ff(2) by blast
      moreover have "Resp_Result (out_resp out) = DecisionRejected \<and> HDP_OnReject (sk_policy s) = FailureContinue
         \<or> Resp_Result (out_resp out) = DecisionTimedOut \<and> HDP_OnTimeout (sk_policy s) = FailureContinue" if "err = None"
      proof (cases "decision = DecisionRejected")
        case True
        then have "Resp_Result resp = DecisionRejected" using ok by simp
        then show ?thesis using ff(3,4) f(3) False that True by simp
      next
        case other: False
        then show ?thesis using ff(3,4) f(3) False that by (simp add: plain_resp_def)
      qed
      ultimately show thesis by (intro fallback[of "out_resp out" err s3 resp]) simp_all
    qed
  next
    case 3
    have "\<not> justified cs a decision" for cs a
      using 3 unfolding justified_def by (metis asks_for.simps approval_call.exhaust option.distinct(1) option.inject)
    then have "runErr \<noteq> None" "runErr \<noteq> Some ErrApprovalAbort" using ok 3(2) by blast+
    then obtain x where x: "runErr = Some x" "x \<noteq> ErrApprovalAbort" by auto
    have "request_loop env n req s = ((resp, Some x), s2)" unfolding eq x(1) using 3 by (simp only: if_False option.case)
    moreover have "accounted_error e x s2"
      using dispatchOnce_accounted[of e req1 s] d x(1) by (simp add: errors_accounted_def accounted_error_def s2_def s1'_def)
    ultimately show thesis using x f e_def by (intro stopped[of resp x s2 resp]) simp_all
  qed
qed

lemma loop_attempts:
  "request_loop env n req s = (r, s') \<Longrightarrow> \<exists>log. rounds s log s' \<and> log \<noteq> []
     \<and> map (DReq_RetryAttempt \<circ> fst) log = map (\<lambda>i. n + int i) [0..<length log]
     \<and> int (length log) \<le> max 1 (HDP_MaxRetries (sk_policy s) + 1 - n)
     \<and> (\<not> retrySupported (DReq_Kind req) s \<or> HDP_OnReject (sk_policy s) \<noteq> FailureRetry \<and> HDP_OnTimeout (sk_policy s) \<noteq> FailureRetry
        \<longrightarrow> length log = 1)"
proof (induction "nat (HDP_MaxRetries (sk_policy s) + 1 - n)" arbitrary: n req s r rule: less_induct)
  case less
  have one: ?case if "rounds s [(req\<lparr>DReq_RetryAttempt := n\<rparr>, x)] s'" for x using that by (intro exI[of _ "[(req\<lparr>DReq_RetryAttempt := n\<rparr>, x)]"]) simp
  show ?case
  proof (cases rule: loop_round[of env n req s])
    case (again req2 x s1)
    then have "nat (HDP_MaxRetries (sk_policy s1) + 1 - (n + 1)) < nat (HDP_MaxRetries (sk_policy s) + 1 - n)" by simp
    from less(1)[OF this less(2)[unfolded again(1)]] obtain log where ih: "rounds s1 log s'" "log \<noteq> []"
      "map (DReq_RetryAttempt \<circ> fst) log = map (\<lambda>i. n + 1 + int i) [0..<length log]"
      "int (length log) \<le> max 1 (HDP_MaxRetries (sk_policy s) - n)" using again(5) by auto
    let ?log = "(req\<lparr>DReq_RetryAttempt := n\<rparr>, x) # log"
    have "rounds s ?log s'" using rounds_trans[OF again(2) ih(1)] by simp
    moreover have "map (DReq_RetryAttempt \<circ> fst) ?log = map (\<lambda>i. n + int i) [0..<length ?log]"
      using ih(3) by (simp add: upt_rec[of 0] map_Suc_upt[symmetric] del: upt_Suc)
    moreover have "int (length ?log) \<le> max 1 (HDP_MaxRetries (sk_policy s) + 1 - n)" using ih(4) again(4) by (auto simp: max_def split: if_splits)
    ultimately show ?thesis using again(9,10) by (intro exI[of _ ?log]) blast
  qed (use less(2) one in auto)
qed

text \<open>Some attempt's calls explain a result, on a responder made since the given state.\<close>

definition explained :: "(int \<Rightarrow> attempt_env) \<Rightarrow> eventSink \<Rightarrow> DecisionResult \<Rightarrow> bool" where
  "explained env s result \<longleftrightarrow> (\<exists>k a. sk_next s \<le> a \<and> justified (at_calls (env k)) a result)"

lemma explained_mono: "\<lbrakk>sk_next s \<le> sk_next s1; explained env s1 result\<rbrakk> \<Longrightarrow> explained env s result"
  unfolding explained_def by (meson le_trans)

lemma loop_justified:
  "request_loop env n req s = ((resp, err), s') \<Longrightarrow>
     (err = None \<longrightarrow> explained env s (Resp_Result resp) \<and> (Resp_Result resp = DecisionApproved \<or> Resp_Result resp = DecisionAnswered)
        \<or> Resp_Result resp = DecisionRejected \<and> HDP_OnReject (sk_policy s) = FailureContinue
        \<or> Resp_Result resp = DecisionTimedOut \<and> HDP_OnTimeout (sk_policy s) = FailureContinue)
     \<and> (\<forall>e. err = Some e \<longrightarrow> (\<exists>k. accounted_error (env k) e s') \<and> (e = ErrApprovalAbort \<longrightarrow> sk_failure s' \<noteq> None)) \<and> envelope s' = envelope s"
proof (induction "nat (HDP_MaxRetries (sk_policy s) + 1 - n)" arbitrary: n req s rule: less_induct)
  case less
  show ?case
  proof (cases rule: loop_round[of env n req s])
    case (again req2 x s1)
    then have "nat (HDP_MaxRetries (sk_policy s1) + 1 - (n + 1)) < nat (HDP_MaxRetries (sk_policy s) + 1 - n)" by simp
    note ih = less(1)[OF this less(2)[unfolded again(1)]]
    show ?thesis using ih again(3,5) explained_mono[OF again(7)] by simp blast
  next
    case (decided resp' x s1)
    then have "explained env s (Resp_Result resp')" unfolding explained_def by blast
    then show ?thesis using less(2) decided(1,3,5) by simp
  next
    case (fallback resp' err' x s1)
    then show ?thesis using less(2) by (auto simp: accounted_error_def)
  next
    case (stopped resp' e x s1)
    then show ?thesis using less(2) by auto
  qed
qed

lemma normalizeRequest_fields:
  assumes "normalizeRequest now req s = (req', s')"
  shows "sk_policy s' = sk_policy s \<and> resolved s' = resolved s \<and> sk_attempts s' = sk_attempts s \<and> sk_next s' = sk_next s
    \<and> DReq_Kind req' = DReq_Kind req \<and> retrySupported k s' = retrySupported k s \<and> envelope s' = envelope s"
proof -
  have "sk_policy s' = sk_policy s \<and> resolved s' = resolved s \<and> sk_attempts s' = sk_attempts s \<and> sk_next s' = sk_next s \<and> DReq_Kind req' = DReq_Kind req
    \<and> sk_caps s' = sk_caps s \<and> envelope s' = envelope s"
    using assms by (cases "DReq_RequestID req = ''''") (auto simp: normalizeRequest_def nextDecisionID_def Let_def resolved_def envelope_defs)
  then show ?thesis using retrySupported_cong[of s' s] by simp
qed

lemma applyAutoResolve_facts:
  assumes "applyAutoResolve req resp s = ((r, err), s')"
  shows "resolved s' = resolved s \<and> sk_attempts s' = sk_attempts s \<and> envelope s' = envelope s \<and> r = resp \<and> (err \<noteq> None \<longrightarrow> err = Some ErrApprovalAbort \<and> sk_failure s' \<noteq> None)
    \<and> (err = None \<longrightarrow> Resp_Result resp = DecisionApproved \<or> HDP_OnReject (sk_policy s) = FailureContinue)"
proof (cases "Resp_Result resp = DecisionApproved")
  case False
  obtain out e s1 where a: "applyFailureAction req resp 1 (DReq_Kind req) (HDP_OnReject (sk_policy s)) FailureReject DecisionRejected s = ((out, e), s1)"
    by (metis prod.exhaust)
  note f = applyFailureAction_facts[OF a]
  have p: "sk_failure (setPendingFailure f s1) \<noteq> None" for f by (auto simp: setPendingFailure_def)
  show ?thesis using assms False a f p frame_ops(3)[of s1]
    by (auto simp: applyAutoResolve_def frame_def split: option.splits if_splits)
qed (use assms in \<open>simp add: applyAutoResolve_def\<close>)

lemma pushRequestedNotice_resolved: "resolved (pushRequestedNotice req s) = resolved s" "envelope (pushRequestedNotice req s) = envelope s"
  "sk_policy (pushRequestedNotice req s) = sk_policy s" "sk_attempts (pushRequestedNotice req s) = sk_attempts s"
  using frame_ops(1)[of s req] by (simp_all add: frame_def)

lemma tryAutoResolve_cong:
  "\<lbrakk>DReq_Kind req' = DReq_Kind req; sk_policy s' = sk_policy s\<rbrakk> \<Longrightarrow> tryAutoResolve req' s' = None \<longleftrightarrow> tryAutoResolve req s = None"
  by (simp add: tryAutoResolve_def Let_def)

text \<open>
  C23. The approval dispatcher ends, whatever hosts, handlers and contexts do. For every behaviour of the
  outside world \<^verbatim>\<open>RequestDecision\<close> returns; the attempts it makes are numbered from 0, at most one more than the
  policy's retries, and for each of them, retried ones included, it hands the broker exactly one resolution notice, in
  order and with that attempt's request and response. Without a retry fallback, or for a kind whose retry the
  driver does not support, there is exactly one attempt; a kind the policy resolves automatically gets exactly one
  notice and no attempt.
\<close>

theorem dispatcher_ends:
  "\<exists>r s' log new. RequestDecision env now req s = (r, s') \<and> sk_attempts s' = sk_attempts s @ log \<and> resolved s' = resolved s @ new
     \<and> (if tryAutoResolve req s \<noteq> None then log = [] \<and> length new = 1
        else log \<noteq> [] \<and> list_all2 announces log new \<and> map (DReq_RetryAttempt \<circ> fst) log = map int [0..<length log])
     \<and> int (length new) \<le> max 0 (HDP_MaxRetries (sk_policy s)) + 1
     \<and> (\<not> retrySupported (DReq_Kind req) s \<or> HDP_OnReject (sk_policy s) \<noteq> FailureRetry \<and> HDP_OnTimeout (sk_policy s) \<noteq> FailureRetry
        \<longrightarrow> length new = 1)"
proof -
  obtain req1 s1 where n: "normalizeRequest now req s = (req1, s1)" by fastforce
  note nf = normalizeRequest_fields[OF n]
  have auto: "tryAutoResolve req1 s1 = None \<longleftrightarrow> tryAutoResolve req s = None" using tryAutoResolve_cong nf by blast
  obtain r s' where r: "RequestDecision env now req s = (r, s')" by fastforce
  show ?thesis
  proof (cases "tryAutoResolve req1 s1")
    case None
    then have "request_loop env 0 req1 s1 = (r, s')" using r n by (simp add: RequestDecision_def)
    from loop_attempts[OF this] obtain log where l: "rounds s1 log s'" "log \<noteq> []"
      "map (DReq_RetryAttempt \<circ> fst) log = map int [0..<length log]" "int (length log) \<le> max 1 (HDP_MaxRetries (sk_policy s) + 1)"
      "\<not> retrySupported (DReq_Kind req) s \<or> HDP_OnReject (sk_policy s) \<noteq> FailureRetry \<and> HDP_OnTimeout (sk_policy s) \<noteq> FailureRetry \<Longrightarrow> length log = 1"
      using nf by auto
    then obtain new where new: "sk_attempts s' = sk_attempts s @ log" "resolved s' = resolved s @ new" "list_all2 announces log new"
      using nf by (auto simp: rounds_def)
    have "length new = length log" using list_all2_lengthD[OF new(3)] by simp
    then show ?thesis using r new l None auto by (intro exI[of _ r] exI[of _ s'] exI[of _ log] exI[of _ new]) (auto simp: max_def split: if_splits)
  next
    case (Some resp)
    then have "applyAutoResolve req1 resp (pushResolvedNotice req1 resp now (pushRequestedNotice req1 s1)) = ((fst r, snd r), s')"
      using r n by (simp add: RequestDecision_def)
    from applyAutoResolve_facts[OF this] nf have "sk_attempts s' = sk_attempts s @ []" "resolved s' = resolved s @ [resolution req1 resp now]"
      by (simp_all add: pushRequestedNotice_resolved)
    then show ?thesis using r Some auto by (intro exI[of _ r] exI[of _ s'] exI[of _ "[]"] exI[of _ "[resolution req1 resp now]"]) auto
  qed
qed

lemma explained_call:
  "explained env s DecisionApproved \<longleftrightarrow>
     (\<exists>k q a. CallApprove (Some q) \<in> set (at_calls (env k)) \<and> Req_responder q = Some a \<and> sk_next s \<le> a)"
  "explained env s DecisionAnswered \<longleftrightarrow>
     (\<exists>k q a option. CallAnswer (Some q) option \<in> set (at_calls (env k)) \<and> Req_responder q = Some a \<and> sk_next s \<le> a)"
proof -
  have 1: "call_addr c = Some a \<and> asks_for c = Some DecisionApproved \<longleftrightarrow> (\<exists>q. c = CallApprove (Some q) \<and> Req_responder q = Some a)" for c a
    by (cases c) (auto simp: call_addr_def bind_eq_Some_conv)
  have 2: "call_addr c = Some a \<and> asks_for c = Some DecisionAnswered \<longleftrightarrow> (\<exists>q option. c = CallAnswer (Some q) option \<and> Req_responder q = Some a)" for c a
    by (cases c) (auto simp: call_addr_def bind_eq_Some_conv)
  show "explained env s DecisionApproved \<longleftrightarrow>
     (\<exists>k q a. CallApprove (Some q) \<in> set (at_calls (env k)) \<and> Req_responder q = Some a \<and> sk_next s \<le> a)"
    unfolding explained_def justified_def 1 by blast
  show "explained env s DecisionAnswered \<longleftrightarrow>
     (\<exists>k q a option. CallAnswer (Some q) option \<in> set (at_calls (env k)) \<and> Req_responder q = Some a \<and> sk_next s \<le> a)"
    unfolding explained_def justified_def 2 by blast
qed

definition auto_approved :: "HumanDecisionKind \<Rightarrow> eventSink \<Rightarrow> bool" where
  "auto_approved kind s \<longleftrightarrow> kind = HumanDecisionPermission \<and> HDP_Permission (sk_policy s) = HumanDecisionAutoApprove
     \<or> kind = HumanDecisionPlanReview \<and> HDP_PlanReview (sk_policy s) = HumanDecisionAutoApprove"

definition sanctioned :: "(int \<Rightarrow> attempt_env) \<Rightarrow> eventSink \<Rightarrow> HumanDecisionKind \<Rightarrow> DecisionResult \<Rightarrow> bool" where
  "sanctioned env s kind x \<longleftrightarrow> explained env s x \<and> (x = DecisionApproved \<or> x = DecisionAnswered)
     \<or> x = DecisionApproved \<and> auto_approved kind s
     \<or> x = DecisionRejected \<and> HDP_OnReject (sk_policy s) = FailureContinue
     \<or> x = DecisionTimedOut \<and> HDP_OnTimeout (sk_policy s) = FailureContinue"

lemma tryAutoResolve_facts:
  assumes "tryAutoResolve req s = Some resp"
  shows "Resp_Result resp = DecisionApproved \<and> auto_approved (DReq_Kind req) s \<or> Resp_Result resp = DecisionRejected"
  using assms by (auto simp: tryAutoResolve_def Let_def auto_approved_def split: if_splits)

lemma RequestDecision_facts:
  assumes "RequestDecision env now req s = ((resp, err), s')"
  shows "envelope s' = envelope s \<and> (\<forall>e. err = Some e \<longrightarrow> (\<exists>k. accounted_error (env k) e s') \<and> (e = ErrApprovalAbort \<longrightarrow> sk_failure s' \<noteq> None))
    \<and> (err = None \<longrightarrow> sanctioned env s (DReq_Kind req) (Resp_Result resp))"
proof -
  obtain req1 s1 where n: "normalizeRequest now req s = (req1, s1)" by fastforce
  note nf = normalizeRequest_fields[OF n]
  have pol: "sk_policy s1 = sk_policy s" "DReq_Kind req1 = DReq_Kind req" "envelope s1 = envelope s" using nf by blast+
  show ?thesis
  proof (cases "tryAutoResolve req1 s1")
    case None
    then have "request_loop env 0 req1 s1 = ((resp, err), s')" using assms n by (simp add: RequestDecision_def)
    note j = loop_justified[OF this, unfolded pol]
    have "explained env s1 x \<Longrightarrow> explained env s x" for x using explained_mono nf by (metis order_refl)
    then show ?thesis using j unfolding sanctioned_def by blast
  next
    case (Some auto)
    then have "applyAutoResolve req1 auto (pushResolvedNotice req1 auto now (pushRequestedNotice req1 s1)) = ((resp, err), s')"
      using assms n by (simp add: RequestDecision_def)
    note f = applyAutoResolve_facts[OF this, unfolded pushResolvedNotice_fields pushRequestedNotice_resolved pol]
    have t: "Resp_Result auto = DecisionApproved \<and> auto_approved (DReq_Kind req) s \<or> Resp_Result auto = DecisionRejected"
      using tryAutoResolve_facts[OF Some] by (simp add: auto_approved_def pol)
    have "sanctioned env s (DReq_Kind req) (Resp_Result auto)" if "err = None"
      using t
    proof
      assume "Resp_Result auto = DecisionRejected"
      moreover have "HDP_OnReject (sk_policy s) = FailureContinue"
        using conjunct2[OF conjunct2[OF conjunct2[OF conjunct2[OF conjunct2[OF f]]]]] that calculation by simp
      ultimately show ?thesis unfolding sanctioned_def by blast
    qed (simp add: sanctioned_def)
    moreover have "\<exists>k. accounted_error (env k) e s'" if "err = Some e" for e using f that by (auto simp: accounted_error_def)
    ultimately show ?thesis using f by blast
  qed
qed

text \<open>
  C24. The dispatcher never invents a decision and accounts for every abort. When \<^verbatim>\<open>RequestDecision\<close> lets the
  driver go on with an approval, the policy approves that kind automatically or somebody called Approve on a copy
  of a request this very dispatch issued; an answer comes from an Answer call on such a copy; a rejection or a
  timeout is passed on only where the policy says continue; nothing else is passed on. When it aborts the run, the
  error is the one the host's handler returned, or a context's, or the sink holds the failure the run will
  report, and it does for every abort the policy, a panicking handler or a handler that leaves the request open
  brings about. (For a handler's or a context's error no failure is recorded.)
\<close>

theorem decisions_not_invented:
  assumes "RequestDecision env now req s = ((resp, err), s')"
  shows "(err = None \<and> Resp_Result resp = DecisionApproved \<longrightarrow>
        DReq_Kind req = HumanDecisionPermission \<and> HDP_Permission (sk_policy s) = HumanDecisionAutoApprove
        \<or> DReq_Kind req = HumanDecisionPlanReview \<and> HDP_PlanReview (sk_policy s) = HumanDecisionAutoApprove
        \<or> (\<exists>k q a. CallApprove (Some q) \<in> set (at_calls (env k)) \<and> Req_responder q = Some a \<and> sk_next s \<le> a))
    \<and> (err = None \<and> Resp_Result resp = DecisionAnswered \<longrightarrow>
        (\<exists>k q a option. CallAnswer (Some q) option \<in> set (at_calls (env k)) \<and> Req_responder q = Some a \<and> sk_next s \<le> a))
    \<and> (err = None \<longrightarrow> Resp_Result resp = DecisionApproved \<or> Resp_Result resp = DecisionAnswered
        \<or> Resp_Result resp = DecisionRejected \<and> HDP_OnReject (sk_policy s) = FailureContinue
        \<or> Resp_Result resp = DecisionTimedOut \<and> HDP_OnTimeout (sk_policy s) = FailureContinue)
    \<and> (\<forall>e. err = Some e \<longrightarrow> (\<exists>k msg. e = HandlerError msg \<and> at_handler (env k) = HandlerReturned (Some msg)) \<or> (\<exists>c. e = SinkCtx c)
        \<or> sk_failure s' \<noteq> None)"
proof -
  note f = RequestDecision_facts[OF assms]
  have "auto_approved (DReq_Kind req) s \<or> explained env s DecisionApproved" if "err = None" "Resp_Result resp = DecisionApproved"
    using f that by (simp add: sanctioned_def) blast
  moreover have "explained env s DecisionAnswered" if "err = None" "Resp_Result resp = DecisionAnswered"
    using f that by (simp add: sanctioned_def)
  ultimately show ?thesis using f unfolding explained_call auto_approved_def sanctioned_def accounted_error_def by blast
qed

subsection \<open>The run envelope\<close>

text \<open>
  What happens to a sink while the execution owns the envelope: the driver's output, approvals, events of run services
  (any event at all, through the pump), what the core itself pushes (notices, updates of messages, turn ends), the context and the end.
\<close>

datatype sink_op =
    OpEmit gotime nat RunEvent
  | OpStream StreamPayload
  | OpDecision "int \<Rightarrow> attempt_env" gotime DecisionRequest
  | OpService Event
  | OpNotice Notice
  | OpMessage MessageUpdate
  | OpTurn TurnEnd
  | OpBeginDispatch
  | OpContextEnds CtxErr
  | OpClose

fun sink_exec :: "eventSink \<Rightarrow> sink_op \<Rightarrow> eventSink" where
  "sink_exec s (OpEmit now res ev) = Emit now res ev s"
| "sink_exec s (OpStream p) = EmitStream p s"
| "sink_exec s (OpDecision env now req) = snd (RequestDecision env now req s)"
| "sink_exec s (OpService ev) = pump_event ev s"
| "sink_exec s (OpNotice n) = push_body (EvNotice n) s"
| "sink_exec s (OpMessage m) = push_body (EvMessageUpdate m) s"
| "sink_exec s (OpTurn t) = push_body (EvTurnEnd t) s"
| "sink_exec s OpBeginDispatch = beginDriverDispatch s"
| "sink_exec s (OpContextEnds c) = s\<lparr>sk_invocationCtx := EndedCtx c\<rparr>"
| "sink_exec s OpClose = sink_close s"

lemma push_envelope: "\<not> is_envelope (Event_body ev) \<Longrightarrow> envelope (pushWithSource ev src s) = envelope s"
  by (simp add: envelope_defs pushWithSource_def sink_out_def)

lemma push_body_envelope: "\<not> is_envelope b \<Longrightarrow> envelope (push_body b s) = envelope s"
  by (simp add: push_body_def sink_push_def push_envelope new_event_def)

lemma pump_envelope: "envelope (pump_event ev s) = envelope s"
  by (cases "Event_body ev") (simp_all add: sink_push_def push_envelope)

lemma run_event_plain: "\<not> is_envelope (eventFromRunEvent ev)"
  by (simp add: eventFromRunEvent_def notice_of_def)

lemma stream_event_plain:
  "\<lbrakk>Stream_Kind p \<noteq> ''run.started''; Stream_Kind p \<noteq> ''run.finished''; Stream_Kind p \<noteq> ''run.error''\<rbrakk>
   \<Longrightarrow> \<not> is_envelope (eventFromStreamPayload p)"
  unfolding eventFromStreamPayload_def
  by (simp add: plain_notice_def requested_notice_def resolved_notice_def text_event_def thinking_event_def tool_event_def split: option.split)

lemma EmitStream_envelope:
  assumes "sk_lifecycleActive s"
  shows "envelope (EmitStream p s) = envelope s"
proof (cases "Stream_Kind p = ''run.started'' \<or> Stream_Kind p = ''run.finished'' \<or> Stream_Kind p = ''run.error''")
  case True
  then have "fst (captureDriverLifecycle p src s)" "envelope (snd (captureDriverLifecycle p src s)) = envelope s" for src
    using assms by (simp_all add: captureDriverLifecycle_def Let_def envelope_defs) (elim disjE; simp)+
  from this[of "sourceMetaFromStreamPayload p"] show ?thesis
    by (cases "captureDriverLifecycle p (sourceMetaFromStreamPayload p) s") (simp add: EmitStream_def Let_def)
next
  case False
  then have "captureDriverLifecycle p src s = (False, s)" for src using assms by (simp add: captureDriverLifecycle_def)
  then show ?thesis using False push_envelope[of "new_event (eventFromStreamPayload p)"] stream_event_plain[of p]
    by (simp add: EmitStream_def Let_def new_event_def)
qed

lemma Emit_envelope: "envelope (Emit now res ev s) = envelope s"
proof -
  let ?s1 = "case failure_item ev of None \<Rightarrow> s | Some msg \<Rightarrow>
            if sk_providerFailure s = None \<and> ctx_live s then s\<lparr>sk_providerFailure := Some (agent_failure msg)\<rparr> else s"
  have 1: "envelope ?s1 = envelope s" by (simp add: envelope_defs split: option.split)
  have 2: "envelope (pushWithSource (new_event (eventFromRunEvent ev)) src s') = envelope s'" for src s'
    using run_event_plain by (intro push_envelope) (simp add: new_event_def)
  have 3: "envelope (s'\<lparr>sk_hub := h\<rparr>) = envelope s'" for s' h by (simp add: envelope_defs)
  show ?thesis unfolding Emit_def Let_def using 1 2 3 by presburger
qed

lemma close_envelope: "envelope (sink_close s) = envelope s"
proof -
  have "envelope (foldl (\<lambda>s (k, ar). snd (sink_expire ar s)) s xs) = envelope s" for xs :: "(string \<times> ApprovalRequest) list" and s
    by (induction xs arbitrary: s) (use frame_ops(9) in \<open>auto simp: frame_def\<close>)
  then show ?thesis by (simp add: sink_close_def expireOutstanding_def envelope_defs)
qed

lemma exec_envelope: "sk_lifecycleActive s \<Longrightarrow> envelope (sink_exec s op) = envelope s"
proof (cases op)
  case (OpDecision env now req)
  then show ?thesis using RequestDecision_facts[of env now req s] by (metis sink_exec.simps(3) prod.collapse)
next
  case OpBeginDispatch
  then show ?thesis by (simp add: beginDriverDispatch_def envelope_defs)
next
  case (OpContextEnds c)
  then show ?thesis by (simp add: envelope_defs)
qed (simp_all add: Emit_envelope EmitStream_envelope close_envelope push_body_envelope pump_envelope del: pump_event.simps)

lemma execs_envelope:
  "sk_lifecycleActive s \<Longrightarrow> envelope (foldl sink_exec s ops) = envelope s"
proof (induction ops arbitrary: s)
  case (Cons op ops)
  then have e: "envelope (sink_exec s op) = envelope s" using exec_envelope by simp
  then have "sk_lifecycleActive (sink_exec s op)" using Cons.prems(1) by (simp add: envelope_def)
  then show ?case using Cons e by simp
qed simp

text \<open>
  C25. The public run envelope is one start and one finish, and the finish tells the outcome of the execution.
  Once the core owns the envelope of a fresh sink, then whatever the driver emits, run services feed and approvals do,
  before completion the only envelope event handed to the broker is the core's own start, after completion it is
  followed by exactly one finish, later output adds none and completing again changes nothing. The finish is failed
  exactly if the execution returned an error, with the reason of a business failure, whatever the driver claimed.
\<close>

theorem one_run_envelope:
  assumes "\<not> sk_lifecycleActive s" "\<not> sk_lifecycleEnded s" "envelope_events s = []"
    "s1 = foldl sink_exec (enableAuthoritativeLifecycle s) ops1"
    "s2 = foldl sink_exec (completeAuthoritativeLifecycle usage err s1) ops2"
  shows "envelope_events s1 = [EvRunStarted \<lparr>Started_RunID = sk_runID s, Started_ThreadID = ''''\<rparr>]
    \<and> (\<exists>t. envelope_events s2 = [EvRunStarted \<lparr>Started_RunID = sk_runID s, Started_ThreadID = ''''\<rparr>, EvRunFinished t]
         \<and> (Finished_Failed t \<longleftrightarrow> err \<noteq> RunOk) \<and> (\<forall>r m. err = RunBusiness r m \<longrightarrow> Finished_Reason t = r \<and> Finished_Message t = m)
         \<and> (sk_runID s \<noteq> '''' \<longrightarrow> Finished_RunID t \<noteq> ''''))
    \<and> completeAuthoritativeLifecycle usage' err' s2 = s2"
proof -
  let ?s0 = "enableAuthoritativeLifecycle s" and ?start = "EvRunStarted \<lparr>Started_RunID = sk_runID s, Started_ThreadID = ''''\<rparr>"
  have e0: "envelope ?s0 = (True, False, sk_runID s, [?start])"
    using assms(1-3) by (simp add: enableAuthoritativeLifecycle_def push_body_def sink_push_def pushWithSource_def sink_out_def envelope_defs
        new_event_def)
  then have e1: "envelope s1 = (True, False, sk_runID s, [?start])" unfolding assms(4)
    by (subst execs_envelope) (simp_all add: envelope_def)
  let ?c = "completeAuthoritativeLifecycle usage err s1"
  obtain t where c: "envelope ?c = (True, True, sk_runID s, [?start, EvRunFinished t])" "Finished_Failed t \<longleftrightarrow> err \<noteq> RunOk"
    "\<forall>r m. err = RunBusiness r m \<longrightarrow> Finished_Reason t = r \<and> Finished_Message t = m" "sk_runID s \<noteq> '''' \<longrightarrow> Finished_RunID t \<noteq> ''''"
    using e1 by (simp add: completeAuthoritativeLifecycle_def Let_def envelope_defs sink_out_def new_event_def)
  have e2: "envelope s2 = envelope ?c" unfolding assms(5) using c(1) by (intro execs_envelope) (simp_all add: envelope_def)
  then show ?thesis using e1 c by (simp add: envelope_def completeAuthoritativeLifecycle_def)
qed

subsection \<open>Witnesses\<close>

definition sample_caps :: RunPolicyCapabilities where
  "sample_caps = \<lparr>RPC_Isolation = False, RPC_WebSearch = False, RPC_Browser = False,
     RPC_Permission = \<lparr>HDS_Ask = True, HDS_AutoApprove = True, HDS_AutoReject = True, HDS_Retry = True\<rparr>,
     RPC_PlanReview = \<lparr>HDS_Ask = True, HDS_AutoApprove = True, HDS_AutoReject = True, HDS_Retry = True\<rparr>,
     RPC_Question = \<lparr>QS_Ask = True, QS_AutoReject = True, QS_Retry = False\<rparr>\<rparr>"

definition sample_sink :: eventSink where
  "sample_sink = newEventSink ''run_1'' zero_HDP True sample_caps"

definition sample_permission :: DecisionRequest where
  "sample_permission = \<lparr>DReq_RequestID = ''req'', DReq_RunID = '''', DReq_ThreadID = '''', DReq_Kind = HumanDecisionPermission,
     DReq_Source = ''shell'', DReq_ToolCallID = '''', DReq_Prompt = ''run it?'', DReq_Payload = [], DReq_Choices = [],
     DReq_DefaultDecision = '''', DReq_CreatedAt = 1, DReq_Deadline = 2, DReq_RetryAttempt = 0\<rparr>"

text \<open>The handler approves the request with responder 0 and returns nil.\<close>

definition sample_attempt :: attempt_env where
  "sample_attempt = \<lparr>at_consumer = ConsumerResult, at_hostEvents = False,
     at_calls = [CallApprove (Some (fst (newApprovalRequest Map.empty 0 sample_permission)))], at_cancel = None,
     at_handler = HandlerReturned None, at_enqueued = True, at_wait = WaitReady, at_ctxErr = None, at_resolvedAt = 5, at_renewedAt = 6\<rparr>"

lemma sample_decision:
  "fst (RequestDecision (\<lambda>_. sample_attempt) 3 sample_permission sample_sink)
     = (zero_Response\<lparr>Resp_RequestID := ''req'', Resp_Result := DecisionApproved\<rparr>, None)"
  unfolding RequestDecision_def
  by (simp add: normalizeRequest_def sample_permission_def Let_def sample_sink_def newEventSink_def
      effectiveApprovalPolicy_def zero_HDP_def tryAutoResolve_def request_loop.simps attempt_once_def dispatchOnce_def runHandler_def new_request_def
      newApprovalRequest_def pushRequestedNotice_def push_body_def sink_push_def pushWithSource_def sink_out_def others_act_def
      sample_attempt_def Approve_def boundResponder_def settle_def close_chan_def takeResponse_def responded_def zero_Response_def)

theorem decisions_not_invented_witness:
  "\<exists>resp s'. RequestDecision (\<lambda>_. sample_attempt) 3 sample_permission sample_sink = ((resp, None), s')
     \<and> Resp_Result resp = DecisionApproved
     \<and> (\<exists>q a. CallApprove (Some q) \<in> set (at_calls sample_attempt) \<and> Req_responder q = Some a \<and> sk_next sample_sink \<le> a)"
proof -
  obtain resp s' where r: "RequestDecision (\<lambda>_. sample_attempt) 3 sample_permission sample_sink = ((resp, None), s')"
    "Resp_Result resp = DecisionApproved"
    using sample_decision by (cases "RequestDecision (\<lambda>_. sample_attempt) 3 sample_permission sample_sink") simp
  have "HDP_Permission (sk_policy sample_sink) = HumanDecisionAsk" "HDP_PlanReview (sk_policy sample_sink) = HumanDecisionAsk"
    by (simp_all add: sample_sink_def newEventSink_def effectiveApprovalPolicy_def zero_HDP_def)
  then have "\<exists>q a. CallApprove (Some q) \<in> set (at_calls sample_attempt) \<and> Req_responder q = Some a \<and> sk_next sample_sink \<le> a"
    using conjunct1[OF decisions_not_invented[OF r(1)]] r(2) by simp
  then show ?thesis using r by blast
qed

definition sample_error :: StreamPayload where
  "sample_error = \<lparr>Stream_Kind = ''run.error'', Stream_Sequence = 1, Stream_Seq = 0, Stream_RunID = '''', Stream_ThreadID = '''', Stream_TurnID = '''',
     Stream_MessageID = '''', Stream_ToolCallID = '''', Stream_Name = '''', Stream_Delta = '''', Stream_Args = [], Stream_Result = [],
     Stream_Usage = None, Stream_Error = None, Stream_Timestamp = 0, Stream_HITLRequested = None, Stream_HITLResolved = None,
     Stream_Role = '''', Stream_Raw = []\<rparr>"

text \<open>The driver claims an error, but the execution succeeds.\<close>

theorem one_run_envelope_witness:
  "\<exists>t. envelope_events (completeAuthoritativeLifecycle None RunOk (EmitStream sample_error (enableAuthoritativeLifecycle sample_sink)))
      = [EvRunStarted \<lparr>Started_RunID = ''run_1'', Started_ThreadID = ''''\<rparr>, EvRunFinished t] \<and> \<not> Finished_Failed t"
proof -
  have s: "\<not> sk_lifecycleActive sample_sink" "\<not> sk_lifecycleEnded sample_sink" "envelope_events sample_sink = []" "sk_runID sample_sink = ''run_1''"
    by (simp_all add: sample_sink_def newEventSink_def envelope_events_def)
  from one_run_envelope[OF s(1-3) refl refl, of "[OpStream sample_error]" None RunOk "[]" None RunOk] s(4) show ?thesis by auto
qed

text \<open>Without a retry fallback there is one attempt.\<close>

theorem dispatcher_ends_witness:
  "\<exists>r s'. RequestDecision (\<lambda>_. sample_attempt) 3 sample_permission sample_sink = (r, s') \<and> length (resolved s') = 1"
proof -
  have "HDP_OnReject (sk_policy sample_sink) \<noteq> FailureRetry" "HDP_OnTimeout (sk_policy sample_sink) \<noteq> FailureRetry"
    by (simp_all add: sample_sink_def newEventSink_def effectiveApprovalPolicy_def zero_HDP_def)
  moreover have "resolved sample_sink = []" by (simp add: sample_sink_def newEventSink_def resolved_def)
  ultimately show ?thesis using dispatcher_ends[of "\<lambda>_. sample_attempt" 3 sample_permission sample_sink] by (metis append_Nil)
qed

subsection \<open>Errors without a failure\<close>

text \<open>
  The comment on \<^verbatim>\<open>RequestDecision\<close> promises that the failure is recorded whenever an error is returned; the error a handler returns is
  passed on and none is recorded.
\<close>

definition sample_refusal :: attempt_env where
  "sample_refusal = sample_attempt\<lparr>at_calls := [], at_handler := HandlerReturned (Some ''ui gone'')\<rparr>"

theorem handler_error_unrecorded:
  "\<exists>resp s'. RequestDecision (\<lambda>_. sample_refusal) 3 sample_permission sample_sink = ((resp, Some (HandlerError ''ui gone'')), s') \<and> sk_failure s' = None"
  unfolding RequestDecision_def
  by (simp add: normalizeRequest_def sample_permission_def Let_def sample_sink_def newEventSink_def sample_refusal_def
      effectiveApprovalPolicy_def zero_HDP_def tryAutoResolve_def request_loop.simps attempt_once_def dispatchOnce_def runHandler_def new_request_def
      newApprovalRequest_def pushRequestedNotice_def pushResolvedNotice_def push_body_def sink_push_def pushWithSource_def sink_out_def others_act_def
      sample_attempt_def aborted_def sink_expire_def expire_def expire_responder_def boundResponder_def close_chan_def
      split: outcome.split prod.split)

end
