(* ===== verification/Standby.thy ===== *)
theory Standby
  imports HubExecution
begin

text \<open>
  \<^verbatim>\<open>standby_runtime.go\<close>: the stream of a standing-by thread. It admits messages into a queue, runs one
  execution at a time, forwards messages to the hub of the running execution, and keeps messages whose
  execution failed for a retry or for the next execution. The mutex makes each locked section one function.
  The current execution is its message hub; what the execution does to the hub is the step relation of
  \<open>HubExecution\<close>. Events published on the standby's own broker are a log. Floating-point retry hints
  (\<^verbatim>\<open>standbyRetryAfter\<close>) enter as the parsed duration.
\<close>

subsection \<open>State\<close>

text \<open>A call option is a message option or an option of the execution, which is opaque here.\<close>

datatype CallOption = MsgOption MessageOption | RunOption string

definition message_options :: "CallOption option list \<Rightarrow> MessageOption option list" where
  "message_options opts = map (\<lambda>opt. case opt of Some (MsgOption m) \<Rightarrow> Some m | _ \<Rightarrow> None) opts"

definition execution_options :: "CallOption option list \<Rightarrow> bool" where
  "execution_options opts \<longleftrightarrow> list_ex (\<lambda>opt. case opt of Some (RunOption _) \<Rightarrow> True | _ \<Rightarrow> False) opts"

record standbyMessage =
  sm_text :: string
  sm_opts :: "CallOption option list"
  sm_id :: string
  sm_retried :: bool
  sm_readyAt :: gotime
  sm_carried :: "MessageOutcome list"

text \<open>
  \<open>sb_number\<close> identifies the current execution; \<open>sb_history\<close> and \<open>sb_accepted\<close> are ghosts: the outcomes
  of the completed executions, each with whether its execution succeeded or ended in a cancelled standby,
  and the IDs for which \<^verbatim>\<open>Send\<close> returned nil.
\<close>

record standbyStream =
  sb_ctxErr :: "CtxErr option"
  sb_queue :: "standbyMessage list"
  sb_carry :: "standbyMessage list"
  sb_current :: "messageHub option"
  sb_number :: nat
  sb_currentMessage :: "standbyMessage option"
  sb_processing :: bool
  sb_cancelled :: bool
  sb_maxPending :: int
  sb_wake :: bool
  sb_published :: "event_body list"
  sb_history :: "(bool \<times> MessageOutcome) list"
  sb_accepted :: "string list"

definition new_standby :: "int \<Rightarrow> standbyStream" where
  "new_standby maxPending = \<lparr>sb_ctxErr = None, sb_queue = [], sb_carry = [], sb_current = None, sb_number = 0, sb_currentMessage = None,
     sb_processing = False, sb_cancelled = False, sb_maxPending = maxPending, sb_wake = False, sb_published = [], sb_history = [],
     sb_accepted = []\<rparr>"

definition standby_notify :: "standbyStream \<Rightarrow> standbyStream" where
  "standby_notify s = s\<lparr>sb_wake := True\<rparr>"

definition pendingLocked :: "standbyStream \<Rightarrow> int" where
  "pendingLocked s = int (length (sb_carry s) + length (sb_queue s) + sum_list (map (\<lambda>m. length (sm_carried m)) (sb_queue s)))"

subsection \<open>Starting an execution\<close>

text \<open>What \<^verbatim>\<open>openStream\<close> gives a new hub; the agent's defaults carry no message settings.\<close>

record hub_setup =
  hs_ctxErr :: "nat \<Rightarrow> CtxErr option"
  hs_runID :: string
  hs_policy :: MessagePolicy
  hs_cap :: MessageCapability
  hs_resume :: bool

definition new_hub :: "hub_setup \<Rightarrow> messageHub" where
  "new_hub st = newMessageHub (hs_ctxErr st) (hs_runID st) (hs_policy st) (hs_cap st) (hs_resume st)"

text \<open>The state a carried outcome starts with is overwritten when the hub takes it up.\<close>

definition carried_outcome :: "standbyMessage \<Rightarrow> MessageOutcome" where
  "carried_outcome m = (let a = MessageAttributes (message_options (sm_opts m))
     in new_outcome (sm_id m) (sm_text m) (MC_From a) (MC_Timing a) MessageAccepted)"

definition startExecutionLocked :: "hub_setup \<Rightarrow> standbyMessage \<Rightarrow> standbyStream \<Rightarrow> standbyStream" where
  "startExecutionLocked st m0 s =
     (let m = m0\<lparr>sm_carried := sm_carried m0 @ map carried_outcome (sb_carry s)\<rparr>;
          h = snd (startMessage (apply_options (message_options (sm_opts m))) (sm_text m) (carry_all (sm_carried m) (new_hub st)))
      in standby_notify (s\<lparr>sb_carry := [], sb_current := Some h, sb_number := Suc (sb_number s), sb_currentMessage := Some m,
           sb_processing := True, sb_cancelled := False\<rparr>))"

subsection \<open>Send\<close>

text \<open>
  What \<^verbatim>\<open>Send\<close> does before its loop: an ID is minted if none is given, author and timing are checked, and
  \<open>invalid\<close> is the verdict of the policy and output-schema checks on the options.
\<close>

datatype standby_cause = CauseEntropy string | CauseAuthorOrTiming | CauseOptions string | CauseContext CtxErr | CauseAgentClosed

record StandbyError =
  SErr_ID :: string
  SErr_Text :: string
  SErr_Reason :: MessageFailure
  SErr_Cause :: standby_cause

definition standby_prepare ::
  "entropy \<Rightarrow> string option \<Rightarrow> string \<Rightarrow> CallOption option list \<Rightarrow> StandbyError + string \<times> MessageOption option list" where
  "standby_prepare ent invalid txt opts =
     (let m = apply_options (message_options opts);
          err = (\<lambda>k reason cause. \<lparr>SErr_ID = k, SErr_Text = txt, SErr_Reason = reason, SErr_Cause = cause\<rparr>)
      in case (if ms_id m \<noteq> '''' then Inr (ms_id m, message_options opts)
               else case newRunID ent of Inl msg \<Rightarrow> Inl msg
                 | Inr rid \<Rightarrow> let k = ''msg_'' @ drop 4 rid in Inr (k, message_options opts @ [Some (OptMessageID k)])) of
           Inl msg \<Rightarrow> Inl (err '''' MessageRunFailed (CauseEntropy msg))
         | Inr (k, mopts) \<Rightarrow>
             if AfterTurn < ms_timing m \<or> AuthorSystem < Author_Kind (ms_from m) then Inl (err k MessageProviderRejected CauseAuthorOrTiming)
             else case invalid of Some msg \<Rightarrow> Inl (err k MessageProviderRejected (CauseOptions msg))
             | None \<Rightarrow> Inr (k, mopts))"

text \<open>One pass of the loop: return, forward to the hub of the current execution, or wait for a change.\<close>

datatype standby_send = SendNil | SendRejected StandbyError | SendForward nat | SendBlocked

definition is_duplicate :: "string \<Rightarrow> standbyMessage \<Rightarrow> bool" where
  "is_duplicate k m \<longleftrightarrow> sm_id m = k \<or> k \<in> Out_ID ` set (sm_carried m)"

definition new_message :: "string \<Rightarrow> string \<Rightarrow> CallOption option list \<Rightarrow> standbyMessage" where
  "new_message k txt opts = \<lparr>sm_text = txt, sm_opts = opts @ [Some (MsgOption (OptMessageID k))], sm_id = k, sm_retried = False,
     sm_readyAt = zero_time, sm_carried = []\<rparr>"

fun take_carry :: "string \<Rightarrow> standbyMessage list \<Rightarrow> (standbyMessage \<times> standbyMessage list) option" where
  "take_carry k [] = None"
| "take_carry k (m # ms) = (if sm_id m = k then Some (m, ms)
     else case take_carry k ms of None \<Rightarrow> None | Some (p, rest) \<Rightarrow> Some (p, m # rest))"

definition accept :: "string \<Rightarrow> standbyStream \<Rightarrow> standbyStream" where
  "accept k s = s\<lparr>sb_accepted := k # sb_accepted s\<rparr>"

definition standby_Send ::
  "hub_setup \<Rightarrow> CtxErr option \<Rightarrow> bool \<Rightarrow> string \<Rightarrow> string \<Rightarrow> CallOption option list \<Rightarrow> standbyStream \<Rightarrow> standby_send \<times> standbyStream" where
  "standby_Send st ctxErr closed k txt opts s =
     (let reject = (\<lambda>cause. SendRejected \<lparr>SErr_ID = k, SErr_Text = txt, SErr_Reason = MessageCancelled, SErr_Cause = cause\<rparr>)
      in case ctxErr of Some e \<Rightarrow> (reject (CauseContext e), s) | None \<Rightarrow>
      if closed then (reject CauseAgentClosed, s)
      else case sb_ctxErr s of Some e \<Rightarrow> (reject (CauseContext e), s) | None \<Rightarrow>
      if list_ex (is_duplicate k) (sb_queue s) then (SendNil, accept k s)
      else case take_carry k (sb_carry s) of
        Some (p, rest) \<Rightarrow>
          (SendNil, accept k (if sb_current s = None \<and> sb_queue s = []
             then standby_notify (s\<lparr>sb_carry := rest, sb_queue := [p]\<rparr>) else s))
      | None \<Rightarrow>
          if sb_current s \<noteq> None \<and> \<not> sb_cancelled s \<and> \<not> execution_options opts then (SendForward (sb_number s), s)
          else if sb_current s = None \<and> sb_queue s = [] \<and> sb_carry s \<noteq> []
          then (SendNil, accept k (startExecutionLocked st (new_message k txt opts) s))
          else if pendingLocked s < sb_maxPending s
          then (SendNil, accept k (standby_notify (s\<lparr>sb_queue := sb_queue s @ [new_message k txt opts]\<rparr>)))
          else (SendBlocked, s))"

text \<open>The call of \<^verbatim>\<open>sendWithLifetime\<close> on the hub of the current execution, with the result it gave.\<close>

definition standby_forward :: "string \<Rightarrow> send_step \<times> messageHub \<Rightarrow> standbyStream \<Rightarrow> standbyStream" where
  "standby_forward k r s = (let s' = s\<lparr>sb_current := Some (snd r)\<rparr> in if fst r = SendReturned None then accept k s' else s')"

subsection \<open>Cancellation\<close>

definition failed_update :: "string \<times> string \<Rightarrow> event_body" where
  "failed_update kt = EvMessageUpdate \<lparr>Update_ID = fst kt, Update_State = MessageFailed, Update_Turn = 0, Update_Boundary = '''',
     Update_Mechanism = '''', Update_Reason = MessageCancelled, Update_Text = snd kt\<rparr>"

text \<open>The closure \<^verbatim>\<open>fail\<close>: one event per ID.\<close>

fun fail_each :: "string list \<Rightarrow> (string \<times> string) list \<Rightarrow> event_body list" where
  "fail_each failed [] = []"
| "fail_each failed (kt # rest) = (if fst kt \<in> set failed then fail_each failed rest
     else failed_update kt # fail_each (fst kt # failed) rest)"

definition message_entries :: "standbyMessage \<Rightarrow> (string \<times> string) list" where
  "message_entries m = (sm_id m, sm_text m) # map (\<lambda>out. (Out_ID out, Out_Text out)) (sm_carried m)"

definition failQueuedLocked :: "standbyStream \<Rightarrow> standbyStream" where
  "failQueuedLocked s = s\<lparr>sb_published := sb_published s @ fail_each [] (concat (map message_entries (sb_carry s @ sb_queue s))),
     sb_queue := [], sb_carry := []\<rparr>"

text \<open>\<^verbatim>\<open>runStream.Cancel\<close> as far as the hub is concerned: its context ends and pending messages are cancelled.\<close>

definition cancel_hub :: "messageHub \<Rightarrow> messageHub" where
  "cancel_hub h = cancelPending (if hub_ctxErr h 0 = None then h\<lparr>hub_ctxErr := (hub_ctxErr h)(0 := Some Canceled)\<rparr> else h)"

definition cancel_current :: "standbyStream \<Rightarrow> standbyStream" where
  "cancel_current s = s\<lparr>sb_cancelled := True, sb_processing := False, sb_current := map_option cancel_hub (sb_current s)\<rparr>"

definition standby_Cancel :: "standbyStream \<Rightarrow> standbyStream" where
  "standby_Cancel s = standby_notify (failQueuedLocked (cancel_current s))"

subsection \<open>The loop\<close>

text \<open>The locked part of one round of \<^verbatim>\<open>run\<close>; the result says whether the loop ends.\<close>

definition run_round :: "hub_setup \<Rightarrow> gotime \<Rightarrow> standbyStream \<Rightarrow> bool \<times> standbyStream" where
  "run_round st now s =
     (if sb_ctxErr s \<noteq> None then
        (if sb_current s = None then (True, standby_notify (failQueuedLocked s)) else (False, cancel_current s))
      else case sb_queue s of
        m # rest \<Rightarrow>
          (False, if sb_current s = None \<and> sm_readyAt m \<le> now then startExecutionLocked st m (s\<lparr>sb_queue := rest\<rparr>) else s)
      | [] \<Rightarrow> (False, s))"

text \<open>An event of the current execution is forwarded unless its processing was cancelled meanwhile.\<close>

definition forward_event :: "event_body \<Rightarrow> bool \<Rightarrow> standbyStream \<Rightarrow> standbyStream" where
  "forward_event ev taken s = (if taken then s\<lparr>sb_published := sb_published s @ [ev]\<rparr> else s)"

text \<open>
  The error of an execution as \<^verbatim>\<open>standbyRetryDelay\<close> looks at it: a context error, a business failure with its
  reason, status code and parsed hint, a network error.
\<close>

record exec_error =
  ee_context :: bool
  ee_failure :: "(string \<times> int option \<times> duration option) option"
  ee_network :: bool

definition standbyRetryDelay :: "exec_error \<Rightarrow> duration \<times> bool" where
  "standbyRetryDelay e =
     (if ee_context e then (0, False)
      else case ee_failure e of
        None \<Rightarrow> (250 * 1000000, ee_network e)
      | Some (reason, status, hint) \<Rightarrow>
          let retryable = reason \<in> {''rate_limit'', ''rate_limited'', ''network_error'', ''server_error'', ''provider_server_error''}
                \<or> (case status of None \<Rightarrow> False | Some c \<Rightarrow> c = 429 \<or> 500 \<le> c \<and> c \<le> 599)
          in case (if retryable then hint else None) of
               Some d \<Rightarrow> (d, True)
             | None \<Rightarrow> (250 * 1000000, retryable \<or> ee_network e))"

definition run_failed :: "MessageOutcome \<Rightarrow> bool" where
  "run_failed out \<longleftrightarrow> Out_State out = MessageFailed \<and> Out_Reason out = MessageRunFailed"

text \<open>The message that asks for a failed outcome again.\<close>

definition again_message :: "standbyMessage \<Rightarrow> MessageOutcome \<Rightarrow> standbyMessage" where
  "again_message cm out = \<lparr>sm_text = Out_Text out,
     sm_opts = (if Out_ID out = sm_id cm then sm_opts cm
       else map (Some \<circ> MsgOption) [OptMessageID (Out_ID out), OptFrom (Out_From out), OptWhen (Out_Timing out)]
         @ filter (\<lambda>opt. case opt of Some (MsgOption _) \<Rightarrow> False | _ \<Rightarrow> True) (sm_opts cm)),
     sm_id = Out_ID out, sm_retried = sm_retried cm, sm_readyAt = zero_time, sm_carried = []\<rparr>"

definition retry_first :: "gotime \<Rightarrow> MessageOutcome list \<Rightarrow> standbyMessage \<Rightarrow> standbyMessage list \<Rightarrow> standbyMessage" where
  "retry_first ready outs p extras = p\<lparr>sm_retried := True, sm_readyAt := ready,
     sm_carried := concat (map (\<lambda>x. filter (\<lambda>out. Out_ID out = sm_id x) outs) extras)\<rparr>"

text \<open>What becomes of the messages of a failed execution: one retry, or they are carried into the next execution.\<close>

definition requeue_failed :: "gotime \<Rightarrow> exec_error \<Rightarrow> MessageOutcome list \<Rightarrow> standbyMessage \<Rightarrow> standbyStream \<Rightarrow> standbyStream" where
  "requeue_failed now e outs cm s =
     (let again = map (again_message cm) (filter run_failed outs);
          (delay, retryable) = standbyRetryDelay e
      in case again of
           p # extras \<Rightarrow> if retryable \<and> \<not> sm_retried cm
             then s\<lparr>sb_queue := retry_first (now + delay) outs p extras # sb_queue s\<rparr>
             else s\<lparr>sb_carry := sb_carry s @ again\<rparr>
         | [] \<Rightarrow> s)"

definition completeExecution :: "gotime \<Rightarrow> exec_error option \<Rightarrow> standbyStream \<Rightarrow> standbyStream" where
  "completeExecution now err s =
     (case (sb_current s, sb_currentMessage s) of
        (Some h, Some cm) \<Rightarrow>
          let s1 = (case err of None \<Rightarrow> s
                    | Some e \<Rightarrow> if \<not> sb_cancelled s \<and> sb_ctxErr s = None then requeue_failed now e (outcomes h) cm s else s)
          in standby_notify (s1\<lparr>sb_processing := False, sb_current := None, sb_currentMessage := None,
               sb_history := sb_history s @ map (Pair (err = None \<or> sb_cancelled s \<or> sb_ctxErr s \<noteq> None)) (outcomes h)\<rparr>)
      | _ \<Rightarrow> s)"

end
