(* ===== verification/StandbySystem.thy ===== *)
theory StandbySystem
  imports Standby
begin

text \<open>
  A standby under any interleaving of senders, its loop, executions, cancellation and the end of its
  lifetime. The invariant connects it with the hub: every execution is opened the way the hub's
  guarantees need, and every message the standby took is accounted for.
\<close>

subsection \<open>What a step of the hub adds\<close>

definition item_ids :: "messageHub \<Rightarrow> string list" where
  "item_ids h = map (item_id h) (hub_items h)"

definition live_ids :: "messageHub \<Rightarrow> string set" where
  "live_ids h = {item_id h i |i. i \<in> set (hub_items h) \<and> item_state h i \<noteq> MessageDelivered}"

definition no_new :: "messageHub \<Rightarrow> messageHub \<Rightarrow> bool" where
  "no_new h h' \<longleftrightarrow> (\<forall>i \<in> set (hub_items h'). i \<in> set (hub_items h) \<or> hub_wrapUp h' = Some i)"

lemma no_new_same: "hub_items h' = hub_items h \<Longrightarrow> no_new h h'"
  by (simp add: no_new_def)

lemma hub_each_items: "(\<And>i h. hub_items (f i h) = hub_items h) \<Longrightarrow> hub_items (hub_each f is h) = hub_items h"
  by (induction f "is" h rule: hub_each.induct) simp_all

lemma simple_items [simp]:
  "hub_items (updateLocked i h) = hub_items h" "hub_items (failLocked i r h) = hub_items h" "hub_items (signalLocked h) = hub_items h"
  "hub_items (upd_out i g h) = hub_items h" "hub_items (hub_push ev h) = hub_items h"
  by (simp_all add: updateLocked_def failLocked_def signalLocked_def upd_out_def upd_item_def hub_push_def)

lemma op_items:
  "hub_items (withdraw i h) = hub_items h" "hub_items (setCapability cap h) = hub_items h" "hub_items (Window b h) = hub_items h"
  "hub_items (cancelPending h) = hub_items h" "hub_items (finish r h) = hub_items h" "hub_items (snd (closeIfIdle h)) = hub_items h"
  "hub_items (setPrompt items h) = hub_items h" "hub_items (completeTurn res err h) = hub_items h" "hub_items (ackStart now ok h) = hub_items h"
  by (simp_all add: withdraw_def setCapability_def reconcile_def Window_def cancelPending_def finish_def closeIfIdle_def setPrompt_def
      completeTurn_def ackStart_def hub_each_items Let_def split: option.split)

lemma load_items: "hub_items (load now rs h) = hub_items h"
proof -
  have "hub_items (load_receipts c rs h) = hub_items h" for c using load_receipts_same[of h c rs] by (simp add: same_items_def)
  then show ?thesis by (simp add: load_def Let_def hub_each_items load_settle_def)
qed

lemma Ack_no_new: "no_new h (Ack now k ack h)"
proof (cases "by_id h k")
  case (Some i)
  let ?h1 = "upd_item i (\<lambda>it. it\<lparr>item_claimed := False, item_out := (item_out it)\<lparr>Out_Boundary := item_boundary it,
                   Out_Mechanism := Ack_Mechanism ack\<rparr>\<rparr>) h"
  have "no_new h (ack_delivered now i k ?h1)"
    by (auto simp: ack_delivered_def Let_def no_new_def upd_out_def updateLocked_def hub_push_def split: if_splits)
  moreover have "no_new h (ack_requeue i ack ?h1)" "no_new h (failLocked i r ?h1)" for r
    by (simp_all add: no_new_same ack_requeue_def Let_def)
  ultimately show ?thesis using Some by (simp add: Ack_def Let_def no_new_same)
qed (simp add: Ack_def no_new_same)

lemma ack_prompt_one_no_new: "no_new h (ack_prompt_one now ok deadline k h)"
  using Ack_no_new by (auto simp: ack_prompt_one_def ack_prompt_fail_def no_new_same split: option.split)

lemma claim_scan_items: "hub_items (acc_hub (claim_scan b is acc)) = hub_items (acc_hub acc)"
proof (induction "is" arbitrary: acc)
  case (Cons i "is")
  have "hub_items (acc_hub (claim_step b i acc)) = hub_items (acc_hub acc)" by (simp add: claim_step_def Let_def)
  then show ?case using Cons by (simp add: Let_def)
qed simp

lemma prepend_items: "hub_items (snd (prependWrapUpLocked b turn out h)) = hub_items h"
  by (simp add: prependWrapUpLocked_def Let_def)

lemma Claim_items: "hub_items (snd (Claim b h)) = hub_items h"
proof -
  have mark: "hub_items (hub_each (mark_claimed b turn) is h') = hub_items h'" for turn "is" h'
    by (rule hub_each_items) (simp add: mark_claimed_def)
  show ?thesis by (simp add: Claim_def Let_def claim_scan_items mark prepend_items)
qed

text \<open>Only \<^verbatim>\<open>sendWithLifetime\<close> adds messages; the wrap-up instruction joins the list when it has been delivered.\<close>

lemma hub_step_adds: "hub_step h h' \<Longrightarrow> no_new h h' \<or> (\<exists>ctx lifetime m t framed. h' = snd (send_attempt ctx lifetime m t framed h))"
proof (induction rule: hub_step.induct)
  case (send h ctx lifetime m t framed)
  then show ?case by blast
qed (simp_all add: no_new_same op_items load_items Claim_items Ack_no_new ack_prompt_one_no_new)

lemma live_shrinks:
  assumes "extends h h'" "no_new h h'" "hub_inv h'"
  shows "live_ids h' \<subseteq> live_ids h"
proof
  fix k assume "k \<in> live_ids h'"
  then obtain i where i: "i \<in> set (hub_items h')" "k = item_id h' i" "item_state h' i \<noteq> MessageDelivered" by (auto simp: live_ids_def)
  then have "hub_wrapUp h' \<noteq> Some i" using assms(3) by (auto simp: hub_inv_def wrap_ok_def)
  then have "i \<in> set (hub_items h)" using assms(2) i(1) by (auto simp: no_new_def)
  moreover have "item_id h' i = item_id h i" "item_state h i \<noteq> MessageAccepted \<longrightarrow> item_out (hub_heap h' i) = item_out (hub_heap h i)"
    using assms(1) calculation by (auto simp: extends_def)
  ultimately show "k \<in> live_ids h" using i(2,3) unfolding live_ids_def by (cases "item_state h i") force+
qed

lemma registered_live:
  assumes "hub_items h' = hub_items h @ [hub_next h]" "\<And>i. i \<noteq> hub_next h \<Longrightarrow> hub_heap h' i = hub_heap h i" "item_id h' (hub_next h) = k"
  shows "live_ids h' \<subseteq> insert k (live_ids h)"
proof
  fix x assume "x \<in> live_ids h'"
  then obtain i where i: "i \<in> set (hub_items h')" "x = item_id h' i" "item_state h' i \<noteq> MessageDelivered" unfolding live_ids_def by blast
  show "x \<in> insert k (live_ids h)"
  proof (cases "i = hub_next h")
    case False
    then have "i \<in> set (hub_items h)" "hub_heap h' i = hub_heap h i" using i(1) assms(1,2) by simp_all
    then show ?thesis using i(2,3) unfolding live_ids_def by auto
  qed (use i(2) assms(3) in simp)
qed

lemma send_live: "live_ids (snd (send_attempt ctx lifetime m t framed h)) \<subseteq> insert (ms_id m) (live_ids h)"
proof -
  have 1: "live_ids (admit_message lifetime m t framed h) \<subseteq> insert (ms_id m) (live_ids h)"
    by (rule registered_live)
      (simp_all add: admit_message_def Let_def updateLocked_def signalLocked_def hub_push_def upd_item_def register_def new_item_def new_outcome_def)
  have 2: "live_ids (admit_deduped ctx m t h) \<subseteq> insert (ms_id m) (live_ids h)"
    by (rule registered_live)
      (simp_all add: admit_deduped_def Let_def updateLocked_def signalLocked_def hub_push_def upd_item_def upd_out_def register_def new_item_def
        new_outcome_def)
  have "snd (send_attempt ctx lifetime m t framed h) \<in> {h, admit_message lifetime m t framed h, admit_deduped ctx m t h}"
    by (simp add: send_attempt_def split: option.split prod.split)
  then show ?thesis using 1 2 by auto
qed

subsection \<open>Opening the hub of an execution\<close>

lemma carryPrompt_opened:
  assumes "hub_inv h" "hub_delivered h = []" "Out_ID out \<notin> known_ids h"
  shows "item_ids (snd (carryPrompt out h)) = item_ids h @ [Out_ID out]"
    "known_ids (snd (carryPrompt out h)) = insert (Out_ID out) (known_ids h)" "hub_delivered (snd (carryPrompt out h)) = []"
proof -
  have n: "by_id h (Out_ID out) = None" using assms(3) by (simp add: map_of_eq_None_iff)
  have f: "i \<in> set (hub_items h) \<Longrightarrow> i \<noteq> hub_next h" for i using next_fresh[of h] assms(1) by (auto simp: hub_inv_def)
  show "item_ids (snd (carryPrompt out h)) = item_ids h @ [Out_ID out]"
    using n assms(2) f by (auto simp: carryPrompt_def Let_def item_ids_def new_item_def)
  show "known_ids (snd (carryPrompt out h)) = insert (Out_ID out) (known_ids h)"
    "hub_delivered (snd (carryPrompt out h)) = []"
    using n assms(2) by (simp_all add: carryPrompt_def Let_def new_item_def updateLocked_def)
qed

lemma carry_all_opened:
  "\<lbrakk>hub_inv h; \<not> hub_finished h; hub_delivered h = []; distinct (map Out_ID outs); Out_ID ` set outs \<inter> known_ids h = {}\<rbrakk>
   \<Longrightarrow> item_ids (carry_all outs h) = item_ids h @ map Out_ID outs \<and> known_ids (carry_all outs h) = known_ids h \<union> Out_ID ` set outs
     \<and> hub_delivered (carry_all outs h) = []"
proof (induction outs arbitrary: h)
  case (Cons out outs)
  let ?h1 = "snd (carryPrompt out h)"
  have out: "Out_ID out \<notin> known_ids h" using Cons.prems(5) by auto
  note c = carryPrompt_opened[OF Cons.prems(1,3) out]
  have i: "hub_inv ?h1" "\<not> hub_finished ?h1" using carry_all_inv[of h "[out]"] Cons.prems(1,2) by (simp_all add: carry_all_def)
  have "Out_ID ` set outs \<inter> known_ids ?h1 = {}" using Cons.prems(4,5) c(2) by auto
  from Cons.IH[OF i c(3) _ this] Cons.prems(4) c show ?case by (auto simp: carry_all_def)
qed (simp add: carry_all_def)

lemma startMessage_opened:
  assumes "hub_inv h" "hub_delivered h = []"
  shows "item_ids (snd (startMessage m t h)) = item_ids h @ [start_id m h]"
proof -
  have f: "i \<in> set (hub_items h) \<Longrightarrow> i \<noteq> hub_next h" for i using next_fresh[of h] assms(1) by (auto simp: hub_inv_def)
  show ?thesis using assms(2) f
    by (auto simp: startMessage_def Let_def item_ids_def new_item_def new_outcome_def start_id_def default_author_def)
qed

lemma live_items: "live_ids h \<subseteq> set (item_ids h)"
  by (auto simp: live_ids_def item_ids_def)

text \<open>An execution opened with distinct IDs is one the hub's guarantees are about, and it holds exactly those messages.\<close>

lemma opened_hub:
  assumes "distinct (ms_id m # map Out_ID outs)" "ms_id m \<noteq> ''''" "h = snd (startMessage m t (carry_all outs (new_hub st)))"
  shows "hub_reachable h" "item_ids h = map Out_ID outs @ [ms_id m]"
proof -
  let ?h0 = "new_hub st" and ?h1 = "carry_all outs (new_hub st)"
  have n: "hub_inv ?h0" "\<not> hub_finished ?h0" "hub_delivered ?h0 = []" "known_ids ?h0 = {}" "item_ids ?h0 = []"
    unfolding new_hub_def by (rule new_inv) (simp_all add: newMessageHub_def item_ids_def)
  have c: "item_ids ?h1 = map Out_ID outs" "known_ids ?h1 = Out_ID ` set outs" "hub_delivered ?h1 = []"
    using carry_all_opened[OF n(1-3), of outs] assms(1) n(4,5) by simp_all
  have i: "hub_inv ?h1" using carry_all_inv[OF n(1,2)] by blast
  have s: "start_id m ?h1 = ms_id m" using assms(2) by (simp add: start_id_def)
  have "by_id ?h1 (start_id m ?h1) = None" unfolding s map_of_eq_None_iff c(2) using assms(1) by auto
  then show "hub_reachable h" unfolding assms(3) new_hub_def by (intro hub_reachable.opened) simp_all
  show "item_ids h = map Out_ID outs @ [ms_id m]" unfolding assms(3) using startMessage_opened[OF i c(3)] s c(1) by simp
qed

lemma outcomes_ids: "map Out_ID (outcomes h) = item_ids h"
  by (simp add: outcomes_def item_ids_def)

lemma distinct_ids: "hub_inv h \<Longrightarrow> distinct (item_ids h)"
proof -
  assume "hub_inv h"
  then have i: "ids_ok h" by (simp add: hub_inv_def)
  have "inj_on (item_id h) (set (hub_items h))"
  proof (rule inj_onI)
    fix a b assume ab: "a \<in> set (hub_items h)" "b \<in> set (hub_items h)" "item_id h a = item_id h b"
    then have "by_id h (item_id h a) = Some a" "by_id h (item_id h a) = Some b"
      using items_allocated[OF i] by_id_iff[OF i] by metis+
    then show "a = b" by simp
  qed
  then show ?thesis using i by (simp add: item_ids_def distinct_map ids_ok_def)
qed

subsection \<open>The system\<close>

text \<open>
  \<open>sy_forwards\<close> holds the sends that were told to go to the hub of an execution and have released the mutex,
  \<open>sy_used\<close> the IDs that were queued or forwarded, \<open>sy_breach\<close> whether a host has broken the discipline on
  IDs: a message with execution options came under an ID that had been used before, or a message came
  under the ID of the hub's own wrap-up instruction. \<^verbatim>\<open>Send\<close> itself checks neither.
\<close>

record standby_sys =
  sy_stream :: standbyStream
  sy_forwards :: "(nat \<times> string) list"
  sy_used :: "string list"
  sy_breach :: bool

definition after_send :: "string \<Rightarrow> standby_send \<times> standbyStream \<Rightarrow> standby_sys \<Rightarrow> standby_sys" where
  "after_send k r y =
     (case r of (SendNil, s') \<Rightarrow> y\<lparr>sy_stream := s', sy_used := k # sy_used y\<rparr>
      | (SendForward n, s') \<Rightarrow> y\<lparr>sy_stream := s', sy_forwards := (n, k) # sy_forwards y, sy_used := k # sy_used y\<rparr>
      | (_, s') \<Rightarrow> y\<lparr>sy_stream := s'\<rparr>)"

abbreviation with_stream :: "standbyStream \<Rightarrow> standby_sys \<Rightarrow> standby_sys" where
  "with_stream s y \<equiv> y\<lparr>sy_stream := s\<rparr>"

text \<open>
  Senders give any IDs; what comes of a reused one is shown in StandbyGuarantees. The execution's own work on its
  hub is any step but a send; a send comes from a forwarding sender.
\<close>

definition wrap_up_id :: "messageHub \<Rightarrow> string \<Rightarrow> bool" where
  "wrap_up_id h k \<longleftrightarrow> (case hub_wrapUp h of None \<Rightarrow> False | Some i \<Rightarrow> item_id h i = k)"

inductive standby_step :: "standby_sys \<Rightarrow> standby_sys \<Rightarrow> bool" where
  send: "k \<noteq> ''''
    \<Longrightarrow> standby_step y ((after_send k (standby_Send st ctxErr closed k t opts (sy_stream y)) y)
          \<lparr>sy_breach := sy_breach y \<or> execution_options opts \<and> k \<in> set (sy_used y)\<rparr>)"
| forward: "\<lbrakk>(sb_number (sy_stream y), ms_id m) \<in> set (sy_forwards y); sb_current (sy_stream y) = Some h\<rbrakk>
    \<Longrightarrow> standby_step y ((with_stream (standby_forward (ms_id m) (send_attempt ctx lifetime m t framed h) (sy_stream y)) y)
          \<lparr>sy_breach := sy_breach y \<or> wrap_up_id h (ms_id m)\<rparr>)"
| work: "\<lbrakk>sb_current (sy_stream y) = Some h; hub_step h h'; no_new h h'\<rbrakk>
    \<Longrightarrow> standby_step y (with_stream ((sy_stream y)\<lparr>sb_current := Some h'\<rparr>) y)"
| cancel: "standby_step y (with_stream (standby_Cancel (sy_stream y)) y)"
| round: "standby_step y (with_stream (snd (run_round st now (sy_stream y))) y)"
| event: "standby_step y (with_stream (forward_event ev taken (sy_stream y)) y)"
| complete: "\<lbrakk>sb_current (sy_stream y) = Some h; hub_finished h\<rbrakk>
    \<Longrightarrow> standby_step y (with_stream (completeExecution now err (sy_stream y)) y)"
| ends: "sb_ctxErr (sy_stream y) = None \<Longrightarrow> standby_step y (with_stream ((sy_stream y)\<lparr>sb_ctxErr := Some e\<rparr>) y)"

inductive standby_reachable :: "standby_sys \<Rightarrow> bool" where
  init: "standby_reachable \<lparr>sy_stream = new_standby n, sy_forwards = [], sy_used = [], sy_breach = False\<rparr>"
| step: "\<lbrakk>standby_reachable y; standby_step y y'\<rbrakk> \<Longrightarrow> standby_reachable y'"

subsection \<open>The invariant\<close>

definition message_ids :: "standbyMessage \<Rightarrow> string list" where
  "message_ids m = sm_id m # map Out_ID (sm_carried m)"

definition pending_ids :: "standbyStream \<Rightarrow> string list" where
  "pending_ids s = concat (map message_ids (sb_queue s)) @ map sm_id (sb_carry s)"

definition msg_ok :: "standbyMessage \<Rightarrow> bool" where
  "msg_ok m \<longleftrightarrow> ms_id (apply_options (message_options (sm_opts m))) = sm_id m \<and> sm_id m \<noteq> ''''"

definition queues_ok :: "string set \<Rightarrow> standbyStream \<Rightarrow> bool" where
  "queues_ok used s \<longleftrightarrow> distinct (pending_ids s) \<and> '''' \<notin> set (pending_ids s) \<and> set (pending_ids s) \<subseteq> used
     \<and> list_all msg_ok (sb_queue s @ sb_carry s) \<and> list_all (\<lambda>m. sm_carried m = []) (sb_carry s)"

definition current_ok :: "string set \<Rightarrow> (nat \<times> string) set \<Rightarrow> standbyStream \<Rightarrow> bool" where
  "current_ok used fwd s \<longleftrightarrow> (case sb_current s of None \<Rightarrow> True | Some h \<Rightarrow>
     sb_carry s = [] \<and> hub_reachable h \<and> '''' \<notin> live_ids h \<and> live_ids h \<subseteq> used \<and> (\<exists>cm. sb_currentMessage s = Some cm \<and> msg_ok cm)
     \<and> (\<not> sb_cancelled s \<longrightarrow> live_ids h \<inter> set (pending_ids s) = {} \<and> (\<forall>k. (sb_number s, k) \<in> fwd \<longrightarrow> k \<notin> set (pending_ids s))))"

definition forwards_ok :: "string set \<Rightarrow> (nat \<times> string) set \<Rightarrow> standbyStream \<Rightarrow> bool" where
  "forwards_ok used fwd s \<longleftrightarrow> (\<forall>(n, k) \<in> fwd. n \<le> sb_number s \<and> k \<in> used \<and> k \<noteq> '''')"

fun failed_id :: "event_body \<Rightarrow> string option" where
  "failed_id (EvMessageUpdate u) = (if Update_State u = MessageFailed then Some (Update_ID u) else None)"
| "failed_id _ = None"

text \<open>
  Where a message the standby took can be: waiting, in the running execution, settled by an execution, or
  reported as failed. An execution that succeeded or was cancelled settles every message it leaves delivered or
  failed, any other one those it leaves delivered or failed for another reason than its own failure.
\<close>

definition settled_in :: "(bool \<times> MessageOutcome) list \<Rightarrow> string \<Rightarrow> bool" where
  "settled_in history k \<longleftrightarrow> (\<exists>(final, out) \<in> set history. Out_ID out = k \<and> Out_State out \<noteq> MessageAccepted
     \<and> (final \<or> \<not> run_failed out))"

lemma settled_append: "settled_in (a @ b) k \<longleftrightarrow> settled_in a k \<or> settled_in b k"
  by (simp add: settled_in_def bex_Un)

definition accounted :: "standbyStream \<Rightarrow> string \<Rightarrow> bool" where
  "accounted s k \<longleftrightarrow> k \<in> set (pending_ids s) \<or> (\<exists>h. sb_current s = Some h \<and> k \<in> set (item_ids h))
     \<or> settled_in (sb_history s) k \<or> Some k \<in> failed_id ` set (sb_published s)"

definition standby_ok :: "standby_sys \<Rightarrow> bool" where
  "standby_ok y \<longleftrightarrow> queues_ok (set (sy_used y)) (sy_stream y) \<and> current_ok (set (sy_used y)) (set (sy_forwards y)) (sy_stream y)
     \<and> forwards_ok (set (sy_used y)) (set (sy_forwards y)) (sy_stream y) \<and> list_all (accounted (sy_stream y)) (sb_accepted (sy_stream y))"

lemmas standby_defs = queues_ok_def current_ok_def forwards_ok_def accounted_def

lemma used_mono: "\<lbrakk>queues_ok used s; used \<subseteq> used'\<rbrakk> \<Longrightarrow> queues_ok used' s" "\<lbrakk>current_ok used fwd s; used \<subseteq> used'\<rbrakk> \<Longrightarrow> current_ok used' fwd s"
  "\<lbrakk>forwards_ok used fwd s; used \<subseteq> used'\<rbrakk> \<Longrightarrow> forwards_ok used' fwd s"
  by (auto simp: standby_defs split: option.splits)

lemma notify_fields [simp]: "pending_ids (standby_notify s) = pending_ids s" "queues_ok u (standby_notify s) = queues_ok u s"
  "current_ok u f (standby_notify s) = current_ok u f s" "forwards_ok u f (standby_notify s) = forwards_ok u f s"
  "accounted (standby_notify s) = accounted s" "sb_accepted (standby_notify s) = sb_accepted s"
  by (simp_all add: standby_notify_def standby_defs pending_ids_def fun_eq_iff split: option.split)

lemma accept_fields [simp]: "pending_ids (accept k s) = pending_ids s" "queues_ok u (accept k s) = queues_ok u s"
  "current_ok u f (accept k s) = current_ok u f s" "forwards_ok u f (accept k s) = forwards_ok u f s"
  "accounted (accept k s) = accounted s" "sb_accepted (accept k s) = k # sb_accepted s"
  by (simp_all add: accept_def standby_defs pending_ids_def fun_eq_iff split: option.split)

subsection \<open>Every step keeps it\<close>

lemma carried_outcome_id [simp]: "Out_ID (carried_outcome m) = sm_id m"
  by (simp add: carried_outcome_def Let_def new_outcome_def)

lemma start_execution:
  assumes "distinct (message_ids m @ pending_ids s)" "'''' \<notin> set (message_ids m @ pending_ids s)" "msg_ok m"
    "set (message_ids m) \<subseteq> used" "queues_ok used s" "forwards_ok used fwd s" "sb_current s = None"
  shows "queues_ok used (startExecutionLocked st m s)" "current_ok used fwd (startExecutionLocked st m s)"
    "forwards_ok used fwd (startExecutionLocked st m s)" "sb_accepted (startExecutionLocked st m s) = sb_accepted s"
    "k \<in> set (message_ids m) \<or> accounted s k \<Longrightarrow> accounted (startExecutionLocked st m s) k"
proof -
  define outs where "outs = sm_carried m @ map carried_outcome (sb_carry s)"
  define mm where "mm = apply_options (message_options (sm_opts m))"
  define h where "h = snd (startMessage mm (sm_text m) (carry_all outs (new_hub st)))"
  let ?s = "startExecutionLocked st m s"
  have id: "ms_id mm = sm_id m" "sm_id m \<noteq> ''''" using assms(3) by (simp_all add: msg_ok_def mm_def)
  have outs: "map Out_ID outs = map Out_ID (sm_carried m) @ map sm_id (sb_carry s)" by (simp add: outs_def)
  have d: "distinct (ms_id mm # map Out_ID outs)"
    using assms(1) unfolding outs id by (auto simp: message_ids_def pending_ids_def)
  note o = opened_hub[OF d _ h_def, unfolded id(1), OF id(2)]
  have f: "sb_current ?s = Some h" "sb_queue ?s = sb_queue s" "sb_carry ?s = []" "sb_number ?s = Suc (sb_number s)" "\<not> sb_cancelled ?s"
    "sb_currentMessage ?s = Some (m\<lparr>sm_carried := outs\<rparr>)" "sb_history ?s = sb_history s" "sb_published ?s = sb_published s"
    "sb_accepted ?s = sb_accepted s"
    by (simp_all add: startExecutionLocked_def Let_def h_def mm_def outs_def standby_notify_def)
  have p: "pending_ids ?s = concat (map message_ids (sb_queue s))" by (simp add: pending_ids_def f)
  have ids: "set (item_ids h) = set (message_ids m) \<union> sm_id ` set (sb_carry s)"
    unfolding o(2) outs by (auto simp: message_ids_def)
  have live: "live_ids h \<subseteq> set (message_ids m) \<union> sm_id ` set (sb_carry s)" using live_items ids by blast
  have q: "sm_id ` set (sb_carry s) \<subseteq> used" "set (pending_ids ?s) \<subseteq> used" using assms(5) unfolding p by (auto simp: queues_ok_def pending_ids_def)
  show "queues_ok used ?s" using assms(5) by (auto simp: queues_ok_def p f pending_ids_def)
  have "live_ids h \<inter> set (pending_ids ?s) = {}" using live assms(1) unfolding p by (simp add: pending_ids_def) blast
  moreover have "'''' \<notin> live_ids h" using live assms(2) by (auto simp: pending_ids_def)
  moreover have "(Suc (sb_number s), k) \<notin> fwd" for k using assms(6) by (auto simp: forwards_ok_def)
  moreover have "live_ids h \<subseteq> used" using live assms(4) q by blast
  moreover have "msg_ok (m\<lparr>sm_carried := outs\<rparr>)" using assms(3) by (simp add: msg_ok_def)
  ultimately show "current_ok used fwd ?s" using o(1) by (simp add: current_ok_def f)
  show "forwards_ok used fwd ?s" using assms(6) by (auto simp: forwards_ok_def f)
  show "sb_accepted ?s = sb_accepted s" by (simp add: f)
  show "accounted ?s k" if "k \<in> set (message_ids m) \<or> accounted s k"
  proof -
    have "k \<in> set (item_ids h) \<or> k \<in> set (pending_ids ?s) \<or> settled_in (sb_history s) k \<or> Some k \<in> failed_id ` set (sb_published s)"
      using that assms(7) unfolding accounted_def ids p by (auto simp: pending_ids_def)
    then show ?thesis by (auto simp: accounted_def f)
  qed
qed

text \<open>A hub that moves on keeps its messages.\<close>

lemma hub_advance:
  assumes "current_ok used fwd s" "sb_current s = Some h" "hub_step h h'" "live_ids h' \<subseteq> live_ids h \<or> live_ids h' \<subseteq> insert k (live_ids h) \<and> k \<noteq> '''' \<and> k \<in> used
      \<and> (\<not> sb_cancelled s \<longrightarrow> k \<notin> set (pending_ids s))"
  shows "current_ok used fwd (s\<lparr>sb_current := Some h'\<rparr>)" "set (item_ids h) \<subseteq> set (item_ids h')"
proof -
  have r: "hub_reachable h" using assms(1,2) by (simp add: current_ok_def)
  then have r': "hub_reachable h'" using assms(3) by (rule hub_reachable.step)
  have e: "extends h h'" using hub_reachable_inv[OF r] step_moves[OF assms(3)] moves_extends by blast
  show "set (item_ids h) \<subseteq> set (item_ids h')"
  proof
    fix x assume "x \<in> set (item_ids h)"
    then obtain i where "i \<in> set (hub_items h)" "x = item_id h i" by (auto simp: item_ids_def)
    then have "i \<in> set (hub_items h')" "x = item_id h' i" using e by (auto simp: extends_def)
    then show "x \<in> set (item_ids h')" by (auto simp: item_ids_def)
  qed
  have "pending_ids (s\<lparr>sb_current := Some h'\<rparr>) = pending_ids s" by (simp add: pending_ids_def)
  then show "current_ok used fwd (s\<lparr>sb_current := Some h'\<rparr>)" using assms(1,2,4) r' by (auto simp: current_ok_def)
qed

lemma current_moves:
  assumes "standby_ok y" "sb_current (sy_stream y) = Some h" "current_ok (set (sy_used y)) (set (sy_forwards y)) ((sy_stream y)\<lparr>sb_current := Some h'\<rparr>)"
    "set (item_ids h) \<subseteq> set (item_ids h')"
  shows "standby_ok (with_stream ((sy_stream y)\<lparr>sb_current := Some h'\<rparr>) y)"
proof -
  let ?s = "sy_stream y" and ?s' = "(sy_stream y)\<lparr>sb_current := Some h'\<rparr>"
  have p: "pending_ids ?s' = pending_ids ?s" by (simp add: pending_ids_def)
  have "accounted ?s k \<Longrightarrow> accounted ?s' k" for k using assms(2,4) unfolding accounted_def p by auto
  then show ?thesis using assms(1,3) by (auto simp: standby_ok_def queues_ok_def forwards_ok_def p list_all_iff)
qed

lemma new_message_ok: "k \<noteq> '''' \<Longrightarrow> msg_ok (new_message k t opts)" "message_ids (new_message k t opts) = [k]" "sm_carried (new_message k t opts) = []"
  by (simp_all add: msg_ok_def new_message_def message_options_def apply_options_def message_ids_def)

lemma take_carry_None: "take_carry k ms = None \<longleftrightarrow> k \<notin> sm_id ` set ms"
  by (induction ms) (auto split: option.split)

lemma take_carry_Some:
  "take_carry k ms = Some (p, rest) \<Longrightarrow> sm_id p = k \<and> (\<exists>a b. ms = a @ p # b \<and> rest = a @ b)"
proof (induction ms arbitrary: rest)
  case (Cons m ms)
  show ?case
  proof (cases "sm_id m = k")
    case True
    then show ?thesis using Cons.prems by (auto intro: exI[of _ "[]"])
  next
    case False
    then obtain r where r: "take_carry k ms = Some (p, r)" "rest = m # r" using Cons.prems by (auto split: option.splits)
    from Cons.IH[OF r(1)] obtain a b where "sm_id p = k" "ms = a @ p # b" "r = a @ b" by blast
    then have "m # ms = (m # a) @ p # b" "rest = (m # a) @ b" using r(2) by simp_all
    then show ?thesis using \<open>sm_id p = k\<close> by blast
  qed
qed simp

lemma duplicate_pending: "list_ex (is_duplicate k) (sb_queue s) \<or> k \<in> sm_id ` set (sb_carry s) \<longleftrightarrow> k \<in> set (pending_ids s)"
  by (auto simp: pending_ids_def message_ids_def is_duplicate_def list_ex_iff)

text \<open>How a pass of Send ends.\<close>

lemma Send_cases:
  assumes "standby_Send st ctxErr closed k t opts s = (r, s')"
  obtains (unchanged) "s' = s" "\<not> (\<exists>n. r = SendForward n)" "r \<noteq> SendNil"
  | (forwarded) "r = SendForward (sb_number s)" "s' = s" "k \<notin> set (pending_ids s)" "sb_current s \<noteq> None" "\<not> sb_cancelled s" "\<not> execution_options opts"
  | (duplicate) "r = SendNil" "s' = accept k s" "k \<in> set (pending_ids s)"
  | (revived) p rest where "r = SendNil" "take_carry k (sb_carry s) = Some (p, rest)" "sb_current s = None" "sb_queue s = []"
      "s' = accept k (standby_notify (s\<lparr>sb_carry := rest, sb_queue := [p]\<rparr>))"
  | (started) "r = SendNil" "s' = accept k (startExecutionLocked st (new_message k t opts) s)" "sb_current s = None" "k \<notin> set (pending_ids s)"
  | (queued) "r = SendNil" "s' = accept k (standby_notify (s\<lparr>sb_queue := sb_queue s @ [new_message k t opts]\<rparr>))"
      "k \<notin> set (pending_ids s)" "sb_current s \<noteq> None \<and> \<not> sb_cancelled s \<longrightarrow> execution_options opts"
proof (cases "ctxErr \<noteq> None \<or> closed \<or> sb_ctxErr s \<noteq> None")
  case True
  then show thesis using assms by (intro unchanged) (auto simp: standby_Send_def Let_def split: option.splits if_splits)
next
  case live: False
  show thesis
  proof (cases "list_ex (is_duplicate k) (sb_queue s)")
    case True
    then show thesis using assms live duplicate_pending[of k s] by (intro duplicate) (simp_all add: standby_Send_def)
  next
    case nodup: False
    show thesis
    proof (cases "take_carry k (sb_carry s)")
      case (Some pr)
      obtain p rest where pr: "pr = (p, rest)" by fastforce
      have "k \<in> set (pending_ids s)" using Some duplicate_pending[of k s] take_carry_None[of k "sb_carry s"] by auto
      then show thesis using assms live nodup Some pr
        by (cases "sb_current s = None \<and> sb_queue s = []") (auto simp: standby_Send_def intro: duplicate revived)
    next
      case None
      then have k: "k \<notin> set (pending_ids s)" using nodup duplicate_pending[of k s] take_carry_None[of k "sb_carry s"] by auto
      show thesis
      proof (cases "sb_current s \<noteq> None \<and> \<not> sb_cancelled s \<and> \<not> execution_options opts")
        case True
        then show thesis using assms live nodup None k by (intro forwarded) (auto simp: standby_Send_def)
      next
        case False
        then show thesis using assms live nodup None k
          by (cases "sb_current s = None \<and> sb_queue s = [] \<and> sb_carry s \<noteq> []"; cases "pendingLocked s < sb_maxPending s")
            (auto simp: standby_Send_def intro: started queued unchanged)
      qed
    qed
  qed
qed

lemma append_queue:
  fixes s' :: standbyStream
  assumes "queues_ok used s" "forwards_ok used fwd s" "current_ok used fwd s" "k \<notin> set (pending_ids s)" "k \<noteq> ''''"
    "sb_current s \<noteq> None \<and> \<not> sb_cancelled s \<longrightarrow> k \<notin> used"
    and s'_def: "s' = s\<lparr>sb_queue := sb_queue s @ [new_message k t opts]\<rparr>"
  shows "queues_ok (insert k used) s'" "forwards_ok (insert k used) fwd s'" "current_ok (insert k used) fwd s'"
    "k' = k \<or> accounted s k' \<Longrightarrow> accounted s' k'"
proof -
  have p: "set (pending_ids s') = insert k (set (pending_ids s))" by (auto simp: s'_def pending_ids_def new_message_ok)
  have "distinct (pending_ids s')" using assms(1,4) by (auto simp: queues_ok_def pending_ids_def s'_def new_message_ok)
  then show "queues_ok (insert k used) s'" using assms(1,5) new_message_ok(1)[OF assms(5), of t opts]
    unfolding queues_ok_def p by (auto simp: s'_def)
  show "forwards_ok (insert k used) fwd s'" using assms(2) by (auto simp: forwards_ok_def s'_def)
  show "current_ok (insert k used) fwd s'"
  proof (cases "sb_current s")
    case (Some h)
    have "k \<notin> live_ids h" "(n, k) \<notin> fwd" if "\<not> sb_cancelled s" for n
      using assms(2,3,6) Some that by (auto simp: current_ok_def forwards_ok_def)
    then show ?thesis using assms(3) Some unfolding current_ok_def p by (auto simp: s'_def)
  qed (simp add: current_ok_def s'_def)
  show "accounted s' k'" if "k' = k \<or> accounted s k'" using that unfolding accounted_def p by (auto simp: s'_def)
qed

lemma revive_carry:
  assumes "queues_ok used s" "take_carry k (sb_carry s) = Some (p, rest)" "sb_current s = None" "sb_queue s = []"
    and s'_def: "s' = s\<lparr>sb_carry := rest, sb_queue := [p]\<rparr>"
  shows "queues_ok used s'" "set (pending_ids s') = set (pending_ids s)" "sm_id p = k"
proof -
  from take_carry_Some[OF assms(2)] obtain a b where ab: "sm_id p = k" "sb_carry s = a @ p # b" "rest = a @ b" by blast
  have c: "sm_carried p = []" using assms(1) ab(2) by (simp add: queues_ok_def)
  show "set (pending_ids s') = set (pending_ids s)" using assms(4) ab c by (auto simp: s'_def pending_ids_def message_ids_def)
  show "queues_ok used s'" using assms(1,4) ab c by (auto simp: queues_ok_def s'_def pending_ids_def message_ids_def)
  show "sm_id p = k" by (rule ab(1))
qed

lemma send_keeps:
  assumes "standby_ok y" "k \<noteq> ''''" "execution_options opts \<longrightarrow> k \<notin> set (sy_used y)"
  shows "standby_ok (after_send k (standby_Send st ctxErr closed k t opts (sy_stream y)) y)"
proof -
  let ?s = "sy_stream y" and ?u = "set (sy_used y)" and ?f = "set (sy_forwards y)"
  have ok: "queues_ok ?u ?s" "current_ok ?u ?f ?s" "forwards_ok ?u ?f ?s" "list_all (accounted ?s) (sb_accepted ?s)"
    using assms(1) by (simp_all add: standby_ok_def)
  note mono = used_mono(1)[OF ok(1) subset_insertI[of ?u k]] used_mono(2)[OF ok(2) subset_insertI[of ?u k]]
    used_mono(3)[OF ok(3) subset_insertI[of ?u k]]
  obtain r s' where r: "standby_Send st ctxErr closed k t opts ?s = (r, s')" by fastforce
  from r show ?thesis
  proof (cases rule: Send_cases)
    case unchanged
    then show ?thesis using assms(1) r by (cases r) (simp_all add: after_send_def)
  next
    case forwarded
    have "current_ok (insert k ?u) (insert (sb_number ?s, k) ?f) ?s"
      using mono(2) forwarded(3) by (auto simp: current_ok_def split: option.splits)
    moreover have "forwards_ok (insert k ?u) (insert (sb_number ?s, k) ?f) ?s" using mono(3) assms(2) by (auto simp: forwards_ok_def)
    ultimately show ?thesis using forwarded r mono(1) ok(4) by (auto simp: after_send_def standby_ok_def)
  next
    case duplicate
    then have "accounted ?s k" by (simp add: accounted_def)
    then show ?thesis using duplicate r mono ok(4) by (auto simp: after_send_def standby_ok_def)
  next
    case (revived p rest)
    note rc = revive_carry[OF ok(1) revived(2-4) refl]
    let ?s1 = "?s\<lparr>sb_carry := rest, sb_queue := [p]\<rparr>"
    have "accounted ?s k' \<Longrightarrow> accounted ?s1 k'" for k' unfolding accounted_def rc(2) using revived(3) by auto
    moreover have "accounted ?s1 k" using rc(3) by (simp add: accounted_def pending_ids_def message_ids_def)
    moreover have "current_ok (insert k ?u) ?f ?s1" using revived(3) by (simp add: current_ok_def)
    moreover have "forwards_ok (insert k ?u) ?f ?s1" using mono(3) by (auto simp: forwards_ok_def)
    ultimately show ?thesis using revived r used_mono(1)[OF rc(1) subset_insertI[of ?u k]] ok(4)
      by (auto simp: after_send_def standby_ok_def list_all_iff)
  next
    case started
    have d: "distinct (message_ids (new_message k t opts) @ pending_ids ?s)" "'''' \<notin> set (message_ids (new_message k t opts) @ pending_ids ?s)"
      using started(4) ok(1) assms(2) by (simp_all add: new_message_ok queues_ok_def)
    have u: "set (message_ids (new_message k t opts)) \<subseteq> insert k ?u" by (simp add: new_message_ok)
    have q: "queues_ok (insert k ?u) ?s" "forwards_ok (insert k ?u) ?f ?s" using mono by simp_all
    note st = start_execution[OF d new_message_ok(1)[OF assms(2)] u q started(3), where st = st]
    have "list_all (accounted (startExecutionLocked st (new_message k t opts) ?s)) (k # sb_accepted ?s)"
      using st(5) ok(4) by (auto simp: list_all_iff new_message_ok)
    then show ?thesis using started(1,2) r st(1-4) by (simp add: after_send_def standby_ok_def)
  next
    case queued
    have n: "sb_current ?s \<noteq> None \<and> \<not> sb_cancelled ?s \<longrightarrow> k \<notin> ?u" using queued(4) assms(3) by blast
    note q = append_queue[OF ok(1,3,2) queued(3) assms(2) n refl, where t = t and opts = opts]
    have "list_all (accounted (?s\<lparr>sb_queue := sb_queue ?s @ [new_message k t opts]\<rparr>)) (k # sb_accepted ?s)"
      using q(4) ok(4) by (auto simp: list_all_iff)
    then show ?thesis using queued(1,2) r q(1-3) by (simp add: after_send_def standby_ok_def)
  qed
qed

lemma hub_work:
  assumes "current_ok used fwd s" "sb_current s = Some h" "hub_step h h'" "no_new h h'"
  shows "current_ok used fwd (s\<lparr>sb_current := Some h'\<rparr>)" "set (item_ids h) \<subseteq> set (item_ids h')"
proof -
  have r: "hub_reachable h" using assms(1,2) by (simp add: current_ok_def)
  have "extends h h'" using hub_reachable_inv[OF r] step_moves[OF assms(3)] moves_extends by blast
  moreover have "hub_inv h'" using hub_reachable_inv hub_reachable.step[OF r assms(3)] by blast
  ultimately have "live_ids h' \<subseteq> live_ids h" using live_shrinks assms(4) by blast
  then show "current_ok used fwd (s\<lparr>sb_current := Some h'\<rparr>)" "set (item_ids h) \<subseteq> set (item_ids h')"
    using hub_advance[OF assms(1-3)] by blast+
qed

lemma work_keeps:
  "\<lbrakk>standby_ok y; sb_current (sy_stream y) = Some h; hub_step h h'; no_new h h'\<rbrakk>
   \<Longrightarrow> standby_ok (with_stream ((sy_stream y)\<lparr>sb_current := Some h'\<rparr>) y)"
  by (rule current_moves) (auto simp: standby_ok_def intro: hub_work(1) dest: hub_work(2))

lemma sent_is_item:
  assumes "hub_inv h" "fst (send_attempt ctx lifetime m t framed h) = SendReturned None" "\<forall>i. hub_wrapUp h = Some i \<longrightarrow> item_id h i \<noteq> ms_id m"
  shows "ms_id m \<in> set (item_ids (snd (send_attempt ctx lifetime m t framed h)))"
proof (cases "by_id h (ms_id m)")
  case None
  have "ms_id m \<in> set (item_ids (admit_message lifetime m t framed h))" "ms_id m \<in> set (item_ids (admit_deduped ctx m t h))"
    by (simp_all add: item_ids_def admit_message_def admit_deduped_def Let_def updateLocked_def signalLocked_def hub_push_def upd_item_def
        upd_out_def register_def new_item_def new_outcome_def)
  then show ?thesis using assms(2) None by (auto simp: send_attempt_def send_reject_def split: option.splits if_splits)
next
  case (Some i)
  have i: "ids_ok h" using assms(1) by (simp add: hub_inv_def)
  note k = ids_okD[OF i, of "ms_id m" i]
  have "i \<in> set (hub_items h)" "item_id h i = ms_id m" using k assms(3) Some by_id_iff[OF i] by blast+
  then have "ms_id m \<in> set (item_ids h)" unfolding item_ids_def set_map by (metis imageI)
  moreover have "snd (send_attempt ctx lifetime m t framed h) = h" using Some by (simp add: send_attempt_def split: option.split prod.split)
  ultimately show ?thesis by simp
qed

lemma forward_keeps:
  assumes "standby_ok y" "(sb_number (sy_stream y), ms_id m) \<in> set (sy_forwards y)" "sb_current (sy_stream y) = Some h"
    "\<forall>i. hub_wrapUp h = Some i \<longrightarrow> item_id h i \<noteq> ms_id m"
  shows "standby_ok (with_stream (standby_forward (ms_id m) (send_attempt ctx lifetime m t framed h) (sy_stream y)) y)"
proof -
  let ?r = "send_attempt ctx lifetime m t framed h"
  let ?s = "sy_stream y"
  have c: "current_ok (set (sy_used y)) (set (sy_forwards y)) ?s" using assms(1) by (simp add: standby_ok_def)
  have k: "ms_id m \<noteq> ''''" "ms_id m \<in> set (sy_used y)" "\<not> sb_cancelled ?s \<longrightarrow> ms_id m \<notin> set (pending_ids ?s)"
    using assms by (auto simp: standby_ok_def forwards_ok_def current_ok_def)
  note a = hub_advance[OF c assms(3) hub_step.send, where k = "ms_id m", OF disjI2, OF conjI, OF send_live]
  have "standby_ok (with_stream ((sy_stream y)\<lparr>sb_current := Some (snd ?r)\<rparr>) y)" using current_moves[OF assms(1,3)] a k by blast
  moreover have "accounted (?s\<lparr>sb_current := Some (snd ?r)\<rparr>) (ms_id m)" if "fst ?r = SendReturned None"
    using sent_is_item[OF _ that assms(4)] c assms(3) hub_reachable_inv by (auto simp: current_ok_def accounted_def)
  ultimately show ?thesis by (simp add: standby_forward_def standby_ok_def Let_def)
qed

text \<open>Cancellation: the hub keeps its messages, and every pending message is reported as failed.\<close>

lemma cancel_current_keeps:
  assumes "current_ok used fwd s"
  shows "current_ok used fwd (cancel_current s)" "accounted s k \<Longrightarrow> accounted (cancel_current s) k"
proof -
  have p: "pending_ids (cancel_current s) = pending_ids s" by (simp add: pending_ids_def cancel_current_def)
  have "current_ok used fwd (cancel_current s) \<and> (accounted s k \<longrightarrow> accounted (cancel_current s) k)"
  proof (cases "sb_current s")
    case None
    then show ?thesis by (auto simp: current_ok_def accounted_def p) (simp_all add: cancel_current_def)
  next
    case (Some h)
    define h1 where "h1 = (if hub_ctxErr h 0 = None then h\<lparr>hub_ctxErr := (hub_ctxErr h)(0 := Some Canceled)\<rparr> else h)"
    have "current_ok used fwd (s\<lparr>sb_current := Some h1\<rparr>) \<and> set (item_ids h) \<subseteq> set (item_ids h1)"
    proof (cases "hub_ctxErr h 0 = None")
      case True
      have "no_new h h1" using True by (simp add: no_new_same h1_def)
      then show ?thesis using hub_work[OF assms Some, of h1] hub_step.ctx_end[OF True, of Canceled] True by (simp add: h1_def)
    next
      case False
      then have "h1 = h" unfolding h1_def by (simp only: if_False)
      moreover have "s\<lparr>sb_current := Some h\<rparr> = s" using Some by simp
      ultimately show ?thesis using assms by simp
    qed
    then have 1: "current_ok used fwd (s\<lparr>sb_current := Some h1\<rparr>)" "set (item_ids h) \<subseteq> set (item_ids h1)" by simp_all
    have e: "sb_current (s\<lparr>sb_current := Some h1\<rparr>) = Some h1" "no_new h1 (cancelPending h1)" by (simp_all add: no_new_same op_items)
    note 2 = hub_work[OF 1(1) e(1) hub_step.cancel e(2)]
    have c: "cancel_hub h = cancelPending h1" by (simp add: cancel_hub_def h1_def)
    have "current_ok used fwd (cancel_current s)" using 2(1) Some by (simp add: current_ok_def cancel_current_def c)
    moreover have "set (item_ids h) \<subseteq> set (item_ids (cancel_hub h))" using 1(2) 2(2) c by simp
    then have "accounted s k \<longrightarrow> accounted (cancel_current s) k"
      unfolding accounted_def p using Some by (auto simp: cancel_current_def)
    ultimately show ?thesis by simp
  qed
  then show "current_ok used fwd (cancel_current s)" "accounted s k \<Longrightarrow> accounted (cancel_current s) k" by simp_all
qed

lemma fail_each_ids: "failed_id ` set (fail_each failed kts) = Some ` (fst ` set kts - set failed)"
  by (induction failed kts rule: fail_each.induct) (auto simp: failed_update_def)

lemma entries_ids: "map fst (message_entries m) = message_ids m"
  by (simp add: message_entries_def message_ids_def)

lemma failQueued_keeps:
  assumes "queues_ok used s" "current_ok used fwd s" "forwards_ok used fwd s"
  shows "queues_ok used (failQueuedLocked s)" "current_ok used fwd (failQueuedLocked s)" "forwards_ok used fwd (failQueuedLocked s)"
    "sb_accepted (failQueuedLocked s) = sb_accepted s" "accounted s k \<Longrightarrow> accounted (failQueuedLocked s) k"
proof -
  let ?s = "failQueuedLocked s"
  have f: "pending_ids ?s = []" by (simp add: failQueuedLocked_def pending_ids_def)
  show "queues_ok used ?s" by (simp add: queues_ok_def f) (simp add: failQueuedLocked_def)
  show "current_ok used fwd ?s" using assms(2) unfolding current_ok_def f by (simp add: failQueuedLocked_def split: option.splits)
  show "forwards_ok used fwd ?s" using assms(3) by (simp add: forwards_ok_def failQueuedLocked_def)
  show "sb_accepted ?s = sb_accepted s" by (simp add: failQueuedLocked_def)
  have c: "\<And>ms. fst ` set (concat (map message_entries ms)) = set (concat (map message_ids ms))"
    by (simp add: image_UN flip: entries_ids)
  have "fst ` set (concat (map message_entries (sb_carry s @ sb_queue s))) = set (concat (map message_ids (sb_carry s @ sb_queue s)))" by (rule c)
  then have "set (pending_ids s) \<subseteq> fst ` set (concat (map message_entries (sb_carry s @ sb_queue s)))"
    by (auto simp: pending_ids_def message_ids_def)
  then have "Some ` set (pending_ids s) \<subseteq> failed_id ` set (fail_each [] (concat (map message_entries (sb_carry s @ sb_queue s))))"
    unfolding fail_each_ids set_simps(1) Diff_empty by (rule image_mono)
  then have "Some ` set (pending_ids s) \<subseteq> failed_id ` set (sb_published ?s)" by (auto simp: failQueuedLocked_def)
  moreover have "failed_id ` set (sb_published s) \<subseteq> failed_id ` set (sb_published ?s)" by (auto simp: failQueuedLocked_def)
  ultimately show "accounted s k \<Longrightarrow> accounted ?s k" unfolding accounted_def f
    by (auto simp: failQueuedLocked_def)
qed

lemma cancel_keeps: "standby_ok y \<Longrightarrow> standby_ok (with_stream (standby_Cancel (sy_stream y)) y)"
proof -
  assume y: "standby_ok y"
  let ?u = "set (sy_used y)" and ?f = "set (sy_forwards y)" and ?s = "cancel_current (sy_stream y)"
  have ok: "queues_ok ?u (sy_stream y)" "current_ok ?u ?f (sy_stream y)" "forwards_ok ?u ?f (sy_stream y)"
    "list_all (accounted (sy_stream y)) (sb_accepted (sy_stream y))" using y by (simp_all add: standby_ok_def)
  have c: "queues_ok ?u ?s" "forwards_ok ?u ?f ?s" "sb_accepted ?s = sb_accepted (sy_stream y)"
    using ok(1,3) by (simp_all add: queues_ok_def forwards_ok_def pending_ids_def cancel_current_def)
  note q = failQueued_keeps[OF c(1) cancel_current_keeps(1)[OF ok(2)] c(2)]
  have "list_all (accounted (failQueuedLocked ?s)) (sb_accepted (sy_stream y))"
    using ok(4) q(5) cancel_current_keeps(2)[OF ok(2)] by (auto simp: list_all_iff)
  then show ?thesis using q(1-4) c(3) by (simp add: standby_ok_def standby_Cancel_def)
qed

lemma cancelled_round_keeps: "standby_ok y \<Longrightarrow> standby_ok (with_stream (cancel_current (sy_stream y)) y)"
  using cancel_current_keeps
  by (auto simp: standby_ok_def queues_ok_def forwards_ok_def pending_ids_def cancel_current_def list_all_iff)

lemma failing_round_keeps: "standby_ok y \<Longrightarrow> standby_ok (with_stream (standby_notify (failQueuedLocked (sy_stream y))) y)"
  using failQueued_keeps by (auto simp: standby_ok_def list_all_iff)

lemma starting_round_keeps:
  assumes "standby_ok y" "sb_current (sy_stream y) = None" "sb_queue (sy_stream y) = m # rest"
  shows "standby_ok (with_stream (startExecutionLocked st m ((sy_stream y)\<lparr>sb_queue := rest\<rparr>)) y)"
proof -
  let ?s = "sy_stream y" and ?s1 = "(sy_stream y)\<lparr>sb_queue := rest\<rparr>" and ?u = "set (sy_used y)" and ?f = "set (sy_forwards y)"
  have ok: "queues_ok ?u ?s" "forwards_ok ?u ?f ?s" "list_all (accounted ?s) (sb_accepted ?s)" using assms(1) by (simp_all add: standby_ok_def)
  have p: "pending_ids ?s = message_ids m @ pending_ids ?s1" using assms(3) by (simp add: pending_ids_def)
  have d: "distinct (message_ids m @ pending_ids ?s1)" "'''' \<notin> set (message_ids m @ pending_ids ?s1)" "msg_ok m" "set (message_ids m) \<subseteq> ?u"
    using ok(1) p assms(3) by (auto simp: queues_ok_def)
  have q: "queues_ok ?u ?s1" "forwards_ok ?u ?f ?s1" using ok(1,2) p assms(3) by (auto simp: queues_ok_def forwards_ok_def)
  have n: "sb_current ?s1 = None" using assms(2) by simp
  note st = start_execution[OF d q n, where st = st]
  have "accounted ?s k \<Longrightarrow> k \<in> set (message_ids m) \<or> accounted ?s1 k" for k unfolding accounted_def p by auto
  then show ?thesis using st ok(3) by (auto simp: standby_ok_def list_all_iff)
qed

lemma round_keeps: "standby_ok y \<Longrightarrow> standby_ok (with_stream (snd (run_round st now (sy_stream y))) y)"
proof (cases "sb_ctxErr (sy_stream y)")
  case None
  assume y: "standby_ok y"
  then show ?thesis using None starting_round_keeps by (auto simp: run_round_def split: list.split)
next
  case (Some e)
  assume y: "standby_ok y"
  then show ?thesis using Some cancelled_round_keeps failing_round_keeps by (auto simp: run_round_def)
qed

lemma event_keeps: "standby_ok y \<Longrightarrow> standby_ok (with_stream (forward_event ev taken (sy_stream y)) y)"
proof (cases taken)
  case True
  let ?s = "sy_stream y" and ?s' = "(sy_stream y)\<lparr>sb_published := sb_published (sy_stream y) @ [ev]\<rparr>"
  have p: "pending_ids ?s' = pending_ids ?s" by (simp add: pending_ids_def)
  have "accounted ?s k \<Longrightarrow> accounted ?s' k" for k unfolding accounted_def p by auto
  moreover have "queues_ok u ?s' = queues_ok u ?s" "current_ok u f ?s' = current_ok u f ?s" "forwards_ok u f ?s' = forwards_ok u f ?s" for u f
    by (simp_all add: queues_ok_def current_ok_def forwards_ok_def p split: option.split)
  moreover assume "standby_ok y"
  ultimately show ?thesis using True by (auto simp: standby_ok_def forward_event_def list_all_iff)
qed (simp add: forward_event_def)

lemma ends_keeps: "standby_ok y \<Longrightarrow> standby_ok (with_stream ((sy_stream y)\<lparr>sb_ctxErr := Some e\<rparr>) y)"
proof -
  let ?s = "sy_stream y" and ?s' = "(sy_stream y)\<lparr>sb_ctxErr := Some e\<rparr>"
  have p: "pending_ids ?s' = pending_ids ?s" by (simp add: pending_ids_def)
  have "accounted ?s' = accounted ?s" unfolding accounted_def fun_eq_iff p by simp
  moreover have "queues_ok u ?s' = queues_ok u ?s" "current_ok u f ?s' = current_ok u f ?s" "forwards_ok u f ?s' = forwards_ok u f ?s" for u f
    by (simp_all add: queues_ok_def current_ok_def forwards_ok_def p split: option.split)
  moreover assume "standby_ok y"
  ultimately show ?thesis by (simp add: standby_ok_def)
qed

text \<open>The end of an execution: failed messages wait again, under the IDs they had.\<close>

lemma apply_none: "list_all (\<lambda>opt. opt = None) os \<Longrightarrow> foldl (\<lambda>s opt. case opt of None \<Rightarrow> s | Some o' \<Rightarrow> ApplyRun o' s) m os = m"
  by (induction os) auto

lemma again_ok:
  assumes "msg_ok cm" "Out_ID out \<noteq> ''''"
  shows "msg_ok (again_message cm out)" "sm_id (again_message cm out) = Out_ID out" "sm_carried (again_message cm out) = []"
proof -
  let ?rest = "filter (\<lambda>opt. case opt of Some (MsgOption _) \<Rightarrow> False | _ \<Rightarrow> True) (sm_opts cm)"
  have "list_all (\<lambda>opt. opt = None) (message_options ?rest)"
    by (auto simp: list_all_iff message_options_def split: option.splits CallOption.splits)
  from apply_none[OF this] have "ms_id (apply_options (message_options (map (Some \<circ> MsgOption) [OptMessageID (Out_ID out), OptFrom (Out_From out),
      OptWhen (Out_Timing out)] @ ?rest))) = Out_ID out"
    by (simp add: apply_options_def message_options_def)
  then show "msg_ok (again_message cm out)" using assms by (simp add: msg_ok_def again_message_def)
  show "sm_id (again_message cm out) = Out_ID out" "sm_carried (again_message cm out) = []" by (simp_all add: again_message_def)
qed

lemma filter_key: "\<lbrakk>distinct (map f xs); x \<in> set xs\<rbrakk> \<Longrightarrow> filter (\<lambda>y. f y = f x) xs = [x]"
proof (induction xs)
  case (Cons a xs)
  show ?case
  proof (cases "x = a")
    case True
    then have "y \<in> set xs \<Longrightarrow> f y \<noteq> f x" for y using Cons.prems(1) by (metis distinct.simps(2) image_eqI list.map(2) list.set_map)
    then have "filter (\<lambda>y. f y = f x) xs = []" by (simp add: filter_empty_conv)
    then show ?thesis using True by simp
  next
    case False
    then have "x \<in> set xs" "f a \<noteq> f x" using Cons.prems by auto
    then show ?thesis using Cons by simp
  qed
qed simp

text \<open>The retried message carries the other failed messages of its execution, once each.\<close>

lemma retry_carries:
  assumes "distinct (map Out_ID outs)" "set fails \<subseteq> set outs"
  shows "sm_carried (retry_first ready outs p (map (again_message cm) fails)) = fails"
  using assms(2)
proof (induction fails)
  case (Cons out fails)
  then show ?case using filter_key[OF assms(1), of out] by (simp add: retry_first_def again_message_def comp_def)
qed (simp add: retry_first_def)

lemma failed_live:
  assumes "out \<in> set (outcomes h)" "run_failed out"
  shows "Out_ID out \<in> live_ids h"
  using assms by (auto simp: outcomes_def live_ids_def run_failed_def)

text \<open>\<open>waiting fails s s'\<close>: the failed messages have been added to the queue or the carry list.\<close>

definition waiting :: "MessageOutcome list \<Rightarrow> standbyStream \<Rightarrow> standbyStream \<Rightarrow> bool" where
  "waiting fails s s' \<longleftrightarrow> list_all msg_ok (sb_queue s' @ sb_carry s') \<and> list_all (\<lambda>m. sm_carried m = []) (sb_carry s')
     \<and> set (pending_ids s') = Out_ID ` set fails \<union> set (pending_ids s) \<and> distinct (pending_ids s')"

lemma waiting_retry:
  assumes "queues_ok used s" "distinct (map Out_ID outs)" "msg_ok cm" "fails = filter run_failed outs" "fails = out # rest"
    "'''' \<notin> Out_ID ` set fails" "Out_ID ` set fails \<inter> set (pending_ids s) = {}"
  shows "waiting fails s (s\<lparr>sb_queue := retry_first ready outs (again_message cm out) (map (again_message cm) rest) # sb_queue s\<rparr>)"
proof -
  let ?m = "retry_first ready outs (again_message cm out) (map (again_message cm) rest)"
  have "set rest \<subseteq> set outs" using assms(4,5) by (metis filter_is_subset set_subset_Cons subset_trans)
  note c = retry_carries[OF assms(2) this]
  have o: "Out_ID out \<noteq> ''''" using assms(5,6) by auto
  have "message_ids ?m = map Out_ID fails" using c assms(5) by (simp add: message_ids_def retry_first_def again_message_def)
  moreover have "msg_ok ?m" using again_ok(1)[OF assms(3) o] by (simp add: msg_ok_def retry_first_def)
  moreover have "distinct (map Out_ID fails)" unfolding assms(4) using assms(2) by (rule distinct_map_filter)
  ultimately show ?thesis using assms(1,7) by (auto simp: waiting_def queues_ok_def pending_ids_def)
qed

lemma waiting_carry:
  assumes "queues_ok used s" "distinct (map Out_ID outs)" "msg_ok cm" "fails = filter run_failed outs"
    "'''' \<notin> Out_ID ` set fails" "Out_ID ` set fails \<inter> set (pending_ids s) = {}"
  shows "waiting fails s (s\<lparr>sb_carry := sb_carry s @ map (again_message cm) fails\<rparr>)"
proof -
  have "Out_ID out \<noteq> ''''" if "out \<in> set fails" for out using imageI[OF that, of Out_ID] assms(5) by (intro notI) (simp only:)
  then have "list_all msg_ok (map (again_message cm) fails)" using again_ok(1)[OF assms(3)] by (simp add: list_all_iff)
  moreover have "list_all (\<lambda>m. sm_carried m = []) (map (again_message cm) fails)" by (simp add: again_message_def list_all_iff)
  moreover have "pending_ids (s\<lparr>sb_carry := sb_carry s @ map (again_message cm) fails\<rparr>) = pending_ids s @ map Out_ID fails"
    by (simp add: pending_ids_def again_message_def)
  moreover have "distinct (map Out_ID fails)" unfolding assms(4) using assms(2) by (rule distinct_map_filter)
  ultimately show ?thesis using assms(1,6) by (auto simp: waiting_def queues_ok_def)
qed

text \<open>What an execution does not settle waits again.\<close>

lemma requeue_waits:
  assumes "queues_ok used s" "distinct (map Out_ID outs)" "msg_ok cm" "'''' \<notin> Out_ID ` set (filter run_failed outs)"
    "Out_ID ` set (filter run_failed outs) \<inter> set (pending_ids s) = {}"
  shows "waiting (filter run_failed outs) s (requeue_failed now e outs cm s)"
proof (cases "filter run_failed outs")
  case Nil
  then show ?thesis using assms(1) by (simp add: waiting_def queues_ok_def requeue_failed_def split: prod.split)
next
  case (Cons out rest)
  obtain d b where d: "standbyRetryDelay e = (d, b)" by fastforce
  show ?thesis
    using waiting_retry[OF assms(1-3) refl Cons assms(4,5), of "now + d"] waiting_carry[OF assms(1-3) refl assms(4,5)] Cons d
    by (simp add: requeue_failed_def)
qed

lemma requeue_fields: "sb_published (requeue_failed now e outs cm s) = sb_published s" "sb_accepted (requeue_failed now e outs cm s) = sb_accepted s"
  "sb_number (requeue_failed now e outs cm s) = sb_number s"
  by (simp_all add: requeue_failed_def Let_def split: prod.split list.split)

lemma completion_waits:
  assumes "standby_ok y" "sb_current (sy_stream y) = Some h"
  obtains s1 fails final where "completeExecution now err (sy_stream y) = standby_notify (s1\<lparr>sb_processing := False, sb_current := None,
      sb_currentMessage := None, sb_history := sb_history (sy_stream y) @ map (Pair final) (outcomes h)\<rparr>)"
    "waiting fails (sy_stream y) s1" "Out_ID ` set fails \<subseteq> live_ids h" "final \<or> fails = filter run_failed (outcomes h)" "sb_published s1 = sb_published (sy_stream y)"
    "sb_accepted s1 = sb_accepted (sy_stream y)" "sb_number s1 = sb_number (sy_stream y)"
proof -
  let ?s = "sy_stream y" and ?fails = "filter run_failed (outcomes h)"
  have q: "queues_ok (set (sy_used y)) ?s" and cur: "current_ok (set (sy_used y)) (set (sy_forwards y)) ?s"
    using assms(1) by (simp_all add: standby_ok_def)
  obtain cm where cm: "sb_currentMessage ?s = Some cm" "msg_ok cm" using cur assms(2) by (auto simp: current_ok_def)
  let ?final = "err = None \<or> sb_cancelled ?s \<or> sb_ctxErr ?s \<noteq> None"
  show thesis
  proof (cases "err \<noteq> None \<and> \<not> sb_cancelled ?s \<and> sb_ctxErr ?s = None")
    case True
    then obtain e where e: "err = Some e" by auto
    have d: "distinct (map Out_ID (outcomes h))"
      unfolding outcomes_ids using cur assms(2) hub_reachable_inv distinct_ids by (auto simp: current_ok_def)
    have l: "Out_ID ` set ?fails \<subseteq> live_ids h" using failed_live by auto
    have n: "'''' \<notin> Out_ID ` set ?fails" "Out_ID ` set ?fails \<inter> set (pending_ids ?s) = {}"
      using l cur assms(2) True unfolding current_ok_def by auto
    show thesis using requeue_waits[OF q d cm(2) n] l requeue_fields e True cm(1) assms(2)
      by (intro that[of ?final "requeue_failed now e (outcomes h) cm ?s" ?fails]) (simp_all add: completeExecution_def)
  next
    case False
    moreover have "waiting [] ?s ?s" using q by (simp add: waiting_def queues_ok_def)
    ultimately show thesis using cm(1) assms(2)
      by (intro that[of ?final ?s "[]"]) (auto simp: completeExecution_def split: option.split)
  qed
qed

lemma complete_keeps:
  assumes "standby_ok y" "sb_current (sy_stream y) = Some h" "hub_finished h"
  shows "standby_ok (with_stream (completeExecution now err (sy_stream y)) y)"
proof -
  let ?s = "sy_stream y"
  have ok: "queues_ok (set (sy_used y)) ?s" "current_ok (set (sy_used y)) (set (sy_forwards y)) ?s" "forwards_ok (set (sy_used y)) (set (sy_forwards y)) ?s"
    "list_all (accounted ?s) (sb_accepted ?s)" using assms(1) by (simp_all add: standby_ok_def)
  obtain s1 fails final where s1: "completeExecution now err ?s = standby_notify (s1\<lparr>sb_processing := False, sb_current := None,
      sb_currentMessage := None, sb_history := sb_history ?s @ map (Pair final) (outcomes h)\<rparr>)"
    "waiting fails ?s s1" "Out_ID ` set fails \<subseteq> live_ids h" "final \<or> fails = filter run_failed (outcomes h)" "sb_published s1 = sb_published ?s" "sb_accepted s1 = sb_accepted ?s"
    "sb_number s1 = sb_number ?s"
    by (rule completion_waits[OF assms(1,2)])
  let ?s' = "s1\<lparr>sb_processing := False, sb_current := None, sb_currentMessage := None, sb_history := sb_history ?s @ map (Pair final) (outcomes h)\<rparr>"
  have p: "pending_ids ?s' = pending_ids s1" by (simp add: pending_ids_def)
  have w: "list_all msg_ok (sb_queue s1 @ sb_carry s1)" "list_all (\<lambda>m. sm_carried m = []) (sb_carry s1)" "distinct (pending_ids s1)"
    "set (pending_ids s1) = Out_ID ` set fails \<union> set (pending_ids ?s)" using s1(2) by (simp_all add: waiting_def)
  have l: "'''' \<notin> live_ids h" "live_ids h \<subseteq> set (sy_used y)" using ok(2) assms(2) by (simp_all add: current_ok_def)
  have "queues_ok (set (sy_used y)) ?s'" unfolding queues_ok_def p using w(1-3) l s1(3) ok(1) unfolding w(4) queues_ok_def by auto
  moreover have "current_ok (set (sy_used y)) (set (sy_forwards y)) ?s'" by (simp add: current_ok_def)
  moreover have "forwards_ok (set (sy_used y)) (set (sy_forwards y)) ?s'" using ok(3) s1(7) by (simp add: forwards_ok_def)
  moreover have "settled_in (map (Pair final) (outcomes h)) k \<or> k \<in> Out_ID ` set fails" if "k \<in> set (item_ids h)" for k
  proof -
    obtain out where out: "out \<in> set (outcomes h)" "k = Out_ID out" using \<open>k \<in> set (item_ids h)\<close> unfolding outcomes_ids[symmetric] by auto
    have "hub_inv h" using ok(2) assms(2) hub_reachable_inv by (auto simp: current_ok_def)
    then have "Out_State out \<noteq> MessageAccepted" using assms(3) out(1) by (auto simp: hub_inv_def accepted_free_def outcomes_def)
    note out = out this
    show ?thesis
    proof (cases "final \<or> \<not> run_failed out")
      case True
      then have "(final, out) \<in> set (map (Pair final) (outcomes h))" "Out_ID out = k \<and> Out_State out \<noteq> MessageAccepted \<and> (final \<or> \<not> run_failed out)"
        using out by simp_all
      then show ?thesis unfolding settled_in_def by blast
    next
      case False
      then have "out \<in> set fails" using s1(4) out(1) by simp
      then show ?thesis using out(2) by simp
    qed
  qed
  then have "accounted ?s' k" if "accounted ?s k" for k
    using that assms(2) s1(5) unfolding accounted_def p w(4) by (auto simp: settled_append)
  ultimately show ?thesis using s1(1,6) ok(4) by (auto simp: standby_ok_def list_all_iff)
qed

text \<open>The invariant holds in every reachable state.\<close>

lemma breach_irrelevant [simp]: "standby_ok (y\<lparr>sy_breach := b\<rparr>) = standby_ok y"
  by (simp add: standby_ok_def)

lemma step_keeps: "\<lbrakk>standby_step y y'; \<not> sy_breach y'\<rbrakk> \<Longrightarrow> \<not> sy_breach y \<and> (standby_ok y \<longrightarrow> standby_ok y')"
proof (induction rule: standby_step.induct)
  case (send k y st ctxErr closed t opts)
  then show ?case using send_keeps by simp
next
  case (forward y m h ctx lifetime t framed)
  then have "\<not> sy_breach y" "\<forall>i. hub_wrapUp h = Some i \<longrightarrow> item_id h i \<noteq> ms_id m" by (auto simp: wrap_up_id_def)
  then show ?case using forward forward_keeps by simp
next
  case (work y h h')
  then show ?case by (simp add: work_keeps)
qed (simp_all add: cancel_keeps round_keeps event_keeps complete_keeps ends_keeps)

lemma standby_reachable_ok: "\<lbrakk>standby_reachable y; \<not> sy_breach y\<rbrakk> \<Longrightarrow> standby_ok y"
proof (induction rule: standby_reachable.induct)
  case (init n)
  show ?case by (simp add: standby_ok_def standby_defs pending_ids_def new_standby_def)
next
  case (step y y')
  then show ?case using step_keeps by blast
qed

end
