(* ===== verification/StandbyGuarantees.thy ===== *)
theory StandbyGuarantees
  imports StandbySystem HubGuarantees
begin

text \<open>
  The guarantees of a standby, stated on the reachable states of \<open>StandbySystem\<close>, and the trace that shows why
  they ask hosts for fresh IDs on messages with execution options.
\<close>

lemma ok_parts:
  assumes "standby_ok y"
  shows "distinct (pending_ids (sy_stream y))" "sb_current (sy_stream y) = Some h \<Longrightarrow> hub_reachable h"
    "k \<in> set (sb_accepted (sy_stream y)) \<Longrightarrow> accounted (sy_stream y) k"
  using assms by (auto simp: standby_ok_def queues_ok_def current_ok_def list_all_iff)

lemma accounted_quiet:
  assumes "accounted s k" "sb_current s = None" "sb_queue s = []" "sb_carry s = []"
  shows "settled_in (sb_history s) k \<or> Some k \<in> failed_id ` set (sb_published s)"
  using assms by (simp add: accounted_def pending_ids_def)

text \<open>
  C13. A standby loses no message as long as its hosts keep the discipline on IDs: no message with execution
  options under an ID used before, none under the ID of the hub's wrap-up instruction. Then under any
  interleaving of senders, executions, cancellations, the loop and the
  end of the lifetime, a message for which \<^verbatim>\<open>Send\<close> returned nil (queued by the standby or taken by the hub of the
  running execution) is waiting, in the running execution, settled (delivered or failed) by an execution other
  than by that execution's own failure unless it was cancelled or succeeded, or reported as failed; when nothing runs and
  nothing waits it is settled or reported. The
  waiting IDs are pairwise distinct, and every execution is opened so that the guarantees of the message hub
  hold for it.
\<close>

theorem standby_loses_nothing:
  assumes "standby_reachable y" "\<not> sy_breach y" "k \<in> set (sb_accepted (sy_stream y))"
  shows "(k \<in> set (pending_ids (sy_stream y)) \<or> (\<exists>h. sb_current (sy_stream y) = Some h \<and> k \<in> set (map Out_ID (outcomes h)))
       \<or> settled_in (sb_history (sy_stream y)) k \<or> Some k \<in> failed_id ` set (sb_published (sy_stream y)))
     \<and> (sb_current (sy_stream y) = None \<and> sb_queue (sy_stream y) = [] \<and> sb_carry (sy_stream y) = []
         \<longrightarrow> settled_in (sb_history (sy_stream y)) k \<or> Some k \<in> failed_id ` set (sb_published (sy_stream y)))
     \<and> distinct (pending_ids (sy_stream y)) \<and> (\<forall>h. sb_current (sy_stream y) = Some h \<longrightarrow> hub_reachable h)"
proof -
  note ok = ok_parts[OF standby_reachable_ok[OF assms(1,2)]]
  show ?thesis using ok(1,2) ok(3)[OF assms(3)] accounted_quiet[OF ok(3)[OF assms(3)]]
    unfolding outcomes_ids accounted_def by blast
qed

subsection \<open>Example\<close>

definition demo_setup :: hub_setup where
  "demo_setup = \<lparr>hs_ctxErr = (\<lambda>_. None), hs_runID = ''r'', hs_policy = sample_policy, hs_cap = sample_capability, hs_resume = True\<rparr>"

definition demo_failure :: exec_error where
  "demo_failure = \<lparr>ee_context = False, ee_failure = Some (''error_during_execution'', None, None), ee_network = False\<rparr>"

text \<open>A message is sent, started and waits again because its execution failed for good.\<close>

definition demo_sent :: standbyStream where
  "demo_sent = snd (standby_Send demo_setup None False ''a'' ''hi'' [] (new_standby 2))"

definition demo_running :: standbyStream where
  "demo_running = snd (run_round demo_setup 0 demo_sent)"

definition run_fails :: "standbyStream \<Rightarrow> standbyStream" where
  "run_fails s = s\<lparr>sb_current := map_option (finish MessageRunFailed) (sb_current s)\<rparr>"

definition demo_failed :: standbyStream where
  "demo_failed = completeExecution 0 (Some demo_failure) (run_fails demo_running)"

definition demo_sys :: "standbyStream \<Rightarrow> standby_sys" where
  "demo_sys s = \<lparr>sy_stream = s, sy_forwards = [], sy_used = [''a''], sy_breach = False\<rparr>"

lemma demo_sent_nil: "fst (standby_Send demo_setup None False ''a'' ''hi'' [] (new_standby 2)) = SendNil"
  by code_simp

lemma demo_current: "sb_current demo_running \<noteq> None" "hub_finished (finish r h)" "no_new h (finish r h)"
proof -
  show "sb_current demo_running \<noteq> None" by code_simp
  have "hub_finished (hub_each f is h) = hub_finished h" if "\<And>i h. hub_finished (f i h) = hub_finished h" for f "is" h
    using that by (induction f "is" h rule: hub_each.induct) simp_all
  then show "hub_finished (finish r h)" by (simp add: finish_def Let_def)
  show "no_new h (finish r h)" by (simp add: no_new_same op_items)
qed

lemma demo_reachable: "standby_reachable (demo_sys demo_failed)"
proof -
  let ?y = "\<lparr>sy_stream = new_standby 2, sy_forwards = [], sy_used = [], sy_breach = False\<rparr>"
  have "standby_reachable ((after_send ''a'' (standby_Send demo_setup None False ''a'' ''hi'' [] (sy_stream ?y)) ?y)
      \<lparr>sy_breach := sy_breach ?y \<or> execution_options [] \<and> ''a'' \<in> set (sy_used ?y)\<rparr>)"
    by (rule standby_reachable.step[OF standby_reachable.init standby_step.send]) simp
  moreover have "(after_send ''a'' (standby_Send demo_setup None False ''a'' ''hi'' [] (sy_stream ?y)) ?y)
      \<lparr>sy_breach := sy_breach ?y \<or> execution_options [] \<and> ''a'' \<in> set (sy_used ?y)\<rparr> = demo_sys demo_sent"
    using demo_sent_nil
    by (cases "standby_Send demo_setup None False ''a'' ''hi'' [] (new_standby 2)") (simp add: after_send_def demo_sys_def demo_sent_def)
  ultimately have "standby_reachable (demo_sys demo_sent)" by simp
  from standby_reachable.step[OF this standby_step.round] have r: "standby_reachable (demo_sys demo_running)"
    by (simp add: demo_sys_def demo_running_def)
  obtain h where h: "sb_current demo_running = Some h" using demo_current(1) by blast
  have w: "hub_step h (finish MessageRunFailed h)" "sb_current (sy_stream (demo_sys demo_running)) = Some h"
    using h by (simp_all add: hub_step.finish demo_sys_def)
  from standby_reachable.step[OF r standby_step.work[OF w(2,1) demo_current(3)]] h
  have f: "standby_reachable (demo_sys (run_fails demo_running))" by (simp add: demo_sys_def run_fails_def)
  have "sb_current (sy_stream (demo_sys (run_fails demo_running))) = Some (finish MessageRunFailed h)"
    using h by (simp add: demo_sys_def run_fails_def)
  from standby_reachable.step[OF f standby_step.complete[OF this demo_current(2), of 0 "Some demo_failure"]]
  show ?thesis by (simp add: demo_sys_def demo_failed_def)
qed

theorem standby_loses_nothing_witness:
  "''a'' \<in> set (sb_accepted demo_failed) \<and> pending_ids demo_failed = [''a''] \<and> \<not> settled_in (sb_history demo_failed) ''a''
   \<and> accounted demo_failed ''a''"
proof -
  have a: "''a'' \<in> set (sb_accepted demo_failed)" by code_simp
  have p: "pending_ids demo_failed = [''a'']" "list_all (\<lambda>(final, out). \<not> final \<and> run_failed out) (sb_history demo_failed)" by code_simp+
  then have "\<not> settled_in (sb_history demo_failed) ''a''" by (auto simp: settled_in_def list_all_iff)
  moreover have "\<not> sy_breach (demo_sys demo_failed)" by (simp add: demo_sys_def)
  ultimately show ?thesis using standby_loses_nothing[OF demo_reachable, of "''a''"] a p(1)
    unfolding outcomes_ids accounted_def demo_sys_def by simp
qed

text \<open>
  Without the discipline (here \<open>sy_breach\<close> becomes true): \<^verbatim>\<open>Send\<close> compares an ID with the queue and the carry list, not with the running
  execution. The ID of a running message is queued a second time when it comes with execution options; after
  the execution fails for good, the next one holds two messages under it.
\<close>

definition demo_resent :: "standby_send \<times> standbyStream" where
  "demo_resent = standby_Send demo_setup None False ''a'' ''hi'' [Some (RunOption ''model'')] demo_running"

definition demo_doubled :: standbyStream where
  "demo_doubled = snd (run_round demo_setup 0 (completeExecution 0 (Some demo_failure) (run_fails (snd demo_resent))))"

theorem resend_in_flight_doubles:
  "fst demo_resent = SendNil \<and> map_option item_ids (sb_current demo_running) = Some [''a'']
   \<and> map_option item_ids (sb_current demo_doubled) = Some [''a'', ''a'']"
  by code_simp

end
