(* ===== verification/TeamStore.thy ===== *)
theory TeamStore
  imports ThreadStore Events
begin

text \<open>
  \<^verbatim>\<open>hosttools/team/store.go\<close> and the records of \<^verbatim>\<open>hosttools/team/types.go\<close>: the in-memory store of a team,
  which keeps per scope a lease, the tasks, the leader's inbox and artifacts. Every method holds the mutex for
  its whole body, so it is one function; a method that fails returns before it writes. The clock (read once per
  call) and the bytes of the entropy source, whose reads never fail, are arguments. A revision is a natural
  number: reaching its 64-bit limit would take that many saves of one task. A scope is created when it is
  first named and an empty scope cannot be told from a missing one, so the scopes are a total function.
\<close>

subsection \<open>Keys\<close>

fun decimal :: "nat \<Rightarrow> string" where
  "decimal n = (if n < 10 then [hexdigit n] else decimal (n div 10) @ [hexdigit (n mod 10)])"

declare decimal.simps [simp del]

definition EncodeKey :: "string list \<Rightarrow> string" where
  "EncodeKey parts = concat (map (\<lambda>part. decimal (length part) @ '':'' @ part) parts)"

subsection \<open>Records\<close>

text \<open>Both states are strings; a value that is none of the constants is kept apart.\<close>

datatype TaskState = Queued | Running | WaitingApproval | Succeeded | Failed | Cancelled | Interrupted | OtherTaskState string

datatype InboxState = Pending | Delivering | Delivered | DeliveryFailed | OtherInboxState string

text \<open>
  A structured value (\<^verbatim>\<open>map[string]any\<close>, an A2A task) is represented by its JSON text if it has one; the
  copies made through JSON keep that text.
\<close>

datatype json_value = JSONText string | NotJSON string

record Task =
  Task_RemoteContext :: string
  Task_RemoteTask :: string
  Task_RemoteSnapshot :: "json_value option"
  Task_Scope :: string
  Task_ID :: string
  Task_Member :: string
  Task_Objective :: string
  Task_Input :: "json_value option"
  Task_Conversation :: string
  Task_Continues :: string
  Task_State :: TaskState
  Task_Revision :: nat
  Task_CreatedAt :: gotime
  Task_UpdatedAt :: gotime
  Task_Summary :: string
  Task_Reason :: string
  Task_Usage :: "Usage option"
  Task_Unread :: "string list"
  Task_Result :: "string option"

record InboxMessage =
  Inbox_Host :: bool
  Inbox_Deferred :: bool
  Inbox_RequiresOptions :: bool
  Inbox_Timing :: Timing
  Inbox_Scope :: string
  Inbox_ID :: string
  Inbox_Task :: string
  Inbox_Text :: string
  Inbox_From :: Author
  Inbox_Wake :: bool
  Inbox_State :: InboxState
  Inbox_ClaimToken :: string
  Inbox_ClaimUntil :: gotime
  Inbox_MaybeDuplicate :: bool
  Inbox_Reason :: string
  Inbox_CreatedAt :: gotime

record ScopeLease =
  SL_Scope :: string
  SL_Owner :: string
  SL_Token :: string
  SL_ExpiresAt :: gotime

record Artifact =
  Artifact_Scope :: string
  Artifact_ID :: string
  Artifact_Task :: string
  Artifact_URI :: string
  Artifact_Text :: string

definition no_lease :: ScopeLease where
  "no_lease = \<lparr>SL_Scope = '''', SL_Owner = '''', SL_Token = '''', SL_ExpiresAt = zero_time\<rparr>"

record memoryScope =
  scope_parent :: string
  scope_lease :: ScopeLease
  scope_tasks :: "Task list"
  scope_messages :: "InboxMessage list"
  scope_messageIndex :: "string \<rightharpoonup> nat"
  scope_artifacts :: "Artifact list"

definition new_scope :: memoryScope where
  "new_scope = \<lparr>scope_parent = '''', scope_lease = no_lease, scope_tasks = [], scope_messages = [], scope_messageIndex = Map.empty,
     scope_artifacts = []\<rparr>"

type_synonym TeamStore = "string \<Rightarrow> memoryScope"

definition NewMemoryStore :: TeamStore where
  "NewMemoryStore = (\<lambda>_. new_scope)"

datatype TeamError = ErrConflict | ErrThreadBusy | TeamContext CtxErr | NotSerializable string

definition terminal :: "TaskState \<Rightarrow> bool" where
  "terminal state \<longleftrightarrow> state \<in> {Succeeded, Failed, Cancelled, Interrupted}"

fun validTransition :: "TaskState \<Rightarrow> TaskState \<Rightarrow> bool" where
  "validTransition state to =
     (if terminal state then state = to
      else if terminal to then True
      else state = to \<or> state = Queued \<and> to = Running \<or> state = Running \<and> to = WaitingApproval \<or> state = WaitingApproval \<and> to = Running)"

subsection \<open>Copies\<close>

fun cloneMap :: "json_value option \<Rightarrow> json_value option" where
  "cloneMap (Some (JSONText t)) = Some (JSONText t)"
| "cloneMap _ = None"

fun cloneRemoteTask :: "json_value option \<Rightarrow> json_value option outcome" where
  "cloneRemoteTask None = Return None"
| "cloneRemoteTask (Some (JSONText t)) = Return (Some (JSONText t))"
| "cloneRemoteTask (Some (NotJSON _)) = Panic"

definition cloneTask :: "Task \<Rightarrow> Task outcome" where
  "cloneTask task = map_outcome (\<lambda>remote. task\<lparr>Task_RemoteSnapshot := remote, Task_Input := cloneMap (Task_Input task),
     Task_Unread := [] @ Task_Unread task\<rparr>) (cloneRemoteTask (Task_RemoteSnapshot task))"

fun clone_tasks :: "Task list \<Rightarrow> Task list outcome" where
  "clone_tasks [] = Return []"
| "clone_tasks (t # ts) = bind_outcome (cloneTask t) (\<lambda>t'. map_outcome ((#) t') (clone_tasks ts))"

subsection \<open>Leases\<close>

definition team_check :: "gotime \<Rightarrow> ScopeLease \<Rightarrow> TeamStore \<Rightarrow> TeamError + memoryScope" where
  "team_check now lease st =
     (let scope = st (SL_Scope lease); current = scope_lease scope
      in if SL_Token lease = '''' \<or> SL_Token current \<noteq> SL_Token lease \<or> SL_Owner current \<noteq> SL_Owner lease
            \<or> \<not> After (SL_ExpiresAt current) now
         then Inl ErrConflict else Inr scope)"

text \<open>What a new owner does to the inbox: claims of the previous one go back, options are asked for again.\<close>

definition reclaim :: "InboxMessage \<Rightarrow> InboxMessage" where
  "reclaim message =
     (let m = message\<lparr>Inbox_Deferred := Inbox_Host message \<and> Inbox_RequiresOptions message
                \<and> Inbox_State message \<noteq> Delivered \<and> Inbox_State message \<noteq> DeliveryFailed\<rparr>
      in if Inbox_State m = Delivering
         then m\<lparr>Inbox_State := Pending, Inbox_ClaimToken := '''', Inbox_ClaimUntil := zero_time, Inbox_MaybeDuplicate := True\<rparr>
         else m)"

definition randomID :: "string \<Rightarrow> string" where
  "randomID buf = hexEncode buf"

definition AcquireScope ::
  "CtxErr option \<Rightarrow> gotime \<Rightarrow> string \<Rightarrow> string \<Rightarrow> string \<Rightarrow> duration \<Rightarrow> TeamStore \<Rightarrow> TeamError + ScopeLease \<times> TeamStore" where
  "AcquireScope ctx now buf key owner ttl st =
     (case ctx of Some e \<Rightarrow> Inl (TeamContext e) | None \<Rightarrow>
      if owner = '''' \<or> ttl \<le> 0 then Inl ErrConflict
      else let scope = st key; current = scope_lease scope in
        if SL_Token current \<noteq> '''' \<and> After (SL_ExpiresAt current) now then Inl ErrThreadBusy
        else let lease = \<lparr>SL_Scope = key, SL_Owner = owner, SL_Token = randomID buf, SL_ExpiresAt = now + ttl\<rparr>
          in Inr (lease, st(key := scope\<lparr>scope_lease := lease, scope_messages := map reclaim (scope_messages scope)\<rparr>)))"

definition extend_claim :: "gotime \<Rightarrow> gotime \<Rightarrow> InboxMessage \<Rightarrow> InboxMessage" where
  "extend_claim now expires m =
     (if Inbox_State m = Delivering \<and> After (Inbox_ClaimUntil m) now then m\<lparr>Inbox_ClaimUntil := expires\<rparr> else m)"

definition RenewScope :: "CtxErr option \<Rightarrow> gotime \<Rightarrow> ScopeLease \<Rightarrow> duration \<Rightarrow> TeamStore \<Rightarrow> TeamError + ScopeLease \<times> TeamStore" where
  "RenewScope ctx now lease ttl st =
     (case ctx of Some e \<Rightarrow> Inl (TeamContext e) | None \<Rightarrow>
      if ttl \<le> 0 then Inl ErrConflict
      else bindE (team_check now lease st) (\<lambda>scope.
        let renewed = (scope_lease scope)\<lparr>SL_ExpiresAt := now + ttl\<rparr>
        in Inr (renewed, st(SL_Scope lease := scope\<lparr>scope_lease := renewed,
             scope_messages := map (extend_claim now (SL_ExpiresAt renewed)) (scope_messages scope)\<rparr>))))"

definition ReleaseScope :: "CtxErr option \<Rightarrow> gotime \<Rightarrow> ScopeLease \<Rightarrow> TeamStore \<Rightarrow> TeamError + TeamStore" where
  "ReleaseScope ctx now lease st =
     (case ctx of Some e \<Rightarrow> Inl (TeamContext e) | None \<Rightarrow>
      bindE (team_check now lease st) (\<lambda>scope. Inr (st(SL_Scope lease := scope\<lparr>scope_lease := no_lease\<rparr>))))"

subsection \<open>The inbox\<close>

text \<open>One round of \<^verbatim>\<open>withMessages\<close>; \<open>registered\<close> holds the messages this call has added so far.\<close>

definition same_message :: "InboxMessage \<Rightarrow> InboxMessage \<Rightarrow> bool" where
  "same_message current m \<longleftrightarrow> Inbox_Text current = Inbox_Text m \<and> Inbox_Task current = Inbox_Task m \<and> Inbox_From current = Inbox_From m
     \<and> Inbox_Wake current = Inbox_Wake m \<and> Inbox_Host current = Inbox_Host m \<and> Inbox_Timing current = Inbox_Timing m"

definition readmit :: "InboxMessage \<Rightarrow> InboxMessage \<Rightarrow> InboxMessage \<Rightarrow> InboxMessage" where
  "readmit current m stored =
     (let s1 = (if Inbox_State current = DeliveryFailed
                then stored\<lparr>Inbox_State := Pending, Inbox_RequiresOptions := Inbox_RequiresOptions m, Inbox_Reason := '''',
                       Inbox_ClaimToken := '''', Inbox_ClaimUntil := zero_time\<rparr>
                else stored)
      in if Inbox_Deferred current \<and> \<not> Inbox_Deferred m then s1\<lparr>Inbox_Deferred := False\<rparr> else s1)"

definition admitted :: "InboxMessage \<Rightarrow> InboxMessage" where
  "admitted m = m\<lparr>Inbox_State := Pending, Inbox_ClaimToken := '''', Inbox_ClaimUntil := zero_time\<rparr>"

fun add_messages ::
  "InboxMessage list \<Rightarrow> (string \<rightharpoonup> nat) \<Rightarrow> string \<Rightarrow> (string \<rightharpoonup> InboxMessage) \<Rightarrow> InboxMessage list \<Rightarrow> InboxMessage list
   \<Rightarrow> TeamError + InboxMessage list" where
  "add_messages existing indexes scope registered messages [] = Inr messages"
| "add_messages existing indexes scope registered messages (m # added) =
     (if Inbox_Scope m \<noteq> scope \<or> Inbox_ID m = '''' then Inl ErrConflict
      else let found = indexes (Inbox_ID m);
               current = (case found of Some i \<Rightarrow> Some (existing ! i) | None \<Rightarrow> registered (Inbox_ID m))
        in case current of
             Some c \<Rightarrow>
               if \<not> same_message c m then Inl ErrConflict
               else add_messages existing indexes scope registered
                 (case found of Some i \<Rightarrow> messages[i := readmit c m (messages ! i)] | None \<Rightarrow> messages) added
           | None \<Rightarrow>
               add_messages existing indexes scope (registered(Inbox_ID m \<mapsto> admitted m)) (messages @ [admitted m]) added)"

definition withMessages ::
  "InboxMessage list \<Rightarrow> (string \<rightharpoonup> nat) \<Rightarrow> string \<Rightarrow> InboxMessage list \<Rightarrow> TeamError + InboxMessage list" where
  "withMessages existing indexes scope added =
     (if added = [] then Inr existing else add_messages existing indexes scope Map.empty existing added)"

fun index_from :: "nat \<Rightarrow> InboxMessage list \<Rightarrow> (string \<rightharpoonup> nat) \<Rightarrow> (string \<rightharpoonup> nat)" where
  "index_from n [] idx = idx"
| "index_from n (m # ms) idx = index_from (Suc n) ms (idx(Inbox_ID m \<mapsto> n))"

definition setMessages :: "InboxMessage list \<Rightarrow> memoryScope \<Rightarrow> memoryScope" where
  "setMessages messages scope =
     scope\<lparr>scope_messageIndex := index_from (length (scope_messages scope)) (drop (length (scope_messages scope)) messages) (scope_messageIndex scope),
       scope_messages := messages\<rparr>"

definition PutMessage :: "CtxErr option \<Rightarrow> gotime \<Rightarrow> ScopeLease \<Rightarrow> InboxMessage \<Rightarrow> TeamStore \<Rightarrow> TeamError + TeamStore" where
  "PutMessage ctx now lease message st =
     (case ctx of Some e \<Rightarrow> Inl (TeamContext e) | None \<Rightarrow>
      bindE (team_check now lease st) (\<lambda>scope.
      bindE (withMessages (scope_messages scope) (scope_messageIndex scope) (SL_Scope lease) [message]) (\<lambda>messages.
        Inr (st(SL_Scope lease := setMessages messages scope)))))"

definition Messages :: "CtxErr option \<Rightarrow> string \<Rightarrow> TeamStore \<Rightarrow> TeamError + InboxMessage list" where
  "Messages ctx key st = (case ctx of Some e \<Rightarrow> Inl (TeamContext e) | None \<Rightarrow> Inr (scope_messages (st key)))"

definition inbox_claimable :: "gotime \<Rightarrow> bool \<Rightarrow> InboxMessage \<Rightarrow> bool" where
  "inbox_claimable now includeNotes m \<longleftrightarrow> \<not> Inbox_Deferred m \<and> (Inbox_Wake m \<or> includeNotes)
     \<and> (Inbox_State m = Pending \<or> Inbox_State m = Delivering \<and> \<not> After (Inbox_ClaimUntil m) now)"

definition claim_one :: "gotime \<Rightarrow> gotime \<Rightarrow> string \<Rightarrow> InboxMessage \<Rightarrow> InboxMessage" where
  "claim_one now until tok m = m\<lparr>Inbox_MaybeDuplicate := (Inbox_State m = Delivering \<or> Inbox_MaybeDuplicate m),
     Inbox_State := Delivering, Inbox_ClaimToken := tok, Inbox_ClaimUntil := until\<rparr>"

text \<open>The loop of \<^verbatim>\<open>ClaimMessages\<close>: the claimed messages and the list after it; every claim draws a token.\<close>

fun claim_loop :: "gotime \<Rightarrow> gotime \<Rightarrow> bool \<Rightarrow> (nat \<Rightarrow> string) \<Rightarrow> nat \<Rightarrow> InboxMessage list \<Rightarrow> InboxMessage list \<times> InboxMessage list" where
  "claim_loop now until includeNotes bufs n [] = ([], [])"
| "claim_loop now until includeNotes bufs n (m # ms) =
     (if inbox_claimable now includeNotes m
      then let c = claim_one now until (randomID (bufs n)) m; (claimed, rest) = claim_loop now until includeNotes bufs (Suc n) ms
           in (c # claimed, c # rest)
      else let (claimed, rest) = claim_loop now until includeNotes bufs n ms in (claimed, m # rest))"

definition ClaimMessages ::
  "CtxErr option \<Rightarrow> gotime \<Rightarrow> (nat \<Rightarrow> string) \<Rightarrow> ScopeLease \<Rightarrow> bool \<Rightarrow> duration \<Rightarrow> TeamStore \<Rightarrow> TeamError + InboxMessage list \<times> TeamStore" where
  "ClaimMessages ctx now bufs lease includeNotes ttl st =
     (case ctx of Some e \<Rightarrow> Inl (TeamContext e) | None \<Rightarrow>
      if ttl \<le> 0 then Inl ErrConflict
      else bindE (team_check now lease st) (\<lambda>scope.
        let (claimed, messages) = claim_loop now (now + ttl) includeNotes bufs 0 (scope_messages scope)
        in Inr (claimed, st(SL_Scope lease := scope\<lparr>scope_messages := messages\<rparr>))))"

text \<open>\<^verbatim>\<open>RequeueMessage\<close> and \<^verbatim>\<open>FinishMessage\<close> find the message by its index and ask for the exact live claim.\<close>

definition live_claim :: "gotime \<Rightarrow> string \<Rightarrow> InboxMessage \<Rightarrow> bool" where
  "live_claim now tok m \<longleftrightarrow> Inbox_State m = Delivering \<and> Inbox_ClaimToken m = tok \<and> After (Inbox_ClaimUntil m) now"

definition on_claim ::
  "gotime \<Rightarrow> string \<Rightarrow> string \<Rightarrow> (InboxMessage \<Rightarrow> InboxMessage) \<Rightarrow> memoryScope \<Rightarrow> TeamError + memoryScope" where
  "on_claim now k tok f scope =
     (case scope_messageIndex scope k of None \<Rightarrow> Inl ErrConflict
      | Some i \<Rightarrow> if live_claim now tok (scope_messages scope ! i)
                 then Inr (scope\<lparr>scope_messages := (scope_messages scope)[i := f (scope_messages scope ! i)]\<rparr>)
                 else Inl ErrConflict)"

definition RequeueMessage :: "CtxErr option \<Rightarrow> gotime \<Rightarrow> ScopeLease \<Rightarrow> string \<Rightarrow> string \<Rightarrow> TeamStore \<Rightarrow> TeamError + TeamStore" where
  "RequeueMessage ctx now lease k tok st =
     (case ctx of Some e \<Rightarrow> Inl (TeamContext e) | None \<Rightarrow>
      bindE (team_check now lease st) (\<lambda>scope.
      bindE (on_claim now k tok (\<lambda>m. m\<lparr>Inbox_State := Pending, Inbox_ClaimToken := '''', Inbox_ClaimUntil := zero_time\<rparr>) scope) (\<lambda>scope'.
        Inr (st(SL_Scope lease := scope')))))"

definition FinishMessage ::
  "CtxErr option \<Rightarrow> gotime \<Rightarrow> ScopeLease \<Rightarrow> string \<Rightarrow> string \<Rightarrow> InboxState \<Rightarrow> string \<Rightarrow> TeamStore \<Rightarrow> TeamError + TeamStore" where
  "FinishMessage ctx now lease k tok state reason st =
     (case ctx of Some e \<Rightarrow> Inl (TeamContext e) | None \<Rightarrow>
      bindE (team_check now lease st) (\<lambda>scope.
      if state \<noteq> Delivered \<and> state \<noteq> DeliveryFailed then Inl ErrConflict
      else bindE (on_claim now k tok (\<lambda>m. m\<lparr>Inbox_State := state, Inbox_Reason := reason\<rparr>) scope) (\<lambda>scope'.
        Inr (st(SL_Scope lease := scope')))))"

subsection \<open>Tasks\<close>

definition Tasks :: "CtxErr option \<Rightarrow> string \<Rightarrow> TeamStore \<Rightarrow> (TeamError + Task list) outcome" where
  "Tasks ctx key st = (case ctx of Some e \<Rightarrow> Return (Inl (TeamContext e))
     | None \<Rightarrow> map_outcome Inr (clone_tasks (scope_tasks (st key))))"

fun serializable :: "json_value option \<Rightarrow> bool" where
  "serializable (Some (NotJSON _)) = False"
| "serializable _ = True"

fun find_task :: "string \<Rightarrow> Task list \<Rightarrow> nat \<Rightarrow> (nat \<times> Task) option" where
  "find_task k [] i = None"
| "find_task k (t # ts) i = (if Task_ID t = k then Some (i, t) else find_task k ts (Suc i))"

text \<open>The task as it will be saved, and its place in the list.\<close>

definition place_task :: "gotime \<Rightarrow> Task \<Rightarrow> Task list \<Rightarrow> TeamError + Task \<times> nat" where
  "place_task now task tasks =
     (case find_task (Task_ID task) tasks 0 of
        Some (i, current) \<Rightarrow>
          if Task_Revision current \<noteq> Task_Revision task \<or> \<not> validTransition (Task_State current) (Task_State task) then Inl ErrConflict
          else Inr (task\<lparr>Task_Revision := Task_Revision task + 1, Task_UpdatedAt := now\<rparr>, i)
      | None \<Rightarrow>
          if Task_Revision task \<noteq> 0 \<or> Task_State task \<noteq> Queued then Inl ErrConflict
          else Inr (task\<lparr>Task_Revision := 1, Task_UpdatedAt := now\<rparr>, length tasks))"

definition put_task :: "nat \<Rightarrow> Task \<Rightarrow> Task list \<Rightarrow> Task list" where
  "put_task i task tasks = (if i < length tasks then tasks[i := task] else tasks @ [task])"

definition SaveTask ::
  "CtxErr option \<Rightarrow> gotime \<Rightarrow> ScopeLease \<Rightarrow> Task \<Rightarrow> InboxMessage list \<Rightarrow> TeamStore \<Rightarrow> (TeamError + Task \<times> TeamStore) outcome" where
  "SaveTask ctx now lease task notifications st =
     (case ctx of Some e \<Rightarrow> Return (Inl (TeamContext e)) | None \<Rightarrow>
      if \<not> serializable (Task_RemoteSnapshot task) then Return (Inl (NotSerializable ''remote task''))
      else if \<not> serializable (Task_Input task) then Return (Inl (NotSerializable ''task input''))
      else case team_check now lease st of Inl e \<Rightarrow> Return (Inl e) | Inr scope \<Rightarrow>
      if Task_Scope task \<noteq> SL_Scope lease \<or> Task_ID task = '''' then Return (Inl ErrConflict)
      else case withMessages (scope_messages scope) (scope_messageIndex scope) (SL_Scope lease) notifications of
        Inl e \<Rightarrow> Return (Inl e)
      | Inr messages \<Rightarrow>
      case place_task now task (scope_tasks scope) of Inl e \<Rightarrow> Return (Inl e) | Inr (task', i) \<Rightarrow>
        map_outcome (\<lambda>copy. Inr (copy, st(SL_Scope lease :=
            setMessages messages (scope\<lparr>scope_tasks := put_task i copy (scope_tasks scope)\<rparr>)))) (cloneTask task'))"

subsection \<open>Artifacts\<close>

definition PutArtifact :: "CtxErr option \<Rightarrow> gotime \<Rightarrow> ScopeLease \<Rightarrow> Artifact \<Rightarrow> TeamStore \<Rightarrow> TeamError + TeamStore" where
  "PutArtifact ctx now lease artifact st =
     (case ctx of Some e \<Rightarrow> Inl (TeamContext e) | None \<Rightarrow>
      bindE (team_check now lease st) (\<lambda>scope.
      if Artifact_Scope artifact \<noteq> SL_Scope lease \<or> Artifact_ID artifact = '''' \<or> Artifact_URI artifact = '''' then Inl ErrConflict
      else case find (\<lambda>a. Artifact_ID a = Artifact_ID artifact \<or> Artifact_URI a = Artifact_URI artifact) (scope_artifacts scope) of
        Some current \<Rightarrow> if current = artifact then Inr st else Inl ErrConflict
      | None \<Rightarrow> Inr (st(SL_Scope lease := scope\<lparr>scope_artifacts := scope_artifacts scope @ [artifact]\<rparr>))))"

definition Artifacts :: "CtxErr option \<Rightarrow> string \<Rightarrow> TeamStore \<Rightarrow> TeamError + Artifact list" where
  "Artifacts ctx key st = (case ctx of Some e \<Rightarrow> Inl (TeamContext e) | None \<Rightarrow> Inr (scope_artifacts (st key)))"

subsection \<open>Forks\<close>

definition ForkParent :: "CtxErr option \<Rightarrow> string \<Rightarrow> TeamStore \<Rightarrow> TeamError + string" where
  "ForkParent ctx key st = (case ctx of Some e \<Rightarrow> Inl (TeamContext e) | None \<Rightarrow> Inr (scope_parent (st key)))"

definition fork_task :: "string \<Rightarrow> string \<Rightarrow> Task \<Rightarrow> Task" where
  "fork_task parent child task = task\<lparr>Task_Scope := child,
     Task_Conversation := (if Task_Conversation task = EncodeKey [parent, ''member'', Task_Member task]
       then EncodeKey [child, ''member'', Task_Member task] else '''')\<rparr>"

definition ForkScope :: "CtxErr option \<Rightarrow> gotime \<Rightarrow> ScopeLease \<Rightarrow> ScopeLease \<Rightarrow> TeamStore \<Rightarrow> (TeamError + TeamStore) outcome" where
  "ForkScope ctx now parent child st =
     (case ctx of Some e \<Rightarrow> Return (Inl (TeamContext e)) | None \<Rightarrow>
      case team_check now parent st of Inl e \<Rightarrow> Return (Inl e) | Inr source \<Rightarrow>
      case team_check now child st of Inl e \<Rightarrow> Return (Inl e) | Inr target \<Rightarrow>
      if SL_Scope parent = SL_Scope child \<or> scope_parent target \<noteq> '''' \<or> scope_tasks target \<noteq> [] \<or> scope_messages target \<noteq> []
         \<or> scope_artifacts target \<noteq> []
      then Return (Inl ErrConflict)
      else if \<not> list_all (\<lambda>t. terminal (Task_State t)) (scope_tasks source) then Return (Inl ErrThreadBusy)
      else map_outcome (\<lambda>tasks. Inr (st(SL_Scope child := target\<lparr>
               scope_tasks := map (fork_task (SL_Scope parent) (SL_Scope child)) tasks,
               scope_artifacts := map (\<lambda>a. a\<lparr>Artifact_Scope := SL_Scope child\<rparr>) (scope_artifacts source),
               scope_parent := SL_Scope parent\<rparr>))) (clone_tasks (scope_tasks source)))"

subsection \<open>One atomic call\<close>

datatype TeamCall =
    CallAcquireScope "CtxErr option" string string string duration
  | CallRenewScope "CtxErr option" ScopeLease duration
  | CallReleaseScope "CtxErr option" ScopeLease
  | CallSaveTask "CtxErr option" ScopeLease Task "InboxMessage list"
  | CallPutMessage "CtxErr option" ScopeLease InboxMessage
  | CallClaimMessages "CtxErr option" "nat \<Rightarrow> string" ScopeLease bool duration
  | CallRequeueMessage "CtxErr option" ScopeLease string string
  | CallFinishMessage "CtxErr option" ScopeLease string string InboxState string
  | CallPutArtifact "CtxErr option" ScopeLease Artifact
  | CallForkScope "CtxErr option" ScopeLease ScopeLease

definition committed :: "TeamStore \<Rightarrow> ('e + TeamStore) \<Rightarrow> TeamStore" where
  "committed st r = (case r of Inl _ \<Rightarrow> st | Inr st' \<Rightarrow> st')"

definition committed_snd :: "TeamStore \<Rightarrow> ('e + 'a \<times> TeamStore) \<Rightarrow> TeamStore" where
  "committed_snd st r = (case r of Inl _ \<Rightarrow> st | Inr (_, st') \<Rightarrow> st')"

definition returned :: "('b \<Rightarrow> TeamStore) \<Rightarrow> TeamStore \<Rightarrow> 'b outcome \<Rightarrow> TeamStore" where
  "returned f st r = (case r of Panic \<Rightarrow> st | Return x \<Rightarrow> f x)"

fun team_exec :: "gotime \<Rightarrow> TeamStore \<Rightarrow> TeamCall \<Rightarrow> TeamStore" where
  "team_exec now st (CallAcquireScope ctx buf key owner ttl) = committed_snd st (AcquireScope ctx now buf key owner ttl st)"
| "team_exec now st (CallRenewScope ctx lease ttl) = committed_snd st (RenewScope ctx now lease ttl st)"
| "team_exec now st (CallReleaseScope ctx lease) = committed st (ReleaseScope ctx now lease st)"
| "team_exec now st (CallSaveTask ctx lease task notes) = returned (committed_snd st) st (SaveTask ctx now lease task notes st)"
| "team_exec now st (CallPutMessage ctx lease m) = committed st (PutMessage ctx now lease m st)"
| "team_exec now st (CallClaimMessages ctx bufs lease notes ttl) = committed_snd st (ClaimMessages ctx now bufs lease notes ttl st)"
| "team_exec now st (CallRequeueMessage ctx lease k tok) = committed st (RequeueMessage ctx now lease k tok st)"
| "team_exec now st (CallFinishMessage ctx lease k tok state reason) = committed st (FinishMessage ctx now lease k tok state reason st)"
| "team_exec now st (CallPutArtifact ctx lease a) = committed st (PutArtifact ctx now lease a st)"
| "team_exec now st (CallForkScope ctx parent child) = returned (committed st) st (ForkScope ctx now parent child st)"

end
