(* ===== verification/TeamHistory.thy ===== *)
theory TeamHistory
  imports TeamStore
begin

text \<open>
  What a call on the team store can do to one scope, as a step relation, and with it: the scope leases are fenced
  leases, every scope stays well formed, and tasks and inbox only move forward.
\<close>

subsection \<open>Steps of a scope\<close>

abbreviation held :: "gotime \<Rightarrow> ScopeLease \<Rightarrow> memoryScope \<Rightarrow> bool" where
  "held now lease scope \<equiv> SL_Token lease \<noteq> '''' \<and> SL_Token (scope_lease scope) = SL_Token lease
     \<and> SL_Owner (scope_lease scope) = SL_Owner lease \<and> After (SL_ExpiresAt (scope_lease scope)) now"

lemma team_check_iff: "team_check now lease st = (if held now lease (st (SL_Scope lease)) then Inr (st (SL_Scope lease)) else Inl ErrConflict)"
  by (auto simp: team_check_def Let_def)

inductive scope_step :: "TeamStore \<Rightarrow> gotime \<Rightarrow> string \<Rightarrow> memoryScope \<Rightarrow> memoryScope \<Rightarrow> bool" for st where
  same: "scope_step st now key scope scope"
| acquire: "\<lbrakk>\<not> (SL_Token (scope_lease scope) \<noteq> '''' \<and> After (SL_ExpiresAt (scope_lease scope)) now)\<rbrakk>
    \<Longrightarrow> scope_step st now key scope (scope\<lparr>scope_lease := lease, scope_messages := map reclaim (scope_messages scope)\<rparr>)"
| renew: "held now lease scope \<Longrightarrow> scope_step st now key scope (scope\<lparr>scope_lease := renewed,
      scope_messages := map (extend_claim now expires) (scope_messages scope)\<rparr>)"
| release: "held now lease scope \<Longrightarrow> scope_step st now key scope (scope\<lparr>scope_lease := no_lease\<rparr>)"
| save: "\<lbrakk>held now lease scope; Task_Scope task = key; Task_ID task \<noteq> ''''; serializable (Task_RemoteSnapshot task); serializable (Task_Input task);
      withMessages (scope_messages scope) (scope_messageIndex scope) key ns = Inr messages;
      place_task now task (scope_tasks scope) = Inr (task', i)\<rbrakk>
    \<Longrightarrow> scope_step st now key scope (setMessages messages (scope\<lparr>scope_tasks := put_task i task' (scope_tasks scope)\<rparr>))"
| put: "\<lbrakk>held now lease scope; withMessages (scope_messages scope) (scope_messageIndex scope) key ns = Inr messages\<rbrakk>
    \<Longrightarrow> scope_step st now key scope (setMessages messages scope)"
| claim: "\<lbrakk>held now lease scope; claim_loop now until ns bufs 0 (scope_messages scope) = (claimed, messages)\<rbrakk>
    \<Longrightarrow> scope_step st now key scope (scope\<lparr>scope_messages := messages\<rparr>)"
| requeue: "\<lbrakk>held now lease scope; on_claim now k tok (\<lambda>m. m\<lparr>Inbox_State := Pending, Inbox_ClaimToken := '''', Inbox_ClaimUntil := zero_time\<rparr>) scope = Inr scope'\<rbrakk>
    \<Longrightarrow> scope_step st now key scope scope'"
| finish: "\<lbrakk>held now lease scope; state = Delivered \<or> state = DeliveryFailed;
      on_claim now k tok (\<lambda>m. m\<lparr>Inbox_State := state, Inbox_Reason := reason\<rparr>) scope = Inr scope'\<rbrakk>
    \<Longrightarrow> scope_step st now key scope scope'"
| artifact: "\<lbrakk>held now lease scope; Artifact_Scope a = key; Artifact_ID a \<noteq> ''''; Artifact_URI a \<noteq> '''';
      find (\<lambda>b. Artifact_ID b = Artifact_ID a \<or> Artifact_URI b = Artifact_URI a) (scope_artifacts scope) = None\<rbrakk>
    \<Longrightarrow> scope_step st now key scope (scope\<lparr>scope_artifacts := scope_artifacts scope @ [a]\<rparr>)"
| fork: "\<lbrakk>held now lease scope; scope_parent scope = ''''; scope_tasks scope = []; scope_messages scope = []; scope_artifacts scope = [];
      list_all (\<lambda>t. terminal (Task_State t)) (scope_tasks (st parent)); clone_tasks (scope_tasks (st parent)) = Return tasks\<rbrakk>
    \<Longrightarrow> scope_step st now key scope (scope\<lparr>scope_tasks := map (fork_task parent key) tasks,
          scope_artifacts := map (\<lambda>a. a\<lparr>Artifact_Scope := key\<rparr>) (scope_artifacts (st parent)), scope_parent := parent\<rparr>)"

lemma cloneTask_serializable:
  "\<lbrakk>serializable (Task_RemoteSnapshot t); serializable (Task_Input t)\<rbrakk> \<Longrightarrow> cloneTask t = Return t"
  by (cases "Task_RemoteSnapshot t" rule: cloneRemoteTask.cases; cases "Task_Input t" rule: cloneMap.cases)
    (auto simp: cloneTask_def)

lemma place_fields:
  "place_task now task tasks = Inr (task', i) \<Longrightarrow> Task_RemoteSnapshot task' = Task_RemoteSnapshot task \<and> Task_Input task' = Task_Input task
     \<and> Task_ID task' = Task_ID task \<and> Task_Scope task' = Task_Scope task \<and> Task_State task' = Task_State task"
  by (auto simp: place_task_def split: option.splits if_splits)

text \<open>The effect of a call on every scope.\<close>

lemma save_cases:
  assumes "SaveTask ctx now lease task ns st = Return (Inr (copy, st'))"
  obtains messages i where "held now lease (st (SL_Scope lease))" "Task_Scope task = SL_Scope lease" "Task_ID task \<noteq> ''''"
    "serializable (Task_RemoteSnapshot task)" "serializable (Task_Input task)"
    "withMessages (scope_messages (st (SL_Scope lease))) (scope_messageIndex (st (SL_Scope lease))) (SL_Scope lease) ns = Inr messages"
    "place_task now task (scope_tasks (st (SL_Scope lease))) = Inr (copy, i)"
    "st' = st(SL_Scope lease := setMessages messages ((st (SL_Scope lease))\<lparr>scope_tasks := put_task i copy (scope_tasks (st (SL_Scope lease)))\<rparr>))"
proof -
  let ?sc = "st (SL_Scope lease)"
  have s: "serializable (Task_RemoteSnapshot task)" "serializable (Task_Input task)" "held now lease ?sc" "Task_Scope task = SL_Scope lease" "Task_ID task \<noteq> ''''"
    using assms by (auto simp: SaveTask_def team_check_iff split: option.splits if_splits)
  obtain messages where m: "withMessages (scope_messages ?sc) (scope_messageIndex ?sc) (SL_Scope lease) ns = Inr messages"
    using assms s by (auto simp: SaveTask_def team_check_iff split: option.splits sum.splits)
  obtain task' i where p: "place_task now task (scope_tasks ?sc) = Inr (task', i)"
    using assms s m by (auto simp: SaveTask_def team_check_iff split: option.splits sum.splits)
  have "cloneTask task' = Return task'" using cloneTask_serializable place_fields[OF p] s by simp
  then have "copy = task'" "st' = st(SL_Scope lease := setMessages messages (?sc\<lparr>scope_tasks := put_task i task' (scope_tasks ?sc)\<rparr>))"
    using assms s m p by (auto simp: SaveTask_def team_check_iff split: option.splits)
  then show thesis using s m p by (intro that) simp_all
qed

lemma exec_step: "scope_step st now key (st key) (team_exec now st op key)"
proof (cases op)
  case (CallSaveTask ctx lease task ns)
  show ?thesis
  proof (cases "SaveTask ctx now lease task ns st")
    case (Return r)
    show ?thesis
    proof (cases r)
      case (Inr p)
      obtain copy st' where p: "p = (copy, st')" by fastforce
      then have "SaveTask ctx now lease task ns st = Return (Inr (copy, st'))" using Return Inr by simp
      then show ?thesis
      proof (cases rule: save_cases)
        case (1 messages i)
        then show ?thesis using CallSaveTask Return Inr p
          by (cases "key = SL_Scope lease") (auto simp: returned_def committed_snd_def intro: scope_step.intros)
      qed
    qed (use CallSaveTask Return in \<open>simp add: returned_def committed_snd_def scope_step.same\<close>)
  qed (use CallSaveTask in \<open>simp add: returned_def scope_step.same\<close>)
next
  case (CallAcquireScope ctx buf k owner ttl)
  then show ?thesis by (auto simp: committed_snd_def AcquireScope_def Let_def scope_step.same intro: scope_step.acquire split: option.split)
next
  case (CallRenewScope ctx lease ttl)
  then show ?thesis by (auto simp: committed_snd_def RenewScope_def Let_def team_check_iff scope_step.same intro: scope_step.renew split: option.split)
next
  case (CallReleaseScope ctx lease)
  then show ?thesis by (auto simp: committed_def ReleaseScope_def team_check_iff scope_step.same intro: scope_step.release split: option.split)
next
  case (CallPutMessage ctx lease m)
  then show ?thesis
    by (auto simp: committed_def PutMessage_def team_check_iff scope_step.same intro: scope_step.put split: option.split sum.split)
next
  case (CallClaimMessages ctx bufs lease ns ttl)
  then show ?thesis
    by (auto simp: committed_snd_def ClaimMessages_def team_check_iff scope_step.same intro: scope_step.claim split: option.split prod.split)
next
  case (CallRequeueMessage ctx lease k tok)
  then show ?thesis
    by (auto simp: committed_def RequeueMessage_def team_check_iff scope_step.same intro: scope_step.requeue split: option.split sum.split)
next
  case (CallFinishMessage ctx lease k tok state reason)
  then show ?thesis
    by (auto simp: committed_def FinishMessage_def team_check_iff scope_step.same intro: scope_step.finish split: option.split sum.split)
next
  case (CallPutArtifact ctx lease a)
  then show ?thesis
    by (auto simp: committed_def PutArtifact_def team_check_iff scope_step.same intro: scope_step.artifact split: option.split)
next
  case (CallForkScope ctx parent child)
  then show ?thesis
    by (auto simp: returned_def committed_def ForkScope_def team_check_iff scope_step.same intro: scope_step.fork
        split: option.split outcome.split)
qed

subsection \<open>Well-formed scopes\<close>

definition known_state :: "InboxState \<Rightarrow> bool" where
  "known_state s \<longleftrightarrow> (\<forall>x. s \<noteq> OtherInboxState x)"

lemma known_states [simp]: "known_state Pending" "known_state Delivering" "known_state Delivered" "known_state DeliveryFailed"
  by (simp_all add: known_state_def)

definition inbox_wf :: "string \<Rightarrow> InboxMessage list \<Rightarrow> (string \<rightharpoonup> nat) \<Rightarrow> bool" where
  "inbox_wf key ms idx \<longleftrightarrow> list_all (\<lambda>m. Inbox_Scope m = key \<and> Inbox_ID m \<noteq> '''' \<and> known_state (Inbox_State m)) ms
     \<and> distinct (map Inbox_ID ms) \<and> (\<forall>k i. idx k = Some i \<longleftrightarrow> i < length ms \<and> Inbox_ID (ms ! i) = k)"

definition tasks_wf :: "string \<Rightarrow> Task list \<Rightarrow> bool" where
  "tasks_wf key ts \<longleftrightarrow> list_all (\<lambda>t. Task_Scope t = key \<and> Task_ID t \<noteq> '''' \<and> 0 < Task_Revision t \<and> serializable (Task_RemoteSnapshot t)
     \<and> serializable (Task_Input t)) ts \<and> distinct (map Task_ID ts)"

definition artifacts_wf :: "string \<Rightarrow> Artifact list \<Rightarrow> bool" where
  "artifacts_wf key as \<longleftrightarrow> list_all (\<lambda>a. Artifact_Scope a = key \<and> Artifact_ID a \<noteq> '''' \<and> Artifact_URI a \<noteq> '''') as
     \<and> distinct (map Artifact_ID as) \<and> distinct (map Artifact_URI as)"

definition scope_wf :: "string \<Rightarrow> memoryScope \<Rightarrow> bool" where
  "scope_wf key scope \<longleftrightarrow> inbox_wf key (scope_messages scope) (scope_messageIndex scope) \<and> tasks_wf key (scope_tasks scope)
     \<and> artifacts_wf key (scope_artifacts scope)"

lemma same_message_trans: "\<lbrakk>same_message a b; same_message b c\<rbrakk> \<Longrightarrow> same_message a c"
  by (simp add: same_message_def)

lemma same_message_refl [simp]: "same_message m m"
  by (simp add: same_message_def)

text \<open>\<open>inbox_moves\<close>: the earlier messages keep their place and identity, a delivered one its state.\<close>

definition message_moves :: "InboxMessage \<Rightarrow> InboxMessage \<Rightarrow> bool" where
  "message_moves m m' \<longleftrightarrow> Inbox_ID m' = Inbox_ID m \<and> Inbox_Scope m' = Inbox_Scope m \<and> same_message m m'
     \<and> (Inbox_State m = Delivered \<longrightarrow> Inbox_State m' = Delivered)
     \<and> (known_state (Inbox_State m) \<longrightarrow> known_state (Inbox_State m'))"

definition inbox_moves :: "InboxMessage list \<Rightarrow> InboxMessage list \<Rightarrow> bool" where
  "inbox_moves ms ms' \<longleftrightarrow> length ms \<le> length ms' \<and> (\<forall>i < length ms. message_moves (ms ! i) (ms' ! i))"

lemma message_moves_refl [simp]: "message_moves m m"
  by (simp add: message_moves_def)

lemma message_moves_trans: "\<lbrakk>message_moves a b; message_moves b c\<rbrakk> \<Longrightarrow> message_moves a c"
  unfolding message_moves_def by (metis same_message_trans)

lemma inbox_moves_refl [simp]: "inbox_moves ms ms"
  by (simp add: inbox_moves_def)

lemma inbox_moves_trans: "\<lbrakk>inbox_moves a b; inbox_moves b c\<rbrakk> \<Longrightarrow> inbox_moves a c"
proof -
  assume "inbox_moves a b" "inbox_moves b c"
  then have l: "length a \<le> length b" "length b \<le> length c" and s: "\<And>i. i < length a \<Longrightarrow> message_moves (a ! i) (b ! i)"
    "\<And>i. i < length b \<Longrightarrow> message_moves (b ! i) (c ! i)" by (simp_all add: inbox_moves_def)
  have "message_moves (a ! i) (c ! i)" if "i < length a" for i using message_moves_trans[OF s(1)[OF that] s(2)] that l by simp
  then show ?thesis using l by (simp add: inbox_moves_def)
qed

lemma rewrite_moves:
  "message_moves m (reclaim m)" "message_moves m (extend_claim now expires m)"
  "live_claim now tok m \<Longrightarrow> message_moves m (m\<lparr>Inbox_State := Pending, Inbox_ClaimToken := '''', Inbox_ClaimUntil := zero_time\<rparr>)"
  "\<lbrakk>live_claim now tok m; state = Delivered \<or> state = DeliveryFailed\<rbrakk> \<Longrightarrow> message_moves m (m\<lparr>Inbox_State := state, Inbox_Reason := reason\<rparr>)"
  "inbox_claimable now ns m \<Longrightarrow> message_moves m (claim_one now until tok m)"
  "(Inbox_State c = DeliveryFailed \<longrightarrow> Inbox_State m \<noteq> Delivered) \<Longrightarrow> message_moves m (readmit c d m)"
  by (auto simp: message_moves_def reclaim_def extend_claim_def claim_one_def readmit_def same_message_def Let_def live_claim_def inbox_claimable_def)

lemma map_moves: "(\<And>m. message_moves m (f m)) \<Longrightarrow> inbox_moves ms (map f ms)"
  by (simp add: inbox_moves_def)

lemma update_moves: "message_moves (ms ! i) m \<Longrightarrow> inbox_moves ms (ms[i := m])"
proof -
  assume "message_moves (ms ! i) m"
  then have "message_moves (ms ! j) (ms[i := m] ! j)" if "j < length ms" for j using that by (cases "j = i") simp_all
  then show ?thesis by (simp add: inbox_moves_def)
qed

lemma claim_loop_moves: "claim_loop now until ns bufs n ms = (claimed, ms') \<Longrightarrow> length ms' = length ms \<and> inbox_moves ms ms'"
proof (induction ms arbitrary: n claimed ms')
  case (Cons m ms)
  obtain n' c r where r: "claim_loop now until ns bufs n' ms = (c, r)" "ms' = m # r \<or> inbox_claimable now ns m \<and> (\<exists>tok. ms' = claim_one now until tok m # r)"
    using Cons.prems by (auto split: if_splits prod.splits simp: Let_def)
  from Cons.IH[OF r(1)] r(2) show ?case
    by (auto simp: inbox_moves_def nth_Cons' less_Suc_eq_0_disj intro: rewrite_moves)
qed simp

lemma inbox_wf_moves:
  assumes "inbox_wf key ms idx" "length ms' = length ms" "inbox_moves ms ms'"
  shows "inbox_wf key ms' idx"
proof -
  have m: "message_moves (ms ! i) (ms' ! i)" if "i < length ms" for i using assms(3) that by (simp add: inbox_moves_def)
  have "map Inbox_ID ms' = map Inbox_ID ms" using assms(2) m by (intro nth_equalityI) (simp_all add: message_moves_def)
  moreover have "list_all (\<lambda>m. Inbox_Scope m = key \<and> Inbox_ID m \<noteq> '''' \<and> known_state (Inbox_State m)) ms'"
    using assms(1,2) m unfolding inbox_wf_def list_all_length message_moves_def by metis
  moreover have "i < length ms' \<and> Inbox_ID (ms' ! i) = k \<longleftrightarrow> i < length ms \<and> Inbox_ID (ms ! i) = k" for i k
    using assms(2) m by (auto simp: message_moves_def)
  ultimately show ?thesis using assms(1) unfolding inbox_wf_def by simp
qed

subsection \<open>Admission\<close>

text \<open>What the loop of \<^verbatim>\<open>withMessages\<close> maintains: \<open>fresh\<close> are the messages added so far.\<close>

definition readmitted :: "InboxMessage \<Rightarrow> InboxMessage \<Rightarrow> bool" where
  "readmitted c m \<longleftrightarrow> (Inbox_State c = DeliveryFailed \<longrightarrow> Inbox_State m \<noteq> Delivered)
     \<and> (Inbox_State c = Delivering \<and> \<not> Inbox_Deferred c \<longrightarrow> m = c)"

lemma readmit_again: "readmitted c m \<Longrightarrow> readmitted c (readmit c d m)"
  by (simp add: readmitted_def readmit_def Let_def)

definition batch_ok :: "string \<Rightarrow> InboxMessage list \<Rightarrow> (string \<rightharpoonup> nat) \<Rightarrow> (string \<rightharpoonup> InboxMessage) \<Rightarrow> InboxMessage list \<Rightarrow> InboxMessage list \<Rightarrow> bool" where
  "batch_ok key existing idx registered old fresh \<longleftrightarrow> length old = length existing \<and> inbox_moves existing old
     \<and> (\<forall>i < length existing. readmitted (existing ! i) (old ! i))
     \<and> list_all (\<lambda>m. Inbox_Scope m = key \<and> Inbox_ID m \<noteq> '''' \<and> Inbox_State m = Pending \<and> idx (Inbox_ID m) = None) fresh
     \<and> distinct (map Inbox_ID fresh) \<and> dom registered = Inbox_ID ` set fresh"

lemma batch_readmit:
  assumes "batch_ok key existing idx registered old fresh" "i < length existing"
  shows "batch_ok key existing idx registered (old[i := readmit (existing ! i) m (old ! i)]) fresh"
proof -
  let ?r = "readmit (existing ! i) m (old ! i)"
  have b: "length old = length existing" "inbox_moves existing old" "\<And>j. j < length existing \<Longrightarrow> readmitted (existing ! j) (old ! j)"
    using assms by (simp_all add: batch_ok_def)
  have "message_moves (old ! i) ?r" using b(3)[OF assms(2)] rewrite_moves(6) by (simp add: readmitted_def)
  then have "inbox_moves existing (old[i := ?r])" using inbox_moves_trans[OF b(2) update_moves] by blast
  moreover have "readmitted (existing ! j) (old[i := ?r] ! j)" if "j < length existing" for j
    using b(1) b(3)[OF that] readmit_again assms(2) by (cases "j = i") simp_all
  ultimately show ?thesis using assms(1) b(1) unfolding batch_ok_def by simp
qed

lemma add_messages_ok:
  assumes "batch_ok key existing idx registered old fresh" "\<And>k i. idx k = Some i \<Longrightarrow> i < length existing"
    "add_messages existing idx key registered (old @ fresh) added = Inr ms"
  shows "\<exists>registered' old' fresh'. ms = old' @ fresh' \<and> batch_ok key existing idx registered' old' fresh'"
  using assms(1,3)
proof (induction added arbitrary: registered old fresh)
  case Nil
  then have "ms = old @ fresh" by simp
  then show ?case using Nil.prems(1) by blast
next
  case (Cons m added)
  have l: "length old = length existing" using Cons.prems(1) by (simp add: batch_ok_def)
  have m: "Inbox_Scope m = key" "Inbox_ID m \<noteq> ''''" using Cons.prems(2) by (auto split: if_splits)
  show ?case
  proof (cases "idx (Inbox_ID m)")
    case (Some i)
    then have i: "i < length existing" by (rule assms(2))
    have "(old @ fresh)[i := readmit (existing ! i) m ((old @ fresh) ! i)] = old[i := readmit (existing ! i) m (old ! i)] @ fresh"
      using i l by (simp add: list_update_append nth_append)
    then have "add_messages existing idx key registered (old[i := readmit (existing ! i) m (old ! i)] @ fresh) added = Inr ms"
      using Cons.prems(2) Some m by (simp split: if_splits)
    then show ?thesis using Cons.IH batch_readmit[OF Cons.prems(1) i] by blast
  next
    case None
    show ?thesis
    proof (cases "registered (Inbox_ID m)")
      case (Some c)
      then have "add_messages existing idx key registered (old @ fresh) added = Inr ms" using Cons.prems(2) None m by (simp split: if_splits)
      then show ?thesis using Cons.IH Cons.prems(1) by blast
    next
      case n: None
      then have "Inbox_ID m \<notin> Inbox_ID ` set fresh" using Cons.prems(1) by (auto simp: batch_ok_def)
      then have "batch_ok key existing idx (registered(Inbox_ID m \<mapsto> admitted m)) old (fresh @ [admitted m])"
        using Cons.prems(1) None m unfolding batch_ok_def by (simp add: admitted_def)
      moreover have "add_messages existing idx key (registered(Inbox_ID m \<mapsto> admitted m)) (old @ fresh @ [admitted m]) added = Inr ms"
        using Cons.prems(2) None n m by simp
      ultimately show ?thesis using Cons.IH by blast
    qed
  qed
qed


lemma index_from_Some:
  "distinct (map Inbox_ID ms) \<Longrightarrow> index_from n ms idx k = Some i
     \<longleftrightarrow> (if k \<in> Inbox_ID ` set ms then n \<le> i \<and> i < n + length ms \<and> Inbox_ID (ms ! (i - n)) = k else idx k = Some i)"
proof (induction ms arbitrary: n idx)
  case (Cons m ms)
  define idx' where "idx' = idx(Inbox_ID m \<mapsto> n)"
  have idx': "idx' k = (if k = Inbox_ID m then Some n else idx k)" by (simp add: idx'_def)
  have step: "index_from n (m # ms) idx k = index_from (Suc n) ms idx' k" by (simp add: idx'_def)
  have IH: "index_from (Suc n) ms idx' k = Some i \<longleftrightarrow>
      (if k \<in> Inbox_ID ` set ms then Suc n \<le> i \<and> i < Suc n + length ms \<and> Inbox_ID (ms ! (i - Suc n)) = k else idx' k = Some i)"
    using Cons.IH Cons.prems by simp
  show ?case
  proof (cases "k \<in> Inbox_ID ` set ms")
    case True
    then have "k \<noteq> Inbox_ID m" using Cons.prems by (intro notI) simp
    have "Suc n \<le> i \<and> i < Suc n + length ms \<and> Inbox_ID (ms ! (i - Suc n)) = k \<longleftrightarrow> n \<le> i \<and> i < n + length (m # ms) \<and> Inbox_ID ((m # ms) ! (i - n)) = k"
      using \<open>k \<noteq> Inbox_ID m\<close> by (cases "i = n") (auto simp: nth_Cons' Suc_le_eq)
    then show ?thesis unfolding step IH using True by simp
  next
    case False
    have "k = Inbox_ID m \<Longrightarrow> n \<le> i \<and> i < n + length (m # ms) \<and> Inbox_ID ((m # ms) ! (i - n)) = k \<longleftrightarrow> i = n"
    proof -
      assume k: "k = Inbox_ID m"
      have other: "Inbox_ID (ms ! j) \<noteq> k" if "j < length ms" for j using imageI[OF nth_mem[OF that], of Inbox_ID] False by (intro notI) (simp only:)
      consider "i < n" | "i = n" | j where "i = n + Suc j" using less_imp_Suc_add by (metis add_Suc_right linorder_neqE_nat)
      then show ?thesis
      proof cases
        case (3 j)
        then show ?thesis using other[of j] by simp
      qed (use k in simp_all)
    qed
    then show ?thesis unfolding step IH using False idx' by (cases "k = Inbox_ID m") auto
  qed
qed simp

text \<open>Admission keeps a well-formed inbox well formed and moves it forward; a live claim stays as it is.\<close>

lemma admission:
  assumes "inbox_wf key existing idx" "withMessages existing idx key added = Inr ms"
  obtains old fresh where "ms = old @ fresh" "length old = length existing" "inbox_moves existing ms"
    "\<And>i. i < length existing \<Longrightarrow> readmitted (existing ! i) (ms ! i)"
    "inbox_wf key ms (index_from (length existing) (drop (length existing) ms) idx)"
proof -
  have idx: "idx k = Some i \<longleftrightarrow> i < length existing \<and> Inbox_ID (existing ! i) = k" for k i using assms(1) by (simp add: inbox_wf_def)
  have "batch_ok key existing idx Map.empty existing []" by (simp add: batch_ok_def readmitted_def)
  then have "\<exists>registered old fresh. ms = old @ fresh \<and> batch_ok key existing idx registered old fresh"
    using add_messages_ok[of key existing idx Map.empty existing "[]" added ms] assms(2) idx
    by (cases "added = []") (auto simp: withMessages_def intro: exI[of _ "[]"])
  then obtain registered old fresh where ms: "ms = old @ fresh" and b: "batch_ok key existing idx registered old fresh" by blast
  have l: "length old = length existing" and m: "inbox_moves existing old" and r: "\<And>i. i < length existing \<Longrightarrow> readmitted (existing ! i) (old ! i)"
    and f: "list_all (\<lambda>m. Inbox_Scope m = key \<and> Inbox_ID m \<noteq> '''' \<and> Inbox_State m = Pending \<and> idx (Inbox_ID m) = None) fresh"
    and d: "distinct (map Inbox_ID fresh)" using b by (simp_all add: batch_ok_def)
  have o: "inbox_wf key old idx" by (rule inbox_wf_moves[OF assms(1) l m])
  have new: "k \<notin> Inbox_ID ` set old" if "k \<in> Inbox_ID ` set fresh" for k
  proof
    assume "k \<in> Inbox_ID ` set old"
    then obtain i where "i < length old" "Inbox_ID (old ! i) = k" by (auto simp: in_set_conv_nth)
    then have "idx k = Some i" using o by (simp add: inbox_wf_def)
    then show False using that f by (auto simp: list_all_iff)
  qed
  have "inbox_wf key ms (index_from (length existing) (drop (length existing) ms) idx)"
  proof -
    have "index_from (length existing) fresh idx k = Some i \<longleftrightarrow> i < length ms \<and> Inbox_ID (ms ! i) = k" for k i
    proof (cases "k \<in> Inbox_ID ` set fresh")
      case True
      have "Inbox_ID (old ! i) \<noteq> k" if "i < length old" for i using new[OF True] imageI[OF nth_mem[OF that], of Inbox_ID] by (intro notI) (simp only:)
      then show ?thesis using index_from_Some[OF d, of "length existing" idx k i] True l ms by (auto simp: nth_append)
    next
      case False
      have "Inbox_ID (fresh ! i) \<noteq> k" if "i < length fresh" for i using False imageI[OF nth_mem[OF that], of Inbox_ID] by (intro notI) (simp only:)
      moreover have "idx k = Some i \<longleftrightarrow> i < length old \<and> Inbox_ID (old ! i) = k" using o by (simp add: inbox_wf_def)
      ultimately show ?thesis using index_from_Some[OF d, of "length existing" idx k i] False l ms by (auto simp: nth_append)
    qed
    moreover have "distinct (map Inbox_ID ms)" using o d new unfolding ms inbox_wf_def by auto
    moreover have "list_all (\<lambda>m. Inbox_Scope m = key \<and> Inbox_ID m \<noteq> '''' \<and> known_state (Inbox_State m)) ms"
      using o f unfolding ms inbox_wf_def by (auto simp: list_all_iff)
    ultimately show ?thesis using l ms by (simp add: inbox_wf_def)
  qed
  moreover have "inbox_moves existing ms" using m l unfolding ms by (simp add: inbox_moves_def nth_append)
  moreover have "readmitted (existing ! i) (ms ! i)" if "i < length existing" for i using r[OF that] l that ms by (simp add: nth_append)
  ultimately show thesis using that ms l by blast
qed

subsection \<open>Tasks\<close>

text \<open>A task that changes gets a new revision and moves along the state machine.\<close>

definition task_moves :: "Task \<Rightarrow> Task \<Rightarrow> bool" where
  "task_moves t t' \<longleftrightarrow> Task_ID t' = Task_ID t \<and> Task_Scope t' = Task_Scope t \<and> Task_Revision t \<le> Task_Revision t'
     \<and> (Task_Revision t' = Task_Revision t \<longrightarrow> t' = t) \<and> validTransition\<^sup>*\<^sup>* (Task_State t) (Task_State t')"

definition tasks_move :: "Task list \<Rightarrow> Task list \<Rightarrow> bool" where
  "tasks_move ts ts' \<longleftrightarrow> length ts \<le> length ts' \<and> (\<forall>i < length ts. task_moves (ts ! i) (ts' ! i))"

lemma task_moves_refl [simp]: "task_moves t t"
  by (simp add: task_moves_def)

lemma task_moves_trans: "\<lbrakk>task_moves a b; task_moves b c\<rbrakk> \<Longrightarrow> task_moves a c"
  unfolding task_moves_def by (metis le_trans le_antisym rtranclp_trans)

lemma tasks_move_trans: "\<lbrakk>tasks_move a b; tasks_move b c\<rbrakk> \<Longrightarrow> tasks_move a c"
proof -
  assume "tasks_move a b" "tasks_move b c"
  then have l: "length a \<le> length b" "length b \<le> length c" and s: "\<And>i. i < length a \<Longrightarrow> task_moves (a ! i) (b ! i)"
    "\<And>i. i < length b \<Longrightarrow> task_moves (b ! i) (c ! i)" by (simp_all add: tasks_move_def)
  have "task_moves (a ! i) (c ! i)" if "i < length a" for i using task_moves_trans[OF s(1)[OF that] s(2)] that l by simp
  then show ?thesis using l by (simp add: tasks_move_def)
qed

lemma tasks_move_refl [simp]: "tasks_move ts ts"
  by (simp add: tasks_move_def)

lemma terminal_final: "\<lbrakk>validTransition\<^sup>*\<^sup>* s s'; terminal s\<rbrakk> \<Longrightarrow> s' = s"
  by (induction rule: rtranclp_induct) auto

lemma find_task_Some: "find_task k ts n = Some (i, t) \<Longrightarrow> n \<le> i \<and> i - n < length ts \<and> ts ! (i - n) = t \<and> Task_ID t = k"
proof (induction ts arbitrary: n)
  case (Cons a ts)
  then show ?case by (cases "Task_ID a = k") (fastforce simp: nth_Cons' Suc_le_eq)+
qed simp

lemma find_task_None: "find_task k ts n = None \<longleftrightarrow> k \<notin> Task_ID ` set ts"
  by (induction ts arbitrary: n) auto

lemma place_cases:
  assumes "place_task now task ts = Inr (task', i)"
  obtains (replaced) "i < length ts" "Task_ID (ts ! i) = Task_ID task" "Task_Revision (ts ! i) = Task_Revision task"
      "validTransition (Task_State (ts ! i)) (Task_State task)" "task' = task\<lparr>Task_Revision := Suc (Task_Revision task), Task_UpdatedAt := now\<rparr>"
      "put_task i task' ts = ts[i := task']"
  | (created) "Task_ID task \<notin> Task_ID ` set ts" "Task_Revision task = 0" "Task_State task = Queued"
      "task' = task\<lparr>Task_Revision := 1, Task_UpdatedAt := now\<rparr>" "put_task i task' ts = ts @ [task']" "i = length ts"
proof (cases "find_task (Task_ID task) ts 0")
  case None
  then show thesis using assms find_task_None[of "Task_ID task" ts 0] by (intro created) (auto simp: place_task_def put_task_def split: if_splits)
next
  case (Some p)
  obtain j t where p: "p = (j, t)" by fastforce
  have f: "j < length ts" "ts ! j = t" "Task_ID t = Task_ID task" using find_task_Some[of "Task_ID task" ts 0 j t] Some p by auto
  then show thesis using assms Some p by (intro replaced) (auto simp: place_task_def put_task_def split: if_splits)
qed

lemma place_ok:
  assumes "tasks_wf key ts" "place_task now task ts = Inr (task', i)" "Task_Scope task = key" "Task_ID task \<noteq> ''''"
    "serializable (Task_RemoteSnapshot task)" "serializable (Task_Input task)"
  shows "tasks_wf key (put_task i task' ts)" "tasks_move ts (put_task i task' ts)"
    "i < length (put_task i task' ts)" "put_task i task' ts ! i = task'" "Task_Revision task' = Suc (Task_Revision task)"
proof -
  from assms(2) have "tasks_wf key (put_task i task' ts) \<and> tasks_move ts (put_task i task' ts) \<and> i < length (put_task i task' ts)
      \<and> put_task i task' ts ! i = task' \<and> Task_Revision task' = Suc (Task_Revision task)"
  proof (cases rule: place_cases)
    case replaced
    have "map Task_ID (ts[i := task']) = map Task_ID ts" using replaced by (simp add: map_update list_update_same_conv)
    moreover have "list_all (\<lambda>t. Task_Scope t = key \<and> Task_ID t \<noteq> '''' \<and> 0 < Task_Revision t \<and> serializable (Task_RemoteSnapshot t)
        \<and> serializable (Task_Input t)) (ts[i := task'])"
      using assms(1,3-6) replaced(5) unfolding tasks_wf_def list_all_iff by (auto dest!: set_update_subset_insert[THEN subsetD])
    moreover have "task_moves (ts ! i) task'" using assms(1,3) replaced by (auto simp: task_moves_def tasks_wf_def list_all_length)
    then have "task_moves (ts ! j) (ts[i := task'] ! j)" if "j < length ts" for j using that by (cases "j = i") simp_all
    ultimately show ?thesis using assms(1) replaced(1,5,6) by (simp add: tasks_wf_def tasks_move_def)
  next
    case created
    then show ?thesis using assms(1,3-6) by (auto simp: tasks_wf_def tasks_move_def nth_append)
  qed
  then show "tasks_wf key (put_task i task' ts)" "tasks_move ts (put_task i task' ts)"
    "i < length (put_task i task' ts)" "put_task i task' ts ! i = task'" "Task_Revision task' = Suc (Task_Revision task)" by simp_all
qed

lemma clone_tasks_wf: "tasks_wf key ts \<Longrightarrow> clone_tasks ts = Return ts"
  by (induction ts) (auto simp: tasks_wf_def cloneTask_serializable)

lemma fork_wf: "tasks_wf parent ts \<Longrightarrow> tasks_wf child (map (fork_task parent child) ts)"
  by (auto simp: tasks_wf_def fork_task_def list_all_iff comp_def)

lemma artifact_wf:
  assumes "artifacts_wf key as" "Artifact_Scope a = key" "Artifact_ID a \<noteq> ''''" "Artifact_URI a \<noteq> ''''"
    "find (\<lambda>b. Artifact_ID b = Artifact_ID a \<or> Artifact_URI b = Artifact_URI a) as = None"
  shows "artifacts_wf key (as @ [a])"
proof -
  have "Artifact_ID b \<noteq> Artifact_ID a \<and> Artifact_URI b \<noteq> Artifact_URI a" if "b \<in> set as" for b using assms(5) that by (auto simp: find_None_iff)
  then have "Artifact_ID a \<notin> Artifact_ID ` set as" "Artifact_URI a \<notin> Artifact_URI ` set as" by (metis imageE)+
  then show ?thesis using assms(1-4) by (simp add: artifacts_wf_def)
qed

subsection \<open>Every call keeps scopes well formed and moves them forward\<close>

definition scope_moves :: "memoryScope \<Rightarrow> memoryScope \<Rightarrow> bool" where
  "scope_moves s s' \<longleftrightarrow> tasks_move (scope_tasks s) (scope_tasks s') \<and> inbox_moves (scope_messages s) (scope_messages s')
     \<and> (\<exists>more. scope_artifacts s' = scope_artifacts s @ more) \<and> (scope_parent s \<noteq> '''' \<longrightarrow> scope_parent s' = scope_parent s)"

lemma scope_moves_refl [simp]: "scope_moves s s"
  by (simp add: scope_moves_def)

lemma scope_moves_trans: "\<lbrakk>scope_moves a b; scope_moves b c\<rbrakk> \<Longrightarrow> scope_moves a c"
  unfolding scope_moves_def using tasks_move_trans inbox_moves_trans by (metis append.assoc)

lemma set_messages_step:
  assumes "scope_wf key s" "withMessages (scope_messages s) (scope_messageIndex s) key ns = Inr messages"
    "tasks_wf key ts" "tasks_move (scope_tasks s) ts"
  shows "scope_wf key (setMessages messages (s\<lparr>scope_tasks := ts\<rparr>)) \<and> scope_moves s (setMessages messages (s\<lparr>scope_tasks := ts\<rparr>))"
proof -
  have "inbox_wf key (scope_messages s) (scope_messageIndex s)" using assms(1) by (simp add: scope_wf_def)
  from this assms(2) show ?thesis
  proof (rule admission)
    fix old fresh
    assume "inbox_wf key messages (index_from (length (scope_messages s)) (drop (length (scope_messages s)) messages) (scope_messageIndex s))"
      "inbox_moves (scope_messages s) messages"
    then show ?thesis using assms(1,3,4) by (simp add: scope_wf_def scope_moves_def setMessages_def)
  qed
qed

lemma claimed_step:
  assumes "scope_wf key s" "on_claim now k tok f s = Inr s'" "\<And>m. live_claim now tok m \<Longrightarrow> message_moves m (f m)"
  shows "scope_wf key s' \<and> scope_moves s s'"
proof -
  obtain i where i: "live_claim now tok (scope_messages s ! i)" "s' = s\<lparr>scope_messages := (scope_messages s)[i := f (scope_messages s ! i)]\<rparr>"
    using assms(2) by (auto simp: on_claim_def split: option.splits if_splits)
  have m: "inbox_moves (scope_messages s) ((scope_messages s)[i := f (scope_messages s ! i)])" by (rule update_moves[OF assms(3)[OF i(1)]])
  then show ?thesis using assms(1) i(2) inbox_wf_moves[OF _ _ m] by (simp add: scope_wf_def scope_moves_def)
qed

lemma messages_step:
  assumes "scope_wf key s" "length ms = length (scope_messages s)" "inbox_moves (scope_messages s) ms" "s' = s\<lparr>scope_lease := l, scope_messages := ms\<rparr>"
  shows "scope_wf key s' \<and> scope_moves s s'"
  using assms inbox_wf_moves[OF _ assms(2,3)] by (simp add: scope_wf_def scope_moves_def)

lemma scope_step_ok:
  assumes "scope_step st now key s s'" "\<And>k. scope_wf k (st k)" "scope_wf key s"
  shows "scope_wf key s' \<and> scope_moves s s'"
  using assms(1,3)
proof cases
  case (acquire lease)
  then show ?thesis using messages_step[OF assms(3) _ map_moves[of reclaim] refl, of lease] rewrite_moves(1) by simp
next
  case (renew lease expires renewed)
  then show ?thesis using messages_step[OF assms(3) _ map_moves[of "extend_claim now expires"] refl, of renewed] rewrite_moves(2) by simp
next
  case (save lease task ns messages task' i)
  then show ?thesis using set_messages_step[OF assms(3)] place_ok[of key "scope_tasks s" now task task' i] assms(3) by (simp add: scope_wf_def)
next
  case (put lease ns messages)
  then show ?thesis using set_messages_step[OF assms(3), of ns messages "scope_tasks s"] assms(3) by (simp add: scope_wf_def)
next
  case (claim lease until ns bufs claimed messages)
  then show ?thesis using messages_step[OF assms(3) _ _ refl, of messages "scope_lease s"] claim_loop_moves by fastforce
next
  case (requeue lease k tok)
  then show ?thesis using claimed_step[OF assms(3) requeue(2)] rewrite_moves(3) by blast
next
  case (finish lease state k tok reason)
  then show ?thesis using claimed_step[OF assms(3) finish(3)] rewrite_moves(4) by blast
next
  case (artifact lease a)
  then show ?thesis using assms(3) artifact_wf[of key "scope_artifacts s" a] by (simp add: scope_wf_def scope_moves_def)
next
  case (fork lease parent tasks)
  have p: "scope_wf parent (st parent)" by (rule assms(2))
  then have "tasks = scope_tasks (st parent)" using fork(8) clone_tasks_wf[of parent] by (simp add: scope_wf_def)
  moreover have "artifacts_wf key (map (\<lambda>a. a\<lparr>Artifact_Scope := key\<rparr>) (scope_artifacts (st parent)))"
    using p by (simp add: scope_wf_def artifacts_wf_def list_all_iff comp_def)
  moreover have "tasks_wf key (map (fork_task parent key) (scope_tasks (st parent)))" using p fork_wf by (simp add: scope_wf_def)
  ultimately show ?thesis using fork assms(3) by (simp add: scope_wf_def scope_moves_def tasks_move_def)
qed (simp_all add: scope_wf_def scope_moves_def)

lemma exec_wf: "(\<And>k. scope_wf k (st k)) \<Longrightarrow> scope_wf key (team_exec now st op key)"
  using scope_step_ok[OF exec_step] by blast

lemma run_wf: "(\<And>k. scope_wf k (st k)) \<Longrightarrow> scope_wf key (timed_run team_exec st ops key) \<and> scope_moves (st key) (timed_run team_exec st ops key)"
proof (induction team_exec st ops arbitrary: key rule: timed_run.induct)
  case (2 st now op ops)
  have w: "scope_wf k (team_exec now st op k)" for k using exec_wf 2(2) by blast
  have "scope_moves (st key) (team_exec now st op key)" using scope_step_ok[OF exec_step] 2(2) by blast
  then show ?case using 2(1)[OF w] scope_moves_trans[of "st key"] by simp
qed simp

lemma new_wf: "scope_wf k (NewMemoryStore k)"
  by (simp add: scope_wf_def NewMemoryStore_def new_scope_def inbox_wf_def tasks_wf_def artifacts_wf_def)

end
