(* ===== verification/TeamGuarantees.thy ===== *)
theory TeamGuarantees
  imports TeamHistory
begin

text \<open>
  The guarantees of the team store under any sequence of calls by anyone: fenced scope leases (an interpretation of
  the store contract's locale), well-formed scopes, compare-and-swap of tasks, exclusive claims and final deliveries.
\<close>

subsection \<open>Scope leases are fenced leases\<close>

definition scope_held :: "TeamStore \<Rightarrow> gotime \<Rightarrow> Lease \<Rightarrow> bool" where
  "scope_held st now l \<longleftrightarrow> Lease_Token l \<noteq> '''' \<and> SL_Token (scope_lease (st (Lease_Target l))) = Lease_Token l
     \<and> SL_Owner (scope_lease (st (Lease_Target l))) = Lease_Owner l \<and> After (SL_ExpiresAt (scope_lease (st (Lease_Target l)))) now"

definition lease_of :: "ScopeLease \<Rightarrow> Lease" where
  "lease_of lease = \<lparr>Lease_Target = SL_Scope lease, Lease_Owner = SL_Owner lease, Lease_Token = SL_Token lease\<rparr>"

fun team_mints :: "gotime \<Rightarrow> TeamStore \<Rightarrow> TeamCall \<Rightarrow> string set" where
  "team_mints now st (CallAcquireScope ctx buf key owner ttl) = {randomID buf}"
| "team_mints now st _ = {}"

fun team_acts_for :: "TeamCall \<Rightarrow> Lease \<Rightarrow> bool" where
  "team_acts_for (CallRenewScope ctx lease ttl) l = (lease_of lease = l)"
| "team_acts_for (CallReleaseScope ctx lease) l = (lease_of lease = l)"
| "team_acts_for _ l = False"

lemma held_iff: "held now lease (st (SL_Scope lease)) \<longleftrightarrow> scope_held st now (lease_of lease)"
  by (simp add: scope_held_def lease_of_def)

lemma set_lease [simp]: "scope_lease (setMessages ms s) = scope_lease s"
  by (simp add: setMessages_def)

lemma claim_lease: "on_claim now k tok f s = Inr s' \<Longrightarrow> scope_lease s' = scope_lease s"
  by (auto simp: on_claim_def split: option.splits if_splits)

lemma save_lease: "scope_lease (returned (committed_snd st) st (SaveTask ctx now lease task ns st) key) = scope_lease (st key)"
proof (cases "SaveTask ctx now lease task ns st")
  case (Return r)
  show ?thesis
  proof (cases r)
    case (Inr p)
    obtain copy st' where p: "p = (copy, st')" by fastforce
    then have "SaveTask ctx now lease task ns st = Return (Inr (copy, st'))" using Return Inr by simp
    then show ?thesis by (cases rule: save_cases) (simp add: Return Inr p returned_def committed_snd_def)
  qed (simp add: Return returned_def committed_snd_def)
qed (simp add: returned_def)

text \<open>What a call can do to the lease of a scope.\<close>

lemma lease_cases:
  obtains (same) "scope_lease (team_exec now st op key) = scope_lease (st key)"
  | (acquired) ctx buf owner ttl where "op = CallAcquireScope ctx buf key owner ttl"
      "\<not> (SL_Token (scope_lease (st key)) \<noteq> '''' \<and> After (SL_ExpiresAt (scope_lease (st key))) now)"
      "scope_lease (team_exec now st op key) = \<lparr>SL_Scope = key, SL_Owner = owner, SL_Token = randomID buf, SL_ExpiresAt = now + ttl\<rparr>"
  | (renewed) ctx lease ttl where "op = CallRenewScope ctx lease ttl" "SL_Scope lease = key" "scope_held st now (lease_of lease)"
      "scope_lease (team_exec now st op key) = (scope_lease (st key))\<lparr>SL_ExpiresAt := now + ttl\<rparr>"
  | (released) ctx lease where "op = CallReleaseScope ctx lease" "SL_Scope lease = key" "scope_held st now (lease_of lease)"
      "scope_lease (team_exec now st op key) = no_lease"
proof (cases op)
  case (CallAcquireScope ctx buf k owner ttl)
  show thesis
  proof (cases "k = key \<and> ctx = None \<and> owner \<noteq> '''' \<and> 0 < ttl \<and> \<not> (SL_Token (scope_lease (st key)) \<noteq> '''' \<and> After (SL_ExpiresAt (scope_lease (st key))) now)")
    case True
    then have "op = CallAcquireScope ctx buf key owner ttl" "\<not> (SL_Token (scope_lease (st key)) \<noteq> '''' \<and> After (SL_ExpiresAt (scope_lease (st key))) now)"
      using CallAcquireScope by blast+
    moreover have "scope_lease (team_exec now st op key) = \<lparr>SL_Scope = key, SL_Owner = owner, SL_Token = randomID buf, SL_ExpiresAt = now + ttl\<rparr>"
      using CallAcquireScope True by (auto simp: committed_snd_def AcquireScope_def Let_def)
    ultimately show thesis by (rule acquired)
  next
    case False
    then show thesis using CallAcquireScope by (intro same) (auto simp: committed_snd_def AcquireScope_def Let_def split: option.split)
  qed
next
  case (CallRenewScope ctx lease ttl)
  show thesis
  proof (cases "SL_Scope lease = key \<and> ctx = None \<and> 0 < ttl \<and> held now lease (st (SL_Scope lease))")
    case True
    then have "SL_Scope lease = key" "scope_held st now (lease_of lease)" using held_iff by blast+
    moreover have "scope_lease (team_exec now st op key) = (scope_lease (st key))\<lparr>SL_ExpiresAt := now + ttl\<rparr>"
      using CallRenewScope True by (auto simp: committed_snd_def RenewScope_def Let_def team_check_iff)
    ultimately show thesis using CallRenewScope by (intro renewed)
  next
    case False
    then show thesis using CallRenewScope
      by (intro same) (auto simp: committed_snd_def RenewScope_def Let_def team_check_iff split: option.split)
  qed
next
  case (CallReleaseScope ctx lease)
  show thesis
  proof (cases "SL_Scope lease = key \<and> ctx = None \<and> held now lease (st (SL_Scope lease))")
    case True
    then have "SL_Scope lease = key" "scope_held st now (lease_of lease)" using held_iff by blast+
    moreover have "scope_lease (team_exec now st op key) = no_lease"
      using CallReleaseScope True by (auto simp: committed_def ReleaseScope_def team_check_iff)
    ultimately show thesis using CallReleaseScope by (intro released)
  next
    case False
    then show thesis using CallReleaseScope by (intro same) (auto simp: committed_def ReleaseScope_def team_check_iff split: option.split)
  qed
next
  case (CallSaveTask ctx lease task ns)
  then show thesis using same save_lease by simp
next
  case (CallPutMessage ctx lease m)
  then show thesis by (intro same) (auto simp: committed_def PutMessage_def team_check_iff split: option.split sum.split)
next
  case (CallClaimMessages ctx bufs lease ns ttl)
  then show thesis by (intro same) (simp add: committed_snd_def ClaimMessages_def team_check_iff split: option.split prod.split)
next
  case (CallRequeueMessage ctx lease k tok)
  then show thesis using claim_lease
    by (intro same) (auto simp: committed_def RequeueMessage_def team_check_iff split: option.split sum.split)
next
  case (CallFinishMessage ctx lease k tok state reason)
  then show thesis using claim_lease
    by (intro same) (auto simp: committed_def FinishMessage_def team_check_iff split: option.split sum.split)
next
  case (CallPutArtifact ctx lease a)
  then show thesis by (intro same) (simp add: committed_def PutArtifact_def team_check_iff split: option.split)
next
  case (CallForkScope ctx parent child)
  then show thesis
    by (intro same) (auto simp: returned_def committed_def ForkScope_def team_check_iff split: option.split outcome.split sum.split)
qed

lemma scope_held_mono: "scope_held st t' l \<Longrightarrow> t \<le> t' \<Longrightarrow> scope_held st t l"
  by (auto simp: scope_held_def)

lemma team_no_revival:
  assumes "scope_held (team_exec t st op) t' l" "t \<le> t'" "\<not> scope_held st t l"
  shows "Lease_Token l \<in> team_mints t st op"
proof (cases rule: lease_cases[of t st op "Lease_Target l"])
  case same
  then show ?thesis using assms scope_held_mono[of st t' l t] by (simp add: scope_held_def)
next
  case (acquired ctx buf owner ttl)
  then show ?thesis using assms(1) by (simp add: scope_held_def)
next
  case (renewed ctx lease ttl)
  then show ?thesis using assms by (simp add: scope_held_def lease_of_def)
next
  case (released ctx lease)
  then show ?thesis using assms(1) by (auto simp: scope_held_def no_lease_def)
qed

lemma team_interference_free:
  assumes "scope_held st t' l" "t \<le> t'" "\<not> team_acts_for op l"
  shows "scope_held (team_exec t st op) t' l"
proof -
  have h: "scope_held st t l" by (rule scope_held_mono[OF assms(1,2)])
  have "scope_lease (team_exec t st op (Lease_Target l)) = scope_lease (st (Lease_Target l))"
  proof (cases rule: lease_cases[of t st op "Lease_Target l"])
    case (acquired ctx buf owner ttl)
    then show ?thesis using h by (simp add: scope_held_def)
  next
    case (renewed ctx lease ttl)
    then have "lease_of lease = l" using h by (cases l) (simp add: scope_held_def lease_of_def)
    then show ?thesis using renewed(1) assms(3) by simp
  next
    case (released ctx lease)
    then have "lease_of lease = l" using h by (cases l) (simp add: scope_held_def lease_of_def)
    then show ?thesis using released(1) assms(3) by simp
  qed
  then show ?thesis using assms(1) by (simp add: scope_held_def)
qed

lemma scope_held_unique: "\<lbrakk>scope_held st t l; scope_held st t l'; Lease_Target l = Lease_Target l'\<rbrakk> \<Longrightarrow> l = l'"
  by (cases l, cases l') (auto simp: scope_held_def)

interpretation team: fenced_leases team_exec scope_held Lease_Target Lease_Token team_mints team_acts_for
  by unfold_locales (blast intro: scope_held_mono team_no_revival scope_held_unique team_interference_free)+

lemma check_fails: "\<not> scope_held st now (lease_of lease) \<Longrightarrow> team_check now lease st = Inl ErrConflict"
  unfolding team_check_iff held_iff by simp

text \<open>
  C17. A scope lease that has expired or was replaced is fenced for good. Whatever calls anyone makes on the store
  afterwards (short of the entropy source repeating its token), no call that presents the lease gets through:
  renewing and releasing the scope, saving tasks, putting, claiming, requeueing and finishing messages, storing
  artifacts and forking from or into the scope are refused as stale.
\<close>

theorem team_lease_fenced:
  assumes "\<not> scope_held st t0 (lease_of l)" "sorted (t0 # map fst ops @ [t])" "SL_Token l \<notin> minted_in team_exec team_mints st ops"
    "serializable (Task_RemoteSnapshot task)" "serializable (Task_Input task)"
  shows "let st' = timed_run team_exec st ops in
     RenewScope None t l ttl st' = Inl ErrConflict \<and> ReleaseScope None t l st' = Inl ErrConflict
     \<and> SaveTask None t l task ns st' = Return (Inl ErrConflict) \<and> PutMessage None t l m st' = Inl ErrConflict
     \<and> ClaimMessages None t bufs l b ttl st' = Inl ErrConflict \<and> RequeueMessage None t l k tok st' = Inl ErrConflict
     \<and> FinishMessage None t l k tok state reason st' = Inl ErrConflict \<and> PutArtifact None t l a st' = Inl ErrConflict
     \<and> ForkScope None t l other st' = Return (Inl ErrConflict) \<and> ForkScope None t other l st' = Return (Inl ErrConflict)"
proof -
  have "Lease_Token (lease_of l) \<notin> minted_in team_exec team_mints st ops" using assms(3) by (simp add: lease_of_def)
  from check_fails[OF team.fencing[OF assms(1,2) this]]
  have c: "team_check t l (timed_run team_exec st ops) = Inl ErrConflict" .
  have o: "team_check t other (timed_run team_exec st ops) = Inl ErrConflict \<or> (\<exists>s. team_check t other (timed_run team_exec st ops) = Inr s)"
    by (simp add: team_check_iff)
  have "ForkScope None t other l (timed_run team_exec st ops) = Return (Inl ErrConflict)" using o c unfolding ForkScope_def by (elim disjE exE) simp_all
  then show ?thesis using c assms(4,5)
    by (simp only: Let_def RenewScope_def ReleaseScope_def SaveTask_def PutMessage_def ClaimMessages_def RequeueMessage_def FinishMessage_def
        PutArtifact_def ForkScope_def option.case sum.case bindE.simps if_cancel if_False simp_thms)
qed

subsection \<open>Well-formed scopes\<close>

definition reachable_store :: "(gotime \<times> TeamCall) list \<Rightarrow> TeamStore" where
  "reachable_store ops = timed_run team_exec NewMemoryStore ops"

lemma save_returns: "SaveTask ctx now lease task ns st \<noteq> Panic"
proof (cases "serializable (Task_RemoteSnapshot task) \<and> serializable (Task_Input task)")
  case True
  have "cloneTask task' = Return task'" if "place_task now task ts = Inr (task', i)" for ts task' i
    using cloneTask_serializable place_fields[OF that] True by simp
  then show ?thesis by (simp add: SaveTask_def split: option.split sum.split prod.split)
next
  case False
  then show ?thesis by (cases ctx; cases "serializable (Task_RemoteSnapshot task)") (simp_all add: SaveTask_def)
qed

lemma reachable_wf: "scope_wf key (reachable_store ops key)"
  using run_wf[of NewMemoryStore key ops] new_wf by (simp add: reachable_store_def)

text \<open>
  C18. The store stays well formed under any sequence of calls: in every scope the message IDs are distinct and not
  empty, the index finds exactly the message with an ID, the states are the four known ones, the tasks have distinct
  IDs, a positive revision, the scope they are stored under and structured values that can be copied, and artifacts
  have distinct IDs and URIs. So no call on the store panics.
\<close>

theorem team_store_wellformed:
  "scope_wf key (reachable_store ops key)
   \<and> (scope_messageIndex (reachable_store ops key) k = Some i
        \<longleftrightarrow> i < length (scope_messages (reachable_store ops key)) \<and> Inbox_ID (scope_messages (reachable_store ops key) ! i) = k)
   \<and> Tasks None key (reachable_store ops) = Return (Inr (scope_tasks (reachable_store ops key)))
   \<and> SaveTask ctx now lease task ns (reachable_store ops) \<noteq> Panic \<and> ForkScope ctx now parent child (reachable_store ops) \<noteq> Panic"
proof -
  let ?st = "reachable_store ops"
  have w: "scope_wf k (?st k)" for k by (rule reachable_wf)
  have c: "clone_tasks (scope_tasks (?st k)) = Return (scope_tasks (?st k))" for k using clone_tasks_wf w unfolding scope_wf_def by blast
  have "SaveTask ctx now lease task ns ?st \<noteq> Panic"
    by (rule save_returns)
  moreover have "ForkScope ctx now parent child ?st \<noteq> Panic"
    using c by (auto simp: ForkScope_def team_check_iff split: option.splits sum.splits)
  moreover have "Tasks None key ?st = Return (Inr (scope_tasks (?st key)))" using c by (simp add: Tasks_def)
  ultimately show ?thesis using w[of key] by (simp add: scope_wf_def inbox_wf_def)
qed

subsection \<open>Tasks\<close>

lemma task_unique:
  "\<lbrakk>tasks_wf key ts; i < length ts; j < length ts; Task_ID (ts ! i) = Task_ID (ts ! j)\<rbrakk> \<Longrightarrow> i = j"
  using nth_eq_iff_index_eq[of "map Task_ID ts" i j] by (simp add: tasks_wf_def)

lemma saved_task:
  assumes "SaveTask ctx now lease task ns st = Return (Inr (saved, st1))" "\<And>k. scope_wf k (st k)"
  obtains i where "i < length (scope_tasks (st1 (Task_Scope task)))" "scope_tasks (st1 (Task_Scope task)) ! i = saved"
    "saved = task\<lparr>Task_Revision := Suc (Task_Revision task), Task_UpdatedAt := now\<rparr>" "\<forall>k. scope_wf k (st1 k)"
proof -
  from assms(1) show thesis
  proof (cases rule: save_cases)
    case (1 messages i)
    let ?s = "st (SL_Scope lease)"
    have w: "scope_wf (SL_Scope lease) ?s" by (rule assms(2))
    then have tw: "tasks_wf (SL_Scope lease) (scope_tasks ?s)" by (simp add: scope_wf_def)
    note p = place_ok[OF tw 1(7,2,3,4,5)]
    have n: "st1 (SL_Scope lease) = setMessages messages (?s\<lparr>scope_tasks := put_task i saved (scope_tasks ?s)\<rparr>)" using 1(8) by simp
    have "scope_tasks (st1 (Task_Scope task)) = put_task i saved (scope_tasks ?s)" using 1(2) n by (simp add: setMessages_def)
    moreover have "scope_wf (SL_Scope lease) (st1 (SL_Scope lease))" unfolding n using set_messages_step[OF w 1(6) p(1,2)] by blast
    then have "scope_wf k (st1 k)" for k using assms(2)[of k] 1(8) by (cases "k = SL_Scope lease") simp_all
    moreover from 1(7) have "saved = task\<lparr>Task_Revision := Suc (Task_Revision task), Task_UpdatedAt := now\<rparr>"
      by (cases rule: place_cases) simp_all
    ultimately show thesis using p(3,4) by (intro that[of i]) simp_all
  qed
qed

lemma later_task:
  assumes "\<And>k. scope_wf k (st k)" "i < length (scope_tasks (st key))"
  shows "i < length (scope_tasks (timed_run team_exec st ops key))"
    "task_moves (scope_tasks (st key) ! i) (scope_tasks (timed_run team_exec st ops key) ! i)"
    "tasks_wf key (scope_tasks (timed_run team_exec st ops key))"
  using run_wf[of st key ops, OF assms(1)] assms(2) by (simp_all add: scope_moves_def scope_wf_def tasks_move_def)

text \<open>
  C14. Tasks are changed by compare-and-swap, without lost updates. A successful \<^verbatim>\<open>SaveTask\<close> stores the task with the
  next revision. From then on, whatever calls follow, the task stays in its scope under its ID, every change of it
  carries a higher revision and follows the state machine, a task saved in a terminal state keeps that state, and a
  save that presents the revision consumed here (a writer that read the task before this save) is refused.
\<close>

theorem team_task_cas:
  assumes "SaveTask ctx now lease task ns (reachable_store past) = Return (Inr (saved, st1))" "key = Task_Scope task"
  shows "saved = task\<lparr>Task_Revision := Suc (Task_Revision task), Task_UpdatedAt := now\<rparr>
    \<and> (\<exists>t \<in> set (scope_tasks (timed_run team_exec st1 ops key)). task_moves saved t \<and> (terminal (Task_State task) \<longrightarrow> Task_State t = Task_State task))
    \<and> (Task_ID u = Task_ID task \<and> Task_Scope u = key \<and> Task_Revision u = Task_Revision task
        \<longrightarrow> SaveTask ctx' now' lease' u ns' (timed_run team_exec st1 ops) \<noteq> Return (Inr r))"
proof -
  let ?st = "timed_run team_exec st1 ops"
  obtain i where i: "i < length (scope_tasks (st1 key))" "scope_tasks (st1 key) ! i = saved"
    "saved = task\<lparr>Task_Revision := Suc (Task_Revision task), Task_UpdatedAt := now\<rparr>" "\<forall>k. scope_wf k (st1 k)"
    unfolding assms(2) by (rule saved_task[OF assms(1) reachable_wf])
  define t where "t = scope_tasks (?st key) ! i"
  note l = later_task[OF i(4)[rule_format] i(1), of ops, folded t_def, unfolded i(2)]
  have t: "t \<in> set (scope_tasks (?st key))" using l(1) by (simp add: t_def)
  have f: "Task_State t = Task_State task" if "terminal (Task_State task)"
    using l(2) that i(3) terminal_final[of "Task_State saved" "Task_State t"] by (simp add: task_moves_def)
  have "SaveTask ctx' now' lease' u ns' ?st \<noteq> Return (Inr r)"
    if u: "Task_ID u = Task_ID task" "Task_Scope u = key" "Task_Revision u = Task_Revision task"
  proof
    obtain c s where r: "r = (c, s)" by fastforce
    assume "SaveTask ctx' now' lease' u ns' ?st = Return (Inr r)"
    then have "SaveTask ctx' now' lease' u ns' ?st = Return (Inr (c, s))" using r by simp
    then show False
    proof (cases rule: save_cases)
      case (1 messages j)
      have k: "SL_Scope lease' = key" using 1(2) u(2) by simp
      have m: "Task_ID t = Task_ID u" "Suc (Task_Revision u) \<le> Task_Revision t" using l(2) u i(3) by (simp_all add: task_moves_def)
      from 1(7) show False unfolding k
      proof (cases rule: place_cases)
        case replaced
        then have "j = i" using task_unique[OF l(3) replaced(1) l(1)] m(1) by (simp add: t_def)
        then show False using replaced(3) m(2) by (simp add: t_def)
      next
        case created
        then show False using imageI[OF t, of Task_ID] m(1) by simp
      qed
    qed
  qed
  moreover have "\<exists>t \<in> set (scope_tasks (?st key)). task_moves saved t \<and> (terminal (Task_State task) \<longrightarrow> Task_State t = Task_State task)"
    using l(2) f by (intro bexI[OF _ t] conjI impI)
  ultimately show ?thesis using i(3) by (intro conjI impI) simp_all
qed

subsection \<open>The inbox\<close>

lemma claim_loop_set: "claim_loop now until b bufs n ms = (claimed, ms') \<Longrightarrow> m \<in> set claimed
   \<Longrightarrow> m \<in> set ms' \<and> (\<exists>m0 \<in> set ms. inbox_claimable now b m0 \<and> (\<exists>tok. m = claim_one now until tok m0))"
proof (induction ms arbitrary: n claimed ms')
  case (Cons a ms)
  obtain n' c r where r: "claim_loop now until b bufs n' ms = (c, r)"
    "ms' = a # r \<and> claimed = c \<or> inbox_claimable now b a \<and> (\<exists>tok. ms' = claim_one now until tok a # r \<and> claimed = claim_one now until tok a # c)"
    using Cons.prems(1) by (auto split: if_splits prod.splits simp: Let_def)
  then show ?case using Cons.IH[OF r(1)] Cons.prems(2) by auto
qed simp

lemma claim_cases:
  assumes "ClaimMessages ctx now bufs lease b ttl st = Inr (claimed, st')"
  obtains ms where "held now lease (st (SL_Scope lease))" "claim_loop now (now + ttl) b bufs 0 (scope_messages (st (SL_Scope lease))) = (claimed, ms)"
    "st' = st(SL_Scope lease := (st (SL_Scope lease))\<lparr>scope_messages := ms\<rparr>)"
  using assms by (auto simp: ClaimMessages_def team_check_iff split: option.splits if_splits prod.splits)

lemma message_unique:
  "\<lbrakk>inbox_wf key ms idx; i < length ms; j < length ms; Inbox_ID (ms ! i) = Inbox_ID (ms ! j)\<rbrakk> \<Longrightarrow> i = j"
  using nth_eq_iff_index_eq[of "map Inbox_ID ms" i j] by (simp add: inbox_wf_def)

text \<open>A claim returns a message only if the message with its ID could be claimed.\<close>

lemma claims_claimable:
  assumes "ClaimMessages ctx now bufs lease b ttl st = Inr (claimed, st')" "scope_wf (SL_Scope lease) (st (SL_Scope lease))"
    "m \<in> set (scope_messages (st (SL_Scope lease)))" "Inbox_ID m \<in> Inbox_ID ` set claimed"
  shows "inbox_claimable now b m"
proof -
  from assms(1) obtain ms where l: "claim_loop now (now + ttl) b bufs 0 (scope_messages (st (SL_Scope lease))) = (claimed, ms)" by (rule claim_cases)
  obtain c where "c \<in> set claimed" "Inbox_ID c = Inbox_ID m" using assms(4) by auto
  then obtain m0 tok where m0: "m0 \<in> set (scope_messages (st (SL_Scope lease)))" "inbox_claimable now b m0" "c = claim_one now (now + ttl) tok m0"
    using claim_loop_set[OF l, of c] by blast
  then have "Inbox_ID m0 = Inbox_ID m" using \<open>Inbox_ID c = Inbox_ID m\<close> by (simp add: claim_one_def)
  then have "m0 = m" using m0(1) assms(2,3) message_unique unfolding scope_wf_def in_set_conv_nth by metis
  then show ?thesis using m0(2) by simp
qed

text \<open>
  C16. A delivery is final. Once \<^verbatim>\<open>FinishMessage\<close> has recorded a message as delivered, then whatever calls follow (renewed
  or new owners, admissions of the same ID, requeues) the message stays delivered, with the text, author and timing it had,
  and no claim ever returns it again.
\<close>

theorem team_delivered_final:
  assumes "FinishMessage ctx now lease k tok Delivered reason (reachable_store past) = Inr st1" "SL_Scope lease = key"
  shows "\<exists>m m'. m \<in> set (scope_messages (reachable_store past key)) \<and> Inbox_ID m = k \<and> live_claim now tok m
     \<and> m' \<in> set (scope_messages (timed_run team_exec st1 ops key)) \<and> Inbox_ID m' = k \<and> same_message m m' \<and> Inbox_State m' = Delivered
     \<and> (SL_Scope lease' = key \<and> ClaimMessages ctx' now' bufs lease' b ttl (timed_run team_exec st1 ops) = Inr (claimed, st2)
         \<longrightarrow> k \<notin> Inbox_ID ` set claimed)"
proof -
  let ?s = "reachable_store past key" and ?r = "timed_run team_exec st1 ops"
  have w: "\<And>k. scope_wf k (reachable_store past k)" by (rule reachable_wf)
  obtain s' where s': "on_claim now k tok (\<lambda>m. m\<lparr>Inbox_State := Delivered, Inbox_Reason := reason\<rparr>) ?s = Inr s'" "st1 = (reachable_store past)(key := s')"
    using assms by (auto simp: FinishMessage_def team_check_iff split: option.splits if_splits)
  then obtain i where i: "scope_messageIndex ?s k = Some i" "live_claim now tok (scope_messages ?s ! i)"
    "scope_messages s' = (scope_messages ?s)[i := (scope_messages ?s ! i)\<lparr>Inbox_State := Delivered, Inbox_Reason := reason\<rparr>]"
    by (auto simp: on_claim_def split: option.splits if_splits)
  define m where "m = scope_messages ?s ! i"
  have il: "i < length (scope_messages ?s)" "Inbox_ID m = k" using i(1) w[of key] by (simp_all add: scope_wf_def inbox_wf_def m_def)
  have e: "st1 = team_exec now (reachable_store past) (CallFinishMessage ctx lease k tok Delivered reason)" using assms by (simp add: committed_def)
  then have w1: "\<And>k. scope_wf k (st1 k)" using exec_wf[OF w] by metis
  have r: "scope_wf key (?r key)" "scope_moves (st1 key) (?r key)" using run_wf[OF w1] by blast+
  define m' where "m' = scope_messages (?r key) ! i"
  have n: "scope_messages (st1 key) ! i = m\<lparr>Inbox_State := Delivered, Inbox_Reason := reason\<rparr>" "i < length (scope_messages (st1 key))"
    using s'(2) i(3) il(1) by (simp_all add: m_def)
  then have mv: "message_moves (m\<lparr>Inbox_State := Delivered, Inbox_Reason := reason\<rparr>) m'" and il': "i < length (scope_messages (?r key))"
    using r(2) unfolding scope_moves_def inbox_moves_def m'_def by (metis, metis less_le_trans)
  have d: "Inbox_State m' = Delivered" "Inbox_ID m' = k" "same_message m m'" using mv il(2) by (simp_all add: message_moves_def same_message_def)
  have in': "m' \<in> set (scope_messages (?r key))" "m \<in> set (scope_messages ?s)" using il' il(1) by (simp_all add: m'_def m_def)
  have "k \<notin> Inbox_ID ` set claimed" if "SL_Scope lease' = key" "ClaimMessages ctx' now' bufs lease' b ttl ?r = Inr (claimed, st2)"
    using claims_claimable[OF that(2), unfolded that(1), OF r(1) in'(1)] d(1,2) by (auto simp: inbox_claimable_def)
  then show ?thesis using in' d il(2) i(2)[folded m_def] by (intro exI[of _ m] exI[of _ m'] conjI impI) simp_all
qed

fun settles_claim :: "string \<Rightarrow> string \<Rightarrow> TeamCall \<Rightarrow> bool" where
  "settles_claim k tok (CallRequeueMessage ctx lease k' tok') = (k' = k \<and> tok' = tok)"
| "settles_claim k tok (CallFinishMessage ctx lease k' tok' state reason) = (k' = k \<and> tok' = tok)"
| "settles_claim k tok _ = False"

definition at_index :: "memoryScope \<Rightarrow> nat \<Rightarrow> InboxMessage \<Rightarrow> bool" where
  "at_index s i m \<longleftrightarrow> i < length (scope_messages s) \<and> scope_messages s ! i = m"

lemma claim_loop_nth:
  "\<lbrakk>claim_loop now until b bufs n ms = (claimed, ms'); i < length ms; \<not> inbox_claimable now b (ms ! i)\<rbrakk> \<Longrightarrow> ms' ! i = ms ! i"
proof (induction ms arbitrary: n claimed ms' i)
  case (Cons a ms)
  obtain n' c r where r: "claim_loop now until b bufs n' ms = (c, r)" "ms' = a # r \<or> inbox_claimable now b a \<and> (\<exists>x. ms' = x # r)"
    using Cons.prems(1) by (auto split: if_splits prod.splits simp: Let_def)
  then show ?case using Cons.IH[OF r(1)] Cons.prems(2,3) by (cases i) auto
qed simp

lemma admission_keeps:
  assumes "scope_wf key s" "withMessages (scope_messages s) (scope_messageIndex s) key ns = Inr ms" "at_index s i m"
    "Inbox_State m = Delivering" "\<not> Inbox_Deferred m"
  shows "at_index (setMessages ms (s\<lparr>scope_tasks := ts\<rparr>)) i m"
proof -
  have "inbox_wf key (scope_messages s) (scope_messageIndex s)" using assms(1) by (simp add: scope_wf_def)
  from this assms(2) show ?thesis
  proof (rule admission)
    fix old fresh assume a: "\<And>i. i < length (scope_messages s) \<Longrightarrow> readmitted (scope_messages s ! i) (ms ! i)" "inbox_moves (scope_messages s) ms"
    then show ?thesis using a(1)[of i] assms(3-5) by (simp add: at_index_def setMessages_def readmitted_def inbox_moves_def)
  qed
qed

lemma on_claim_other:
  assumes "scope_wf key s" "on_claim now k tok f s = Inr s'" "at_index s i m" "\<not> (k = Inbox_ID m \<and> tok = Inbox_ClaimToken m)"
  shows "at_index s' i m"
proof -
  obtain j where j: "scope_messageIndex s k = Some j" "live_claim now tok (scope_messages s ! j)"
    "s' = s\<lparr>scope_messages := (scope_messages s)[j := f (scope_messages s ! j)]\<rparr>"
    using assms(2) by (auto simp: on_claim_def split: option.splits if_splits)
  then have "Inbox_ID (scope_messages s ! j) = k" "Inbox_ClaimToken (scope_messages s ! j) = tok"
    using assms(1) by (simp_all add: scope_wf_def inbox_wf_def live_claim_def)
  then have "j \<noteq> i" using assms(3,4) by (auto simp: at_index_def)
  then show ?thesis using assms(3) j(3) by (simp add: at_index_def)
qed

lemma claim_stays:
  assumes w: "\<And>k. scope_wf k (st k)" and m: "at_index (st (Lease_Target l)) i m" "Inbox_State m = Delivering" "\<not> Inbox_Deferred m"
    and live: "After (Inbox_ClaimUntil m) now" "scope_held st now l" and op: "\<not> team_acts_for op l" "\<not> settles_claim (Inbox_ID m) (Inbox_ClaimToken m) op"
  shows "at_index (team_exec now st op (Lease_Target l)) i m"
proof (cases op)
  case (CallAcquireScope ctx buf k owner ttl)
  then show ?thesis using m(1) live(2) by (auto simp: committed_snd_def AcquireScope_def Let_def scope_held_def split: option.split)
next
  case (CallRenewScope ctx lease ttl)
  have "\<not> (SL_Scope lease = Lease_Target l \<and> scope_held st now (lease_of lease))"
    using scope_held_unique[OF _ live(2), of "lease_of lease"] op(1) CallRenewScope by (auto simp: lease_of_def)
  then show ?thesis using CallRenewScope m(1) held_iff[of lease st now]
    by (auto simp: committed_snd_def RenewScope_def Let_def team_check_iff split: option.split)
next
  case (CallReleaseScope ctx lease)
  then show ?thesis using m(1) by (auto simp: committed_def ReleaseScope_def team_check_iff at_index_def split: option.split)
next
  case (CallSaveTask ctx lease task ns)
  show ?thesis
  proof (cases "SaveTask ctx now lease task ns st")
    case (Return r)
    show ?thesis
    proof (cases r)
      case (Inr p)
      obtain copy st' where p: "p = (copy, st')" by fastforce
      then have "SaveTask ctx now lease task ns st = Return (Inr (copy, st'))" using Return Inr by simp
      then show ?thesis
      proof (cases rule: save_cases)
        case (1 messages j)
        show ?thesis using admission_keeps[OF w 1(6)] 1(8) CallSaveTask Return Inr p m
          by (cases "SL_Scope lease = Lease_Target l") (simp_all add: returned_def committed_snd_def)
      qed
    qed (use CallSaveTask Return m in \<open>simp add: returned_def committed_snd_def\<close>)
  qed (use CallSaveTask m in \<open>simp add: returned_def\<close>)
next
  case (CallPutMessage ctx lease n)
  have "at_index (setMessages ms (st (SL_Scope lease))) i m" if "SL_Scope lease = Lease_Target l"
    "withMessages (scope_messages (st (SL_Scope lease))) (scope_messageIndex (st (SL_Scope lease))) (SL_Scope lease) [n] = Inr ms" for ms
    using admission_keeps[OF w that(2), of i m "scope_tasks (st (SL_Scope lease))"] that(1) m by simp
  then show ?thesis using CallPutMessage m(1) by (auto simp: committed_def PutMessage_def team_check_iff split: option.split sum.split)
next
  case (CallClaimMessages ctx bufs lease b ttl)
  have "\<not> inbox_claimable now b m" using m(2) live(1) by (simp add: inbox_claimable_def)
  then have "at_index ((st (SL_Scope lease))\<lparr>scope_messages := ms\<rparr>) i m"
    if "SL_Scope lease = Lease_Target l" "claim_loop now (now + ttl) b bufs 0 (scope_messages (st (SL_Scope lease))) = (claimed, ms)" for claimed ms
    using claim_loop_nth[OF that(2), of i] claim_loop_moves[OF that(2)] that(1) m(1) by (simp add: at_index_def)
  then show ?thesis using CallClaimMessages m(1)
    by (auto simp: committed_snd_def ClaimMessages_def team_check_iff split: option.split prod.split)
next
  case (CallRequeueMessage ctx lease k tok)
  then show ?thesis using on_claim_other[OF w[of "SL_Scope lease"]] m(1) op(2)
    by (auto simp: committed_def RequeueMessage_def team_check_iff split: option.split sum.split)
next
  case (CallFinishMessage ctx lease k tok state reason)
  then show ?thesis using on_claim_other[OF w[of "SL_Scope lease"]] m(1) op(2)
    by (auto simp: committed_def FinishMessage_def team_check_iff split: option.split sum.split)
next
  case (CallPutArtifact ctx lease a)
  then show ?thesis using m(1) by (auto simp: committed_def PutArtifact_def team_check_iff at_index_def split: option.split)
next
  case (CallForkScope ctx parent child)
  then show ?thesis using m(1)
    by (auto simp: returned_def committed_def ForkScope_def team_check_iff at_index_def split: option.split outcome.split sum.split)
qed

lemma claim_stays_run:
  assumes "\<And>k. scope_wf k (st k)" "at_index (st (Lease_Target l)) i m" "Inbox_State m = Delivering" "\<not> Inbox_Deferred m" "t < Inbox_ClaimUntil m"
    "scope_held st t l" "sorted (map fst ops @ [t])" "\<forall>(u, op) \<in> set ops. \<not> team_acts_for op l \<and> \<not> settles_claim (Inbox_ID m) (Inbox_ClaimToken m) op"
  shows "at_index (timed_run team_exec st ops (Lease_Target l)) i m \<and> scope_held (timed_run team_exec st ops) t l"
  using assms
proof (induction ops arbitrary: st)
  case (Cons uop ops)
  obtain u op where uop: "uop = (u, op)" by fastforce
  have u: "u \<le> t" "\<not> team_acts_for op l" "\<not> settles_claim (Inbox_ID m) (Inbox_ClaimToken m) op" "After (Inbox_ClaimUntil m) u" "scope_held st u l"
    using Cons.prems(5,7,8) uop scope_held_mono[OF Cons.prems(6)] by auto
  have "at_index (team_exec u st op (Lease_Target l)) i m" by (rule claim_stays[OF Cons.prems(1-4) u(4,5,2,3)])
  moreover have "scope_held (team_exec u st op) t l" by (rule team_interference_free[OF Cons.prems(6) u(1,2)])
  ultimately show ?case using Cons.IH[of "team_exec u st op"] exec_wf[OF Cons.prems(1)] Cons.prems(3-5,7,8) uop by simp
qed simp

text \<open>
  C15. A claim is exclusive while it lasts. A message that \<^verbatim>\<open>ClaimMessages\<close> handed out keeps its claim under any calls by
  anyone else (the same ID being admitted again, other claims, attempts to take the scope over) until the claim or
  the scope's lease runs out, unless the claim itself is requeued or finished or its owner renews or releases the
  lease: no claim in between returns the message, and its holder can still record the delivery.
\<close>

theorem team_claim_exclusive:
  assumes "ClaimMessages ctx t0 bufs lease b ttl (reachable_store past) = Inr (claimed, st1)" "m \<in> set claimed" "sorted (t0 # map fst ops @ [t])"
    "\<forall>(u, op) \<in> set ops. \<not> team_acts_for op (lease_of lease) \<and> \<not> settles_claim (Inbox_ID m) (Inbox_ClaimToken m) op"
    "t < t0 + ttl" "scope_held (reachable_store past) t (lease_of lease)"
  shows "m \<in> set (scope_messages (timed_run team_exec st1 ops (SL_Scope lease)))
    \<and> (SL_Scope lease' = SL_Scope lease \<and> ClaimMessages ctx' t bufs' lease' b' ttl' (timed_run team_exec st1 ops) = Inr (claimed', st2)
        \<longrightarrow> Inbox_ID m \<notin> Inbox_ID ` set claimed')
    \<and> (\<exists>st3. FinishMessage None t lease (Inbox_ID m) (Inbox_ClaimToken m) Delivered reason (timed_run team_exec st1 ops) = Inr st3)"
proof -
  let ?l = "lease_of lease" and ?s = "reachable_store past" and ?r = "timed_run team_exec st1 ops"
  have w: "\<And>k. scope_wf k (?s k)" by (rule reachable_wf)
  have e: "st1 = team_exec t0 ?s (CallClaimMessages ctx bufs lease b ttl)" using assms(1) by (simp add: committed_snd_def)
  have w1: "\<And>k. scope_wf k (st1 k)" unfolding e by (rule exec_wf[OF w])
  have tl: "Lease_Target ?l = SL_Scope lease" by (simp add: lease_of_def)
  from assms(1) obtain ms where c: "claim_loop t0 (t0 + ttl) b bufs 0 (scope_messages (?s (SL_Scope lease))) = (claimed, ms)"
    "st1 = ?s(SL_Scope lease := (?s (SL_Scope lease))\<lparr>scope_messages := ms\<rparr>)" by (rule claim_cases)
  from claim_loop_set[OF c(1) assms(2)] obtain m0 tok where m0: "m \<in> set ms" "inbox_claimable t0 b m0" "m = claim_one t0 (t0 + ttl) tok m0" by blast
  have m: "Inbox_State m = Delivering" "\<not> Inbox_Deferred m" "Inbox_ClaimUntil m = t0 + ttl"
    using m0(2,3) by (simp_all add: claim_one_def inbox_claimable_def)
  obtain i where i: "at_index (st1 (Lease_Target ?l)) i m" using m0(1) c(2) tl by (auto simp: at_index_def in_set_conv_nth)
  have h: "scope_held st1 t ?l" using assms(6) c(2) by (auto simp: scope_held_def)
  have so: "sorted (map fst ops @ [t])" using assms(3) by simp
  from claim_stays_run[OF w1 i m(1,2) _ h so assms(4)] m(3) assms(5) tl
  have a: "at_index (?r (SL_Scope lease)) i m" and hr: "scope_held ?r t ?l" by simp_all
  have wr: "scope_wf (SL_Scope lease) (?r (SL_Scope lease))" using run_wf[OF w1] by blast
  have in': "m \<in> set (scope_messages (?r (SL_Scope lease)))" using a by (auto simp: at_index_def)
  have "Inbox_ID m \<notin> Inbox_ID ` set claimed'"
    if "SL_Scope lease' = SL_Scope lease" "ClaimMessages ctx' t bufs' lease' b' ttl' ?r = Inr (claimed', st2)"
    using claims_claimable[OF that(2), unfolded that(1), OF wr in'] m assms(5) by (auto simp: inbox_claimable_def)
  moreover have "scope_messageIndex (?r (SL_Scope lease)) (Inbox_ID m) = Some i"
    using wr a by (auto simp: scope_wf_def inbox_wf_def at_index_def)
  then have "\<exists>st3. FinishMessage None t lease (Inbox_ID m) (Inbox_ClaimToken m) Delivered reason ?r = Inr st3"
    using hr a m assms(5) held_iff[of lease ?r t]
    by (simp add: FinishMessage_def team_check_iff on_claim_def live_claim_def at_index_def)
  ultimately show ?thesis using in' by blast
qed

subsection \<open>A sample\<close>

text \<open>An owner takes a scope, a notification is admitted and claimed.\<close>

definition sample_lease :: ScopeLease where
  "sample_lease = \<lparr>SL_Scope = ''s'', SL_Owner = ''o'', SL_Token = randomID ''k'', SL_ExpiresAt = 100\<rparr>"

definition sample_note :: InboxMessage where
  "sample_note = \<lparr>Inbox_Host = False, Inbox_Deferred = False, Inbox_RequiresOptions = False, Inbox_Timing = 0, Inbox_Scope = ''s'', Inbox_ID = ''n'',
     Inbox_Task = ''t'', Inbox_Text = ''done'', Inbox_From = \<lparr>Author_Kind = AuthorAgent, Author_ID = ''a'', Author_Name = ''a''\<rparr>, Inbox_Wake = True,
     Inbox_State = Pending, Inbox_ClaimToken = '''', Inbox_ClaimUntil = 0, Inbox_MaybeDuplicate = False, Inbox_Reason = '''', Inbox_CreatedAt = 1\<rparr>"

definition sample_task :: Task where
  "sample_task = \<lparr>Task_RemoteContext = '''', Task_RemoteTask = '''', Task_RemoteSnapshot = None, Task_Scope = ''s'', Task_ID = ''t'', Task_Member = ''m'',
     Task_Objective = ''work'', Task_Input = Some (JSONText ''{}''), Task_Conversation = '''', Task_Continues = '''', Task_State = Queued,
     Task_Revision = 0, Task_CreatedAt = 1, Task_UpdatedAt = 1, Task_Summary = '''', Task_Reason = '''', Task_Usage = None, Task_Unread = [],
     Task_Result = None\<rparr>"

definition sample_admitted :: "(gotime \<times> TeamCall) list" where
  "sample_admitted = [(0, CallAcquireScope None ''k'' ''s'' ''o'' 100), (1, CallPutMessage None sample_lease sample_note)]"

definition sample_claim :: TeamCall where
  "sample_claim = CallClaimMessages None (\<lambda>_. ''t'') sample_lease True 50"

definition sample_claimed :: InboxMessage where
  "sample_claimed = claim_one 2 52 (randomID ''t'') sample_note"

definition succeeded :: "('e + 'a) \<Rightarrow> bool" where
  "succeeded r = (case r of Inl _ \<Rightarrow> False | Inr _ \<Rightarrow> True)"

theorem team_lease_fenced_witness:
  "\<not> scope_held (reachable_store sample_admitted) 150 (lease_of sample_lease)
   \<and> PutMessage None 210 sample_lease sample_note (timed_run team_exec (reachable_store sample_admitted) [(200, CallAcquireScope None ''x'' ''s'' ''p'' 50)])
       = Inl ErrConflict"
proof -
  have e: "\<not> scope_held (reachable_store sample_admitted) 150 (lease_of sample_lease)" by code_simp
  have "SL_Token sample_lease \<notin> minted_in team_exec team_mints (reachable_store sample_admitted) [(200, CallAcquireScope None ''x'' ''s'' ''p'' 50)]"
    by (simp add: sample_lease_def randomID_def hexdigit_def)
  moreover have "sorted (150 # map fst [(200, CallAcquireScope None ''x'' ''s'' ''p'' 50)] @ [210::gotime])" by simp
  moreover have "serializable (Task_RemoteSnapshot sample_task)" "serializable (Task_Input sample_task)" by (simp_all add: sample_task_def)
  ultimately show ?thesis using team_lease_fenced[OF e] e unfolding Let_def by blast
qed

theorem team_task_cas_witness:
  "\<exists>st1. SaveTask None 2 sample_lease sample_task [] (reachable_store sample_admitted)
       = Return (Inr (sample_task\<lparr>Task_Revision := 1, Task_UpdatedAt := 2\<rparr>, st1))
     \<and> \<not> succeeded (case SaveTask None 3 sample_lease sample_task [] st1 of Panic \<Rightarrow> Inl ErrConflict | Return r \<Rightarrow> r)"
proof -
  have "succeeded (case SaveTask None 2 sample_lease sample_task [] (reachable_store sample_admitted) of Panic \<Rightarrow> Inl ErrConflict | Return r \<Rightarrow> r)"
    by code_simp
  then obtain saved st1 where s: "SaveTask None 2 sample_lease sample_task [] (reachable_store sample_admitted) = Return (Inr (saved, st1))"
    by (auto simp: succeeded_def split: outcome.splits sum.splits)
  note c = team_task_cas[OF s refl, of "[]" sample_task None 3 sample_lease "[]"]
  have "\<not> succeeded (case SaveTask None 3 sample_lease sample_task [] st1 of Panic \<Rightarrow> Inl ErrConflict | Return r \<Rightarrow> r)"
    using c by (auto simp: succeeded_def split: outcome.split sum.split)
  moreover have "saved = sample_task\<lparr>Task_Revision := 1, Task_UpdatedAt := 2\<rparr>" using c by (simp add: sample_task_def)
  ultimately show ?thesis using s by blast
qed

theorem team_delivered_final_witness:
  "\<exists>st1 m'. FinishMessage None 3 sample_lease ''n'' (randomID ''t'') Delivered '''' (reachable_store (sample_admitted @ [(2, sample_claim)])) = Inr st1
     \<and> m' \<in> set (scope_messages (team_exec 4 st1 (CallPutMessage None sample_lease sample_note) ''s'')) \<and> Inbox_State m' = Delivered"
proof -
  have "succeeded (FinishMessage None 3 sample_lease ''n'' (randomID ''t'') Delivered '''' (reachable_store (sample_admitted @ [(2, sample_claim)])))"
    by code_simp
  then obtain st1 where s: "FinishMessage None 3 sample_lease ''n'' (randomID ''t'') Delivered '''' (reachable_store (sample_admitted @ [(2, sample_claim)])) = Inr st1"
    by (auto simp: succeeded_def split: sum.splits)
  have "SL_Scope sample_lease = ''s''" by (simp add: sample_lease_def)
  from team_delivered_final[OF s this, of "[(4, CallPutMessage None sample_lease sample_note)]"]
  obtain m' where "m' \<in> set (scope_messages (timed_run team_exec st1 [(4, CallPutMessage None sample_lease sample_note)] ''s''))" "Inbox_State m' = Delivered"
    by blast
  then show ?thesis using s unfolding timed_run.simps by blast
qed

theorem team_claim_exclusive_witness:
  "\<exists>claimed st1 st3. ClaimMessages None 2 (\<lambda>_. ''t'') sample_lease True 50 (reachable_store sample_admitted) = Inr (claimed, st1)
     \<and> FinishMessage None 40 sample_lease ''n'' (randomID ''t'') Delivered '''' (team_exec 30 st1 (CallAcquireScope None ''x'' ''s'' ''p'' 50)) = Inr st3"
proof -
  have "case ClaimMessages None 2 (\<lambda>_. ''t'') sample_lease True 50 (reachable_store sample_admitted) of Inl _ \<Rightarrow> False
      | Inr (claimed, _) \<Rightarrow> claimed = [sample_claimed]" by code_simp
  then obtain claimed st1 where c: "ClaimMessages None 2 (\<lambda>_. ''t'') sample_lease True 50 (reachable_store sample_admitted) = Inr (claimed, st1)"
    "sample_claimed \<in> set claimed" by (auto split: sum.splits)
  have m: "Inbox_ID sample_claimed = ''n''" "Inbox_ClaimToken sample_claimed = randomID ''t''"
    by (simp_all add: sample_claimed_def claim_one_def sample_note_def)
  have h: "scope_held (reachable_store sample_admitted) 40 (lease_of sample_lease)" by code_simp
  have "\<forall>(u, op) \<in> set [(30, CallAcquireScope None ''x'' ''s'' ''p'' 50)]. \<not> team_acts_for op (lease_of sample_lease)
      \<and> \<not> settles_claim (Inbox_ID sample_claimed) (Inbox_ClaimToken sample_claimed) op" by simp
  from team_claim_exclusive[OF c _ this _ h] m c(1) show ?thesis by auto
qed

subsection \<open>Keys\<close>

lemma hexdigit_not_colon: "n < 10 \<Longrightarrow> hexdigit n \<noteq> CHR '':''"
proof -
  assume "n < 10"
  then have "n \<in> {0, 1, 2, 3, 4, 5, 6, 7, 8, 9}" by auto
  then show ?thesis by (auto simp: hexdigit_def)
qed

lemma hexdigit_inj: "\<lbrakk>m < 10; n < 10; hexdigit m = hexdigit n\<rbrakk> \<Longrightarrow> m = n"
proof -
  assume "m < 10" "n < 10" and h: "hexdigit m = hexdigit n"
  then have "m < length ''0123456789abcdef''" "n < length ''0123456789abcdef''" by simp_all
  moreover have "distinct ''0123456789abcdef''" by simp
  ultimately show ?thesis using h nth_eq_iff_index_eq[of "''0123456789abcdef''" m n] by (simp add: hexdigit_def)
qed

lemma decimal_no_colon: "CHR '':'' \<notin> set (decimal n)"
proof (induction n rule: decimal.induct)
  case (1 n)
  then show ?case using hexdigit_not_colon[of n] hexdigit_not_colon[of "n mod 10"] by (subst decimal.simps) auto
qed

lemma decimal_nonempty: "decimal n \<noteq> []"
  by (subst decimal.simps) simp

lemma decimal_inj: "decimal m = decimal n \<Longrightarrow> m = n"
proof (induction m arbitrary: n rule: decimal.induct)
  case (1 m)
  have m: "decimal m = (if m < 10 then [hexdigit m] else decimal (m div 10) @ [hexdigit (m mod 10)])" by (rule decimal.simps)
  have n: "decimal n = (if n < 10 then [hexdigit n] else decimal (n div 10) @ [hexdigit (n mod 10)])" by (rule decimal.simps)
  show ?case
  proof (cases "m < 10"; cases "n < 10")
    assume "m < 10" "n < 10"
    then show ?thesis using 1(2) m n hexdigit_inj by simp
  next
    assume a: "\<not> m < 10" "\<not> n < 10"
    then have "decimal (m div 10) = decimal (n div 10)" "hexdigit (m mod 10) = hexdigit (n mod 10)" using 1(2) m n by simp_all
    then have "m div 10 = n div 10" "m mod 10 = n mod 10" using 1(1)[OF a(1)] hexdigit_inj[of "m mod 10" "n mod 10"] by simp_all
    then show ?thesis by (metis div_mult_mod_eq)
  next
    assume "m < 10" "\<not> n < 10"
    then show ?thesis using 1(2) m n decimal_nonempty[of "n div 10"] by (cases "decimal (n div 10)") simp_all
  next
    assume "\<not> m < 10" "n < 10"
    then show ?thesis using 1(2) m n decimal_nonempty[of "m div 10"] by (cases "decimal (m div 10)") simp_all
  qed
qed

lemma colon_split: "\<lbrakk>CHR '':'' \<notin> set a; CHR '':'' \<notin> set b; a @ CHR '':'' # x = b @ CHR '':'' # y\<rbrakk> \<Longrightarrow> a = b \<and> x = y"
proof (induction a arbitrary: b)
  case Nil
  then show ?case by (cases b) auto
next
  case (Cons c a)
  then show ?case by (cases b) auto
qed

text \<open>
  The encoding of keys, with which conversations of members are named, is injective: no two tuples of strings, whatever
  their lengths and contents, share a key.
\<close>

theorem EncodeKey_injective: "EncodeKey xs = EncodeKey ys \<Longrightarrow> xs = ys"
proof (induction xs arbitrary: ys)
  case Nil
  then show ?case using decimal_nonempty by (cases ys) (auto simp: EncodeKey_def)
next
  case (Cons x xs)
  then obtain y ys' where ys: "ys = y # ys'" using decimal_nonempty by (cases ys) (auto simp: EncodeKey_def)
  have "decimal (length x) @ CHR '':'' # (x @ EncodeKey xs) = decimal (length y) @ CHR '':'' # (y @ EncodeKey ys')"
    using Cons.prems ys by (simp add: EncodeKey_def)
  from colon_split[OF decimal_no_colon decimal_no_colon this]
  have "decimal (length x) = decimal (length y)" "x @ EncodeKey xs = y @ EncodeKey ys'" by simp_all
  then have "x = y" "EncodeKey xs = EncodeKey ys'" using decimal_inj[of "length x" "length y"] by simp_all
  then show ?case using Cons.IH ys by simp
qed

end
