(* ===== verification/JsonNumber.thy ===== *)
theory JsonNumber
  imports Complex_Main GoStd "HOL-Library.Word"
begin

text \<open>
  \<^verbatim>\<open>internal/jsonnumber/integer.go\<close>: reading integers from decoded JSON without rounding. A finite floating-point
  number is the rational it stands for. \<^verbatim>\<open>json.Valid\<close> is needed for texts that start like a number only (every other
  text is refused by the test of the first character), so it is the grammar of JSON numbers, as a parser into literals.
\<close>

subsection \<open>Decimal digits\<close>

definition is_digit :: "char \<Rightarrow> bool" where
  "is_digit c \<longleftrightarrow> 48 \<le> (of_char c :: nat) \<and> (of_char c :: nat) \<le> 57"

definition digit_val :: "char \<Rightarrow> int" where
  "digit_val c = int (of_char c) - 48"

fun digits_value :: "string \<Rightarrow> int" where
  "digits_value [] = 0"
| "digits_value (c # cs) = digit_val c * 10 ^ length cs + digits_value cs"

subsection \<open>JSON number literals\<close>

datatype json_lit = Lit (lit_neg: bool) (lit_whole: string) (lit_frac: "string option") (lit_exp: "(char \<times> string \<times> string) option")

definition parse_frac :: "string \<Rightarrow> (string option \<times> string) option" where
  "parse_frac s = (case s of [] \<Rightarrow> Some (None, [])
     | c # t \<Rightarrow> if c = CHR ''.'' then (if takeWhile is_digit t = [] then None else Some (Some (takeWhile is_digit t), dropWhile is_digit t))
               else Some (None, s))"

definition split_sign :: "string \<Rightarrow> string \<times> string" where
  "split_sign s = (case s of [] \<Rightarrow> ([], []) | c # t \<Rightarrow> if c = CHR ''+'' \<or> c = CHR ''-'' then ([c], t) else ([], s))"

definition parse_exp :: "string \<Rightarrow> (char \<times> string \<times> string) option option" where
  "parse_exp s = (case s of [] \<Rightarrow> Some None
     | c # t \<Rightarrow> if (c = CHR ''e'' \<or> c = CHR ''E'') \<and> snd (split_sign t) \<noteq> [] \<and> list_all is_digit (snd (split_sign t))
               then Some (Some (c, split_sign t)) else None)"

definition parse_number :: "string \<Rightarrow> json_lit option" where
  "parse_number raw =
     (let neg = (raw \<noteq> [] \<and> hd raw = CHR ''-''); s = (if neg then tl raw else raw); whole = takeWhile is_digit s
      in if whole = [] \<or> hd whole = CHR ''0'' \<and> 1 < length whole then None
         else case parse_frac (dropWhile is_digit s) of None \<Rightarrow> None
           | Some (fraction, rest) \<Rightarrow> map_option (Lit neg whole fraction) (parse_exp rest))"

definition is_space :: "char \<Rightarrow> bool" where
  "is_space c \<longleftrightarrow> c \<in> {CHR '' '', CHR 0x09, CHR 0x0A, CHR 0x0D}"

definition json_Valid :: "string \<Rightarrow> bool" where
  "json_Valid raw \<longleftrightarrow> parse_number (rev (dropWhile is_space (rev (dropWhile is_space raw)))) \<noteq> None"

subsection \<open>The code\<close>

definition ToLower :: "string \<Rightarrow> string" where
  "ToLower s = map (\<lambda>c. if 65 \<le> (of_char c :: nat) \<and> (of_char c :: nat) \<le> 90 then char_of (of_char c + 32 :: nat) else c) s"

definition strings_Cut :: "string \<Rightarrow> char \<Rightarrow> string \<times> string \<times> bool" where
  "strings_Cut s c = (takeWhile (\<lambda>x. x \<noteq> c) s, tl (dropWhile (\<lambda>x. x \<noteq> c) s), c \<in> set s)"

text \<open>\<^verbatim>\<open>strconv.ParseInt\<close> and \<^verbatim>\<open>ParseUint\<close> in base 10 with 64 bits\<close>

definition ParseInt :: "string \<Rightarrow> int option" where
  "ParseInt s = (let (sg, ds) = split_sign s; n = (if sg = ''-'' then - digits_value ds else digits_value ds)
     in if ds \<noteq> [] \<and> list_all is_digit ds \<and> - (2 ^ 63) \<le> n \<and> n < 2 ^ 63 then Some n else None)"

definition ParseUint :: "string \<Rightarrow> int \<times> bool" where
  "ParseUint s = (if s = [] \<or> \<not> list_all is_digit s then (0, False)
     else if digits_value s < 2 ^ 64 then (digits_value s, True) else (2 ^ 64 - 1, False))"

definition refused :: "bool \<times> int \<times> bool" where
  "refused = (False, 0, False)"

text \<open>The digits of the number scaled by a power of ten, if they are those of an integer.\<close>

definition scale_digits :: "int \<Rightarrow> string \<Rightarrow> string option" where
  "scale_digits scale digits =
     (if scale < 0 then
        let cut = int (length digits) + scale
        in if cut \<le> 0 \<or> \<not> list_all (\<lambda>c. c = CHR ''0'') (drop (nat cut) digits) then None else Some (take (nat cut) digits)
      else if 0 < scale then
        (if 20 < int (length digits) + scale then None else Some (digits @ replicate (nat scale) CHR ''0''))
      else Some digits)"

definition jsonInteger :: "string \<Rightarrow> bool \<times> int \<times> bool" where
  "jsonInteger raw =
     (if raw = [] \<or> TrimSpace raw \<noteq> raw \<or> \<not> json_Valid raw then refused
      else let negative = (hd raw = CHR ''-''); raw1 = (if negative then tl raw else raw)
      in if \<not> is_digit (hd raw1) then refused
      else let (mantissa, exponent, hasExponent) = strings_Cut (ToLower raw1) (CHR ''e'');
               (whole, fraction, _) = strings_Cut mantissa (CHR ''.'');
               digits = dropWhile (\<lambda>c. c = CHR ''0'') (whole @ fraction)
      in if digits = [] then (negative, 0, True)
      else case (if hasExponent
                 then case ParseInt exponent of None \<Rightarrow> None
                   | Some e \<Rightarrow> if int (length mantissa) + 20 < e \<or> e < - int (length mantissa) then None else Some e
                 else Some 0) of
        None \<Rightarrow> refused
      | Some e \<Rightarrow>
          case scale_digits (e - int (length fraction)) digits of None \<Rightarrow> refused
          | Some ds \<Rightarrow> (negative, ParseUint ds))"

text \<open>
  The values \<^verbatim>\<open>integer\<close> distinguishes: signed Go integers (durations too), unsigned ones, floats, JSON numbers.
\<close>

datatype go_float = Finite rat | NaN | Infinite bool

datatype go_value = SignedValue int | UnsignedValue int | Float32Value go_float | Float64Value go_float | NumberValue string | OtherValue

definition of_signed :: "int \<Rightarrow> bool \<times> int \<times> bool" where
  "of_signed n = (if n < 0 then (True, uint ((word_of_int (- (n + 1)) :: 64 word) + 1), True) else (False, n, True))"

definition float64_integer :: "go_float \<Rightarrow> bool \<times> int \<times> bool" where
  "float64_integer x = (case x of Finite n \<Rightarrow> if of_int \<lfloor>n\<rfloor> \<noteq> n \<or> 2 ^ 53 - 1 < \<bar>n\<bar> then refused else of_signed \<lfloor>n\<rfloor> | _ \<Rightarrow> refused)"

fun go_integer :: "go_value \<Rightarrow> bool \<times> int \<times> bool" where
  "go_integer (SignedValue n) = of_signed n"
| "go_integer (UnsignedValue n) = (False, n, True)"
| "go_integer (Float32Value x) = (case x of Finite n \<Rightarrow> if 2 ^ 24 - 1 < \<bar>n\<bar> then refused else float64_integer x
     | Infinite _ \<Rightarrow> refused | NaN \<Rightarrow> float64_integer x)"
| "go_integer (Float64Value x) = float64_integer x"
| "go_integer (NumberValue raw) = jsonInteger raw"
| "go_integer OtherValue = refused"

text \<open>The conversions between 64-bit integers wrap around.\<close>

definition Int64 :: "go_value \<Rightarrow> int option" where
  "Int64 value = (case go_integer value of (negative, magnitude, ok) \<Rightarrow>
     if \<not> ok \<or> \<not> negative \<and> 2 ^ 63 - 1 < magnitude \<or> negative \<and> 2 ^ 63 < magnitude then None
     else if negative then Some (sint (- (word_of_int magnitude :: 64 word))) else Some (sint (word_of_int magnitude :: 64 word)))"

text \<open>\<^verbatim>\<open>Int\<close> for a platform whose \<^verbatim>\<open>int\<close> has the given number of bits\<close>

definition go_Int :: "nat \<Rightarrow> go_value \<Rightarrow> int option" where
  "go_Int bits value = (case Int64 value of None \<Rightarrow> None | Some n \<Rightarrow> if signed_take_bit (bits - 1) n \<noteq> n then None else Some n)"

definition Uint64 :: "go_value \<Rightarrow> int option" where
  "Uint64 value = (case go_integer value of (negative, magnitude, ok) \<Rightarrow> if \<not> ok \<or> negative \<and> magnitude \<noteq> 0 then None else Some magnitude)"

subsection \<open>Digits and their values\<close>

lemma digit_val_bounds:
  assumes "is_digit c"
  shows "0 \<le> digit_val c" "digit_val c \<le> 9"
  using assms by (simp_all add: is_digit_def digit_val_def)

lemma digit_val_zero: "is_digit c \<Longrightarrow> digit_val c = 0 \<longleftrightarrow> c = CHR ''0''"
proof -
  assume "is_digit c"
  have "digit_val c = 0 \<longleftrightarrow> (of_char c :: nat) = of_char (CHR ''0'')" by (simp add: digit_val_def)
  then show ?thesis by (simp only: of_char_eq_iff)
qed

lemma digits_value_append: "digits_value (xs @ ys) = digits_value xs * 10 ^ length ys + digits_value ys"
  by (induction xs) (simp_all add: algebra_simps power_add)

lemma digits_value_bounds: "list_all is_digit xs \<Longrightarrow> 0 \<le> digits_value xs \<and> digits_value xs < 10 ^ length xs"
proof (induction xs)
  case (Cons c cs)
  then have c: "is_digit c" and cs: "0 \<le> digits_value cs" "digits_value cs < 10 ^ length cs" by simp_all
  have "0 \<le> digit_val c * 10 ^ length cs" "digit_val c * 10 ^ length cs \<le> 9 * 10 ^ length cs"
    using digit_val_bounds[OF c] by (intro mult_nonneg_nonneg mult_right_mono; simp)+
  moreover have "(10 :: int) ^ length (c # cs) = 9 * 10 ^ length cs + 10 ^ length cs" by simp
  ultimately show ?case using cs unfolding digits_value.simps by linarith
qed simp

lemma digits_value_zero: "list_all is_digit xs \<Longrightarrow> digits_value xs = 0 \<longleftrightarrow> list_all (\<lambda>c. c = CHR ''0'') xs"
proof (induction xs)
  case (Cons c cs)
  then have c: "is_digit c" and cs: "0 \<le> digits_value cs" using digits_value_bounds[of cs] by simp_all
  have "0 \<le> digit_val c * 10 ^ length cs" using digit_val_bounds[OF c] by simp
  then have "digits_value (c # cs) = 0 \<longleftrightarrow> digit_val c * 10 ^ length cs = 0 \<and> digits_value cs = 0"
    using cs unfolding digits_value.simps by linarith
  then show ?case using Cons digit_val_zero[OF c] by simp
qed simp

lemma digits_value_trim: "list_all is_digit xs \<Longrightarrow> digits_value (dropWhile (\<lambda>c. c = CHR ''0'') xs) = digits_value xs"
  by (induction xs) (auto simp: digit_val_def)

lemma digits_value_large: "\<lbrakk>list_all is_digit (c # cs); c \<noteq> CHR ''0''\<rbrakk> \<Longrightarrow> 10 ^ length cs \<le> digits_value (c # cs)"
proof -
  assume a: "list_all is_digit (c # cs)" "c \<noteq> CHR ''0''"
  then have c: "is_digit c" and cs: "0 \<le> digits_value cs" using digits_value_bounds[of cs] by simp_all
  have "digit_val c \<noteq> 0" using a(2) digit_val_zero[OF c] by simp
  then have "1 \<le> digit_val c" using digit_val_bounds[OF c] by linarith
  then have "1 * 10 ^ length cs \<le> digit_val c * 10 ^ length cs" by (intro mult_right_mono) simp_all
  then show ?thesis using cs unfolding digits_value.simps by linarith
qed

lemma digits_value_replicate: "digits_value (xs @ replicate n CHR ''0'') = digits_value xs * 10 ^ n"
proof -
  have "list_all is_digit (replicate n CHR ''0'')" by (simp add: list_all_iff is_digit_def)
  then have "digits_value (replicate n CHR ''0'') = 0" using digits_value_zero by (simp add: list_all_iff)
  then show ?thesis by (simp add: digits_value_append)
qed

subsection \<open>Scaling is exact\<close>

text \<open>The value of \<open>d\<close> times a power of ten, when it is an integer.\<close>

definition integral :: "int \<Rightarrow> int \<Rightarrow> bool" where
  "integral d s \<longleftrightarrow> 0 \<le> s \<or> 10 ^ nat (- s) dvd d"

definition scaled :: "int \<Rightarrow> int \<Rightarrow> int" where
  "scaled d s = (if 0 \<le> s then d * 10 ^ nat s else d div 10 ^ nat (- s))"

lemma scaled_rat:
  "of_int d * (10 :: rat) powi s \<in> \<int> \<longleftrightarrow> integral d s" "integral d s \<Longrightarrow> of_int d * (10 :: rat) powi s = of_int (scaled d s)"
proof -
  have "(of_int d * (10 :: rat) powi s \<in> \<int> \<longleftrightarrow> integral d s) \<and> (integral d s \<longrightarrow> of_int d * (10 :: rat) powi s = of_int (scaled d s))"
  proof (cases "0 \<le> s")
    case True
    then have "of_int d * (10 :: rat) powi s = of_int (d * 10 ^ nat s)" by (simp add: power_int_def)
    then show ?thesis using True by (auto simp: integral_def scaled_def simp del: of_int_mult)
  next
    case False
    define k where "k = nat (- s)"
    have q: "of_int d * (10 :: rat) powi s = of_int d / of_int (10 ^ k)" using False by (simp add: power_int_def k_def field_simps)
    have i: "of_int d / of_int (10 ^ k) = (of_int x :: rat) \<longleftrightarrow> d = x * 10 ^ k" for x
    proof -
      have "of_int d / of_int (10 ^ k) = (of_int x :: rat) \<longleftrightarrow> (of_int d :: rat) = of_int (x * 10 ^ k)" by (simp add: field_simps)
      then show ?thesis by (simp only: of_int_eq_iff)
    qed
    have "of_int d * (10 :: rat) powi s \<in> \<int> \<longleftrightarrow> (\<exists>x. d = x * 10 ^ k)" unfolding q by (metis Ints_cases Ints_of_int i)
    moreover have "(\<exists>x. d = x * 10 ^ k) \<longleftrightarrow> integral d s" using False by (auto simp: integral_def k_def dvd_def mult.commute)
    moreover have "d = scaled d s * 10 ^ k" if "integral d s" using that False by (simp add: integral_def scaled_def k_def)
    ultimately show ?thesis using q i by metis
  qed
  then show "of_int d * (10 :: rat) powi s \<in> \<int> \<longleftrightarrow> integral d s" "integral d s \<Longrightarrow> of_int d * (10 :: rat) powi s = of_int (scaled d s)" by blast+
qed

lemma scaled_large: "\<lbrakk>10 ^ k \<le> d; 0 \<le> s; 20 \<le> k + nat s\<rbrakk> \<Longrightarrow> 2 ^ 64 \<le> scaled d s"
proof -
  assume a: "10 ^ k \<le> d" "0 \<le> s" "20 \<le> k + nat s"
  have "(10 :: int) ^ 20 \<le> 10 ^ (k + nat s)" using a(3) by (intro power_increasing) simp_all
  also have "\<dots> \<le> d * 10 ^ nat s" using a(1) by (simp add: power_add mult_right_mono)
  finally show ?thesis using a(2) by (simp add: scaled_def)
qed

lemma integral_small: "\<lbrakk>0 < d; d < 10 ^ k; s < 0; k \<le> nat (- s)\<rbrakk> \<Longrightarrow> \<not> integral d s"
proof -
  assume a: "0 < d" "d < 10 ^ k" "s < 0" "k \<le> nat (- s)"
  have "(10 :: int) ^ k \<le> 10 ^ nat (- s)" using a(4) by (intro power_increasing) simp_all
  then have "\<not> 10 ^ nat (- s) dvd d" using a(1,2) zdvd_imp_le[of "10 ^ nat (- s)" d] by linarith
  then show ?thesis using a(3) by (simp add: integral_def)
qed

lemma integral_cut:
  assumes b: "list_all is_digit b"
  shows "integral (digits_value (a @ b)) (- int (length b)) \<longleftrightarrow> list_all (\<lambda>c. c = CHR ''0'') b"
    and "list_all (\<lambda>c. c = CHR ''0'') b \<Longrightarrow> scaled (digits_value (a @ b)) (- int (length b)) = digits_value a"
proof -
  have v: "0 \<le> digits_value b" "digits_value b < 10 ^ length b" using digits_value_bounds[OF b] by simp_all
  have "integral (digits_value (a @ b)) (- int (length b)) \<longleftrightarrow> 10 ^ length b dvd digits_value a * 10 ^ length b + digits_value b"
    by (cases "b = []") (simp_all add: integral_def digits_value_append)
  also have "\<dots> \<longleftrightarrow> 10 ^ length b dvd digits_value b" by (rule dvd_add_right_iff) simp
  also have "\<dots> \<longleftrightarrow> digits_value b = 0" using v zdvd_not_zless[of "digits_value b" "10 ^ length b"] by (cases "digits_value b = 0") auto
  finally show "integral (digits_value (a @ b)) (- int (length b)) \<longleftrightarrow> list_all (\<lambda>c. c = CHR ''0'') b"
    using digits_value_zero[OF b] by simp
  assume "list_all (\<lambda>c. c = CHR ''0'') b"
  then have "digits_value b = 0" using digits_value_zero[OF b] by simp
  then show "scaled (digits_value (a @ b)) (- int (length b)) = digits_value a"
    by (cases "b = []") (simp_all add: scaled_def digits_value_append)
qed

lemma scale_digits_cut:
  assumes ds: "list_all is_digit digits" and cut: "s < 0" "0 < int (length digits) + s"
  shows "case scale_digits s digits of
      None \<Rightarrow> \<not> (integral (digits_value digits) s \<and> scaled (digits_value digits) s < 2 ^ 64)
    | Some ds \<Rightarrow> integral (digits_value digits) s \<and> ds \<noteq> [] \<and> list_all is_digit ds \<and> digits_value ds = scaled (digits_value digits) s"
proof -
  define n where "n = nat (int (length digits) + s)"
  define a where "a = take n digits"
  define b where "b = drop n digits"
  have n: "0 < n" "n \<le> length digits" using cut by (simp_all add: n_def)
  have ab: "a @ b = digits" by (simp add: a_def b_def)
  have "int (length b) = - s" using cut by (simp add: b_def n_def)
  then have s: "s = - int (length b)" by simp
  have "list_all is_digit (a @ b)" unfolding ab by (rule ds)
  then have d: "list_all is_digit a" "list_all is_digit b" by simp_all
  have "a \<noteq> []" using n by (auto simp: a_def)
  have sc: "scale_digits s digits = (if list_all (\<lambda>c. c = CHR ''0'') b then Some a else None)"
    using cut by (auto simp: scale_digits_def Let_def a_def b_def n_def)
  have "integral (digits_value digits) s \<longleftrightarrow> list_all (\<lambda>c. c = CHR ''0'') b"
    "list_all (\<lambda>c. c = CHR ''0'') b \<Longrightarrow> scaled (digits_value digits) s = digits_value a"
    using integral_cut[OF d(2), of a] unfolding ab s[symmetric] by simp_all
  then show ?thesis using sc d \<open>a \<noteq> []\<close> by simp
qed

lemma scale_digits_exact:
  assumes ds: "list_all is_digit (c # cs)" and c: "c \<noteq> CHR ''0''"
  shows "case scale_digits s (c # cs) of
      None \<Rightarrow> \<not> (integral (digits_value (c # cs)) s \<and> scaled (digits_value (c # cs)) s < 2 ^ 64)
    | Some ds \<Rightarrow> integral (digits_value (c # cs)) s \<and> ds \<noteq> [] \<and> list_all is_digit ds \<and> digits_value ds = scaled (digits_value (c # cs)) s"
proof -
  let ?digits = "c # cs"
  have low: "10 ^ length cs \<le> digits_value ?digits" by (rule digits_value_large[OF ds c])
  have high: "digits_value ?digits < 10 ^ length ?digits" using digits_value_bounds[OF ds] by simp
  have "(0 :: int) < 10 ^ length cs" by simp
  then have pos: "0 < digits_value ?digits" using low by linarith
  consider (short) "s < 0" "int (length ?digits) + s \<le> 0" | (cut) "s < 0" "0 < int (length ?digits) + s" | (zero) "s = 0" | (long) "0 < s" by linarith
  then show ?thesis
  proof cases
    case short
    then have "scale_digits s ?digits = None" by (simp add: scale_digits_def)
    moreover have "\<not> integral (digits_value ?digits) s"
    proof (rule integral_small[OF pos high])
      show "s < 0" by (fact short(1))
      show "length ?digits \<le> nat (- s)" using short(2) by linarith
    qed
    ultimately show ?thesis by simp
  next
    case cut
    then show ?thesis by (rule scale_digits_cut[OF ds])
  next
    case zero
    then show ?thesis using ds by (simp add: scale_digits_def integral_def scaled_def)
  next
    case long
    then show ?thesis
    proof (cases "20 < int (length ?digits) + s")
      case True
      have "2 ^ 64 \<le> scaled (digits_value ?digits) s"
      proof (rule scaled_large[OF low])
        show "0 \<le> s" using long by simp
        show "20 \<le> length cs + nat s" using long True by (simp add: nat_add_distrib; linarith)
      qed
      then show ?thesis using long True by (simp add: scale_digits_def)
    next
      case False
      have "digits_value (?digits @ replicate (nat s) CHR ''0'') = scaled (digits_value ?digits) s"
        unfolding digits_value_replicate using long by (simp add: scaled_def)
      moreover have "list_all is_digit (replicate (nat s) CHR ''0'')" by (simp add: list_all_iff is_digit_def)
      ultimately show ?thesis using long False ds by (simp add: scale_digits_def integral_def)
    qed
  qed
qed

subsection \<open>The grammar of numbers\<close>

text \<open>
  The grammar of RFC 8259, as the literals and their texts: no superfluous leading zero, digits on both sides of the
  decimal point, an optional sign in the exponent. \<open>lit_value\<close> is the number a literal stands for.
\<close>

definition digit_run :: "string \<Rightarrow> bool" where
  "digit_run ds \<longleftrightarrow> ds \<noteq> [] \<and> list_all is_digit ds"

definition wf_exp :: "(char \<times> string \<times> string) option \<Rightarrow> bool" where
  "wf_exp ex \<longleftrightarrow> (case ex of None \<Rightarrow> True
     | Some (c, sg, ds) \<Rightarrow> c \<in> {CHR ''e'', CHR ''E''} \<and> sg \<in> {[], ''+'', ''-''} \<and> digit_run ds)"

definition wf_frac :: "string option \<Rightarrow> bool" where
  "wf_frac fraction \<longleftrightarrow> (case fraction of None \<Rightarrow> True | Some f \<Rightarrow> digit_run f)"

fun wf_lit :: "json_lit \<Rightarrow> bool" where
  "wf_lit (Lit neg whole fraction ex) \<longleftrightarrow>
     digit_run whole \<and> (hd whole = CHR ''0'' \<longrightarrow> length whole = 1) \<and> wf_frac fraction \<and>
     wf_exp ex"

definition frac_text :: "string option \<Rightarrow> string" where
  "frac_text fraction = (case fraction of None \<Rightarrow> [] | Some f \<Rightarrow> CHR ''.'' # f)"

definition exp_text :: "(char \<times> string \<times> string) option \<Rightarrow> string" where
  "exp_text ex = (case ex of None \<Rightarrow> [] | Some (c, sg, ds) \<Rightarrow> c # sg @ ds)"

fun show_lit :: "json_lit \<Rightarrow> string" where
  "show_lit (Lit neg whole fraction ex) = (if neg then ''-'' else []) @ whole @ frac_text fraction @ exp_text ex"

definition frac_digits :: "string option \<Rightarrow> string" where
  "frac_digits fraction = (case fraction of None \<Rightarrow> [] | Some f \<Rightarrow> f)"

definition exp_value :: "(char \<times> string \<times> string) option \<Rightarrow> int" where
  "exp_value ex = (case ex of None \<Rightarrow> 0 | Some (c, sg, ds) \<Rightarrow> if sg = ''-'' then - digits_value ds else digits_value ds)"

fun lit_value :: "json_lit \<Rightarrow> rat" where
  "lit_value (Lit neg whole fraction ex) =
     (if neg then - 1 else 1) * of_int (digits_value (whole @ frac_digits fraction)) * 10 powi (exp_value ex - int (length (frac_digits fraction)))"

lemma not_digits [simp]:
  "\<not> is_digit (CHR ''.'')" "\<not> is_digit (CHR ''e'')" "\<not> is_digit (CHR ''E'')" "\<not> is_digit (CHR ''+'')" "\<not> is_digit (CHR ''-'')"
  "is_digit (CHR ''0'')"
  by (simp_all add: is_digit_def)

lemma digits_then:
  "\<lbrakk>list_all is_digit ds; rest = [] \<or> \<not> is_digit (hd rest)\<rbrakk> \<Longrightarrow> takeWhile is_digit (ds @ rest) = ds \<and> dropWhile is_digit (ds @ rest) = rest"
  by (induction ds) (cases rest; simp)+

lemma split_sign_text:
  "\<lbrakk>sg \<in> {[], ''+'', ''-''}; digit_run ds\<rbrakk> \<Longrightarrow> split_sign (sg @ ds) = (sg, ds)"
  by (cases ds) (auto simp: split_sign_def digit_run_def)

lemma split_sign_join: "fst (split_sign s) @ snd (split_sign s) = s" "fst (split_sign s) \<in> {[], ''+'', ''-''}"
  by (auto simp: split_sign_def split: list.splits)

lemma parse_exp_iff:
  "parse_exp s = Some ex \<longleftrightarrow> s = exp_text ex \<and>
     wf_exp ex"
proof (cases s)
  case Nil
  then show ?thesis by (cases ex) (auto simp: parse_exp_def wf_exp_def exp_text_def)
next
  case (Cons c t)
  have "parse_exp (c # t) = Some ex" if x: "c # t = exp_text ex"
    "wf_exp ex"
  proof -
    obtain sg ds where ex: "ex = Some (c, sg, ds)" "t = sg @ ds" using x(1) by (auto simp: exp_text_def split: option.splits)
    then have "split_sign t = (sg, ds)" "c = CHR ''e'' \<or> c = CHR ''E''" "digit_run ds" using x(2) split_sign_text by (simp_all add: wf_exp_def)
    then show ?thesis using ex by (auto simp: parse_exp_def wf_exp_def digit_run_def)
  qed
  moreover have "c # t = exp_text ex \<and>
     wf_exp ex"
    if "parse_exp (c # t) = Some ex"
    using that split_sign_join[of t] by (cases "split_sign t") (auto simp: parse_exp_def wf_exp_def exp_text_def digit_run_def split: if_splits)
  ultimately show ?thesis unfolding Cons by blast
qed

lemma parse_frac_text:
  "\<lbrakk>wf_frac fraction; rest = [] \<or> hd rest \<in> {CHR ''e'', CHR ''E''}\<rbrakk>
   \<Longrightarrow> parse_frac (frac_text fraction @ rest) = Some (fraction, rest)"
proof (cases fraction)
  case None
  then show "rest = [] \<or> hd rest \<in> {CHR ''e'', CHR ''E''} \<Longrightarrow> ?thesis" by (cases rest) (auto simp: parse_frac_def frac_text_def)
next
  case (Some f)
  assume "wf_frac fraction" "rest = [] \<or> hd rest \<in> {CHR ''e'', CHR ''E''}"
  then have f: "f \<noteq> []" and t: "takeWhile is_digit (f @ rest) = f" "dropWhile is_digit (f @ rest) = rest"
    using Some digits_then[of f rest] by (auto simp: digit_run_def wf_frac_def)
  have "parse_frac (CHR ''.'' # f @ rest) = Some (Some f, rest)" unfolding parse_frac_def list.case t using f by simp
  then show ?thesis using Some by (simp add: frac_text_def)
qed

lemma parse_frac_join:
  "parse_frac s = Some (fraction, rest) \<Longrightarrow> s = frac_text fraction @ rest \<and> wf_frac fraction"
  by (auto simp: parse_frac_def frac_text_def wf_frac_def digit_run_def list_all_iff dest: set_takeWhileD split: list.splits if_splits)

lemma exp_text_hd: "wf_exp ex \<Longrightarrow> exp_text ex = [] \<or> hd (exp_text ex) \<in> {CHR ''e'', CHR ''E''}"
  by (auto simp: wf_exp_def exp_text_def split: option.splits)

lemma tail_text_hd: "wf_exp ex \<Longrightarrow> frac_text fraction @ exp_text ex = [] \<or> \<not> is_digit (hd (frac_text fraction @ exp_text ex))"
  using exp_text_hd[of ex] by (cases fraction) (auto simp: frac_text_def)

text \<open>The parser accepts exactly the texts of the grammar, each with its literal.\<close>

lemma parse_show_lit: "wf_lit l \<Longrightarrow> parse_number (show_lit l) = Some l"
proof (cases l)
  case (Lit neg whole fraction ex)
  assume "wf_lit l"
  then have wf: "whole \<noteq> []" "list_all is_digit whole" "hd whole = CHR ''0'' \<longrightarrow> length whole = 1" "wf_frac fraction" "wf_exp ex"
    using Lit by (simp_all add: digit_run_def)
  define rest where "rest = frac_text fraction @ exp_text ex"
  have t: "takeWhile is_digit (whole @ rest) = whole" "dropWhile is_digit (whole @ rest) = rest"
    using digits_then[OF wf(2)] tail_text_hd[OF wf(5)] unfolding rest_def by blast+
  have "is_digit (hd (whole @ rest))" using wf(1,2) by (cases whole) simp_all
  then have neg: "(show_lit l \<noteq> [] \<and> hd (show_lit l) = CHR ''-'') = neg" "(if neg then tl (show_lit l) else show_lit l) = whole @ rest"
    using Lit wf(1) by (auto simp: rest_def)
  have "parse_frac rest = Some (fraction, exp_text ex)" unfolding rest_def using wf(4) exp_text_hd[OF wf(5)] by (rule parse_frac_text)
  moreover have "parse_exp (exp_text ex) = Some ex" using wf(5) parse_exp_iff by blast
  ultimately show ?thesis unfolding parse_number_def Let_def neg t using wf Lit by auto
qed

lemma show_parse_number: "parse_number raw = Some l \<Longrightarrow> wf_lit l \<and> raw = show_lit l"
proof -
  assume p: "parse_number raw = Some l"
  define neg where "neg = (raw \<noteq> [] \<and> hd raw = CHR ''-'')"
  define s where "s = (if neg then tl raw else raw)"
  define whole where "whole = takeWhile is_digit s"
  obtain fraction rest ex where w: "whole \<noteq> []" "\<not> (hd whole = CHR ''0'' \<and> 1 < length whole)"
    and f: "parse_frac (dropWhile is_digit s) = Some (fraction, rest)" and e: "parse_exp rest = Some ex" and l: "l = Lit neg whole fraction ex"
    using p unfolding parse_number_def Let_def neg_def[symmetric] s_def[symmetric] whole_def[symmetric]
    by (auto split: if_splits option.splits)
  have "raw = (if neg then ''-'' else []) @ s" by (cases raw) (auto simp: neg_def s_def)
  moreover have "s = whole @ dropWhile is_digit s" by (simp add: whole_def)
  moreover have "list_all is_digit whole" by (auto simp: whole_def list_all_iff dest: set_takeWhileD)
  ultimately show ?thesis using w l parse_frac_join[OF f] e[unfolded parse_exp_iff] by (cases whole) (auto simp: digit_run_def)
qed

lemma parse_number_iff: "parse_number raw = Some l \<longleftrightarrow> wf_lit l \<and> raw = show_lit l"
  using parse_show_lit show_parse_number by blast

subsection \<open>Surrounding space\<close>

lemma drop_prefixes_id: "drop_prefixes ps s = s \<longleftrightarrow> s = [] \<or> (\<forall>p \<in> set ps. p \<noteq> [] \<longrightarrow> \<not> is_prefix p s)"
proof (cases "List.find (\<lambda>p. p \<noteq> [] \<and> is_prefix p s) ps")
  case None
  then have "drop_prefixes ps s = s" by (subst drop_prefixes.simps) simp
  then show ?thesis using None by (auto simp: find_None_iff)
next
  case (Some p)
  then have p: "p \<in> set ps" "p \<noteq> []" "is_prefix p s" by (auto simp: find_Some_iff)
  have "drop_prefixes ps s \<noteq> s" if "s \<noteq> []"
  proof
    assume eq: "drop_prefixes ps s = s"
    have "drop_prefixes ps s = drop_prefixes ps (drop (length p) s)" using Some that by (subst drop_prefixes.simps) simp
    moreover obtain pre where "drop (length p) s = pre @ drop_prefixes ps (drop (length p) s)" using drop_prefixes_suffix by blast
    ultimately have "drop (length p) s = pre @ s" using eq by simp
    from arg_cong[OF this, of length] have "length s - length p = length pre + length s" by simp
    moreover have "0 < length p" "0 < length s" using p(2) that by simp_all
    ultimately show False by linarith
  qed
  then show ?thesis using p by auto
qed

lemma drop_prefixes_length: "length (drop_prefixes ps s) \<le> length s"
proof -
  obtain pre where "s = pre @ drop_prefixes ps s" using drop_prefixes_suffix by blast
  from arg_cong[OF this, of length] show ?thesis by simp
qed

lemma TrimSpace_id: "TrimSpace s = s \<longleftrightarrow> drop_prefixes space_runes s = s \<and> drop_prefixes (map rev space_runes) (rev s) = rev s"
proof
  assume t: "TrimSpace s = s"
  obtain pre where pre: "s = pre @ drop_prefixes space_runes s" using drop_prefixes_suffix by blast
  have "length s \<le> length (drop_prefixes space_runes s)"
    using arg_cong[OF t, of length] drop_prefixes_length[of "map rev space_runes" "rev (drop_prefixes space_runes s)"] by (simp add: TrimSpace_def)
  then have "pre = []" using arg_cong[OF pre, of length] by simp
  then have "drop_prefixes space_runes s = s" using pre by simp
  moreover from this have "drop_prefixes (map rev space_runes) (rev s) = rev s" using t unfolding TrimSpace_def by (metis rev_rev_ident)
  ultimately show "drop_prefixes space_runes s = s \<and> drop_prefixes (map rev space_runes) (rev s) = rev s" by simp
qed (simp add: TrimSpace_def)

lemma trimmed_ends:
  assumes "TrimSpace s = s" "s \<noteq> []"
  shows "\<not> is_space (hd s)" "\<not> is_space (last s)"
proof -
  have "\<forall>p \<in> set space_runes. p \<noteq> [] \<longrightarrow> \<not> is_prefix p s" "\<forall>p \<in> set (map rev space_runes). p \<noteq> [] \<longrightarrow> \<not> is_prefix p (rev s)"
    using assms unfolding TrimSpace_id drop_prefixes_id by simp_all
  then have "\<not> is_prefix [c] s" "\<not> is_prefix [c] (rev s)" if "is_space c" for c using that by (auto simp: space_runes_def is_space_def)
  moreover have "is_prefix [hd s] s" using assms(2) by (cases s) simp_all
  moreover have "is_prefix [last s] (rev s)" using assms(2) by (cases s rule: rev_cases) simp_all
  ultimately show "\<not> is_space (hd s)" "\<not> is_space (last s)" by blast+
qed

lemma not_spaced:
  assumes "is_digit (last s)" "s \<noteq> []" "is_digit (hd s) \<or> hd s = CHR ''-''"
  shows "TrimSpace s = s"
proof -
  have "\<not> is_prefix p s" if "p \<in> set space_runes" for p
    using that assms(2,3) by (cases s) (auto simp: space_runes_def is_digit_def)
  moreover have "\<not> is_prefix p (rev s)" if "p \<in> set (map rev space_runes)" for p
    using that assms(1,2) by (cases s rule: rev_cases) (auto simp: space_runes_def is_digit_def)
  ultimately show ?thesis unfolding TrimSpace_id drop_prefixes_id by blast
qed

lemma show_lit_ends:
  assumes "wf_lit l"
  shows "show_lit l \<noteq> []" "is_digit (last (show_lit l))" "is_digit (hd (show_lit l)) \<or> hd (show_lit l) = CHR ''-''"
proof -
  obtain neg whole fraction ex where l: "l = Lit neg whole fraction ex" by (cases l)
  have wf: "whole \<noteq> []" "list_all is_digit whole" "wf_frac fraction" "wf_exp ex" using assms l by (simp_all add: digit_run_def)
  have d: "list_all is_digit xs \<Longrightarrow> xs \<noteq> [] \<Longrightarrow> is_digit (last xs)" for xs by (simp add: list_all_iff)
  show "show_lit l \<noteq> []" using l wf(1) by simp
  show "is_digit (hd (show_lit l)) \<or> hd (show_lit l) = CHR ''-''" using l wf(1,2) by (cases whole) simp_all
  show "is_digit (last (show_lit l))"
    using l wf d by (auto simp: frac_text_def exp_text_def wf_frac_def wf_exp_def digit_run_def split: option.splits)
qed

text \<open>The three tests at the head of \<^verbatim>\<open>jsonInteger\<close> amount to the grammar.\<close>

lemma guard_exact: "raw = [] \<or> TrimSpace raw \<noteq> raw \<or> \<not> json_Valid raw \<longleftrightarrow> parse_number raw = None"
proof (cases "raw = [] \<or> TrimSpace raw \<noteq> raw")
  case True
  have "raw \<noteq> []" "TrimSpace raw = raw" if p: "parse_number raw = Some l" for l
    using show_parse_number[OF p] show_lit_ends[of l] not_spaced[of raw] by simp_all
  then have "parse_number raw = None" using True by (cases "parse_number raw") simp_all
  then show ?thesis using True by blast
next
  case False
  have ends: "\<not> is_space (hd raw)" "\<not> is_space (last raw)" using trimmed_ends False by simp_all
  from ends(1) have "dropWhile is_space raw = raw" by (cases raw) simp_all
  moreover from ends(2) have "dropWhile is_space (rev raw) = rev raw" by (cases raw rule: rev_cases) simp_all
  ultimately show ?thesis using False by (simp add: json_Valid_def)
qed

subsection \<open>Taking a literal apart\<close>

lemma strings_Cut_found: "c \<notin> set a \<Longrightarrow> strings_Cut (a @ c # b) c = (a, b, True)"
proof -
  assume "c \<notin> set a"
  then have "takeWhile (\<lambda>x. x \<noteq> c) (a @ c # b) = a" "dropWhile (\<lambda>x. x \<noteq> c) (a @ c # b) = c # b" by (induction a) auto
  then show ?thesis by (simp add: strings_Cut_def)
qed

lemma strings_Cut_absent: "c \<notin> set a \<Longrightarrow> strings_Cut a c = (a, [], False)"
proof -
  assume "c \<notin> set a"
  then have "takeWhile (\<lambda>x. x \<noteq> c) a = a" "dropWhile (\<lambda>x. x \<noteq> c) a = []" by (induction a) auto
  then show ?thesis unfolding strings_Cut_def using \<open>c \<notin> set a\<close> by (simp only: list.sel prod.inject)
qed

lemma ToLower_append: "ToLower (a @ b) = ToLower a @ ToLower b"
  by (simp add: ToLower_def)

lemma ToLower_digits: "list_all is_digit ds \<Longrightarrow> ToLower ds = ds"
  by (induction ds) (simp_all add: ToLower_def is_digit_def)

lemma ToLower_frac: "wf_frac fraction \<Longrightarrow> ToLower (frac_text fraction) = frac_text fraction"
  using ToLower_digits by (auto simp: frac_text_def wf_frac_def digit_run_def ToLower_def split: option.splits)

lemma ToLower_exp: "wf_exp (Some (c, sg, ds)) \<Longrightarrow> ToLower (exp_text (Some (c, sg, ds))) = CHR ''e'' # sg @ ds"
proof -
  assume "wf_exp (Some (c, sg, ds))"
  then have "c \<in> {CHR ''e'', CHR ''E''}" "sg \<in> {[], ''+'', ''-''}" "list_all is_digit ds" by (auto simp: wf_exp_def digit_run_def)
  moreover have "(char_of (101 :: nat) :: char) = CHR ''e''" by code_simp
  ultimately have "ToLower [c] = ''e''" "ToLower sg = sg" "ToLower ds = ds" using ToLower_digits by (auto simp: ToLower_def)
  moreover have "exp_text (Some (c, sg, ds)) = [c] @ sg @ ds" by (simp add: exp_text_def)
  ultimately show ?thesis by (simp only: ToLower_append) simp
qed

lemma digits_exclude: "\<lbrakk>list_all is_digit ds; \<not> is_digit c\<rbrakk> \<Longrightarrow> c \<notin> set ds"
  by (auto simp: list_all_iff)

lemma cut_exponent:
  assumes "list_all is_digit whole" "wf_frac fraction" "wf_exp ex"
  shows "strings_Cut (ToLower (whole @ frac_text fraction @ exp_text ex)) (CHR ''e'') =
    (whole @ frac_text fraction, (case ex of None \<Rightarrow> [] | Some (c, sg, ds) \<Rightarrow> sg @ ds), ex \<noteq> None)"
proof -
  have no: "CHR ''e'' \<notin> set (whole @ frac_text fraction)"
    using assms(1,2) digits_exclude not_digits(2) by (auto simp: frac_text_def wf_frac_def digit_run_def split: option.splits)
  have low: "ToLower (whole @ frac_text fraction @ exp_text ex) = (whole @ frac_text fraction) @ ToLower (exp_text ex)"
    by (simp add: ToLower_append ToLower_digits[OF assms(1)] ToLower_frac[OF assms(2)])
  show ?thesis
  proof (cases ex)
    case None
    then have "ToLower (exp_text ex) = []" by (simp add: exp_text_def ToLower_def)
    then show ?thesis using strings_Cut_absent[OF no] None unfolding low by simp
  next
    case (Some x)
    obtain c sg ds where x: "x = (c, sg, ds)" by (cases x)
    then have "ToLower (exp_text ex) = CHR ''e'' # sg @ ds" using ToLower_exp assms(3) Some by blast
    then show ?thesis using strings_Cut_found[OF no] Some x unfolding low by simp
  qed
qed

lemma cut_fraction:
  assumes "list_all is_digit whole"
  shows "\<exists>found. strings_Cut (whole @ frac_text fraction) (CHR ''.'') = (whole, frac_digits fraction, found)"
proof -
  have "CHR ''.'' \<notin> set whole" using digits_exclude[OF assms] not_digits(1) by blast
  then show ?thesis using strings_Cut_found strings_Cut_absent by (cases fraction) (auto simp: frac_text_def frac_digits_def)
qed

lemma ParseInt_text:
  "wf_exp (Some (c, sg, ds)) \<Longrightarrow>
     ParseInt (sg @ ds) = (if - (2 ^ 63) \<le> exp_value (Some (c, sg, ds)) \<and> exp_value (Some (c, sg, ds)) < 2 ^ 63 then Some (exp_value (Some (c, sg, ds))) else None)"
  using split_sign_text[of sg ds] by (auto simp: ParseInt_def wf_exp_def digit_run_def exp_value_def Let_def)

lemma jsonInteger_lit:
  assumes "wf_lit (Lit neg whole fraction ex)"
  shows "jsonInteger (show_lit (Lit neg whole fraction ex)) =
    (let digits = dropWhile (\<lambda>c. c = CHR ''0'') (whole @ frac_digits fraction); m = int (length (whole @ frac_text fraction)); e = exp_value ex
     in if digits = [] then (neg, 0, True)
        else if ex \<noteq> None \<and> (e < - (2 ^ 63) \<or> 2 ^ 63 \<le> e \<or> m + 20 < e \<or> e < - m) then refused
        else case scale_digits (e - int (length (frac_digits fraction))) digits of None \<Rightarrow> refused | Some ds \<Rightarrow> (neg, ParseUint ds))"
proof -
  let ?raw = "show_lit (Lit neg whole fraction ex)"
  have wf: "whole \<noteq> []" "list_all is_digit whole" "wf_frac fraction" "wf_exp ex" using assms by (simp_all add: digit_run_def)
  have "parse_number ?raw \<noteq> None" using parse_show_lit[OF assms] by simp
  then have guard: "\<not> (?raw = [] \<or> TrimSpace ?raw \<noteq> ?raw \<or> \<not> json_Valid ?raw)" unfolding guard_exact .
  have d: "is_digit (hd whole)" using wf(1,2) by (cases whole) simp_all
  then have neg: "(hd ?raw = CHR ''-'') = neg" "(if neg then tl ?raw else ?raw) = whole @ frac_text fraction @ exp_text ex"
    "is_digit (hd (whole @ frac_text fraction @ exp_text ex))"
    using wf(1) by (auto simp: hd_append)
  obtain found where cut: "strings_Cut (whole @ frac_text fraction) (CHR ''.'') = (whole, frac_digits fraction, found)"
    using cut_fraction[OF wf(2)] by blast
  have e: "(if ex \<noteq> None then case ParseInt (case ex of None \<Rightarrow> [] | Some (c, sg, ds) \<Rightarrow> sg @ ds) of None \<Rightarrow> None
             | Some e \<Rightarrow> if m + 20 < e \<or> e < - m then None else Some e else Some 0) =
        (if ex \<noteq> None \<and> (exp_value ex < - (2 ^ 63) \<or> 2 ^ 63 \<le> exp_value ex \<or> m + 20 < exp_value ex \<or> exp_value ex < - m) then None
         else Some (exp_value ex))" for m
  proof (cases ex)
    case (Some x)
    then obtain c sg ds where "ex = Some (c, sg, ds)" by (cases x) auto
    then show ?thesis using ParseInt_text[of c sg ds] wf(4) by auto
  qed (simp add: exp_value_def)
  let ?C = "\<lambda>m :: int. ex \<noteq> None \<and> (exp_value ex < - (2 ^ 63) \<or> 2 ^ 63 \<le> exp_value ex \<or> m + 20 < exp_value ex \<or> exp_value ex < - m)"
  have c: "(case if ?C m then None else Some (exp_value ex) of None \<Rightarrow> x | Some e \<Rightarrow> y e) = (if ?C m then x else y (exp_value ex))"
    for m x and y :: "int \<Rightarrow> bool \<times> int \<times> bool" by simp
  show ?thesis
    unfolding jsonInteger_def if_not_P[OF guard] Let_def neg(1,2) cut_exponent[OF wf(2-4)] prod.case cut e c
    using neg(3) by (simp only: not_True_eq_False if_False)
qed

subsection \<open>Exactness\<close>

lemma exponent_out_of_range:
  assumes "0 < d" "d < 10 ^ k" "int k \<le> m" "0 \<le> f" "f \<le> m" "m < 2 ^ 62"
    and "e < - (2 ^ 63) \<or> 2 ^ 63 \<le> e \<or> m + 20 < e \<or> e < - m"
  shows "\<not> (integral d (e - f) \<and> scaled d (e - f) < 2 ^ 64)"
proof (cases "m + 20 < e")
  case True
  have "2 ^ 64 \<le> scaled d (e - f)"
  proof (rule scaled_large[of 0])
    show "10 ^ 0 \<le> d" using assms(1) by simp
    show "0 \<le> e - f" using True assms(5) by linarith
    show "20 \<le> 0 + nat (e - f)" using True assms(5) by linarith
  qed
  then show ?thesis by simp
next
  case False
  then have e: "e < - m" using assms(3,6,7) by auto
  have "\<not> integral d (e - f)"
  proof (rule integral_small[OF assms(1,2)])
    show "e - f < 0" using e assms(3,4) by linarith
    show "k \<le> nat (- (e - f))" using e assms(3,4) by linarith
  qed
  then show ?thesis by simp
qed

definition lit_digits :: "json_lit \<Rightarrow> int" where
  "lit_digits l = digits_value (lit_whole l @ frac_digits (lit_frac l))"

definition lit_scale :: "json_lit \<Rightarrow> int" where
  "lit_scale l = exp_value (lit_exp l) - int (length (frac_digits (lit_frac l)))"

lemma jsonInteger_exact:
  assumes wf: "wf_lit l" and len: "length (show_lit l) < 2 ^ 62"
  shows "if integral (lit_digits l) (lit_scale l) \<and> scaled (lit_digits l) (lit_scale l) < 2 ^ 64
    then jsonInteger (show_lit l) = (lit_neg l, scaled (lit_digits l) (lit_scale l), True)
    else \<not> snd (snd (jsonInteger (show_lit l)))"
proof -
  obtain neg whole fraction ex where l: "l = Lit neg whole fraction ex" by (cases l)
  let ?ds = "whole @ frac_digits fraction" and ?f = "int (length (frac_digits fraction))" and ?e = "exp_value ex"
  let ?m = "int (length (whole @ frac_text fraction))"
  define digits where "digits = dropWhile (\<lambda>c. c = CHR ''0'') ?ds"
  define d where "d = lit_digits l"
  have w: "list_all is_digit whole" "wf_frac fraction" using wf l by (simp_all add: digit_run_def)
  then have all: "list_all is_digit ?ds" by (auto simp: frac_digits_def wf_frac_def digit_run_def split: option.splits)
  have dv: "d = digits_value digits" by (simp add: d_def lit_digits_def l digits_def digits_value_trim[OF all])
  have "list_all is_digit digits" using all unfolding digits_def list_all_iff by (auto dest: set_dropWhileD)
  note j = jsonInteger_lit[OF wf[unfolded l], folded l digits_def, unfolded Let_def, folded digits_def]
  show ?thesis
  proof (cases digits)
    case Nil
    then have "d = 0" "jsonInteger (show_lit l) = (neg, 0, True)" using dv j by simp_all
    then show ?thesis unfolding d_def[symmetric] using l by (simp add: scaled_def integral_def)
  next
    case (Cons c cs)
    have c: "c \<noteq> CHR ''0''" using Cons hd_dropWhile[of "\<lambda>c. c = CHR ''0''" ?ds] unfolding digits_def[symmetric] by simp
    have ds: "list_all is_digit (c # cs)" using \<open>list_all is_digit digits\<close> Cons by simp
    have "(0 :: int) < 10 ^ length cs" by simp
    then have pos: "0 < d" unfolding dv Cons using digits_value_large[OF ds c] by linarith
    have up: "d < 10 ^ length digits" using digits_value_bounds \<open>list_all is_digit digits\<close> dv by simp
    have small: "int (length digits) \<le> ?m" "?f \<le> ?m" "?m < 2 ^ 62"
      using length_dropWhile_le[of "\<lambda>c. c = CHR ''0''" ?ds] len l unfolding digits_def
      by (auto simp: frac_text_def frac_digits_def split: option.splits)
    show ?thesis
    proof (cases "ex \<noteq> None \<and> (?e < - (2 ^ 63) \<or> 2 ^ 63 \<le> ?e \<or> ?m + 20 < ?e \<or> ?e < - ?m)")
      case True
      then have "\<not> (integral d (?e - ?f) \<and> scaled d (?e - ?f) < 2 ^ 64)" using exponent_out_of_range[OF pos up small(1) _ small(2,3)] by simp
      moreover have "jsonInteger (show_lit l) = refused" using j True Cons by simp
      ultimately show ?thesis using l unfolding d_def by (simp add: lit_scale_def refused_def)
    next
      case False
      then have "jsonInteger (show_lit l) = (case scale_digits (?e - ?f) (c # cs) of None \<Rightarrow> refused | Some ds \<Rightarrow> (neg, ParseUint ds))"
        unfolding j if_not_P[OF False] using Cons by simp
      then show ?thesis using scale_digits_exact[OF ds c, of "?e - ?f"] l unfolding Cons[symmetric] dv[symmetric] d_def[symmetric]
        by (auto simp: lit_scale_def refused_def ParseUint_def split: option.splits)
    qed
  qed
qed

lemma lit_value_scaled:
  "lit_value l = of_int n \<longleftrightarrow> integral (lit_digits l) (lit_scale l) \<and> n = (if lit_neg l then - 1 else 1) * scaled (lit_digits l) (lit_scale l)"
proof (cases l)
  case (Lit neg whole fraction ex)
  let ?x = "of_int (lit_digits l) * (10 :: rat) powi lit_scale l" and ?u = "if neg then - 1 else 1 :: int"
  have "lit_value l = of_int ?u * ?x" using Lit by (simp add: lit_digits_def lit_scale_def)
  then have "lit_value l = of_int n \<longleftrightarrow> ?x = of_int (?u * n)" by (auto simp: minus_equation_iff)
  also have "\<dots> \<longleftrightarrow> integral (lit_digits l) (lit_scale l) \<and> ?u * n = scaled (lit_digits l) (lit_scale l)"
    using scaled_rat[of "lit_digits l" "lit_scale l"] by (metis Ints_of_int of_int_eq_iff)
  finally show ?thesis using Lit by auto
qed

lemma scaled_nonneg: "wf_lit l \<Longrightarrow> 0 \<le> scaled (lit_digits l) (lit_scale l)"
proof -
  assume "wf_lit l"
  then have "list_all is_digit (lit_whole l @ frac_digits (lit_frac l))"
    by (cases l) (auto simp: frac_digits_def wf_frac_def digit_run_def split: option.splits)
  from digits_value_bounds[OF this] show ?thesis by (simp add: scaled_def lit_digits_def pos_imp_zdiv_nonneg_iff)
qed

lemma sint_magnitude:
  "\<lbrakk>0 \<le> m; m < 2 ^ 63\<rbrakk> \<Longrightarrow> sint (word_of_int m :: 64 word) = m"
  "\<lbrakk>0 \<le> m; m \<le> 2 ^ 63\<rbrakk> \<Longrightarrow> sint (- (word_of_int m :: 64 word)) = - m"
proof -
  show "\<lbrakk>0 \<le> m; m < 2 ^ 63\<rbrakk> \<Longrightarrow> sint (word_of_int m :: 64 word) = m"
    by (simp add: signed_of_int signed_take_bit_int_eq_self)
  assume "0 \<le> m" "m \<le> 2 ^ 63"
  moreover have "- (word_of_int m :: 64 word) = word_of_int (- m)" by simp
  ultimately show "sint (- (word_of_int m :: 64 word)) = - m"
    by (simp only: signed_of_int) (simp add: signed_take_bit_int_eq_self)
qed

lemma jsonInteger_reads:
  assumes "wf_lit l" "length (show_lit l) < 2 ^ 62"
  defines "M \<equiv> scaled (lit_digits l) (lit_scale l)" and "n' \<equiv> (if lit_neg l then - 1 else 1) * scaled (lit_digits l) (lit_scale l)"
  shows "Int64 (NumberValue (show_lit l)) = Some n \<longleftrightarrow> integral (lit_digits l) (lit_scale l) \<and> n = n' \<and> - (2 ^ 63) \<le> n \<and> n < 2 ^ 63"
    and "Uint64 (NumberValue (show_lit l)) = Some n \<longleftrightarrow> integral (lit_digits l) (lit_scale l) \<and> n = n' \<and> 0 \<le> n \<and> n < 2 ^ 64"
proof -
  note j = jsonInteger_exact[OF assms(1,2), folded M_def]
  have M: "0 \<le> M" unfolding M_def by (rule scaled_nonneg[OF assms(1)])
  have n': "n' = (if lit_neg l then - M else M)" by (simp add: n'_def M_def)
  have "(Int64 (NumberValue (show_lit l)) = Some n \<longleftrightarrow> integral (lit_digits l) (lit_scale l) \<and> n = n' \<and> - (2 ^ 63) \<le> n \<and> n < 2 ^ 63) \<and>
        (Uint64 (NumberValue (show_lit l)) = Some n \<longleftrightarrow> integral (lit_digits l) (lit_scale l) \<and> n = n' \<and> 0 \<le> n \<and> n < 2 ^ 64)"
  proof (cases "integral (lit_digits l) (lit_scale l) \<and> M < 2 ^ 64")
    case True
    then have "jsonInteger (show_lit l) = (lit_neg l, M, True)" using j by simp
    then show ?thesis using True M sint_magnitude[of M] by (auto simp: Int64_def Uint64_def n')
  next
    case False
    then have "\<not> snd (snd (jsonInteger (show_lit l)))" using j by simp
    then have "Int64 (NumberValue (show_lit l)) = None" "Uint64 (NumberValue (show_lit l)) = None"
      by (cases "jsonInteger (show_lit l)"; simp add: Int64_def Uint64_def)+
    then show ?thesis using False M by (auto simp: n')
  qed
  then show "Int64 (NumberValue (show_lit l)) = Some n \<longleftrightarrow> integral (lit_digits l) (lit_scale l) \<and> n = n' \<and> - (2 ^ 63) \<le> n \<and> n < 2 ^ 63"
    and "Uint64 (NumberValue (show_lit l)) = Some n \<longleftrightarrow> integral (lit_digits l) (lit_scale l) \<and> n = n' \<and> 0 \<le> n \<and> n < 2 ^ 64" by blast+
qed

text \<open>
  C31. Integers are read from JSON without rounding: from a text of less than 2^62 bytes, \<^verbatim>\<open>Int64\<close> and
  \<^verbatim>\<open>Uint64\<close> return \<open>n\<close> exactly when the text is a number of the JSON grammar that stands for \<open>n\<close>, in whatever
  decimal or exponent form, and \<open>n\<close> is in the range of the type. Every other text is refused.
\<close>

theorem json_integers_exact:
  assumes "length raw < 2 ^ 62"
  shows "(Int64 (NumberValue raw) = Some n \<longleftrightarrow>
       (\<exists>l. wf_lit l \<and> raw = show_lit l \<and> lit_value l = of_int n) \<and> - (2 ^ 63) \<le> n \<and> n < 2 ^ 63) \<and>
     (Uint64 (NumberValue raw) = Some n \<longleftrightarrow>
       (\<exists>l. wf_lit l \<and> raw = show_lit l \<and> lit_value l = of_int n) \<and> 0 \<le> n \<and> n < 2 ^ 64)"
proof (cases "parse_number raw")
  case None
  then have "\<not> (\<exists>l. wf_lit l \<and> raw = show_lit l \<and> lit_value l = of_int n)" using parse_show_lit by auto
  moreover have "jsonInteger raw = refused" using None unfolding jsonInteger_def guard_exact by simp
  ultimately show ?thesis by (auto simp: Int64_def Uint64_def refused_def)
next
  case (Some l)
  then have l: "wf_lit l" "raw = show_lit l" using show_parse_number by auto
  have "(\<exists>l. wf_lit l \<and> raw = show_lit l \<and> lit_value l = of_int n) \<longleftrightarrow> lit_value l = of_int n"
    using l Some parse_show_lit by (metis option.inject)
  then show ?thesis using jsonInteger_reads[OF l(1), of n] assms l(2) lit_value_scaled[of l n] by auto
qed

theorem json_integers_exact_witness:
  "length ''-1.20e1'' < (2 :: nat) ^ 62 \<and> Int64 (NumberValue ''-1.20e1'') = Some (- 12) \<and> Uint64 (NumberValue ''-1.20e1'') = None \<and>
   (\<exists>l. wf_lit l \<and> ''-1.20e1'' = show_lit l \<and> lit_value l = of_int (- 12))"
proof -
  have "Int64 (NumberValue ''-1.20e1'') = Some (- 12)" "Uint64 (NumberValue ''-1.20e1'') = None" by code_simp+
  moreover have "length ''-1.20e1'' < (2 :: nat) ^ 62" by simp
  ultimately show ?thesis using json_integers_exact[of "''-1.20e1''" "- 12"] by blast
qed

text \<open>The other representations: Go integers are kept, floats count where they have consecutive integers.\<close>

theorem go_numbers_exact:
  "\<lbrakk>- (2 ^ 63) \<le> i; i < 2 ^ 63\<rbrakk> \<Longrightarrow> Int64 (SignedValue i) = Some i"
  "Int64 (Float64Value (Finite q)) = Some n \<longleftrightarrow> q = of_int n \<and> \<bar>n\<bar> < 2 ^ 53"
proof -
  have signed: "Int64 v = Some i" if v: "go_integer v = of_signed i" and i: "- (2 ^ 63) \<le> i" "i < 2 ^ 63" for v i
  proof (cases "i < 0")
    case True
    have "(word_of_int (- (i + 1)) :: 64 word) + 1 = word_of_int (- i)" by simp
    then have "uint ((word_of_int (- (i + 1)) :: 64 word) + 1) = take_bit 64 (- i)" by (simp only: unsigned_of_int) simp
    also have "\<dots> = - i" using True i by (intro take_bit_int_eq_self) simp_all
    finally have u: "uint ((word_of_int (- (i + 1)) :: 64 word) + 1) = - i" .
    then show ?thesis using True i v sint_magnitude(2)[of "- i"] unfolding Int64_def of_signed_def by simp
  next
    case False
    then show ?thesis using i v sint_magnitude(1)[of i] unfolding Int64_def of_signed_def by simp
  qed
  show "\<lbrakk>- (2 ^ 63) \<le> i; i < 2 ^ 63\<rbrakk> \<Longrightarrow> Int64 (SignedValue i) = Some i" by (rule signed) simp_all
  show "Int64 (Float64Value (Finite q)) = Some n \<longleftrightarrow> q = of_int n \<and> \<bar>n\<bar> < 2 ^ 53"
  proof (cases "of_int \<lfloor>q\<rfloor> \<noteq> q \<or> 2 ^ 53 - 1 < \<bar>q\<bar>")
    case True
    then have "Int64 (Float64Value (Finite q)) = None" by (simp add: Int64_def float64_integer_def refused_def)
    moreover have "\<not> \<bar>n\<bar> < 2 ^ 53" if "q = of_int n" using True that by (simp add: floor_less_iff; linarith)
    ultimately show ?thesis by auto
  next
    case False
    then obtain k where k: "q = of_int k" by metis
    then have "\<bar>of_int k :: rat\<bar> \<le> of_int (2 ^ 53 - 1)" using False by simp
    then have "\<bar>k\<bar> \<le> 2 ^ 53 - 1" by (simp only: of_int_abs[symmetric] of_int_le_iff)
    moreover have "Int64 (Float64Value (Finite q)) = Some k"
      by (rule signed) (use False k calculation in \<open>simp_all add: float64_integer_def\<close>)
    ultimately show ?thesis using k by auto
  qed
qed

end
