(* ===== verification/ToolCatalog.thy ===== *)
theory ToolCatalog
  imports GoStd "HOL-Library.List_Lexorder" "HOL-Library.Char_ord" "HOL-Library.Multiset"
begin

text \<open>
  The catalog of host-defined tools: \<^verbatim>\<open>tool/errors.go\<close> (rejections) and the catalog part of
  \<^verbatim>\<open>internal/toolruntime/runtime.go\<close> (validation, fingerprint, handler). The MCP SDK is a parameter: which
  descriptors its \<^verbatim>\<open>AddTool\<close> accepts without panicking. So are JSON encoding, JSON validity and SHA-256.
\<close>

subsection \<open>Errors and rejections\<close>

text \<open>
  An error with what \<^verbatim>\<open>Unwrap\<close> gives: nothing, one error or several, each of which may be nil.
\<close>

datatype tool_error =
    RejectionError string string
  | DeadlineExceeded
  | Canceled
  | OtherError string
  | WrapError string "tool_error option"
  | JoinError string "tool_error option list"

fun errors_Is :: "tool_error \<Rightarrow> tool_error \<Rightarrow> bool" where
  "errors_Is target (WrapError t e) \<longleftrightarrow> WrapError t e = target \<or> (case e of None \<Rightarrow> False | Some x \<Rightarrow> errors_Is target x)"
| "errors_Is target (JoinError t es) \<longleftrightarrow> JoinError t es = target \<or> list_ex (\<lambda>e. case e of None \<Rightarrow> False | Some x \<Rightarrow> errors_Is target x) es"
| "errors_Is target e \<longleftrightarrow> e = target"

definition name_char :: "char \<Rightarrow> bool" where
  "name_char c \<longleftrightarrow> (CHR ''a'' \<le> c \<and> c \<le> CHR ''z'') \<or> (CHR ''A'' \<le> c \<and> c \<le> CHR ''Z'') \<or> (CHR ''0'' \<le> c \<and> c \<le> CHR ''9'')
     \<or> c = CHR ''_'' \<or> c = CHR ''-'' \<or> c = CHR ''.''"

definition Reject :: "string \<Rightarrow> string \<Rightarrow> tool_error" where
  "Reject code message =
     (let c = TrimSpace code; m = TrimSpace message
      in RejectionError (if c = [] \<or> 64 < length c \<or> \<not> list_all name_char c then ''rejected'' else c)
                        (if m = [] \<or> 4096 < length m then ''tool request rejected'' else m))"

text \<open>\<^verbatim>\<open>AsRejection\<close>: at most 100 errors are inspected; the pending errors are kept with the next one first.\<close>

fun scan_pending :: "nat \<Rightarrow> tool_error option list \<Rightarrow> (string \<times> string) option" where
  "scan_pending 0 pending = None"
| "scan_pending (Suc n) [] = None"
| "scan_pending (Suc n) (None # rest) = scan_pending n rest"
| "scan_pending (Suc n) (Some e # rest) =
     (case e of RejectionError code message \<Rightarrow> Some (code, message)
      | JoinError _ es \<Rightarrow> scan_pending n (rev es @ rest)
      | WrapError _ x \<Rightarrow> scan_pending n (x # rest)
      | _ \<Rightarrow> scan_pending n rest)"

definition AsRejection :: "tool_error option \<Rightarrow> (string \<times> string) option" where
  "AsRejection err = scan_pending 100 [err]"

subsection \<open>Definitions and descriptors\<close>

record Annotations =
  Ann_ReadOnly :: "bool option"
  Ann_Destructive :: "bool option"
  Ann_Idempotent :: "bool option"
  Ann_OpenWorld :: "bool option"

record Descriptor =
  Desc_Name :: string
  Desc_Title :: string
  Desc_Description :: string
  Desc_Revision :: string
  Desc_InputSchemaJSON :: string
  Desc_OutputSchemaJSON :: string
  Desc_Annotations :: Annotations

datatype invocation = InvokePanic | InvokeOutput string | InvokeError tool_error

record Definition =
  Def_Descriptor :: "string + Descriptor"
  Def_Invoke :: "string \<Rightarrow> invocation"

record gatewayConfig =
  maxRequestBodyBytes :: int
  maxResponseBytes :: int
  maxConcurrent :: nat
  handlerTimeout :: duration
  readHeaderTimeout :: duration
  idleTimeout :: duration
  shutdownTimeout :: duration
  maxHeaderBytes :: int

definition defaultGatewayConfig :: gatewayConfig where
  "defaultGatewayConfig = \<lparr>maxRequestBodyBytes = 2 ^ 20, maxResponseBytes = 4 * 2 ^ 20, maxConcurrent = 32,
     handlerTimeout = 120000000000, readHeaderTimeout = 5000000000, idleTimeout = 30000000000,
     shutdownTimeout = 10000000000, maxHeaderBytes = 16 * 2 ^ 10\<rparr>"

record mcp_tool =
  Tool_Name :: string
  Tool_Title :: string
  Tool_Description :: string
  Tool_InputSchema :: string
  Tool_OutputSchema :: string
  Tool_AnnotationTitle :: string
  Tool_ReadOnlyHint :: bool
  Tool_IdempotentHint :: bool
  Tool_DestructiveHint :: "bool option"
  Tool_OpenWorldHint :: "bool option"

definition mcp_definition :: "Descriptor \<Rightarrow> mcp_tool" where
  "mcp_definition d = \<lparr>Tool_Name = Desc_Name d, Tool_Title = Desc_Title d, Tool_Description = Desc_Description d,
     Tool_InputSchema = Desc_InputSchemaJSON d, Tool_OutputSchema = Desc_OutputSchemaJSON d,
     Tool_AnnotationTitle = Desc_Title d, Tool_ReadOnlyHint = (Ann_ReadOnly (Desc_Annotations d) = Some True),
     Tool_IdempotentHint = (Ann_Idempotent (Desc_Annotations d) = Some True),
     Tool_DestructiveHint = Ann_Destructive (Desc_Annotations d), Tool_OpenWorldHint = Ann_OpenWorld (Desc_Annotations d)\<rparr>"

record runtimeCatalog =
  cat_tools :: "mcp_tool list"
  cat_byName :: "string \<rightharpoonup> Definition"
  cat_config :: gatewayConfig

subsection \<open>Building a catalog\<close>

datatype catalog_error = NilDefinition nat | DescriptorFailed string | DuplicateTool string | EmptyCatalog | FingerprintFailed | ErrInvalidCatalog

fun collect_definitions ::
  "nat \<Rightarrow> Definition option list \<Rightarrow> Descriptor list \<Rightarrow> (string \<rightharpoonup> Definition) \<Rightarrow> catalog_error + Descriptor list \<times> (string \<rightharpoonup> Definition)" where
  "collect_definitions index [] descriptors byName = Inr (descriptors, byName)"
| "collect_definitions index (None # rest) descriptors byName = Inl (NilDefinition index)"
| "collect_definitions index (Some definition # rest) descriptors byName =
     (case Def_Descriptor definition of Inl e \<Rightarrow> Inl (DescriptorFailed e)
      | Inr d \<Rightarrow> if byName (Desc_Name d) \<noteq> None then Inl (DuplicateTool (Desc_Name d))
                else collect_definitions (Suc index) rest (descriptors @ [d]) (byName(Desc_Name d \<mapsto> definition)))"

definition fingerprintDomain :: string where
  "fingerprintDomain = ''github.com/agent-dance/agent-adaptor/v2/internal/toolruntime/catalog/v1''"

definition catalogFingerprint :: "(Descriptor list \<Rightarrow> string option) \<Rightarrow> (string \<Rightarrow> string) \<Rightarrow> Descriptor list \<Rightarrow> string option" where
  "catalogFingerprint marshal sha256 descriptors =
     map_option (\<lambda>encoded. ''sha256:'' @ hexEncode (sha256 (fingerprintDomain @ [CHR 0x00] @ encoded))) (marshal descriptors)"

definition newRuntimeCatalog ::
  "(Descriptor list \<Rightarrow> string option) \<Rightarrow> (string \<Rightarrow> string) \<Rightarrow> (mcp_tool \<Rightarrow> bool) \<Rightarrow> Definition option list \<Rightarrow> gatewayConfig
   \<Rightarrow> catalog_error + runtimeCatalog \<times> string" where
  "newRuntimeCatalog marshal sha256 mcp_accepts definitions config =
     (case collect_definitions 0 definitions [] Map.empty of Inl e \<Rightarrow> Inl e
      | Inr (descriptors, byName) \<Rightarrow>
          if descriptors = [] then Inl EmptyCatalog
          else let ordered = sort_key Desc_Name descriptors
            in case catalogFingerprint marshal sha256 ordered of None \<Rightarrow> Inl FingerprintFailed
              | Some fingerprint \<Rightarrow>
                  if list_all (\<lambda>d. mcp_accepts (mcp_definition d)) ordered
                  then Inr (\<lparr>cat_tools = map mcp_definition ordered, cat_byName = byName, cat_config = config\<rparr>, fingerprint)
                  else Inl ErrInvalidCatalog)"

subsection \<open>Calling a tool\<close>

datatype CallToolResult = Failure string string | Output string

definition internal_error :: CallToolResult where
  "internal_error = Failure ''internal_error'' ''Tool execution failed.''"

definition validRejection :: "string \<Rightarrow> string \<Rightarrow> bool" where
  "validRejection code message \<longleftrightarrow> code \<noteq> [] \<and> length code \<le> 64 \<and> message \<noteq> [] \<and> length message \<le> 4096 \<and> list_all name_char code"

text \<open>\<open>ctxErr\<close> is the state of the handler's context when \<^verbatim>\<open>Invoke\<close> returns.\<close>

definition handler :: "(string \<Rightarrow> bool) \<Rightarrow> runtimeCatalog \<Rightarrow> string \<Rightarrow> string \<Rightarrow> tool_error option \<Rightarrow> CallToolResult" where
  "handler json_valid c name input ctxErr =
     (let ctx_is = (\<lambda>t. case ctxErr of None \<Rightarrow> False | Some e \<Rightarrow> errors_Is t e)
      in case cat_byName c name of None \<Rightarrow> internal_error
      | Some definition \<Rightarrow>
          (case Def_Invoke definition input of InvokePanic \<Rightarrow> internal_error
           | InvokeError e \<Rightarrow>
               (case AsRejection (Some e) of
                  Some (code, message) \<Rightarrow> if validRejection code message then Failure code message else internal_error
                | None \<Rightarrow>
                    if errors_Is DeadlineExceeded e \<or> ctx_is DeadlineExceeded then Failure ''deadline_exceeded'' ''Tool execution timed out.''
                    else if errors_Is Canceled e \<or> ctx_is Canceled then Failure ''canceled'' ''Tool execution was canceled.''
                    else internal_error)
           | InvokeOutput out \<Rightarrow>
               if out = [] \<or> \<not> json_valid out \<or> maxResponseBytes (cat_config c) < int (length out) then internal_error else Output out))"

subsection \<open>Only trusted texts reach the model\<close>

text \<open>The rejections inside an error.\<close>

fun rejections :: "tool_error \<Rightarrow> (string \<times> string) set" where
  "rejections (RejectionError code message) = {(code, message)}"
| "rejections (WrapError t e) = (case e of None \<Rightarrow> {} | Some x \<Rightarrow> rejections x)"
| "rejections (JoinError t es) = (\<Union>e \<in> set es. case e of None \<Rightarrow> {} | Some x \<Rightarrow> rejections x)"
| "rejections _ = {}"

definition pending_rejections :: "tool_error option list \<Rightarrow> (string \<times> string) set" where
  "pending_rejections es = (\<Union>e \<in> set es. case e of None \<Rightarrow> {} | Some x \<Rightarrow> rejections x)"

lemma pending_rejections_simps [simp]:
  "pending_rejections [] = {}"
  "pending_rejections (e # es) = (case e of None \<Rightarrow> {} | Some x \<Rightarrow> rejections x) \<union> pending_rejections es"
  "pending_rejections (xs @ ys) = pending_rejections xs \<union> pending_rejections ys"
  "pending_rejections (rev xs) = pending_rejections xs"
  by (auto simp: pending_rejections_def)

lemma scan_pending_sound: "scan_pending n es = Some r \<Longrightarrow> r \<in> pending_rejections es"
proof (induction n es rule: scan_pending.induct)
  case (4 n e rest)
  then show ?case by (cases e) (auto simp: pending_rejections_def)
qed simp_all

text \<open>With fewer than 100 errors in it, an error that holds a rejection is recognised.\<close>

fun error_size :: "tool_error \<Rightarrow> nat" where
  "error_size (WrapError t e) = Suc (case e of None \<Rightarrow> 1 | Some x \<Rightarrow> error_size x)"
| "error_size (JoinError t es) = Suc (sum_list (map (\<lambda>e. case e of None \<Rightarrow> 1 | Some x \<Rightarrow> error_size x) es))"
| "error_size _ = 1"

lemma error_size_pos: "error_size e \<noteq> 0"
  by (cases e) simp_all

definition pending_size :: "tool_error option list \<Rightarrow> nat" where
  "pending_size es = sum_list (map (\<lambda>e. case e of None \<Rightarrow> 1 | Some x \<Rightarrow> error_size x) es)"

lemma error_size_Join [simp]: "error_size (JoinError t es) = Suc (pending_size es)"
  unfolding error_size.simps pending_size_def ..

declare error_size.simps(2) [simp del]

lemma pending_size_simps [simp]:
  "pending_size [] = 0"
  "pending_size (e # es) = (case e of None \<Rightarrow> 1 | Some x \<Rightarrow> error_size x) + pending_size es"
  "pending_size (xs @ ys) = pending_size xs + pending_size ys"
  "pending_size (rev xs) = pending_size xs"
  by (simp_all add: pending_size_def rev_map[symmetric])

lemma scan_pending_complete: "\<lbrakk>pending_size es \<le> n; pending_rejections es \<noteq> {}\<rbrakk> \<Longrightarrow> scan_pending n es \<noteq> None"
proof (induction n es rule: scan_pending.induct)
  case (1 pending)
  then have "pending = []" by (cases pending) (auto simp: error_size_pos split: option.splits)
  then show ?case using 1 by simp
next
  case (4 n e rest)
  then show ?case by (cases e) (auto simp: pending_rejections_def[symmetric])
qed simp_all

theorem AsRejection_exact:
  assumes "error_size e \<le> 100"
  shows "AsRejection (Some e) = None \<longleftrightarrow> rejections e = {}" and "AsRejection (Some e) = Some r \<Longrightarrow> r \<in> rejections e"
proof -
  show sound: "AsRejection (Some e) = Some r \<Longrightarrow> r \<in> rejections e" for r
    using scan_pending_sound[of 100 "[Some e]" r] by (simp add: AsRejection_def)
  have "rejections e \<noteq> {} \<Longrightarrow> AsRejection (Some e) \<noteq> None"
    using scan_pending_complete[of "[Some e]" 100] assms by (simp add: AsRejection_def)
  then show "AsRejection (Some e) = None \<longleftrightarrow> rejections e = {}" using sound by (cases "AsRejection (Some e)") auto
qed

definition fixed_failures :: "(string \<times> string) set" where
  "fixed_failures = {(''internal_error'', ''Tool execution failed.''), (''deadline_exceeded'', ''Tool execution timed out.''),
     (''canceled'', ''Tool execution was canceled.'')}"

text \<open>
  What a tool call shows of a failure is a fixed text or a valid rejection minted by \<^verbatim>\<open>Reject\<close>: no other error text of
  the application and no panic value reaches the model. Output is passed on unchanged, and only if it is valid and short enough.
\<close>

theorem handler_sanitizes:
  "handler json_valid c name input ctxErr = Failure code message \<Longrightarrow> (code, message) \<in> fixed_failures \<or>
     (\<exists>definition e. cat_byName c name = Some definition \<and> Def_Invoke definition input = InvokeError e \<and> (code, message) \<in> rejections e
        \<and> validRejection code message)"
  "handler json_valid c name input ctxErr = Output out \<longleftrightarrow>
     (\<exists>definition. cat_byName c name = Some definition \<and> Def_Invoke definition input = InvokeOutput out) \<and> out \<noteq> [] \<and> json_valid out
       \<and> int (length out) \<le> maxResponseBytes (cat_config c)"
proof -
  assume h: "handler json_valid c name input ctxErr = Failure code message"
  show "(code, message) \<in> fixed_failures \<or> (\<exists>definition e. cat_byName c name = Some definition \<and> Def_Invoke definition input = InvokeError e
      \<and> (code, message) \<in> rejections e \<and> validRejection code message)"
  proof (cases "cat_byName c name")
    case None
    then show ?thesis using h by (simp add: handler_def internal_error_def fixed_failures_def)
  next
    case (Some d)
    then show ?thesis using h scan_pending_sound[of 100]
      by (cases "Def_Invoke d input")
        (fastforce simp: handler_def internal_error_def fixed_failures_def AsRejection_def Let_def split: option.splits if_splits prod.splits)+
  qed
next
  show "handler json_valid c name input ctxErr = Output out \<longleftrightarrow>
     (\<exists>definition. cat_byName c name = Some definition \<and> Def_Invoke definition input = InvokeOutput out) \<and> out \<noteq> [] \<and> json_valid out
       \<and> int (length out) \<le> maxResponseBytes (cat_config c)"
    by (auto simp: handler_def internal_error_def Let_def split: option.splits invocation.splits if_splits prod.splits)
qed

subsection \<open>The fingerprint does not depend on the order\<close>

definition tool_descriptor :: "Definition option \<Rightarrow> Descriptor" where
  "tool_descriptor x = projr (Def_Descriptor (the x))"

abbreviation tool_name :: "Definition option \<Rightarrow> string" where
  "tool_name x \<equiv> Desc_Name (tool_descriptor x)"

definition installable :: "Definition option list \<Rightarrow> (string \<rightharpoonup> Definition) \<Rightarrow> bool" where
  "installable defs byName \<longleftrightarrow> (\<forall>x \<in> set defs. x \<noteq> None \<and> isl (Def_Descriptor (the x)) = False \<and> byName (tool_name x) = None) \<and> distinct (map tool_name defs)"

definition tool_table :: "Definition option list \<Rightarrow> (string \<rightharpoonup> Definition)" where
  "tool_table defs = map_of (map (\<lambda>x. (tool_name x, the x)) defs)"

lemma tool_table_None: "tool_table defs n = None \<longleftrightarrow> n \<notin> tool_name ` set defs"
  by (simp add: tool_table_def map_of_eq_None_iff image_image)

lemma collect_definitions_exact:
  "if installable defs byName then collect_definitions i defs ds byName = Inr (ds @ map tool_descriptor defs, byName ++ tool_table defs)
   else isl (collect_definitions i defs ds byName)"
proof (induction i defs ds byName rule: collect_definitions.induct)
  case (3 index df rest descriptors byName)
  show ?case
  proof (cases "Def_Descriptor df")
    case (Inr d)
    then have name: "tool_descriptor (Some df) = d" by (simp add: tool_descriptor_def)
    show ?thesis
    proof (cases "byName (Desc_Name d)")
      case None
      have inst: "installable (Some df # rest) byName \<longleftrightarrow> installable rest (byName(Desc_Name d \<mapsto> df))"
        using Inr None name by (auto simp: installable_def image_iff)
      have table: "byName(Desc_Name d \<mapsto> df) ++ tool_table rest = byName ++ tool_table (Some df # rest)" if "installable rest (byName(Desc_Name d \<mapsto> df))"
      proof -
        have "tool_table rest (Desc_Name d) = None" using that by (auto simp: tool_table_None installable_def)
        then have "byName(Desc_Name d \<mapsto> df) ++ tool_table rest = (byName ++ tool_table rest)(Desc_Name d \<mapsto> df)"
          by (intro map_add_upd_left) auto
        then show ?thesis using name by (simp add: tool_table_def)
      qed
      define m where "m = byName(Desc_Name d \<mapsto> df)"
      have "if installable rest m then collect_definitions (Suc index) rest (descriptors @ [d]) m = Inr ((descriptors @ [d]) @ map tool_descriptor rest, m ++ tool_table rest)
            else isl (collect_definitions (Suc index) rest (descriptors @ [d]) m)"
        unfolding m_def by (rule 3[OF Inr]) (simp add: None)
      moreover have "collect_definitions index (Some df # rest) descriptors byName = collect_definitions (Suc index) rest (descriptors @ [d]) m"
        using Inr None by (simp add: m_def)
      ultimately show ?thesis using table inst name unfolding m_def[symmetric] by (cases "installable rest m") simp_all
    qed (use Inr name in \<open>auto simp: installable_def\<close>)
  qed (auto simp: installable_def)
qed (simp_all add: installable_def tool_table_def)

lemma tool_table_perm:
  assumes "installable xs m" "installable ys m" "set ys = set xs"
  shows "tool_table ys = tool_table xs"
  using assms unfolding tool_table_def by (subst map_of_inject_set) (simp_all add: installable_def comp_def)

text \<open>
  The same definitions in another order give the same catalog and the same fingerprint, so a host may list its tools as it
  likes without losing sessions it could resume.
\<close>

theorem catalog_order_irrelevant:
  assumes "mset ys = mset xs" "newRuntimeCatalog marshal sha256 mcp_accepts xs config = Inr (c, fp)"
  shows "newRuntimeCatalog marshal sha256 mcp_accepts ys config = Inr (c, fp)"
proof -
  have "\<not> isl (collect_definitions 0 xs [] Map.empty)" using assms(2) by (auto simp: newRuntimeCatalog_def split: sum.splits)
  then have xs: "installable xs Map.empty" using collect_definitions_exact[of xs Map.empty 0 "[]"] by (auto split: if_splits)
  have "set ys = set xs" using assms(1) by (metis set_mset_mset)
  moreover have "distinct (map tool_name ys)" using assms(1) xs by (metis installable_def mset_map mset_eq_imp_distinct_iff)
  ultimately have ys: "installable ys Map.empty" using xs by (simp add: installable_def)
  have "sort_key Desc_Name (map tool_descriptor ys) = sort_key Desc_Name (map tool_descriptor xs)"
  proof (rule sort_key_inj_key_eq)
    show "mset (map tool_descriptor ys) = mset (sort_key Desc_Name (map tool_descriptor xs))" using assms(1) by simp
    show "inj_on Desc_Name (set (map tool_descriptor ys))"
    proof -
      have "distinct (map Desc_Name (map tool_descriptor ys))" using ys by (simp add: installable_def comp_def)
      then show ?thesis by (simp only: distinct_map)
    qed
  qed simp
  then show ?thesis
    using assms(2) collect_definitions_exact[of xs Map.empty 0 "[]"] collect_definitions_exact[of ys Map.empty 0 "[]"] xs ys
      tool_table_perm[OF xs ys] \<open>set ys = set xs\<close>
    by (cases xs; cases ys) (auto simp: newRuntimeCatalog_def)
qed

end
