(* ===== verification/ToolGateway.thy ===== *)
theory ToolGateway
  imports ToolCatalog KeyCodec
begin

text \<open>
  \<^verbatim>\<open>internal/toolruntime/runtime.go\<close>: the process-wide gateway that serves the tool catalogs of all agents on one
  loopback listener. Registrations, gateways and runtimes live on a heap, as lists indexed by their identity; the manager is
  the pointer to the current gateway. Each function is one section under a lock. The network (listening, serving,
  closing, shutting down), random bytes and the parser of URLs are arguments.
\<close>

subsection \<open>Network errors\<close>

datatype net_error =
    ErrNetClosed
  | ErrServerClosed
  | ErrDeadline
  | ErrTokenCollision
  | ErrRuntimeClosed
  | NetText string
  | NetWrap string net_error
  | NetJoin "net_error list"

fun net_Is :: "net_error \<Rightarrow> net_error \<Rightarrow> bool" where
  "net_Is target (NetWrap t e) \<longleftrightarrow> NetWrap t e = target \<or> net_Is target e"
| "net_Is target (NetJoin es) \<longleftrightarrow> NetJoin es = target \<or> list_ex (net_Is target) es"
| "net_Is target e \<longleftrightarrow> e = target"

definition closed_text :: string where
  "closed_text = ''use of closed network connection''"

fun net_text :: "net_error \<Rightarrow> string" where
  "net_text ErrNetClosed = closed_text"
| "net_text ErrServerClosed = ''http: Server closed''"
| "net_text ErrDeadline = ''context deadline exceeded''"
| "net_text ErrTokenCollision = ''tool runtime token collision''"
| "net_text ErrRuntimeClosed = ''tool runtime is closed''"
| "net_text (NetText t) = t"
| "net_text (NetWrap t e) = t @ '': '' @ net_text e"
| "net_text (NetJoin es) = join_with [CHR 0x0A] (map net_text es)"

text \<open>The texts along \<^verbatim>\<open>errors.Unwrap\<close>, which does not look into a joined error.\<close>

fun unwrap_texts :: "net_error \<Rightarrow> string list" where
  "unwrap_texts (NetWrap t e) = net_text (NetWrap t e) # unwrap_texts e"
| "unwrap_texts e = [net_text e]"

fun isClosedNetworkError :: "net_error option \<Rightarrow> bool" where
  "isClosedNetworkError None = False"
| "isClosedNetworkError (Some e) \<longleftrightarrow> net_Is ErrNetClosed e \<or> list_ex (\<lambda>t. t = closed_text) (unwrap_texts e)"

definition errors_Join :: "net_error option list \<Rightarrow> net_error option" where
  "errors_Join es = (case List.map_filter id es of [] \<Rightarrow> None | xs \<Rightarrow> Some (NetJoin xs))"

subsection \<open>Registrations\<close>

record registration =
  reg_catalog :: runtimeCatalog
  reg_cancelled :: bool
  reg_closing :: bool
  reg_active :: int
  reg_drained :: bool

definition newRegistration :: "runtimeCatalog \<Rightarrow> registration" where
  "newRegistration catalog = \<lparr>reg_catalog = catalog, reg_cancelled = False, reg_closing = False, reg_active = 0, reg_drained = False\<rparr>"

text \<open>\<^verbatim>\<open>drainOnce.Do(func() { close(r.drained) })\<close>\<close>

definition drainOnce :: "registration \<Rightarrow> registration" where
  "drainOnce r = (if reg_drained r then r else r\<lparr>reg_drained := True\<rparr>)"

definition acquire :: "registration \<Rightarrow> bool \<times> registration" where
  "acquire r = (if reg_closing r then (False, r) else (True, r\<lparr>reg_active := reg_active r + 1\<rparr>))"

definition reg_release :: "registration \<Rightarrow> registration" where
  "reg_release r = (let r1 = r\<lparr>reg_active := reg_active r - 1\<rparr> in if reg_closing r1 \<and> reg_active r1 = 0 then drainOnce r1 else r1)"

definition reg_beginClose :: "registration \<Rightarrow> registration" where
  "reg_beginClose r = (let r1 = r\<lparr>reg_closing := True, reg_cancelled := True\<rparr> in if reg_active r1 = 0 then drainOnce r1 else r1)"

subsection \<open>Gateways, runtimes and the process\<close>

record Endpoint =
  Endpoint_URL :: string
  Endpoint_BearerTokenEnvVar :: string

record gateway =
  gw_endpoint :: Endpoint
  gw_expectedHost :: string
  gw_listening :: bool
  gw_semaphore :: nat
  gw_registrations :: "(string \<times> nat) list"
  gw_serveDone :: bool
  gw_serveErr :: "net_error option"

record retirement =
  ret_registration :: nat
  ret_gateway :: "nat option"
  ret_last :: bool
  ret_stopErr :: "net_error option"

text \<open>
  Where the first call of \<^verbatim>\<open>Close\<close> is: not made; the runtime is marked closed and its token and registration are
  taken; the registration is retired and its cleanup runs; \<^verbatim>\<open>closeDone\<close> is closed.
\<close>

datatype closer = Idle | Marked string nat | Retiring retirement | Finished

record Runtime =
  tr_catalog :: runtimeCatalog
  tr_fingerprint :: string
  tr_bearerTokenEnvVar :: string
  tr_started :: bool
  tr_closed :: bool
  tr_endpoint :: Endpoint
  tr_token :: string
  tr_registration :: "nat option"
  tr_closeStarted :: bool
  tr_closer :: closer
  tr_closeErr :: "net_error option"

text \<open>A request inside \<^verbatim>\<open>secureHandler\<close>: authenticated, serving with a slot, or on its way out.\<close>

datatype phase = Authenticated | Serving | Leaving

record request =
  rq_gateway :: nat
  rq_registration :: nat
  rq_phase :: phase

record process =
  ps_config :: gatewayConfig
  ps_regs :: "registration list"
  ps_gateways :: "gateway list"
  ps_instance :: "nat option"
  ps_runtimes :: "Runtime list"
  ps_requests :: "request multiset"

definition newProcess :: "gatewayConfig \<Rightarrow> process" where
  "newProcess config = \<lparr>ps_config = config, ps_regs = [], ps_gateways = [], ps_instance = None, ps_runtimes = [], ps_requests = {#}\<rparr>"

abbreviation map_reg :: "nat \<Rightarrow> (registration \<Rightarrow> registration) \<Rightarrow> process \<Rightarrow> process" where
  "map_reg r f s \<equiv> s\<lparr>ps_regs := (ps_regs s)[r := f (ps_regs s ! r)]\<rparr>"

abbreviation map_gateway :: "nat \<Rightarrow> (gateway \<Rightarrow> gateway) \<Rightarrow> process \<Rightarrow> process" where
  "map_gateway g f s \<equiv> s\<lparr>ps_gateways := (ps_gateways s)[g := f (ps_gateways s ! g)]\<rparr>"

abbreviation map_runtime :: "nat \<Rightarrow> (Runtime \<Rightarrow> Runtime) \<Rightarrow> process \<Rightarrow> process" where
  "map_runtime k f s \<equiv> s\<lparr>ps_runtimes := (ps_runtimes s)[k := f (ps_runtimes s ! k)]\<rparr>"

subsection \<open>The gateway\<close>

definition newGateway :: "string \<Rightarrow> gateway" where
  "newGateway address = \<lparr>gw_endpoint = \<lparr>Endpoint_URL = ''http://'' @ address @ ''/mcp'', Endpoint_BearerTokenEnvVar = []\<rparr>,
     gw_expectedHost = address, gw_listening = True, gw_semaphore = 0, gw_registrations = [], gw_serveDone = False, gw_serveErr = None\<rparr>"

definition gateway_register :: "nat \<Rightarrow> string \<Rightarrow> runtimeCatalog \<Rightarrow> process \<Rightarrow> (net_error + nat) \<times> process" where
  "gateway_register g token catalog s =
     (case gw_serveErr (ps_gateways s ! g) of Some e \<Rightarrow> (Inl e, s)
      | None \<Rightarrow>
          if map_of (gw_registrations (ps_gateways s ! g)) token \<noteq> None then (Inl ErrTokenCollision, s)
          else let r = length (ps_regs s)
            in (Inr r, map_gateway g (\<lambda>gw. gw\<lparr>gw_registrations := (token, r) # gw_registrations gw\<rparr>)
                         (s\<lparr>ps_regs := ps_regs s @ [newRegistration catalog]\<rparr>)))"

definition unregister :: "nat \<Rightarrow> string \<Rightarrow> nat \<Rightarrow> process \<Rightarrow> bool \<times> process" where
  "unregister g token expected s =
     (let s1 = (if map_of (gw_registrations (ps_gateways s ! g)) token = Some expected
                then map_reg expected reg_beginClose
                       (map_gateway g (\<lambda>gw. gw\<lparr>gw_registrations := filter (\<lambda>(t, r). t \<noteq> token) (gw_registrations gw)\<rparr>) s)
                else s)
      in (gw_registrations (ps_gateways s1 ! g) = [], s1))"

definition bearer :: string where
  "bearer = ''Bearer ''"

definition presented_token :: "string \<Rightarrow> string" where
  "presented_token value = (if is_prefix bearer value then drop (length bearer) value else value)"

text \<open>Every token is compared; \<^verbatim>\<open>subtle.ConstantTimeCompare\<close> is equality.\<close>

definition select_registration :: "string \<Rightarrow> (string \<times> nat) list \<Rightarrow> nat option" where
  "select_registration presented regs = fold (\<lambda>(token, r) selected. if presented = token then Some r else selected) regs None"

definition authenticate :: "nat \<Rightarrow> string list \<Rightarrow> process \<Rightarrow> nat option \<times> process" where
  "authenticate g values s =
     (case values of
        [value] \<Rightarrow>
          (case select_registration (presented_token value) (gw_registrations (ps_gateways s ! g)) of None \<Rightarrow> (None, s)
           | Some r \<Rightarrow> let (ok, reg) = acquire (ps_regs s ! r) in if ok then (Some r, map_reg r (\<lambda>_. reg) s) else (None, s))
      | _ \<Rightarrow> (None, s))"

record URL =
  URL_Scheme :: string
  URL_User :: "string option"
  URL_Host :: string
  URL_Path :: string
  URL_RawQuery :: string
  URL_Fragment :: string

definition validOrigins :: "(string \<Rightarrow> URL option) \<Rightarrow> string list \<Rightarrow> string \<Rightarrow> bool" where
  "validOrigins url_Parse origins expectedHost \<longleftrightarrow>
     (case origins of [] \<Rightarrow> True
      | [origin] \<Rightarrow> (case url_Parse origin of None \<Rightarrow> False
          | Some u \<Rightarrow> URL_Scheme u = ''http'' \<and> URL_User u = None \<and> URL_Host u = expectedHost \<and> URL_Path u = [] \<and> URL_RawQuery u = [] \<and> URL_Fragment u = [])
      | _ \<Rightarrow> False)"

record head =
  head_Path :: string
  head_Host :: string
  head_Origin :: "string list"
  head_Authorization :: "string list"

datatype response = StatusNotFound | StatusForbidden | StatusUnauthorized | Admitted nat

text \<open>\<^verbatim>\<open>secureHandler\<close> up to the choice of a slot; an admitted request goes on as an element of \<open>ps_requests\<close>.\<close>

definition secureHandler :: "(string \<Rightarrow> URL option) \<Rightarrow> nat \<Rightarrow> head \<Rightarrow> process \<Rightarrow> response \<times> process" where
  "secureHandler url_Parse g h s =
     (if head_Path h \<noteq> ''/mcp'' then (StatusNotFound, s)
      else if head_Host h \<noteq> gw_expectedHost (ps_gateways s ! g) \<or> \<not> validOrigins url_Parse (head_Origin h) (gw_expectedHost (ps_gateways s ! g))
      then (StatusForbidden, s)
      else case authenticate g (head_Authorization h) s of (None, s1) \<Rightarrow> (StatusUnauthorized, s1)
        | (Some r, s1) \<Rightarrow> (Admitted r, s1\<lparr>ps_requests := add_mset \<lparr>rq_gateway = g, rq_registration = r, rq_phase = Authenticated\<rparr> (ps_requests s1)\<rparr>))"

definition move_request :: "request \<Rightarrow> phase \<Rightarrow> process \<Rightarrow> process" where
  "move_request q p s = s\<lparr>ps_requests := add_mset (q\<lparr>rq_phase := p\<rparr>) (ps_requests s - {#q#})\<rparr>"

text \<open>The slot: taken if one is free, otherwise the request is answered with 503. A served request gives its slot back.\<close>

definition take_slot :: "request \<Rightarrow> process \<Rightarrow> process" where
  "take_slot q s =
     (if gw_semaphore (ps_gateways s ! rq_gateway q) < maxConcurrent (ps_config s)
      then move_request q Serving (map_gateway (rq_gateway q) (\<lambda>gw. gw\<lparr>gw_semaphore := gw_semaphore gw + 1\<rparr>) s)
      else move_request q Leaving s)"

definition give_slot :: "request \<Rightarrow> process \<Rightarrow> process" where
  "give_slot q s = move_request q Leaving (map_gateway (rq_gateway q) (\<lambda>gw. gw\<lparr>gw_semaphore := gw_semaphore gw - 1\<rparr>) s)"

definition leave :: "request \<Rightarrow> process \<Rightarrow> process" where
  "leave q s = map_reg (rq_registration q) reg_release (s\<lparr>ps_requests := ps_requests s - {#q#}\<rparr>)"

text \<open>\<^verbatim>\<open>serve\<close>: when \<^verbatim>\<open>Serve\<close> returns it has closed the listener.\<close>

definition serve_returned :: "nat \<Rightarrow> net_error option \<Rightarrow> process \<Rightarrow> process" where
  "serve_returned g err s =
     map_gateway g (\<lambda>gw. gw\<lparr>gw_listening := False, gw_serveDone := True,
       gw_serveErr := (case err of None \<Rightarrow> gw_serveErr gw
         | Some e \<Rightarrow> if net_Is ErrServerClosed e \<or> isClosedNetworkError (Some e) then gw_serveErr gw else Some (NetWrap ''serve tool runtime'' e))\<rparr>) s"

definition stopAdmission :: "net_error option \<Rightarrow> net_error option" where
  "stopAdmission err = (if isClosedNetworkError err then None else err)"

subsection \<open>The manager\<close>

text \<open>
  A new gateway serves on a goroutine of its own, so serving may already have ended, with or without an error, when the first
  registration is made: \<open>early\<close> says whether.
\<close>

definition manager_register ::
  "net_error + string \<Rightarrow> net_error option option \<Rightarrow> string \<Rightarrow> runtimeCatalog \<Rightarrow> process \<Rightarrow> (net_error + Endpoint \<times> nat) \<times> process" where
  "manager_register listened early token catalog s =
     (case (case ps_instance s of Some g \<Rightarrow> Inr (g, s)
            | None \<Rightarrow> (case listened of Inl e \<Rightarrow> Inl (NetWrap ''start tool runtime listener'' e)
                | Inr address \<Rightarrow>
                    let g = length (ps_gateways s); s1 = s\<lparr>ps_gateways := ps_gateways s @ [newGateway address], ps_instance := Some g\<rparr>
                    in Inr (g, case early of None \<Rightarrow> s1 | Some err \<Rightarrow> serve_returned g err s1))) of
        Inl e \<Rightarrow> (Inl e, s)
      | Inr (g, s1) \<Rightarrow>
          (case gateway_register g token catalog s1 of (Inl e, s2) \<Rightarrow> (Inl e, s2)
           | (Inr r, s2) \<Rightarrow> (Inr (gw_endpoint (ps_gateways s2 ! g), r), s2)))"

text \<open>The last registration to go stops admission; a listener whose \<^verbatim>\<open>Close\<close> fails is left listening until serving ends.\<close>

definition retire :: "net_error option \<Rightarrow> string \<Rightarrow> nat \<Rightarrow> process \<Rightarrow> retirement \<times> process" where
  "retire listenerClose token r s =
     (case ps_instance s of
        None \<Rightarrow> (\<lparr>ret_registration = r, ret_gateway = None, ret_last = False, ret_stopErr = None\<rparr>, map_reg r reg_beginClose s)
      | Some g \<Rightarrow>
          (case unregister g token r s of (lst, s1) \<Rightarrow>
             if lst
             then (\<lparr>ret_registration = r, ret_gateway = Some g, ret_last = True, ret_stopErr = stopAdmission listenerClose\<rparr>,
                   map_gateway g (\<lambda>gw. gw\<lparr>gw_listening := gw_listening gw \<and> stopAdmission listenerClose \<noteq> None\<rparr>) (s1\<lparr>ps_instance := None\<rparr>))
             else (\<lparr>ret_registration = r, ret_gateway = Some g, ret_last = False, ret_stopErr = None\<rparr>, s1)))"

definition normalize_close :: "net_error option \<Rightarrow> net_error option" where
  "normalize_close err =
     (case err of None \<Rightarrow> None | Some e \<Rightarrow> if net_Is ErrServerClosed e \<or> isClosedNetworkError (Some e) then None else Some e)"

text \<open>
  \<^verbatim>\<open>shutdownAndDrain\<close>, after the registration has drained and serving has ended: the error it returns, from
  what \<^verbatim>\<open>Shutdown\<close>, \<^verbatim>\<open>Close\<close> and \<^verbatim>\<open>Serve\<close> reported.
\<close>

definition shutdown_error :: "net_error option \<Rightarrow> net_error option \<Rightarrow> net_error option \<Rightarrow> net_error option" where
  "shutdown_error shutdownErr closeErr serveErr =
     (let err = (case normalize_close shutdownErr of None \<Rightarrow> None
        | Some e \<Rightarrow>
            let c = normalize_close closeErr;
                joined = (case c of None \<Rightarrow> Some e | Some _ \<Rightarrow> errors_Join [Some e, c])
            in if (case joined of None \<Rightarrow> False | Some x \<Rightarrow> net_Is ErrDeadline x) then c else joined)
      in errors_Join [err, serveErr])"

definition cleanup_ready :: "retirement \<Rightarrow> process \<Rightarrow> bool" where
  "cleanup_ready ret s \<longleftrightarrow> reg_drained (ps_regs s ! ret_registration ret) \<and>
     (case ret_gateway ret of None \<Rightarrow> True | Some g \<Rightarrow> ret_last ret \<longrightarrow> gw_serveDone (ps_gateways s ! g))"

definition cleanup :: "net_error option \<Rightarrow> net_error option \<Rightarrow> retirement \<Rightarrow> process \<Rightarrow> net_error option" where
  "cleanup shutdownErr closeErr ret s =
     (case ret_gateway ret of None \<Rightarrow> ret_stopErr ret
      | Some g \<Rightarrow> if \<not> ret_last ret then ret_stopErr ret
                 else errors_Join [ret_stopErr ret, shutdown_error shutdownErr closeErr (gw_serveErr (ps_gateways s ! g))])"

subsection \<open>Runtimes\<close>

definition newRuntime :: "runtimeCatalog \<Rightarrow> string \<Rightarrow> entropy \<Rightarrow> string + Runtime" where
  "newRuntime catalog fingerprint ent =
     (case ent of EntropyError e \<Rightarrow> Inl (''create tool runtime credential name: '' @ e)
      | EntropyRead suffix \<Rightarrow>
          Inr \<lparr>tr_catalog = catalog, tr_fingerprint = fingerprint,
            tr_bearerTokenEnvVar = ''AGENT_ADAPTOR_TOOL_TOKEN_'' @ map (\<lambda>c. if CHR ''a'' \<le> c \<and> c \<le> CHR ''f'' then char_of (of_char c - 32 :: nat) else c) (hexEncode suffix),
            tr_started = False, tr_closed = False, tr_endpoint = \<lparr>Endpoint_URL = [], Endpoint_BearerTokenEnvVar = []\<rparr>, tr_token = [],
            tr_registration = None, tr_closeStarted = False, tr_closer = Idle, tr_closeErr = None\<rparr>)"

text \<open>The attempts of \<^verbatim>\<open>Start\<close>, one per random token; only a collision of tokens leads to another one.\<close>

fun start_attempts :: "nat \<Rightarrow> net_error + string \<Rightarrow> net_error option option \<Rightarrow> entropy list \<Rightarrow> net_error option \<Rightarrow> process \<Rightarrow> (net_error + Endpoint) \<times> process" where
  "start_attempts k listened early [] lastErr s = (Inl (NetWrap ''register tool catalog'' (case lastErr of None \<Rightarrow> NetText ''%!w(<nil>)'' | Some e \<Rightarrow> e)), s)"
| "start_attempts k listened early (ent # ents) lastErr s =
     (case ent of EntropyError e \<Rightarrow> (Inl (NetWrap ''create tool runtime credential'' (NetText e)), s)
      | EntropyRead secret \<Rightarrow>
          (let token = RawURLEncoding secret
           in case manager_register listened early token (tr_catalog (ps_runtimes s ! k)) s of
                (Inr (endpoint, r), s1) \<Rightarrow>
                  (let e = endpoint\<lparr>Endpoint_BearerTokenEnvVar := tr_bearerTokenEnvVar (ps_runtimes s ! k)\<rparr>
                   in (Inr e, map_runtime k (\<lambda>rt. rt\<lparr>tr_started := True, tr_endpoint := e, tr_token := token, tr_registration := Some r\<rparr>) s1))
              | (Inl e, s1) \<Rightarrow> if \<not> net_Is ErrTokenCollision e then (Inl e, s1) else start_attempts k listened early ents (Some e) s1))"

definition Start :: "nat \<Rightarrow> net_error + string \<Rightarrow> net_error option option \<Rightarrow> entropy \<Rightarrow> entropy \<Rightarrow> entropy \<Rightarrow> process \<Rightarrow> (net_error + Endpoint) \<times> process" where
  "Start k listened early e1 e2 e3 s =
     (if tr_closed (ps_runtimes s ! k) then (Inl ErrRuntimeClosed, s)
      else if tr_started (ps_runtimes s ! k) then (Inr (tr_endpoint (ps_runtimes s ! k)), s)
      else start_attempts k listened early [e1, e2, e3] None s)"

definition runtime_Endpoint :: "Runtime \<Rightarrow> Endpoint \<times> bool" where
  "runtime_Endpoint rt = (tr_endpoint rt, tr_started rt \<and> \<not> tr_closed rt)"

definition BearerToken :: "Runtime \<Rightarrow> string \<times> bool" where
  "BearerToken rt = (if \<not> tr_started rt \<or> tr_closed rt then ([], False) else (tr_token rt, True))"

text \<open>\<^verbatim>\<open>beginClose\<close> in its three sections: marking the runtime, retiring the registration, the cleanup that ends it.\<close>

definition close_mark :: "nat \<Rightarrow> process \<Rightarrow> process" where
  "close_mark k s =
     map_runtime k (\<lambda>rt. if tr_closeStarted rt then rt
       else rt\<lparr>tr_closeStarted := True, tr_closed := True, tr_token := [],
               tr_closer := (case tr_registration rt of None \<Rightarrow> Finished | Some r \<Rightarrow> Marked (tr_token rt) r)\<rparr>) s"

definition close_retire :: "nat \<Rightarrow> net_error option \<Rightarrow> process \<Rightarrow> process" where
  "close_retire k listenerClose s =
     (case tr_closer (ps_runtimes s ! k) of
        Marked token r \<Rightarrow> (case retire listenerClose token r s of (ret, s1) \<Rightarrow> map_runtime k (\<lambda>rt. rt\<lparr>tr_closer := Retiring ret\<rparr>) s1)
      | _ \<Rightarrow> s)"

definition close_finish :: "nat \<Rightarrow> net_error option \<Rightarrow> net_error option \<Rightarrow> process \<Rightarrow> process" where
  "close_finish k shutdownErr closeErr s =
     (case tr_closer (ps_runtimes s ! k) of
        Retiring ret \<Rightarrow>
          if cleanup_ready ret s then map_runtime k (\<lambda>rt. rt\<lparr>tr_closeErr := cleanup shutdownErr closeErr ret s, tr_closer := Finished\<rparr>) s else s
      | _ \<Rightarrow> s)"

text \<open>
  The end of \<^verbatim>\<open>Close\<close>: what the waiting call may return, for the error of its context once that is done. With neither case
  ready it waits; with both, \<^verbatim>\<open>select\<close> takes either.
\<close>

definition Close_returns :: "net_error option \<Rightarrow> Runtime \<Rightarrow> net_error option list" where
  "Close_returns ctx_Err rt =
     (if tr_closer rt = Finished then [tr_closeErr rt] else []) @ (case ctx_Err of None \<Rightarrow> [] | Some e \<Rightarrow> [Some e])"

subsection \<open>The process\<close>

text \<open>
  Agents start and close, requests arrive on any gateway and go on independently, serving may end at any time: every
  interleaving of the sections.
\<close>

inductive process_step :: "process \<Rightarrow> process \<Rightarrow> bool" where
  step_new: "newRuntime catalog fingerprint ent = Inr rt \<Longrightarrow> process_step s (s\<lparr>ps_runtimes := ps_runtimes s @ [rt]\<rparr>)"
| step_start: "k < length (ps_runtimes s) \<Longrightarrow> process_step s (snd (Start k listened early e1 e2 e3 s))"
| step_request: "g < length (ps_gateways s) \<Longrightarrow> process_step s (snd (secureHandler url_Parse g h s))"
| step_slot: "\<lbrakk>q \<in># ps_requests s; rq_phase q = Authenticated\<rbrakk> \<Longrightarrow> process_step s (take_slot q s)"
| step_served: "\<lbrakk>q \<in># ps_requests s; rq_phase q = Serving\<rbrakk> \<Longrightarrow> process_step s (give_slot q s)"
| step_leave: "\<lbrakk>q \<in># ps_requests s; rq_phase q = Leaving\<rbrakk> \<Longrightarrow> process_step s (leave q s)"
| step_serve: "\<lbrakk>g < length (ps_gateways s); \<not> gw_serveDone (ps_gateways s ! g)\<rbrakk> \<Longrightarrow> process_step s (serve_returned g err s)"
| step_mark: "k < length (ps_runtimes s) \<Longrightarrow> process_step s (close_mark k s)"
| step_retire: "k < length (ps_runtimes s) \<Longrightarrow> process_step s (close_retire k listenerClose s)"
| step_finish: "k < length (ps_runtimes s) \<Longrightarrow> process_step s (close_finish k shutdownErr closeErr s)"

abbreviation process_reachable :: "process \<Rightarrow> bool" where
  "process_reachable s \<equiv> \<exists>config. process_step\<^sup>*\<^sup>* (newProcess config) s"

end
