(* ===== verification/GatewaySystem.thy ===== *)
theory GatewaySystem
  imports ToolGateway
begin

text \<open>
  The invariant of the tool gateway under any interleaving of agents, requests and the network: requests in flight are
  counted, slots are bounded, and every open runtime holds its registration on the one current gateway.
\<close>

subsection \<open>Counting requests\<close>

lemma nth_update_at: "j < length xs \<Longrightarrow> xs[i := x] ! j = (if i = j then x else xs ! j)"
  by (auto simp: nth_list_update)

definition calls :: "process \<Rightarrow> nat \<Rightarrow> nat" where
  "calls s r = size (filter_mset (\<lambda>q. rq_registration q = r) (ps_requests s))"

definition slots :: "process \<Rightarrow> nat \<Rightarrow> nat" where
  "slots s g = size (filter_mset (\<lambda>q. rq_gateway q = g \<and> rq_phase q = Serving) (ps_requests s))"

definition requests_ok :: "process \<Rightarrow> bool" where
  "requests_ok s \<longleftrightarrow> (\<forall>q \<in># ps_requests s. rq_registration q < length (ps_regs s) \<and> rq_gateway q < length (ps_gateways s))"

definition regs_ok :: "process \<Rightarrow> bool" where
  "regs_ok s \<longleftrightarrow> (\<forall>r < length (ps_regs s). reg_active (ps_regs s ! r) = int (calls s r)
     \<and> (reg_drained (ps_regs s ! r) \<longleftrightarrow> reg_closing (ps_regs s ! r) \<and> calls s r = 0))"

definition slots_ok :: "process \<Rightarrow> bool" where
  "slots_ok s \<longleftrightarrow> (\<forall>g < length (ps_gateways s). gw_semaphore (ps_gateways s ! g) = slots s g \<and> slots s g \<le> maxConcurrent (ps_config s))"

lemmas accounting_defs = requests_ok_def regs_ok_def slots_ok_def calls_def slots_def

definition accounted :: "process \<Rightarrow> bool" where
  "accounted s \<longleftrightarrow> requests_ok s \<and> regs_ok s \<and> slots_ok s"

subsection \<open>Ownership\<close>

definition holds :: "Runtime \<Rightarrow> string \<Rightarrow> nat \<Rightarrow> bool" where
  "holds rt t r \<longleftrightarrow> tr_registration rt = Some r \<and> (tr_closer rt = Idle \<and> tr_started rt \<and> tr_token rt = t \<or> tr_closer rt = Marked t r)"

definition live :: "process \<Rightarrow> Runtime \<Rightarrow> string \<Rightarrow> nat \<Rightarrow> bool" where
  "live s rt t r \<longleftrightarrow> r < length (ps_regs s) \<and> reg_catalog (ps_regs s ! r) = tr_catalog rt \<and>
     (\<exists>g. ps_instance s = Some g \<and> (t, r) \<in> set (gw_registrations (ps_gateways s ! g))
        \<and> tr_endpoint rt = (gw_endpoint (ps_gateways s ! g))\<lparr>Endpoint_BearerTokenEnvVar := tr_bearerTokenEnvVar rt\<rparr>)"

definition runtime_ok :: "process \<Rightarrow> Runtime \<Rightarrow> bool" where
  "runtime_ok s rt \<longleftrightarrow>
     (tr_closeStarted rt \<longleftrightarrow> tr_closer rt \<noteq> Idle) \<and> (tr_closed rt \<longleftrightarrow> tr_closer rt \<noteq> Idle) \<and> (tr_started rt \<longleftrightarrow> tr_registration rt \<noteq> None) \<and>
     (case tr_closer rt of
        Idle \<Rightarrow> (\<forall>r. tr_registration rt = Some r \<longrightarrow> live s rt (tr_token rt) r)
      | Marked t r \<Rightarrow> tr_registration rt = Some r \<and> live s rt t r
      | Retiring ret \<Rightarrow> tr_registration rt = Some (ret_registration ret) \<and> ret_registration ret < length (ps_regs s)
          \<and> reg_closing (ps_regs s ! ret_registration ret) \<and> (\<forall>g. ret_gateway ret = Some g \<longrightarrow> g < length (ps_gateways s))
      | Finished \<Rightarrow> (\<forall>r. tr_registration rt = Some r \<longrightarrow> r < length (ps_regs s) \<and> reg_drained (ps_regs s ! r)))"

definition gateway_ok :: "process \<Rightarrow> nat \<Rightarrow> bool" where
  "gateway_ok s g \<longleftrightarrow>
     (gw_registrations (ps_gateways s ! g) \<noteq> [] \<longrightarrow> ps_instance s = Some g) \<and>
     distinct (map fst (gw_registrations (ps_gateways s ! g))) \<and>
     (\<forall>(t, r) \<in> set (gw_registrations (ps_gateways s ! g)). r < length (ps_regs s) \<and> \<not> reg_closing (ps_regs s ! r)
        \<and> (\<exists>rt \<in> set (ps_runtimes s). holds rt t r))"

definition owners_distinct :: "process \<Rightarrow> bool" where
  "owners_distinct s \<longleftrightarrow> (\<forall>k < length (ps_runtimes s). \<forall>k' < length (ps_runtimes s). \<forall>r.
     tr_registration (ps_runtimes s ! k) = Some r \<longrightarrow> tr_registration (ps_runtimes s ! k') = Some r \<longrightarrow> k = k')"

definition owned :: "process \<Rightarrow> bool" where
  "owned s \<longleftrightarrow> (\<forall>g. ps_instance s = Some g \<longrightarrow> g < length (ps_gateways s)) \<and> (\<forall>g < length (ps_gateways s). gateway_ok s g)
     \<and> (\<forall>rt \<in> set (ps_runtimes s). runtime_ok s rt) \<and> owners_distinct s"

definition process_ok :: "process \<Rightarrow> bool" where
  "process_ok s \<longleftrightarrow> accounted s \<and> owned s"

lemma process_ok_init: "process_ok (newProcess config)"
  by (simp add: process_ok_def accounted_def accounting_defs owned_def owners_distinct_def newProcess_def)

text \<open>Sections that leave ownership alone: they may count and drain, and serving may end.\<close>

definition same_ownership :: "process \<Rightarrow> process \<Rightarrow> bool" where
  "same_ownership s s' \<longleftrightarrow> ps_runtimes s' = ps_runtimes s \<and> ps_instance s' = ps_instance s \<and>
     length (ps_regs s') = length (ps_regs s) \<and> length (ps_gateways s') = length (ps_gateways s) \<and>
     (\<forall>r < length (ps_regs s). reg_catalog (ps_regs s' ! r) = reg_catalog (ps_regs s ! r) \<and> reg_closing (ps_regs s' ! r) = reg_closing (ps_regs s ! r)
        \<and> (reg_drained (ps_regs s ! r) \<longrightarrow> reg_drained (ps_regs s' ! r))) \<and>
     (\<forall>g < length (ps_gateways s). gw_registrations (ps_gateways s' ! g) = gw_registrations (ps_gateways s ! g)
        \<and> gw_endpoint (ps_gateways s' ! g) = gw_endpoint (ps_gateways s ! g))"

lemma owned_frame:
  assumes "same_ownership s s'" "owned s"
  shows "owned s'"
proof -
  note f = assms(1)[unfolded same_ownership_def]
  have inst: "ps_instance s = Some g \<Longrightarrow> g < length (ps_gateways s)" for g using assms(2) by (simp add: owned_def)
  have live: "live s' rt t r" if "live s rt t r" for rt t r
    using that f inst by (auto simp: live_def)
  have "runtime_ok s' rt" if "runtime_ok s rt" for rt
    using that f live by (auto simp: runtime_ok_def split: closer.splits)
  moreover have "gateway_ok s' g" if "gateway_ok s g" "g < length (ps_gateways s)" for g
    using that f by (fastforce simp: gateway_ok_def)
  ultimately show ?thesis using assms(2) f by (auto simp: owned_def owners_distinct_def)
qed

subsection \<open>Requests\<close>

lemma select_registration_map_of: "distinct (map fst regs) \<Longrightarrow> select_registration p regs = map_of regs p"
proof -
  have "distinct (map fst regs) \<Longrightarrow> fold (\<lambda>(t, r) sel. if p = t then Some r else sel) regs acc = (case map_of regs p of None \<Rightarrow> acc | Some r \<Rightarrow> Some r)" for acc
    by (induction regs arbitrary: acc) (auto simp: map_of_eq_None_iff image_iff split: option.splits)
  then show "distinct (map fst regs) \<Longrightarrow> ?thesis" by (simp add: select_registration_def split: option.splits)
qed

definition admitted_state :: "nat \<Rightarrow> nat \<Rightarrow> process \<Rightarrow> process" where
  "admitted_state g r s = (map_reg r (\<lambda>reg. reg\<lparr>reg_active := reg_active reg + 1\<rparr>) s)\<lparr>ps_requests :=
     add_mset \<lparr>rq_gateway = g, rq_registration = r, rq_phase = Authenticated\<rparr> (ps_requests s)\<rparr>"

lemma secureHandler_cases:
  assumes "owned s" "g < length (ps_gateways s)"
  obtains (refused) "snd (secureHandler url_Parse g h s) = s" "\<And>r. fst (secureHandler url_Parse g h s) \<noteq> Admitted r"
  | (admitted) r where "secureHandler url_Parse g h s = (Admitted r, admitted_state g r s)" "r < length (ps_regs s)"
proof (cases "\<exists>r. fst (secureHandler url_Parse g h s) = Admitted r")
  case False
  then have "snd (secureHandler url_Parse g h s) = s"
    by (auto simp: secureHandler_def authenticate_def split: if_splits prod.splits option.splits list.splits)
  then show ?thesis using refused False by blast
next
  case True
  then obtain r where r: "fst (secureHandler url_Parse g h s) = Admitted r" by blast
  have gw: "gateway_ok s g" using assms by (simp add: owned_def)
  have "select_registration p (gw_registrations (ps_gateways s ! g)) = Some r \<Longrightarrow> r < length (ps_regs s)" for p
    using gw map_of_SomeD[of "gw_registrations (ps_gateways s ! g)" p r] by (auto simp: gateway_ok_def select_registration_map_of)
  then have "secureHandler url_Parse g h s = (Admitted r, admitted_state g r s) \<and> r < length (ps_regs s)"
    using r by (auto simp: secureHandler_def authenticate_def acquire_def admitted_state_def split: if_splits prod.splits option.splits list.splits)
  then show ?thesis using admitted by blast
qed

lemma request_ok:
  assumes "process_ok s" "g < length (ps_gateways s)"
  shows "process_ok (snd (secureHandler url_Parse g h s))"
proof -
  have "owned s" using assms(1) by (simp add: process_ok_def)
  from this assms(2) show ?thesis
  proof (cases rule: secureHandler_cases[of s g url_Parse h])
    case refused
    then show ?thesis using assms(1) by simp
  next
    case (admitted r)
    have reg: "\<not> reg_closing (ps_regs s ! r)" using admitted by (auto simp: secureHandler_def authenticate_def acquire_def split: if_splits prod.splits option.splits list.splits)
    have "same_ownership s (admitted_state g r s)" by (auto simp: same_ownership_def admitted_state_def nth_update_at)
    moreover have "accounted (admitted_state g r s)"
      using assms admitted reg by (auto simp: process_ok_def accounted_def accounting_defs admitted_state_def nth_update_at)
    ultimately show ?thesis using admitted assms(1) owned_frame by (auto simp: process_ok_def)
  qed
qed

lemma remove_request:
  assumes "q \<in># ps_requests s"
  obtains rest where "ps_requests s = add_mset q rest"
  using multi_member_split[OF assms] by blast

lemma slot_ok:
  assumes "process_ok s" "q \<in># ps_requests s" "rq_phase q = Authenticated"
  shows "process_ok (take_slot q s)"
proof -
  obtain rest where rest: "ps_requests s = add_mset q rest" using remove_request[OF assms(2)] .
  have acc: "requests_ok s" "regs_ok s" "slots_ok s" and own: "owned s" using assms(1) by (simp_all add: process_ok_def accounted_def)
  have "same_ownership s (take_slot q s)" by (auto simp: same_ownership_def take_slot_def move_request_def nth_update_at)
  moreover have "requests_ok (take_slot q s) \<and> regs_ok (take_slot q s)"
    using acc(1,2) rest by (auto simp: take_slot_def accounting_defs move_request_def)
  moreover have "slots_ok (take_slot q s)"
    using acc(1,3) rest assms(3) by (auto simp: take_slot_def accounting_defs move_request_def nth_update_at)
  ultimately show ?thesis using own owned_frame by (auto simp: process_ok_def accounted_def)
qed

lemma served_ok:
  assumes "process_ok s" "q \<in># ps_requests s" "rq_phase q = Serving"
  shows "process_ok (give_slot q s)"
proof -
  obtain rest where rest: "ps_requests s = add_mset q rest" using remove_request[OF assms(2)] .
  have acc: "requests_ok s" "regs_ok s" "slots_ok s" and own: "owned s" using assms(1) by (simp_all add: process_ok_def accounted_def)
  have "same_ownership s (give_slot q s)" by (auto simp: same_ownership_def give_slot_def move_request_def nth_update_at)
  moreover have "requests_ok (give_slot q s) \<and> regs_ok (give_slot q s)"
    using acc(1,2) rest by (auto simp: give_slot_def accounting_defs move_request_def)
  moreover have "slots_ok (give_slot q s)"
    using acc(1,3) rest assms(3) by (auto simp: give_slot_def accounting_defs move_request_def nth_update_at)
  ultimately show ?thesis using own owned_frame by (auto simp: process_ok_def accounted_def)
qed

lemma leave_ok:
  assumes "process_ok s" "q \<in># ps_requests s" "rq_phase q = Leaving"
  shows "process_ok (leave q s)"
proof -
  obtain rest where rest: "ps_requests s = add_mset q rest" using remove_request[OF assms(2)] .
  have acc: "requests_ok s" "regs_ok s" "slots_ok s" and own: "owned s" using assms(1) by (simp_all add: process_ok_def accounted_def)
  have "same_ownership s (leave q s)"
    by (auto simp: same_ownership_def leave_def reg_release_def drainOnce_def Let_def nth_update_at)
  moreover have "requests_ok (leave q s)" "slots_ok (leave q s)"
    using acc rest assms(3) by (auto simp: leave_def accounting_defs)
  moreover have "regs_ok (leave q s)"
    using acc(1,2) rest by (auto simp: leave_def accounting_defs reg_release_def drainOnce_def Let_def nth_update_at)
  ultimately show ?thesis using own owned_frame by (auto simp: process_ok_def accounted_def)
qed

lemma serve_ok: "process_ok s \<Longrightarrow> process_ok (serve_returned g err s)"
proof -
  assume "process_ok s"
  moreover have "same_ownership s (serve_returned g err s)" by (auto simp: same_ownership_def serve_returned_def nth_update_at)
  moreover have "accounted s \<Longrightarrow> accounted (serve_returned g err s)"
    by (auto simp: accounted_def accounting_defs serve_returned_def nth_update_at)
  ultimately show ?thesis using owned_frame by (auto simp: process_ok_def)
qed

subsection \<open>Agents\<close>

lemma registered_bound: "\<lbrakk>runtime_ok s rt; tr_registration rt = Some r\<rbrakk> \<Longrightarrow> r < length (ps_regs s)"
  by (auto simp: runtime_ok_def live_def split: closer.splits)

lemma in_set_update_other: "\<lbrakk>x \<in> set xs; x \<noteq> xs ! k\<rbrakk> \<Longrightarrow> x \<in> set (xs[k := y])"
  by (metis in_set_conv_nth length_list_update nth_list_update_neq)

lemma owned_parts:
  assumes "owned s"
  shows "\<And>g. ps_instance s = Some g \<Longrightarrow> g < length (ps_gateways s)" "\<And>g. g < length (ps_gateways s) \<Longrightarrow> gateway_ok s g"
    "\<And>rt. rt \<in> set (ps_runtimes s) \<Longrightarrow> runtime_ok s rt" "owners_distinct s"
  using assms by (simp_all add: owned_def)

lemma new_ok:
  assumes "process_ok s" "newRuntime catalog fingerprint ent = Inr rt"
  shows "process_ok (s\<lparr>ps_runtimes := ps_runtimes s @ [rt]\<rparr>)" (is "process_ok ?s'")
proof -
  have rt: "tr_registration rt = None" "tr_closer rt = Idle" "\<not> tr_started rt" "\<not> tr_closed rt" "\<not> tr_closeStarted rt"
    using assms(2) by (auto simp: newRuntime_def split: entropy.splits)
  have own: "owned s" using assms(1) by (simp add: process_ok_def)
  have "runtime_ok ?s' x = runtime_ok s x" for x by (simp add: runtime_ok_def live_def split: closer.splits)
  moreover have "gateway_ok s g \<Longrightarrow> gateway_ok ?s' g" for g by (fastforce simp: gateway_ok_def)
  moreover have "runtime_ok s rt" using rt by (simp add: runtime_ok_def)
  moreover have "owners_distinct ?s'" using owned_parts(4)[OF own] rt(1) by (auto simp: owners_distinct_def nth_append less_Suc_eq)
  ultimately have "owned ?s'" using own by (auto simp: owned_def)
  moreover have "accounted ?s'" using assms(1) by (simp add: process_ok_def accounted_def accounting_defs)
  ultimately show ?thesis by (simp add: process_ok_def)
qed

lemma listen_ok:
  assumes "process_ok s" "ps_instance s = None"
  shows "process_ok (s\<lparr>ps_gateways := ps_gateways s @ [newGateway address], ps_instance := Some (length (ps_gateways s))\<rparr>)" (is "process_ok ?s'")
proof -
  have own: "owned s" using assms(1) by (simp add: process_ok_def)
  have none: "\<not> live s rt t r" for rt t r using assms(2) by (simp add: live_def)
  have "runtime_ok s rt \<Longrightarrow> runtime_ok ?s' rt" for rt using none by (auto simp: runtime_ok_def split: closer.splits)
  moreover have "gateway_ok ?s' g" if "g < length (ps_gateways ?s')" for g
    using that owned_parts(2)[OF own, of g] assms(2) by (cases "g < length (ps_gateways s)") (auto simp: gateway_ok_def nth_append newGateway_def)
  ultimately have "owned ?s'" using own by (auto simp: owned_def owners_distinct_def)
  moreover have "accounted ?s'"
  proof -
    have acc: "requests_ok s" "regs_ok s" "slots_ok s" using assms(1) by (simp_all add: process_ok_def accounted_def)
    have "slots s (length (ps_gateways s)) = 0" using acc(1) by (auto simp: requests_ok_def slots_def)
    moreover have "slots ?s' = slots s" "calls ?s' = calls s" by (simp_all add: slots_def calls_def fun_eq_iff)
    ultimately show ?thesis using acc
      by (auto simp: accounted_def requests_ok_def regs_ok_def slots_ok_def nth_append newGateway_def less_Suc_eq)
  qed
  ultimately show ?thesis by (simp add: process_ok_def)
qed

lemma accounted_grow:
  "accounted s \<Longrightarrow> accounted (s\<lparr>ps_regs := ps_regs s @ [newRegistration c],
     ps_gateways := (ps_gateways s)[g := (ps_gateways s ! g)\<lparr>gw_registrations := table\<rparr>], ps_runtimes := rts\<rparr>)"
proof -
  assume "accounted s"
  then have acc: "requests_ok s" "regs_ok s" "slots_ok s" by (simp_all add: accounted_def)
  then have "filter_mset (\<lambda>q. rq_registration q = length (ps_regs s)) (ps_requests s) = {#}"
    by (auto simp: requests_ok_def filter_mset_eq_mempty_iff)
  then show ?thesis using acc by (auto simp: accounted_def accounting_defs nth_append newRegistration_def less_Suc_eq nth_update_at)
qed

lemma register_ok:
  assumes ok: "process_ok s" and g: "ps_instance s = Some g" and k: "k < length (ps_runtimes s)"
    and rt: "\<not> tr_started (ps_runtimes s ! k)" "\<not> tr_closed (ps_runtimes s ! k)"
    and fresh: "map_of (gw_registrations (ps_gateways s ! g)) token = None"
  defines "r \<equiv> length (ps_regs s)"
  defines "rt' \<equiv> (ps_runtimes s ! k)\<lparr>tr_started := True,
      tr_endpoint := (gw_endpoint (ps_gateways s ! g))\<lparr>Endpoint_BearerTokenEnvVar := tr_bearerTokenEnvVar (ps_runtimes s ! k)\<rparr>,
      tr_token := token, tr_registration := Some r\<rparr>"
  defines "s' \<equiv> s\<lparr>ps_regs := ps_regs s @ [newRegistration (tr_catalog (ps_runtimes s ! k))],
      ps_gateways := (ps_gateways s)[g := (ps_gateways s ! g)\<lparr>gw_registrations := (token, r) # gw_registrations (ps_gateways s ! g)\<rparr>],
      ps_runtimes := (ps_runtimes s)[k := rt']\<rparr>"
  shows "process_ok s'"
proof -
  have own: "owned s" using ok by (simp add: process_ok_def)
  note parts = owned_parts[OF own]
  have glen: "g < length (ps_gateways s)" by (rule parts(1)[OF g])
  have old: "runtime_ok s (ps_runtimes s ! k)" using parts(3) k by simp
  have idle: "tr_registration (ps_runtimes s ! k) = None" "tr_closer (ps_runtimes s ! k) = Idle" "\<not> tr_closeStarted (ps_runtimes s ! k)"
    using old rt by (auto simp: runtime_ok_def)
  have reg: "ps_regs s' ! i = ps_regs s ! i" if "i < r" for i using that by (simp add: s'_def r_def nth_append)
  have new: "ps_regs s' ! r = newRegistration (tr_catalog (ps_runtimes s ! k))" by (simp add: s'_def r_def)
  have len: "length (ps_regs s') = Suc r" "length (ps_gateways s') = length (ps_gateways s)" by (simp_all add: s'_def r_def)
  have live: "live s' x t i" if "live s x t i" for x t i
    using that g glen by (auto simp: live_def s'_def nth_append)
  have "runtime_ok s' x" if "runtime_ok s x" for x
    using that live reg len by (auto simp: runtime_ok_def r_def split: closer.splits)
  moreover have "runtime_ok s' rt'"
    using idle rt glen by (auto simp: runtime_ok_def live_def rt'_def s'_def r_def g newRegistration_def)
  moreover have "set (ps_runtimes s') \<subseteq> insert rt' (set (ps_runtimes s))" unfolding s'_def by (simp add: set_update_subset_insert)
  ultimately have runtimes: "\<forall>x \<in> set (ps_runtimes s'). runtime_ok s' x" using parts(3) by blast
  have holder: "\<exists>x \<in> set (ps_runtimes s'). holds x t i" if "\<exists>x \<in> set (ps_runtimes s). holds x t i" for t i
    using that idle(1) in_set_update_other[of _ "ps_runtimes s" k rt'] by (fastforce simp: s'_def holds_def)
  have "rt' \<in> set (ps_runtimes s')" using k by (simp add: s'_def set_update_memI)
  then have mine: "\<exists>x \<in> set (ps_runtimes s'). holds x token r" using idle(2) by (intro bexI[of _ rt']) (simp_all add: holds_def rt'_def)
  have gateways: "gateway_ok s' g'" if "g' < length (ps_gateways s')" for g'
  proof (cases "g' = g")
    case True
    have "gateway_ok s g" by (rule parts(2)[OF glen])
    then show ?thesis using True holder mine reg new fresh glen g
      by (fastforce simp: gateway_ok_def s'_def r_def nth_append newRegistration_def map_of_eq_None_iff less_Suc_eq)
  next
    case False
    then have "gateway_ok s g'" "gw_registrations (ps_gateways s ! g') = []"
      using that parts(2)[of g'] g by (auto simp: s'_def gateway_ok_def)
    then show ?thesis using False by (auto simp: gateway_ok_def s'_def)
  qed
  have "tr_registration (ps_runtimes s ! j) \<noteq> Some r" if "j < length (ps_runtimes s)" for j
    using registered_bound[OF parts(3), of "ps_runtimes s ! j" r] that by (auto simp: r_def)
  then have "owners_distinct s'" using parts(4) by (auto simp: owners_distinct_def s'_def rt'_def nth_update_at split: if_splits)
  then have "owned s'" using gateways runtimes g glen by (auto simp: owned_def s'_def)
  moreover have "accounted s'" using ok accounted_grow unfolding s'_def r_def by (simp add: process_ok_def)
  ultimately show ?thesis by (simp add: process_ok_def)
qed

text \<open>A change of one runtime that keeps what it holds.\<close>

lemma runtime_update_ok:
  assumes ok: "process_ok s" and k: "k < length (ps_runtimes s)" and rt: "runtime_ok s rt'"
    and "tr_registration rt' = tr_registration (ps_runtimes s ! k)"
    and holds: "\<And>t r. holds (ps_runtimes s ! k) t r \<Longrightarrow> holds rt' t r"
  shows "process_ok (s\<lparr>ps_runtimes := (ps_runtimes s)[k := rt']\<rparr>)" (is "process_ok ?s'")
proof -
  have own: "owned s" using ok by (simp add: process_ok_def)
  note parts = owned_parts[OF own]
  have "runtime_ok ?s' x = runtime_ok s x" for x by (simp add: runtime_ok_def live_def split: closer.splits)
  moreover have "set (ps_runtimes ?s') \<subseteq> insert rt' (set (ps_runtimes s))" by (simp add: set_update_subset_insert)
  ultimately have runtimes: "\<forall>x \<in> set (ps_runtimes ?s'). runtime_ok ?s' x" using parts(3) rt by blast
  have "\<exists>x \<in> set (ps_runtimes ?s'). holds x t r" if h: "\<exists>x \<in> set (ps_runtimes s). holds x t r" for t r
  proof -
    obtain x where x: "x \<in> set (ps_runtimes s)" "holds x t r" using h by blast
    show ?thesis
    proof (cases "x = ps_runtimes s ! k")
      case True
      then show ?thesis using holds x(2) k by (intro bexI[of _ rt']) (auto simp: set_update_memI)
    next
      case False
      then show ?thesis using in_set_update_other x by (intro bexI[of _ x]) auto
    qed
  qed
  then have "gateway_ok s g \<Longrightarrow> gateway_ok ?s' g" for g by (fastforce simp: gateway_ok_def)
  then have "owned ?s'" using parts runtimes assms(4) by (auto simp: owned_def owners_distinct_def nth_update_at)
  moreover have "accounted ?s'" using ok by (simp add: process_ok_def accounted_def accounting_defs)
  ultimately show ?thesis by (simp add: process_ok_def)
qed

lemma mark_ok:
  assumes ok: "process_ok s" and k: "k < length (ps_runtimes s)"
  shows "process_ok (close_mark k s)"
proof -
  have rt: "runtime_ok s (ps_runtimes s ! k)" using ok k by (auto simp: process_ok_def owned_def)
  then show ?thesis unfolding close_mark_def
    by (intro runtime_update_ok[OF ok k]) (auto simp: runtime_ok_def holds_def live_def split: option.splits)
qed

lemma finish_ok:
  assumes ok: "process_ok s" and k: "k < length (ps_runtimes s)"
  shows "process_ok (close_finish k e1 e2 s)"
proof (cases "tr_closer (ps_runtimes s ! k)")
  case (Retiring ret)
  have rt: "runtime_ok s (ps_runtimes s ! k)" using ok k by (auto simp: process_ok_def owned_def)
  show ?thesis
  proof (cases "cleanup_ready ret s")
    case True
    let ?rt = "(ps_runtimes s ! k)\<lparr>tr_closeErr := cleanup e1 e2 ret s, tr_closer := Finished\<rparr>"
    have "process_ok (s\<lparr>ps_runtimes := (ps_runtimes s)[k := ?rt]\<rparr>)"
      using rt True Retiring by (intro runtime_update_ok[OF ok k]) (auto simp: runtime_ok_def holds_def cleanup_ready_def)
    then show ?thesis using True Retiring by (simp add: close_finish_def)
  qed (use Retiring ok in \<open>simp add: close_finish_def\<close>)
qed (simp_all add: close_finish_def ok)

definition without :: "string \<Rightarrow> (string \<times> nat) list \<Rightarrow> (string \<times> nat) list" where
  "without token = filter (\<lambda>(t, r). t \<noteq> token)"

text \<open>What retiring the registration \<open>r\<close> of runtime \<open>k\<close> does to the process.\<close>

definition retired :: "process \<Rightarrow> nat \<Rightarrow> string \<Rightarrow> nat \<Rightarrow> nat \<Rightarrow> retirement \<Rightarrow> process \<Rightarrow> bool" where
  "retired s k token r g ret s' \<longleftrightarrow>
     ps_instance s = Some g \<and> g < length (ps_gateways s) \<and> (token, r) \<in> set (gw_registrations (ps_gateways s ! g)) \<and>
     ret_registration ret = r \<and> ret_gateway ret = Some g \<and> (ret_last ret \<longleftrightarrow> without token (gw_registrations (ps_gateways s ! g)) = []) \<and> ps_config s' = ps_config s \<and> ps_requests s' = ps_requests s \<and>
     ps_regs s' = (ps_regs s)[r := reg_beginClose (ps_regs s ! r)] \<and>
     (let table = without token (gw_registrations (ps_gateways s ! g)) in
        ps_gateways s' = (ps_gateways s)[g := (ps_gateways s ! g)\<lparr>gw_registrations := table, gw_listening := gw_listening (ps_gateways s ! g) \<and> (table = [] \<longrightarrow> ret_stopErr ret \<noteq> None)\<rparr>] \<and>
        ps_instance s' = (if table = [] then None else Some g)) \<and>
     ps_runtimes s' = (ps_runtimes s)[k := (ps_runtimes s ! k)\<lparr>tr_closer := Retiring ret\<rparr>]"

lemma close_retire_retired:
  assumes ok: "process_ok s" and k: "k < length (ps_runtimes s)" and m: "tr_closer (ps_runtimes s ! k) = Marked token r"
  shows "\<exists>g ret. retired s k token r g ret (close_retire k listenerClose s)"
proof -
  have own: "owned s" using ok by (simp add: process_ok_def)
  note parts = owned_parts[OF own]
  have "live s (ps_runtimes s ! k) token r" using parts(3)[of "ps_runtimes s ! k"] k m by (simp add: runtime_ok_def)
  then obtain g where g: "ps_instance s = Some g" "(token, r) \<in> set (gw_registrations (ps_gateways s ! g))" by (auto simp: live_def)
  have glen: "g < length (ps_gateways s)" by (rule parts(1)[OF g(1)])
  have "gateway_ok s g" by (rule parts(2)[OF glen])
  then have look: "map_of (gw_registrations (ps_gateways s ! g)) token = Some r" using g(2) by (simp add: gateway_ok_def)
  define table where "table = without token (gw_registrations (ps_gateways s ! g))"
  define ret where "ret = \<lparr>ret_registration = r, ret_gateway = Some g, ret_last = (table = []), ret_stopErr = (if table = [] then stopAdmission listenerClose else None)\<rparr>"
  have u: "unregister g token r s = (table = [], map_reg r reg_beginClose (map_gateway g (\<lambda>gw. gw\<lparr>gw_registrations := table\<rparr>) s))"
    using look glen by (simp add: unregister_def table_def without_def)
  have "retired s k token r g ret (close_retire k listenerClose s)" unfolding retired_def table_def[symmetric] Let_def
    using m g glen u by (auto simp: close_retire_def retire_def ret_def)
  then show ?thesis by blast
qed

lemma without_iff: "(t, i) \<in> set (without token xs) \<longleftrightarrow> (t, i) \<in> set xs \<and> t \<noteq> token"
  by (auto simp: without_def)

lemma beginClose_keeps [simp]:
  "reg_closing (reg_beginClose x)" "reg_catalog (reg_beginClose x) = reg_catalog x" "reg_active (reg_beginClose x) = reg_active x"
  "reg_drained x \<Longrightarrow> reg_drained (reg_beginClose x)"
  by (simp_all add: reg_beginClose_def drainOnce_def Let_def)

lemma sole_owner:
  "\<lbrakk>owned s; k < length (ps_runtimes s); tr_registration (ps_runtimes s ! k) = Some r; x \<in> set (ps_runtimes s); tr_registration x = Some r\<rbrakk>
   \<Longrightarrow> x = ps_runtimes s ! k"
  by (auto simp: owned_def owners_distinct_def in_set_conv_nth)

lemma marked_runtime:
  assumes "owned s" "k < length (ps_runtimes s)" "tr_closer (ps_runtimes s ! k) = Marked token r"
  shows "tr_registration (ps_runtimes s ! k) = Some r" "tr_started (ps_runtimes s ! k)" "r < length (ps_regs s)"
    "tr_closed (ps_runtimes s ! k)" "tr_closeStarted (ps_runtimes s ! k)"
  using owned_parts(3)[OF assms(1), of "ps_runtimes s ! k"] assms(2,3) by (auto simp: runtime_ok_def live_def)

lemma retired_table:
  assumes own: "owned s" and k: "k < length (ps_runtimes s)" and m: "tr_closer (ps_runtimes s ! k) = Marked token r"
    and g: "g < length (ps_gateways s)" and t: "(t, i) \<in> set (without token (gw_registrations (ps_gateways s ! g)))"
  shows "i \<noteq> r" and "\<exists>x \<in> set ((ps_runtimes s)[k := y]). holds x t i"
proof -
  note me = marked_runtime[OF own k m]
  obtain x where x: "x \<in> set (ps_runtimes s)" "holds x t i" using t owned_parts(2)[OF own g] by (fastforce simp: gateway_ok_def without_iff)
  show "i \<noteq> r"
  proof
    assume "i = r"
    then have "x = ps_runtimes s ! k" using sole_owner[OF own k me(1) x(1)] x(2) by (simp add: holds_def)
    then show False using x(2) m t by (simp add: holds_def without_iff)
  qed
  then have "x \<noteq> ps_runtimes s ! k" using me(1) x(2) by (auto simp: holds_def)
  then show "\<exists>x \<in> set ((ps_runtimes s)[k := y]). holds x t i" using x in_set_update_other by (intro bexI[of _ x]) auto
qed

lemma retired_runtime_ok:
  assumes own: "owned s" and k: "k < length (ps_runtimes s)" and m: "tr_closer (ps_runtimes s ! k) = Marked token r"
    and r: "retired s k token r g ret s'" and x: "x \<in> set (ps_runtimes s')"
  shows "runtime_ok s' x"
proof (cases "x = (ps_runtimes s ! k)\<lparr>tr_closer := Retiring ret\<rparr>")
  case True
  then show ?thesis using marked_runtime[OF own k m] r by (auto simp: runtime_ok_def retired_def Let_def)
next
  case False
  note parts = owned_parts[OF own] and me = marked_runtime[OF own k m]
  obtain j where j: "j < length (ps_runtimes s)" "j \<noteq> k" "x = ps_runtimes s ! j"
    using False x r by (auto simp: retired_def in_set_conv_nth nth_update_at split: if_splits)
  then have no: "tr_registration x \<noteq> Some r" using parts(4) me(1) k by (auto simp: owners_distinct_def)
  have live: "live s' y t i" if y: "live s y t i" "i \<noteq> r" for y t i
  proof -
    have i: "i < length (ps_regs s)" "(t, i) \<in> set (gw_registrations (ps_gateways s ! g))" using y r by (auto simp: live_def retired_def)
    then have "t \<noteq> token" using parts(2)[of g] r y(2) by (auto simp: gateway_ok_def retired_def dest: eq_key_imp_eq_value)
    then have "(t, i) \<in> set (without token (gw_registrations (ps_gateways s ! g)))" using i(2) by (simp add: without_iff)
    moreover from this have "without token (gw_registrations (ps_gateways s ! g)) \<noteq> []" by auto
    ultimately show ?thesis using y i r by (auto simp: live_def retired_def Let_def nth_update_at)
  qed
  have "runtime_ok s x" using parts(3) j by simp
  then show ?thesis using no live r me(3) by (auto simp: runtime_ok_def retired_def Let_def nth_update_at split: closer.splits)
qed

lemma retired_gateway_ok:
  assumes own: "owned s" and k: "k < length (ps_runtimes s)" and m: "tr_closer (ps_runtimes s ! k) = Marked token r"
    and r: "retired s k token r g ret s'" and i: "i < length (ps_gateways s')"
  shows "gateway_ok s' i"
proof (cases "i = g")
  case True
  have g: "g < length (ps_gateways s)" "ps_runtimes s' = (ps_runtimes s)[k := (ps_runtimes s ! k)\<lparr>tr_closer := Retiring ret\<rparr>]"
    using r by (simp_all add: retired_def)
  have gw: "gateway_ok s g" by (rule owned_parts(2)[OF own g(1)])
  have "distinct (map fst (without token (gw_registrations (ps_gateways s ! g))))" using gw by (simp add: gateway_ok_def without_def distinct_map_filter)
  moreover have "\<forall>(t, j) \<in> set (without token (gw_registrations (ps_gateways s ! g))). j \<noteq> r \<and> (\<exists>x \<in> set (ps_runtimes s'). holds x t j)"
    using retired_table[OF own k m g(1)] unfolding g(2) by blast
  ultimately show ?thesis using True gw r by (fastforce simp: gateway_ok_def retired_def Let_def nth_update_at without_iff)
next
  case False
  then have "gateway_ok s i" "gw_registrations (ps_gateways s ! i) = []"
    using i r owned_parts(2)[OF own, of i] by (auto simp: gateway_ok_def retired_def Let_def)
  then show ?thesis using False r by (simp add: gateway_ok_def retired_def Let_def)
qed

lemma retire_ok:
  assumes ok: "process_ok s" and k: "k < length (ps_runtimes s)"
  shows "process_ok (close_retire k listenerClose s)" (is "process_ok ?s'")
proof (cases "tr_closer (ps_runtimes s ! k)")
  case (Marked token r)
  obtain g ret where r: "retired s k token r g ret ?s'" using close_retire_retired[OF ok k Marked] by blast
  have own: "owned s" and acc: "accounted s" using ok by (simp_all add: process_ok_def)
  have "owners_distinct ?s'" using owned_parts(4)[OF own] r by (auto simp: owners_distinct_def retired_def nth_update_at split: if_splits)
  moreover have "ps_instance ?s' = Some i \<longrightarrow> i < length (ps_gateways ?s')" for i using r by (auto simp: retired_def Let_def split: if_splits)
  ultimately have "owned ?s'"
    using retired_runtime_ok[OF own k Marked r] retired_gateway_ok[OF own k Marked r] by (simp add: owned_def)
  moreover have "accounted ?s'"
    using acc r by (auto simp: accounted_def accounting_defs retired_def Let_def nth_update_at reg_beginClose_def drainOnce_def)
  ultimately show ?thesis by (simp add: process_ok_def)
qed (simp_all add: close_retire_def ok)

text \<open>\<^verbatim>\<open>manager.register\<close> first makes sure that there is a gateway.\<close>

lemma manager_register_cases:
  assumes ok: "process_ok s"
  obtains (failed) e where "manager_register listened early token c s = (Inl e, s)"
  | (kept) e s1 where "manager_register listened early token c s = (Inl e, s1)" "process_ok s1" "ps_runtimes s1 = ps_runtimes s"
  | (registered) g s1 where "process_ok s1" "ps_runtimes s1 = ps_runtimes s" "ps_instance s1 = Some g"
      "map_of (gw_registrations (ps_gateways s1 ! g)) token = None"
      "manager_register listened early token c s = (Inr (gw_endpoint (ps_gateways s1 ! g), length (ps_regs s1)),
         map_gateway g (\<lambda>gw. gw\<lparr>gw_registrations := (token, length (ps_regs s1)) # gw_registrations gw\<rparr>) (s1\<lparr>ps_regs := ps_regs s1 @ [newRegistration c]\<rparr>))"
proof -
  have main: thesis if s1: "process_ok s1" "ps_runtimes s1 = ps_runtimes s" "ps_instance s1 = Some g"
    and eq: "manager_register listened early token c s = (case gateway_register g token c s1 of (Inl e, s2) \<Rightarrow> (Inl e, s2)
           | (Inr r, s2) \<Rightarrow> (Inr (gw_endpoint (ps_gateways s2 ! g), r), s2))" for s1 g
  proof (cases "gw_serveErr (ps_gateways s1 ! g) = None \<and> map_of (gw_registrations (ps_gateways s1 ! g)) token = None")
    case True
    have "g < length (ps_gateways s1)" using s1(1,3) by (simp add: process_ok_def owned_def)
    then show thesis using registered[OF s1] True eq by (simp add: gateway_register_def Let_def)
  next
    case False
    then show thesis using kept s1 eq by (auto simp: gateway_register_def split: option.splits)
  qed
  show thesis
  proof (cases "ps_instance s")
    case (Some g)
    then show thesis using main[of s g] ok by (simp add: manager_register_def)
  next
    case None
    show thesis
    proof (cases listened)
      case (Inl e)
      then show thesis using failed None by (simp add: manager_register_def)
    next
      case (Inr address)
      let ?s1 = "s\<lparr>ps_gateways := ps_gateways s @ [newGateway address], ps_instance := Some (length (ps_gateways s))\<rparr>"
      let ?s2 = "case early of None \<Rightarrow> ?s1 | Some err \<Rightarrow> serve_returned (length (ps_gateways s)) err ?s1"
      have "process_ok ?s2" using listen_ok[OF ok None] serve_ok by (cases early) simp_all
      moreover have "ps_runtimes ?s2 = ps_runtimes s" "ps_instance ?s2 = Some (length (ps_gateways s))"
        by (auto simp: serve_returned_def split: option.splits)
      ultimately show thesis using main[of ?s2 "length (ps_gateways s)"] Inr None by (simp add: manager_register_def Let_def)
    qed
  qed
qed

lemma start_attempts_ok:
  "\<lbrakk>process_ok s; k < length (ps_runtimes s); \<not> tr_started (ps_runtimes s ! k); \<not> tr_closed (ps_runtimes s ! k)\<rbrakk>
   \<Longrightarrow> process_ok (snd (start_attempts k listened early ents lastErr s))"
proof (induction ents arbitrary: lastErr s)
  case (Cons ent ents)
  show ?case
  proof (cases ent)
    case (EntropyError e)
    then show ?thesis using Cons.prems by simp
  next
    case (EntropyRead secret)
    from Cons.prems(1) show ?thesis
    proof (cases rule: manager_register_cases[of s listened early "RawURLEncoding secret" "tr_catalog (ps_runtimes s ! k)"])
      case (failed e)
      then show ?thesis using EntropyRead Cons by simp
    next
      case (kept e s1)
      then show ?thesis using EntropyRead Cons by simp
    next
      case (registered g s1)
      note r = register_ok[OF registered(1,3), of k "RawURLEncoding secret"]
      show ?thesis using EntropyRead r Cons.prems registered by (simp add: Let_def)
    qed
  qed
qed simp

lemma start_ok: "\<lbrakk>process_ok s; k < length (ps_runtimes s)\<rbrakk> \<Longrightarrow> process_ok (snd (Start k listened early e1 e2 e3 s))"
  using start_attempts_ok[of s k listened early "[e1, e2, e3]" None] by (simp add: Start_def del: start_attempts.simps)

theorem process_step_ok: "\<lbrakk>process_step s s'; process_ok s\<rbrakk> \<Longrightarrow> process_ok s'"
  by (induction rule: process_step.induct) (simp_all add: new_ok start_ok request_ok slot_ok served_ok leave_ok serve_ok mark_ok retire_ok finish_ok)

lemma process_steps_ok: "\<lbrakk>process_step\<^sup>*\<^sup>* s s'; process_ok s\<rbrakk> \<Longrightarrow> process_ok s'"
  by (induction rule: rtranclp_induct) (simp_all add: process_step_ok)

theorem process_reachable_ok: "process_reachable s \<Longrightarrow> process_ok s"
  using process_steps_ok process_ok_init by blast

end
