(* ===== verification/GatewayGuarantees.thy ===== *)
theory GatewayGuarantees
  imports GatewaySystem
begin

text \<open>
  What the tool gateway guarantees in every reachable state: a call is admitted exactly for the agent whose token it presents,
  \<^verbatim>\<open>Close\<close> of an agent waits for its calls and always can end, and agents share one listener, which is not closed under them.
\<close>

subsection \<open>Admission\<close>

lemma admitted_iff:
  assumes "owned s" "g < length (ps_gateways s)"
  shows "fst (secureHandler url_Parse g h s) = Admitted r \<longleftrightarrow>
    head_Path h = ''/mcp'' \<and> head_Host h = gw_expectedHost (ps_gateways s ! g) \<and> validOrigins url_Parse (head_Origin h) (gw_expectedHost (ps_gateways s ! g))
    \<and> (\<exists>value. head_Authorization h = [value] \<and> (presented_token value, r) \<in> set (gw_registrations (ps_gateways s ! g)))"
proof -
  have gw: "gateway_ok s g" using owned_parts(2)[OF assms] .
  have sel: "select_registration p (gw_registrations (ps_gateways s ! g)) = Some i \<longleftrightarrow> (p, i) \<in> set (gw_registrations (ps_gateways s ! g))" for p i
    using gw by (simp add: gateway_ok_def select_registration_map_of)
  have opn: "\<not> reg_closing (ps_regs s ! i)" if "select_registration p (gw_registrations (ps_gateways s ! g)) = Some i" for p i
    using gw that unfolding sel by (auto simp: gateway_ok_def)
  have one: "fst (authenticate g [v] s) = select_registration (presented_token v) (gw_registrations (ps_gateways s ! g))" for v
    using opn by (cases "select_registration (presented_token v) (gw_registrations (ps_gateways s ! g))") (simp_all add: authenticate_def acquire_def)
  have auth: "fst (authenticate g vs s) = Some i \<longleftrightarrow> (\<exists>value. vs = [value] \<and> (presented_token value, i) \<in> set (gw_registrations (ps_gateways s ! g)))" for vs i
  proof (cases "\<exists>value. vs = [value]")
    case True
    then show ?thesis using one sel by auto
  next
    case False
    then have "authenticate g vs s = (None, s)" by (auto simp: authenticate_def split: list.splits)
    then show ?thesis using False by auto
  qed
  have "fst (secureHandler url_Parse g h s) = Admitted r \<longleftrightarrow>
      head_Path h = ''/mcp'' \<and> head_Host h = gw_expectedHost (ps_gateways s ! g) \<and> validOrigins url_Parse (head_Origin h) (gw_expectedHost (ps_gateways s ! g))
      \<and> fst (authenticate g (head_Authorization h) s) = Some r"
    by (auto simp: secureHandler_def split: prod.splits option.splits)
  then show ?thesis using auth by simp
qed

lemma table_iff:
  assumes "owned s" "g < length (ps_gateways s)"
  shows "(t, r) \<in> set (gw_registrations (ps_gateways s ! g)) \<longleftrightarrow>
    ps_instance s = Some g \<and> (\<exists>rt \<in> set (ps_runtimes s). holds rt t r \<and> reg_catalog (ps_regs s ! r) = tr_catalog rt)"
proof
  assume t: "(t, r) \<in> set (gw_registrations (ps_gateways s ! g))"
  have gw: "gateway_ok s g" using owned_parts(2)[OF assms] .
  then obtain rt where rt: "rt \<in> set (ps_runtimes s)" "holds rt t r" and "ps_instance s = Some g" using t by (fastforce simp: gateway_ok_def)
  moreover have "live s rt t r" using owned_parts(3)[OF assms(1) rt(1)] rt(2) by (auto simp: runtime_ok_def holds_def)
  ultimately show "ps_instance s = Some g \<and> (\<exists>rt \<in> set (ps_runtimes s). holds rt t r \<and> reg_catalog (ps_regs s ! r) = tr_catalog rt)"
    by (auto simp: live_def)
next
  assume a: "ps_instance s = Some g \<and> (\<exists>rt \<in> set (ps_runtimes s). holds rt t r \<and> reg_catalog (ps_regs s ! r) = tr_catalog rt)"
  then obtain rt where rt: "rt \<in> set (ps_runtimes s)" "holds rt t r" by blast
  have "live s rt t r" using owned_parts(3)[OF assms(1) rt(1)] rt(2) by (auto simp: runtime_ok_def holds_def)
  then show "(t, r) \<in> set (gw_registrations (ps_gateways s ! g))" using a by (auto simp: live_def)
qed

text \<open>A call that reaches the current gateway as the gateway's own clients do.\<close>

definition addressed :: "(string \<Rightarrow> URL option) \<Rightarrow> nat \<Rightarrow> head \<Rightarrow> process \<Rightarrow> bool" where
  "addressed url_Parse g h s \<longleftrightarrow> ps_instance s = Some g \<and> head_Path h = ''/mcp'' \<and> head_Host h = gw_expectedHost (ps_gateways s ! g)
     \<and> validOrigins url_Parse (head_Origin h) (gw_expectedHost (ps_gateways s ! g))"

lemma is_prefix_append: "is_prefix p (p @ s)"
  by (induction p) simp_all

text \<open>
  C19. No tool call is admitted but one that asks for the tool path with the listener's own host and no foreign origin and
  whose only authorization header presents the token of a started agent whose registration has not been given up; it is bound
  to that agent's registration, which holds that agent's catalog. A call that presents a token as the \<^verbatim>\<open>Bearer\<close> scheme asks is
  admitted exactly under these conditions. This holds in every reachable state, under any interleaving of agents that start
  and close, requests and the network. Whether a header without the scheme should be admitted is not part of the claim.
\<close>

theorem tool_calls_isolated:
  assumes "process_reachable s" "g < length (ps_gateways s)"
  shows "(fst (secureHandler url_Parse g h s) = Admitted r \<longrightarrow> addressed url_Parse g h s \<and>
      (\<exists>value. head_Authorization h = [value] \<and> (\<exists>rt \<in> set (ps_runtimes s). holds rt (presented_token value) r \<and> reg_catalog (ps_regs s ! r) = tr_catalog rt)))
    \<and> (head_Authorization h = [bearer @ token] \<longrightarrow> (fst (secureHandler url_Parse g h s) = Admitted r \<longleftrightarrow> addressed url_Parse g h s \<and>
      (\<exists>rt \<in> set (ps_runtimes s). holds rt token r \<and> reg_catalog (ps_regs s ! r) = tr_catalog rt)))"
proof -
  have own: "owned s" using process_reachable_ok[OF assms(1)] by (simp add: process_ok_def)
  have "presented_token (bearer @ token) = token" by (simp add: presented_token_def is_prefix_append)
  then show ?thesis unfolding admitted_iff[OF own assms(2)] table_iff[OF own assms(2)] addressed_def by (cases "head_Authorization h = [bearer @ token]") auto
qed

text \<open>
  The authorization scheme is not required: the bare token is accepted as well as the token after \<^verbatim>\<open>Bearer\<close>.
\<close>

theorem bare_token_admitted:
  assumes "process_reachable s" "g < length (ps_gateways s)" "\<not> is_prefix bearer token"
  shows "fst (secureHandler url_Parse g (h\<lparr>head_Authorization := [token]\<rparr>) s) = Admitted r
    \<longleftrightarrow> fst (secureHandler url_Parse g (h\<lparr>head_Authorization := [bearer @ token]\<rparr>) s) = Admitted r"
proof -
  have own: "owned s" using process_reachable_ok[OF assms(1)] by (simp add: process_ok_def)
  have "presented_token token = token" "presented_token (bearer @ token) = token"
    using assms(3) is_prefix_append[of bearer token] by (simp_all add: presented_token_def)
  then show ?thesis unfolding admitted_iff[OF own assms(2)] by simp
qed

subsection \<open>Closing\<close>

lemma manager_register_runtimes: "ps_runtimes (snd (manager_register listened early token c s)) = ps_runtimes s"
  by (auto simp: manager_register_def gateway_register_def serve_returned_def Let_def split: option.splits sum.splits prod.splits if_splits)

lemma start_attempts_other:
  "j \<noteq> k \<Longrightarrow> ps_runtimes (snd (start_attempts k listened early ents lastErr s)) ! j = ps_runtimes s ! j
     \<and> length (ps_runtimes (snd (start_attempts k listened early ents lastErr s))) = length (ps_runtimes s)"
proof (induction ents arbitrary: lastErr s)
  case (Cons ent ents)
  show ?case
  proof (cases ent)
    case (EntropyRead secret)
    obtain x s1 where m: "manager_register listened early (RawURLEncoding secret) (tr_catalog (ps_runtimes s ! k)) s = (x, s1)" by (cases "manager_register listened early (RawURLEncoding secret) (tr_catalog (ps_runtimes s ! k)) s")
    then have "ps_runtimes s1 = ps_runtimes s" using manager_register_runtimes by (metis snd_conv)
    then show ?thesis using Cons EntropyRead m by (cases x) (auto simp: Let_def)
  qed simp
qed simp

lemma unregister_runtimes: "ps_runtimes (snd (unregister g token r s)) = ps_runtimes s"
  by (simp add: unregister_def Let_def)

lemma retire_runtimes: "ps_runtimes (snd (retire err token r s)) = ps_runtimes s"
  using unregister_runtimes[of _ token r s] by (auto simp: retire_def split: option.splits prod.splits if_splits) (metis snd_conv)+

lemma secureHandler_runtimes: "ps_runtimes (snd (secureHandler url_Parse g h s)) = ps_runtimes s"
  by (auto simp: secureHandler_def authenticate_def split: prod.splits option.splits list.splits if_splits)

lemma finished_stays:
  assumes "process_step s s'" "process_ok s" "k < length (ps_runtimes s)" "tr_closer (ps_runtimes s ! k) = Finished"
  shows "k < length (ps_runtimes s') \<and> ps_runtimes s' ! k = ps_runtimes s ! k"
proof -
  have rt: "tr_closed (ps_runtimes s ! k)" "tr_closeStarted (ps_runtimes s ! k)"
    using assms(2-4) by (auto simp: process_ok_def owned_def runtime_ok_def)
  from assms(1) show ?thesis
  proof (cases rule: process_step.cases)
    case (step_start k' listened early e1 e2 e3)
    then show ?thesis using assms(3) rt start_attempts_other[of k k' listened early "[e1, e2, e3]" None s]
      by (cases "k = k'") (simp_all add: Start_def del: start_attempts.simps)
  next
    case (step_retire k' err)
    then show ?thesis using assms(3,4) retire_runtimes[of err _ _ s]
      by (cases "k = k'") (auto simp: close_retire_def split: closer.splits prod.splits, (metis snd_conv)+)
  next
    case (step_finish k' e1 e2)
    then show ?thesis using assms(3,4) by (cases "k = k'") (auto simp: close_finish_def split: closer.splits)
  next
    case (step_mark k')
    then show ?thesis using assms(3) rt by (cases "k = k'") (auto simp: close_mark_def)
  qed (use assms(3) in \<open>auto simp: nth_append secureHandler_runtimes take_slot_def give_slot_def leave_def move_request_def serve_returned_def\<close>)
qed

lemma finished_stays_steps:
  assumes "process_step\<^sup>*\<^sup>* s s'" "process_ok s" "k < length (ps_runtimes s)" "tr_closer (ps_runtimes s ! k) = Finished"
  shows "k < length (ps_runtimes s') \<and> ps_runtimes s' ! k = ps_runtimes s ! k"
  using assms
proof (induction rule: rtranclp_induct)
  case (step x y)
  have "process_ok x" by (rule process_steps_ok[OF step(1) step(4)])
  then show ?case using finished_stays[OF step(2)] step by simp
qed simp

text \<open>
  C20. Once \<^verbatim>\<open>Close\<close> of an agent's tool runtime has returned anything but the error of the caller's own context, none of its
  tool calls is in flight, and whatever happens afterwards none ever is again: its registration takes no further call. A caller
  whose context is not done gets an answer only then. (A caller whose context ends gets the context's error, possibly with
  calls still in flight, and may call \<^verbatim>\<open>Close\<close> again.)
\<close>

theorem tool_close_drains:
  assumes "process_reachable s" "k < length (ps_runtimes s)" "err \<in> set (Close_returns ctx_Err (ps_runtimes s ! k))" "ctx_Err = None \<or> err \<noteq> ctx_Err"
    and "tr_registration (ps_runtimes s ! k) = Some r" "process_step\<^sup>*\<^sup>* s s'"
  shows "\<forall>q \<in># ps_requests s'. rq_registration q \<noteq> r"
proof -
  have ok: "process_ok s" by (rule process_reachable_ok[OF assms(1)])
  have "tr_closer (ps_runtimes s ! k) = Finished" using assms(3,4) by (auto simp: Close_returns_def split: if_splits option.splits)
  then have k: "k < length (ps_runtimes s')" "tr_closer (ps_runtimes s' ! k) = Finished" "tr_registration (ps_runtimes s' ! k) = Some r"
    using finished_stays_steps[OF assms(6) ok assms(2)] assms(5) by simp_all
  have ok': "process_ok s'" by (rule process_steps_ok[OF assms(6) ok])
  then have "runtime_ok s' (ps_runtimes s' ! k)" using k(1) by (simp add: process_ok_def owned_def)
  then have "r < length (ps_regs s')" "reg_drained (ps_regs s' ! r)" using k by (simp_all add: runtime_ok_def)
  then have "calls s' r = 0" using ok' by (simp add: process_ok_def accounted_def regs_ok_def)
  then show ?thesis by (auto simp: calls_def)
qed

definition remaining :: "process \<Rightarrow> nat \<Rightarrow> nat" where
  "remaining s r = sum_mset (image_mset (\<lambda>q. case rq_phase q of Authenticated \<Rightarrow> 3 | Serving \<Rightarrow> 2 | Leaving \<Rightarrow> 1)
     (filter_mset (\<lambda>q. rq_registration q = r) (ps_requests s)))"

text \<open>A call in flight can always be taken a step further.\<close>

lemma call_advances:
  assumes "calls s r \<noteq> 0"
  shows "\<exists>s'. process_step s s' \<and> ps_runtimes s' = ps_runtimes s \<and> remaining s' r < remaining s r"
proof -
  have "filter_mset (\<lambda>q. rq_registration q = r) (ps_requests s) \<noteq> {#}" using assms by (auto simp: calls_def)
  then obtain q where q: "q \<in># ps_requests s" "rq_registration q = r" by auto
  obtain rest where rest: "ps_requests s = add_mset q rest" using remove_request[OF q(1)] .
  show ?thesis
  proof (cases "rq_phase q")
    case Authenticated
    then show ?thesis using step_slot[OF q(1)] rest q(2)
      by (intro exI[of _ "take_slot q s"]) (auto simp: take_slot_def move_request_def remaining_def)
  next
    case Serving
    then show ?thesis using step_served[OF q(1)] rest q(2)
      by (intro exI[of _ "give_slot q s"]) (auto simp: give_slot_def move_request_def remaining_def)
  next
    case Leaving
    then show ?thesis using step_leave[OF q(1)] rest q(2)
      by (intro exI[of _ "leave q s"]) (auto simp: leave_def remaining_def)
  qed
qed

lemma calls_can_end: "\<exists>s'. process_step\<^sup>*\<^sup>* s s' \<and> ps_runtimes s' = ps_runtimes s \<and> calls s' r = 0"
proof (induction "remaining s r" arbitrary: s rule: less_induct)
  case less
  show ?case
  proof (cases "calls s r = 0")
    case False
    then obtain s1 where s1: "process_step s s1" "ps_runtimes s1 = ps_runtimes s" "remaining s1 r < remaining s r" using call_advances by blast
    then show ?thesis using less[OF s1(3)] by (metis converse_rtranclp_into_rtranclp)
  qed blast
qed

lemma serving_can_end:
  "\<exists>s'. process_step\<^sup>*\<^sup>* s s' \<and> ps_runtimes s' = ps_runtimes s \<and> ps_regs s' = ps_regs s \<and> (g < length (ps_gateways s) \<longrightarrow> gw_serveDone (ps_gateways s' ! g))"
proof (cases "g < length (ps_gateways s) \<and> \<not> gw_serveDone (ps_gateways s ! g)")
  case True
  then have "process_step s (serve_returned g None s)" by (auto intro: step_serve)
  then show ?thesis using True by (intro exI[of _ "serve_returned g None s"]) (auto simp: serve_returned_def)
qed blast

lemma retiring_can_finish:
  assumes ok: "process_ok s" and k: "k < length (ps_runtimes s)" and ret: "tr_closer (ps_runtimes s ! k) = Retiring ret"
  shows "\<exists>s'. process_step\<^sup>*\<^sup>* s s' \<and> k < length (ps_runtimes s') \<and> tr_closer (ps_runtimes s' ! k) = Finished"
proof -
  let ?r = "ret_registration ret"
  obtain s1 where s1: "process_step\<^sup>*\<^sup>* s s1" "ps_runtimes s1 = ps_runtimes s" "calls s1 ?r = 0" using calls_can_end by blast
  have ok1: "process_ok s1" by (rule process_steps_ok[OF s1(1) ok])
  then have "runtime_ok s1 (ps_runtimes s1 ! k)" using k s1(2) by (simp add: process_ok_def owned_def)
  then have rt: "?r < length (ps_regs s1)" "reg_closing (ps_regs s1 ! ?r)" "\<And>g. ret_gateway ret = Some g \<Longrightarrow> g < length (ps_gateways s1)"
    using ret s1(2) by (simp_all add: runtime_ok_def)
  then have drained: "reg_drained (ps_regs s1 ! ?r)" using ok1 s1(3) by (simp add: process_ok_def accounted_def regs_ok_def)
  obtain g where g: "ret_gateway ret = Some g \<or> ret_gateway ret = None" by (cases "ret_gateway ret") auto
  obtain s2 where s2: "process_step\<^sup>*\<^sup>* s1 s2" "ps_runtimes s2 = ps_runtimes s1" "ps_regs s2 = ps_regs s1"
    "g < length (ps_gateways s1) \<longrightarrow> gw_serveDone (ps_gateways s2 ! g)" using serving_can_end by blast
  have "cleanup_ready ret s2" using drained s2(3,4) rt(3) g by (auto simp: cleanup_ready_def)
  then have "tr_closer (ps_runtimes (close_finish k None None s2) ! k) = Finished" "k < length (ps_runtimes (close_finish k None None s2))"
    using k ret s1(2) s2(2) by (simp_all add: close_finish_def)
  moreover have "process_step s2 (close_finish k None None s2)" using k s1(2) s2(2) by (simp add: step_finish)
  ultimately show ?thesis using s1(1) s2(1) by (metis rtranclp.rtrancl_into_rtrancl rtranclp_trans)
qed

text \<open>
  C21. Closing is never stuck: from every reachable state in which \<^verbatim>\<open>Close\<close> of a tool runtime has begun, the calls in
  flight, the end of serving and the cleanup can go on until \<^verbatim>\<open>Close\<close> returns, whatever other agents have done, and even to a
  caller whose context is never done.
\<close>

theorem tool_close_completes:
  assumes "process_reachable s" "k < length (ps_runtimes s)" "tr_closeStarted (ps_runtimes s ! k)"
  shows "\<exists>s'. process_step\<^sup>*\<^sup>* s s' \<and> k < length (ps_runtimes s') \<and> Close_returns None (ps_runtimes s' ! k) \<noteq> []"
proof -
  have ok: "process_ok s" by (rule process_reachable_ok[OF assms(1)])
  then have rt: "tr_closer (ps_runtimes s ! k) \<noteq> Idle" using assms(2,3) by (auto simp: process_ok_def owned_def runtime_ok_def)
  have "\<exists>s'. process_step\<^sup>*\<^sup>* s s' \<and> k < length (ps_runtimes s') \<and> tr_closer (ps_runtimes s' ! k) = Finished"
  proof (cases "tr_closer (ps_runtimes s ! k)")
    case (Marked token r)
    let ?s1 = "close_retire k None s"
    obtain ret where "ps_runtimes ?s1 = (ps_runtimes s)[k := (ps_runtimes s ! k)\<lparr>tr_closer := Retiring ret\<rparr>]"
      using close_retire_retired[OF ok assms(2) Marked, of None] by (auto simp: retired_def)
    then have "k < length (ps_runtimes ?s1)" "tr_closer (ps_runtimes ?s1 ! k) = Retiring ret" using assms(2) by simp_all
    moreover have "process_step s ?s1" by (rule step_retire[OF assms(2)])
    ultimately show ?thesis using retiring_can_finish[OF retire_ok[OF ok assms(2)]] by (metis converse_rtranclp_into_rtranclp)
  qed (use rt retiring_can_finish[OF ok assms(2)] assms(2) in auto)
  then show ?thesis by (auto simp: Close_returns_def)
qed

text \<open>
  A graceful shutdown that runs into its deadline is followed by a forced close and is not an error of \<^verbatim>\<open>Close\<close>; nor are
  the errors of an already closed listener.
\<close>

lemma shutdown_deadline_forgiven: "net_Is ErrDeadline e \<Longrightarrow> shutdown_error (Some e) None None = None"
  by (simp add: shutdown_error_def normalize_close_def errors_Join_def map_filter_def)

lemma closed_listener_forgiven:
  "\<lbrakk>net_Is ErrServerClosed e \<or> isClosedNetworkError (Some e)\<rbrakk> \<Longrightarrow> shutdown_error (Some e) c None = None"
  "isClosedNetworkError (Some e) \<Longrightarrow> stopAdmission (Some e) = None"
  by (simp_all add: shutdown_error_def normalize_close_def errors_Join_def stopAdmission_def map_filter_def)

subsection \<open>One listener\<close>

definition instance_serving :: "process \<Rightarrow> bool" where
  "instance_serving s \<longleftrightarrow> (\<forall>g. ps_instance s = Some g \<longrightarrow> g < length (ps_gateways s) \<and> (gw_listening (ps_gateways s ! g) \<or> gw_serveDone (ps_gateways s ! g)))"

lemma manager_register_serving: "instance_serving s \<Longrightarrow> instance_serving (snd (manager_register listened early token c s))"
  by (auto simp: instance_serving_def manager_register_def gateway_register_def serve_returned_def newGateway_def Let_def nth_update_at
      split: option.splits sum.splits if_splits)

lemma start_attempts_serving: "instance_serving s \<Longrightarrow> instance_serving (snd (start_attempts k listened early ents lastErr s))"
proof (induction ents arbitrary: lastErr s)
  case (Cons ent ents)
  show ?case
  proof (cases ent)
    case (EntropyRead secret)
    obtain x s1 where m: "manager_register listened early (RawURLEncoding secret) (tr_catalog (ps_runtimes s ! k)) s = (x, s1)"
      by (cases "manager_register listened early (RawURLEncoding secret) (tr_catalog (ps_runtimes s ! k)) s")
    then have "instance_serving s1" using manager_register_serving[OF Cons.prems] by (metis snd_conv)
    then show ?thesis using Cons EntropyRead m by (cases x) (auto simp: Let_def instance_serving_def)
  qed (simp add: Cons.prems)
qed simp

lemma retire_serving: "instance_serving s \<Longrightarrow> instance_serving (snd (retire err token r s))"
  by (auto simp: instance_serving_def retire_def unregister_def Let_def nth_update_at split: option.splits prod.splits if_splits)

lemma step_serving: "\<lbrakk>process_step s s'; instance_serving s\<rbrakk> \<Longrightarrow> instance_serving s'"
proof (induction rule: process_step.induct)
  case (step_start k s listened early e1 e2 e3)
  then show ?case using start_attempts_serving by (simp add: Start_def del: start_attempts.simps)
next
  case (step_request g s url_Parse h)
  then show ?case by (auto simp: instance_serving_def secureHandler_def authenticate_def split: prod.splits option.splits list.splits if_splits)
next
  case (step_retire k s err)
  then show ?case using retire_serving[of s err] by (auto simp: instance_serving_def close_retire_def split: closer.splits prod.splits) (metis snd_conv)+
next
  case (step_finish k s e1 e2)
  then show ?case by (auto simp: instance_serving_def close_finish_def split: closer.splits)
qed (auto simp: instance_serving_def take_slot_def give_slot_def leave_def move_request_def serve_returned_def close_mark_def nth_update_at)

text \<open>A gateway that listens without being the current one is about to be shut down, its listener having failed to close.\<close>

definition stopping :: "process \<Rightarrow> nat \<Rightarrow> bool" where
  "stopping s g \<longleftrightarrow> (\<exists>rt \<in> set (ps_runtimes s). \<exists>ret. tr_closer rt = Retiring ret \<and> ret_gateway ret = Some g \<and> ret_last ret \<and> ret_stopErr ret \<noteq> None)"

definition listening_ok :: "process \<Rightarrow> bool" where
  "listening_ok s \<longleftrightarrow> (\<forall>g < length (ps_gateways s). gw_listening (ps_gateways s ! g)
     \<longrightarrow> \<not> gw_serveDone (ps_gateways s ! g) \<and> (ps_instance s = Some g \<or> stopping s g))"

lemma stopping_update:
  "\<lbrakk>stopping s g; ps_runtimes s' = (ps_runtimes s)[k := rt]; \<And>ret. tr_closer (ps_runtimes s ! k) \<noteq> Retiring ret\<rbrakk> \<Longrightarrow> stopping s' g"
  unfolding stopping_def by (metis in_set_update_other)

lemma manager_register_listening: "listening_ok s \<Longrightarrow> listening_ok (snd (manager_register listened early token c s))"
  by (auto simp: listening_ok_def stopping_def manager_register_def gateway_register_def serve_returned_def newGateway_def Let_def nth_update_at nth_append
      less_Suc_eq split: option.splits sum.splits if_splits)

lemma start_attempts_listening:
  assumes "listening_ok s" "\<And>ret. tr_closer (ps_runtimes s ! k) \<noteq> Retiring ret"
  shows "listening_ok (snd (start_attempts k listened early ents lastErr s))"
  using assms
proof (induction ents arbitrary: lastErr s)
  case (Cons ent ents)
  show ?case
  proof (cases ent)
    case (EntropyRead secret)
    let ?m = "manager_register listened early (RawURLEncoding secret) (tr_catalog (ps_runtimes s ! k)) s"
    obtain x s1 where m: "?m = (x, s1)" by (cases ?m)
    have s1: "listening_ok s1" "ps_runtimes s1 = ps_runtimes s"
      using manager_register_listening[OF Cons.prems(1)] manager_register_runtimes m by (metis snd_conv)+
    have "stopping s1 g \<Longrightarrow> stopping (map_runtime k f s1) g" for g f
      using Cons.prems(2) s1(2) by (auto elim!: stopping_update)
    then have "listening_ok (map_runtime k f s1)" for f using s1(1) by (auto simp: listening_ok_def)
    then show ?thesis using Cons EntropyRead m s1 by (cases x) (auto simp: Let_def)
  qed (simp add: Cons.prems)
qed simp

lemma retire_listening:
  assumes ok: "process_ok s" and k: "k < length (ps_runtimes s)" and l: "listening_ok s"
  shows "listening_ok (close_retire k err s)"
proof (cases "tr_closer (ps_runtimes s ! k)")
  case (Marked token r)
  obtain g ret where r: "retired s k token r g ret (close_retire k err s)" using close_retire_retired[OF ok k Marked] by blast
  have old: "stopping s i \<Longrightarrow> stopping (close_retire k err s) i" for i
    using r Marked by (auto simp: retired_def elim!: stopping_update)
  have "(ps_runtimes s ! k)\<lparr>tr_closer := Retiring ret\<rparr> \<in> set (ps_runtimes (close_retire k err s))" using r k by (simp add: retired_def set_update_memI)
  then have new: "\<lbrakk>ret_last ret; ret_stopErr ret \<noteq> None\<rbrakk> \<Longrightarrow> stopping (close_retire k err s) g" using r by (force simp: stopping_def retired_def)
  show ?thesis using l r old new by (auto simp: listening_ok_def retired_def Let_def nth_update_at)
qed (use l in \<open>simp_all add: close_retire_def\<close>)

lemma finish_listening: "listening_ok s \<Longrightarrow> listening_ok (close_finish k e1 e2 s)"
proof (cases "tr_closer (ps_runtimes s ! k)")
  case (Retiring ret)
  assume l: "listening_ok s"
  have "stopping (close_finish k e1 e2 s) g" if st: "stopping s g" "\<not> gw_serveDone (ps_gateways s ! g)" for g
  proof (cases "cleanup_ready ret s")
    case True
    obtain rt ret' where rt: "rt \<in> set (ps_runtimes s)" "tr_closer rt = Retiring ret'" "ret_gateway ret' = Some g" "ret_last ret'" "ret_stopErr ret' \<noteq> None"
      using st(1) unfolding stopping_def by blast
    have "rt \<noteq> ps_runtimes s ! k" using rt st(2) Retiring True by (auto simp: cleanup_ready_def)
    then have "rt \<in> set (ps_runtimes (close_finish k e1 e2 s))" using rt(1) Retiring in_set_update_other[OF rt(1)] by (simp add: close_finish_def)
    then show ?thesis using rt unfolding stopping_def by blast
  qed (use st Retiring in \<open>simp add: close_finish_def\<close>)
  then show ?thesis using l Retiring by (auto simp: listening_ok_def close_finish_def)
qed (simp_all add: close_finish_def)

lemma step_listening: "\<lbrakk>process_step s s'; process_ok s; listening_ok s\<rbrakk> \<Longrightarrow> listening_ok s'"
proof (induction rule: process_step.induct)
  case (step_start k s listened early e1 e2 e3)
  have "runtime_ok s (ps_runtimes s ! k)" using step_start by (simp add: process_ok_def owned_def)
  then have "\<not> tr_closed (ps_runtimes s ! k) \<Longrightarrow> tr_closer (ps_runtimes s ! k) = Idle" by (simp add: runtime_ok_def)
  then show ?case using start_attempts_listening[OF step_start(3), of k] step_start(3) by (simp add: Start_def del: start_attempts.simps)
next
  case (step_request g s url_Parse h)
  then show ?case by (auto simp: listening_ok_def stopping_def secureHandler_def authenticate_def split: prod.splits option.splits list.splits if_splits)
next
  case (step_mark k s)
  have "stopping s g \<Longrightarrow> stopping (close_mark k s) g" for g
  proof (cases "tr_closeStarted (ps_runtimes s ! k)")
    case False
    have "runtime_ok s (ps_runtimes s ! k)" using step_mark by (simp add: process_ok_def owned_def)
    then have "\<And>ret. tr_closer (ps_runtimes s ! k) \<noteq> Retiring ret" using False by (auto simp: runtime_ok_def)
    moreover have "\<exists>rt. ps_runtimes (close_mark k s) = (ps_runtimes s)[k := rt]" using False by (simp add: close_mark_def) blast
    ultimately show "stopping s g \<Longrightarrow> stopping (close_mark k s) g" using stopping_update by blast
  qed (simp add: close_mark_def)
  then show ?case using step_mark by (auto simp: listening_ok_def close_mark_def)
qed (auto simp: retire_listening finish_listening, auto simp: listening_ok_def stopping_def take_slot_def give_slot_def leave_def move_request_def
      serve_returned_def nth_update_at)

lemma reachable_listening: "process_reachable s \<Longrightarrow> listening_ok s"
proof -
  have "process_step\<^sup>*\<^sup>* a b \<Longrightarrow> process_ok a \<and> listening_ok a \<Longrightarrow> process_ok b \<and> listening_ok b" for a b
    by (induction rule: rtranclp_induct) (auto simp: step_listening process_step_ok)
  moreover have "listening_ok (newProcess config)" for config by (simp add: listening_ok_def newProcess_def)
  ultimately show "process_reachable s \<Longrightarrow> ?thesis" using process_ok_init by blast
qed

lemma reachable_serving: "process_reachable s \<Longrightarrow> instance_serving s"
proof -
  have "process_step\<^sup>*\<^sup>* a b \<Longrightarrow> instance_serving a \<Longrightarrow> instance_serving b" for a b
    by (induction rule: rtranclp_induct) (simp_all add: step_serving)
  moreover have "instance_serving (newProcess config)" for config by (simp add: instance_serving_def newProcess_def)
  ultimately show "process_reachable s \<Longrightarrow> ?thesis" by blast
qed

text \<open>
  C22. Agents share one gateway. Any other gateway that still listens has no registration left, and the closing of an agent that
  is still under way holds the error with which its listener failed to close. The endpoint of every started agent that is not
  closed is that of the current gateway, on which its token is registered with its catalog; that gateway's listener is not
  closed before the server has stopped serving on it (which the server may do by itself, the one case in which a started agent
  is left without a listener). The calls served at once by a gateway never exceed the configured number.
\<close>

theorem tool_gateway_shared:
  assumes "process_reachable s"
  shows "(\<forall>g < length (ps_gateways s). gw_listening (ps_gateways s ! g) \<longrightarrow> ps_instance s = Some g \<or> (gw_registrations (ps_gateways s ! g) = []
         \<and> (\<exists>rt \<in> set (ps_runtimes s). \<exists>ret. tr_closer rt = Retiring ret \<and> ret_gateway ret = Some g \<and> ret_stopErr ret \<noteq> None)))
    \<and> (\<forall>rt \<in> set (ps_runtimes s). snd (runtime_Endpoint rt) \<longrightarrow> (\<exists>g r. ps_instance s = Some g
         \<and> Endpoint_URL (fst (runtime_Endpoint rt)) = Endpoint_URL (gw_endpoint (ps_gateways s ! g))
         \<and> (fst (BearerToken rt), r) \<in> set (gw_registrations (ps_gateways s ! g)) \<and> reg_catalog (ps_regs s ! r) = tr_catalog rt
         \<and> (gw_listening (ps_gateways s ! g) \<or> gw_serveDone (ps_gateways s ! g))))
    \<and> (\<forall>g < length (ps_gateways s). size (filter_mset (\<lambda>q. rq_gateway q = g \<and> rq_phase q = Serving) (ps_requests s)) \<le> maxConcurrent (ps_config s))"
proof (intro conjI)
  have ok: "process_ok s" by (rule process_reachable_ok[OF assms])
  then have own: "owned s" by (simp add: process_ok_def)
  show "\<forall>g < length (ps_gateways s). gw_listening (ps_gateways s ! g) \<longrightarrow> ps_instance s = Some g \<or> (gw_registrations (ps_gateways s ! g) = []
         \<and> (\<exists>rt \<in> set (ps_runtimes s). \<exists>ret. tr_closer rt = Retiring ret \<and> ret_gateway ret = Some g \<and> ret_stopErr ret \<noteq> None))"
    using owned_parts(2)[OF own] reachable_listening[OF assms] by (fastforce simp: gateway_ok_def listening_ok_def stopping_def)
  show "\<forall>g < length (ps_gateways s). size (filter_mset (\<lambda>q. rq_gateway q = g \<and> rq_phase q = Serving) (ps_requests s)) \<le> maxConcurrent (ps_config s)"
    using ok by (simp add: process_ok_def accounted_def slots_ok_def slots_def)
  show "\<forall>rt \<in> set (ps_runtimes s). snd (runtime_Endpoint rt) \<longrightarrow> (\<exists>g r. ps_instance s = Some g
         \<and> Endpoint_URL (fst (runtime_Endpoint rt)) = Endpoint_URL (gw_endpoint (ps_gateways s ! g))
         \<and> (fst (BearerToken rt), r) \<in> set (gw_registrations (ps_gateways s ! g)) \<and> reg_catalog (ps_regs s ! r) = tr_catalog rt
         \<and> (gw_listening (ps_gateways s ! g) \<or> gw_serveDone (ps_gateways s ! g)))"
  proof (intro ballI impI)
    fix rt
    assume rt: "rt \<in> set (ps_runtimes s)" "snd (runtime_Endpoint rt)"
    then have "tr_started rt" "\<not> tr_closed rt" by (simp_all add: runtime_Endpoint_def)
    then obtain r where "live s rt (fst (BearerToken rt)) r"
      using owned_parts(3)[OF own rt(1)] by (auto simp: runtime_ok_def BearerToken_def split: closer.splits)
    then obtain g where g: "ps_instance s = Some g" "(fst (BearerToken rt), r) \<in> set (gw_registrations (ps_gateways s ! g))"
      "tr_endpoint rt = (gw_endpoint (ps_gateways s ! g))\<lparr>Endpoint_BearerTokenEnvVar := tr_bearerTokenEnvVar rt\<rparr>"
      "reg_catalog (ps_regs s ! r) = tr_catalog rt" by (auto simp: live_def)
    then show "\<exists>g r. ps_instance s = Some g \<and> Endpoint_URL (fst (runtime_Endpoint rt)) = Endpoint_URL (gw_endpoint (ps_gateways s ! g))
         \<and> (fst (BearerToken rt), r) \<in> set (gw_registrations (ps_gateways s ! g)) \<and> reg_catalog (ps_regs s ! r) = tr_catalog rt
         \<and> (gw_listening (ps_gateways s ! g) \<or> gw_serveDone (ps_gateways s ! g))"
      using reachable_serving[OF assms] by (auto simp: instance_serving_def runtime_Endpoint_def)
  qed
qed

subsection \<open>A sample process\<close>

definition sample_catalog :: runtimeCatalog where
  "sample_catalog = \<lparr>cat_tools = [], cat_byName = Map.empty, cat_config = defaultGatewayConfig\<rparr>"

definition sample_runtime :: Runtime where
  "sample_runtime = projr (newRuntime sample_catalog ''sha256:00'' (EntropyRead ''0123456789abcdef''))"

definition sample_started :: process where
  "sample_started = snd (Start 0 (Inr ''127.0.0.1:4000'') None (EntropyRead ''abc'') (EntropyRead ''def'') (EntropyRead ''ghi'')
     ((newProcess defaultGatewayConfig)\<lparr>ps_runtimes := [sample_runtime]\<rparr>))"

definition sample_head :: head where
  "sample_head = \<lparr>head_Path = ''/mcp'', head_Host = ''127.0.0.1:4000'', head_Origin = [], head_Authorization = [''Bearer YWJj'']\<rparr>"

definition sample_retired :: process where
  "sample_retired = close_finish 0 None None (serve_returned 0 None (close_retire 0 None (close_mark 0 sample_started)))"

lemma sample_values:
  "fst (secureHandler (\<lambda>_. None) 0 sample_head sample_started) = Admitted 0" "length (ps_gateways sample_started) = 1"
  "length (ps_runtimes sample_started) = 1"
  "length (ps_runtimes sample_retired) = 1" "None \<in> set (Close_returns (Some ErrDeadline) (ps_runtimes sample_retired ! 0))"
  "tr_registration (ps_runtimes sample_retired ! 0) = Some 0"
  by code_simp+

lemma sample_reachable: "process_reachable sample_started"
proof -
  let ?s0 = "newProcess defaultGatewayConfig" and ?s1 = "(newProcess defaultGatewayConfig)\<lparr>ps_runtimes := [sample_runtime]\<rparr>"
  have "newRuntime sample_catalog ''sha256:00'' (EntropyRead ''0123456789abcdef'') = Inr sample_runtime"
    by (simp add: sample_runtime_def newRuntime_def)
  then have "process_step ?s0 (?s0\<lparr>ps_runtimes := ps_runtimes ?s0 @ [sample_runtime]\<rparr>)" by (rule step_new)
  then have "process_step ?s0 ?s1" by (simp add: newProcess_def)
  moreover have "process_step ?s1 sample_started" unfolding sample_started_def by (rule step_start) simp
  ultimately have "process_step\<^sup>*\<^sup>* ?s0 sample_started" by (meson converse_rtranclp_into_rtranclp r_into_rtranclp)
  then show ?thesis by blast
qed

lemma sample_retired_reachable: "process_reachable sample_retired"
proof -
  let ?m = "close_mark 0 sample_started" and ?r = "close_retire 0 None (close_mark 0 sample_started)"
  have "0 < length (ps_runtimes ?m)" "0 < length (ps_gateways ?r)" "\<not> gw_serveDone (ps_gateways ?r ! 0)"
    "0 < length (ps_runtimes (serve_returned 0 None ?r))" by code_simp+
  then have "process_step sample_started ?m" "process_step ?m ?r" "process_step ?r (serve_returned 0 None ?r)"
    "process_step (serve_returned 0 None ?r) sample_retired"
    using step_mark step_retire step_serve step_finish sample_values(3) unfolding sample_retired_def by simp_all
  then have "process_step\<^sup>*\<^sup>* sample_started sample_retired" by (meson converse_rtranclp_into_rtranclp r_into_rtranclp)
  then show ?thesis using sample_reachable by (meson rtranclp_trans)
qed

theorem tool_calls_isolated_witness:
  "process_reachable sample_started \<and> fst (secureHandler (\<lambda>_. None) 0 sample_head sample_started) = Admitted 0 \<and>
   (\<exists>value. head_Authorization sample_head = [value] \<and>
     (\<exists>rt \<in> set (ps_runtimes sample_started). holds rt (presented_token value) 0 \<and> reg_catalog (ps_regs sample_started ! 0) = tr_catalog rt))"
  using tool_calls_isolated[OF sample_reachable, of 0 "\<lambda>_. None" sample_head 0 "''YWJj''"] sample_reachable sample_values(1,2) by simp

theorem tool_close_drains_witness:
  "process_reachable sample_retired \<and> None \<in> set (Close_returns (Some ErrDeadline) (ps_runtimes sample_retired ! 0)) \<and>
   filter_mset (\<lambda>q. rq_registration q = 0) (ps_requests sample_retired) = {#}"
  using tool_close_drains[OF sample_retired_reachable _ sample_values(5) _ sample_values(6) rtranclp.rtrancl_refl] sample_retired_reachable sample_values(4,5) by simp

theorem tool_close_completes_witness:
  "process_reachable (close_mark 0 sample_started) \<and> Close_returns None (ps_runtimes (close_mark 0 sample_started) ! 0) = [] \<and>
   (\<exists>s'. process_step\<^sup>*\<^sup>* (close_mark 0 sample_started) s' \<and> 0 < length (ps_runtimes s') \<and> Close_returns None (ps_runtimes s' ! 0) \<noteq> [])"
proof -
  have v: "0 < length (ps_runtimes (close_mark 0 sample_started))" "tr_closeStarted (ps_runtimes (close_mark 0 sample_started) ! 0)"
    "Close_returns None (ps_runtimes (close_mark 0 sample_started) ! 0) = []" by code_simp+
  have "process_step sample_started (close_mark 0 sample_started)" using sample_values(3) by (intro step_mark) simp
  then have "process_reachable (close_mark 0 sample_started)" using sample_reachable by (meson rtranclp.rtrancl_into_rtrancl)
  then show ?thesis using tool_close_completes[OF _ v(1,2)] v(3) by blast
qed

theorem tool_gateway_shared_witness:
  "process_reachable sample_started \<and> snd (runtime_Endpoint (ps_runtimes sample_started ! 0)) \<and>
   (\<exists>g r. ps_instance sample_started = Some g \<and>
     (fst (BearerToken (ps_runtimes sample_started ! 0)), r) \<in> set (gw_registrations (ps_gateways sample_started ! g)))"
proof -
  have "snd (runtime_Endpoint (ps_runtimes sample_started ! 0))" by code_simp
  moreover have "ps_runtimes sample_started ! 0 \<in> set (ps_runtimes sample_started)" using sample_values(3) by simp
  ultimately show ?thesis using tool_gateway_shared[OF sample_reachable] sample_reachable by blast
qed

subsection \<open>A listener that fails before it is used\<close>

definition poisoned :: "process \<Rightarrow> bool" where
  "poisoned s \<longleftrightarrow> (\<exists>g e. ps_instance s = Some g \<and> gw_registrations (ps_gateways s ! g) = [] \<and> gw_serveErr (ps_gateways s ! g) = Some e)"

lemma poisoned_register: "poisoned s \<Longrightarrow> \<exists>e. manager_register listened early token c s = (Inl e, s)"
  by (auto simp: poisoned_def manager_register_def gateway_register_def)

lemma poisoned_start: "poisoned s \<Longrightarrow> (\<exists>e. fst (start_attempts k listened early ents lastErr s) = Inl e) \<and> snd (start_attempts k listened early ents lastErr s) = s"
proof (induction ents arbitrary: lastErr)
  case (Cons ent ents)
  then show ?case
  proof (cases ent)
    case (EntropyRead secret)
    obtain e where "manager_register listened early (RawURLEncoding secret) (tr_catalog (ps_runtimes s ! k)) s = (Inl e, s)"
      using poisoned_register[OF Cons.prems] by blast
    then show ?thesis using Cons EntropyRead by (simp add: Let_def)
  qed simp
qed simp

lemma poisoned_none_live: "\<lbrakk>poisoned s; rt \<in> set (ps_runtimes s); process_ok s\<rbrakk> \<Longrightarrow> \<not> live s rt t r"
  by (auto simp: poisoned_def live_def)

lemma poisoned_step:
  assumes "process_step s s'" "process_ok s" "poisoned s"
  shows "poisoned s'"
  using assms(1)
proof (cases rule: process_step.cases)
  case (step_start k listened early e1 e2 e3)
  then show ?thesis using poisoned_start[OF assms(3), of k listened early "[e1, e2, e3]" None] assms(3)
    by (simp add: Start_def del: start_attempts.simps)
next
  case (step_request g url_Parse h)
  then show ?thesis using assms(3)
    by (auto simp: poisoned_def secureHandler_def authenticate_def split: prod.splits option.splits list.splits if_splits)
next
  case (step_retire k err)
  have "runtime_ok s (ps_runtimes s ! k)" using assms(2) step_retire(2) by (simp add: process_ok_def owned_def)
  then have "tr_closer (ps_runtimes s ! k) \<noteq> Marked t r" for t r
    using poisoned_none_live[OF assms(3) _ assms(2), of "ps_runtimes s ! k"] step_retire(2) by (auto simp: runtime_ok_def)
  then show ?thesis using step_retire assms(3) by (auto simp: close_retire_def split: closer.splits)
next
  case (step_finish k e1 e2)
  then show ?thesis using assms(3) by (auto simp: poisoned_def close_finish_def split: closer.splits)
next
  case (step_serve g err)
  have "ps_instance s = Some i \<Longrightarrow> i < length (ps_gateways s)" for i using assms(2) by (simp add: process_ok_def owned_def)
  then show ?thesis using step_serve assms(3) by (auto simp: poisoned_def serve_returned_def nth_update_at split: option.splits)
next
  case (step_slot q)
  then show ?thesis using assms(2,3) by (auto simp: poisoned_def take_slot_def move_request_def process_ok_def owned_def nth_update_at)
next
  case (step_served q)
  then show ?thesis using assms(2,3) by (auto simp: poisoned_def give_slot_def move_request_def process_ok_def owned_def nth_update_at)
qed (use assms(3) in \<open>auto simp: poisoned_def leave_def close_mark_def\<close>)

text \<open>
  If serving on a new listener fails before the first registration is made, the manager keeps the failed gateway: from then on
  no runtime of the process can ever be started.
\<close>

theorem failed_listener_kept:
  assumes "process_step\<^sup>*\<^sup>* s s'" "process_ok s" "poisoned s" "k < length (ps_runtimes s')"
  shows "\<exists>e. fst (Start k listened early e1 e2 e3 s') = Inl e"
proof -
  have p: "process_ok s' \<and> poisoned s'" using assms(1-3)
  proof (induction rule: rtranclp_induct)
    case (step y z)
    then show ?case using process_step_ok poisoned_step by blast
  qed simp
  have "runtime_ok s' (ps_runtimes s' ! k)" using p assms(4) by (simp add: process_ok_def owned_def)
  then have "tr_started (ps_runtimes s' ! k) \<Longrightarrow> tr_closed (ps_runtimes s' ! k)"
    using poisoned_none_live[of s' "ps_runtimes s' ! k"] p assms(4) by (auto simp: runtime_ok_def)
  then show ?thesis using poisoned_start[of s' k listened early "[e1, e2, e3]" None] p by (auto simp: Start_def simp del: start_attempts.simps)
qed

theorem failed_listener_kept_reachable: "\<exists>s. process_reachable s \<and> poisoned s"
proof -
  let ?s0 = "newProcess defaultGatewayConfig" and ?s1 = "(newProcess defaultGatewayConfig)\<lparr>ps_runtimes := [sample_runtime]\<rparr>"
  let ?s2 = "snd (Start 0 (Inr ''127.0.0.1:4000'') (Some (Some (NetText ''accept: too many open files''))) (EntropyRead ''abc'') (EntropyRead ''def'') (EntropyRead ''ghi'') ?s1)"
  have "newRuntime sample_catalog ''sha256:00'' (EntropyRead ''0123456789abcdef'') = Inr sample_runtime"
    by (simp add: sample_runtime_def newRuntime_def)
  then have "process_step ?s0 (?s0\<lparr>ps_runtimes := ps_runtimes ?s0 @ [sample_runtime]\<rparr>)" by (rule step_new)
  then have "process_step ?s0 ?s1" by (simp add: newProcess_def)
  moreover have "process_step ?s1 ?s2" by (rule step_start) simp
  ultimately have "process_step\<^sup>*\<^sup>* ?s0 ?s2" by (meson converse_rtranclp_into_rtranclp r_into_rtranclp)
  moreover have "ps_instance ?s2 = Some 0" "gw_registrations (ps_gateways ?s2 ! 0) = []"
    "gw_serveErr (ps_gateways ?s2 ! 0) = Some (NetWrap ''serve tool runtime'' (NetText ''accept: too many open files''))" by code_simp+
  ultimately show ?thesis by (auto simp: poisoned_def)
qed

end
