(* ===== verification/Spec2Isabelle.thy ===== *)
theory Spec2Isabelle
  imports KeyCodec Approval BrokerBounds HubGuarantees RuntimeGuarantees SinkGuarantees StandbyGuarantees TeamGuarantees JsonNumber GatewayGuarantees
begin

text \<open>
  A verification library for the Go SDK \<^verbatim>\<open>agent-adaptor\<close>, which runs coding agents
  (Claude Code, Codex, Cursor, CodeBuddy) behind one interface.

  \<^bold>\<open>The program.\<close> A host starts an execution on a \<^verbatim>\<open>Thread\<close>. The session coordinator
  (\<^verbatim>\<open>internal/engine/session.go\<close>) resolves the thread key in a \<^verbatim>\<open>threadstore.Store\<close>, takes leases,
  decides between resuming, starting and forking, renews the leases while the driver runs, and writes
  the driver's checkpoint back under their protection. While the driver runs, its output is translated
  to events (\<^verbatim>\<open>sink.go\<close>, \<^verbatim>\<open>events.go\<close>) and distributed by the event broker (\<^verbatim>\<open>event_broker.go\<close>); hosts send further
  messages into the run through the message hub (\<^verbatim>\<open>messages.go\<close>), and answer the agent's questions and
  permission requests through approvals (\<^verbatim>\<open>approval.go\<close>) under run and decision policies
  (\<^verbatim>\<open>driver/decision.go\<close>, \<^verbatim>\<open>internal/engine/policy.go\<close>). Tools a host defines are served to the agents by one
  loopback gateway of the process (\<^verbatim>\<open>internal/toolruntime\<close>). Keys are encoded by
  \<^verbatim>\<open>internal/keycodec\<close>.

  \<^bold>\<open>Conventions.\<close> Structs are records, enumerations datatypes, strings byte lists, clocks and entropy
  arguments, errors the left of a sum, panics a constructor of their own. A mutex makes a locked
  section one function on the state; goroutines, contexts and other callers are steps of a transition
  relation, so a theorem about all reachable states covers every interleaving. Time is an integer of
  nanoseconds. Code outside the repository (hash functions, other drivers' codecs) is a parameter.

  \<^bold>\<open>Theories.\<close>
  \<^item> Prelude, GoStd: generic lemmas; strings, maps with insertion order, time, truncating division, panics.
  \<^item> KeyCodec (\<^verbatim>\<open>internal/keycodec/keycodec.go\<close>): encoding of tuples of strings; it is injective and URL-safe.
  \<^item> DriverTypes, MessageTypes (\<^verbatim>\<open>driver/run.go\<close>, \<^verbatim>\<open>driver/messages.go\<close> and others): shared types.
  \<^item> Policy (\<^verbatim>\<open>driver/decision.go\<close>, \<^verbatim>\<open>policy.go\<close>, \<^verbatim>\<open>internal/engine/policy.go\<close>): layering of policies, filling in defaults,
    pre-launch validation; an accepted policy is one the driver supports in every mode and fallback it resolves to.
  \<^item> Approval (\<^verbatim>\<open>approval.go\<close>): the responder on an explicit heap of shared requests; every request gets
    exactly one outcome.
  \<^item> ThreadStore (\<^verbatim>\<open>threadstore/threadstore.go\<close>): the store contract; the locale \<open>fenced_leases\<close> states the lease
    discipline. MemoryStore (\<^verbatim>\<open>memory/store.go\<close>) interprets it: stale leases are fenced, held leases are exclusive.
  \<^item> SessionTypes, SessionPlan, SessionContract (\<^verbatim>\<open>internal/engine/session*.go\<close>, the drivers' \<^verbatim>\<open>session_codec.go\<close>):
    codecs, preparation, forking, renewal, release and persistence over an abstract store and world.
  \<^item> ThreadStoreEngine (\<^verbatim>\<open>threadstore_engine.go\<close>): the adapter between the coordinator and a store.
    SessionTrace: the store with a log of its calls, which shows that every lookup happens under the leases.
    ThreadLifecycle composes coordinator, adapter and memory store: no lost update, persist then resume,
    isolated forks, leases given back on failure.
  \<^item> Events (\<^verbatim>\<open>events.go\<close>, \<^verbatim>\<open>driver/events.go\<close>, \<^verbatim>\<open>errors.go\<close>): event types, their classification and translation.
  \<^item> EventBroker (\<^verbatim>\<open>event_broker.go\<close>): the operations. EventStream: each operation's effect on the stream a
    reader sees. BrokerSystem: the system of producers, pump and reader; order, no loss of critical
    events, terminal event last, draining after close. LossAccounting: the locale \<open>loss_account\<close> for any
    weight of dropped events, interpreted for totals and for counts per kind, with summaries taken in from other brokers
    (as a standby's broker does) weighed by what they count. BrokerBounds: bounds on the backlog and a sample run.
  \<^item> EventSink (\<^verbatim>\<open>sink.go\<close>): driver output, the run envelope, failures and the approval dispatcher.
    The sink records its attempts in \<open>sk_attempts\<close>, which no operation reads. SinkGuarantees: the dispatcher ends with one notice per
    attempt, never invents a decision and accounts for every abort; one run envelope, whatever run services feed
    through their pump (\<^verbatim>\<open>startPumps\<close> of \<^verbatim>\<open>runservices.go\<close>).
  \<^item> MessageHub (\<^verbatim>\<open>messages.go\<close>): the hub with its items on a heap. HubProtocol: the life of a message as small
    moves with an invariant. HubSystem: every method is a sequence of moves. HubExecution: any interleaving of
    senders, driver and execution. HubGuarantees: refinement of an append-only ledger, single settlement,
    draining, bounded batches in order, no second delivery, receipts, turn numbering.
  \<^item> ThreadHistory (\<^verbatim>\<open>thread_continuity.go\<close>): the guidance and turns a record carries, within byte budgets.
    ThreadRuntime (\<^verbatim>\<open>thread_runtime.go\<close>, the stateful part of \<^verbatim>\<open>threadstore_engine.go\<close>): ownership between
    executions, pending checkpoints and both recovery loops. ThreadRecovery: a before/after relation every section
    satisfies. RuntimeGuarantees: lost ownership is final, recovery validates, no checkpoint is dropped.
  \<^item> Standby (\<^verbatim>\<open>standby_runtime.go\<close>): admission, forwarding to the running execution, retry and carry of failed
    messages. StandbySystem: senders, loop and executions in any interleaving, with the hub of each execution
    as its reachable states. StandbyGuarantees: no message is lost.
  \<^item> TeamStore (\<^verbatim>\<open>hosttools/team/store.go\<close>, \<^verbatim>\<open>types.go\<close>): the store of a team with scope leases, tasks, the leader's
    inbox and artifacts. TeamHistory: what a call can do to a scope; scopes stay well formed and only move forward.
    TeamGuarantees: a second interpretation of \<open>fenced_leases\<close>, compare-and-swap of tasks, exclusive claims, final
    deliveries, injective keys.
  \<^item> JsonNumber (\<^verbatim>\<open>internal/jsonnumber/integer.go\<close>): reading integers from decoded JSON; it is exact with respect to the
    JSON number grammar and the rational value of a literal.
  \<^item> ToolCatalog (\<^verbatim>\<open>tool/errors.go\<close>, \<^verbatim>\<open>internal/toolruntime/runtime.go\<close>): host-defined tools; only trusted texts of a failure reach
    the model, and the fingerprint of a catalog does not depend on the order of its tools. ToolGateway: the gateway all
    agents share, with registrations, tokens, slots, and the life of a runtime. GatewaySystem: agents, requests and the
    network in any interleaving, with an invariant. GatewayGuarantees: calls reach the catalog of the agent whose token they
    present, closing waits for calls and can always end, agents share one gateway whose listener is not closed under them.

  \<^bold>\<open>Ghosts and hypotheses.\<close> Some states carry a history that no operation reads: the writes of a recovery
  (\<open>rs_writes\<close>), the attempts of the dispatcher (\<open>sk_attempts\<close>), the accepted messages and ended executions of a standby, and
  \<open>sy_breach\<close>, set when a host sends a message with execution options under an ID used before, or under the ID of the wrap-up
  instruction. The code does not check for either, and \<open>resend_in_flight_doubles\<close> shows what follows; the guarantee of the standby holds as
  long as \<open>sy_breach\<close> is not set. \<open>hub_boot\<close> is a hub that has taken up any carried messages (\<^verbatim>\<open>carryPrompt\<close>), \<open>hub_run\<close>
  starts an execution on it (\<^verbatim>\<open>startMessage\<close>, as \<^verbatim>\<open>invocation.go\<close> does) and goes on by \<open>hub_step\<close>; that the starting prompt's ID is not
  among the carried ones, which the code does not check, is a hypothesis of the theorems that need it and part of \<open>hub_reachable\<close>. The freshness of a generated session ID is a
  hypothesis of the theorem about forks.

  \<^bold>\<open>Simplifications.\<close> The digest \<open>re_hash\<close> of a runtime's records is a parameter without laws: \<^verbatim>\<open>engine.StableHash\<close> encodes to JSON and hashes with
  SHA-256, and nothing here depends on its value. \<open>prepareSessionPlan\<close> is one function on the store, so other callers do not
  interleave between its resolving, its acquiring of leases and its second resolving; \<open>SessionTrace\<close> only shows their order. The hooks of
  \<open>releaseContext\<close> run one after the other and return. \<open>store_finalize\<close> is the adapter of \<^verbatim>\<open>threadstore_engine.go\<close> for a coordinator alone;
  with a thread runtime, delivered messages and history, it is \<open>adapter_Finalize\<close>. A sender that waits for capacity tries again
  (\<open>send_attempt\<close>), also when its context has ended. In HubExecution the acknowledgement of a prompt takes one step per ID, as the code's
  separate critical sections do (\<open>ack_prompt_one\<close>).

  \<^bold>\<open>Bounds and fuel.\<close> No definition uses fuel. Loops over Go maps and slices are folds; the loops that are
  not structural (\<open>utf16_units\<close>, \<open>fresh_id\<close> and the draining of a stream) have termination proofs or an
  explicit bound on the number of rounds in the theorem that uses them.

  \<^bold>\<open>Not modelled.\<close> The provider drivers (process handling and output parsing of \<^verbatim>\<open>claude\<close>, \<^verbatim>\<open>codex\<close>,
  \<^verbatim>\<open>cursor\<close>, \<^verbatim>\<open>codebuddy\<close>) beyond their session codecs, the protocol bridges and clients, the executions of a team, profile and
  skill materialisation on disk, and the wiring of options. The \<^verbatim>\<open>changed\<close> broadcast of the message hub is
  represented by waiting senders that may retry at any time.
\<close>

end
